(* ===== verification/Prelude.thy ===== *)
theory Prelude
  imports Complex_Main "HOL-Library.Sublist"
begin

text \<open>
  Shared vocabulary of the development.

  The first group models what the source takes from the JavaScript language itself: the
  numbers an interface may be handed (\<open>jsnum\<close>, with the non-finite values apart from the
  finite ones), \<open>Array.prototype.splice(i, 1)\<close> (\<open>splice1\<close>) and insertion ordered maps.
  A finite number is an exact rational: the model ignores the rounding of doubles, which
  for the integral millisecond values, counters and lengths of the source starts at 2^53.

  The second group is the error-state monad in which the stateful components are written:
  an operation takes the state and returns a thrown value or a result with the new state.
  A throw keeps the state changes made before it, as in the source.  \<open>hoare\<close> is partial
  correctness of such an operation with a separate postcondition for throws; its rules are
  in the collection \<open>hoare_rules\<close>.
\<close>

section \<open>JavaScript numbers\<close>

datatype jsnum = Fin rat | PosInf | NegInf | NaN

definition num_isFinite :: "jsnum \<Rightarrow> bool" where
  "num_isFinite v = (case v of Fin _ \<Rightarrow> True | _ \<Rightarrow> False)"

definition rat_isInteger :: "rat \<Rightarrow> bool" where
  "rat_isInteger q = (q = of_int \<lfloor>q\<rfloor>)"

definition MAX_SAFE_INTEGER :: int where
  "MAX_SAFE_INTEGER = 9007199254740991"

definition num_isSafeInteger :: "jsnum \<Rightarrow> bool" where
  "num_isSafeInteger v =
     (case v of Fin q \<Rightarrow> rat_isInteger q \<and> \<bar>q\<bar> \<le> of_int MAX_SAFE_INTEGER | _ \<Rightarrow> False)"

section \<open>Lists\<close>

definition splice1 :: "nat \<Rightarrow> 'a list \<Rightarrow> 'a list" where
  "splice1 i xs = take i xs @ drop (Suc i) xs"

lemma set_splice1_subset: "set (splice1 i xs) \<subseteq> set xs"
  by (auto simp: splice1_def dest: in_set_takeD in_set_dropD)

lemma splice1_split: "i < length xs \<Longrightarrow> xs = take i xs @ xs ! i # drop (Suc i) xs"
  by (rule id_take_nth_drop)

lemma distinct_map_splice1: "distinct (map f xs) \<Longrightarrow> distinct (map f (splice1 i xs))"
proof (cases "i < length xs")
  case True
  assume d: "distinct (map f xs)"
  from splice1_split [OF True] d
  have "distinct (map f (take i xs @ xs ! i # drop (Suc i) xs))" by simp
  then show ?thesis by (auto simp: splice1_def)
qed (simp add: splice1_def)

lemma set_splice1_distinct:
  assumes "distinct (map f xs)" "i < length xs"
  shows "set (splice1 i xs) = {x \<in> set xs. f x \<noteq> f (xs ! i)}"
proof -
  let ?ys = "take i xs @ xs ! i # drop (Suc i) xs"
  have "distinct (map f ?ys)" using assms splice1_split by metis
  then have "set (splice1 i xs) = {x \<in> set ?ys. f x \<noteq> f (xs ! i)}"
    by (simp add: splice1_def set_eq_iff image_iff) metis
  then show ?thesis using splice1_split [OF assms(2)] by metis
qed

lemma subseq_splice1: "subseq (splice1 i xs) xs"
proof (cases "i < length xs")
  case True
  then have "subseq (take i xs @ drop (Suc i) xs) (take i xs @ xs ! i # drop (Suc i) xs)"
    by (intro list_emb_append_mono) auto
  then show ?thesis using splice1_split [OF True] by (simp add: splice1_def)
qed (simp add: splice1_def)

lemma subseq_remove1: "subseq (remove1 x xs) xs"
  by (induction xs) auto

lemma subseq_set: "subseq xs ys \<Longrightarrow> set xs \<subseteq> set ys"
  by (induction rule: list_emb.induct) auto

lemma subseq_distinct: "subseq xs ys \<Longrightarrow> distinct ys \<Longrightarrow> distinct xs"
  by (induction rule: list_emb.induct) (auto dest: subseq_set)

lemma subseq_sorted_wrt: "subseq xs ys \<Longrightarrow> sorted_wrt R ys \<Longrightarrow> sorted_wrt R xs"
  by (induction rule: list_emb.induct) (auto dest!: subseq_set)

lemma set_remove1_key:
  assumes "distinct (map f xs)" "x \<in> set xs"
  shows "set (remove1 x xs) = {y \<in> set xs. f y \<noteq> f x}"
proof -
  have "distinct xs" using assms(1) by (simp add: distinct_map)
  then show ?thesis using assms by (auto simp: distinct_map inj_on_def)
qed

text \<open>An index: a partial map holding exactly the elements of a set under their keys.\<close>

definition indexed :: "('a \<Rightarrow> 'k) \<Rightarrow> ('k \<rightharpoonup> 'a) \<Rightarrow> 'a set \<Rightarrow> bool" where
  "indexed f m T \<longleftrightarrow> (\<forall>i t. m i = Some t \<longleftrightarrow> t \<in> T \<and> f t = i)"

lemma indexed_insert:
  "indexed f m T \<Longrightarrow> m (f x) = None \<Longrightarrow> indexed f (m(f x \<mapsto> x)) (insert x T)"
  unfolding indexed_def
  by (metis fun_upd_apply insertE insertI1 insertI2 option.distinct(1) option.inject)

lemma indexed_remove: "indexed f m T \<Longrightarrow> indexed f (m(i := None)) {t \<in> T. f t \<noteq> i}"
  by (auto simp: indexed_def)

lemma indexed_replace:
  "indexed f m T \<Longrightarrow> indexed f (m(f x \<mapsto> x)) (insert x {t \<in> T. f t \<noteq> f x})"
  unfolding indexed_def by auto

lemma indexed_member: "indexed f m T \<Longrightarrow> t \<in> T \<Longrightarrow> m (f t) = Some t"
  by (simp add: indexed_def)

lemma indexed_lookup: "indexed f m T \<Longrightarrow> m i = Some t \<Longrightarrow> t \<in> T \<and> f t = i"
  by (simp add: indexed_def)

section \<open>The error-state monad\<close>

type_synonym ('s, 'e, 'a) op = "'s \<Rightarrow> ('e + 'a) \<times> 's"

definition ret :: "'a \<Rightarrow> ('s, 'e, 'a) op" where
  "ret x s = (Inr x, s)"

definition throw :: "'e \<Rightarrow> ('s, 'e, 'a) op" where
  "throw e s = (Inl e, s)"

definition modify :: "('s \<Rightarrow> 's) \<Rightarrow> ('s, 'e, unit) op" where
  "modify f s = (Inr (), f s)"

definition gets :: "('s \<Rightarrow> 'a) \<Rightarrow> ('s, 'e, 'a) op" where
  "gets f s = (Inr (f s), s)"

definition seqE :: "('s, 'e, 'a) op \<Rightarrow> ('a \<Rightarrow> ('s, 'e, 'b) op) \<Rightarrow> ('s, 'e, 'b) op" where
  "seqE m f s = (case m s of (Inl e, s') \<Rightarrow> (Inl e, s') | (Inr x, s') \<Rightarrow> f x s')"

text \<open>\<open>try m catch h\<close>: the handler runs on the state the throw left.\<close>

definition tryE :: "('s, 'e, 'a) op \<Rightarrow> ('e \<Rightarrow> ('s, 'e, 'a) op) \<Rightarrow> ('s, 'e, 'a) op" where
  "tryE m h s = (case m s of (Inl e, s') \<Rightarrow> h e s' | (Inr x, s') \<Rightarrow> (Inr x, s'))"

definition guardE :: "bool \<Rightarrow> 'e \<Rightarrow> ('s, 'e, unit) op" where
  "guardE b e = (if b then ret () else throw e)"

lemmas monad_defs = ret_def throw_def modify_def gets_def seqE_def tryE_def guardE_def

section \<open>Partial correctness of an operation\<close>

definition hoare ::
    "('s \<Rightarrow> bool) \<Rightarrow> ('s, 'e, 'a) op \<Rightarrow> ('a \<Rightarrow> 's \<Rightarrow> bool) \<Rightarrow> ('e \<Rightarrow> 's \<Rightarrow> bool) \<Rightarrow> bool" where
  "hoare P m Q E \<longleftrightarrow>
     (\<forall>s. P s \<longrightarrow> (case m s of (Inl e, s') \<Rightarrow> E e s' | (Inr x, s') \<Rightarrow> Q x s'))"

named_theorems hoare_rules

lemma hoareI:
  "(\<And>s e s'. P s \<Longrightarrow> m s = (Inl e, s') \<Longrightarrow> E e s') \<Longrightarrow>
   (\<And>s x s'. P s \<Longrightarrow> m s = (Inr x, s') \<Longrightarrow> Q x s') \<Longrightarrow> hoare P m Q E"
  by (auto simp: hoare_def split: prod.splits sum.splits)

lemma hoareD:
  "hoare P m Q E \<Longrightarrow> P s \<Longrightarrow> m s = (r, s') \<Longrightarrow>
   (case r of Inl e \<Rightarrow> E e s' | Inr x \<Rightarrow> Q x s')"
  by (auto simp: hoare_def split: prod.splits sum.splits)

lemma hoareD_ok: "hoare P m Q E \<Longrightarrow> P s \<Longrightarrow> m s = (Inr x, s') \<Longrightarrow> Q x s'"
  by (auto dest: hoareD)

lemma hoareD_err: "hoare P m Q E \<Longrightarrow> P s \<Longrightarrow> m s = (Inl e, s') \<Longrightarrow> E e s'"
  by (auto dest: hoareD)

lemma hoare_snd:
  "hoare P m (\<lambda>_. Q) (\<lambda>_. Q) \<Longrightarrow> P s \<Longrightarrow> Q (snd (m s))"
  by (cases "m s"; cases "fst (m s)") (auto simp: hoare_def)

lemma hoare_pre: "hoare P m Q E \<Longrightarrow> (\<And>s. P' s \<Longrightarrow> P s) \<Longrightarrow> hoare P' m Q E"
  by (auto simp: hoare_def)

lemma hoare_weaken:
  "hoare P m Q E \<Longrightarrow> (\<And>s. P' s \<Longrightarrow> P s) \<Longrightarrow> (\<And>x s. Q x s \<Longrightarrow> Q' x s) \<Longrightarrow>
   (\<And>e s. E e s \<Longrightarrow> E' e s) \<Longrightarrow> hoare P' m Q' E'"
  unfolding hoare_def by (auto split: prod.splits sum.splits) (metis+)?

lemma hoare_post:
  "hoare P m Q E \<Longrightarrow> (\<And>x s. Q x s \<Longrightarrow> Q' x s) \<Longrightarrow> (\<And>e s. E e s \<Longrightarrow> E' e s) \<Longrightarrow>
   hoare P m Q' E'"
  by (rule hoare_weaken)

lemma hoare_ret: "hoare (\<lambda>s. Q x s) (ret x) Q E"
  by (auto simp: hoare_def ret_def)

lemma hoare_throw: "hoare (\<lambda>s. E e s) (throw e) Q E"
  by (auto simp: hoare_def throw_def)

lemma hoare_modify: "hoare (\<lambda>s. Q () (f s)) (modify f) Q E"
  by (auto simp: hoare_def modify_def)

lemma hoare_gets: "hoare (\<lambda>s. Q (f s) s) (gets f) Q E"
  by (auto simp: hoare_def gets_def)

lemma hoare_guard: "hoare (\<lambda>s. if b then Q () s else E e s) (guardE b e) Q E"
  by (auto simp: hoare_def guardE_def ret_def throw_def)

lemma hoare_seq: "hoare P m R E \<Longrightarrow> (\<And>x. hoare (R x) (f x) Q E) \<Longrightarrow> hoare P (seqE m f) Q E"
  unfolding hoare_def seqE_def by (fastforce split: prod.splits sum.splits)

lemma hoare_try: "hoare P m Q F \<Longrightarrow> (\<And>e. hoare (F e) (h e) Q E) \<Longrightarrow> hoare P (tryE m h) Q E"
  unfolding hoare_def tryE_def by (fastforce split: prod.splits sum.splits)

lemma hoare_if:
  "(b \<Longrightarrow> hoare P m Q E) \<Longrightarrow> (\<not> b \<Longrightarrow> hoare P n Q E) \<Longrightarrow> hoare P (if b then m else n) Q E"
  by simp

text \<open>
  \<open>keeps I m\<close>: the operation keeps the invariant, whether it returns or throws.  This is
  the shape most lemmas of the stateful components have.
\<close>

abbreviation keeps :: "('s \<Rightarrow> bool) \<Rightarrow> ('s, 'e, 'a) op \<Rightarrow> bool" where
  "keeps I m \<equiv> hoare I m (\<lambda>_. I) (\<lambda>_. I)"

named_theorems keeps_rules

lemma keeps_ret [keeps_rules]: "keeps I (ret x)" by (rule hoare_ret)
lemma keeps_throw [keeps_rules]: "keeps I (throw e)" by (rule hoare_throw)
lemma keeps_gets [keeps_rules]: "keeps I (gets f)" by (rule hoare_gets)
lemma keeps_guard [keeps_rules]: "keeps I (guardE b e)"
  by (auto simp: hoare_def guardE_def ret_def throw_def)
lemma keeps_modify: "(\<And>s. I s \<Longrightarrow> I (f s)) \<Longrightarrow> keeps I (modify f)"
  by (auto simp: hoare_def modify_def)
lemma keeps_seq [keeps_rules]: "keeps I m \<Longrightarrow> (\<And>x. keeps I (f x)) \<Longrightarrow> keeps I (seqE m f)"
  by (rule hoare_seq)
lemma keeps_try [keeps_rules]: "keeps I m \<Longrightarrow> (\<And>e. keeps I (h e)) \<Longrightarrow> keeps I (tryE m h)"
  by (rule hoare_try)
lemma keeps_if [keeps_rules]: "keeps I m \<Longrightarrow> keeps I n \<Longrightarrow> keeps I (if b then m else n)"
  by simp

lemma keeps_snd: "keeps I m \<Longrightarrow> I s \<Longrightarrow> I (snd (m s))"
  by (rule hoare_snd)

lemma keeps_iff: "keeps I m \<longleftrightarrow> (\<forall>s. I s \<longrightarrow> I (snd (m s)))"
proof
  assume "\<forall>s. I s \<longrightarrow> I (snd (m s))"
  then show "keeps I m" by (intro hoareI) (metis snd_conv)+
qed (blast intro: hoare_snd)

lemma seqE_modify [simp]: "seqE (modify f) g s = g () (f s)"
  by (simp add: seqE_def modify_def)

lemma seqE_gets [simp]: "seqE (gets f) g s = g (f s) s"
  by (simp add: seqE_def gets_def)

lemma seqE_ret [simp]: "seqE (ret x) g = g x"
  by (rule ext) (simp add: seqE_def ret_def)

lemma seqE_throw [simp]: "seqE (throw e) g = throw e"
  by (rule ext) (simp add: seqE_def throw_def)

end
