(* ===== verification/Loop_Types.thy ===== *)
theory Loop_Types
  imports Prelude
begin

text \<open>
  Types of the runtime event loop (\<open>packages/runtime/src/event-loop/types.ts\<close> and
  \<open>errors.ts\<close>): tasks, timers, snapshots, the host port and the thrown values.

  A callback is a name \<open>'c\<close>, and the environment gives each name its body.  A body is a
  \<open>prog\<close>: a tree whose nodes read or write the world outside the loop (the JavaScript
  heap, the host clock) or call the loop's public API and go on with the reply.  A
  thrown API error is a reply, since JavaScript code may catch it.  The bodies
  are all terminating interactive programs over the API: a callback may enqueue, cancel,
  shut the loop down, try to run a turn, or throw, and may reschedule itself by name.

  The host port is a record of functions over the world \<open>'w\<close>.  Its \<open>now\<close>,
  \<open>requestWakeup\<close> and \<open>terminate\<close> may throw and may change the world; they do not call
  back into the loop.  The microtask checkpoint runs guest code and is therefore a
  \<open>prog\<close> like a callback.
\<close>

section \<open>Thrown values\<close>

text \<open>
  \<open>HolonomyRuntimeError\<close> and its subclasses, and \<open>Foreign\<close> for any other thrown value.
  The clock error carries the previous reading (\<open>None\<close> for undefined) and the current one.
\<close>

datatype thrown =
    Foreign nat
  | EventLoopDisposedError
  | EventLoopBudgetExceededError nat
  | EventLoopClockError "rat option" jsnum
  | EventLoopCallbackError thrown
  | EventLoopMicrotaskCheckpointError thrown
  | EventLoopWakeupError thrown
  | EventLoopNativeRequestNotPendingError string
  | EventLoopReentrantTurnError
  | EventLoopOptionError string

datatype error_code =
    ERR_HOLONOMY_CALLBACK_FAILED
  | ERR_HOLONOMY_CLOCK_NOT_MONOTONIC
  | ERR_HOLONOMY_DISPOSED
  | ERR_HOLONOMY_INVALID_OPTION
  | ERR_HOLONOMY_MICROTASK_CHECKPOINT_FAILED
  | ERR_HOLONOMY_NATIVE_REQUEST_NOT_PENDING
  | ERR_HOLONOMY_TASK_BUDGET_EXCEEDED
  | ERR_HOLONOMY_TURN_REENTRANT
  | ERR_HOLONOMY_WAKEUP_FAILED

text \<open>The \<open>code\<close> field the constructors set; a foreign value has none.\<close>

fun code_of :: "thrown \<Rightarrow> error_code option" where
  "code_of (Foreign _) = None"
| "code_of EventLoopDisposedError = Some ERR_HOLONOMY_DISPOSED"
| "code_of (EventLoopBudgetExceededError _) = Some ERR_HOLONOMY_TASK_BUDGET_EXCEEDED"
| "code_of (EventLoopClockError _ _) = Some ERR_HOLONOMY_CLOCK_NOT_MONOTONIC"
| "code_of (EventLoopCallbackError _) = Some ERR_HOLONOMY_CALLBACK_FAILED"
| "code_of (EventLoopMicrotaskCheckpointError _) = Some ERR_HOLONOMY_MICROTASK_CHECKPOINT_FAILED"
| "code_of (EventLoopWakeupError _) = Some ERR_HOLONOMY_WAKEUP_FAILED"
| "code_of (EventLoopNativeRequestNotPendingError _) =
     Some ERR_HOLONOMY_NATIVE_REQUEST_NOT_PENDING"
| "code_of EventLoopReentrantTurnError = Some ERR_HOLONOMY_TURN_REENTRANT"
| "code_of (EventLoopOptionError _) = Some ERR_HOLONOMY_INVALID_OPTION"

definition isHolonomyRuntimeError :: "thrown \<Rightarrow> bool" where
  "isHolonomyRuntimeError e = (case e of Foreign _ \<Rightarrow> False | _ \<Rightarrow> True)"

datatype termination_reason =
    Shutdown_reason
  | Error_reason thrown

section \<open>Tasks, timers, snapshots\<close>

datatype wakeup_phase = Phase_next_tick | Phase_event_loop

datatype ready_kind = Macrotask | NativeCompletion

record 'c ready_task =
  rt_callback :: 'c
  rt_ioCallback :: bool
  rt_id :: nat
  rt_kind :: ready_kind
  rt_nativeRequestId :: "string option"
  rt_readyAt :: rat
  rt_ref :: bool
  rt_sequence :: nat

record 'c immediate_task =
  im_callback :: 'c
  im_id :: nat
  im_ref :: bool
  im_sequence :: nat

record 'c tick_task =
  nt_callback :: 'c
  nt_id :: nat
  nt_ref :: bool

record 'c timer_record =
  tm_callback :: 'c
  tm_dueAt :: rat
  tm_id :: nat
  tm_intervalMs :: "rat option"
  tm_ref :: bool
  tm_sequence :: nat

text \<open>A value of \<open>tasksById\<close>: the code tells the three apart by their \<open>kind\<close> field.\<close>

datatype 'c task =
    ReadyTask "'c ready_task"
  | ImmediateTask "'c immediate_task"
  | NextTickTask "'c tick_task"

text \<open>What \<open>takeReadyTask\<close> returns.\<close>

datatype 'c selected =
    SelReady "'c ready_task"
  | SelImmediate "'c immediate_task"
  | SelTimer "'c timer_record"

datatype task_kind =
    Kind_immediate | Kind_macrotask | Kind_native_completion | Kind_next_tick | Kind_timer

record snapshot =
  hasPendingWork :: bool
  isAlive :: bool
  nextWakeupAt :: "rat option"

datatype turn_status = Status_idle | Status_ran | Status_shutdown

record turn_result = snapshot +
  callbacksProcessed :: nat
  status :: turn_status
  taskKind :: "task_kind option"

section \<open>The public API as data, programs over it, the host port\<close>

text \<open>
  \<open>None\<close> for a callback stands for a value that is not a function; \<open>None\<close> for a \<open>ref\<close>
  option stands for \<open>undefined\<close>.
\<close>

datatype 'c api =
    EnqueueMacrotask "'c option" "bool option"
  | EnqueueIoCallback "'c option" "bool option"
  | EnqueueImmediate "'c option" "bool option"
  | EnqueueNextTick "'c option" "bool option"
  | CancelTask nat
  | SetTimer "'c option" jsnum "jsnum option" "bool option"
  | ClearTimer nat
  | SetTimerRef nat bool
  | HasRefTimer nat
  | SetImmediateRef nat bool
  | HasRefImmediate nat
  | RegisterNativeRequest string "bool option"
  | CompleteNativeRequest string "'c option" "bool option"
  | CancelNativeRequest string
  | SetNativeRequestRef string bool
  | GetCurrentTime
  | GetSnapshot
  | AddLifecycleObserver "'c option"
  | RemoveLifecycleObserver 'c
  | RunTurn
  | RunNextTickCheckpoint
  | Shutdown

datatype reply =
    RId nat
  | RBool bool
  | RUnit
  | RTime rat
  | RSnapshot snapshot
  | RTurn turn_result

datatype ('c, 'w) prog =
    Done
  | Throw thrown
  | Read "'w \<Rightarrow> ('c, 'w) prog"
  | Write "'w \<Rightarrow> 'w" "('c, 'w) prog"
  | Call "'c api" "thrown + reply \<Rightarrow> ('c, 'w) prog"

text \<open>
  \<open>HostEventLoopPort\<close>, the resolved options of the constructor, and the bodies of the
  callbacks and of the lifecycle observers.
\<close>

record ('c, 'w) env =
  port_now :: "'w \<Rightarrow> (thrown + jsnum) \<times> 'w"
  port_requestWakeup :: "rat option \<Rightarrow> wakeup_phase option \<Rightarrow> 'w \<Rightarrow> thrown option \<times> 'w"
  port_checkpointMicrotasks :: "('c, 'w) prog"
  port_terminate :: "termination_reason \<Rightarrow> 'w \<Rightarrow> thrown option \<times> 'w"
  maxCallbacksPerTurn :: nat
  maxTimerDelayMs :: rat
  minimumIntervalMs :: rat
  body :: "'c \<Rightarrow> ('c, 'w) prog"
  observer_body :: "'c \<Rightarrow> termination_reason \<Rightarrow> ('c, 'w) prog"

section \<open>Constructor options\<close>

record loop_options =
  opt_maxCallbacksPerTurn :: int
  opt_maxTimerDelayMs :: int
  opt_minimumIntervalMs :: int

definition DEFAULT_MAX_CALLBACKS_PER_TURN :: int where
  "DEFAULT_MAX_CALLBACKS_PER_TURN = 1024"

definition DEFAULT_MAX_TIMER_DELAY_MS :: int where
  "DEFAULT_MAX_TIMER_DELAY_MS = 2147483647"

definition DEFAULT_MINIMUM_INTERVAL_MS :: int where
  "DEFAULT_MINIMUM_INTERVAL_MS = 1"

definition readPositiveInteger :: "string \<Rightarrow> jsnum option \<Rightarrow> int \<Rightarrow> thrown + int" where
  "readPositiveInteger name v fallback =
     (let resolved = (case v of None \<Rightarrow> Fin (of_int fallback) | Some x \<Rightarrow> x)
      in case resolved of
           Fin q \<Rightarrow> if \<not> num_isSafeInteger (Fin q) \<or> q \<le> 0 then Inl (EventLoopOptionError name)
                    else Inr \<lfloor>q\<rfloor>
         | _ \<Rightarrow> Inl (EventLoopOptionError name))"

definition resolveOptions ::
    "jsnum option \<Rightarrow> jsnum option \<Rightarrow> jsnum option \<Rightarrow> thrown + loop_options" where
  "resolveOptions maxCallbacks maxDelay minInterval =
     (case readPositiveInteger ''maxTimerDelayMs'' maxDelay DEFAULT_MAX_TIMER_DELAY_MS of
        Inl e \<Rightarrow> Inl e
      | Inr d \<Rightarrow>
     (case readPositiveInteger ''minimumIntervalMs'' minInterval DEFAULT_MINIMUM_INTERVAL_MS of
        Inl e \<Rightarrow> Inl e
      | Inr i \<Rightarrow>
        if i > d then Inl (EventLoopOptionError ''minimumIntervalMs'')
        else
     (case readPositiveInteger ''maxCallbacksPerTurn'' maxCallbacks
             DEFAULT_MAX_CALLBACKS_PER_TURN of
        Inl e \<Rightarrow> Inl e
      | Inr c \<Rightarrow> Inr \<lparr>opt_maxCallbacksPerTurn = c, opt_maxTimerDelayMs = d,
                       opt_minimumIntervalMs = i\<rparr>)))"

text \<open>What the constructor establishes of the options every environment of the model has.\<close>

definition env_ok :: "('c, 'w) env \<Rightarrow> bool" where
  "env_ok E \<longleftrightarrow> 0 < maxCallbacksPerTurn E \<and> 0 < minimumIntervalMs E \<and>
     minimumIntervalMs E \<le> maxTimerDelayMs E"

definition configure :: "loop_options \<Rightarrow> ('c, 'w) env \<Rightarrow> ('c, 'w) env" where
  "configure opts E = E\<lparr>maxCallbacksPerTurn := nat (opt_maxCallbacksPerTurn opts),
     maxTimerDelayMs := of_int (opt_maxTimerDelayMs opts),
     minimumIntervalMs := of_int (opt_minimumIntervalMs opts)\<rparr>"

lemma readPositiveInteger_pos: "readPositiveInteger n v f = Inr x \<Longrightarrow> 0 < x"
  by (auto simp: readPositiveInteger_def Let_def num_isSafeInteger_def rat_isInteger_def
      split: option.splits jsnum.splits if_splits)

lemma configure_env_ok:
  "resolveOptions c d i = Inr opts \<Longrightarrow> env_ok (configure opts E)"
  by (auto simp: resolveOptions_def env_ok_def configure_def dest!: readPositiveInteger_pos
      split: sum.splits if_splits)

end
