(* ===== verification/Loop_Core.thy ===== *)
theory Loop_Core
  imports Loop_Types
begin

text \<open>
  The state of \<open>RuntimeEventLoop\<close> (\<open>runtime-event-loop.ts\<close>) and its operations outside a
  turn: admission of tasks, timers and native requests, cancellation, the wakeup request,
  the snapshot and termination.

  A queue is a list in insertion order; \<open>timers\<close> and \<open>nativeRequests\<close> are
  JavaScript maps and keep insertion order too.  \<open>tasksById\<close> refers to the very objects of
  the queues, so the one operation that mutates a task through it
  (\<open>setImmediateRef\<close>) updates both views; that the views agree is part of the invariant.
  \<open>scheduledWakeupAt\<close> and \<open>scheduledWakeupPhase\<close> have three kinds of value:
  \<open>None\<close> is undefined, \<open>Some None\<close> is null.
\<close>

section \<open>State\<close>

record ('c, 'w) loop =
  activeImmediateBatchCutoff :: "nat option"
  activeIoBatchCutoff :: "nat option"
  immediates :: "'c immediate_task list"
  lifecycleObservers :: "'c list"
  nativeRequests :: "(string \<times> bool) list"
  nextTicks :: "'c tick_task list"
  readyTasks :: "'c ready_task list"
  tasksById :: "nat \<rightharpoonup> 'c task"
  timers :: "'c timer_record list"
  disposed :: bool
  lastNow :: "rat option"
  nextId :: nat
  nextSequence :: nat
  runningTurn :: bool
  scheduledWakeupAt :: "rat option option"
  scheduledWakeupPhase :: "wakeup_phase option option"
  world :: 'w

type_synonym ('c, 'w, 'a) lop = "(('c, 'w) loop, thrown, 'a) op"

definition initial_loop :: "'w \<Rightarrow> ('c, 'w) loop" where
  "initial_loop w =
     \<lparr>activeImmediateBatchCutoff = None, activeIoBatchCutoff = None, immediates = [],
      lifecycleObservers = [], nativeRequests = [], nextTicks = [], readyTasks = [],
      tasksById = (\<lambda>_. None), timers = [], disposed = False, lastNow = None, nextId = 1,
      nextSequence = 1, runningTurn = False, scheduledWakeupAt = None,
      scheduledWakeupPhase = None, world = w\<rparr>"

section \<open>Active queues and the snapshot\<close>

definition activeNextTicks :: "('c, 'w) loop \<Rightarrow> 'c tick_task list" where
  "activeNextTicks s = filter (\<lambda>t. tasksById s (nt_id t) \<noteq> None) (nextTicks s)"

definition activeImmediates :: "('c, 'w) loop \<Rightarrow> 'c immediate_task list" where
  "activeImmediates s = filter (\<lambda>t. tasksById s (im_id t) \<noteq> None) (immediates s)"

definition activeReadyTasks :: "('c, 'w) loop \<Rightarrow> 'c ready_task list" where
  "activeReadyTasks s = filter (\<lambda>t. tasksById s (rt_id t) \<noteq> None) (readyTasks s)"

definition hasRunnableNextTick :: "('c, 'w) loop \<Rightarrow> bool" where
  "hasRunnableNextTick s = list_ex (\<lambda>t. tasksById s (nt_id t) \<noteq> None) (nextTicks s)"

fun wakeup_over_timers :: "rat \<Rightarrow> rat option \<Rightarrow> 'c timer_record list \<Rightarrow> rat option" where
  "wakeup_over_timers now next [] = next"
| "wakeup_over_timers now next (t # ts) =
     wakeup_over_timers now
       (case next of
          None \<Rightarrow> Some (max now (tm_dueAt t))
        | Some n \<Rightarrow> if tm_dueAt t < n then Some (max now (tm_dueAt t)) else Some n) ts"

definition createSnapshot :: "rat \<Rightarrow> ('c, 'w) loop \<Rightarrow> snapshot" where
  "createSnapshot now s =
     (let immediates' = activeImmediates s; readyTasks' = activeReadyTasks s;
          nextTicks' = activeNextTicks s;
          alive = list_ex im_ref immediates' \<or> list_ex nt_ref nextTicks' \<or>
                  list_ex rt_ref readyTasks' \<or> list_ex tm_ref (timers s) \<or>
                  list_ex snd (nativeRequests s);
          pending = immediates' \<noteq> [] \<or> nextTicks' \<noteq> [] \<or> readyTasks' \<noteq> [] \<or>
                    timers s \<noteq> [] \<or> nativeRequests s \<noteq> [];
          start = (if immediates' \<noteq> [] \<or> nextTicks' \<noteq> [] \<or> readyTasks' \<noteq> [] then Some now else None)
      in \<lparr>hasPendingWork = pending, isAlive = alive,
          nextWakeupAt = (if alive then wakeup_over_timers now start (timers s) else None)\<rparr>)"

definition disposed_snapshot :: snapshot where
  "disposed_snapshot = \<lparr>hasPendingWork = False, isAlive = False, nextWakeupAt = None\<rparr>"

definition createShutdownResult :: "nat \<Rightarrow> task_kind option \<Rightarrow> turn_result" where
  "createShutdownResult n k =
     \<lparr>hasPendingWork = False, isAlive = False, nextWakeupAt = None,
      callbacksProcessed = n, status = Status_shutdown, taskKind = k\<rparr>"

section \<open>Termination\<close>

definition clearPendingWork :: "('c, 'w) loop \<Rightarrow> ('c, 'w) loop" where
  "clearPendingWork s =
     s\<lparr>activeImmediateBatchCutoff := None, activeIoBatchCutoff := None, immediates := [],
       nativeRequests := [], nextTicks := [], readyTasks := [], tasksById := (\<lambda>_. None),
       timers := []\<rparr>"

definition requestWakeup :: "('c, 'w) env \<Rightarrow> rat option \<Rightarrow> ('c, 'w, unit) lop" where
  "requestWakeup E deadline s =
     (let phase = (case deadline of None \<Rightarrow> None
                   | Some _ \<Rightarrow> Some (if hasRunnableNextTick s then Phase_next_tick else Phase_event_loop))
      in if scheduledWakeupAt s = Some deadline \<and> scheduledWakeupPhase s = Some phase
         then (Inr (), s)
         else case port_requestWakeup E deadline phase (world s) of
                (Some e, w) \<Rightarrow> (Inl (EventLoopWakeupError e), s\<lparr>world := w\<rparr>)
              | (None, w) \<Rightarrow> (Inr (), s\<lparr>world := w, scheduledWakeupAt := Some deadline,
                                        scheduledWakeupPhase := Some phase\<rparr>))"

text \<open>
  What a call of the public API answers on a loop that is already disposed.  None of them
  changes the loop (\<open>api_disposed\<close> of \<open>Loop_Turn\<close> proves this of the operations below), so an
  observer that runs during termination only acts on the world.
\<close>

fun disposed_reply :: "'c api \<Rightarrow> thrown + reply" where
  "disposed_reply (EnqueueMacrotask _ _) = Inl EventLoopDisposedError"
| "disposed_reply (EnqueueIoCallback _ _) = Inl EventLoopDisposedError"
| "disposed_reply (EnqueueImmediate _ _) = Inl EventLoopDisposedError"
| "disposed_reply (EnqueueNextTick _ _) = Inl EventLoopDisposedError"
| "disposed_reply (CancelTask _) = Inr (RBool False)"
| "disposed_reply (SetTimer _ _ _ _) = Inl EventLoopDisposedError"
| "disposed_reply (ClearTimer _) = Inr (RBool False)"
| "disposed_reply (SetTimerRef _ _) = Inr (RBool False)"
| "disposed_reply (HasRefTimer _) = Inr (RBool False)"
| "disposed_reply (SetImmediateRef _ _) = Inr (RBool False)"
| "disposed_reply (HasRefImmediate _) = Inr (RBool False)"
| "disposed_reply (RegisterNativeRequest _ _) = Inl EventLoopDisposedError"
| "disposed_reply (CompleteNativeRequest _ _ _) = Inl EventLoopDisposedError"
| "disposed_reply (CancelNativeRequest _) = Inr (RBool False)"
| "disposed_reply (SetNativeRequestRef _ _) = Inr (RBool False)"
| "disposed_reply GetCurrentTime = Inl EventLoopDisposedError"
| "disposed_reply GetSnapshot = Inr (RSnapshot disposed_snapshot)"
| "disposed_reply (AddLifecycleObserver _) = Inl EventLoopDisposedError"
| "disposed_reply (RemoveLifecycleObserver _) = Inr (RBool False)"
| "disposed_reply RunTurn = Inr (RTurn (createShutdownResult 0 None))"
| "disposed_reply RunNextTickCheckpoint = Inr (RTurn (createShutdownResult 0 None))"
| "disposed_reply Shutdown = Inr RUnit"

primrec run_detached :: "('c, 'w) prog \<Rightarrow> 'w \<Rightarrow> 'w" where
  "run_detached Done w = w"
| "run_detached (Throw _) w = w"
| "run_detached (Read k) w = run_detached (k w) w"
| "run_detached (Write f p) w = run_detached p (f w)"
| "run_detached (Call a k) w = run_detached (k (disposed_reply a)) w"

fun notify_observers ::
    "('c, 'w) env \<Rightarrow> termination_reason \<Rightarrow> 'c list \<Rightarrow> 'w \<Rightarrow> 'w" where
  "notify_observers E r [] w = w"
| "notify_observers E r (c # cs) w =
     notify_observers E r cs (run_detached (observer_body E c r) w)"

definition finalizeTermination ::
    "('c, 'w) env \<Rightarrow> termination_reason \<Rightarrow> ('c, 'w) loop \<Rightarrow> ('c, 'w) loop" where
  "finalizeTermination E reason s =
     (if disposed s then s
      else
        let s1 = clearPendingWork (s\<lparr>disposed := True\<rparr>);
            s2 = (case requestWakeup E None s1 of
                    (Inr _, t) \<Rightarrow> t
                  | (Inl _, t) \<Rightarrow> t\<lparr>scheduledWakeupAt := Some None, scheduledWakeupPhase := Some None\<rparr>);
            w1 = notify_observers E reason (lifecycleObservers s2) (world s2);
            w2 = snd (port_terminate E reason w1)
        in s2\<lparr>lifecycleObservers := [], world := w2\<rparr>)"

definition fail :: "('c, 'w) env \<Rightarrow> thrown \<Rightarrow> ('c, 'w, 'a) lop" where
  "fail E e s = (Inl e, finalizeTermination E (Error_reason e) s)"

definition shutdown :: "('c, 'w) env \<Rightarrow> ('c, 'w, unit) lop" where
  "shutdown E s =
     (if disposed s then (Inr (), s)
      else (Inr (), finalizeTermination E Shutdown_reason s))"

section \<open>Clock and wakeup\<close>

definition assertAcceptingWork :: "('c, 'w, unit) lop" where
  "assertAcceptingWork s = (if disposed s then (Inl EventLoopDisposedError, s) else (Inr (), s))"

definition assertCallback :: "'c option \<Rightarrow> ('c, 'w, 'c) lop" where
  "assertCallback c =
     (case c of None \<Rightarrow> throw (EventLoopOptionError ''callback'') | Some f \<Rightarrow> ret f)"

definition assertRequestId :: "string \<Rightarrow> ('c, 'w, unit) lop" where
  "assertRequestId r = guardE (r \<noteq> []) (EventLoopOptionError ''requestId'')"

definition readNow :: "('c, 'w) env \<Rightarrow> ('c, 'w, rat) lop" where
  "readNow E s =
     (case port_now E (world s) of
        (Inl e, w) \<Rightarrow> (Inl e, s\<lparr>world := w\<rparr>)
      | (Inr v, w) \<Rightarrow>
         (let s1 = s\<lparr>world := w\<rparr>
          in case v of
               Fin now \<Rightarrow>
                 if now < 0 then fail E (EventLoopClockError (lastNow s) v) s1
                 else if (case lastNow s of None \<Rightarrow> False | Some p \<Rightarrow> now < p)
                 then fail E (EventLoopClockError (lastNow s) v) s1
                 else (Inr now, s1\<lparr>lastNow := Some now\<rparr>)
             | _ \<Rightarrow> fail E (EventLoopClockError (lastNow s) v) s1))"

definition normalizeWakeupError :: "thrown \<Rightarrow> thrown" where
  "normalizeWakeupError e = (if isHolonomyRuntimeError e then e else EventLoopWakeupError e)"

definition reconcileWakeupAt :: "('c, 'w) env \<Rightarrow> rat \<Rightarrow> ('c, 'w, unit) lop" where
  "reconcileWakeupAt E now s = requestWakeup E (nextWakeupAt (createSnapshot now s)) s"

definition reconcileWakeupIfActive :: "('c, 'w) env \<Rightarrow> ('c, 'w, unit) lop" where
  "reconcileWakeupIfActive E s =
     (if disposed s then (Inr (), s)
      else tryE (seqE (readNow E) (reconcileWakeupAt E))
                (\<lambda>e. fail E (normalizeWakeupError e)) s)"

definition commitWakeupAdmission ::
    "('c, 'w) env \<Rightarrow> rat \<Rightarrow> (('c, 'w) loop \<Rightarrow> ('c, 'w) loop) \<Rightarrow> ('c, 'w, unit) lop" where
  "commitWakeupAdmission E now rollback =
     tryE (reconcileWakeupAt E now)
          (\<lambda>e. seqE (modify rollback) (\<lambda>_. fail E (normalizeWakeupError e)))"

definition getCurrentTime :: "('c, 'w) env \<Rightarrow> ('c, 'w, rat) lop" where
  "getCurrentTime E = seqE assertAcceptingWork (\<lambda>_. readNow E)"

definition getSnapshot :: "('c, 'w) env \<Rightarrow> ('c, 'w, snapshot) lop" where
  "getSnapshot E s =
     (if disposed s then (Inr disposed_snapshot, s)
      else seqE (readNow E) (\<lambda>now. gets (createSnapshot now)) s)"

definition allocateId :: "('c, 'w, nat) lop" where
  "allocateId s = (Inr (nextId s), s\<lparr>nextId := nextId s + 1\<rparr>)"

definition allocateSequence :: "('c, 'w, nat) lop" where
  "allocateSequence s = (Inr (nextSequence s), s\<lparr>nextSequence := nextSequence s + 1\<rparr>)"

end
