(* ===== verification/Loop_Ops.thy ===== *)
theory Loop_Ops
  imports Loop_Core
begin

text \<open>
  The operations of \<open>RuntimeEventLoop\<close> that admit, cancel and select work.  Each follows
  the method of the same name; \<open>ref ?? true\<close> is \<open>ref_or_true\<close>.
\<close>

definition ref_or_true :: "bool option \<Rightarrow> bool" where
  "ref_or_true r = (case r of None \<Rightarrow> True | Some b \<Rightarrow> b)"

section \<open>Admission\<close>

definition push_ready :: "'c ready_task \<Rightarrow> ('c, 'w) loop \<Rightarrow> ('c, 'w) loop" where
  "push_ready t s = s\<lparr>readyTasks := readyTasks s @ [t],
                      tasksById := (tasksById s)(rt_id t \<mapsto> ReadyTask t)\<rparr>"

definition drop_ready :: "'c ready_task \<Rightarrow> ('c, 'w) loop \<Rightarrow> ('c, 'w) loop" where
  "drop_ready t s = s\<lparr>tasksById := (tasksById s)(rt_id t := None),
                      readyTasks := remove1 t (readyTasks s)\<rparr>"

definition enqueueReadyTaskAt ::
    "('c, 'w) env \<Rightarrow> ready_kind \<Rightarrow> 'c \<Rightarrow> bool \<Rightarrow> rat \<Rightarrow> string option \<Rightarrow> bool \<Rightarrow> ('c, 'w, nat) lop"
where
  "enqueueReadyTaskAt E kind callback ref readyAt nativeId io =
     seqE allocateId (\<lambda>i. seqE allocateSequence (\<lambda>q.
       let t = \<lparr>rt_callback = callback, rt_ioCallback = io, rt_id = i, rt_kind = kind,
                rt_nativeRequestId = nativeId, rt_readyAt = readyAt, rt_ref = ref,
                rt_sequence = q\<rparr>
       in seqE (modify (push_ready t)) (\<lambda>_.
          seqE (commitWakeupAdmission E readyAt (drop_ready t)) (\<lambda>_. ret i))))"

definition enqueueReadyTask ::
    "('c, 'w) env \<Rightarrow> ready_kind \<Rightarrow> 'c option \<Rightarrow> bool \<Rightarrow> string option \<Rightarrow> bool \<Rightarrow> ('c, 'w, nat) lop"
where
  "enqueueReadyTask E kind callback ref nativeId io =
     seqE assertAcceptingWork (\<lambda>_. seqE (assertCallback callback) (\<lambda>c.
     seqE (readNow E) (\<lambda>now. enqueueReadyTaskAt E kind c ref now nativeId io)))"

definition enqueueMacrotask ::
    "('c, 'w) env \<Rightarrow> 'c option \<Rightarrow> bool option \<Rightarrow> ('c, 'w, nat) lop" where
  "enqueueMacrotask E c ref = enqueueReadyTask E Macrotask c (ref_or_true ref) None False"

definition enqueueIoCallback ::
    "('c, 'w) env \<Rightarrow> 'c option \<Rightarrow> bool option \<Rightarrow> ('c, 'w, nat) lop" where
  "enqueueIoCallback E c ref = enqueueReadyTask E Macrotask c (ref_or_true ref) None True"

definition push_immediate :: "'c immediate_task \<Rightarrow> ('c, 'w) loop \<Rightarrow> ('c, 'w) loop" where
  "push_immediate t s = s\<lparr>immediates := immediates s @ [t],
                          tasksById := (tasksById s)(im_id t \<mapsto> ImmediateTask t)\<rparr>"

definition drop_immediate :: "'c immediate_task \<Rightarrow> ('c, 'w) loop \<Rightarrow> ('c, 'w) loop" where
  "drop_immediate t s = s\<lparr>tasksById := (tasksById s)(im_id t := None),
                          immediates := remove1 t (immediates s)\<rparr>"

definition enqueueImmediate ::
    "('c, 'w) env \<Rightarrow> 'c option \<Rightarrow> bool option \<Rightarrow> ('c, 'w, nat) lop" where
  "enqueueImmediate E callback ref =
     seqE assertAcceptingWork (\<lambda>_. seqE (assertCallback callback) (\<lambda>c.
     seqE (readNow E) (\<lambda>now. seqE allocateId (\<lambda>i. seqE allocateSequence (\<lambda>q.
       let t = \<lparr>im_callback = c, im_id = i, im_ref = ref_or_true ref, im_sequence = q\<rparr>
       in seqE (modify (push_immediate t)) (\<lambda>_.
          seqE (commitWakeupAdmission E now (drop_immediate t)) (\<lambda>_. ret i)))))))"

definition push_tick :: "'c tick_task \<Rightarrow> ('c, 'w) loop \<Rightarrow> ('c, 'w) loop" where
  "push_tick t s = s\<lparr>nextTicks := nextTicks s @ [t],
                     tasksById := (tasksById s)(nt_id t \<mapsto> NextTickTask t)\<rparr>"

definition drop_tick :: "'c tick_task \<Rightarrow> ('c, 'w) loop \<Rightarrow> ('c, 'w) loop" where
  "drop_tick t s = s\<lparr>tasksById := (tasksById s)(nt_id t := None),
                     nextTicks := remove1 t (nextTicks s)\<rparr>"

definition enqueueNextTick ::
    "('c, 'w) env \<Rightarrow> 'c option \<Rightarrow> bool option \<Rightarrow> ('c, 'w, nat) lop" where
  "enqueueNextTick E callback ref =
     seqE assertAcceptingWork (\<lambda>_. seqE (assertCallback callback) (\<lambda>c.
     seqE (readNow E) (\<lambda>now. seqE allocateId (\<lambda>i.
       let t = \<lparr>nt_callback = c, nt_id = i, nt_ref = ref_or_true ref\<rparr>
       in seqE (modify (push_tick t)) (\<lambda>_.
          seqE (commitWakeupAdmission E now (drop_tick t)) (\<lambda>_. ret i))))))"

section \<open>Cancellation\<close>

definition unlist_task :: "'c task \<Rightarrow> ('c, 'w) loop \<Rightarrow> ('c, 'w) loop" where
  "unlist_task t s =
     (case t of ImmediateTask i \<Rightarrow> s\<lparr>immediates := remove1 i (immediates s)\<rparr>
              | ReadyTask r \<Rightarrow> s\<lparr>readyTasks := remove1 r (readyTasks s)\<rparr>
              | NextTickTask n \<Rightarrow> s\<lparr>nextTicks := remove1 n (nextTicks s)\<rparr>)"

definition cancelTask :: "('c, 'w) env \<Rightarrow> nat \<Rightarrow> ('c, 'w, bool) lop" where
  "cancelTask E taskId s =
     (case tasksById s taskId of
        None \<Rightarrow> (Inr False, s)
      | Some t \<Rightarrow>
          seqE (modify (\<lambda>s. unlist_task t (s\<lparr>tasksById := (tasksById s)(taskId := None)\<rparr>)))
               (\<lambda>_. seqE (reconcileWakeupIfActive E) (\<lambda>_. ret True)) s)"

section \<open>Timers\<close>

definition normalizeDelay ::
    "('c, 'w) env \<Rightarrow> string \<Rightarrow> jsnum \<Rightarrow> bool \<Rightarrow> ('c, 'w, rat) lop" where
  "normalizeDelay E name v allowZero =
     (case v of
        Fin q \<Rightarrow>
          if q < 0 then throw (EventLoopOptionError name)
          else ret (min (maxTimerDelayMs E)
                        (max (if allowZero then 0 else minimumIntervalMs E) (of_int \<lceil>q\<rceil>)))
      | _ \<Rightarrow> throw (EventLoopOptionError name))"

definition put_timer :: "'c timer_record \<Rightarrow> ('c, 'w) loop \<Rightarrow> ('c, 'w) loop" where
  "put_timer t s = s\<lparr>timers := timers s @ [t]\<rparr>"

definition delete_timer :: "nat \<Rightarrow> ('c, 'w) loop \<Rightarrow> ('c, 'w) loop" where
  "delete_timer i s = s\<lparr>timers := filter (\<lambda>t. tm_id t \<noteq> i) (timers s)\<rparr>"

definition find_timer :: "nat \<Rightarrow> ('c, 'w) loop \<Rightarrow> 'c timer_record option" where
  "find_timer i s = find (\<lambda>t. tm_id t = i) (timers s)"

definition update_timer ::
    "nat \<Rightarrow> ('c timer_record \<Rightarrow> 'c timer_record) \<Rightarrow> ('c, 'w) loop \<Rightarrow> ('c, 'w) loop" where
  "update_timer i f s = s\<lparr>timers := map (\<lambda>t. if tm_id t = i then f t else t) (timers s)\<rparr>"

text \<open>The last part of \<open>setTimer\<close>: the record is built, stored and admitted.\<close>

definition addTimer ::
    "('c, 'w) env \<Rightarrow> 'c \<Rightarrow> rat \<Rightarrow> rat \<Rightarrow> rat option \<Rightarrow> bool \<Rightarrow> ('c, 'w, nat) lop" where
  "addTimer E c now normalizedDelay intervalMs ref =
     seqE allocateId (\<lambda>i. seqE allocateSequence (\<lambda>q.
       let t = \<lparr>tm_callback = c, tm_dueAt = now + normalizedDelay, tm_id = i,
                tm_intervalMs = intervalMs, tm_ref = ref, tm_sequence = q\<rparr>
       in seqE (modify (put_timer t)) (\<lambda>_.
          seqE (commitWakeupAdmission E now (delete_timer i)) (\<lambda>_. ret i))))"

definition setTimer ::
    "('c, 'w) env \<Rightarrow> 'c option \<Rightarrow> jsnum \<Rightarrow> jsnum option \<Rightarrow> bool option \<Rightarrow> ('c, 'w, nat) lop" where
  "setTimer E callback delayMs interval ref =
     seqE assertAcceptingWork (\<lambda>_. seqE (assertCallback callback) (\<lambda>c.
     seqE (readNow E) (\<lambda>now.
     seqE (normalizeDelay E ''delayMs'' delayMs True) (\<lambda>normalizedDelay.
     (case interval of
        None \<Rightarrow> addTimer E c now normalizedDelay None (ref_or_true ref)
      | Some v \<Rightarrow> seqE (normalizeDelay E ''intervalMs'' v False) (\<lambda>intervalMs.
                    addTimer E c now normalizedDelay (Some intervalMs) (ref_or_true ref)))))))"

definition setTimeout ::
    "('c, 'w) env \<Rightarrow> 'c option \<Rightarrow> jsnum option \<Rightarrow> bool option \<Rightarrow> ('c, 'w, nat) lop" where
  "setTimeout E callback delayMs ref =
     setTimer E callback (case delayMs of None \<Rightarrow> Fin 0 | Some d \<Rightarrow> d) None ref"

definition setInterval ::
    "('c, 'w) env \<Rightarrow> 'c option \<Rightarrow> jsnum \<Rightarrow> bool option \<Rightarrow> ('c, 'w, nat) lop" where
  "setInterval E callback intervalMs ref = setTimer E callback intervalMs (Some intervalMs) ref"

definition clearTimer :: "('c, 'w) env \<Rightarrow> nat \<Rightarrow> ('c, 'w, bool) lop" where
  "clearTimer E i s =
     (let cleared = (find_timer i s \<noteq> None)
      in seqE (modify (delete_timer i)) (\<lambda>_.
           seqE (if cleared then reconcileWakeupIfActive E else ret ()) (\<lambda>_. ret cleared)) s)"

definition setTimerRef :: "('c, 'w) env \<Rightarrow> nat \<Rightarrow> bool \<Rightarrow> ('c, 'w, bool) lop" where
  "setTimerRef E i ref s =
     (case find_timer i s of
        None \<Rightarrow> (Inr False, s)
      | Some t \<Rightarrow>
          if tm_ref t = ref then (Inr True, s)
          else seqE (modify (update_timer i (\<lambda>t. t\<lparr>tm_ref := ref\<rparr>))) (\<lambda>_.
                 seqE (reconcileWakeupIfActive E) (\<lambda>_. ret True)) s)"

definition hasRefTimer :: "nat \<Rightarrow> ('c, 'w) loop \<Rightarrow> bool" where
  "hasRefTimer i s = (case find_timer i s of None \<Rightarrow> False | Some t \<Rightarrow> tm_ref t)"

definition advanceIntervalDeadline :: "nat \<Rightarrow> rat \<Rightarrow> ('c, 'w) loop \<Rightarrow> ('c, 'w) loop" where
  "advanceIntervalDeadline i now s =
     (case find_timer i s of
        None \<Rightarrow> s
      | Some t \<Rightarrow>
          (case tm_intervalMs t of
             None \<Rightarrow> s
           | Some iv \<Rightarrow>
               if tm_dueAt t > now then s
               else let elapsed = max 0 (now - tm_dueAt t);
                        intervalsToSkip = of_int \<lfloor>elapsed / iv\<rfloor>
                    in update_timer i
                         (\<lambda>t. t\<lparr>tm_dueAt := tm_dueAt t + (intervalsToSkip + 1) * iv\<rparr>) s))"

section \<open>Immediates: ref, unref, hasRef\<close>

definition setImmediateRef :: "('c, 'w) env \<Rightarrow> nat \<Rightarrow> bool \<Rightarrow> ('c, 'w, bool) lop" where
  "setImmediateRef E i ref s =
     (case tasksById s i of
        Some (ImmediateTask t) \<Rightarrow>
          if im_ref t = ref then (Inr True, s)
          else seqE (modify (\<lambda>s. s\<lparr>tasksById := (tasksById s)(i \<mapsto> ImmediateTask (t\<lparr>im_ref := ref\<rparr>)),
                                   immediates := map (\<lambda>u. if im_id u = i then u\<lparr>im_ref := ref\<rparr> else u)
                                                     (immediates s)\<rparr>)) (\<lambda>_.
                 seqE (reconcileWakeupIfActive E) (\<lambda>_. ret True)) s
      | _ \<Rightarrow> (Inr False, s))"

definition hasRefImmediate :: "nat \<Rightarrow> ('c, 'w) loop \<Rightarrow> bool" where
  "hasRefImmediate i s =
     (case tasksById s i of Some (ImmediateTask t) \<Rightarrow> im_ref t | _ \<Rightarrow> False)"

section \<open>Native requests\<close>

definition find_request :: "string \<Rightarrow> ('c, 'w) loop \<Rightarrow> bool option" where
  "find_request r s = map_of (nativeRequests s) r"

definition delete_request :: "string \<Rightarrow> ('c, 'w) loop \<Rightarrow> ('c, 'w) loop" where
  "delete_request r s = s\<lparr>nativeRequests := filter (\<lambda>(k, _). k \<noteq> r) (nativeRequests s)\<rparr>"

definition registerNativeRequest ::
    "('c, 'w) env \<Rightarrow> string \<Rightarrow> bool option \<Rightarrow> ('c, 'w, unit) lop" where
  "registerNativeRequest E r ref =
     seqE assertAcceptingWork (\<lambda>_. seqE (assertRequestId r) (\<lambda>_.
     seqE (gets (find_request r)) (\<lambda>known.
     seqE (guardE (known = None) (EventLoopOptionError ''requestId'')) (\<lambda>_.
     seqE (readNow E) (\<lambda>now.
     seqE (modify (\<lambda>s. s\<lparr>nativeRequests := nativeRequests s @ [(r, ref_or_true ref)]\<rparr>)) (\<lambda>_.
       commitWakeupAdmission E now (delete_request r)))))))"

definition completeNativeRequest ::
    "('c, 'w) env \<Rightarrow> string \<Rightarrow> 'c option \<Rightarrow> bool option \<Rightarrow> ('c, 'w, nat) lop" where
  "completeNativeRequest E r callback ref =
     seqE assertAcceptingWork (\<lambda>_. seqE (assertRequestId r) (\<lambda>_.
     seqE (assertCallback callback) (\<lambda>c. seqE (gets (find_request r)) (\<lambda>pending.
     (case pending of
        None \<Rightarrow> throw (EventLoopNativeRequestNotPendingError r)
      | Some pendingRef \<Rightarrow>
          seqE (readNow E) (\<lambda>now.
          seqE (gets (find_request r)) (\<lambda>still.
          seqE (guardE (still \<noteq> None) (EventLoopNativeRequestNotPendingError r)) (\<lambda>_.
          seqE (modify (delete_request r)) (\<lambda>_.
            enqueueReadyTaskAt E NativeCompletion c
              (case ref of None \<Rightarrow> pendingRef | Some b \<Rightarrow> b) now (Some r) False)))))))))"

text \<open>
  The loop of \<open>cancelNativeRequest\<close> runs over the ready tasks from the last to the first and
  removes each completion of the request that is still in \<open>tasksById\<close>.
\<close>

fun cancel_completions ::
    "string \<Rightarrow> 'c ready_task list \<Rightarrow> (nat \<rightharpoonup> 'c task) \<Rightarrow>
     'c ready_task list \<times> (nat \<rightharpoonup> 'c task) \<times> bool" where
  "cancel_completions r [] m = ([], m, False)"
| "cancel_completions r (t # ts) m =
     (let (ts', m', c) = cancel_completions r ts m
      in if rt_kind t = NativeCompletion \<and> rt_nativeRequestId t = Some r \<and> m' (rt_id t) \<noteq> None
         then (ts', m'(rt_id t := None), True)
         else (t # ts', m', c))"

definition cancelNativeRequest :: "('c, 'w) env \<Rightarrow> string \<Rightarrow> ('c, 'w, bool) lop" where
  "cancelNativeRequest E r s =
     (let known = (find_request r s \<noteq> None);
          s1 = delete_request r s;
          (rts, m, any) = cancel_completions r (readyTasks s1) (tasksById s1);
          canceled = (known \<or> any)
      in seqE (if canceled then reconcileWakeupIfActive E else ret ()) (\<lambda>_. ret canceled)
              (s1\<lparr>readyTasks := rts, tasksById := m\<rparr>))"

definition setNativeRequestRef :: "('c, 'w) env \<Rightarrow> string \<Rightarrow> bool \<Rightarrow> ('c, 'w, bool) lop" where
  "setNativeRequestRef E r ref s =
     (case find_request r s of
        None \<Rightarrow> (Inr False, s)
      | Some b \<Rightarrow>
          if b = ref then (Inr True, s)
          else seqE (modify (\<lambda>s. s\<lparr>nativeRequests :=
                      map (\<lambda>(k, v). if k = r then (k, ref) else (k, v)) (nativeRequests s)\<rparr>)) (\<lambda>_.
                 seqE (reconcileWakeupIfActive E) (\<lambda>_. ret True)) s)"

section \<open>Lifecycle observers\<close>

definition addLifecycleObserver :: "'c option \<Rightarrow> ('c, 'w, unit) lop" where
  "addLifecycleObserver observer =
     seqE assertAcceptingWork (\<lambda>_.
       (case observer of
          None \<Rightarrow> throw (EventLoopOptionError ''observer'')
        | Some c \<Rightarrow> modify (\<lambda>s. s\<lparr>lifecycleObservers :=
                       (if c \<in> set (lifecycleObservers s) then lifecycleObservers s
                        else lifecycleObservers s @ [c])\<rparr>)))"

definition removeLifecycleObserver :: "'c \<Rightarrow> ('c, 'w, bool) lop" where
  "removeLifecycleObserver c s =
     (Inr (c \<in> set (lifecycleObservers s)),
      s\<lparr>lifecycleObservers := removeAll c (lifecycleObservers s)\<rparr>)"

section \<open>Selection\<close>

definition before :: "nat \<Rightarrow> nat option \<Rightarrow> bool" where
  "before q limit = (case limit of None \<Rightarrow> True | Some b \<Rightarrow> q < b)"

fun pickReady ::
    "(nat \<rightharpoonup> 'c task) \<Rightarrow> nat option \<Rightarrow> nat \<Rightarrow> 'c ready_task list \<Rightarrow>
     (nat \<times> 'c ready_task) option \<Rightarrow> (nat \<times> 'c ready_task) option" where
  "pickReady m limit i [] best = best"
| "pickReady m limit i (t # ts) best =
     pickReady m limit (Suc i) ts
       (if m (rt_id t) = None \<or> \<not> before (rt_sequence t) limit then best
        else case best of
               None \<Rightarrow> Some (i, t)
             | Some (_, b) \<Rightarrow>
                 if rt_readyAt t < rt_readyAt b \<or>
                    rt_readyAt t = rt_readyAt b \<and> rt_sequence t < rt_sequence b
                 then Some (i, t) else best)"

fun pickTimer ::
    "rat \<Rightarrow> nat option \<Rightarrow> 'c timer_record list \<Rightarrow> 'c timer_record option \<Rightarrow>
     'c timer_record option" where
  "pickTimer now limit [] best = best"
| "pickTimer now limit (t # ts) best =
     pickTimer now limit ts
       (if tm_dueAt t > now \<or> \<not> before (tm_sequence t) limit then best
        else case best of
               None \<Rightarrow> Some t
             | Some b \<Rightarrow>
                 if tm_dueAt t < tm_dueAt b \<or>
                    tm_dueAt t = tm_dueAt b \<and> tm_sequence t < tm_sequence b
                 then Some t else best)"

definition takeOrdinaryReadyTask ::
    "rat \<Rightarrow> nat option \<Rightarrow> ('c, 'w) loop \<Rightarrow> 'c selected option \<times> ('c, 'w) loop" where
  "takeOrdinaryReadyTask now limit s =
     (let ready = pickReady (tasksById s) limit 0 (readyTasks s) None;
          due = pickTimer now limit (timers s) None;
          takeTimer = (case due of
              None \<Rightarrow> (None, s)
            | Some d \<Rightarrow> (Some (SelTimer d),
                         if tm_intervalMs d = None then delete_timer (tm_id d) s else s))
      in case ready of
           None \<Rightarrow> takeTimer
         | Some (i, r) \<Rightarrow>
             if (case due of None \<Rightarrow> True
                 | Some d \<Rightarrow> rt_readyAt r < tm_dueAt d \<or>
                             rt_readyAt r = tm_dueAt d \<and> rt_sequence r < tm_sequence d)
             then (Some (SelReady r),
                   s\<lparr>tasksById := (tasksById s)(rt_id r := None),
                     readyTasks := splice1 i (readyTasks s),
                     activeIoBatchCutoff := (if rt_ioCallback r then Some (nextSequence s - 1)
                                             else activeIoBatchCutoff s)\<rparr>)
             else takeTimer)"

definition takeImmediate ::
    "'c immediate_task \<Rightarrow> ('c, 'w) loop \<Rightarrow> 'c selected option \<times> ('c, 'w) loop" where
  "takeImmediate t s = (Some (SelImmediate t), drop_immediate t s)"

text \<open>The last part of \<open>takeReadyTask\<close>: no batch of either kind is active any more.\<close>

definition takeCheckOrOrdinary ::
    "rat \<Rightarrow> ('c, 'w) loop \<Rightarrow> 'c selected option \<times> ('c, 'w) loop" where
  "takeCheckOrOrdinary now s =
     (case immediates s of
        [] \<Rightarrow> takeOrdinaryReadyTask now None s
      | oldest # _ \<Rightarrow>
          (case takeOrdinaryReadyTask now (Some (im_sequence oldest)) s of
             (Some earlier, s1) \<Rightarrow> (Some earlier, s1)
           | (None, s1) \<Rightarrow>
               takeImmediate oldest
                 (s1\<lparr>activeImmediateBatchCutoff := Some (im_sequence (last (immediates s1)))\<rparr>)))"

definition io_batch_index :: "nat \<Rightarrow> ('c, 'w) loop \<Rightarrow> nat option" where
  "io_batch_index cutoff s =
     (let p = (\<lambda>t. rt_ioCallback t \<and> rt_sequence t \<le> cutoff \<and> tasksById s (rt_id t) \<noteq> None);
          n = length (takeWhile (\<lambda>t. \<not> p t) (readyTasks s))
      in if n < length (readyTasks s) then Some n else None)"

text \<open>The part after the immediate batch: the batch of I/O callbacks.\<close>

definition takeIoBatch ::
    "rat \<Rightarrow> ('c, 'w) loop \<Rightarrow> 'c selected option \<times> ('c, 'w) loop" where
  "takeIoBatch now s =
     (case activeIoBatchCutoff s of
        None \<Rightarrow> takeCheckOrOrdinary now s
      | Some cutoff \<Rightarrow>
          (case io_batch_index cutoff s of
             Some i \<Rightarrow>
               (Some (SelReady (readyTasks s ! i)),
                s\<lparr>tasksById := (tasksById s)(rt_id (readyTasks s ! i) := None),
                  readyTasks := splice1 i (readyTasks s)\<rparr>)
           | None \<Rightarrow>
               (let s1 = s\<lparr>activeIoBatchCutoff := None\<rparr>
                in case immediates s1 of
                     [] \<Rightarrow> takeCheckOrOrdinary now s1
                   | first # _ \<Rightarrow>
                       takeImmediate first
                         (s1\<lparr>activeImmediateBatchCutoff :=
                               Some (im_sequence (last (immediates s1)))\<rparr>))))"

definition takeReadyTask ::
    "rat \<Rightarrow> ('c, 'w) loop \<Rightarrow> 'c selected option \<times> ('c, 'w) loop" where
  "takeReadyTask now s =
     (case activeImmediateBatchCutoff s of
        None \<Rightarrow> takeIoBatch now s
      | Some cutoff \<Rightarrow>
          (case find (\<lambda>t. im_sequence t \<le> cutoff) (immediates s) of
             Some next \<Rightarrow> takeImmediate next s
           | None \<Rightarrow> takeIoBatch now (s\<lparr>activeImmediateBatchCutoff := None\<rparr>)))"

fun takeNextTick_from ::
    "'c tick_task list \<Rightarrow> (nat \<rightharpoonup> 'c task) \<Rightarrow>
     'c tick_task option \<times> 'c tick_task list \<times> (nat \<rightharpoonup> 'c task)" where
  "takeNextTick_from [] m = (None, [], m)"
| "takeNextTick_from (t # ts) m =
     (if m (nt_id t) \<noteq> None then (Some t, ts, m(nt_id t := None)) else takeNextTick_from ts m)"

definition takeNextTick :: "('c, 'w) loop \<Rightarrow> 'c tick_task option \<times> ('c, 'w) loop" where
  "takeNextTick s =
     (let (t, ts, m) = takeNextTick_from (nextTicks s) (tasksById s)
      in (t, s\<lparr>nextTicks := ts, tasksById := m\<rparr>))"

end
