(* ===== verification/Loop_Turn.thy ===== *)
theory Loop_Turn
  imports Loop_Ops
begin

text \<open>
  The public API as one dispatch, the execution of callbacks and the turn of
  \<open>RuntimeEventLoop\<close>.

  A callback only ever runs inside a turn, where \<open>runningTurn\<close> is set; a turn it asks for
  is refused (or answered with the shutdown result), so \<open>exec\<close> needs no recursion into the
  turn.  \<open>runTurn\<close> and \<open>runNextTickCheckpoint\<close> are total: the drain of next ticks ends because
  each callback spends one unit of the turn's callback budget.
\<close>

section \<open>The API\<close>

definition reply_of :: "('a \<Rightarrow> reply) \<Rightarrow> ('c, 'w, 'a) lop \<Rightarrow> ('c, 'w, reply) lop" where
  "reply_of f m = seqE m (\<lambda>x. ret (f x))"

text \<open>A turn asked for while one is running.\<close>

definition nested_turn :: "('c, 'w, reply) lop" where
  "nested_turn s =
     (if disposed s then (Inr (RTurn (createShutdownResult 0 None)), s)
      else (Inl EventLoopReentrantTurnError, s))"

fun api_call :: "('c, 'w) env \<Rightarrow> 'c api \<Rightarrow> ('c, 'w, reply) lop" where
  "api_call E (EnqueueMacrotask c r) = reply_of RId (enqueueMacrotask E c r)"
| "api_call E (EnqueueIoCallback c r) = reply_of RId (enqueueIoCallback E c r)"
| "api_call E (EnqueueImmediate c r) = reply_of RId (enqueueImmediate E c r)"
| "api_call E (EnqueueNextTick c r) = reply_of RId (enqueueNextTick E c r)"
| "api_call E (CancelTask i) = reply_of RBool (cancelTask E i)"
| "api_call E (SetTimer c d i r) = reply_of RId (setTimer E c d i r)"
| "api_call E (ClearTimer i) = reply_of RBool (clearTimer E i)"
| "api_call E (SetTimerRef i b) = reply_of RBool (setTimerRef E i b)"
| "api_call E (HasRefTimer i) = reply_of RBool (gets (hasRefTimer i))"
| "api_call E (SetImmediateRef i b) = reply_of RBool (setImmediateRef E i b)"
| "api_call E (HasRefImmediate i) = reply_of RBool (gets (hasRefImmediate i))"
| "api_call E (RegisterNativeRequest r b) = reply_of (\<lambda>_. RUnit) (registerNativeRequest E r b)"
| "api_call E (CompleteNativeRequest r c b) = reply_of RId (completeNativeRequest E r c b)"
| "api_call E (CancelNativeRequest r) = reply_of RBool (cancelNativeRequest E r)"
| "api_call E (SetNativeRequestRef r b) = reply_of RBool (setNativeRequestRef E r b)"
| "api_call E GetCurrentTime = reply_of RTime (getCurrentTime E)"
| "api_call E GetSnapshot = reply_of RSnapshot (getSnapshot E)"
| "api_call E (AddLifecycleObserver c) = reply_of (\<lambda>_. RUnit) (addLifecycleObserver c)"
| "api_call E (RemoveLifecycleObserver c) = reply_of RBool (removeLifecycleObserver c)"
| "api_call E RunTurn = nested_turn"
| "api_call E RunNextTickCheckpoint = nested_turn"
| "api_call E Shutdown = reply_of (\<lambda>_. RUnit) (shutdown E)"

section \<open>Executing a callback\<close>

primrec exec :: "('c, 'w) env \<Rightarrow> ('c, 'w) prog \<Rightarrow> ('c, 'w, unit) lop" where
  "exec E Done s = (Inr (), s)"
| "exec E (Throw e) s = (Inl e, s)"
| "exec E (Read k) s = exec E (k (world s)) s"
| "exec E (Write f p) s = exec E p (s\<lparr>world := f (world s)\<rparr>)"
| "exec E (Call a k) s = (let (r, s') = api_call E a s in exec E (k r) s')"

text \<open>\<open>executeCallback\<close>; the counter is the number of callbacks run before it in the turn.\<close>

definition executeCallback :: "('c, 'w) env \<Rightarrow> 'c \<Rightarrow> nat \<Rightarrow> ('c, 'w, nat) lop" where
  "executeCallback E callback counter s =
     (if counter \<ge> maxCallbacksPerTurn E
      then fail E (EventLoopBudgetExceededError (maxCallbacksPerTurn E)) s
      else case exec E (body E callback) s of
             (Inr _, s') \<Rightarrow> (Inr (counter + 1), s')
           | (Inl e, s') \<Rightarrow>
               (let e' = (if isHolonomyRuntimeError e then e else EventLoopCallbackError e)
                in if disposed s' then (Inl e', s') else fail E e' s'))"

lemma executeCallback_counter:
  "executeCallback E c n s = (Inr m, s') \<Longrightarrow> m = n + 1 \<and> n < maxCallbacksPerTurn E"
  by (auto simp: executeCallback_def fail_def Let_def split: if_splits prod.splits sum.splits)

function drainNextTicks :: "('c, 'w) env \<Rightarrow> nat \<Rightarrow> ('c, 'w, nat) lop" where
  "drainNextTicks E counter s =
     (if disposed s then (Inr counter, s)
      else case takeNextTick s of
             (None, s1) \<Rightarrow> (Inr counter, s1)
           | (Some t, s1) \<Rightarrow>
               (case executeCallback E (nt_callback t) counter s1 of
                  (Inl e, s2) \<Rightarrow> (Inl e, s2)
                | (Inr counter', s2) \<Rightarrow> drainNextTicks E counter' s2))"
  by pat_completeness auto
termination
  by (relation "measure (\<lambda>(E, counter, s). maxCallbacksPerTurn E - counter)")
     (auto dest!: executeCallback_counter [OF sym])

declare drainNextTicks.simps [simp del]

definition checkpointMicrotasks :: "('c, 'w) env \<Rightarrow> ('c, 'w, unit) lop" where
  "checkpointMicrotasks E =
     tryE (exec E (port_checkpointMicrotasks E))
          (\<lambda>e. fail E (EventLoopMicrotaskCheckpointError e))"

section \<open>The turn\<close>

definition selected_callback :: "'c selected \<Rightarrow> 'c" where
  "selected_callback x = (case x of SelReady t \<Rightarrow> rt_callback t | SelImmediate t \<Rightarrow> im_callback t
                                  | SelTimer t \<Rightarrow> tm_callback t)"

definition selected_kind :: "'c selected \<Rightarrow> task_kind" where
  "selected_kind x =
     (case x of
        SelReady t \<Rightarrow> (case rt_kind t of Macrotask \<Rightarrow> Kind_macrotask
                                       | NativeCompletion \<Rightarrow> Kind_native_completion)
      | SelImmediate _ \<Rightarrow> Kind_immediate
      | SelTimer _ \<Rightarrow> Kind_timer)"

definition advance_selected ::
    "('c, 'w) env \<Rightarrow> 'c selected \<Rightarrow> ('c, 'w, unit) lop" where
  "advance_selected E x =
     (case x of
        SelTimer t \<Rightarrow> seqE (readNow E) (\<lambda>now. modify (advanceIntervalDeadline (tm_id t) now))
      | _ \<Rightarrow> ret ())"

definition turn_result_of ::
    "snapshot \<Rightarrow> nat \<Rightarrow> turn_status \<Rightarrow> task_kind option \<Rightarrow> turn_result" where
  "turn_result_of sn n st k =
     \<lparr>hasPendingWork = hasPendingWork sn, isAlive = isAlive sn, nextWakeupAt = nextWakeupAt sn,
      callbacksProcessed = n, status = st, taskKind = k\<rparr>"

text \<open>
  The work phase of \<open>runActiveTurn\<close>: which task ran, how many callbacks, what kind.  A loop
  disposed by the selected callback ends the phase before the interval is advanced.
\<close>

definition work_phase ::
    "('c, 'w) env \<Rightarrow> bool \<Rightarrow> rat \<Rightarrow> ('c, 'w, nat \<times> task_kind option \<times> 'c selected option) lop"
where
  "work_phase E onlyNextTicks now s =
     (if hasRunnableNextTick s
      then seqE (drainNextTicks E 0) (\<lambda>n. ret (n, Some Kind_next_tick, None)) s
      else if onlyNextTicks then (Inr (0, None, None), s)
      else case takeReadyTask now s of
             (None, s1) \<Rightarrow> (Inr (0, None, None), s1)
           | (Some x, s1) \<Rightarrow>
               seqE (executeCallback E (selected_callback x) 0) (\<lambda>n s2.
                 if disposed s2 then (Inr (n, Some (selected_kind x), Some x), s2)
                 else seqE (advance_selected E x) (\<lambda>_. seqE (drainNextTicks E n)
                        (\<lambda>n'. ret (n', Some (selected_kind x), Some x))) s2) s1)"

text \<open>
  After the work: the microtask checkpoint (only when something ran), then the clock, the
  interval of the selected timer, the snapshot and the next wakeup.
\<close>

definition settle_phase ::
    "('c, 'w) env \<Rightarrow> nat \<Rightarrow> task_kind option \<Rightarrow> 'c selected option \<Rightarrow> ('c, 'w, turn_result) lop"
where
  "settle_phase E n kind sel =
     seqE (readNow E) (\<lambda>finishedAt.
     seqE (modify (case sel of Some (SelTimer t) \<Rightarrow> advanceIntervalDeadline (tm_id t) finishedAt
                             | _ \<Rightarrow> id)) (\<lambda>_.
     seqE (gets (createSnapshot finishedAt)) (\<lambda>sn.
     seqE (tryE (requestWakeup E (nextWakeupAt sn))
                (\<lambda>e. fail E (normalizeWakeupError e))) (\<lambda>_.
       ret (turn_result_of sn n (if kind \<noteq> None then Status_ran else Status_idle) kind)))))"

definition finish_phase ::
    "('c, 'w) env \<Rightarrow> nat \<Rightarrow> task_kind option \<Rightarrow> 'c selected option \<Rightarrow> ('c, 'w, turn_result) lop"
where
  "finish_phase E n kind sel s =
     (if disposed s then (Inr (createShutdownResult n kind), s)
      else seqE (if kind \<noteq> None then checkpointMicrotasks E else ret ()) (\<lambda>_ s1.
        if disposed s1 then (Inr (createShutdownResult n kind), s1)
        else settle_phase E n kind sel s1) s)"

definition runActiveTurn :: "('c, 'w) env \<Rightarrow> bool \<Rightarrow> ('c, 'w, turn_result) lop" where
  "runActiveTurn E onlyNextTicks =
     seqE (readNow E) (\<lambda>now s.
       if onlyNextTicks \<and> \<not> hasRunnableNextTick s
       then (Inr (turn_result_of (createSnapshot now s) 0 Status_idle None), s)
       else seqE (modify (\<lambda>s. s\<lparr>scheduledWakeupAt := None, scheduledWakeupPhase := None\<rparr>)) (\<lambda>_.
            seqE (work_phase E onlyNextTicks now) (\<lambda>(n, kind, sel). finish_phase E n kind sel)) s)"

definition run_guarded :: "('c, 'w) env \<Rightarrow> bool \<Rightarrow> ('c, 'w, turn_result) lop" where
  "run_guarded E onlyNextTicks s =
     (if disposed s then (Inr (createShutdownResult 0 None), s)
      else if runningTurn s then (Inl EventLoopReentrantTurnError, s)
      else let (r, s') = runActiveTurn E onlyNextTicks (s\<lparr>runningTurn := True\<rparr>)
           in (r, s'\<lparr>runningTurn := False\<rparr>))"

definition runTurn :: "('c, 'w) env \<Rightarrow> ('c, 'w, turn_result) lop" where
  "runTurn E = run_guarded E False"

definition runNextTickCheckpoint :: "('c, 'w) env \<Rightarrow> ('c, 'w, turn_result) lop" where
  "runNextTickCheckpoint E = run_guarded E True"

section \<open>The host's view: one step of the loop\<close>

text \<open>
  The host (or code it runs outside a turn) calls the API, runs a turn or runs the next-tick
  checkpoint; the world may move on its own in between.
\<close>

definition host_call :: "('c, 'w) env \<Rightarrow> 'c api \<Rightarrow> ('c, 'w, reply) lop" where
  "host_call E a =
     (case a of RunTurn \<Rightarrow> reply_of RTurn (runTurn E)
              | RunNextTickCheckpoint \<Rightarrow> reply_of RTurn (runNextTickCheckpoint E)
              | _ \<Rightarrow> api_call E a)"

inductive loop_step :: "('c, 'w) env \<Rightarrow> ('c, 'w) loop \<Rightarrow> ('c, 'w) loop \<Rightarrow> bool" for E where
  host: "host_call E a s = (r, s') \<Longrightarrow> loop_step E s s'"
| outside: "loop_step E s (s\<lparr>world := w\<rparr>)"

inductive reachable :: "('c, 'w) env \<Rightarrow> ('c, 'w) loop \<Rightarrow> bool" for E where
  start: "reachable E (initial_loop w)"
| step: "reachable E s \<Longrightarrow> loop_step E s s' \<Longrightarrow> reachable E s'"

end
