(* ===== verification/Loop_Invariant.thy ===== *)
theory Loop_Invariant
  imports Loop_Turn
begin

text \<open>
  The well-formedness of the event loop and its preservation by every operation, by the
  callbacks and by the turn.  The lemmas go from the primitive state changes
  (push, drop, take) through the operations (collection \<open>loop_keeps\<close>) to \<open>host_call\<close>, and
  end with the invariant of every reachable loop.
\<close>

section \<open>The invariant\<close>

primrec task_id :: "'c task \<Rightarrow> nat" where
  "task_id (ReadyTask t) = rt_id t"
| "task_id (ImmediateTask t) = im_id t"
| "task_id (NextTickTask t) = nt_id t"

definition queued :: "('c, 'w) loop \<Rightarrow> 'c task set" where
  "queued s = ReadyTask ` set (readyTasks s) \<union> ImmediateTask ` set (immediates s) \<union>
              NextTickTask ` set (nextTicks s)"

text \<open>\<open>tasksById\<close> and the three queues hold the same tasks.\<close>

definition tasks_agree :: "('c, 'w) loop \<Rightarrow> bool" where
  "tasks_agree s \<longleftrightarrow> indexed task_id (tasksById s) (queued s)"

definition ids :: "('c, 'w) loop \<Rightarrow> nat list" where
  "ids s = map rt_id (readyTasks s) @ map im_id (immediates s) @ map nt_id (nextTicks s) @
           map tm_id (timers s)"

definition seqs :: "('c, 'w) loop \<Rightarrow> nat list" where
  "seqs s = map rt_sequence (readyTasks s) @ map im_sequence (immediates s) @
            map tm_sequence (timers s)"

text \<open>\<open>D\<close> is a set of retired ids: allocated once, in no queue any more.\<close>

definition ids_ok :: "nat set \<Rightarrow> ('c, 'w) loop \<Rightarrow> bool" where
  "ids_ok D s \<longleftrightarrow> distinct (ids s) \<and> (\<forall>i \<in> set (ids s). i < nextId s) \<and>
     (\<forall>i \<in> D. i < nextId s \<and> i \<notin> set (ids s))"

text \<open>Admission order: each queue is sorted by sequence, and no sequence is used twice.\<close>

definition seqs_ok :: "('c, 'w) loop \<Rightarrow> bool" where
  "seqs_ok s \<longleftrightarrow> distinct (seqs s) \<and> (\<forall>q \<in> set (seqs s). q < nextSequence s)"

definition order_ok :: "('c, 'w) loop \<Rightarrow> bool" where
  "order_ok s \<longleftrightarrow>
     sorted_wrt (\<lambda>a b. rt_sequence a < rt_sequence b) (readyTasks s) \<and>
     sorted_wrt (\<lambda>a b. rt_readyAt a \<le> rt_readyAt b) (readyTasks s) \<and>
     sorted_wrt (\<lambda>a b. im_sequence a < im_sequence b) (immediates s) \<and>
     sorted_wrt (\<lambda>a b. tm_sequence a < tm_sequence b) (timers s)"

definition clock_ok :: "('c, 'w) loop \<Rightarrow> bool" where
  "clock_ok s \<longleftrightarrow> (\<forall>n. lastNow s = Some n \<longrightarrow> 0 \<le> n) \<and>
     (\<forall>t \<in> set (readyTasks s). \<exists>n. lastNow s = Some n \<and> rt_readyAt t \<le> n)"

definition timers_ok :: "('c, 'w) env \<Rightarrow> ('c, 'w) loop \<Rightarrow> bool" where
  "timers_ok E s \<longleftrightarrow>
     (\<forall>t \<in> set (timers s). \<forall>iv. tm_intervalMs t = Some iv \<longrightarrow>
        minimumIntervalMs E \<le> iv \<and> iv \<le> maxTimerDelayMs E)"

definition names_ok :: "('c, 'w) loop \<Rightarrow> bool" where
  "names_ok s \<longleftrightarrow> distinct (map fst (nativeRequests s)) \<and> distinct (lifecycleObservers s)"

definition quiet_if_disposed :: "('c, 'w) loop \<Rightarrow> bool" where
  "quiet_if_disposed s \<longleftrightarrow> (disposed s \<longrightarrow>
     activeImmediateBatchCutoff s = None \<and> activeIoBatchCutoff s = None \<and> immediates s = [] \<and>
     nativeRequests s = [] \<and> nextTicks s = [] \<and> readyTasks s = [] \<and> tasksById s = (\<lambda>_. None) \<and>
     timers s = [] \<and> lifecycleObservers s = [])"

definition loop_inv :: "('c, 'w) env \<Rightarrow> nat set \<Rightarrow> ('c, 'w) loop \<Rightarrow> bool" where
  "loop_inv E D s \<longleftrightarrow> tasks_agree s \<and> ids_ok D s \<and> seqs_ok s \<and> order_ok s \<and> clock_ok s \<and>
     timers_ok E s \<and> names_ok s \<and> quiet_if_disposed s"

lemmas inv_defs = loop_inv_def tasks_agree_def queued_def ids_ok_def seqs_ok_def order_ok_def
  ids_def seqs_def clock_ok_def timers_ok_def names_ok_def quiet_if_disposed_def

abbreviation active :: "('c, 'w) env \<Rightarrow> nat set \<Rightarrow> ('c, 'w) loop \<Rightarrow> bool" where
  "active E D s \<equiv> loop_inv E D s \<and> \<not> disposed s"

abbreviation active_at :: "('c, 'w) env \<Rightarrow> nat set \<Rightarrow> rat \<Rightarrow> ('c, 'w) loop \<Rightarrow> bool" where
  "active_at E D now s \<equiv> loop_inv E D s \<and> \<not> disposed s \<and> lastNow s = Some now"

section \<open>Frame: fields outside the invariant\<close>

lemma loop_inv_frame [simp]:
  "loop_inv E D (s\<lparr>world := w\<rparr>) = loop_inv E D s"
  "loop_inv E D (s\<lparr>scheduledWakeupAt := a\<rparr>) = loop_inv E D s"
  "loop_inv E D (s\<lparr>scheduledWakeupPhase := p\<rparr>) = loop_inv E D s"
  "loop_inv E D (s\<lparr>runningTurn := b\<rparr>) = loop_inv E D s"
  unfolding inv_defs by simp_all

lemma loop_inv_initial: "loop_inv E {} (initial_loop w)"
  by (simp add: inv_defs initial_loop_def indexed_def)

lemma loop_inv_lastNow:
  "loop_inv E D s \<Longrightarrow> 0 \<le> now \<Longrightarrow> (\<And>p. lastNow s = Some p \<Longrightarrow> p \<le> now) \<Longrightarrow>
   loop_inv E D (s\<lparr>lastNow := Some now\<rparr>)"
  unfolding inv_defs by fastforce

lemma loop_inv_cutoffs [simp]:
  "\<not> disposed s \<Longrightarrow> loop_inv E D (s\<lparr>activeImmediateBatchCutoff := a\<rparr>) = loop_inv E D s"
  "\<not> disposed s \<Longrightarrow> loop_inv E D (s\<lparr>activeIoBatchCutoff := b\<rparr>) = loop_inv E D s"
  unfolding inv_defs by simp_all

section \<open>Adding work\<close>

definition tick_ids :: "('c, 'w) loop \<Rightarrow> ('c, 'w) loop" where
  "tick_ids s = s\<lparr>nextId := nextId s + 1, nextSequence := nextSequence s + 1\<rparr>"

lemma ids_ok_insert:
  assumes "ids_ok D s" "ids s = xs @ ys" "ids s' = xs @ nextId s # ys" "nextId s' = Suc (nextId s)"
  shows "ids_ok D s'"
  using assms unfolding ids_ok_def by (auto simp: less_Suc_eq)

lemma seqs_ok_insert:
  assumes "seqs_ok s" "seqs s = xs @ ys" "seqs s' = xs @ nextSequence s # ys"
    "nextSequence s' = Suc (nextSequence s)"
  shows "seqs_ok s'"
  using assms unfolding seqs_ok_def by (auto simp: less_Suc_eq)

lemma queued_id: "t \<in> queued s \<Longrightarrow> task_id t \<in> set (ids s)"
  by (auto simp: queued_def ids_def)

lemma unused_id:
  assumes "tasks_agree s" "ids_ok D s" "nextId s \<le> i"
  shows "tasksById s i = None"
proof (rule ccontr)
  assume "tasksById s i \<noteq> None"
  then obtain t where "tasksById s i = Some t" by blast
  with assms(1) have "t \<in> queued s" "task_id t = i"
    unfolding tasks_agree_def by (auto dest: indexed_lookup)
  with assms(2,3) show False unfolding ids_ok_def by (metis queued_id not_less)
qed

lemma push_ready_inv:
  assumes "active_at E D now s" "rt_id t = nextId s" "rt_sequence t = nextSequence s"
    "rt_readyAt t = now"
  shows "active_at E D now (push_ready t (tick_ids s))"
proof -
  let ?s = "push_ready t (tick_ids s)"
  have i: "tasks_agree s" "ids_ok D s" "seqs_ok s" "order_ok s" "clock_ok s"
    using assms(1) by (simp_all add: loop_inv_def)
  have "tasks_agree ?s"
    using indexed_insert [of task_id "tasksById s" "queued s" "ReadyTask t"] assms i
      unused_id [OF i(1,2) order_refl]
    by (simp add: tasks_agree_def push_ready_def queued_def tick_ids_def)
  moreover have "ids_ok D ?s"
    by (rule ids_ok_insert [of D s "map rt_id (readyTasks s)" "map im_id (immediates s) @
        map nt_id (nextTicks s) @ map tm_id (timers s)"]) (use assms i in \<open>auto simp: ids_def push_ready_def tick_ids_def\<close>)
  moreover have "seqs_ok ?s"
    by (rule seqs_ok_insert [of s "map rt_sequence (readyTasks s)"
        "map im_sequence (immediates s) @ map tm_sequence (timers s)"]) (use assms i in \<open>auto simp: seqs_def push_ready_def tick_ids_def\<close>)
  moreover have "order_ok ?s"
    using assms i(3,4,5)
    by (auto simp: order_ok_def push_ready_def tick_ids_def sorted_wrt_append seqs_ok_def seqs_def
        clock_ok_def)
  moreover have "clock_ok ?s"
    using assms i(5) by (auto simp: clock_ok_def push_ready_def tick_ids_def)
  ultimately show ?thesis using assms
    by (simp add: loop_inv_def timers_ok_def names_ok_def quiet_if_disposed_def push_ready_def
        tick_ids_def)
qed

lemma push_immediate_inv:
  assumes "active E D s" "im_id t = nextId s" "im_sequence t = nextSequence s"
  shows "active E D (push_immediate t (tick_ids s))"
proof -
  let ?s = "push_immediate t (tick_ids s)"
  have i: "tasks_agree s" "ids_ok D s" "seqs_ok s" "order_ok s" "clock_ok s"
    using assms(1) by (simp_all add: loop_inv_def)
  have "tasks_agree ?s"
    using indexed_insert [of task_id "tasksById s" "queued s" "ImmediateTask t"] assms i
      unused_id [OF i(1,2) order_refl]
    by (simp add: tasks_agree_def push_immediate_def queued_def tick_ids_def)
  moreover have "ids_ok D ?s"
    by (rule ids_ok_insert [of D s "map rt_id (readyTasks s) @ map im_id (immediates s)"
        "map nt_id (nextTicks s) @ map tm_id (timers s)"]) (use assms i in \<open>auto simp: ids_def push_immediate_def tick_ids_def\<close>)
  moreover have "seqs_ok ?s"
    by (rule seqs_ok_insert [of s "map rt_sequence (readyTasks s) @ map im_sequence (immediates s)"
        "map tm_sequence (timers s)"]) (use assms i in \<open>auto simp: seqs_def push_immediate_def tick_ids_def\<close>)
  moreover have "order_ok ?s"
    using assms i(3,4)
    by (auto simp: order_ok_def push_immediate_def tick_ids_def sorted_wrt_append seqs_ok_def seqs_def)
  ultimately show ?thesis using assms
    by (simp add: loop_inv_def clock_ok_def timers_ok_def names_ok_def quiet_if_disposed_def
        push_immediate_def tick_ids_def)
qed

lemma push_tick_inv:
  assumes "active E D s" "nt_id t = nextId s"
  shows "active E D (push_tick t (s\<lparr>nextId := Suc (nextId s)\<rparr>))"
proof -
  let ?s = "push_tick t (s\<lparr>nextId := Suc (nextId s)\<rparr>)"
  have i: "tasks_agree s" "ids_ok D s" using assms(1) by (simp_all add: loop_inv_def)
  have "tasks_agree ?s"
    using indexed_insert [of task_id "tasksById s" "queued s" "NextTickTask t"] assms i
      unused_id [OF i(1,2) order_refl]
    by (simp add: tasks_agree_def push_tick_def queued_def)
  moreover have "ids_ok D ?s"
    by (rule ids_ok_insert [of D s "map rt_id (readyTasks s) @ map im_id (immediates s) @
                                   map nt_id (nextTicks s)"
        "map tm_id (timers s)"]) (use assms i in \<open>auto simp: ids_def push_tick_def\<close>)
  ultimately show ?thesis using assms
    by (simp add: loop_inv_def clock_ok_def seqs_ok_def order_ok_def seqs_def timers_ok_def
        names_ok_def quiet_if_disposed_def push_tick_def)
qed

lemma put_timer_inv:
  assumes "active E D s" "tm_id t = nextId s" "tm_sequence t = nextSequence s"
    "\<And>iv. tm_intervalMs t = Some iv \<Longrightarrow> minimumIntervalMs E \<le> iv \<and> iv \<le> maxTimerDelayMs E"
  shows "active E D (put_timer t (tick_ids s))"
proof -
  let ?s = "put_timer t (tick_ids s)"
  have i: "tasks_agree s" "ids_ok D s" "seqs_ok s" "order_ok s"
    using assms(1) by (simp_all add: loop_inv_def)
  have "ids_ok D ?s"
    by (rule ids_ok_insert [of D s "ids s" "[]"]) (use assms i in \<open>auto simp: ids_def put_timer_def tick_ids_def\<close>)
  moreover have "seqs_ok ?s"
    by (rule seqs_ok_insert [of s "seqs s" "[]"]) (use assms i in \<open>auto simp: seqs_def put_timer_def tick_ids_def\<close>)
  moreover have "order_ok ?s"
    using assms i(3,4)
    by (auto simp: order_ok_def put_timer_def tick_ids_def sorted_wrt_append seqs_ok_def seqs_def)
  moreover have "timers_ok E ?s"
    using assms by (auto simp: loop_inv_def timers_ok_def put_timer_def tick_ids_def)
  ultimately show ?thesis using assms
    by (simp add: loop_inv_def tasks_agree_def queued_def clock_ok_def names_ok_def
        quiet_if_disposed_def put_timer_def tick_ids_def)
qed

section \<open>Removing work\<close>

text \<open>A change that only removes elements of the queues keeps all but the agreement of the index.\<close>

definition shrinks :: "('c, 'w) loop \<Rightarrow> ('c, 'w) loop \<Rightarrow> bool" where
  "shrinks s s' \<longleftrightarrow>
     subseq (readyTasks s') (readyTasks s) \<and> subseq (immediates s') (immediates s) \<and>
     subseq (nextTicks s') (nextTicks s) \<and> subseq (timers s') (timers s) \<and>
     subseq (nativeRequests s') (nativeRequests s) \<and>
     subseq (lifecycleObservers s') (lifecycleObservers s) \<and>
     nextId s' = nextId s \<and> nextSequence s' = nextSequence s \<and> lastNow s' = lastNow s \<and>
     disposed s' = disposed s \<and>
     (disposed s \<longrightarrow> activeImmediateBatchCutoff s' = None \<and> activeIoBatchCutoff s' = None \<and>
                    tasksById s' = (\<lambda>_. None))"

lemma shrinks_inv:
  assumes "shrinks s s'" "loop_inv E D s" "tasks_agree s'"
  shows "loop_inv E D s'"
proof -
  have sub: "subseq (ids s') (ids s)" "subseq (seqs s') (seqs s)"
    using assms(1) unfolding shrinks_def ids_def seqs_def
    by (intro list_emb_append_mono subseq_map; simp)+
  have "ids_ok D s'" "seqs_ok s'"
    using assms(1,2) sub [THEN subseq_set] sub [THEN subseq_distinct]
    by (auto simp: loop_inv_def ids_ok_def seqs_ok_def shrinks_def)
  moreover have "order_ok s'"
    using assms(1,2) by (auto simp: loop_inv_def order_ok_def shrinks_def intro: subseq_sorted_wrt)
  moreover have "clock_ok s'" "timers_ok E s'"
    using assms(1,2)
    by (auto simp: loop_inv_def clock_ok_def timers_ok_def shrinks_def dest!: subseq_set)
  moreover have "names_ok s'"
    using assms(1,2)
    by (auto simp: loop_inv_def names_ok_def shrinks_def intro: subseq_distinct subseq_map)
  moreover have "quiet_if_disposed s'"
    using assms(1,2) by (auto simp: loop_inv_def quiet_if_disposed_def shrinks_def)
  ultimately show ?thesis using assms(3) by (simp add: loop_inv_def)
qed

lemma queued_others:
  assumes "distinct (ids s)"
  shows "t \<in> set (readyTasks s) \<Longrightarrow> {x \<in> queued s. task_id x \<noteq> rt_id t} =
    ReadyTask ` {x \<in> set (readyTasks s). rt_id x \<noteq> rt_id t} \<union> ImmediateTask ` set (immediates s) \<union>
    NextTickTask ` set (nextTicks s)"
  and "m \<in> set (immediates s) \<Longrightarrow> {x \<in> queued s. task_id x \<noteq> im_id m} =
    ReadyTask ` set (readyTasks s) \<union> ImmediateTask ` {x \<in> set (immediates s). im_id x \<noteq> im_id m} \<union>
    NextTickTask ` set (nextTicks s)"
  and "n \<in> set (nextTicks s) \<Longrightarrow> {x \<in> queued s. task_id x \<noteq> nt_id n} =
    ReadyTask ` set (readyTasks s) \<union> ImmediateTask ` set (immediates s) \<union>
    NextTickTask ` {x \<in> set (nextTicks s). nt_id x \<noteq> nt_id n}"
proof -
  have d: "\<And>a b. a \<in> set (readyTasks s) \<Longrightarrow> b \<in> set (immediates s) \<Longrightarrow> rt_id a \<noteq> im_id b"
    "\<And>a b. a \<in> set (readyTasks s) \<Longrightarrow> b \<in> set (nextTicks s) \<Longrightarrow> rt_id a \<noteq> nt_id b"
    "\<And>a b. a \<in> set (immediates s) \<Longrightarrow> b \<in> set (nextTicks s) \<Longrightarrow> im_id a \<noteq> nt_id b"
  proof -
    have "rt_id ` set (readyTasks s) \<inter> im_id ` set (immediates s) = {}"
      "rt_id ` set (readyTasks s) \<inter> nt_id ` set (nextTicks s) = {}"
      "im_id ` set (immediates s) \<inter> nt_id ` set (nextTicks s) = {}"
      using assms by (simp_all add: ids_def Int_Un_distrib)
    then show "\<And>a b. a \<in> set (readyTasks s) \<Longrightarrow> b \<in> set (immediates s) \<Longrightarrow> rt_id a \<noteq> im_id b"
      "\<And>a b. a \<in> set (readyTasks s) \<Longrightarrow> b \<in> set (nextTicks s) \<Longrightarrow> rt_id a \<noteq> nt_id b"
      "\<And>a b. a \<in> set (immediates s) \<Longrightarrow> b \<in> set (nextTicks s) \<Longrightarrow> im_id a \<noteq> nt_id b"
      by blast+
  qed
  show "t \<in> set (readyTasks s) \<Longrightarrow> {x \<in> queued s. task_id x \<noteq> rt_id t} =
    ReadyTask ` {x \<in> set (readyTasks s). rt_id x \<noteq> rt_id t} \<union> ImmediateTask ` set (immediates s) \<union>
    NextTickTask ` set (nextTicks s)"
    using d(1,2) by (force simp: queued_def)
  show "m \<in> set (immediates s) \<Longrightarrow> {x \<in> queued s. task_id x \<noteq> im_id m} =
    ReadyTask ` set (readyTasks s) \<union> ImmediateTask ` {x \<in> set (immediates s). im_id x \<noteq> im_id m} \<union>
    NextTickTask ` set (nextTicks s)"
    using d(1,3) by (force simp: queued_def)
  show "n \<in> set (nextTicks s) \<Longrightarrow> {x \<in> queued s. task_id x \<noteq> nt_id n} =
    ReadyTask ` set (readyTasks s) \<union> ImmediateTask ` set (immediates s) \<union>
    NextTickTask ` {x \<in> set (nextTicks s). nt_id x \<noteq> nt_id n}"
    using d(2,3) by (force simp: queued_def)
qed

lemma tasks_agree_without:
  assumes "loop_inv E D s" "tasksById s' = (tasksById s)(i := None)"
    "queued s' = {x \<in> queued s. task_id x \<noteq> i}"
  shows "tasks_agree s'"
  using assms indexed_remove [of task_id "tasksById s" "queued s" i]
  by (simp add: loop_inv_def tasks_agree_def)

lemma inv_distinct:
  assumes "loop_inv E D s"
  shows "distinct (ids s)" "distinct (map rt_id (readyTasks s))" "distinct (map im_id (immediates s))"
    "distinct (map nt_id (nextTicks s))" "distinct (map tm_id (timers s))"
  using assms by (simp_all add: loop_inv_def ids_ok_def ids_def)

lemma drop_ready_inv:
  assumes "loop_inv E D s" "t \<in> set (readyTasks s)"
  shows "loop_inv E D (drop_ready t s)"
proof (rule shrinks_inv [OF _ assms(1)])
  show "shrinks s (drop_ready t s)"
    using assms by (auto simp: shrinks_def drop_ready_def subseq_remove1 inv_defs)
  show "tasks_agree (drop_ready t s)"
    using assms inv_distinct [OF assms(1)]
    by (intro tasks_agree_without [where i = "rt_id t" and s = s])
       (auto simp: drop_ready_def queued_others set_remove1_key queued_def [of "_\<lparr>readyTasks := _\<rparr>"])
qed

lemma drop_immediate_inv:
  assumes "loop_inv E D s" "t \<in> set (immediates s)"
  shows "loop_inv E D (drop_immediate t s)"
proof (rule shrinks_inv [OF _ assms(1)])
  show "shrinks s (drop_immediate t s)"
    using assms by (auto simp: shrinks_def drop_immediate_def subseq_remove1 inv_defs)
  show "tasks_agree (drop_immediate t s)"
    using assms inv_distinct [OF assms(1)]
    by (intro tasks_agree_without [where i = "im_id t" and s = s])
       (auto simp: drop_immediate_def queued_others set_remove1_key queued_def [of "_\<lparr>immediates := _\<rparr>"])
qed

lemma drop_tick_inv:
  assumes "loop_inv E D s" "t \<in> set (nextTicks s)"
  shows "loop_inv E D (drop_tick t s)"
proof (rule shrinks_inv [OF _ assms(1)])
  show "shrinks s (drop_tick t s)"
    using assms by (auto simp: shrinks_def drop_tick_def subseq_remove1 inv_defs)
  show "tasks_agree (drop_tick t s)"
    using assms inv_distinct [OF assms(1)]
    by (intro tasks_agree_without [where i = "nt_id t" and s = s])
       (auto simp: drop_tick_def queued_others set_remove1_key queued_def [of "_\<lparr>nextTicks := _\<rparr>"])
qed

lemma splice_ready_inv:
  assumes "loop_inv E D s" "i < length (readyTasks s)"
  shows "loop_inv E D (s\<lparr>tasksById := (tasksById s)(rt_id (readyTasks s ! i) := None),
                        readyTasks := splice1 i (readyTasks s)\<rparr>)" (is "loop_inv E D ?s")
proof (rule shrinks_inv [OF _ assms(1)])
  show "shrinks s ?s" using assms by (auto simp: shrinks_def subseq_splice1 inv_defs)
  show "tasks_agree ?s"
    using assms inv_distinct [OF assms(1)]
    by (intro tasks_agree_without [where i = "rt_id (readyTasks s ! i)" and s = s])
       (auto simp: queued_others set_splice1_distinct queued_def [of "_\<lparr>readyTasks := _\<rparr>"])
qed

lemma delete_timer_inv: "loop_inv E D s \<Longrightarrow> loop_inv E D (delete_timer i s)"
  by (rule shrinks_inv [of s])
     (auto simp: shrinks_def delete_timer_def inv_defs)

lemma delete_request_inv: "loop_inv E D s \<Longrightarrow> loop_inv E D (delete_request r s)"
  by (rule shrinks_inv [of s])
     (auto simp: shrinks_def delete_request_def inv_defs)

lemma update_timer_inv:
  assumes "loop_inv E D s"
    and "\<And>t. tm_id (f t) = tm_id t \<and> tm_sequence (f t) = tm_sequence t \<and>
             tm_intervalMs (f t) = tm_intervalMs t"
  shows "loop_inv E D (update_timer i f s)"
proof -
  let ?g = "\<lambda>t. if tm_id t = i then f t else t"
  have g: "tm_id (?g t) = tm_id t" "tm_sequence (?g t) = tm_sequence t" for t
    using assms(2) by simp_all
  have k: "map tm_id (map ?g ts) = map tm_id ts" "map tm_sequence (map ?g ts) = map tm_sequence ts"
    "sorted_wrt (\<lambda>a b. tm_sequence a < tm_sequence b) (map ?g ts) =
     sorted_wrt (\<lambda>a b. tm_sequence a < tm_sequence b) ts" for ts
    by (simp_all only: map_map comp_def g sorted_wrt_map)
  have "ids (update_timer i f s) = ids s" "seqs (update_timer i f s) = seqs s"
    using k by (simp_all add: ids_def seqs_def update_timer_def)
  then show ?thesis
    using assms k
    by (auto simp: loop_inv_def tasks_agree_def queued_def ids_ok_def seqs_ok_def order_ok_def
        clock_ok_def timers_ok_def names_ok_def quiet_if_disposed_def update_timer_def)
qed

end
