(* ===== verification/Loop_Steps.thy ===== *)
theory Loop_Steps
  imports Loop_Invariant
begin

text \<open>
  Every operation, callback and turn of the event loop keeps the invariant of
  \<open>Loop_Invariant\<close>, hence every reachable loop satisfies it.  The lemmas of the form
  \<open>keeps (loop_inv E D) op\<close> are in the collection \<open>loop_keeps\<close>.
\<close>

section \<open>Termination, clock and wakeup\<close>

named_theorems loop_keeps

lemma clearPendingWork_inv:
  "loop_inv E D s \<Longrightarrow> lifecycleObservers s' = [] \<Longrightarrow> lastNow s' = lastNow s \<Longrightarrow>
   nextId s' = nextId s \<Longrightarrow> immediates s' = [] \<Longrightarrow> nativeRequests s' = [] \<Longrightarrow>
   nextTicks s' = [] \<Longrightarrow> readyTasks s' = [] \<Longrightarrow> timers s' = [] \<Longrightarrow> tasksById s' = (\<lambda>_. None) \<Longrightarrow>
   activeImmediateBatchCutoff s' = None \<Longrightarrow> activeIoBatchCutoff s' = None \<Longrightarrow> loop_inv E D s'"
  by (simp add: inv_defs indexed_def)

text \<open>A property the host's side of the loop does not touch: the world and the armed wakeup.\<close>

definition host_blind :: "(('c, 'w) loop \<Rightarrow> bool) \<Rightarrow> bool" where
  "host_blind P \<longleftrightarrow> (\<forall>s w. P (s\<lparr>world := w\<rparr>) = P s) \<and>
     (\<forall>s a. P (s\<lparr>scheduledWakeupAt := a\<rparr>) = P s) \<and>
     (\<forall>s p. P (s\<lparr>scheduledWakeupPhase := p\<rparr>) = P s)"

lemma host_blind_loop_inv: "host_blind (loop_inv E D)"
  by (simp add: host_blind_def)

lemma requestWakeup_keeps: "host_blind P \<Longrightarrow> keeps P (requestWakeup E d)"
  unfolding host_blind_def
  by (rule hoareI) (auto simp: requestWakeup_def Let_def split: if_splits prod.splits option.splits)

lemma finalize_cases:
  assumes "host_blind P" "\<not> disposed s" "P (clearPendingWork (s\<lparr>disposed := True\<rparr>))"
  shows "\<exists>s2 w. finalizeTermination E r s = s2\<lparr>lifecycleObservers := [], world := w\<rparr> \<and> P s2"
proof -
  obtain x t where t: "requestWakeup E None (clearPendingWork (s\<lparr>disposed := True\<rparr>)) = (x, t)"
    by fastforce
  have "P t" using requestWakeup_keeps [OF assms(1), of E None] t assms(3)
    by (auto dest!: hoareD [where P = P] split: sum.splits)
  then show ?thesis using assms(1,2) t unfolding host_blind_def
    by (auto simp: finalizeTermination_def Let_def split: sum.splits)
qed

lemma finalize_disposed [simp]: "disposed (finalizeTermination E r s)"
proof (cases "disposed s")
  case False
  then show ?thesis
    using finalize_cases [of disposed s E r] by (auto simp: host_blind_def clearPendingWork_def)
qed (simp add: finalizeTermination_def)

lemma finalize_inv:
  assumes "loop_inv E D s" shows "loop_inv E D (finalizeTermination E r s)"
proof (cases "disposed s")
  case False
  let ?P = "\<lambda>t. lastNow t = lastNow s \<and> nextId t = nextId s \<and> immediates t = [] \<and>
    nativeRequests t = [] \<and> nextTicks t = [] \<and> readyTasks t = [] \<and> timers t = [] \<and>
    tasksById t = (\<lambda>_. None) \<and> activeImmediateBatchCutoff t = None \<and> activeIoBatchCutoff t = None"
  have "host_blind ?P" by (simp add: host_blind_def)
  moreover have "?P (clearPendingWork (s\<lparr>disposed := True\<rparr>))" by (simp add: clearPendingWork_def)
  ultimately obtain s2 w where "finalizeTermination E r s = s2\<lparr>lifecycleObservers := [], world := w\<rparr>"
    and "?P s2" using finalize_cases [of ?P s E r] False by blast
  then show ?thesis by (simp only:) (rule clearPendingWork_inv [OF assms], simp_all)
qed (simp add: finalizeTermination_def assms)

lemma finalize_id: "disposed s \<Longrightarrow> finalizeTermination E r s = s"
  by (simp add: finalizeTermination_def)

lemma fail_hoare: "hoare (loop_inv E D) (fail E e) Q (\<lambda>_ s. loop_inv E D s \<and> disposed s)"
  by (simp add: hoare_def fail_def finalize_inv)

lemma fail_keeps [loop_keeps]: "keeps (loop_inv E D) (fail E e)"
  by (rule hoare_post [OF fail_hoare]) auto

lemma shutdown_keeps [loop_keeps]: "keeps (loop_inv E D) (shutdown E)"
  by (simp add: hoare_def shutdown_def finalize_inv)

lemma readNow_ok:
  assumes "readNow E s = (Inr now, s')"
  obtains w where "s' = s\<lparr>world := w, lastNow := Some now\<rparr>" "0 \<le> now"
    "\<And>p. lastNow s = Some p \<Longrightarrow> p \<le> now"
  using assms
  by (auto simp: readNow_def fail_def Let_def
      split: prod.splits sum.splits jsnum.splits if_splits option.splits)

lemma readNow_hoare:
  "hoare (active E D) (readNow E) (active_at E D) (\<lambda>_. loop_inv E D)"
  by (rule hoareI)
     (auto simp: readNow_def fail_def Let_def finalize_inv
       split: prod.splits sum.splits jsnum.splits if_splits option.splits intro!: loop_inv_lastNow)

lemma readNow_keeps [loop_keeps]: "keeps (loop_inv E D) (readNow E)"
  by (rule hoareI)
     (auto simp: readNow_def fail_def Let_def finalize_inv
       split: prod.splits sum.splits jsnum.splits if_splits option.splits intro!: loop_inv_lastNow)

lemma assertAcceptingWork_hoare:
  "hoare (loop_inv E D) assertAcceptingWork (\<lambda>_. active E D) (\<lambda>_. loop_inv E D)"
  by (auto simp: hoare_def assertAcceptingWork_def)

lemma assertCallback_keeps: "keeps I (assertCallback c)"
  by (simp add: assertCallback_def keeps_rules split: option.split)

lemma assertCallback_active: "hoare (active E D) (assertCallback c) (\<lambda>_. active E D) (\<lambda>_. loop_inv E D)"
  by (rule hoare_post [OF assertCallback_keeps]) auto

lemma reconcileWakeupAt_keeps:
  assumes "host_blind P"
  shows "keeps P (reconcileWakeupAt E now)"
  using requestWakeup_keeps [OF assms] by (simp add: reconcileWakeupAt_def hoare_def)

lemma commit_hoare:
  assumes "host_blind P" and "\<And>s. P s \<Longrightarrow> loop_inv E D (rollback s)"
  shows "hoare P (commitWakeupAdmission E now rollback) (\<lambda>_. P) (\<lambda>_. loop_inv E D)"
  unfolding commitWakeupAdmission_def
proof (rule hoare_try)
  show "keeps P (reconcileWakeupAt E now)" by (rule reconcileWakeupAt_keeps [OF assms(1)])
  show "hoare P (seqE (modify rollback) (\<lambda>_. fail E (normalizeWakeupError e))) (\<lambda>_. P) (\<lambda>_. loop_inv E D)"
    for e
    using assms(2) by (simp add: hoare_def seqE_def modify_def fail_def finalize_inv)
qed

lemma reconcileWakeupIfActive_keeps [loop_keeps]: "keeps (loop_inv E D) (reconcileWakeupIfActive E)"
proof -
  have "keeps (loop_inv E D) (tryE (seqE (readNow E) (reconcileWakeupAt E)) (\<lambda>e. fail E (normalizeWakeupError e)))"
    by (intro keeps_rules loop_keeps reconcileWakeupAt_keeps host_blind_loop_inv)
  then show ?thesis by (simp add: hoare_def reconcileWakeupIfActive_def)
qed

section \<open>The operations\<close>

lemma hoare_alloc:
  assumes "\<And>i q. hoare (\<lambda>s'. \<exists>s. P s \<and> i = nextId s \<and> q = nextSequence s \<and> s' = tick_ids s) (F i q) Q E"
  shows "hoare P (seqE allocateId (\<lambda>i. seqE allocateSequence (F i))) Q E"
  unfolding hoare_def
proof (intro allI impI)
  fix s assume "P s"
  have "seqE allocateId (\<lambda>i. seqE allocateSequence (F i)) s = F (nextId s) (nextSequence s) (tick_ids s)"
    by (simp add: seqE_def allocateId_def allocateSequence_def tick_ids_def)
  with assms [of "nextId s" "nextSequence s"] \<open>P s\<close>
  show "case seqE allocateId (\<lambda>i. seqE allocateSequence (F i)) s of
      (Inl e, s') \<Rightarrow> E e s' | (Inr x, s') \<Rightarrow> Q x s'"
    unfolding hoare_def by auto
qed

lemma enqueueReadyTaskAt_hoare:
  "hoare (active_at E D now) (enqueueReadyTaskAt E k c r now n io) (\<lambda>_. active E D) (\<lambda>_. loop_inv E D)"
  unfolding enqueueReadyTaskAt_def Let_def
proof (rule hoare_alloc, rule hoare_seq)
  fix i q
  let ?t = "\<lparr>rt_callback = c, rt_ioCallback = io, rt_id = i, rt_kind = k, rt_nativeRequestId = n,
             rt_readyAt = now, rt_ref = r, rt_sequence = q\<rparr>"
  let ?R = "\<lambda>s. active E D s \<and> ?t \<in> set (readyTasks s)"
  show "hoare (\<lambda>s'. \<exists>s. active_at E D now s \<and> i = nextId s \<and> q = nextSequence s \<and> s' = tick_ids s)
     (modify (push_ready ?t)) (\<lambda>_. ?R) (\<lambda>_. loop_inv E D)"
    using push_ready_inv [where E = E and now = now and t = ?t] by (auto simp: hoare_def modify_def push_ready_def)
  show "hoare ?R (seqE (commitWakeupAdmission E now (drop_ready ?t)) (\<lambda>_. ret i)) (\<lambda>_. active E D) (\<lambda>_. loop_inv E D)"
    by (rule hoare_seq [OF commit_hoare [where P = ?R]])
       (auto simp: drop_ready_inv hoare_def ret_def host_blind_def)
qed

lemma enqueueReadyTask_keeps:
  "keeps (loop_inv E D) (enqueueReadyTask E k c r n io)"
  unfolding enqueueReadyTask_def
  by (rule hoare_seq [OF assertAcceptingWork_hoare], rule hoare_seq [OF assertCallback_active],
      rule hoare_seq [OF readNow_hoare], rule hoare_post [OF enqueueReadyTaskAt_hoare]) auto

lemma enqueueMacrotask_keeps [loop_keeps]: "keeps (loop_inv E D) (enqueueMacrotask E c r)"
  by (simp add: enqueueMacrotask_def enqueueReadyTask_keeps)

lemma enqueueIoCallback_keeps [loop_keeps]: "keeps (loop_inv E D) (enqueueIoCallback E c r)"
  by (simp add: enqueueIoCallback_def enqueueReadyTask_keeps)

lemma enqueueImmediate_keeps [loop_keeps]:
  fixes E :: "('c, 'w) env"
  shows "keeps (loop_inv E D) (enqueueImmediate E c r)"
  unfolding enqueueImmediate_def Let_def
proof (rule hoare_seq [OF assertAcceptingWork_hoare], rule hoare_seq [OF assertCallback_active],
    rule hoare_seq [OF readNow_hoare], rule hoare_alloc, rule hoare_seq)
  fix c :: 'c and now i q
  let ?t = "\<lparr>im_callback = c, im_id = i, im_ref = ref_or_true r, im_sequence = q\<rparr>"
  let ?R = "\<lambda>s. active E D s \<and> ?t \<in> set (immediates s)"
  show "hoare (\<lambda>s'. \<exists>s. active_at E D now s \<and> i = nextId s \<and> q = nextSequence s \<and> s' = tick_ids s)
     (modify (push_immediate ?t)) (\<lambda>_. ?R) (\<lambda>_. loop_inv E D)"
    using push_immediate_inv [where E = E and t = ?t]
    by (auto simp: hoare_def modify_def push_immediate_def)
  show "hoare ?R (seqE (commitWakeupAdmission E now (drop_immediate ?t)) (\<lambda>_. ret i))
      (\<lambda>_. loop_inv E D) (\<lambda>_. loop_inv E D)"
    by (rule hoare_seq [OF commit_hoare [where P = ?R]])
       (auto simp: drop_immediate_inv hoare_def ret_def host_blind_def)
qed

lemma enqueueNextTick_keeps [loop_keeps]:
  fixes E :: "('c, 'w) env"
  shows "keeps (loop_inv E D) (enqueueNextTick E c r)"
  unfolding enqueueNextTick_def Let_def
proof (rule hoare_seq [OF assertAcceptingWork_hoare], rule hoare_seq [OF assertCallback_active],
    rule hoare_seq [OF readNow_hoare], rule hoare_seq, rule_tac [2] hoare_seq)
  fix c :: 'c and now i
  let ?t = "\<lparr>nt_callback = c, nt_id = i, nt_ref = ref_or_true r\<rparr>"
  let ?R = "\<lambda>s. active E D s \<and> ?t \<in> set (nextTicks s)"
  show "hoare (active_at E D now) allocateId
      (\<lambda>i s'. \<exists>s. active E D s \<and> i = nextId s \<and> s' = s\<lparr>nextId := Suc (nextId s)\<rparr>) (\<lambda>_. loop_inv E D)"
    by (auto simp: hoare_def allocateId_def)
  show "hoare (\<lambda>s'. \<exists>s. active E D s \<and> i = nextId s \<and> s' = s\<lparr>nextId := Suc (nextId s)\<rparr>)
     (modify (push_tick ?t)) (\<lambda>_. ?R) (\<lambda>_. loop_inv E D)"
    using push_tick_inv [where E = E and t = ?t]
    by (auto simp: hoare_def modify_def push_tick_def)
  show "hoare ?R (seqE (commitWakeupAdmission E now (drop_tick ?t)) (\<lambda>_. ret i))
      (\<lambda>_. loop_inv E D) (\<lambda>_. loop_inv E D)"
    by (rule hoare_seq [OF commit_hoare [where P = ?R]])
       (auto simp: drop_tick_inv hoare_def ret_def host_blind_def)
qed

lemma unlist_inv:
  assumes "loop_inv E D s" "tasksById s i = Some t"
  shows "loop_inv E D (unlist_task t (s\<lparr>tasksById := (tasksById s)(i := None)\<rparr>))"
proof -
  have t: "t \<in> queued s" "task_id t = i"
    using assms by (auto simp: loop_inv_def tasks_agree_def dest: indexed_lookup)
  then show ?thesis
    using drop_ready_inv [OF assms(1)] drop_immediate_inv [OF assms(1)] drop_tick_inv [OF assms(1)]
    by (cases t) (auto simp: queued_def unlist_task_def drop_ready_def drop_immediate_def drop_tick_def)
qed

lemma reconcile_return_keeps: "keeps (loop_inv E D) (seqE (reconcileWakeupIfActive E) (\<lambda>_. ret x))"
  by (intro keeps_rules loop_keeps)

lemmas reconcile_return = keeps_snd [OF reconcile_return_keeps]

lemma cancelTask_keeps [loop_keeps]: "keeps (loop_inv E D) (cancelTask E i)"
  by (auto simp: keeps_iff cancelTask_def unlist_inv reconcile_return split: option.split)

lemma setImmediateRef_inv:
  assumes "loop_inv E D s" "tasksById s i = Some (ImmediateTask t)"
  shows "loop_inv E D (s\<lparr>tasksById := (tasksById s)(i \<mapsto> ImmediateTask (t\<lparr>im_ref := b\<rparr>)),
     immediates := map (\<lambda>u. if im_id u = i then u\<lparr>im_ref := b\<rparr> else u) (immediates s)\<rparr>)"
    (is "loop_inv E D ?s")
proof -
  let ?g = "\<lambda>u. if im_id u = i then u\<lparr>im_ref := b\<rparr> else u"
  have t: "t \<in> set (immediates s)" "im_id t = i" and ix: "indexed task_id (tasksById s) (queued s)"
    using assms by (auto simp: loop_inv_def tasks_agree_def queued_def dest: indexed_lookup)
  have uniq: "u = t" if "u \<in> set (immediates s)" "im_id u = i" for u
    using that t inv_distinct(3) [OF assms(1)] by (auto simp: distinct_map inj_on_def)
  have g: "im_id (?g u) = im_id u" "im_sequence (?g u) = im_sequence u" for u by simp_all
  then have k: "map im_id (map ?g ts) = map im_id ts" "map im_sequence (map ?g ts) = map im_sequence ts"
    "sorted_wrt (\<lambda>a b. im_sequence a < im_sequence b) (map ?g ts) =
     sorted_wrt (\<lambda>a b. im_sequence a < im_sequence b) ts" for ts
    by (simp_all only: map_map comp_def g sorted_wrt_map)
  let ?O = "{u \<in> set (immediates s). im_id u \<noteq> i}"
  have "set (immediates s) = insert t ?O" using t uniq by blast
  then have "set (map ?g (immediates s)) = ?g ` insert t ?O" by (metis set_map)
  also have "\<dots> = insert (t\<lparr>im_ref := b\<rparr>) (?g ` ?O)" using t(2) by auto
  also have "?g ` ?O = ?O" by (force simp: image_iff)
  finally have im: "set (map ?g (immediates s)) = insert (t\<lparr>im_ref := b\<rparr>) ?O" .
  have "queued ?s = ReadyTask ` set (readyTasks s) \<union> ImmediateTask ` set (map ?g (immediates s)) \<union>
      NextTickTask ` set (nextTicks s)"
    by (simp add: queued_def del: set_map)
  also have "\<dots> = insert (ImmediateTask (t\<lparr>im_ref := b\<rparr>)) {x \<in> queued s. task_id x \<noteq> i}"
  proof -
    have q: "{x \<in> queued s. task_id x \<noteq> i} = ReadyTask ` set (readyTasks s) \<union>
      ImmediateTask ` {x \<in> set (immediates s). im_id x \<noteq> i} \<union> NextTickTask ` set (nextTicks s)"
      using queued_others(2) [OF inv_distinct(1) [OF assms(1)] t(1)] unfolding t(2) .
    show ?thesis by (simp only: q im image_insert Un_insert_left Un_insert_right)
  qed
  finally have "tasks_agree ?s"
    using indexed_replace [OF ix, of "ImmediateTask (t\<lparr>im_ref := b\<rparr>)"] t(2)
    by (simp add: tasks_agree_def)
  moreover have "ids ?s = ids s" "seqs ?s = seqs s" using k by (simp_all add: ids_def seqs_def)
  then have "ids_ok D ?s" "seqs_ok ?s" using assms(1) by (simp_all add: loop_inv_def ids_ok_def seqs_ok_def)
  moreover have "order_ok ?s"
    using assms(1) by (simp add: loop_inv_def order_ok_def k(3) del: sorted_wrt_map)
  moreover have "clock_ok ?s" "timers_ok E ?s" "names_ok ?s" "quiet_if_disposed ?s"
    using assms(1,2) unfolding loop_inv_def clock_ok_def timers_ok_def names_ok_def quiet_if_disposed_def
    by auto
  ultimately show ?thesis by (simp add: loop_inv_def)
qed

lemma setImmediateRef_keeps [loop_keeps]: "keeps (loop_inv E D) (setImmediateRef E i b)"
  by (auto simp: keeps_iff setImmediateRef_def setImmediateRef_inv reconcile_return
      split: option.split task.split)

lemma clearTimer_keeps [loop_keeps]: "keeps (loop_inv E D) (clearTimer E i)"
  by (simp add: keeps_iff clearTimer_def Let_def delete_timer_inv reconcile_return ret_def)

lemma setTimerRef_keeps [loop_keeps]: "keeps (loop_inv E D) (setTimerRef E i b)"
  by (auto simp: keeps_iff setTimerRef_def update_timer_inv reconcile_return split: option.split)

lemma normalizeDelay_hoare:
  assumes "env_ok E"
  shows "hoare P (normalizeDelay E n v z)
    (\<lambda>d s. P s \<and> 0 \<le> d \<and> d \<le> maxTimerDelayMs E \<and> (\<not> z \<longrightarrow> minimumIntervalMs E \<le> d)) (\<lambda>_. P)"
  using assms
  by (auto simp: normalizeDelay_def hoare_def ret_def throw_def env_ok_def min_def max_def
      split: jsnum.split)

lemma addTimer_hoare:
  assumes "\<And>x. iv = Some x \<Longrightarrow> minimumIntervalMs E \<le> x \<and> x \<le> maxTimerDelayMs E"
  shows "hoare (active E D) (addTimer E c now d iv r) (\<lambda>_. loop_inv E D) (\<lambda>_. loop_inv E D)"
  unfolding addTimer_def Let_def
proof (rule hoare_alloc, rule hoare_seq)
  fix i q
  let ?t = "\<lparr>tm_callback = c, tm_dueAt = now + d, tm_id = i, tm_intervalMs = iv, tm_ref = r,
             tm_sequence = q\<rparr>"
  show "hoare (\<lambda>s'. \<exists>s. active E D s \<and> i = nextId s \<and> q = nextSequence s \<and> s' = tick_ids s)
     (modify (put_timer ?t)) (\<lambda>_. loop_inv E D) (\<lambda>_. loop_inv E D)"
    using put_timer_inv [where E = E and t = ?t] assms by (auto simp: hoare_def modify_def)
  show "keeps (loop_inv E D) (seqE (commitWakeupAdmission E now (delete_timer i)) (\<lambda>_. ret i))"
    by (rule hoare_seq [OF commit_hoare [where P = "loop_inv E D"]])
       (auto simp: delete_timer_inv hoare_def ret_def host_blind_loop_inv)
qed

lemma setTimer_keeps [loop_keeps]:
  assumes "env_ok E"
  shows "keeps (loop_inv E D) (setTimer E c d iv r)"
  unfolding setTimer_def
proof (rule hoare_seq [OF assertAcceptingWork_hoare], rule hoare_seq [OF assertCallback_active],
    rule hoare_seq [OF readNow_hoare], rule hoare_seq)
  fix c now dl
  show "hoare (active_at E D now) (normalizeDelay E ''delayMs'' d True) (\<lambda>_. active E D) (\<lambda>_. loop_inv E D)"
    by (rule hoare_post [OF normalizeDelay_hoare [OF assms]]) auto
  show "hoare (active E D) (case iv of None \<Rightarrow> addTimer E c now dl None (ref_or_true r)
      | Some v \<Rightarrow> seqE (normalizeDelay E ''intervalMs'' v False)
                   (\<lambda>iv. addTimer E c now dl (Some iv) (ref_or_true r)))
      (\<lambda>_. loop_inv E D) (\<lambda>_. loop_inv E D)"
  proof (cases iv)
    case (Some v)
    let ?R = "\<lambda>x s. active E D s \<and> minimumIntervalMs E \<le> x \<and> x \<le> maxTimerDelayMs E"
    have "hoare (active E D) (normalizeDelay E ''intervalMs'' v False) ?R (\<lambda>_. loop_inv E D)"
      by (rule hoare_post [OF normalizeDelay_hoare [OF assms]]) auto
    moreover have "hoare (?R x) (addTimer E c now dl (Some x) b) (\<lambda>_. loop_inv E D) (\<lambda>_. loop_inv E D)"
      for x b using addTimer_hoare [of "Some x" E D c now dl b] by (auto simp: hoare_def)
    ultimately show ?thesis by (auto simp: Some intro: hoare_seq)
  qed (simp add: addTimer_hoare [where iv = None, simplified])
qed

lemma setTimeout_keeps [loop_keeps]: "env_ok E \<Longrightarrow> keeps (loop_inv E D) (setTimeout E c d r)"
  by (simp add: setTimeout_def setTimer_keeps)

lemma setInterval_keeps [loop_keeps]: "env_ok E \<Longrightarrow> keeps (loop_inv E D) (setInterval E c d r)"
  by (simp add: setInterval_def setTimer_keeps)

subsection \<open>Native requests, observers\<close>

lemma add_request_inv:
  "active E D s \<Longrightarrow> find_request r s = None \<Longrightarrow>
   loop_inv E D (s\<lparr>nativeRequests := nativeRequests s @ [(r, b)]\<rparr>)"
  by (auto simp: inv_defs find_request_def map_of_eq_None_iff)

lemma registerNativeRequest_keeps [loop_keeps]: "keeps (loop_inv E D) (registerNativeRequest E r ref)"
proof -
  let ?P = "\<lambda>s. active E D s \<and> find_request r s = None"
  have now: "hoare ?P (readNow E) (\<lambda>_. ?P) (\<lambda>_. loop_inv E D)"
    using readNow_hoare [of E]
    by (intro hoareI) (auto dest: hoareD_err elim!: readNow_ok simp: find_request_def
        intro!: loop_inv_lastNow)
  have commit: "keeps (loop_inv E D) (commitWakeupAdmission E now (delete_request r))" for now
    by (rule commit_hoare) (auto simp: host_blind_loop_inv delete_request_inv)
  show ?thesis
    unfolding registerNativeRequest_def
    by (rule hoare_seq [OF assertAcceptingWork_hoare],
        rule hoare_seq [where R = "\<lambda>_. active E D"], simp add: assertRequestId_def guardE_def hoare_def ret_def throw_def,
        rule hoare_seq [where R = "\<lambda>k s. active E D s \<and> k = find_request r s"], simp add: hoare_def gets_def,
        rule hoare_seq [where R = "\<lambda>_. ?P"], simp add: guardE_def hoare_def ret_def throw_def,
        rule hoare_seq [OF now],
        rule hoare_seq [where R = "\<lambda>_. loop_inv E D"], simp add: hoare_def modify_def add_request_inv,
        rule commit)
qed

lemma completeNativeRequest_keeps [loop_keeps]:
  "keeps (loop_inv E D) (completeNativeRequest E r c ref)"
  unfolding completeNativeRequest_def
proof (rule hoare_seq [OF assertAcceptingWork_hoare],
    rule hoare_seq [where R = "\<lambda>_. active E D"], simp add: assertRequestId_def guardE_def hoare_def ret_def throw_def,
    rule hoare_seq [OF assertCallback_active],
    rule hoare_seq [where R = "\<lambda>_. active E D"], simp add: hoare_def gets_def)
  fix c pending
  have complete: "hoare (active_at E D now) (seqE (modify (delete_request r)) (\<lambda>_.
            enqueueReadyTaskAt E NativeCompletion c b now (Some r) False))
      (\<lambda>_. loop_inv E D) (\<lambda>_. loop_inv E D)" for now b
    by (rule hoare_seq [where R = "\<lambda>_. active_at E D now"], simp add: hoare_def modify_def delete_request_inv,
        simp add: delete_request_def, rule hoare_post [OF enqueueReadyTaskAt_hoare]) auto
  show "hoare (active E D) (case pending of
        None \<Rightarrow> throw (EventLoopNativeRequestNotPendingError r)
      | Some pendingRef \<Rightarrow>
          seqE (readNow E) (\<lambda>now.
          seqE (gets (find_request r)) (\<lambda>still.
          seqE (guardE (still \<noteq> None) (EventLoopNativeRequestNotPendingError r)) (\<lambda>_.
          seqE (modify (delete_request r)) (\<lambda>_.
            enqueueReadyTaskAt E NativeCompletion c
              (case ref of None \<Rightarrow> pendingRef | Some b \<Rightarrow> b) now (Some r) False)))))
      (\<lambda>_. loop_inv E D) (\<lambda>_. loop_inv E D)"
  proof (cases pending)
    case (Some b)
    show ?thesis unfolding Some option.case
    proof (rule hoare_seq [OF readNow_hoare], rule hoare_seq [where R = "\<lambda>_. active_at E D now" for now])
      fix now still
      show "hoare (active_at E D now) (gets (find_request r)) (\<lambda>_. active_at E D now) (\<lambda>_. loop_inv E D)"
        by (simp add: hoare_def gets_def)
      show "hoare (active_at E D now) (seqE (guardE (still \<noteq> None) (EventLoopNativeRequestNotPendingError r))
         (\<lambda>_. seqE (modify (delete_request r)) (\<lambda>_. enqueueReadyTaskAt E NativeCompletion c
            (case ref of None \<Rightarrow> b | Some b \<Rightarrow> b) now (Some r) False))) (\<lambda>_. loop_inv E D) (\<lambda>_. loop_inv E D)"
        by (rule hoare_seq [where R = "\<lambda>_. active_at E D now"])
           (use complete in \<open>auto simp: guardE_def hoare_def ret_def throw_def\<close>)
    qed
  qed (auto simp: hoare_def throw_def)
qed

lemma cancel_completions_spec:
  assumes "indexed task_id m (ReadyTask ` set ts \<union> T)" "distinct (map rt_id ts)"
    "\<And>x. x \<in> T \<Longrightarrow> task_id x \<notin> rt_id ` set ts"
    "cancel_completions r ts m = (ts', m', c)"
  shows "indexed task_id m' (ReadyTask ` set ts' \<union> T) \<and> subseq ts' ts"
  using assms
proof (induction ts arbitrary: T ts' m' c)
  case (Cons t ts)
  obtain us n d where rec: "cancel_completions r ts m = (us, n, d)" by (metis prod_cases3)
  have T: "ReadyTask ` set (t # ts) \<union> T = ReadyTask ` set ts \<union> insert (ReadyTask t) T" by auto
  have "indexed task_id n (ReadyTask ` set us \<union> insert (ReadyTask t) T) \<and> subseq us ts"
    using Cons.prems rec unfolding T by (intro Cons.IH) auto
  then have n: "indexed task_id n (ReadyTask ` set us \<union> insert (ReadyTask t) T)" and us: "subseq us ts"
    by auto
  have "{x \<in> ReadyTask ` set us \<union> insert (ReadyTask t) T. task_id x \<noteq> rt_id t} =
      ReadyTask ` set us \<union> T"
    using Cons.prems(2,3) subseq_set [OF us] by (auto simp: image_iff) (metis in_mono)
  with indexed_remove [OF n, of "rt_id t"]
  have "indexed task_id (n(rt_id t := None)) (ReadyTask ` set us \<union> T)" by simp
  with Cons.prems(4) rec n us show ?case
    by (auto simp: Let_def insert_commute split: if_splits)
qed simp

lemma cancel_completions_inv:
  assumes "loop_inv E D s" "cancel_completions r (readyTasks s) (tasksById s) = (rts, m, any)"
  shows "loop_inv E D (s\<lparr>readyTasks := rts, tasksById := m\<rparr>)"
proof -
  let ?T = "ImmediateTask ` set (immediates s) \<union> NextTickTask ` set (nextTicks s)"
  have "queued s = ReadyTask ` set (readyTasks s) \<union> ?T" by (auto simp: queued_def)
  moreover have "task_id x \<notin> rt_id ` set (readyTasks s)" if "x \<in> ?T" for x
    using inv_distinct(1) [OF assms(1)] that by (auto simp: ids_def disjoint_iff image_iff) metis+
  ultimately have "indexed task_id m (ReadyTask ` set rts \<union> ?T) \<and> subseq rts (readyTasks s)"
    using assms inv_distinct(2) [OF assms(1)]
    by (intro cancel_completions_spec [of "tasksById s" "readyTasks s"])
       (auto simp: loop_inv_def tasks_agree_def)
  moreover from this have "disposed s \<Longrightarrow> m = (\<lambda>_. None)"
    using assms by (auto simp: loop_inv_def quiet_if_disposed_def)
  ultimately show ?thesis
    using assms(1)
    by (intro shrinks_inv [OF _ assms(1)])
       (auto simp: shrinks_def tasks_agree_def queued_def Un_assoc loop_inv_def quiet_if_disposed_def)
qed

lemma cancelNativeRequest_keeps [loop_keeps]: "keeps (loop_inv E D) (cancelNativeRequest E r)"
proof -
  have "loop_inv E D (s\<lparr>readyTasks := rts, tasksById := m\<rparr>)"
    if "loop_inv E D s" "cancel_completions r (readyTasks s) (tasksById s) = (rts, m, any)" for s rts m any
    using that by (rule cancel_completions_inv)
  then show ?thesis
    by (auto simp: keeps_iff cancelNativeRequest_def Let_def reconcile_return ret_def delete_request_inv
        split: prod.split)
qed

lemma setNativeRequestRef_keeps [loop_keeps]: "keeps (loop_inv E D) (setNativeRequestRef E r b)"
proof -
  let ?g = "map (\<lambda>(k, v). if k = r then (k, b) else (k, v))"
  have k: "map fst (?g xs) = map fst xs" for xs by (induction xs) auto
  have "loop_inv E D (s\<lparr>nativeRequests := ?g (nativeRequests s)\<rparr>)" (is "loop_inv E D ?s")
    if "loop_inv E D s" for s
  proof -
    have "names_ok ?s" using that k by (simp add: loop_inv_def names_ok_def del: map_map)
    then show ?thesis
      using that unfolding loop_inv_def tasks_agree_def queued_def ids_ok_def ids_def seqs_ok_def
        seqs_def order_ok_def clock_ok_def timers_ok_def quiet_if_disposed_def by simp
  qed
  then show ?thesis
    by (auto simp: keeps_iff setNativeRequestRef_def reconcile_return split: option.split)
qed

lemma addLifecycleObserver_keeps [loop_keeps]: "keeps (loop_inv E D) (addLifecycleObserver c)"
proof -
  have "hoare (active E D) (modify (\<lambda>s. s\<lparr>lifecycleObservers :=
       (if c \<in> set (lifecycleObservers s) then lifecycleObservers s
        else lifecycleObservers s @ [c])\<rparr>)) (\<lambda>_. loop_inv E D) (\<lambda>_. loop_inv E D)" for c
    by (simp add: hoare_def modify_def inv_defs)
  moreover have "hoare (active E D) (throw e) (\<lambda>_. loop_inv E D) (\<lambda>_. loop_inv E D)" for e
    by (simp add: hoare_def throw_def)
  ultimately show ?thesis
    unfolding addLifecycleObserver_def
    by (cases c; intro hoare_seq [OF assertAcceptingWork_hoare]; simp)
qed

lemma removeLifecycleObserver_keeps [loop_keeps]: "keeps (loop_inv E D) (removeLifecycleObserver c)"
  unfolding removeLifecycleObserver_def keeps_iff inv_defs by (auto simp: distinct_removeAll)

lemma getCurrentTime_keeps [loop_keeps]: "keeps (loop_inv E D) (getCurrentTime E)"
  unfolding getCurrentTime_def
  by (rule hoare_seq [OF assertAcceptingWork_hoare], rule hoare_post [OF readNow_hoare]) auto

lemma getSnapshot_keeps [loop_keeps]: "keeps (loop_inv E D) (getSnapshot E)"
proof -
  have "keeps (loop_inv E D) (seqE (readNow E) (\<lambda>now. gets (createSnapshot now)))"
    by (intro keeps_rules loop_keeps)
  then show ?thesis by (simp add: keeps_iff getSnapshot_def)
qed

section \<open>Callbacks and turns\<close>

lemma reply_of_keeps: "keeps I m \<Longrightarrow> keeps I (reply_of f m)"
  unfolding reply_of_def by (intro keeps_rules)

lemma api_call_keeps [loop_keeps]: "env_ok E \<Longrightarrow> keeps (loop_inv E D) (api_call E a)"
  by (cases a) (auto intro!: reply_of_keeps loop_keeps keeps_gets simp: nested_turn_def keeps_iff [where m = nested_turn])

lemma exec_keeps [loop_keeps]:
  assumes "env_ok E"
  shows "keeps (loop_inv E D) (exec E p)"
proof -
  have "loop_inv E D s \<Longrightarrow> loop_inv E D (snd (exec E p s))" for s
  proof (induction p arbitrary: s)
    case (Call a k)
    have "loop_inv E D (snd (api_call E a s))"
      by (rule keeps_snd [OF api_call_keeps [OF assms] Call.prems])
    then show ?case by (simp add: case_prod_beta Call.IH)
  qed auto
  then show ?thesis by (simp add: keeps_iff)
qed

section \<open>Selection\<close>

lemma pickReady_index:
  "pickReady m l i ts best = Some (j, t) \<Longrightarrow>
   best = Some (j, t) \<or> (i \<le> j \<and> j < i + length ts \<and> ts ! (j - i) = t)"
proof (induction ts arbitrary: i best)
  case (Cons u ts)
  let ?best = "if m (rt_id u) = None \<or> \<not> before (rt_sequence u) l then best
        else case best of None \<Rightarrow> Some (i, u)
             | Some (_, b) \<Rightarrow> if rt_readyAt u < rt_readyAt b \<or>
                    rt_readyAt u = rt_readyAt b \<and> rt_sequence u < rt_sequence b
                 then Some (i, u) else best"
  from Cons.prems have "pickReady m l (Suc i) ts ?best = Some (j, t)" by simp
  from Cons.IH [OF this] show ?case
  proof
    assume "?best = Some (j, t)"
    then show ?thesis by (auto split: if_splits option.splits)
  next
    assume "Suc i \<le> j \<and> j < Suc i + length ts \<and> ts ! (j - Suc i) = t"
    then show ?thesis by (auto simp: nth_Cons' Suc_diff_Suc)
  qed
qed simp

lemma pickReady_nth:
  "pickReady m l 0 ts None = Some (j, t) \<Longrightarrow> j < length ts \<and> ts ! j = t"
  using pickReady_index by fastforce

lemma pickTimer_in:
  "pickTimer now l ts best = Some t \<Longrightarrow> best = Some t \<or> t \<in> set ts \<and> tm_dueAt t \<le> now \<and> before (tm_sequence t) l"
proof (induction ts arbitrary: best)
  case (Cons u ts)
  then show ?case by (fastforce split: if_splits option.splits)
qed simp

text \<open>What every selection keeps.\<close>

definition select_ok :: "('c, 'w) env \<Rightarrow> nat set \<Rightarrow> ('c, 'w) loop \<Rightarrow> ('c, 'w) loop \<Rightarrow> bool" where
  "select_ok E D s s' \<longleftrightarrow> loop_inv E D s' \<and> \<not> disposed s' \<and> lastNow s' = lastNow s"

lemma takeOrdinary_ok:
  assumes "active E D s"
  shows "select_ok E D s (snd (takeOrdinaryReadyTask now limit s))"
proof -
  have ready: "loop_inv E D (s\<lparr>tasksById := (tasksById s)(rt_id t := None),
      readyTasks := splice1 j (readyTasks s)\<rparr>)"
    if "pickReady (tasksById s) limit 0 (readyTasks s) None = Some (j, t)" for j t
    using splice_ready_inv [of E D s j] pickReady_nth [OF that] assms by simp
  have timer: "select_ok E D s (delete_timer i s)" for i
    using delete_timer_inv [of E D s i] assms by (simp add: select_ok_def delete_timer_def)
  show ?thesis
    using assms ready timer unfolding takeOrdinaryReadyTask_def Let_def
    by (auto simp: select_ok_def split: option.split)
qed

lemma takeImmediate_ok:
  "active E D s \<Longrightarrow> t \<in> set (immediates s) \<Longrightarrow> select_ok E D s (snd (takeImmediate t s))"
  using drop_immediate_inv [of E D s t] by (simp add: select_ok_def takeImmediate_def drop_immediate_def)

lemma takeCheckOrOrdinary_ok:
  assumes "active E D s"
  shows "select_ok E D s (snd (takeCheckOrOrdinary now s))"
proof (cases "immediates s")
  case Nil
  then show ?thesis using takeOrdinary_ok [OF assms] by (simp add: takeCheckOrOrdinary_def)
next
  case (Cons oldest rest)
  obtain x s1 where t: "takeOrdinaryReadyTask now (Some (im_sequence oldest)) s = (x, s1)" by fastforce
  have ok: "select_ok E D s s1" using takeOrdinary_ok [OF assms, of now "Some (im_sequence oldest)"] t by simp
  have "x = None \<Longrightarrow> s1 = s"
    using t by (auto simp: takeOrdinaryReadyTask_def Let_def split: option.splits if_splits)
  then show ?thesis
    using Cons t ok assms takeImmediate_ok [of E D "s\<lparr>activeImmediateBatchCutoff := c\<rparr>" oldest for c]
    by (auto simp: takeCheckOrOrdinary_def select_ok_def split: option.splits)
qed

lemma takeIoBatch_ok:
  assumes "active E D s"
  shows "select_ok E D s (snd (takeIoBatch now s))"
proof -
  have io: "io_batch_index c s = Some i \<Longrightarrow> i < length (readyTasks s)" for c i
    by (auto simp: io_batch_index_def Let_def split: if_splits)
  have "active E D (s\<lparr>activeIoBatchCutoff := None\<rparr>)" using assms by simp
  note rest = takeCheckOrOrdinary_ok [OF this, of now]
    takeImmediate_ok [of E D "s\<lparr>activeIoBatchCutoff := None, activeImmediateBatchCutoff := c\<rparr>" for c]
  show ?thesis
    using assms rest takeCheckOrOrdinary_ok [OF assms, of now] splice_ready_inv [of E D s] io
    unfolding takeIoBatch_def Let_def
    by (auto simp: select_ok_def split: option.split list.split)
qed

lemma takeReadyTask_ok:
  assumes "active E D s"
  shows "select_ok E D s (snd (takeReadyTask now s))"
proof -
  have "active E D (s\<lparr>activeImmediateBatchCutoff := None\<rparr>)" using assms by simp
  from takeIoBatch_ok [OF this, of now] takeIoBatch_ok [OF assms, of now] takeImmediate_ok [OF assms]
  show ?thesis unfolding takeReadyTask_def
    by (auto simp: select_ok_def find_Some_iff split: option.split)
qed

lemma takeNextTick_synced:
  assumes "loop_inv E D s"
  shows "takeNextTick s = (case nextTicks s of [] \<Rightarrow> (None, s) | t # ts \<Rightarrow> (Some t, drop_tick t s))"
proof (cases "nextTicks s")
  case (Cons t ts)
  then have "tasksById s (nt_id t) = Some (NextTickTask t)"
    using assms by (auto simp: loop_inv_def tasks_agree_def indexed_def queued_def)
  then show ?thesis using Cons by (simp add: takeNextTick_def drop_tick_def)
qed (simp add: takeNextTick_def)

lemma takeNextTick_ok:
  assumes "active E D s" shows "select_ok E D s (snd (takeNextTick s))"
proof (cases "nextTicks s")
  case (Cons t ts)
  then show ?thesis using assms drop_tick_inv [of E D s t]
    by (simp add: takeNextTick_synced [of E D s] select_ok_def) (simp add: drop_tick_def)
qed (use assms in \<open>simp add: takeNextTick_synced [of E D s] select_ok_def\<close>)

lemma advance_inv: "loop_inv E D s \<Longrightarrow> loop_inv E D (advanceIntervalDeadline i now s)"
  by (auto simp: advanceIntervalDeadline_def Let_def intro!: update_timer_inv split: option.split)

section \<open>Turns\<close>

lemma keeps_apply:
  "keeps I m \<Longrightarrow> I s \<Longrightarrow> m s = (r, s') \<Longrightarrow> I s'"
  using keeps_snd by fastforce

lemma executeCallback_keeps [loop_keeps]:
  assumes "env_ok E"
  shows "keeps (loop_inv E D) (executeCallback E c n)"
  unfolding keeps_iff
proof (intro allI impI)
  fix s assume inv: "loop_inv E D s"
  obtain r s1 where e: "exec E (body E c) s = (r, s1)" by fastforce
  have "loop_inv E D s1" by (rule keeps_apply [OF exec_keeps [OF assms] inv e])
  then show "loop_inv E D (snd (executeCallback E c n s))"
    using inv e by (simp add: executeCallback_def fail_def finalize_inv Let_def split: sum.split)
qed

lemma drainNextTicks_keeps [loop_keeps]:
  assumes "env_ok E"
  shows "keeps (loop_inv E D) (drainNextTicks E n)"
proof -
  have "loop_inv E D s \<Longrightarrow> loop_inv E D (snd (drainNextTicks E n s))" for s
    using assms
  proof (induction E n s rule: drainNextTicks.induct)
    case (1 E n s)
    show ?case
    proof (cases "disposed s")
      case False
      obtain x s1 where t: "takeNextTick s = (x, s1)" by fastforce
      have s1: "loop_inv E D s1" using takeNextTick_ok [of E D s] False 1 t by (simp add: select_ok_def)
      show ?thesis
      proof (cases x)
        case (Some tick)
        obtain r s2 where e: "executeCallback E (nt_callback tick) n s1 = (r, s2)" by fastforce
        have "loop_inv E D s2"
          using keeps_snd [OF executeCallback_keeps [OF 1(3)] s1, of "nt_callback tick" n] e by simp
        then show ?thesis
          using 1 False t Some e by (cases r) (simp_all add: drainNextTicks.simps [of E n s])
      qed (simp add: drainNextTicks.simps [of E n s] False t s1)
    qed (simp add: drainNextTicks.simps [of E n s] 1)
  qed
  then show ?thesis by (simp add: keeps_iff)
qed

lemma checkpointMicrotasks_keeps [loop_keeps]:
  "env_ok E \<Longrightarrow> keeps (loop_inv E D) (checkpointMicrotasks E)"
  unfolding checkpointMicrotasks_def by (intro keeps_rules loop_keeps)

lemma advance_selected_keeps [loop_keeps]: "keeps (loop_inv E D) (advance_selected E x)"
  by (cases x) (auto simp: advance_selected_def intro!: keeps_rules loop_keeps keeps_modify advance_inv)

lemma work_phase_keeps [loop_keeps]:
  fixes E :: "('c, 'w) env"
  assumes "env_ok E"
  shows "hoare (active E D) (work_phase E only now) (\<lambda>_. loop_inv E D) (\<lambda>_. loop_inv E D)"
proof -
  have tail: "keeps (loop_inv E D) (seqE (advance_selected E x) (\<lambda>_. seqE (drainNextTicks E n)
        (\<lambda>n'. ret (n', k, y))))" for x n and k :: "task_kind option" and y :: "'c selected option"
    by (intro keeps_rules loop_keeps assms)
  have run: "keeps (loop_inv E D) (seqE (executeCallback E c 0) (\<lambda>n s2.
        if disposed s2 then (Inr (n, k, y), s2)
        else seqE (advance_selected E x) (\<lambda>_. seqE (drainNextTicks E n) (\<lambda>n'. ret (n', k, y))) s2))"
    for c x and k :: "task_kind option" and y :: "'c selected option"
    by (rule hoare_seq [OF executeCallback_keeps [OF assms]]) (use keeps_snd [OF tail] in \<open>simp add: keeps_iff\<close>)
  have ticks: "keeps (loop_inv E D) (seqE (drainNextTicks E 0) (\<lambda>n. ret (n, Some Kind_next_tick, None)))"
    by (intro keeps_rules loop_keeps assms)
  have "loop_inv E D (snd (work_phase E only now s))" if "active E D s" for s
    using that ticks run takeReadyTask_ok [OF that, of now]
    by (auto simp: work_phase_def keeps_iff select_ok_def split: prod.split option.split)
  then show ?thesis by (auto simp: hoare_def split: prod.splits sum.splits) (metis snd_conv)+
qed

lemma settle_phase_keeps [loop_keeps]: "keeps (loop_inv E D) (settle_phase E n k sel)"
proof -
  have "keeps (loop_inv E D) (modify (case sel of Some (SelTimer t) \<Rightarrow>
      advanceIntervalDeadline (tm_id t) now | _ \<Rightarrow> id))" for now
    by (auto intro!: keeps_modify advance_inv split: option.split selected.split)
  then show ?thesis unfolding settle_phase_def
    by (intro keeps_seq keeps_rules loop_keeps requestWakeup_keeps host_blind_loop_inv)
qed

lemma finish_phase_keeps [loop_keeps]:
  assumes "env_ok E"
  shows "keeps (loop_inv E D) (finish_phase E n k sel)"
proof -
  have "keeps (loop_inv E D) (\<lambda>s1. if disposed s1 then (Inr (createShutdownResult n k), s1)
      else settle_phase E n k sel s1)"
    using settle_phase_keeps [of E D n k sel] by (auto simp: keeps_iff)
  then have "keeps (loop_inv E D) (seqE (if k \<noteq> None then checkpointMicrotasks E else ret ()) (\<lambda>_ s1.
        if disposed s1 then (Inr (createShutdownResult n k), s1) else settle_phase E n k sel s1))"
    by (intro keeps_seq keeps_if loop_keeps keeps_ret assms)
  then show ?thesis by (auto simp: keeps_iff finish_phase_def)
qed

lemma runActiveTurn_hoare:
  assumes "env_ok E"
  shows "hoare (active E D) (runActiveTurn E only) (\<lambda>_. loop_inv E D) (\<lambda>_. loop_inv E D)"
  unfolding runActiveTurn_def
proof (rule hoare_seq [OF readNow_hoare])
  fix now
  let ?unset = "\<lambda>s :: ('a, 'b) loop. s\<lparr>scheduledWakeupAt := None, scheduledWakeupPhase := None\<rparr>"
  have "hoare (active E D) (seqE (work_phase E only now) (\<lambda>(n, kind, sel). finish_phase E n kind sel))
      (\<lambda>_. loop_inv E D) (\<lambda>_. loop_inv E D)"
    by (rule hoare_seq [OF work_phase_keeps [OF assms]])
       (auto intro: finish_phase_keeps [OF assms] split: prod.split)
  then show "hoare (active_at E D now) (\<lambda>s. if only \<and> \<not> hasRunnableNextTick s
       then (Inr (turn_result_of (createSnapshot now s) 0 Status_idle None), s)
       else seqE (modify ?unset) (\<lambda>_.
            seqE (work_phase E only now) (\<lambda>(n, kind, sel). finish_phase E n kind sel)) s)
      (\<lambda>_. loop_inv E D) (\<lambda>_. loop_inv E D)"
    by (auto simp: hoare_def)
qed

lemma run_guarded_keeps [loop_keeps]:
  assumes "env_ok E"
  shows "keeps (loop_inv E D) (run_guarded E only)"
  unfolding keeps_iff
proof (intro allI impI)
  fix s assume inv: "loop_inv E D s"
  obtain r s1 where t: "runActiveTurn E only (s\<lparr>runningTurn := True\<rparr>) = (r, s1)" by fastforce
  have "loop_inv E D s1" if "\<not> disposed s"
    using hoareD [OF runActiveTurn_hoare [OF assms] _ t] inv that by (auto split: sum.splits)
  then show "loop_inv E D (snd (run_guarded E only s))" using inv t by (simp add: run_guarded_def)
qed

lemma host_call_keeps: "env_ok E \<Longrightarrow> keeps (loop_inv E D) (host_call E a)"
  by (cases a) (auto simp: host_call_def runTurn_def runNextTickCheckpoint_def
      simp del: api_call.simps intro!: reply_of_keeps loop_keeps)

lemma loop_step_inv: "loop_step E s s' \<Longrightarrow> env_ok E \<Longrightarrow> loop_inv E D s \<Longrightarrow> loop_inv E D s'"
  by (induction rule: loop_step.induct) (auto intro: keeps_apply [OF host_call_keeps])

lemma reachable_inv: "reachable E s \<Longrightarrow> env_ok E \<Longrightarrow> loop_inv E {} s"
  by (induction rule: reachable.induct) (auto intro: loop_inv_initial loop_step_inv)

end
