(* ===== verification/Loop_Selection.thy ===== *)
theory Loop_Selection
  imports Loop_Steps
begin

text \<open>
  Which task a turn runs: the order of ordinary work, the check phase, and that an id that
  left the queues never comes back.
\<close>

section \<open>The abstract order of ordinary work\<close>

primrec sel_time :: "'c selected \<Rightarrow> rat" where
  "sel_time (SelReady t) = rt_readyAt t"
| "sel_time (SelTimer t) = tm_dueAt t"
| "sel_time (SelImmediate t) = 0"

primrec sel_sequence :: "'c selected \<Rightarrow> nat" where
  "sel_sequence (SelReady t) = rt_sequence t"
| "sel_sequence (SelTimer t) = tm_sequence t"
| "sel_sequence (SelImmediate t) = im_sequence t"

primrec sel_id :: "'c selected \<Rightarrow> nat" where
  "sel_id (SelReady t) = rt_id t"
| "sel_id (SelTimer t) = tm_id t"
| "sel_id (SelImmediate t) = im_id t"

definition earlier :: "'c selected \<Rightarrow> 'c selected \<Rightarrow> bool" where
  "earlier a b \<longleftrightarrow> sel_time a < sel_time b \<or> sel_time a = sel_time b \<and> sel_sequence a < sel_sequence b"

text \<open>The ready tasks and the due timers admitted before the limit.\<close>

definition candidates :: "rat \<Rightarrow> nat option \<Rightarrow> ('c, 'w) loop \<Rightarrow> 'c selected set" where
  "candidates now limit s =
     SelReady ` {t \<in> set (readyTasks s). before (rt_sequence t) limit} \<union>
     SelTimer ` {t \<in> set (timers s). tm_dueAt t \<le> now \<and> before (tm_sequence t) limit}"

lemma earlier_trans: "earlier a b \<Longrightarrow> earlier b c \<Longrightarrow> earlier a c"
  by (auto simp: earlier_def)

lemma earlier_total: "sel_sequence a \<noteq> sel_sequence b \<Longrightarrow> earlier a b \<or> earlier b a"
  by (auto simp: earlier_def)

lemma earlier_irrefl [simp]: "\<not> earlier a a"
  by (simp add: earlier_def)

text \<open>The two scans return an element none of the scanned ones is earlier than.\<close>

lemma pickReady_least:
  assumes "\<forall>t \<in> set ts. m (rt_id t) \<noteq> None"
  shows "pickReady m l i ts best = None \<longleftrightarrow> best = None \<and> (\<forall>t \<in> set ts. \<not> before (rt_sequence t) l)"
    and "pickReady m l i ts best = Some (j, t) \<Longrightarrow>
      (best = Some (j, t) \<or> t \<in> set ts \<and> before (rt_sequence t) l) \<and>
      (\<forall>u \<in> set ts. before (rt_sequence u) l \<longrightarrow> \<not> earlier (SelReady u) (SelReady t)) \<and>
      (\<forall>k u. best = Some (k, u) \<longrightarrow> \<not> earlier (SelReady u) (SelReady t))"
  using assms
proof (induction ts arbitrary: i best)
  case (Cons u ts)
  {
    case 1
    then show ?case using Cons.IH(1) by (auto split: option.split)
  next
    case 2
    let ?best = "if m (rt_id u) = None \<or> \<not> before (rt_sequence u) l then best
        else case best of None \<Rightarrow> Some (i, u)
             | Some (_, b) \<Rightarrow> if rt_readyAt u < rt_readyAt b \<or>
                    rt_readyAt u = rt_readyAt b \<and> rt_sequence u < rt_sequence b
                 then Some (i, u) else best"
    from 2(1) have "pickReady m l (Suc i) ts ?best = Some (j, t)" by (simp only: pickReady.simps)
    from Cons.IH(2) [OF this] 2(2) have IH:
      "?best = Some (j, t) \<or> t \<in> set ts \<and> before (rt_sequence t) l"
      "\<forall>v \<in> set ts. before (rt_sequence v) l \<longrightarrow> \<not> earlier (SelReady v) (SelReady t)"
      "\<And>k v. ?best = Some (k, v) \<Longrightarrow> \<not> earlier (SelReady v) (SelReady t)"
      by auto
    show ?case
    proof (cases "before (rt_sequence u) l")
      case False
      then show ?thesis using IH by auto
    next
      case True
      with 2(2) have m: "m (rt_id u) \<noteq> None" by simp
      show ?thesis
      proof (cases best)
        case None
        then show ?thesis using IH True m by auto
      next
        case (Some p)
        obtain k b where p: "p = (k, b)" by (cases p)
        show ?thesis
        proof (cases "earlier (SelReady u) (SelReady b)")
          case e: True
          then have "?best = Some (i, u)" using Some p True m by (auto simp: earlier_def)
          with IH(3) have "\<not> earlier (SelReady u) (SelReady t)" by blast
          moreover from this e have "\<not> earlier (SelReady b) (SelReady t)"
            using earlier_trans by blast
          ultimately show ?thesis using IH(1,2) \<open>?best = Some (i, u)\<close> Some p True by auto
        next
          case e: False
          then have b: "?best = best" using Some p by (auto simp: earlier_def)
          with IH(3) Some p have "\<not> earlier (SelReady b) (SelReady t)" by blast
          moreover from this e have "\<not> earlier (SelReady u) (SelReady t)"
            by (auto simp: earlier_def)
          ultimately show ?thesis using IH(1,2) b Some p True by auto
        qed
      qed
    qed
  }
qed auto

lemma pickTimer_least:
  shows "pickTimer now l ts best = None \<longleftrightarrow>
      best = None \<and> (\<forall>t \<in> set ts. \<not> (tm_dueAt t \<le> now \<and> before (tm_sequence t) l))"
    and "pickTimer now l ts best = Some t \<Longrightarrow>
      (\<forall>u \<in> set ts. tm_dueAt u \<le> now \<and> before (tm_sequence u) l \<longrightarrow> \<not> earlier (SelTimer u) (SelTimer t)) \<and>
      (\<forall>u. best = Some u \<longrightarrow> \<not> earlier (SelTimer u) (SelTimer t))"
proof (induction ts arbitrary: best)
  case (Cons u ts)
  {
    case 1
    then show ?case using Cons.IH(1) by (auto split: option.split)
  next
    case 2
    show ?case
    proof (cases "tm_dueAt u \<le> now \<and> before (tm_sequence u) l")
      case False
      then show ?thesis using 2 Cons.IH(2) by auto
    next
      case True
      show ?thesis
      proof (cases best)
        case None
        then show ?thesis using 2 True Cons.IH(2) [of "Some u"] by auto
      next
        case (Some b)
        let ?best = "if earlier (SelTimer u) (SelTimer b) then Some u else Some b"
        have "pickTimer now l ts ?best = Some t"
          using 2 True Some by (simp add: earlier_def split: if_splits)
        from Cons.IH(2) [OF this] show ?thesis
          using Some by (cases "earlier (SelTimer u) (SelTimer b)")
            (auto dest: earlier_trans simp: earlier_def)
      qed
    qed
  }
qed auto

lemma synced_index:
  assumes "loop_inv E D s"
  shows "\<forall>t \<in> set (readyTasks s). tasksById s (rt_id t) \<noteq> None"
    and "\<forall>t \<in> set (immediates s). tasksById s (im_id t) \<noteq> None"
    and "\<forall>t \<in> set (nextTicks s). tasksById s (nt_id t) \<noteq> None"
  using assms by (auto simp: loop_inv_def tasks_agree_def indexed_def queued_def)

lemma candidate_sequences:
  assumes "loop_inv E D s" "a \<in> candidates now l s" "b \<in> candidates now l s" "a \<noteq> b"
  shows "sel_sequence a \<noteq> sel_sequence b"
proof -
  have d: "distinct (map rt_sequence (readyTasks s))" "distinct (map tm_sequence (timers s))"
    "rt_sequence ` set (readyTasks s) \<inter> tm_sequence ` set (timers s) = {}"
    using assms(1) by (auto simp: loop_inv_def seqs_ok_def seqs_def)
  then have "\<And>t u. t \<in> set (readyTasks s) \<Longrightarrow> u \<in> set (readyTasks s) \<Longrightarrow>
      rt_sequence t = rt_sequence u \<Longrightarrow> t = u"
    "\<And>t u. t \<in> set (timers s) \<Longrightarrow> u \<in> set (timers s) \<Longrightarrow>
      tm_sequence t = tm_sequence u \<Longrightarrow> t = u"
    "\<And>t u. t \<in> set (readyTasks s) \<Longrightarrow> u \<in> set (timers s) \<Longrightarrow> rt_sequence t \<noteq> tm_sequence u"
    unfolding distinct_map inj_on_def by blast+
  then show ?thesis
    using assms(2-4) unfolding candidates_def by (elim UnE imageE CollectE conjE) (simp; metis)+
qed

lemma takeOrdinary_least:
  assumes inv: "loop_inv E D s" and t: "takeOrdinaryReadyTask now limit s = (x, s')"
  shows "(case x of None \<Rightarrow> candidates now limit s = {}
          | Some c \<Rightarrow> c \<in> candidates now limit s \<and>
              (\<forall>d \<in> candidates now limit s. d = c \<or> earlier c d))"
proof -
  note R = pickReady_least [OF synced_index(1) [OF inv], of limit 0 None]
  note T = pickTimer_least [of now limit "timers s" None]
  let ?r = "pickReady (tasksById s) limit 0 (readyTasks s) None"
  let ?d = "pickTimer now limit (timers s) None"
  have least: "c \<in> candidates now limit s \<Longrightarrow>
      (\<And>d. d \<in> candidates now limit s \<Longrightarrow> \<not> earlier d c) \<Longrightarrow>
      c \<in> candidates now limit s \<and> (\<forall>d \<in> candidates now limit s. d = c \<or> earlier c d)" for c
    using candidate_sequences [OF inv, of _ now limit c] earlier_total by metis
  have cand: "d \<in> candidates now limit s \<longleftrightarrow>
      (\<exists>t \<in> set (readyTasks s). before (rt_sequence t) limit \<and> d = SelReady t) \<or>
      (\<exists>t \<in> set (timers s). tm_dueAt t \<le> now \<and> before (tm_sequence t) limit \<and> d = SelTimer t)" for d
    by (auto simp: candidates_def)
  have due: "?d = Some t \<Longrightarrow> t \<in> set (timers s) \<and> tm_dueAt t \<le> now \<and> before (tm_sequence t) limit" for t
    using pickTimer_in [of now limit "timers s" None t] by simp
  show ?thesis
  proof (cases ?r)
    case None
    then have r: "\<forall>t \<in> set (readyTasks s). \<not> before (rt_sequence t) limit" using R(1) by simp
    show ?thesis
    proof (cases ?d)
      case None
      then have "x = None" using t \<open>?r = None\<close> by (simp add: takeOrdinaryReadyTask_def Let_def)
      moreover have "d \<notin> candidates now limit s" for d using None r T(1) unfolding cand by blast
      ultimately show ?thesis by auto
    next
      case (Some d)
      then have "x = Some (SelTimer d)" using t \<open>?r = None\<close> by (auto simp: takeOrdinaryReadyTask_def Let_def)
      moreover have "\<not> earlier e (SelTimer d)" if "e \<in> candidates now limit s" for e
        using that r T(2) [OF Some] unfolding cand by blast
      ultimately show ?thesis using least [of "SelTimer d"] due [OF Some] by (simp add: cand)
    qed
  next
    case (Some p)
    then obtain i r where p: "?r = Some (i, r)" by (cases p) simp
    have r: "r \<in> set (readyTasks s)" "before (rt_sequence r) limit"
      "\<And>u. u \<in> set (readyTasks s) \<Longrightarrow> before (rt_sequence u) limit \<Longrightarrow> \<not> earlier (SelReady u) (SelReady r)"
      using R(2) [OF p] by auto
    show ?thesis
    proof (cases ?d)
      case None
      then have "x = Some (SelReady r)" using t p by (auto simp: takeOrdinaryReadyTask_def Let_def)
      moreover have "\<not> earlier e (SelReady r)" if "e \<in> candidates now limit s" for e
        using that r(3) T(1) None unfolding cand by blast
      ultimately show ?thesis using least [of "SelReady r"] r(1,2) by (simp add: cand)
    next
      case (Some d)
      note d = due [OF Some] and dl = T(2) [OF Some]
      show ?thesis
      proof (cases "earlier (SelReady r) (SelTimer d)")
        case True
        then have "x = Some (SelReady r)" using t p Some
          by (auto simp: takeOrdinaryReadyTask_def Let_def earlier_def)
        moreover have "\<not> earlier e (SelReady r)" if "e \<in> candidates now limit s" for e
          using that r(3) dl True earlier_trans unfolding cand by blast
        ultimately show ?thesis using least [of "SelReady r"] r(1,2) by (simp add: cand)
      next
        case False
        then have x: "x = Some (SelTimer d)" using t p Some
          by (auto simp: takeOrdinaryReadyTask_def Let_def earlier_def)
        have rd: "earlier (SelTimer d) (SelReady r)"
          using False earlier_total [of "SelTimer d" "SelReady r"] r d
            candidate_sequences [OF inv, of "SelTimer d" now limit "SelReady r"] by (simp add: cand)
        have "\<not> earlier e (SelTimer d)" if "e \<in> candidates now limit s" for e
          using that r(3) dl rd earlier_trans unfolding cand by blast
        then show ?thesis using x least [of "SelTimer d"] d by (simp add: cand)
      qed
    qed
  qed
qed

section \<open>The check phase\<close>

lemma immediates_sorted:
  assumes "loop_inv E D s" "immediates s = t # ts"
  shows "\<forall>u \<in> set ts. im_sequence t < im_sequence u"
  using assms by (simp add: loop_inv_def order_ok_def)

text \<open>An immediate that is taken is the oldest one: the queue is first in, first out.\<close>

lemma takeOrdinary_not_immediate:
  "takeOrdinaryReadyTask now l s = (Some c, s') \<Longrightarrow> c \<noteq> SelImmediate t"
  by (auto simp: takeOrdinaryReadyTask_def Let_def split: option.splits if_splits)

lemma takeCheck_immediate:
  assumes "loop_inv E D s" "takeCheckOrOrdinary now s = (Some (SelImmediate t), s')"
  shows "\<exists>ts. immediates s = t # ts \<and> immediates s' = ts"
proof (cases "immediates s")
  case Nil
  then show ?thesis using assms takeOrdinary_not_immediate [of now None s] by (auto simp: takeCheckOrOrdinary_def)
next
  case (Cons u us)
  obtain x s1 where o: "takeOrdinaryReadyTask now (Some (im_sequence u)) s = (x, s1)" by fastforce
  have "x = None" using assms(2) Cons o takeOrdinary_not_immediate [OF o [THEN trans], of _ _ t]
    takeOrdinary_not_immediate [of now "Some (im_sequence u)" s "SelImmediate t" s1 t]
    by (cases x) (auto simp: takeCheckOrOrdinary_def)
  moreover from this o have "s1 = s"
    by (auto simp: takeOrdinaryReadyTask_def Let_def split: option.splits if_splits)
  ultimately show ?thesis using assms(2) Cons o
    by (auto simp: takeCheckOrOrdinary_def takeImmediate_def drop_immediate_def)
qed

lemma takeIo_immediate:
  assumes "active E D s" "takeIoBatch now s = (Some (SelImmediate t), s')"
  shows "\<exists>ts. immediates s = t # ts \<and> immediates s' = ts"
  using assms takeCheck_immediate [of E D s now t s']
    takeCheck_immediate [of E D "s\<lparr>activeIoBatchCutoff := None\<rparr>" now t s']
  by (auto simp: takeIoBatch_def Let_def takeImmediate_def drop_immediate_def
      split: option.splits list.splits)

lemma take_immediate_head:
  assumes "active E D s" "takeReadyTask now s = (Some (SelImmediate t), s')"
  shows "\<exists>ts. immediates s = t # ts \<and> immediates s' = ts"
proof (cases "activeImmediateBatchCutoff s")
  case None
  then show ?thesis using assms takeIo_immediate [OF assms(1)] by (simp add: takeReadyTask_def)
next
  case (Some cutoff)
  show ?thesis
  proof (cases "find (\<lambda>t. im_sequence t \<le> cutoff) (immediates s)")
    case None
    then show ?thesis using assms Some takeIo_immediate [of E D "s\<lparr>activeImmediateBatchCutoff := None\<rparr>" now t s']
      by (simp add: takeReadyTask_def)
  next
    case f: (Some u)
    then have u: "t = u" "s' = drop_immediate u s" using assms(2) Some by (auto simp: takeReadyTask_def takeImmediate_def)
    obtain v vs where v: "immediates s = v # vs" using f by (cases "immediates s") auto
    have "v = u"
    proof (rule ccontr)
      assume n: "v \<noteq> u"
      then have "\<not> im_sequence v \<le> cutoff" using f v by (auto split: if_splits)
      moreover have "u \<in> set vs" "im_sequence u \<le> cutoff" using f v n by (auto simp: find_Some_iff split: if_splits)
      ultimately show False using immediates_sorted [of E D s v vs] assms(1) v by force
    qed
    then show ?thesis using u v by (simp add: drop_immediate_def)
  qed
qed

text \<open>
  With immediates waiting, outside an I/O batch, the turn runs the oldest immediate or ordinary
  work that was admitted before it.
\<close>

lemma check_phase_bound:
  assumes "active E D s" "activeIoBatchCutoff s = None" "immediates s = im # ims"
    "takeReadyTask now s = (x, s')"
  shows "\<exists>c. x = Some c \<and> (c = SelImmediate im \<or> sel_sequence c < im_sequence im)"
proof -
  have ord: "sel_sequence c < im_sequence im"
    if "takeOrdinaryReadyTask now (Some (im_sequence im)) r = (Some c, r')" "loop_inv E D r" for c r r'
    using takeOrdinary_least [OF that(2,1)] by (auto simp: candidates_def before_def)
  have check: "\<exists>c. y = Some c \<and> (c = SelImmediate im \<or> sel_sequence c < im_sequence im)"
    if "takeCheckOrOrdinary now r = (y, r')" "loop_inv E D r" "immediates r = im # ims" for r y r'
    using that ord by (auto simp: takeCheckOrOrdinary_def takeImmediate_def split: prod.splits option.splits)
  have io: "\<exists>c. y = Some c \<and> (c = SelImmediate im \<or> sel_sequence c < im_sequence im)"
    if "takeIoBatch now r = (y, r')" "loop_inv E D r" "immediates r = im # ims" "activeIoBatchCutoff r = None"
    for r y r'
    using that check by (simp add: takeIoBatch_def)
  show ?thesis
  proof (cases "activeImmediateBatchCutoff s")
    case None
    then show ?thesis using assms io by (simp add: takeReadyTask_def)
  next
    case (Some cutoff)
    show ?thesis
    proof (cases "find (\<lambda>t. im_sequence t \<le> cutoff) (immediates s)")
      case None
      then show ?thesis using assms Some io [of "s\<lparr>activeImmediateBatchCutoff := None\<rparr>" x s']
        by (simp add: takeReadyTask_def)
    next
      case f: (Some u)
      then have x: "x = Some (SelImmediate u)" using assms(4) Some by (simp add: takeReadyTask_def takeImmediate_def)
      with take_immediate_head [of E D s now u s'] assms(1,3,4) show ?thesis by auto
    qed
  qed
qed

section \<open>Retired ids\<close>

text \<open>An id that is in no queue, but was handed out, is retired; no operation brings it back.\<close>

definition retired :: "nat \<Rightarrow> ('c, 'w) loop \<Rightarrow> bool" where
  "retired i s \<longleftrightarrow> i < nextId s \<and> i \<notin> set (ids s)"

lemma retired_inv: "loop_inv E {} s \<Longrightarrow> retired i s \<longleftrightarrow> loop_inv E {i} s"
  by (auto simp: loop_inv_def ids_ok_def retired_def)

lemma loop_inv_weaken: "loop_inv E D s \<Longrightarrow> loop_inv E {} s"
  by (auto simp: loop_inv_def ids_ok_def)

lemma retired_steps:
  assumes "(loop_step E)\<^sup>*\<^sup>* s s'" "env_ok E" "loop_inv E {i} s"
  shows "loop_inv E {i} s'"
  using assms by (induction rule: rtranclp_induct) (auto intro: loop_step_inv)

lemma keeps_retired:
  assumes "\<And>D. keeps (loop_inv E D) m" "loop_inv E {} s" "retired i s" "m s = (r, s')"
  shows "retired i s'"
  using keeps_apply [OF assms(1) _ assms(4), of "{i}"] assms(2,3) retired_inv loop_inv_weaken by metis

lemma cancelTask_retires:
  assumes "loop_inv E {} s" "cancelTask E i s = (Inr True, s')"
  shows "retired i s'"
proof -
  obtain t where t: "tasksById s i = Some t" using assms(2) by (auto simp: cancelTask_def split: option.splits)
  define u where "u = unlist_task t (s\<lparr>tasksById := (tasksById s)(i := None)\<rparr>)"
  have q: "t \<in> queued s" "task_id t = i"
    using assms(1) t by (auto simp: loop_inv_def tasks_agree_def dest: indexed_lookup)
  have inv: "loop_inv E {} u" unfolding u_def by (rule unlist_inv [OF assms(1) t])
  have u: "tasksById u i = None" "timers u = timers s" "nextId u = nextId s"
    by (simp_all add: u_def unlist_task_def split: task.split)
  have "i \<in> set (map rt_id (readyTasks s) @ map im_id (immediates s) @ map nt_id (nextTicks s))"
    using q by (auto simp: queued_def)
  moreover have "distinct ((map rt_id (readyTasks s) @ map im_id (immediates s) @
      map nt_id (nextTicks s)) @ map tm_id (timers s))"
    using inv_distinct(1) [OF assms(1)] by (simp only: ids_def append_assoc)
  ultimately have "i \<notin> set (map tm_id (timers s))" unfolding distinct_append by blast
  moreover have "i < nextId s"
    using assms(1) q(2) queued_id [OF q(1)] unfolding loop_inv_def ids_ok_def by blast
  moreover have "i \<notin> rt_id ` set (readyTasks u)" "i \<notin> im_id ` set (immediates u)"
    "i \<notin> nt_id ` set (nextTicks u)"
    using u(1) synced_index [OF inv] by force+
  ultimately have "retired i u"
    using u(2,3) by (simp add: retired_def ids_def)
  moreover have "seqE (reconcileWakeupIfActive E) (\<lambda>_. ret True) u = (Inr True, s')"
    using assms(2) t by (simp add: cancelTask_def u_def)
  ultimately show ?thesis
    by (rule keeps_retired [OF reconcile_return_keeps inv])
qed

end
