(* ===== verification/Loop_Wakeup.thy ===== *)
theory Loop_Wakeup
  imports Loop_Selection
begin

text \<open>
  The wakeup the loop has asked its host for is never too late, and a turn that throws has
  disposed the loop.  \<open>awake\<close> is the invariant: the loop is disposed, has nothing that keeps it
  alive, or its last accepted request is the one the snapshot at some earlier instant asks for.
\<close>

section \<open>The snapshot's deadline\<close>

lemma createSnapshot_frame [simp]:
  "createSnapshot t (s\<lparr>world := w\<rparr>) = createSnapshot t s"
  "createSnapshot t (s\<lparr>scheduledWakeupAt := a\<rparr>) = createSnapshot t s"
  "createSnapshot t (s\<lparr>scheduledWakeupPhase := p\<rparr>) = createSnapshot t s"
  "createSnapshot t (s\<lparr>runningTurn := b\<rparr>) = createSnapshot t s"
  "createSnapshot t (s\<lparr>lastNow := l\<rparr>) = createSnapshot t s"
  "createSnapshot t (s\<lparr>lifecycleObservers := os\<rparr>) = createSnapshot t s"
  unfolding createSnapshot_def activeImmediates_def activeNextTicks_def activeReadyTasks_def Let_def
  by simp_all

lemma hasRunnableNextTick_frame [simp]:
  "hasRunnableNextTick (s\<lparr>world := w\<rparr>) = hasRunnableNextTick s"
  "hasRunnableNextTick (s\<lparr>scheduledWakeupAt := a\<rparr>) = hasRunnableNextTick s"
  "hasRunnableNextTick (s\<lparr>scheduledWakeupPhase := p\<rparr>) = hasRunnableNextTick s"
  "hasRunnableNextTick (s\<lparr>runningTurn := b\<rparr>) = hasRunnableNextTick s"
  "hasRunnableNextTick (s\<lparr>lastNow := l\<rparr>) = hasRunnableNextTick s"
  "hasRunnableNextTick (s\<lparr>lifecycleObservers := os\<rparr>) = hasRunnableNextTick s"
  by (simp_all add: hasRunnableNextTick_def)

text \<open>The scan of the timers computes the least due time, clamped to the present.\<close>

lemma Min_clamp:
  fixes now :: "'a :: linorder"
  assumes "finite T"
  shows "max now (Min (insert (max now d) T)) = max now (Min (insert d T))"
proof -
  have "max now (min (max now d) m) = max now (min d m)" for m
    by (auto simp: min_def max_def)
  then show ?thesis using assms by (cases "T = {}") simp_all
qed

lemma wakeup_over_timers_Some:
  "now \<le> n \<Longrightarrow> wakeup_over_timers now (Some n) ts = Some (max now (Min (insert n (tm_dueAt ` set ts))))"
proof (induction ts arbitrary: n)
  case (Cons t ts)
  have m: "Min (insert n (tm_dueAt ` set (t # ts))) = Min (insert (min n (tm_dueAt t)) (tm_dueAt ` set ts))"
    by (cases "set ts = {}") (simp_all add: min.assoc)
  show ?case
  proof (cases "tm_dueAt t < n")
    case True
    then show ?thesis
      using m Cons.IH [of "max now (tm_dueAt t)"] Min_clamp [of "tm_dueAt ` set ts" now "tm_dueAt t"]
      by (simp add: min_def del: Min_insert)
  next
    case False
    then show ?thesis using m Cons by (simp add: min_def del: Min_insert)
  qed
qed simp

lemma wakeup_over_timers_None:
  "wakeup_over_timers now None ts =
     (if ts = [] then None else Some (max now (Min (tm_dueAt ` set ts))))"
proof (cases ts)
  case (Cons t ts')
  then show ?thesis
    using wakeup_over_timers_Some [of now "max now (tm_dueAt t)" ts']
      Min_clamp [of "tm_dueAt ` set ts'" now "tm_dueAt t"] by (simp del: Min_insert)
qed simp

definition immediate_work :: "('c, 'w) loop \<Rightarrow> bool" where
  "immediate_work s \<longleftrightarrow> activeImmediates s \<noteq> [] \<or> activeNextTicks s \<noteq> [] \<or> activeReadyTasks s \<noteq> []"

lemma snapshot_deadline:
  "nextWakeupAt (createSnapshot now s) =
     (if \<not> isAlive (createSnapshot now s) then None
      else if immediate_work s then Some now
      else if timers s = [] then None
      else Some (max now (Min (tm_dueAt ` set (timers s)))))"
proof -
  have "max now (min now m) = now" for m :: rat
    by (simp add: max_def min_def)
  then have "max now (Min (insert now (tm_dueAt ` set (timers s)))) = now"
    by (cases "set (timers s) = {}") simp_all
  then show ?thesis
    by (simp add: createSnapshot_def Let_def immediate_work_def wakeup_over_timers_None
        wakeup_over_timers_Some del: Min_insert)
qed

lemma isAlive_now: "isAlive (createSnapshot a s) = isAlive (createSnapshot b s)"
  by (simp add: createSnapshot_def Let_def)

lemma deadline_mono:
  assumes "nextWakeupAt (createSnapshot b s) = Some n" "a \<le> b"
  shows "\<exists>d \<le> n. nextWakeupAt (createSnapshot a s) = Some d"
proof -
  define m where "m = Min (tm_dueAt ` set (timers s))"
  have "max a m \<le> max b m" using assms(2) by (simp add: max_def)
  then show ?thesis
    using assms isAlive_now [of a s b] by (auto simp: snapshot_deadline m_def [symmetric] split: if_splits)
qed

section \<open>The invariant\<close>

definition phase_for :: "rat option \<Rightarrow> ('c, 'w) loop \<Rightarrow> wakeup_phase option" where
  "phase_for d s = (case d of None \<Rightarrow> None
     | Some _ \<Rightarrow> Some (if hasRunnableNextTick s then Phase_next_tick else Phase_event_loop))"

definition armed :: "rat \<Rightarrow> ('c, 'w) loop \<Rightarrow> bool" where
  "armed t s \<longleftrightarrow> scheduledWakeupAt s = Some (nextWakeupAt (createSnapshot t s)) \<and>
     scheduledWakeupPhase s = Some (phase_for (nextWakeupAt (createSnapshot t s)) s)"

definition awake :: "('c, 'w) loop \<Rightarrow> bool" where
  "awake s \<longleftrightarrow> disposed s \<or> \<not> isAlive (createSnapshot 0 s) \<or>
     (\<exists>t now. lastNow s = Some now \<and> t \<le> now \<and> armed t s)"

text \<open>The host's clock never throws.\<close>

definition clock_total :: "('c, 'w) env \<Rightarrow> bool" where
  "clock_total E \<longleftrightarrow> (\<forall>w e. fst (port_now E w) \<noteq> Inl e)"

lemma armed_frame [simp]:
  "armed t (s\<lparr>world := w\<rparr>) = armed t s"
  "armed t (s\<lparr>runningTurn := b\<rparr>) = armed t s"
  "armed t (s\<lparr>lifecycleObservers := os\<rparr>) = armed t s"
  "armed t (s\<lparr>lastNow := l\<rparr>) = armed t s"
  by (simp_all add: armed_def phase_for_def)

lemma awake_frame [simp]:
  "awake (s\<lparr>world := w\<rparr>) = awake s"
  "awake (s\<lparr>runningTurn := b\<rparr>) = awake s"
  "awake (s\<lparr>lifecycleObservers := os\<rparr>) = awake s"
  by (simp_all add: awake_def)

lemma awake_initial: "awake (initial_loop w)"
  by (simp add: awake_def initial_loop_def createSnapshot_def activeImmediates_def
      activeNextTicks_def activeReadyTasks_def)

lemma awake_disposed: "disposed s \<Longrightarrow> awake s"
  by (simp add: awake_def)

lemma fail_disposes: "hoare P (fail E e) Q (\<lambda>_. disposed)"
  by (simp add: hoare_def fail_def)

lemma fail_awake: "hoare P (fail E e) Q (\<lambda>_. awake)"
  by (simp add: hoare_def fail_def awake_def)

lemma readNow_awake:
  "hoare awake (readNow E) (\<lambda>now s. awake s \<and> lastNow s = Some now) (\<lambda>_. awake)"
proof -
  have "awake (s\<lparr>world := w, lastNow := Some v\<rparr>)"
    if "awake s" "\<not> (case lastNow s of None \<Rightarrow> False | Some p \<Rightarrow> v < p)" for s :: "('a, 'b) loop" and w v
    using that by (auto simp: awake_def not_less intro: order_trans split: option.splits)
  then show ?thesis
    by (auto simp: hoare_def readNow_def Let_def fail_def awake_disposed
        split: prod.split sum.split jsnum.split)
qed

lemma readNow_total:
  assumes "clock_total E"
  shows "hoare P (readNow E) (\<lambda>now s. lastNow s = Some now) (\<lambda>_. disposed)"
  using assms unfolding clock_total_def
  by (auto simp: hoare_def readNow_def Let_def fail_def split: prod.split sum.split jsnum.split)
    (metis fst_conv)+

lemma requestWakeup_armed:
  assumes "requestWakeup E (nextWakeupAt (createSnapshot now s)) s = (Inr x, s')" "lastNow s = Some now"
  shows "awake s'"
proof -
  have "armed now s' \<and> lastNow s' = Some now"
    using assms by (auto simp: requestWakeup_def Let_def armed_def phase_for_def
        split: if_splits prod.splits option.splits)
  then show ?thesis unfolding awake_def by blast
qed

lemma reconcileWakeupAt_awake:
  "hoare (\<lambda>s. lastNow s = Some now) (reconcileWakeupAt E now) (\<lambda>_. awake) (\<lambda>_ _. True)"
  by (rule hoareI) (auto simp: reconcileWakeupAt_def dest: requestWakeup_armed)

lemma commit_awake:
  "hoare (\<lambda>s. lastNow s = Some now) (commitWakeupAdmission E now rb) (\<lambda>_. awake) (\<lambda>_. awake)"
  unfolding commitWakeupAdmission_def
  by (rule hoare_try [OF reconcileWakeupAt_awake])
     (rule hoare_seq [OF hoare_modify [where Q = "\<lambda>_ _. True"]], rule fail_awake)

lemma reconcileWakeupIfActive_awake:
  "hoare P (reconcileWakeupIfActive E) (\<lambda>_. awake) (\<lambda>_. awake)"
proof -
  have "hoare (\<lambda>_. True) (tryE (seqE (readNow E) (reconcileWakeupAt E))
      (\<lambda>e. fail E (normalizeWakeupError e))) (\<lambda>_. awake) (\<lambda>_. awake)"
  proof (rule hoare_try [where F = "\<lambda>_ _. True"])
    show "hoare (\<lambda>_. True) (seqE (readNow E) (reconcileWakeupAt E)) (\<lambda>_. awake) (\<lambda>_ _. True)"
      by (rule hoare_seq [OF _ reconcileWakeupAt_awake])
         (auto simp: hoare_def readNow_def Let_def fail_def split: prod.split sum.split jsnum.split)
  qed (rule fail_awake)
  then show ?thesis by (auto simp: hoare_def reconcileWakeupIfActive_def awake_disposed)
qed

section \<open>Every operation of the API\<close>

named_theorems awake_keeps

lemma assertAcceptingWork_any: "keeps I assertAcceptingWork"
  by (auto simp: hoare_def assertAcceptingWork_def)

text \<open>Steps between the reading of the clock and the request of the wakeup.\<close>

lemma allocateId_now:
  "hoare (\<lambda>s. lastNow s = Some n) allocateId (\<lambda>_ s. lastNow s = Some n) F"
  by (simp add: hoare_def allocateId_def)

lemma allocateSequence_now:
  "hoare (\<lambda>s. lastNow s = Some n) allocateSequence (\<lambda>_ s. lastNow s = Some n) F"
  by (simp add: hoare_def allocateSequence_def)

lemma modify_now:
  "(\<And>s. lastNow (f s) = lastNow s) \<Longrightarrow>
   hoare (\<lambda>s. lastNow s = Some n) (modify f) (\<lambda>_ s. lastNow s = Some n) F"
  by (simp add: hoare_def modify_def)

lemma lastNow_prims [simp]:
  "lastNow (push_ready r s) = lastNow s" "lastNow (push_immediate i s) = lastNow s"
  "lastNow (push_tick k s) = lastNow s" "lastNow (put_timer t s) = lastNow s"
  "lastNow (delete_request q s) = lastNow s"
  by (simp_all add: push_ready_def push_immediate_def push_tick_def put_timer_def delete_request_def)

lemma commit_return_awake:
  "hoare (\<lambda>s. lastNow s = Some now) (seqE (commitWakeupAdmission E now rb) (\<lambda>_. ret i))
     (\<lambda>_. awake) (\<lambda>_. awake)"
  by (rule hoare_seq [OF commit_awake hoare_ret])

lemmas admission_rules = hoare_seq [OF allocateId_now] hoare_seq [OF allocateSequence_now]
  hoare_seq [OF modify_now] commit_return_awake commit_awake

lemmas readNow_then = hoare_seq [OF hoare_post [OF readNow_awake]]

lemma enqueueReadyTaskAt_awake:
  "hoare (\<lambda>s. lastNow s = Some now) (enqueueReadyTaskAt E k c r now n io) (\<lambda>_. awake) (\<lambda>_. awake)"
  unfolding enqueueReadyTaskAt_def Let_def by (rule admission_rules | simp)+

lemma reading:
  assumes "\<And>now. hoare (\<lambda>s. lastNow s = Some now) (f now) (\<lambda>_. awake) (\<lambda>_. awake)"
  shows "keeps awake (seqE (readNow E) f)"
  by (rule hoare_seq [OF readNow_awake]) (rule hoare_pre [OF assms], simp)

lemma enqueueMacrotask_awake [awake_keeps]: "keeps awake (enqueueMacrotask E c r)"
  unfolding enqueueMacrotask_def enqueueReadyTask_def
  by (intro keeps_seq assertAcceptingWork_any assertCallback_keeps reading enqueueReadyTaskAt_awake)

lemma enqueueIoCallback_awake [awake_keeps]: "keeps awake (enqueueIoCallback E c r)"
  unfolding enqueueIoCallback_def enqueueReadyTask_def
  by (intro keeps_seq assertAcceptingWork_any assertCallback_keeps reading enqueueReadyTaskAt_awake)

lemma enqueueImmediate_awake [awake_keeps]: "keeps awake (enqueueImmediate E c r)"
  unfolding enqueueImmediate_def Let_def
  by (intro keeps_seq assertAcceptingWork_any assertCallback_keeps reading) (rule admission_rules | simp)+

lemma enqueueNextTick_awake [awake_keeps]: "keeps awake (enqueueNextTick E c r)"
  unfolding enqueueNextTick_def Let_def
  by (intro keeps_seq assertAcceptingWork_any assertCallback_keeps reading) (rule admission_rules | simp)+

lemma reconcile_awake: "awake (snd (seqE (reconcileWakeupIfActive E) (\<lambda>_. ret x) s))"
proof -
  have "hoare (\<lambda>_. True) (seqE (reconcileWakeupIfActive E) (\<lambda>_. ret x)) (\<lambda>_. awake) (\<lambda>_. awake)"
    by (rule hoare_seq [OF reconcileWakeupIfActive_awake hoare_ret])
  then show ?thesis by (rule hoare_snd) simp
qed

lemma keeps_option:
  "keeps I n \<Longrightarrow> (\<And>x. keeps I (f x)) \<Longrightarrow> keeps I (case v of None \<Rightarrow> n | Some x \<Rightarrow> f x)"
  by (cases v) auto

lemma cancelTask_awake [awake_keeps]: "keeps awake (cancelTask E i)"
  by (auto simp: keeps_iff cancelTask_def reconcile_awake split: option.split)

lemma setImmediateRef_awake [awake_keeps]: "keeps awake (setImmediateRef E i b)"
  by (auto simp: keeps_iff setImmediateRef_def reconcile_awake split: option.split task.split)

lemma delete_timer_absent: "find_timer i s = None \<Longrightarrow> delete_timer i s = s"
  by (auto simp: find_timer_def delete_timer_def find_None_iff filter_id_conv)

lemma clearTimer_awake [awake_keeps]: "keeps awake (clearTimer E i)"
  by (auto simp: keeps_iff clearTimer_def Let_def reconcile_awake delete_timer_absent ret_def)

lemma setTimerRef_awake [awake_keeps]: "keeps awake (setTimerRef E i b)"
  by (auto simp: keeps_iff setTimerRef_def reconcile_awake split: option.split)

lemma normalizeDelay_now:
  "hoare (\<lambda>s. awake s \<and> lastNow s = Some n) (normalizeDelay E m v b)
     (\<lambda>_ s. awake s \<and> lastNow s = Some n) (\<lambda>_. awake)"
  by (auto simp: hoare_def normalizeDelay_def monad_defs split: jsnum.split)

lemma addTimer_awake:
  "hoare (\<lambda>s. awake s \<and> lastNow s = Some now) (addTimer E c now d iv r) (\<lambda>_. awake) (\<lambda>_. awake)"
proof -
  have "hoare (\<lambda>s. lastNow s = Some now) (addTimer E c now d iv r) (\<lambda>_. awake) (\<lambda>_. awake)"
    unfolding addTimer_def Let_def by (rule admission_rules | simp)+
  then show ?thesis by (rule hoare_pre) simp
qed

lemma setTimer_awake [awake_keeps]: "keeps awake (setTimer E c d iv r)"
  unfolding setTimer_def
  by (rule keeps_seq [OF assertAcceptingWork_any], rule keeps_seq [OF assertCallback_keeps],
      rule hoare_seq [OF readNow_awake], rule hoare_seq [OF normalizeDelay_now])
     (auto intro!: addTimer_awake hoare_seq [OF normalizeDelay_now] split: option.split)

lemma registerNativeRequest_awake [awake_keeps]: "keeps awake (registerNativeRequest E r ref)"
  unfolding registerNativeRequest_def assertRequestId_def
  by (intro keeps_seq assertAcceptingWork_any keeps_guard keeps_gets reading)
     (rule admission_rules | simp)+

lemma completeNativeRequest_awake [awake_keeps]: "keeps awake (completeNativeRequest E r c ref)"
proof -
  have step: "keeps awake (seqE (readNow E) (\<lambda>now. seqE (gets (find_request r)) (\<lambda>still.
      seqE (guardE (still \<noteq> None) (EventLoopNativeRequestNotPendingError r)) (\<lambda>_.
      seqE (modify (delete_request r)) (\<lambda>_. enqueueReadyTaskAt E k c b now n io)))))" for k c b n io
  proof (rule hoare_seq [OF readNow_awake])
    fix now
    have ready: "hoare (\<lambda>s. awake s \<and> lastNow s = Some now) (seqE (modify (delete_request r))
        (\<lambda>_. enqueueReadyTaskAt E k c b now n io)) (\<lambda>_. awake) (\<lambda>_. awake)"
      by (rule hoare_pre [OF hoare_seq [OF modify_now enqueueReadyTaskAt_awake]]) simp_all
    show "hoare (\<lambda>s. awake s \<and> lastNow s = Some now) (seqE (gets (find_request r)) (\<lambda>still.
      seqE (guardE (still \<noteq> None) (EventLoopNativeRequestNotPendingError r)) (\<lambda>_.
      seqE (modify (delete_request r)) (\<lambda>_. enqueueReadyTaskAt E k c b now n io))))
      (\<lambda>_. awake) (\<lambda>_. awake)"
      by (rule hoare_seq [OF hoare_post [OF keeps_gets]], assumption, erule conjunct1,
          rule hoare_seq [OF hoare_post [OF keeps_guard]], assumption, erule conjunct1, rule ready)
  qed
  show ?thesis unfolding completeNativeRequest_def assertRequestId_def
    by (rule keeps_seq [OF assertAcceptingWork_any], rule keeps_seq [OF keeps_guard],
        rule keeps_seq [OF assertCallback_keeps], rule keeps_seq [OF keeps_gets],
        rule keeps_option [OF keeps_throw step])
qed

lemma cancelNativeRequest_awake [awake_keeps]:
  fixes E :: "('c, 'w) env"
  shows "keeps awake (cancelNativeRequest E r)"
proof -
  have same: "\<not> any \<Longrightarrow> cancel_completions r ts m = (ts', m', any) \<Longrightarrow> ts' = ts \<and> m' = m"
    for ts :: "'c ready_task list" and m ts' m' any
    by (induction ts arbitrary: ts' m' any) (auto simp: Let_def split: prod.splits if_splits)
  have none: "delete_request r s = s" if "find_request r s = None" for s :: "('c, 'w) loop"
  proof -
    have "filter (\<lambda>(k, _). k \<noteq> r) (nativeRequests s) = nativeRequests s"
      by (rule filter_True) (use that in \<open>force simp: find_request_def map_of_eq_None_iff\<close>)
    then show ?thesis by (simp add: delete_request_def)
  qed
  have "awake (snd (cancelNativeRequest E r s))" if "awake s" for s :: "('c, 'w) loop"
  proof -
    obtain rts m any where c: "cancel_completions r (readyTasks (delete_request r s))
        (tasksById (delete_request r s)) = (rts, m, any)" by (metis prod_cases3)
    show ?thesis
    proof (cases "find_request r s \<noteq> None \<or> any")
      case True
      then show ?thesis using c by (auto simp: cancelNativeRequest_def Let_def reconcile_awake)
    next
      case False
      then show ?thesis using c same [OF _ c] none [of s] that
        by (simp add: cancelNativeRequest_def Let_def ret_def)
    qed
  qed
  then show ?thesis by (simp add: keeps_iff)
qed

lemma setNativeRequestRef_awake [awake_keeps]: "keeps awake (setNativeRequestRef E r b)"
  by (auto simp: keeps_iff setNativeRequestRef_def reconcile_awake split: option.split)

lemma observers_awake [awake_keeps]:
  "keeps awake (addLifecycleObserver c)" "keeps awake (removeLifecycleObserver d)"
  by (auto simp: keeps_iff addLifecycleObserver_def removeLifecycleObserver_def monad_defs
      assertAcceptingWork_def split: option.split)

lemma readNow_keeps_awake: "keeps awake (readNow E)"
  by (rule hoare_post [OF readNow_awake]) auto

lemma queries_awake [awake_keeps]:
  "keeps awake (getCurrentTime E)" "keeps awake (getSnapshot E)"
proof -
  show "keeps awake (getCurrentTime E)" unfolding getCurrentTime_def
    by (intro keeps_seq assertAcceptingWork_any readNow_keeps_awake)
  have "keeps awake (seqE (readNow E) (\<lambda>now. gets (createSnapshot now)))"
    by (intro keeps_seq keeps_gets readNow_keeps_awake)
  then show "keeps awake (getSnapshot E)" by (auto simp: keeps_iff getSnapshot_def)
qed

lemma shutdown_awake [awake_keeps]: "keeps awake (shutdown E)"
  by (auto simp: keeps_iff shutdown_def awake_disposed)

lemma nested_turn_awake [awake_keeps]: "keeps awake nested_turn"
  by (auto simp: keeps_iff nested_turn_def)

lemma api_call_awake: "keeps awake (api_call E a)"
  by (cases a) (auto intro!: reply_of_keeps awake_keeps keeps_gets)

section \<open>Turns\<close>

text \<open>In a turn a throw goes through \<open>fail\<close>, so the loop is disposed.\<close>

lemma executeCallback_fatal: "hoare P (executeCallback E c n) (\<lambda>_ _. True) (\<lambda>_. disposed)"
  by (auto simp: hoare_def executeCallback_def fail_def Let_def split: prod.split sum.split)

lemma drainNextTicks_fatal: "hoare P (drainNextTicks E n) (\<lambda>_ _. True) (\<lambda>_. disposed)"
proof -
  have "drainNextTicks E n s = (Inl e, s') \<Longrightarrow> disposed s'" for s e s'
  proof (induction E n s rule: drainNextTicks.induct)
    case (1 E n s)
    then show ?case
      using hoareD_err [OF executeCallback_fatal [where P = "\<lambda>_. True"]]
      by (subst (asm) (2) drainNextTicks.simps) (auto split: if_splits prod.splits option.splits sum.splits)
  qed
  then show ?thesis by (auto simp: hoare_def split: prod.split sum.split)
qed

lemma checkpoint_fatal: "hoare P (checkpointMicrotasks E) (\<lambda>_ _. True) (\<lambda>_. disposed)"
  unfolding checkpointMicrotasks_def
  by (rule hoare_try [where F = "\<lambda>_ _. True", OF _ fail_disposes])
     (simp add: hoare_def split: prod.split sum.split)

lemma advance_selected_fatal:
  "clock_total E \<Longrightarrow> hoare P (advance_selected E x) (\<lambda>_ _. True) (\<lambda>_. disposed)"
  unfolding advance_selected_def
  by (auto intro!: hoare_seq [OF readNow_total] simp: hoare_def [of _ "modify _"] modify_def
      split: selected.split) (simp_all add: hoare_def ret_def)

lemma ret_any: "hoare P (ret x) (\<lambda>_ _. True) F"
  by (simp add: hoare_def ret_def)

lemma work_phase_fatal:
  assumes "clock_total E"
  shows "hoare P (work_phase E only now) (\<lambda>_ _. True) (\<lambda>_. disposed)"
proof -
  have ticks: "hoare P (seqE (drainNextTicks E n) (\<lambda>n'. ret (f n'))) (\<lambda>_ _. True) (\<lambda>_. disposed)" for P n f
    by (rule hoare_seq [OF drainNextTicks_fatal ret_any])
  have tail: "hoare (\<lambda>_. True) (\<lambda>s2. if disposed s2 then (Inr y, s2)
      else seqE (advance_selected E x) (\<lambda>_. seqE (drainNextTicks E n) (\<lambda>n'. ret (f n'))) s2)
      (\<lambda>_ _. True) (\<lambda>_. disposed)" for n x y f
    using hoare_seq [OF advance_selected_fatal [OF assms, of "\<lambda>_. True" x] ticks [of _ n f]]
    by (simp add: hoare_def)
  have run: "hoare (\<lambda>_. True) (seqE (executeCallback E c 0) (\<lambda>n s2. if disposed s2 then (Inr (g n), s2)
      else seqE (advance_selected E x) (\<lambda>_. seqE (drainNextTicks E n) (\<lambda>n'. ret (f n'))) s2))
      (\<lambda>_ _. True) (\<lambda>_. disposed)" for c x f g
    by (rule hoare_seq [OF executeCallback_fatal tail])
  note errs = hoareD_err [OF ticks [of "\<lambda>_. True"] TrueI] hoareD_err [OF run TrueI]
  have "disposed s'" if "work_phase E only now s = (Inl e, s')" for s e s'
    using that by (auto simp: work_phase_def dest!: errs split: if_splits option.splits prod.splits)
  then show ?thesis by (auto simp: hoare_def split: prod.split sum.split)
qed

lemma settle_phase_awake:
  assumes "clock_total E"
  shows "hoare P (settle_phase E n k sel) (\<lambda>_. awake) (\<lambda>_. disposed)"
proof -
  let ?adv = "\<lambda>now. case sel of Some (SelTimer t) \<Rightarrow> advanceIntervalDeadline (tm_id t) now | _ \<Rightarrow> id"
  have adv: "lastNow (?adv now s) = lastNow s" for now s
    by (simp add: advanceIntervalDeadline_def update_timer_def Let_def split: option.split selected.split)
  have req: "hoare (\<lambda>s. lastNow s = Some now \<and> sn = createSnapshot now s)
      (seqE (tryE (requestWakeup E (nextWakeupAt sn)) (\<lambda>e. fail E (normalizeWakeupError e)))
        (\<lambda>_. ret x)) (\<lambda>_. awake) (\<lambda>_. disposed)" for now sn x
    by (rule hoare_seq [OF hoare_try [where F = "\<lambda>_ _. True", OF _ fail_disposes] hoare_ret], rule hoareI)
       (auto dest: requestWakeup_armed)
  have snap: "hoare (\<lambda>s. lastNow s = Some now) (seqE (gets (createSnapshot now)) (\<lambda>sn.
      seqE (tryE (requestWakeup E (nextWakeupAt sn)) (\<lambda>e. fail E (normalizeWakeupError e)))
        (\<lambda>_. ret (f sn)))) (\<lambda>_. awake) (\<lambda>_. disposed)" for now f
    by (rule hoare_seq [OF _ req [of now]]) (simp add: hoare_def gets_def)
  show ?thesis unfolding settle_phase_def
    by (rule hoare_seq [OF readNow_total [OF assms]], rule hoare_seq [OF modify_now [OF adv]],
        rule snap)
qed

lemma hoare_branch:
  "hoare (\<lambda>s. P s \<and> d s) m Q E \<Longrightarrow> hoare (\<lambda>s. P s \<and> \<not> d s) n Q E \<Longrightarrow>
   hoare P (\<lambda>s. if d s then m s else n s) Q E"
  by (simp add: hoare_def)

lemma hoare_Inr: "(\<And>s. P s \<Longrightarrow> Q (f s) s) \<Longrightarrow> hoare P (\<lambda>s. (Inr (f s), s)) Q E"
  by (simp add: hoare_def)

lemma finish_phase_awake:
  assumes "clock_total E"
  shows "hoare P (finish_phase E n k sel) (\<lambda>_. awake) (\<lambda>_. disposed)"
proof -
  have "hoare P (\<lambda>s. if disposed s then (Inr (createShutdownResult n k), s)
      else seqE (if k \<noteq> None then checkpointMicrotasks E else ret ()) (\<lambda>_ s1.
        if disposed s1 then (Inr (createShutdownResult n k), s1)
        else settle_phase E n k sel s1) s) (\<lambda>_. awake) (\<lambda>_. disposed)"
    by (rule hoare_branch [OF hoare_Inr hoare_seq [OF hoare_if [OF checkpoint_fatal ret_any]
          hoare_branch [OF hoare_Inr settle_phase_awake [OF assms]]]]) (auto simp: awake_disposed)
  then show ?thesis by (simp only: finish_phase_def [abs_def])
qed

lemma runActiveTurn_awake:
  assumes "clock_total E"
  shows "hoare awake (runActiveTurn E only) (\<lambda>_. awake) (\<lambda>_. disposed)"
proof -
  have "hoare (\<lambda>_. True) (seqE (work_phase E only now) (\<lambda>(n, kind, sel). finish_phase E n kind sel))
      (\<lambda>_. awake) (\<lambda>_. disposed)" for now
    by (rule hoare_seq [OF work_phase_fatal [OF assms]]) (auto intro: finish_phase_awake [OF assms])
  then have body: "hoare awake (\<lambda>s. if only \<and> \<not> hasRunnableNextTick s
       then (Inr (turn_result_of (createSnapshot now s) 0 Status_idle None), s)
       else seqE (modify (\<lambda>s. s\<lparr>scheduledWakeupAt := None, scheduledWakeupPhase := None\<rparr>)) (\<lambda>_.
            seqE (work_phase E only now) (\<lambda>(n, kind, sel). finish_phase E n kind sel)) s)
      (\<lambda>_. awake) (\<lambda>_. disposed)" for now
    by (auto simp: hoare_def)
  have "hoare awake (readNow E) (\<lambda>_. awake) (\<lambda>_. disposed)"
    by (rule hoareI) (auto dest: hoareD_err [OF readNow_total [OF assms]] hoareD_ok [OF readNow_awake])
  then show ?thesis unfolding runActiveTurn_def by (rule hoare_seq [OF _ body])
qed

lemma run_guarded_awake:
  assumes "clock_total E"
  shows "hoare awake (run_guarded E only) (\<lambda>_. awake)
      (\<lambda>e s. awake s \<and> (disposed s \<or> e = EventLoopReentrantTurnError))"
proof (rule hoareI)
  fix s e s' assume s: "awake s" and g: "run_guarded E only s = (Inl e, s')"
  obtain r s1 where t: "runActiveTurn E only (s\<lparr>runningTurn := True\<rparr>) = (r, s1)" by fastforce
  show "awake s' \<and> (disposed s' \<or> e = EventLoopReentrantTurnError)"
    using s g t hoareD [OF runActiveTurn_awake [OF assms] _ t]
    by (auto simp: run_guarded_def awake_disposed split: if_splits)
next
  fix s x s' assume s: "awake s" and g: "run_guarded E only s = (Inr x, s')"
  obtain r s1 where t: "runActiveTurn E only (s\<lparr>runningTurn := True\<rparr>) = (r, s1)" by fastforce
  show "awake s'"
    using s g t hoareD [OF runActiveTurn_awake [OF assms] _ t]
    by (auto simp: run_guarded_def split: if_splits)
qed

lemma host_call_awake: "clock_total E \<Longrightarrow> keeps awake (host_call E a)"
  by (cases a) (auto simp: host_call_def runTurn_def runNextTickCheckpoint_def simp del: api_call.simps
      intro!: reply_of_keeps api_call_awake hoare_post [OF run_guarded_awake])

lemma reachable_awake: "reachable E s \<Longrightarrow> clock_total E \<Longrightarrow> awake s"
  by (induction rule: reachable.induct)
     (auto simp: awake_initial elim!: loop_step.cases intro: keeps_apply [OF host_call_awake])

end
