(* ===== verification/Loop_Results.thy ===== *)
theory Loop_Results
  imports Loop_Wakeup
begin

text \<open>
  What a turn returns, what a disposed loop answers, how an interval advances, and what the
  timer and native request operations leave behind.
\<close>

section \<open>The result of a turn\<close>

lemma drainNextTicks_counter:
  "drainNextTicks E n s = (Inr m, s') \<Longrightarrow> n \<le> maxCallbacksPerTurn E \<Longrightarrow>
   n \<le> m \<and> m \<le> maxCallbacksPerTurn E"
proof (induction E n s arbitrary: m rule: drainNextTicks.induct)
  case (1 E n s)
  obtain x s1 where t: "takeNextTick s = (x, s1)" by fastforce
  show ?case
  proof (cases "disposed s \<or> x = None")
    case True
    then show ?thesis using 1(2,3) t by (auto simp: drainNextTicks.simps [of E n s] split: if_splits)
  next
    case False
    then obtain k where k: "x = Some k" "\<not> disposed s" by auto
    obtain r s2 where e: "executeCallback E (nt_callback k) n s1 = (r, s2)" by fastforce
    with k t 1(2) obtain n' where r: "r = Inr n'" and d: "drainNextTicks E n' s2 = (Inr m, s')"
      by (auto simp: drainNextTicks.simps [of E n s] split: sum.splits)
    have "n' = n + 1" "n < maxCallbacksPerTurn E"
      using executeCallback_counter [of E "nt_callback k" n s1 n' s2] e r by auto
    then show ?thesis using 1(1) [OF k(2) t [symmetric] k(1)] e r d by fastforce
  qed
qed

lemma takeNextTick_from_None: "takeNextTick_from ts m = (None, ts', m') \<Longrightarrow> ts' = []"
  by (induction ts m rule: takeNextTick_from.induct) (auto split: if_splits)

lemma drainNextTicks_empty:
  "drainNextTicks E n s = (Inr m, s') \<Longrightarrow> disposed s' \<or> nextTicks s' = []"
proof (induction E n s rule: drainNextTicks.induct)
  case (1 E n s)
  obtain x s1 where t: "takeNextTick s = (x, s1)" by fastforce
  show ?case
  proof (cases "disposed s \<or> x = None")
    case True
    then show ?thesis using 1(2) t takeNextTick_from_None [of "nextTicks s" "tasksById s"]
      by (auto simp: drainNextTicks.simps [of E n s] takeNextTick_def split: prod.splits if_splits)
  next
    case False
    then obtain k where k: "x = Some k" "\<not> disposed s" by auto
    obtain r s2 where e: "executeCallback E (nt_callback k) n s1 = (r, s2)" by fastforce
    with k t 1(2) obtain n' where r: "r = Inr n'" and d: "drainNextTicks E n' s2 = (Inr m, s')"
      by (auto simp: drainNextTicks.simps [of E n s] split: sum.splits)
    then show ?thesis using 1(1) [OF k(2) t [symmetric] k(1)] e r d by fastforce
  qed
qed

text \<open>Callbacks run, kind, selected task: what the work phase of a turn hands on.\<close>

lemma work_phase_result:
  assumes "work_phase E only now s = (Inr (n, kind, sel), s')"
  shows "n \<le> maxCallbacksPerTurn E \<and> (kind = None \<longrightarrow> n = 0 \<and> sel = None) \<and>
     (kind \<noteq> None \<longrightarrow> disposed s' \<or> nextTicks s' = [])"
proof -
  have one: "m \<le> maxCallbacksPerTurn E" if "executeCallback E c k s1 = (Inr m, s2)" for c k s1 m s2
    using executeCallback_counter [OF that] by simp
  have none: "drainNextTicks E k s1 = (Inr m, s2) \<Longrightarrow> k \<le> maxCallbacksPerTurn E \<Longrightarrow>
      m \<le> maxCallbacksPerTurn E \<and> (disposed s2 \<or> nextTicks s2 = [])" for k s1 m s2
    using drainNextTicks_counter drainNextTicks_empty by blast
  show ?thesis
    using assms
    by (auto simp: work_phase_def seqE_def [of "drainNextTicks _ _"] seqE_def [of "executeCallback _ _ _"]
        seqE_def [of "advance_selected _ _"] ret_def
        split: if_splits prod.splits option.splits sum.splits dest: one none)
qed

definition describes :: "turn_result \<Rightarrow> ('c, 'w) loop \<Rightarrow> bool" where
  "describes r s \<longleftrightarrow> (\<exists>now. lastNow s = Some now \<and>
     hasPendingWork r = hasPendingWork (createSnapshot now s) \<and>
     isAlive r = isAlive (createSnapshot now s) \<and>
     nextWakeupAt r = nextWakeupAt (createSnapshot now s))"

text \<open>
  What a turn that returns says: at most the budget of callbacks ran; nothing ran exactly when
  the kind is undefined; the status is \<open>shutdown\<close> exactly when the loop is disposed, and
  otherwise the result is the snapshot of the loop the turn leaves.
\<close>

definition turn_spec :: "('c, 'w) env \<Rightarrow> turn_result \<Rightarrow> ('c, 'w) loop \<Rightarrow> bool" where
  "turn_spec E r s \<longleftrightarrow>
     callbacksProcessed r \<le> maxCallbacksPerTurn E \<and>
     (taskKind r = None \<longrightarrow> callbacksProcessed r = 0) \<and>
     (status r = Status_shutdown \<longleftrightarrow> disposed s) \<and>
     (status r \<noteq> Status_shutdown \<longrightarrow>
        (status r = Status_idle \<longleftrightarrow> taskKind r = None) \<and> describes r s)"

lemma describes_result:
  "lastNow s = Some now \<Longrightarrow> describes (turn_result_of (createSnapshot now s) n st k) s"
  by (simp add: describes_def turn_result_of_def)

lemma requestWakeup_frame:
  assumes "requestWakeup E d s = (r, s')"
  shows "lastNow s' = lastNow s \<and> disposed s' = disposed s \<and>
    createSnapshot t s' = createSnapshot t s \<and> timers s' = timers s \<and> readyTasks s' = readyTasks s \<and>
    nativeRequests s' = nativeRequests s \<and> nextTicks s' = nextTicks s \<and> immediates s' = immediates s \<and>
    nextId s' = nextId s"
  using assms by (auto simp: requestWakeup_def Let_def split: if_splits prod.splits option.splits)

lemma readNow_frame:
  assumes "readNow E s = (Inr now, s')"
  shows "lastNow s' = Some now \<and> disposed s' = disposed s \<and> timers s' = timers s \<and>
    readyTasks s' = readyTasks s \<and> nativeRequests s' = nativeRequests s \<and> nextTicks s' = nextTicks s \<and>
    nextId s' = nextId s \<and> nextSequence s' = nextSequence s \<and> immediates s' = immediates s \<and>
    (\<forall>p. lastNow s = Some p \<longrightarrow> p \<le> now) \<and> 0 \<le> now"
  using assms by (auto simp: readNow_def Let_def fail_def split: if_splits prod.splits sum.splits
      jsnum.splits option.splits)

lemma tryE_fail_Inr:
  "seqE (tryE m (\<lambda>e. fail E (h e))) f s = (Inr x, s') \<Longrightarrow> \<exists>y s1. m s = (Inr y, s1) \<and> f y s1 = (Inr x, s')"
  by (auto simp: seqE_def tryE_def fail_def split: prod.splits sum.splits)

lemma settle_phase_result:
  assumes "settle_phase E n k sel s = (Inr r, s')" "\<not> disposed s"
  shows "describes r s' \<and> \<not> disposed s' \<and> callbacksProcessed r = n \<and> taskKind r = k \<and>
    status r = (if k \<noteq> None then Status_ran else Status_idle)"
proof -
  obtain now s1 where now: "readNow E s = (Inr now, s1)" and
    rest: "seqE (modify (case sel of Some (SelTimer t) \<Rightarrow> advanceIntervalDeadline (tm_id t) now | _ \<Rightarrow> id))
      (\<lambda>_. seqE (gets (createSnapshot now)) (\<lambda>sn. seqE (tryE (requestWakeup E (nextWakeupAt sn))
        (\<lambda>e. fail E (normalizeWakeupError e))) (\<lambda>_. ret (turn_result_of sn n
          (if k \<noteq> None then Status_ran else Status_idle) k)))) s1 = (Inr r, s')"
    using assms(1) by (auto simp: settle_phase_def seqE_def [of "readNow _"] split: prod.splits sum.splits)
  define s2 where "s2 = (case sel of Some (SelTimer t) \<Rightarrow> advanceIntervalDeadline (tm_id t) now | _ \<Rightarrow> id) s1"
  have s2: "lastNow s2 = Some now" "\<not> disposed s2"
    using readNow_frame [OF now] assms(2) by (auto simp: s2_def advanceIntervalDeadline_def update_timer_def
        Let_def split: option.split selected.split)
  from rest obtain y s3 where req: "requestWakeup E (nextWakeupAt (createSnapshot now s2)) s2 = (Inr y, s3)"
    and r: "r = turn_result_of (createSnapshot now s2) n (if k \<noteq> None then Status_ran else Status_idle) k"
    "s' = s3"
    by (auto simp: s2_def [symmetric] ret_def dest!: tryE_fail_Inr)
  have "describes r s'"
    using describes_result [of s3 now] requestWakeup_frame [OF req, of now] s2 r by simp
  then show ?thesis using r requestWakeup_frame [OF req] s2 by (simp add: turn_result_of_def)
qed

lemma turn_spec_shutdown:
  "disposed s \<Longrightarrow> n \<le> maxCallbacksPerTurn E \<Longrightarrow> k = None \<longrightarrow> n = 0 \<Longrightarrow>
   turn_spec E (createShutdownResult n k) s"
  by (simp add: turn_spec_def createShutdownResult_def)

lemma finish_phase_result:
  assumes "finish_phase E n k sel s = (Inr r, s')" "n \<le> maxCallbacksPerTurn E" "k = None \<longrightarrow> n = 0"
  shows "turn_spec E r s'"
proof -
  have "r = createShutdownResult n k \<and> disposed s' \<or>
      (\<exists>s1. \<not> disposed s1 \<and> settle_phase E n k sel s1 = (Inr r, s'))"
    using assms(1) by (auto simp: finish_phase_def seqE_def ret_def split: if_splits prod.splits sum.splits)
  then show ?thesis
  proof (elim disjE conjE exE)
    assume "r = createShutdownResult n k" "disposed s'"
    then show ?thesis using assms(2,3) turn_spec_shutdown by blast
  next
    fix s1 assume "\<not> disposed s1" "settle_phase E n k sel s1 = (Inr r, s')"
    from settle_phase_result [OF this(2,1)] show ?thesis
      using assms(2,3) by (cases k) (simp_all add: turn_spec_def)
  qed
qed

lemma runActiveTurn_result:
  assumes "runActiveTurn E only s = (Inr r, s')" "\<not> disposed s"
  shows "turn_spec E r s'"
proof -
  obtain now s1 where now: "readNow E s = (Inr now, s1)"
    using assms(1) by (auto simp: runActiveTurn_def seqE_def split: prod.splits sum.splits)
  note f = readNow_frame [OF now]
  show ?thesis
  proof (cases "only \<and> \<not> hasRunnableNextTick s1")
    case True
    then have "r = turn_result_of (createSnapshot now s1) 0 Status_idle None" "s' = s1"
      using assms(1) now by (auto simp: runActiveTurn_def seqE_def)
    then show ?thesis using describes_result [of s1 now 0 Status_idle None] f assms(2)
      by (simp add: turn_spec_def) (simp add: turn_result_of_def)
  next
    case False
    define s2 where "s2 = s1\<lparr>scheduledWakeupAt := None, scheduledWakeupPhase := None\<rparr>"
    have "seqE (work_phase E only now) (\<lambda>(n, kind, sel). finish_phase E n kind sel) s2 = (Inr r, s')"
      using assms(1) now False by (simp add: runActiveTurn_def seqE_def [of "readNow _"] s2_def)
    then obtain n kind sel s3 where w: "work_phase E only now s2 = (Inr (n, kind, sel), s3)"
      and "finish_phase E n kind sel s3 = (Inr r, s')"
      by (auto simp: seqE_def split: prod.splits sum.splits)
    then show ?thesis using work_phase_result [OF w] finish_phase_result by blast
  qed
qed

lemma turn_spec_frame [simp]: "turn_spec E r (s\<lparr>runningTurn := b\<rparr>) = turn_spec E r s"
  by (simp add: turn_spec_def describes_def)

lemma run_guarded_result:
  assumes "run_guarded E only s = (Inr r, s')"
  shows "turn_spec E r s'"
  using assms runActiveTurn_result [of E only "s\<lparr>runningTurn := True\<rparr>" r]
  by (auto simp: run_guarded_def turn_spec_shutdown Let_def split: if_splits prod.splits)

section \<open>A disposed loop\<close>

lemma api_disposed:
  assumes "loop_inv E D s" "disposed s"
  shows "api_call E a s = (disposed_reply a, s)"
proof -
  have q: "tasksById s = (\<lambda>_. None)" "timers s = []" "nativeRequests s = []" "readyTasks s = []"
    "lifecycleObservers s = []"
    using assms by (simp_all add: loop_inv_def quiet_if_disposed_def)
  have off: "seqE assertAcceptingWork f s = (Inl EventLoopDisposedError, s)" for f :: "unit \<Rightarrow> ('a, 'b, 'x) lop"
    using assms(2) by (simp add: seqE_def assertAcceptingWork_def)
  have off': "seqE (seqE assertAcceptingWork f) g s = (Inl EventLoopDisposedError, s)"
    for f :: "unit \<Rightarrow> ('a, 'b, 'x) lop" and g :: "'x \<Rightarrow> ('a, 'b, 'y) lop"
    using assms(2) by (simp add: seqE_def assertAcceptingWork_def)
  have id: "delete_timer i s = s" "delete_request r s = s" "removeAll c (lifecycleObservers s) = []" for i r c
    using q by (simp_all add: delete_timer_def delete_request_def)
  show ?thesis
    by (cases a)
       (simp_all add: reply_of_def off off' id q assms(2) enqueueMacrotask_def enqueueIoCallback_def
        enqueueReadyTask_def enqueueImmediate_def enqueueNextTick_def setTimer_def registerNativeRequest_def
        completeNativeRequest_def getCurrentTime_def addLifecycleObserver_def,
        simp_all add: seqE_def cancelTask_def clearTimer_def find_timer_def setTimerRef_def hasRefTimer_def
        setImmediateRef_def hasRefImmediate_def cancelNativeRequest_def find_request_def setNativeRequestRef_def
        getSnapshot_def removeLifecycleObserver_def nested_turn_def shutdown_def modify_def ret_def gets_def
        q id assms(2))
qed

lemma host_disposed:
  assumes "loop_inv E D s" "disposed s"
  shows "host_call E a s = (disposed_reply a, s)"
  using assms api_disposed [OF assms, of a]
  by (cases a) (simp_all add: host_call_def runTurn_def runNextTickCheckpoint_def run_guarded_def
      reply_of_def seqE_def ret_def del: api_call.simps)

section \<open>Intervals and delays\<close>

lemma find_timer_update:
  assumes "find_timer i s = Some t" "\<And>u. tm_id (f u) = tm_id u"
  shows "find_timer j (update_timer i f s) = (if j = i then Some (f t) else find_timer j s)"
proof -
  have "find (\<lambda>t. tm_id t = j) (map (\<lambda>t. if tm_id t = i then f t else t) ts) =
      (if j = i then map_option f (find (\<lambda>t. tm_id t = i) ts) else find (\<lambda>t. tm_id t = j) ts)" for ts
    by (induction ts) (auto simp: assms(2))
  then show ?thesis using assms(1) by (simp add: find_timer_def update_timer_def)
qed

lemma floor_steps:
  fixes now due iv :: rat
  assumes "0 < iv" "due \<le> now"
  shows "now < due + (of_int \<lfloor>(now - due) / iv\<rfloor> + 1) * iv"
    and "due + (of_int \<lfloor>(now - due) / iv\<rfloor> + 1) * iv \<le> now + iv"
proof -
  let ?q = "of_int \<lfloor>(now - due) / iv\<rfloor> :: rat"
  have q: "(now - due) / iv < ?q + 1" "?q \<le> (now - due) / iv" by linarith+
  have "now - due < (?q + 1) * iv" using q(1) assms(1) by (simp only: pos_divide_less_eq)
  moreover have "?q * iv \<le> now - due" using q(2) assms(1) by (simp only: pos_le_divide_eq)
  ultimately show "now < due + (?q + 1) * iv" "due + (?q + 1) * iv \<le> now + iv"
    by (simp_all add: algebra_simps)
qed

lemma advance_deadline:
  assumes "find_timer i s = Some t" "tm_intervalMs t = Some iv" "0 < iv" "tm_dueAt t \<le> now"
  shows "\<exists>k :: nat. let due = tm_dueAt t + (of_nat k + 1) * iv in
     now < due \<and> due \<le> now + iv \<and>
     find_timer i (advanceIntervalDeadline i now s) = Some (t\<lparr>tm_dueAt := due\<rparr>) \<and>
     (\<forall>j. j \<noteq> i \<longrightarrow> find_timer j (advanceIntervalDeadline i now s) = find_timer j s)"
proof -
  let ?q = "\<lfloor>(now - tm_dueAt t) / iv\<rfloor>"
  define f where "f = (\<lambda>u :: 'a timer_record. u\<lparr>tm_dueAt := tm_dueAt u + (of_int ?q + 1) * iv\<rparr>)"
  have adv: "advanceIntervalDeadline i now s = update_timer i f s"
    using assms by (simp add: advanceIntervalDeadline_def Let_def f_def max_def)
  have k: "of_nat (nat ?q) = (of_int ?q :: rat)" using assms(3,4) by (simp add: of_nat_nat)
  have "find_timer j (update_timer i f s) = (if j = i then Some (f t) else find_timer j s)" for j
    by (rule find_timer_update [OF assms(1)]) (simp add: f_def)
  then show ?thesis
    using floor_steps [OF assms(3,4)] k by (intro exI [of _ "nat ?q"]) (simp add: adv f_def)
qed

lemma normalizeDelay_result:
  assumes "normalizeDelay E m v z s = (r, s')"
  shows "s' = s \<and> (case v of
     Fin q \<Rightarrow> if q < 0 then r = Inl (EventLoopOptionError m)
             else r = Inr (min (maxTimerDelayMs E) (max (if z then 0 else minimumIntervalMs E) (of_int \<lceil>q\<rceil>)))
   | _ \<Rightarrow> r = Inl (EventLoopOptionError m))"
  using assms by (auto simp: normalizeDelay_def monad_defs split: jsnum.splits if_splits)

lemma commit_result:
  assumes "seqE (commitWakeupAdmission E now rb) (\<lambda>_. ret x) s = (Inr y, s')"
  shows "y = x \<and> (\<exists>d. requestWakeup E d s = (Inr (), s'))"
  using assms by (auto simp: commitWakeupAdmission_def reconcileWakeupAt_def seqE_def tryE_def modify_def
      fail_def ret_def split: prod.splits sum.splits)

text \<open>The deadline and interval of the timer a successful \<open>setTimer\<close> adds.\<close>

definition timer_delay :: "('c, 'w) env \<Rightarrow> rat \<Rightarrow> rat" where
  "timer_delay E q = min (maxTimerDelayMs E) (max 0 (of_int \<lceil>q\<rceil>))"

definition timer_interval :: "('c, 'w) env \<Rightarrow> rat \<Rightarrow> rat" where
  "timer_interval E q = min (maxTimerDelayMs E) (max (minimumIntervalMs E) (of_int \<lceil>q\<rceil>))"

lemma seqE_InrE:
  assumes "seqE m f s = (Inr x, s')"
  obtains y s1 where "m s = (Inr y, s1)" "f y s1 = (Inr x, s')"
  using assms by (auto simp: seqE_def split: prod.splits sum.splits)

lemma addTimer_result:
  assumes "addTimer E c now d iv r s = (Inr i, s')"
  shows "i = nextId s \<and> lastNow s' = lastNow s \<and> timers s' = timers s @ [\<lparr>tm_callback = c, tm_dueAt = now + d, tm_id = nextId s,
     tm_intervalMs = iv, tm_ref = r, tm_sequence = nextSequence s\<rparr>]"
proof -
  let ?t = "\<lparr>tm_callback = c, tm_dueAt = now + d, tm_id = nextId s, tm_intervalMs = iv, tm_ref = r,
    tm_sequence = nextSequence s\<rparr>"
  let ?s = "put_timer ?t (s\<lparr>nextId := nextId s + 1, nextSequence := nextSequence s + 1\<rparr>)"
  have "seqE (commitWakeupAdmission E now (delete_timer (nextId s))) (\<lambda>_. ret (nextId s)) ?s = (Inr i, s')"
    using assms by (simp add: addTimer_def seqE_def [of allocateId] seqE_def [of allocateSequence]
        allocateId_def allocateSequence_def Let_def)
  from commit_result [OF this] obtain w where "i = nextId s" "requestWakeup E w ?s = (Inr (), s')" by blast
  then show ?thesis using requestWakeup_frame by (fastforce simp: put_timer_def)
qed

lemma setTimer_result:
  assumes "setTimer E callback delay interval ref s = (Inr i, s')"
  shows "\<exists>c q now iv. callback = Some c \<and> delay = Fin q \<and> 0 \<le> q \<and> i = nextId s \<and> lastNow s' = Some now \<and>
     (case interval of None \<Rightarrow> iv = None
        | Some v \<Rightarrow> \<exists>p. v = Fin p \<and> 0 \<le> p \<and> iv = Some (timer_interval E p)) \<and>
     timers s' = timers s @ [\<lparr>tm_callback = c, tm_dueAt = now + timer_delay E q, tm_id = i,
       tm_intervalMs = iv, tm_ref = ref_or_true ref, tm_sequence = nextSequence s\<rparr>]"
proof -
  obtain c s1 where c: "callback = Some c" "\<not> disposed s" and
    rest: "seqE (readNow E) (\<lambda>now. seqE (normalizeDelay E ''delayMs'' delay True) (\<lambda>d.
      case interval of None \<Rightarrow> addTimer E c now d None (ref_or_true ref)
      | Some v \<Rightarrow> seqE (normalizeDelay E ''intervalMs'' v False) (\<lambda>iv.
          addTimer E c now d (Some iv) (ref_or_true ref)))) s = (Inr i, s')"
    using assms by (auto simp: setTimer_def seqE_def [of assertAcceptingWork] assertAcceptingWork_def
        assertCallback_def throw_def split: option.splits if_splits)
  from rest obtain now s1 where now: "readNow E s = (Inr now, s1)" and
    rest: "seqE (normalizeDelay E ''delayMs'' delay True) (\<lambda>d.
      case interval of None \<Rightarrow> addTimer E c now d None (ref_or_true ref)
      | Some v \<Rightarrow> seqE (normalizeDelay E ''intervalMs'' v False) (\<lambda>iv.
          addTimer E c now d (Some iv) (ref_or_true ref))) s1 = (Inr i, s')"
    by (rule seqE_InrE)
  from rest obtain d s2 where d: "normalizeDelay E ''delayMs'' delay True s1 = (Inr d, s2)" and
    rest: "(case interval of None \<Rightarrow> addTimer E c now d None (ref_or_true ref)
      | Some v \<Rightarrow> seqE (normalizeDelay E ''intervalMs'' v False) (\<lambda>iv.
          addTimer E c now d (Some iv) (ref_or_true ref))) s2 = (Inr i, s')"
    by (rule seqE_InrE)
  obtain q where q: "delay = Fin q" "0 \<le> q" "d = timer_delay E q" "s2 = s1"
    using normalizeDelay_result [OF d] by (auto simp: timer_delay_def split: jsnum.splits if_splits)
  note fr = readNow_frame [OF now]
  show ?thesis
  proof (cases interval)
    case None
    then have a: "addTimer E c now d None (ref_or_true ref) s1 = (Inr i, s')" using rest q by simp
    show ?thesis using addTimer_result [OF a] fr c q None by auto
  next
    case (Some v)
    from rest [unfolded Some option.case q(4)] obtain iv s3 where
      v: "normalizeDelay E ''intervalMs'' v False s1 = (Inr iv, s3)" and
      a: "addTimer E c now d (Some iv) (ref_or_true ref) s3 = (Inr i, s')"
      by (rule seqE_InrE)
    obtain p where "v = Fin p" "0 \<le> p" "iv = timer_interval E p" "s3 = s1"
      using normalizeDelay_result [OF v] by (auto simp: timer_interval_def split: jsnum.splits if_splits)
    then show ?thesis using addTimer_result [OF a] fr c q Some by auto
  qed
qed

section \<open>Ids are only handed out upwards\<close>

lemma finalize_nextId [simp]: "nextId (finalizeTermination E r s) = nextId s"
  by (auto simp: finalizeTermination_def Let_def clearPendingWork_def requestWakeup_def split: prod.split option.split)

definition ids_from :: "nat \<Rightarrow> ('c, 'w) loop \<Rightarrow> bool" where
  "ids_from n s \<longleftrightarrow> n \<le> nextId s"

lemma ids_from_basic:
  "keeps (ids_from n) (fail E e)" "keeps (ids_from n) (readNow E)" "keeps (ids_from n) (requestWakeup E d)"
  "keeps (ids_from n) allocateId" "keeps (ids_from n) allocateSequence" "keeps (ids_from n) assertAcceptingWork"
  "keeps (ids_from n) (assertCallback c)" "keeps (ids_from n) (normalizeDelay E m v z)"
  by (auto simp: keeps_iff ids_from_def fail_def readNow_def Let_def requestWakeup_def allocateId_def
      allocateSequence_def assertAcceptingWork_def assertCallback_def normalizeDelay_def monad_defs
      split: option.split jsnum.split prod.split sum.split)

lemma ids_from_modify: "(\<And>s. nextId (f s) = nextId s) \<Longrightarrow> keeps (ids_from n) (modify f)"
  by (simp add: keeps_iff ids_from_def modify_def)

lemma ids_from_reconcile:
  "keeps (ids_from n) (reconcileWakeupIfActive E)"
  "(\<And>s. nextId (rb s) = nextId s) \<Longrightarrow> keeps (ids_from n) (commitWakeupAdmission E now rb)"
proof -
  have at: "keeps (ids_from n) (reconcileWakeupAt E now)" for now
    using ids_from_basic(3) by (auto simp: keeps_iff reconcileWakeupAt_def)
  have "keeps (ids_from n) (tryE (seqE (readNow E) (reconcileWakeupAt E)) (\<lambda>e. fail E (normalizeWakeupError e)))"
    by (intro keeps_rules ids_from_basic at)
  then show "keeps (ids_from n) (reconcileWakeupIfActive E)"
    by (auto simp: keeps_iff reconcileWakeupIfActive_def)
  show "keeps (ids_from n) (commitWakeupAdmission E now rb)" if "\<And>s. nextId (rb s) = nextId s"
    unfolding commitWakeupAdmission_def by (intro keeps_rules ids_from_basic at ids_from_modify that)
qed

lemma nextId_prims [simp]:
  "nextId (put_timer t s) = nextId s" "nextId (delete_timer i s) = nextId s"
  "nextId (push_immediate m s) = nextId s" "nextId (drop_immediate m s) = nextId s"
  "nextId (unlist_task k s) = nextId s"
  by (simp_all add: put_timer_def delete_timer_def push_immediate_def drop_immediate_def unlist_task_def
      split: task.split)

lemma ids_from_ops:
  "keeps (ids_from n) (setTimer E c d iv r)" "keeps (ids_from n) (clearTimer E i)"
  "keeps (ids_from n) (enqueueImmediate E c r)" "keeps (ids_from n) (cancelTask E i)"
proof -
  have add: "keeps (ids_from n) (addTimer E c now d iv r)" for c now d iv r
    unfolding addTimer_def Let_def
    by (intro keeps_rules ids_from_basic ids_from_modify ids_from_reconcile) simp_all
  show "keeps (ids_from n) (setTimer E c d iv r)" unfolding setTimer_def
    by (intro keeps_seq keeps_option keeps_rules ids_from_basic add)
  show "keeps (ids_from n) (enqueueImmediate E c r)" unfolding enqueueImmediate_def Let_def
    by (intro keeps_rules ids_from_basic ids_from_modify ids_from_reconcile) simp_all
  have rec: "keeps (ids_from n) (seqE (reconcileWakeupIfActive E) (\<lambda>_. ret x))" for x
    by (intro keeps_rules ids_from_reconcile)
  have rec': "ids_from n s \<Longrightarrow> ids_from n (snd (seqE (reconcileWakeupIfActive E) (\<lambda>_. ret x) s))" for s x
    by (rule keeps_snd [OF rec])
  have prims: "ids_from n (delete_timer i s) = ids_from n s" "ids_from n (unlist_task k s) = ids_from n s"
    "ids_from n (s\<lparr>tasksById := m\<rparr>) = ids_from n s" for s k m
    by (simp_all add: ids_from_def)
  show "keeps (ids_from n) (clearTimer E i)"
    by (auto simp: keeps_iff clearTimer_def Let_def rec' prims ret_def)
  show "keeps (ids_from n) (cancelTask E i)"
    by (auto simp: keeps_iff cancelTask_def rec' prims split: option.split)
qed

lemma nextId_le: "keeps (ids_from (nextId s)) m \<Longrightarrow> m s = (r, s') \<Longrightarrow> nextId s \<le> nextId s'"
  using keeps_apply [of "ids_from (nextId s)" m s r s'] by (simp add: ids_from_def)

lemma reconcile_active_frame:
  assumes "seqE (reconcileWakeupIfActive E) (\<lambda>_. ret x) s = (r, s')" "\<not> disposed s'"
  shows "readyTasks s' = readyTasks s \<and> nativeRequests s' = nativeRequests s \<and> timers s' = timers s \<and>
    immediates s' = immediates s"
proof (cases "disposed s")
  case False
  then have "\<exists>q. tryE (seqE (readNow E) (reconcileWakeupAt E)) (\<lambda>e. fail E (normalizeWakeupError e)) s =
      (q, s')"
    using assms(1) by (auto simp: reconcileWakeupIfActive_def seqE_def [of "reconcileWakeupIfActive E"]
        ret_def split: prod.splits sum.splits)
  then obtain now s1 where "readNow E s = (Inr now, s1)" "reconcileWakeupAt E now s1 = (Inr (), s')"
    using assms(2) by (auto simp: tryE_def fail_def seqE_def split: prod.splits sum.splits)
  then show ?thesis using readNow_frame requestWakeup_frame by (fastforce simp: reconcileWakeupAt_def)
qed (use assms in \<open>simp add: reconcileWakeupIfActive_def seqE_def ret_def\<close>)

section \<open>Admissions and cancellations, as the facades see them\<close>

lemma setTimer_error:
  assumes "setTimer E c d iv r s = (Inl e, s')"
  shows "disposed s' \<or> timers s' = timers s"
proof -
  have now: "hoare (\<lambda>s. timers s = ts) (readNow E) (\<lambda>_ s. timers s = ts) (\<lambda>_ s. disposed s \<or> timers s = ts)" for ts
    by (auto simp: hoare_def readNow_def Let_def fail_def split: prod.split sum.split jsnum.split)
  have add: "hoare P (addTimer E c now d iv r) (\<lambda>_ _. True) (\<lambda>_. disposed)" for P c now d iv r
    by (auto simp: hoare_def addTimer_def allocateId_def allocateSequence_def commitWakeupAdmission_def fail_def
        monad_defs Let_def split: prod.split sum.split)
  have norm: "hoare (\<lambda>s. timers s = ts) (normalizeDelay E m v z) (\<lambda>_ s. timers s = ts)
      (\<lambda>_ s. disposed s \<or> timers s = ts)" for ts m v z
    by (auto simp: hoare_def normalizeDelay_def monad_defs split: jsnum.split)
  have "hoare (\<lambda>t. timers t = timers s) (setTimer E c d iv r) (\<lambda>_ _. True)
      (\<lambda>_ t. disposed t \<or> timers t = timers s)"
    unfolding setTimer_def
    by (rule hoare_seq [where R = "\<lambda>_ t. timers t = timers s"],
        simp add: hoare_def assertAcceptingWork_def,
        rule hoare_seq [where R = "\<lambda>_ t. timers t = timers s"],
        simp add: hoare_def assertCallback_def monad_defs split: option.split,
        rule hoare_seq [OF now], rule hoare_seq [OF norm], cases iv)
       (auto intro!: hoare_post [OF add] hoare_seq [OF norm])
  from hoareD_err [OF this _ assms] show ?thesis by simp
qed

lemma clearTimer_result:
  assumes "clearTimer E i s = (r, s')" "\<not> disposed s'"
  shows "timers s' = filter (\<lambda>t. tm_id t \<noteq> i) (timers s)"
  using assms reconcile_active_frame [of E _ "delete_timer i s" r s']
  by (auto simp: clearTimer_def Let_def delete_timer_def ret_def split: if_splits)

lemma cancelTask_result:
  assumes "cancelTask E i s = (r, s')" "\<not> disposed s'"
  shows "immediates s' = (case tasksById s i of Some (ImmediateTask t) \<Rightarrow> remove1 t (immediates s)
    | _ \<Rightarrow> immediates s)"
proof (cases "tasksById s i")
  case (Some k)
  then have "seqE (reconcileWakeupIfActive E) (\<lambda>_. ret True)
      (unlist_task k (s\<lparr>tasksById := (tasksById s)(i := None)\<rparr>)) = (r, s')"
    using assms(1) by (simp add: cancelTask_def)
  from reconcile_active_frame [OF this assms(2)] show ?thesis
    using Some by (simp add: unlist_task_def split: task.split)
qed (use assms in \<open>simp add: cancelTask_def\<close>)

section \<open>Native requests\<close>

lemma find_delete_request [simp]: "find_request r (delete_request r s) = None"
  by (auto simp: find_request_def delete_request_def map_of_eq_None_iff)

lemma delete_request_fields [simp]:
  "readyTasks (delete_request r s) = readyTasks s" "tasksById (delete_request r s) = tasksById s"
  by (simp_all add: delete_request_def)

lemma enqueueReadyTaskAt_result:
  assumes "enqueueReadyTaskAt E k c ref now n io s = (Inr i, s')"
  shows "i = nextId s \<and> nativeRequests s' = nativeRequests s \<and>
    readyTasks s' = readyTasks s @ [\<lparr>rt_callback = c, rt_ioCallback = io, rt_id = nextId s, rt_kind = k,
      rt_nativeRequestId = n, rt_readyAt = now, rt_ref = ref, rt_sequence = nextSequence s\<rparr>]"
proof -
  let ?t = "\<lparr>rt_callback = c, rt_ioCallback = io, rt_id = nextId s, rt_kind = k,
      rt_nativeRequestId = n, rt_readyAt = now, rt_ref = ref, rt_sequence = nextSequence s\<rparr>"
  let ?s = "push_ready ?t (s\<lparr>nextId := nextId s + 1, nextSequence := nextSequence s + 1\<rparr>)"
  have "seqE (commitWakeupAdmission E now (drop_ready ?t)) (\<lambda>_. ret (nextId s)) ?s = (Inr i, s')"
    using assms by (simp add: enqueueReadyTaskAt_def seqE_def [of allocateId] seqE_def [of allocateSequence]
        allocateId_def allocateSequence_def Let_def)
  from commit_result [OF this] obtain w where "i = nextId s" "requestWakeup E w ?s = (Inr (), s')" by blast
  then show ?thesis using requestWakeup_frame by (fastforce simp: push_ready_def)
qed

text \<open>A completion takes the request out of the pending ones and queues one ready task for it.\<close>

lemma completeNativeRequest_result:
  assumes "completeNativeRequest E r callback ref s = (Inr i, s')"
  shows "find_request r s \<noteq> None \<and> find_request r s' = None \<and>
    (\<exists>c now. callback = Some c \<and> readyTasks s' = readyTasks s @ [\<lparr>rt_callback = c, rt_ioCallback = False,
      rt_id = i, rt_kind = NativeCompletion, rt_nativeRequestId = Some r, rt_readyAt = now,
      rt_ref = (case ref of None \<Rightarrow> the (find_request r s) | Some b \<Rightarrow> b), rt_sequence = nextSequence s\<rparr>])"
proof -
  obtain c pr where c: "callback = Some c" "find_request r s = Some pr" and
    rest: "seqE (readNow E) (\<lambda>now. seqE (gets (find_request r)) (\<lambda>still.
          seqE (guardE (still \<noteq> None) (EventLoopNativeRequestNotPendingError r)) (\<lambda>_.
          seqE (modify (delete_request r)) (\<lambda>_. enqueueReadyTaskAt E NativeCompletion c
              (case ref of None \<Rightarrow> pr | Some b \<Rightarrow> b) now (Some r) False)))) s = (Inr i, s')"
    using assms by (auto simp: completeNativeRequest_def seqE_def [of assertAcceptingWork]
        assertAcceptingWork_def assertRequestId_def guardE_def assertCallback_def throw_def
        split: option.splits if_splits)
  from rest obtain now s1 where now: "readNow E s = (Inr now, s1)" and
    rest: "seqE (gets (find_request r)) (\<lambda>still.
          seqE (guardE (still \<noteq> None) (EventLoopNativeRequestNotPendingError r)) (\<lambda>_.
          seqE (modify (delete_request r)) (\<lambda>_. enqueueReadyTaskAt E NativeCompletion c
              (case ref of None \<Rightarrow> pr | Some b \<Rightarrow> b) now (Some r) False))) s1 = (Inr i, s')"
    by (rule seqE_InrE)
  have "enqueueReadyTaskAt E NativeCompletion c (case ref of None \<Rightarrow> pr | Some b \<Rightarrow> b) now (Some r) False
      (delete_request r s1) = (Inr i, s')"
    using rest by (auto simp: guardE_def throw_def split: if_splits)
  from enqueueReadyTaskAt_result [OF this] show ?thesis
    using c readNow_frame [OF now] find_delete_request [of r s1]
    by (auto simp: find_request_def delete_request_def split: option.split)
qed

lemma cancel_completions_index:
  "cancel_completions r ts m = (ts', m', c) \<Longrightarrow> i \<notin> rt_id ` set ts \<Longrightarrow> m' i = m i"
  by (induction ts arbitrary: ts' m' c) (auto simp: Let_def split: prod.splits if_splits)

lemma cancel_completions_filter:
  assumes "cancel_completions r ts m = (ts', m', c)" "distinct (map rt_id ts)" "\<forall>t \<in> set ts. m (rt_id t) \<noteq> None"
  shows "ts' = filter (\<lambda>t. \<not> (rt_kind t = NativeCompletion \<and> rt_nativeRequestId t = Some r)) ts"
  using assms
proof (induction ts arbitrary: ts' m' c)
  case (Cons t ts)
  obtain us n d where rec: "cancel_completions r ts m = (us, n, d)" by (metis prod_cases3)
  have "n (rt_id t) \<noteq> None" using cancel_completions_index [OF rec, of "rt_id t"] Cons.prems by auto
  then show ?case using Cons.IH [OF rec] Cons.prems rec by (auto simp: Let_def split: if_splits)
qed simp

lemma cancelNativeRequest_result:
  assumes "loop_inv E D s" "cancelNativeRequest E r s = (x, s')"
  shows "find_request r s' = None \<and> readyTasks s' = (if disposed s' then [] else
    filter (\<lambda>t. \<not> (rt_kind t = NativeCompletion \<and> rt_nativeRequestId t = Some r)) (readyTasks s))"
proof -
  have inv: "loop_inv E D s'" by (rule keeps_apply [OF cancelNativeRequest_keeps assms])
  obtain rts m any where c: "cancel_completions r (readyTasks s) (tasksById s) = (rts, m, any)"
    by (metis prod_cases3)
  have rts: "rts = filter (\<lambda>t. \<not> (rt_kind t = NativeCompletion \<and> rt_nativeRequestId t = Some r)) (readyTasks s)"
    by (rule cancel_completions_filter [OF c inv_distinct(2) [OF assms(1)] synced_index(1) [OF assms(1)]])
  let ?s = "(delete_request r s)\<lparr>readyTasks := rts, tasksById := m\<rparr>"
  have none: "find_request r ?s = None"
    using find_delete_request [of r s] by (simp add: find_request_def delete_request_def)
  have "seqE (if find_request r s \<noteq> None \<or> any then reconcileWakeupIfActive E else ret ())
      (\<lambda>_. ret (find_request r s \<noteq> None \<or> any)) ?s = (x, s')"
    using assms(2) by (simp add: cancelNativeRequest_def Let_def c)
  then have "\<not> disposed s' \<Longrightarrow> readyTasks s' = rts \<and> nativeRequests s' = nativeRequests ?s"
    using reconcile_active_frame [of E _ ?s x s'] by (auto simp: ret_def split: if_splits)
  moreover have "disposed s' \<Longrightarrow> readyTasks s' = [] \<and> nativeRequests s' = []"
    using inv by (simp add: loop_inv_def quiet_if_disposed_def)
  ultimately show ?thesis using rts none by (auto simp: find_request_def)
qed

end
