(* ===== verification/Loop_Properties.thy ===== *)
theory Loop_Properties
  imports Loop_Results
begin

text \<open>
  The properties of the event loop, each with a run of the model on a concrete host whose
  clock advances by one millisecond at every reading.
\<close>

section \<open>A concrete host\<close>

definition tick_env :: "(nat \<Rightarrow> (nat, rat) prog) \<Rightarrow> (nat, rat) env" where
  "tick_env b =
     \<lparr>port_now = (\<lambda>w. (Inr (Fin w), w + 1)), port_requestWakeup = (\<lambda>_ _ w. (None, w)),
      port_checkpointMicrotasks = Done, port_terminate = (\<lambda>_ w. (None, w)),
      maxCallbacksPerTurn = 4, maxTimerDelayMs = 1000, minimumIntervalMs = 1, body = b,
      observer_body = (\<lambda>_ _. Done)\<rparr>"

fun run_calls :: "('c, 'w) env \<Rightarrow> 'c api list \<Rightarrow> ('c, 'w) loop \<Rightarrow> ('c, 'w) loop" where
  "run_calls E [] s = s"
| "run_calls E (a # as) s = run_calls E as (snd (host_call E a s))"

lemma run_calls_reachable: "reachable E s \<Longrightarrow> reachable E (run_calls E as s)"
proof (induction E as s rule: run_calls.induct)
  case (2 E a as s)
  have "loop_step E s (snd (host_call E a s))" by (rule loop_step.host [where r = "fst (host_call E a s)"]) simp
  with 2 show ?case by (auto intro: reachable.step)
qed simp

lemma run_calls_steps: "(loop_step E)\<^sup>*\<^sup>* s (run_calls E as s)"
proof (induction E as s rule: run_calls.induct)
  case (2 E a as s)
  have "loop_step E s (snd (host_call E a s))" by (rule loop_step.host [where r = "fst (host_call E a s)"]) simp
  with 2 show ?case by (auto intro: converse_rtranclp_into_rtranclp)
qed simp

lemma tick_env_ok: "env_ok (tick_env b)"
  by (simp add: env_ok_def tick_env_def)

lemma tick_env_clock: "clock_total (tick_env b)"
  by (simp add: clock_total_def tick_env_def)

definition demo :: "(nat, rat) env" where
  "demo = tick_env (\<lambda>_. Done)"

definition busy :: "(nat, rat) loop" where
  "busy = run_calls demo
     [EnqueueMacrotask (Some 1) None, EnqueueImmediate (Some 2) None,
      SetTimer (Some 3) (Fin 5) (Some (Fin 5)) None, EnqueueNextTick (Some 4) None,
      RegisterNativeRequest ''r'' None] (initial_loop 0)"

lemmas turn_unfold = runTurn_def run_guarded_def runActiveTurn_def work_phase_def finish_phase_def
  settle_phase_def takeReadyTask_def takeIoBatch_def takeCheckOrOrdinary_def takeOrdinaryReadyTask_def
  executeCallback_def checkpointMicrotasks_def selected_callback_def selected_kind_def advance_selected_def
  advanceIntervalDeadline_def find_timer_def update_timer_def drainNextTicks.simps takeNextTick_def
  hasRunnableNextTick_def createSnapshot_def activeImmediates_def activeNextTicks_def activeReadyTasks_def
  requestWakeup_def readNow_def before_def turn_result_of_def monad_defs Let_def

lemmas admit_unfold = host_call_def reply_of_def setTimer_def
      addTimer_def assertAcceptingWork_def assertCallback_def normalizeDelay_def allocateId_def
      allocateSequence_def put_timer_def push_immediate_def enqueueImmediate_def commitWakeupAdmission_def
      reconcileWakeupAt_def initial_loop_def ref_or_true_def 
      enqueueMacrotask_def enqueueReadyTask_def
      enqueueReadyTaskAt_def push_ready_def enqueueNextTick_def push_tick_def
      registerNativeRequest_def assertRequestId_def find_request_def

text \<open>The loop itself, so that the runs below start from a value.\<close>

lemma busy_value [code]:
  "busy =
     \<lparr>activeImmediateBatchCutoff = None, activeIoBatchCutoff = None,
      immediates = [\<lparr>im_callback = 2, im_id = 2, im_ref = True, im_sequence = 2\<rparr>],
      lifecycleObservers = [], nativeRequests = [(''r'', True)],
      nextTicks = [\<lparr>nt_callback = 4, nt_id = 4, nt_ref = True\<rparr>],
      readyTasks = [\<lparr>rt_callback = 1, rt_ioCallback = False, rt_id = 1, rt_kind = Macrotask,
        rt_nativeRequestId = None, rt_readyAt = 0, rt_ref = True, rt_sequence = 1\<rparr>],
      tasksById = [1 \<mapsto> ReadyTask \<lparr>rt_callback = 1, rt_ioCallback = False, rt_id = 1, rt_kind = Macrotask,
        rt_nativeRequestId = None, rt_readyAt = 0, rt_ref = True, rt_sequence = 1\<rparr>,
        2 \<mapsto> ImmediateTask \<lparr>im_callback = 2, im_id = 2, im_ref = True, im_sequence = 2\<rparr>,
        4 \<mapsto> NextTickTask \<lparr>nt_callback = 4, nt_id = 4, nt_ref = True\<rparr>],
      timers = [\<lparr>tm_callback = 3, tm_dueAt = 7, tm_id = 3, tm_intervalMs = Some 5, tm_ref = True,
                  tm_sequence = 3\<rparr>],
       disposed = False, lastNow = Some 4, nextId = 5, nextSequence = 4, runningTurn = False,
       scheduledWakeupAt = Some (Some 4), scheduledWakeupPhase = Some (Some Phase_next_tick),
       world = 5\<rparr>"
  by (simp add: busy_def demo_def tick_env_def admit_unfold turn_unfold eval_nat_numeral)

lemma busy_reachable: "reachable demo busy"
  unfolding busy_def by (rule run_calls_reachable [OF reachable.start])

lemma demo_ok: "env_ok demo" "clock_total demo"
  by (simp_all add: demo_def tick_env_ok tick_env_clock)

lemma busy_inv: "loop_inv demo {} busy"
  by (rule reachable_inv [OF busy_reachable demo_ok(1)])

lemma busy_live: "\<not> disposed busy"
  by code_simp

section \<open>The state\<close>

text \<open>C1: every loop the host and the callbacks can reach is well formed: \<open>tasksById\<close> holds exactly
  the tasks of the three queues, no id and no sequence number is used twice, the queues are in
  admission order and no ready time lies ahead of the clock, intervals are within the
  configured bounds, and a disposed loop holds no work and no observer.\<close>

theorem event_loop_well_formed:
  assumes "reachable E s" "env_ok E"
  shows "tasks_agree s \<and> ids_ok {} s \<and> seqs_ok s \<and> order_ok s \<and> clock_ok s \<and> timers_ok E s \<and>
    names_ok s \<and> quiet_if_disposed s"
  using reachable_inv [OF assms] by (simp only: loop_inv_def)

theorem event_loop_well_formed_witness:
  "tasks_agree busy \<and> ids_ok {} busy \<and> map rt_id (readyTasks busy) = [1] \<and>
   map im_id (immediates busy) = [2] \<and> map tm_id (timers busy) = [3] \<and> map nt_id (nextTicks busy) = [4]"
proof -
  have "map rt_id (readyTasks busy) = [1] \<and> map im_id (immediates busy) = [2] \<and>
      map tm_id (timers busy) = [3] \<and> map nt_id (nextTicks busy) = [4]" by code_simp
  then show ?thesis using event_loop_well_formed [OF busy_reachable demo_ok(1)] by blast
qed

section \<open>Selection\<close>

text \<open>C2: ordinary work runs in the order of its time, ties broken by admission: among the ready tasks
  and the due timers admitted before the limit, \<open>takeOrdinaryReadyTask\<close> takes the one that is
  earlier than all others, and takes nothing only when there is none.\<close>

theorem ordinary_selection_order:
  assumes "reachable E s" "env_ok E"
  shows "case fst (takeOrdinaryReadyTask now limit s) of
      None \<Rightarrow> candidates now limit s = {}
    | Some c \<Rightarrow> c \<in> candidates now limit s \<and> (\<forall>d \<in> candidates now limit s. d = c \<or> earlier c d)"
  by (rule takeOrdinary_least [OF reachable_inv [OF assms] prod.collapse [symmetric]])

theorem ordinary_selection_order_witness:
  "\<exists>c. fst (takeOrdinaryReadyTask 20 None busy) = Some c \<and> sel_id c = 1 \<and>
     (\<forall>d \<in> candidates 20 None busy. d = c \<or> earlier c d)"
proof -
  have "case fst (takeOrdinaryReadyTask 20 None busy) of None \<Rightarrow> False | Some c \<Rightarrow> sel_id c = 1"
    by code_simp
  then show ?thesis
    using ordinary_selection_order [OF busy_reachable demo_ok(1), of 20 None] by (auto split: option.splits)
qed

text \<open>C5: the check phase: an immediate that runs is the oldest one (first in, first out), and when
  an immediate waits and no I/O batch is active, the turn runs that immediate or ordinary work
  that was admitted before it.\<close>

theorem check_phase_order:
  assumes "reachable E s" "env_ok E" "\<not> disposed s" "takeReadyTask now s = (x, s')"
  shows "(\<forall>t. x = Some (SelImmediate t) \<longrightarrow> (\<exists>ts. immediates s = t # ts \<and> immediates s' = ts)) \<and>
    (\<forall>im ims. immediates s = im # ims \<and> activeIoBatchCutoff s = None \<longrightarrow>
       (\<exists>c. x = Some c \<and> (c = SelImmediate im \<or> sel_sequence c < im_sequence im)))"
  using take_immediate_head [of E "{}" s now _ s'] check_phase_bound [of E "{}" s _ _ now x s']
    reachable_inv [OF assms(1,2)] assms(3,4) by blast

theorem check_phase_order_witness:
  "\<exists>im ims c. immediates busy = im # ims \<and> fst (takeReadyTask 20 busy) = Some c \<and>
     (c = SelImmediate im \<or> sel_sequence c < im_sequence im)"
proof -
  have "activeIoBatchCutoff busy = None" "immediates busy = hd (immediates busy) # tl (immediates busy)"
    by code_simp+
  then show ?thesis
    using check_phase_order [OF busy_reachable demo_ok(1) busy_live prod.collapse [symmetric], of 20]
    by metis
qed

section \<open>Cancellation\<close>

text \<open>C4: a cancelled task is gone for good: once \<open>cancelTask\<close> answered true, no later step of the host,
  the callbacks or the world brings the id back into a queue or hands it out again.\<close>

theorem cancelled_task_never_returns:
  assumes "reachable E s" "env_ok E" "host_call E (CancelTask i) s = (Inr (RBool True), s1)"
    "(loop_step E)\<^sup>*\<^sup>* s1 s2"
  shows "i \<notin> set (ids s2) \<and> tasksById s2 i = None \<and> i < nextId s2"
proof -
  note inv = reachable_inv [OF assms(1,2)]
  have c: "cancelTask E i s = (Inr True, s1)"
    using assms(3) by (auto simp: host_call_def reply_of_def seqE_def ret_def split: prod.splits sum.splits)
  have "loop_inv E {i} s1"
    using cancelTask_retires [OF inv c] retired_inv keeps_apply [OF cancelTask_keeps inv c] by blast
  then have s2: "loop_inv E {i} s2" by (rule retired_steps [OF assms(4,2)])
  have "tasksById s2 i = None"
  proof (cases "tasksById s2 i")
    case (Some t)
    then have "t \<in> queued s2" "task_id t = i"
      using s2 by (auto simp: loop_inv_def tasks_agree_def dest: indexed_lookup)
    then show ?thesis using queued_id [of t s2] s2 by (simp add: loop_inv_def ids_ok_def)
  qed
  then show ?thesis using s2 by (simp add: loop_inv_def ids_ok_def)
qed

theorem cancelled_task_never_returns_witness:
  "tasksById (run_calls demo [RunTurn, EnqueueMacrotask (Some 7) None] (snd (host_call demo (CancelTask 1) busy))) 1 = None"
proof -
  have c: "host_call demo (CancelTask 1) busy = (Inr (RBool True), snd (host_call demo (CancelTask 1) busy))"
  proof -
    have "fst (host_call demo (CancelTask 1) busy) = Inr (RBool True)" by code_simp
    then show ?thesis by (simp add: prod_eq_iff)
  qed
  show ?thesis
    using cancelled_task_never_returns [OF busy_reachable demo_ok(1) c run_calls_steps] by blast
qed

section \<open>Termination\<close>

text \<open>C6: a disposed loop is final: every call of the API answers the same fixed value (an error for an
  admission, false for a cancellation, the shutdown result for a turn) and changes nothing.\<close>

theorem disposed_loop_is_final:
  assumes "reachable E s" "env_ok E" "disposed s"
  shows "host_call E a s = (disposed_reply a, s)"
  by (rule host_disposed [OF reachable_inv [OF assms(1,2)] assms(3)])

theorem disposed_loop_is_final_witness:
  "fst (host_call demo (EnqueueImmediate (Some 1) None) (run_calls demo [Shutdown] busy)) =
     Inl EventLoopDisposedError"
proof -
  have "disposed (run_calls demo [Shutdown] busy)" by code_simp
  from disposed_loop_is_final [OF run_calls_reachable [OF busy_reachable] demo_ok(1) this]
  show ?thesis by simp
qed

text \<open>C3: no wakeup is lost: while a loop that is not disposed has work that keeps it alive, the deadline
  its host last accepted is not later than the one the snapshot asks for, at any time from the
  last reading of the clock on (for a host whose clock does not throw).\<close>

theorem no_lost_wakeup:
  assumes "reachable E s" "clock_total E" "\<not> disposed s"
    "lastNow s = Some seen" "seen \<le> now" "nextWakeupAt (createSnapshot now s) = Some n"
  shows "\<exists>d \<le> n. scheduledWakeupAt s = Some (Some d)"
proof -
  have "isAlive (createSnapshot 0 s)"
    using assms(6) isAlive_now [of now s 0] by (auto simp: snapshot_deadline split: if_splits)
  with reachable_awake [OF assms(1,2)] assms(3,4) obtain t where t: "t \<le> seen" "armed t s"
    by (auto simp: awake_def)
  then show ?thesis using deadline_mono [OF assms(6), of t] assms(5) by (auto simp: armed_def)
qed

theorem no_lost_wakeup_witness:
  "\<exists>d \<le> 4. scheduledWakeupAt busy = Some (Some d)"
proof -
  have "lastNow busy = Some 4" "nextWakeupAt (createSnapshot 4 busy) = Some 4" by code_simp+
  from no_lost_wakeup [OF busy_reachable demo_ok(2) busy_live this(1) _ this(2)] show ?thesis by simp
qed

section \<open>Turns\<close>

text \<open>what a turn reports: at most the budget of callbacks ran, none when no kind of task is named,
  the status is \<open>shutdown\<close> exactly when the loop is disposed, \<open>idle\<close> exactly when nothing was
  selected, and the pending, alive and wakeup fields are the snapshot of the loop it leaves.\<close>

theorem turn_reports_the_loop:
  assumes "runTurn E s = (Inr r, s')"
  shows "callbacksProcessed r \<le> maxCallbacksPerTurn E \<and>
    (taskKind r = None \<longrightarrow> callbacksProcessed r = 0) \<and>
    (status r = Status_shutdown \<longleftrightarrow> disposed s') \<and>
    (status r \<noteq> Status_shutdown \<longrightarrow> (status r = Status_idle \<longleftrightarrow> taskKind r = None) \<and> describes r s')"
  using run_guarded_result [of E False s r s'] assms by (simp add: runTurn_def turn_spec_def)

theorem turn_reports_the_loop_witness:
  "\<exists>r. fst (runTurn demo busy) = Inr r \<and> callbacksProcessed r \<le> 4 \<and> taskKind r = Some Kind_next_tick"
proof -
  have "case fst (runTurn demo busy) of Inl e \<Rightarrow> False | Inr r \<Rightarrow> taskKind r = Some Kind_next_tick"
    by code_simp
  then obtain r where r: "fst (runTurn demo busy) = Inr r" "taskKind r = Some Kind_next_tick"
    by (auto split: sum.splits)
  then have "runTurn demo busy = (Inr r, snd (runTurn demo busy))" by (simp add: prod_eq_iff)
  from turn_reports_the_loop [OF this] have "callbacksProcessed r \<le> 4" by (simp add: demo_def tick_env_def)
  then show ?thesis using r by blast
qed

text \<open>C7: a turn that throws has disposed the loop, unless it was refused because one was running (for
  a host whose clock does not throw).\<close>

theorem fatal_turn_disposes:
  assumes "reachable E s" "clock_total E" "runTurn E s = (Inl e, s')"
  shows "disposed s' \<or> e = EventLoopReentrantTurnError"
  using hoareD_err [OF run_guarded_awake [OF assms(2)] reachable_awake [OF assms(1,2)]] assms(3)
  by (auto simp: runTurn_def)

definition failing :: "(nat, rat) env" where
  "failing = tick_env (\<lambda>_. Throw (Foreign 0))"

theorem fatal_turn_disposes_witness:
  "disposed (run_calls failing [EnqueueMacrotask (Some 1) None, RunTurn] (initial_loop 0))"
proof -
  define s where "s = run_calls failing [EnqueueMacrotask (Some 1) None] (initial_loop 0)"
  have "reachable failing s" unfolding s_def by (rule run_calls_reachable [OF reachable.start])
  moreover have "clock_total failing" by (simp add: failing_def tick_env_clock)
  moreover have "case fst (runTurn failing s) of Inl (EventLoopCallbackError _) \<Rightarrow> True | _ \<Rightarrow> False"
    unfolding s_def by code_simp
  then obtain e where "fst (runTurn failing s) = Inl (EventLoopCallbackError e)"
    by (auto split: sum.splits thrown.splits)
  then have "runTurn failing s = (Inl (EventLoopCallbackError e), snd (runTurn failing s))"
    by (simp add: prod_eq_iff)
  ultimately have "disposed (snd (runTurn failing s))" using fatal_turn_disposes by blast
  moreover have "snd (host_call failing RunTurn s) = snd (runTurn failing s)"
    by (simp add: host_call_def reply_of_def seqE_def ret_def split: prod.split sum.split)
  ultimately show ?thesis by (simp add: s_def)
qed

text \<open>C15: next ticks come before microtasks: when the work of a turn has run and the loop is not disposed,
  the queue of next ticks is empty before the microtask checkpoint starts.\<close>

theorem next_ticks_before_microtasks:
  assumes "work_phase E only now s = (Inr (n, Some kind, sel), s')"
  shows "disposed s' \<or> nextTicks s' = []"
  using work_phase_result [OF assms] by simp

theorem next_ticks_before_microtasks_witness:
  "disposed (snd (work_phase demo False 4 busy)) \<or> nextTicks (snd (work_phase demo False 4 busy)) = []"
proof -
  have "case fst (work_phase demo False 4 busy) of Inr (n, Some k, sel) \<Rightarrow> True | _ \<Rightarrow> False" by code_simp
  then obtain n k sel where "fst (work_phase demo False 4 busy) = Inr (n, Some k, sel)"
    by (auto split: sum.splits option.splits)
  then have "work_phase demo False 4 busy = (Inr (n, Some k, sel), snd (work_phase demo False 4 busy))"
    by (simp add: prod_eq_iff)
  then show ?thesis by (rule next_ticks_before_microtasks)
qed

section \<open>Timers and native requests\<close>

text \<open>a timer that is set is stored once, with a fresh id, due after the delay rounded up and clamped
  to the configured maximum, and with the interval clamped to the configured bounds; a callback
  that is not a function, and a delay or interval that is negative or not finite, is refused.\<close>

theorem setTimer_stores_the_timer:
  assumes "setTimer E callback delay interval ref s = (Inr i, s')"
  shows "\<exists>c q now iv. callback = Some c \<and> delay = Fin q \<and> 0 \<le> q \<and> i = nextId s \<and> lastNow s' = Some now \<and>
     (case interval of None \<Rightarrow> iv = None
        | Some v \<Rightarrow> \<exists>p. v = Fin p \<and> 0 \<le> p \<and>
            iv = Some (min (maxTimerDelayMs E) (max (minimumIntervalMs E) (of_int \<lceil>p\<rceil>)))) \<and>
     timers s' = timers s @ [\<lparr>tm_callback = c,
       tm_dueAt = now + min (maxTimerDelayMs E) (max 0 (of_int \<lceil>q\<rceil>)), tm_id = i,
       tm_intervalMs = iv, tm_ref = ref_or_true ref, tm_sequence = nextSequence s\<rparr>]"
  using setTimer_result [OF assms] unfolding timer_delay_def timer_interval_def .

theorem setTimer_stores_the_timer_witness:
  "\<exists>t. timers (snd (setTimer demo (Some 9) (Fin (5/2)) None None (initial_loop 7))) = [t] \<and> tm_dueAt t = 10"
proof -
  let ?m = "setTimer demo (Some 9) (Fin (5/2)) None None (initial_loop 7)"
  have "case fst ?m of Inr i \<Rightarrow> i = 1 \<and> lastNow (snd ?m) = Some 7 | _ \<Rightarrow> False" by code_simp
  then have "?m = (Inr 1, snd ?m)" "lastNow (snd ?m) = Some 7" by (auto simp: prod_eq_iff split: sum.splits)
  moreover have "maxTimerDelayMs demo = 1000" "timers (initial_loop 7 :: (nat, rat) loop) = []"
    by (simp_all add: demo_def tick_env_def initial_loop_def)
  moreover have "min 1000 (max 0 (of_int \<lceil>5 / 2 :: rat\<rceil>)) = (3 :: rat)" by code_simp
  ultimately show ?thesis using setTimer_stores_the_timer by fastforce
qed

text \<open>C16: an interval that fired moves to its next deadline: strictly after the present, at most one
  interval ahead, a whole number of intervals after the old one (missed ones are skipped, not
  run late), and no other timer moves.\<close>

theorem interval_skips_missed_deadlines:
  assumes "find_timer i s = Some t" "tm_intervalMs t = Some iv" "0 < iv" "tm_dueAt t \<le> now"
  shows "\<exists>k :: nat. let due = tm_dueAt t + (of_nat k + 1) * iv in
     now < due \<and> due \<le> now + iv \<and>
     find_timer i (advanceIntervalDeadline i now s) = Some (t\<lparr>tm_dueAt := due\<rparr>) \<and>
     (\<forall>j. j \<noteq> i \<longrightarrow> find_timer j (advanceIntervalDeadline i now s) = find_timer j s)"
  by (rule advance_deadline [OF assms])

theorem interval_skips_missed_deadlines_witness:
  "\<exists>due. 23 < due \<and> due \<le> 23 + 5 \<and>
     find_timer 3 (advanceIntervalDeadline 3 23 busy) = Some ((hd (timers busy))\<lparr>tm_dueAt := due\<rparr>)"
proof -
  have "find_timer 3 busy = Some (hd (timers busy))" "tm_intervalMs (hd (timers busy)) = Some 5"
    "tm_dueAt (hd (timers busy)) \<le> 23" by code_simp+
  from interval_skips_missed_deadlines [OF this(1,2) _ this(3)] show ?thesis unfolding Let_def by fastforce
qed

text \<open>C17: a native request completes at most once: a completion that returns found the request pending,
  removes it, and queues exactly one ready task for it, so a second completion (without a new
  registration) finds nothing.\<close>

theorem native_request_completes_once:
  assumes "completeNativeRequest E r callback ref s = (Inr i, s')"
  shows "find_request r s \<noteq> None \<and> find_request r s' = None \<and>
    (\<exists>c now. callback = Some c \<and> readyTasks s' = readyTasks s @ [\<lparr>rt_callback = c, rt_ioCallback = False,
      rt_id = i, rt_kind = NativeCompletion, rt_nativeRequestId = Some r, rt_readyAt = now,
      rt_ref = (case ref of None \<Rightarrow> the (find_request r s) | Some b \<Rightarrow> b), rt_sequence = nextSequence s\<rparr>])"
  by (rule completeNativeRequest_result [OF assms])

theorem native_request_completes_once_witness:
  "find_request ''r'' busy \<noteq> None \<and>
   find_request ''r'' (snd (completeNativeRequest demo ''r'' (Some 8) None busy)) = None"
proof -
  let ?m = "completeNativeRequest demo ''r'' (Some 8) None busy"
  have "case fst ?m of Inr i \<Rightarrow> True | _ \<Rightarrow> False" by code_simp
  then obtain i where "fst ?m = Inr i" by (auto split: sum.splits)
  then have "?m = (Inr i, snd ?m)" by (simp add: prod_eq_iff)
  from native_request_completes_once [OF this] show ?thesis by blast
qed

text \<open>cancelling a native request forgets it and takes back every completion of it that is still
  queued, and nothing else.\<close>

theorem cancelled_request_leaves_no_completion:
  assumes "reachable E s" "env_ok E" "cancelNativeRequest E r s = (x, s')"
  shows "find_request r s' = None \<and> readyTasks s' = (if disposed s' then [] else
    filter (\<lambda>t. \<not> (rt_kind t = NativeCompletion \<and> rt_nativeRequestId t = Some r)) (readyTasks s))"
  by (rule cancelNativeRequest_result [OF reachable_inv [OF assms(1,2)] assms(3)])

definition completed :: "(nat, rat) loop" where
  "completed = run_calls demo [CompleteNativeRequest ''r'' (Some 8) None] busy"

theorem cancelled_request_leaves_no_completion_witness:
  "length (readyTasks completed) = 2 \<and>
   map rt_id (readyTasks (snd (cancelNativeRequest demo ''r'' completed))) = [1]"
proof -
  have r: "reachable demo completed" unfolding completed_def by (rule run_calls_reachable [OF busy_reachable])
  have "length (readyTasks completed) = 2"
    "\<not> disposed (snd (cancelNativeRequest demo ''r'' completed))"
    "map rt_id (filter (\<lambda>t. \<not> (rt_kind t = NativeCompletion \<and> rt_nativeRequestId t = Some ''r''))
       (readyTasks completed)) = [1]" by code_simp+
  then show ?thesis
    using cancelled_request_leaves_no_completion [OF r demo_ok(1) prod.collapse [symmetric], of "''r''"]
    by simp
qed

section \<open>A repeating timer can starve an immediate\<close>

text \<open>
  The check phase admits ordinary work older than the oldest immediate.  A repeating timer
  keeps the sequence number of its first admission, so when it is due again at every turn it
  is always older than an immediate queued after it.
\<close>

definition starve_env :: "(nat, rat) env" where
  "starve_env = tick_env (\<lambda>_. Done)"

definition starving :: "rat \<Rightarrow> (nat, rat) loop" where
  "starving w =
     (let im = \<lparr>im_callback = 2, im_id = 2, im_ref = True, im_sequence = 2\<rparr> in
      \<lparr>activeImmediateBatchCutoff = None, activeIoBatchCutoff = None, immediates = [im],
       lifecycleObservers = [], nativeRequests = [], nextTicks = [], readyTasks = [],
       tasksById = [2 \<mapsto> ImmediateTask im],
       timers = [\<lparr>tm_callback = 1, tm_dueAt = w, tm_id = 1, tm_intervalMs = Some 1, tm_ref = True,
                  tm_sequence = 1\<rparr>],
       disposed = False, lastNow = Some (w - 1), nextId = 3, nextSequence = 3, runningTurn = False,
       scheduledWakeupAt = Some (Some (w - 1)), scheduledWakeupPhase = Some (Some Phase_event_loop),
       world = w\<rparr>)"

lemma starving_turn:
  assumes "1 \<le> w"
  shows "\<exists>r. runTurn starve_env (starving w) = (Inr r, starving (w + 3)) \<and> taskKind r = Some Kind_timer"
  using assms
  by (simp add: turn_unfold starving_def starve_env_def tick_env_def)

lemma starving_start:
  "run_calls starve_env [SetTimer (Some 1) (Fin 1) (Some (Fin 1)) None, EnqueueImmediate (Some 2) None, RunTurn]
     (initial_loop 0) = starving 5"
  by (simp add: turn_unfold admit_unfold starving_def starve_env_def tick_env_def eval_nat_numeral)


end
