(* ===== verification/Timers.thy ===== *)
theory Timers
  imports Loop_Properties
begin

text \<open>
  The guest facades over the event loop: \<open>createRuntimeTimers\<close> (\<open>timers/runtime-timers.ts\<close>)
  and \<open>createRuntimeImmediate\<close> (\<open>timers/runtime-immediate.ts\<close>).

  Each facade keeps a table from its own handles to the ids of an id-giving port.  What the
  facades need of the port is the locale \<open>work_port\<close>; the bootstraps of the adapters bind the
  timer port to \<open>setTimer\<close> and \<open>clearTimer\<close> of the loop, and the immediate facade calls
  \<open>enqueueImmediate\<close> and \<open>cancelTask\<close>, which are the two interpretations below.
\<close>

section \<open>Timers\<close>

datatype 'e timer_error =
    Timers_disposed
  | Callback_not_function
  | Invalid_identifier
  | Host_threw 'e

text \<open>\<open>RuntimeTimerHostPort\<close>; an identifier is whatever number the host returns.\<close>

record ('s, 'e) timer_host =
  host_schedule :: "rat \<Rightarrow> rat option \<Rightarrow> 's \<Rightarrow> ('e + jsnum) \<times> 's"
  host_cancel :: "jsnum \<Rightarrow> 's \<Rightarrow> ('e + bool) \<times> 's"

record ('f, 'a) timer_entry =
  te_args :: "'a list"
  te_callback :: 'f
  te_interval :: bool

record ('f, 'a, 's) timers_state =
  ts_records :: "(jsnum \<times> ('f, 'a) timer_entry) list"
  ts_disposed :: bool
  ts_host :: 's

definition MAX_DELAY_MS :: rat where
  "MAX_DELAY_MS = 2147483647"

text \<open>The argument is \<open>Number(value ?? 0)\<close>.\<close>

definition normalizeTimerDelay :: "jsnum \<Rightarrow> rat" where
  "normalizeTimerDelay v =
     (case v of Fin q \<Rightarrow> if q \<le> 0 then 0 else min (of_int \<lfloor>q\<rfloor>) MAX_DELAY_MS | _ \<Rightarrow> 0)"

definition createRuntimeTimers :: "'s \<Rightarrow> ('f, 'a, 's) timers_state" where
  "createRuntimeTimers h = \<lparr>ts_records = [], ts_disposed = False, ts_host = h\<rparr>"

definition positive_id :: "jsnum \<Rightarrow> bool" where
  "positive_id n = (num_isSafeInteger n \<and> (case n of Fin q \<Rightarrow> 0 < q | _ \<Rightarrow> False))"

text \<open>A callback that is not a function is \<open>None\<close>.\<close>

definition register ::
    "('s, 'e) timer_host \<Rightarrow> 'f option \<Rightarrow> jsnum \<Rightarrow> bool \<Rightarrow> 'a list \<Rightarrow>
     (('f, 'a, 's) timers_state, 'e timer_error, jsnum) op" where
  "register H callback delay interval args st =
     (if ts_disposed st then (Inl Timers_disposed, st)
      else case callback of
        None \<Rightarrow> (Inl Callback_not_function, st)
      | Some f \<Rightarrow>
          (let d = normalizeTimerDelay delay
           in case host_schedule H d (if interval then Some d else None) (ts_host st) of
                (Inl e, h) \<Rightarrow> (Inl (Host_threw e), st\<lparr>ts_host := h\<rparr>)
              | (Inr i, h) \<Rightarrow>
                  if \<not> positive_id i \<or> i \<in> fst ` set (ts_records st)
                  then (Inl Invalid_identifier, st\<lparr>ts_host := snd (host_cancel H i h)\<rparr>)
                  else (Inr i, st\<lparr>ts_host := h,
                          ts_records := ts_records st @
                            [(i, \<lparr>te_args = args, te_callback = f, te_interval = interval\<rparr>)]\<rparr>)))"

definition drop_key :: "'k \<Rightarrow> ('k \<times> 'v) list \<Rightarrow> ('k \<times> 'v) list" where
  "drop_key k xs = filter (\<lambda>(j, _). j \<noteq> k) xs"

definition clear ::
    "('s, 'e) timer_host \<Rightarrow> jsnum \<Rightarrow> ('f, 'a, 's) timers_state \<Rightarrow> ('f, 'a, 's) timers_state" where
  "clear H i st =
     (if \<not> num_isSafeInteger i \<or> i \<notin> fst ` set (ts_records st) then st
      else st\<lparr>ts_records := drop_key i (ts_records st), ts_host := snd (host_cancel H i (ts_host st))\<rparr>)"

fun cancel_all :: "('s, 'e) timer_host \<Rightarrow> jsnum list \<Rightarrow> 's \<Rightarrow> 's" where
  "cancel_all H [] h = h"
| "cancel_all H (i # is) h = cancel_all H is (snd (host_cancel H i h))"

definition dispose ::
    "('s, 'e) timer_host \<Rightarrow> ('f, 'a, 's) timers_state \<Rightarrow> ('f, 'a, 's) timers_state" where
  "dispose H st =
     (if ts_disposed st then st
      else st\<lparr>ts_disposed := True, ts_records := [],
              ts_host := cancel_all H (map fst (ts_records st)) (ts_host st)\<rparr>)"

text \<open>
  \<open>fire\<close> answers the callback and arguments the guest code is entered with; \<open>None\<close> is the
  answer false.  An interval keeps its record.
\<close>

definition fire ::
    "jsnum \<Rightarrow> ('f, 'a, 's) timers_state \<Rightarrow> ('f \<times> 'a list) option \<times> ('f, 'a, 's) timers_state" where
  "fire i st =
     (if ts_disposed st \<or> \<not> num_isSafeInteger i then (None, st)
      else case map_of (ts_records st) i of
        None \<Rightarrow> (None, st)
      | Some e \<Rightarrow> (Some (te_callback e, te_args e),
                   if te_interval e then st else st\<lparr>ts_records := drop_key i (ts_records st)\<rparr>))"

section \<open>Immediates\<close>

text \<open>
  \<open>createRuntimeImmediate\<close>: a handle is the number of the object created for it.  The loop's
  task runs \<open>run_immediate\<close>, which forgets the handle before it enters the guest callback.
\<close>

record ('s, 'e) immediate_host =
  host_enqueue :: "nat \<Rightarrow> 's \<Rightarrow> ('e + nat) \<times> 's"
  host_cancelTask :: "nat \<Rightarrow> 's \<Rightarrow> ('e + bool) \<times> 's"
  host_setRef :: "nat \<Rightarrow> bool \<Rightarrow> 's \<Rightarrow> ('e + bool) \<times> 's"
  host_hasRef :: "nat \<Rightarrow> 's \<Rightarrow> bool"

record ('f, 'a, 's) immediates_state =
  is_records :: "(nat \<times> nat) list"
  is_callbacks :: "(nat \<times> 'f \<times> 'a list) list"
  is_disposed :: bool
  is_nextHandle :: nat
  is_host :: 's

datatype 'e immediate_error =
    Immediates_disposed
  | ERR_INVALID_ARG_TYPE
  | Loop_threw 'e

definition createRuntimeImmediate :: "'s \<Rightarrow> ('f, 'a, 's) immediates_state" where
  "createRuntimeImmediate h =
     \<lparr>is_records = [], is_callbacks = [], is_disposed = False, is_nextHandle = 0, is_host = h\<rparr>"

definition setImmediate ::
    "('s, 'e) immediate_host \<Rightarrow> 'f option \<Rightarrow> 'a list \<Rightarrow>
     (('f, 'a, 's) immediates_state, 'e immediate_error, nat) op" where
  "setImmediate H callback args st =
     (if is_disposed st then (Inl Immediates_disposed, st)
      else case callback of
        None \<Rightarrow> (Inl ERR_INVALID_ARG_TYPE, st)
      | Some f \<Rightarrow>
          (let h = is_nextHandle st;
               st1 = st\<lparr>is_nextHandle := h + 1, is_callbacks := is_callbacks st @ [(h, f, args)]\<rparr>
           in case host_enqueue H h (is_host st) of
                (Inl e, s) \<Rightarrow> (Inl (Loop_threw e), st1\<lparr>is_host := s\<rparr>)
              | (Inr i, s) \<Rightarrow> (Inr h, st1\<lparr>is_host := s, is_records := is_records st @ [(h, i)]\<rparr>)))"

definition clearImmediate ::
    "('s, 'e) immediate_host \<Rightarrow> nat \<Rightarrow> ('f, 'a, 's) immediates_state \<Rightarrow>
     ('e + unit) \<times> ('f, 'a, 's) immediates_state" where
  "clearImmediate H h st =
     (case map_of (is_records st) h of
        None \<Rightarrow> (Inr (), st)
      | Some i \<Rightarrow>
          (case host_cancelTask H i (is_host st) of
             (Inl e, s) \<Rightarrow> (Inl e, st\<lparr>is_records := drop_key h (is_records st), is_host := s\<rparr>)
           | (Inr _, s) \<Rightarrow> (Inr (), st\<lparr>is_records := drop_key h (is_records st), is_host := s\<rparr>)))"

text \<open>What the loop runs for a handle: the record goes first, then the callback is entered.\<close>

definition run_immediate ::
    "nat \<Rightarrow> ('f, 'a, 's) immediates_state \<Rightarrow>
     ('f \<times> 'a list) option \<times> ('f, 'a, 's) immediates_state" where
  "run_immediate h st =
     (map_of (is_callbacks st) h, st\<lparr>is_records := drop_key h (is_records st)\<rparr>)"

definition hasRef :: "('s, 'e) immediate_host \<Rightarrow> nat \<Rightarrow> ('f, 'a, 's) immediates_state \<Rightarrow> bool" where
  "hasRef H h st =
     (case map_of (is_records st) h of None \<Rightarrow> False | Some i \<Rightarrow> host_hasRef H i (is_host st))"

definition set_ref ::
    "('s, 'e) immediate_host \<Rightarrow> nat \<Rightarrow> bool \<Rightarrow> ('f, 'a, 's) immediates_state \<Rightarrow>
     ('e + unit) \<times> ('f, 'a, 's) immediates_state" where
  "set_ref H h b st =
     (case map_of (is_records st) h of
        None \<Rightarrow> (Inr (), st)
      | Some i \<Rightarrow> (case host_setRef H i b (is_host st) of
                     (Inl e, s) \<Rightarrow> (Inl e, st\<lparr>is_host := s\<rparr>)
                   | (Inr _, s) \<Rightarrow> (Inr (), st\<lparr>is_host := s\<rparr>)))"

text \<open>\<open>dispose\<close> stops at the first cancellation that throws, as the loop there has no handler.\<close>

fun cancel_tasks :: "('s, 'e) immediate_host \<Rightarrow> nat list \<Rightarrow> 's \<Rightarrow> ('e + unit) \<times> 's" where
  "cancel_tasks H [] s = (Inr (), s)"
| "cancel_tasks H (i # is) s =
     (case host_cancelTask H i s of
        (Inl e, s') \<Rightarrow> (Inl e, s') | (Inr _, s') \<Rightarrow> cancel_tasks H is s')"

definition dispose_immediates ::
    "('s, 'e) immediate_host \<Rightarrow> ('s \<Rightarrow> 's) \<Rightarrow> ('f, 'a, 's) immediates_state \<Rightarrow>
     ('e + unit) \<times> ('f, 'a, 's) immediates_state" where
  "dispose_immediates H unsubscribe st =
     (if is_disposed st then (Inr (), st)
      else let (r, s) = cancel_tasks H (map snd (is_records st)) (unsubscribe (is_host st))
           in (r, st\<lparr>is_disposed := True, is_records := [], is_host := s\<rparr>))"

section \<open>What the facades need of the loop\<close>

locale work_port =
  fixes admit :: "'a \<Rightarrow> 's \<Rightarrow> ('e + 'i) \<times> 's"
    and cancel :: "'i \<Rightarrow> 's \<Rightarrow> ('e + bool) \<times> 's"
    and inv :: "'s \<Rightarrow> bool"
    and armed :: "'s \<Rightarrow> 'i set"
    and used :: "'s \<Rightarrow> 'i set"
  assumes admit_ok: "inv s \<Longrightarrow> admit x s = (Inr i, s') \<Longrightarrow>
      inv s' \<and> i \<notin> used s \<and> insert i (used s) \<subseteq> used s' \<and> armed s' \<subseteq> insert i (armed s)"
    and admit_err: "inv s \<Longrightarrow> admit x s = (Inl e, s') \<Longrightarrow>
      inv s' \<and> used s \<subseteq> used s' \<and> armed s' \<subseteq> armed s"
    and cancel: "inv s \<Longrightarrow> cancel i s = (r, s') \<Longrightarrow>
      inv s' \<and> used s \<subseteq> used s' \<and> armed s' \<subseteq> armed s - {i}"
    and cancel_err: "inv s \<Longrightarrow> cancel i s = (Inl e, s') \<Longrightarrow> armed s' = {}"
begin

text \<open>
  \<open>covers K s\<close>: the recorded ids \<open>K\<close> were all handed out, and nothing is armed without a record.
\<close>

definition covers :: "'i set \<Rightarrow> 's \<Rightarrow> bool" where
  "covers K s \<longleftrightarrow> inv s \<and> armed s \<subseteq> K \<and> K \<subseteq> used s"

lemma covers_admit:
  assumes "covers K s" "admit x s = (Inr i, s')"
  shows "i \<notin> K \<and> covers (insert i K) s'"
  using admit_ok [OF _ assms(2)] assms(1) unfolding covers_def by blast

lemma covers_admit_err: "covers K s \<Longrightarrow> admit x s = (Inl e, s') \<Longrightarrow> covers K s'"
  using admit_err unfolding covers_def by blast

lemma covers_cancel: "covers K s \<Longrightarrow> cancel i s = (r, s') \<Longrightarrow> covers (K - {i}) s'"
  using cancel unfolding covers_def by blast

text \<open>An admission that the caller gives up at once leaves the records as they were.\<close>

lemma covers_withdraw:
  assumes "covers K s" "admit x s = (Inr i, s1)" "cancel i s1 = (r, s2)"
  shows "covers K s2"
  using covers_cancel [OF _ assms(3), of "insert i K"] covers_admit [OF assms(1,2)] by simp

lemma covers_forget: "covers K s \<Longrightarrow> i \<notin> armed s \<Longrightarrow> covers (K - {i}) s"
  unfolding covers_def by blast

lemma covers_moves: "covers K s \<Longrightarrow> inv s' \<Longrightarrow> armed s' \<subseteq> armed s \<Longrightarrow> used s \<subseteq> used s' \<Longrightarrow> covers K s'"
  unfolding covers_def by blast

lemma covers_torn_down: "covers K s \<Longrightarrow> cancel i s = (Inl e, s') \<Longrightarrow> covers {} s'"
  using cancel_err cancel unfolding covers_def by blast

lemma covers_cancel_list:
  "covers (set is) s \<Longrightarrow> covers {} (fold (\<lambda>i s. snd (cancel i s)) is s)"
proof (induction "is" arbitrary: s)
  case (Cons i "is")
  have "inv (snd (cancel i s)) \<and> used s \<subseteq> used (snd (cancel i s)) \<and> armed (snd (cancel i s)) \<subseteq> armed s - {i}"
    by (rule cancel [of s i "fst (cancel i s)"]) (use Cons.prems in \<open>simp_all add: covers_def\<close>)
  then have "covers (set is) (snd (cancel i s))" using Cons.prems unfolding covers_def by auto
  then show ?case using Cons.IH by simp
qed (simp add: covers_def)

end

section \<open>The loop as the timer host\<close>

text \<open>
  The binding of the bootstraps: \<open>schedule\<close> is \<open>setTimer\<close> with the interval raised to one
  millisecond, \<open>cancel\<close> is \<open>clearTimer\<close>.  \<open>c\<close> names the closure that calls \<open>fire\<close>.
\<close>

definition id_num :: "nat \<Rightarrow> jsnum" where
  "id_num i = Fin (of_nat i)"

definition num_id :: "jsnum \<Rightarrow> nat option" where
  "num_id n = (case n of Fin q \<Rightarrow> if rat_isInteger q \<and> 0 \<le> q then Some (nat \<lfloor>q\<rfloor>) else None | _ \<Rightarrow> None)"

definition loop_timer_host :: "('c, 'w) env \<Rightarrow> 'c \<Rightarrow> (('c, 'w) loop, thrown) timer_host" where
  "loop_timer_host E c =
     \<lparr>host_schedule = (\<lambda>d iv. seqE (setTimer E (Some c) (Fin d)
          (case iv of None \<Rightarrow> None | Some v \<Rightarrow> Some (Fin (max 1 v))) None) (\<lambda>i. ret (id_num i))),
      host_cancel = (\<lambda>n. case num_id n of None \<Rightarrow> ret False | Some i \<Rightarrow> clearTimer E i)\<rparr>"

lemma num_id_num [simp]: "num_id (id_num i) = Some i"
  by (simp add: num_id_def id_num_def rat_isInteger_def)

lemma num_id_Some: "num_id n = Some i \<Longrightarrow> n = id_num i"
  by (auto simp: num_id_def id_num_def rat_isInteger_def split: jsnum.splits if_splits)

lemma id_num_eq [simp]: "id_num i = id_num j \<longleftrightarrow> i = j"
  by (simp add: id_num_def)

definition armed_timers :: "('c, 'w) loop \<Rightarrow> jsnum set" where
  "armed_timers s = id_num ` tm_id ` set (timers s)"

definition used_ids :: "('c, 'w) loop \<Rightarrow> jsnum set" where
  "used_ids s = id_num ` {i. i < nextId s}"

lemma no_timers_when_disposed: "loop_inv E D s \<Longrightarrow> disposed s \<Longrightarrow> timers s = []"
  by (simp add: loop_inv_def quiet_if_disposed_def)

lemma timer_id_bound: "loop_inv E D s \<Longrightarrow> t \<in> set (timers s) \<Longrightarrow> tm_id t < nextId s"
  by (auto simp: loop_inv_def ids_ok_def ids_def)

lemma schedule_laws:
  assumes "env_ok E" "loop_inv E {} s" "host_schedule (loop_timer_host E c) d iv s = (r, s')"
  shows "loop_inv E {} s' \<and> used_ids s \<subseteq> used_ids s' \<and>
    (case r of
       Inl e \<Rightarrow> armed_timers s' \<subseteq> armed_timers s
     | Inr i \<Rightarrow> i = id_num (nextId s) \<and> i \<in> used_ids s' \<and> armed_timers s' = insert i (armed_timers s))"
proof -
  let ?m = "setTimer E (Some c) (Fin d) (case iv of None \<Rightarrow> None | Some v \<Rightarrow> Some (Fin (max 1 v))) None"
  obtain x where x: "?m s = (x, s')" and r: "r = (case x of Inl e \<Rightarrow> Inl e | Inr i \<Rightarrow> Inr (id_num i))"
    using assms(3) by (auto simp: loop_timer_host_def seqE_def ret_def split: prod.splits sum.splits)
  have inv: "loop_inv E {} s'" by (rule keeps_apply [OF setTimer_keeps [OF assms(1)] assms(2) x])
  have le: "nextId s \<le> nextId s'" by (rule nextId_le [OF ids_from_ops(1) x])
  show ?thesis
  proof (cases x)
    case (Inl e)
    then have "disposed s' \<or> timers s' = timers s" using setTimer_error x by blast
    then have "armed_timers s' \<subseteq> armed_timers s"
      using no_timers_when_disposed [OF inv] by (auto simp: armed_timers_def)
    then show ?thesis using inv le r Inl by (auto simp: used_ids_def)
  next
    case (Inr i)
    with setTimer_result [of E "Some c"] x obtain t where t: "i = nextId s" "timers s' = timers s @ [t]" "tm_id t = i"
      by fastforce
    then show ?thesis using inv le r Inr timer_id_bound [OF inv, of t]
      by (auto simp: used_ids_def armed_timers_def)
  qed
qed

lemma cancel_laws:
  assumes "loop_inv E {} s" "host_cancel (loop_timer_host E c) n s = (r, s')"
  shows "loop_inv E {} s' \<and> used_ids s \<subseteq> used_ids s' \<and> armed_timers s' \<subseteq> armed_timers s - {n}"
proof (cases "num_id n")
  case None
  have "n \<noteq> id_num i" for i using None by auto
  then show ?thesis using assms None by (auto simp: loop_timer_host_def ret_def armed_timers_def)
next
  case (Some i)
  then have c: "clearTimer E i s = (r, s')" using assms(2) by (simp add: loop_timer_host_def)
  have inv: "loop_inv E {} s'" by (rule keeps_apply [OF clearTimer_keeps assms(1) c])
  have "nextId s \<le> nextId s'" by (rule nextId_le [OF ids_from_ops(2) c])
  moreover have "armed_timers s' \<subseteq> armed_timers s - {n}"
    using clearTimer_result [OF c] no_timers_when_disposed [OF inv] num_id_Some [OF Some]
    by (cases "disposed s'") (auto simp: armed_timers_def)
  ultimately show ?thesis using inv by (auto simp: used_ids_def)
qed

lemma reconcile_error: "seqE (reconcileWakeupIfActive E) (\<lambda>_. ret x) s = (Inl e, s') \<Longrightarrow> disposed s'"
proof -
  have "hoare (\<lambda>_. True) (tryE (seqE (readNow E) (reconcileWakeupAt E)) (\<lambda>e. fail E (normalizeWakeupError e)))
      (\<lambda>_ _. True) (\<lambda>_. disposed)"
    by (rule hoare_try [where F = "\<lambda>_ _. True", OF _ fail_disposes])
       (simp add: hoare_def split: prod.split sum.split)
  then have "hoare (\<lambda>_. True) (reconcileWakeupIfActive E) (\<lambda>_ _. True) (\<lambda>_. disposed)"
    by (simp add: hoare_def reconcileWakeupIfActive_def)
  then have h: "hoare (\<lambda>_. True) (seqE (reconcileWakeupIfActive E) (\<lambda>_. ret x)) (\<lambda>_ _. True) (\<lambda>_. disposed)"
    by (rule hoare_seq [OF _ ret_any])
  show "seqE (reconcileWakeupIfActive E) (\<lambda>_. ret x) s = (Inl e, s') \<Longrightarrow> disposed s'"
    by (rule hoareD_err [OF h TrueI])
qed

lemma cancel_errors:
  "cancelTask E i s = (Inl e, s') \<Longrightarrow> disposed s'" "clearTimer E i s = (Inl e, s') \<Longrightarrow> disposed s'"
  by (auto simp: cancelTask_def clearTimer_def Let_def ret_def dest: reconcile_error split: option.splits if_splits)

interpretation loop_timers: work_port
  "\<lambda>(d, iv). host_schedule (loop_timer_host E c) d iv"
  "host_cancel (loop_timer_host E c)"
  "\<lambda>s. env_ok E \<and> loop_inv E {} s" armed_timers used_ids
  for E :: "('c, 'w) env" and c :: 'c
proof
  fix x i and s s' :: "('c, 'w) loop"
  assume "env_ok E \<and> loop_inv E {} s" and
    "(case x of (d, iv) \<Rightarrow> host_schedule (loop_timer_host E c) d iv) s = (Inr i, s')"
  then show "(env_ok E \<and> loop_inv E {} s') \<and> i \<notin> used_ids s \<and> insert i (used_ids s) \<subseteq> used_ids s' \<and>
      armed_timers s' \<subseteq> insert i (armed_timers s)"
    using schedule_laws [of E s c "fst x" "snd x" "Inr i" s'] by (auto simp: used_ids_def split_beta)
next
  fix x e and s s' :: "('c, 'w) loop"
  assume "env_ok E \<and> loop_inv E {} s" and
    "(case x of (d, iv) \<Rightarrow> host_schedule (loop_timer_host E c) d iv) s = (Inl e, s')"
  then show "(env_ok E \<and> loop_inv E {} s') \<and> used_ids s \<subseteq> used_ids s' \<and> armed_timers s' \<subseteq> armed_timers s"
    using schedule_laws [of E s c "fst x" "snd x" "Inl e" s'] by (auto simp: split_beta)
next
  fix i r and s s' :: "('c, 'w) loop"
  assume "env_ok E \<and> loop_inv E {} s" and "host_cancel (loop_timer_host E c) i s = (r, s')"
  then show "(env_ok E \<and> loop_inv E {} s') \<and> used_ids s \<subseteq> used_ids s' \<and>
      armed_timers s' \<subseteq> armed_timers s - {i}"
    using cancel_laws [of E s c i r s'] by simp
next
  fix i e and s s' :: "('c, 'w) loop"
  assume a: "env_ok E \<and> loop_inv E {} s" and h: "host_cancel (loop_timer_host E c) i s = (Inl e, s')"
  then obtain k where "clearTimer E k s = (Inl e, s')"
    by (auto simp: loop_timer_host_def ret_def split: option.splits)
  then have "disposed s'" by (rule cancel_errors(2))
  moreover have "loop_inv E {} s'" using cancel_laws [OF _ h] a by simp
  ultimately show "armed_timers s' = {}"
    using no_timers_when_disposed [of E "{}" s'] by (simp add: armed_timers_def)
qed

section \<open>The loop as the immediate host\<close>

definition loop_immediate_host :: "('c, 'w) env \<Rightarrow> (nat \<Rightarrow> 'c) \<Rightarrow> (('c, 'w) loop, thrown) immediate_host" where
  "loop_immediate_host E name =
     \<lparr>host_enqueue = (\<lambda>h. enqueueImmediate E (Some (name h)) None), host_cancelTask = cancelTask E,
      host_setRef = setImmediateRef E, host_hasRef = hasRefImmediate\<rparr>"

definition armed_immediates :: "('c, 'w) loop \<Rightarrow> nat set" where
  "armed_immediates s = im_id ` set (immediates s)"

definition used_task_ids :: "('c, 'w) loop \<Rightarrow> nat set" where
  "used_task_ids s = {i. i < nextId s}"

lemma no_immediates_when_disposed: "loop_inv E D s \<Longrightarrow> disposed s \<Longrightarrow> immediates s = []"
  by (simp add: loop_inv_def quiet_if_disposed_def)

lemma immediate_id_bound: "loop_inv E D s \<Longrightarrow> t \<in> set (immediates s) \<Longrightarrow> im_id t < nextId s"
  by (auto simp: loop_inv_def ids_ok_def ids_def)

lemma enqueueImmediate_result:
  assumes "enqueueImmediate E c r s = (x, s')"
  shows "case x of
      Inl e \<Rightarrow> disposed s' \<or> immediates s' = immediates s
    | Inr i \<Rightarrow> i = nextId s \<and> (\<exists>t. im_id t = i \<and> immediates s' = immediates s @ [t])"
proof (cases "disposed s \<or> c = None \<or> (\<exists>e. fst (readNow E s) = Inl e)")
  case True
  then show ?thesis using assms
    by (auto simp: enqueueImmediate_def assertAcceptingWork_def assertCallback_def readNow_def fail_def
        monad_defs Let_def split: option.splits prod.splits sum.splits jsnum.splits if_splits)
next
  case False
  then obtain f now s1 where f: "c = Some f" and now: "readNow E s = (Inr now, s1)" and d: "\<not> disposed s"
    by (cases "readNow E s"; cases "fst (readNow E s)") auto
  note fr = readNow_frame [OF now]
  define t where "t = \<lparr>im_callback = f, im_id = nextId s, im_ref = ref_or_true r, im_sequence = nextSequence s\<rparr>"
  define u where "u = push_immediate t (s1\<lparr>nextId := nextId s + 1, nextSequence := nextSequence s + 1\<rparr>)"
  have run: "seqE (commitWakeupAdmission E now (drop_immediate t)) (\<lambda>_. ret (nextId s)) u = (x, s')"
    using assms f now d fr
    by (simp add: enqueueImmediate_def assertAcceptingWork_def assertCallback_def seqE_def [of "readNow E"]
        seqE_def [of allocateId] seqE_def [of allocateSequence] seqE_def [of "\<lambda>s. (if _ s then _ s else _ s)"]
        allocateId_def allocateSequence_def Let_def t_def u_def seqE_def [of assertAcceptingWork])
  show ?thesis
  proof (cases x)
    case (Inl e)
    have "hoare (\<lambda>_. True) (seqE (commitWakeupAdmission E now (drop_immediate t)) (\<lambda>_. ret (nextId s)))
        (\<lambda>_ _. True) (\<lambda>_. disposed)"
      by (auto simp: hoare_def commitWakeupAdmission_def fail_def monad_defs split: prod.split sum.split)
    from hoareD_err [OF this TrueI] run Inl show ?thesis by simp
  next
    case (Inr i)
    with commit_result run obtain w where "i = nextId s" "requestWakeup E w u = (Inr (), s')" by metis
    then show ?thesis using Inr requestWakeup_frame fr by (fastforce simp: u_def push_immediate_def t_def)
  qed
qed

lemma enqueue_laws:
  assumes "loop_inv E {} s" "enqueueImmediate E c r s = (x, s')"
  shows "loop_inv E {} s' \<and> used_task_ids s \<subseteq> used_task_ids s' \<and>
    (case x of
       Inl e \<Rightarrow> armed_immediates s' \<subseteq> armed_immediates s
     | Inr i \<Rightarrow> i = nextId s \<and> i \<in> used_task_ids s' \<and> armed_immediates s' = insert i (armed_immediates s))"
proof -
  have inv: "loop_inv E {} s'" by (rule keeps_apply [OF enqueueImmediate_keeps assms])
  have le: "nextId s \<le> nextId s'" by (rule nextId_le [OF ids_from_ops(3) assms(2)])
  show ?thesis
  proof (cases x)
    case (Inl e)
    then show ?thesis
      using enqueueImmediate_result [OF assms(2)] inv le no_immediates_when_disposed [OF inv]
      by (auto simp: armed_immediates_def used_task_ids_def)
  next
    case (Inr i)
    then obtain t where "i = nextId s" "im_id t = i" "immediates s' = immediates s @ [t]"
      using enqueueImmediate_result [OF assms(2)] by auto
    then show ?thesis using Inr inv le immediate_id_bound [OF inv, of t]
      by (auto simp: armed_immediates_def used_task_ids_def)
  qed
qed

lemma cancel_task_laws:
  assumes "loop_inv E {} s" "cancelTask E i s = (r, s')"
  shows "loop_inv E {} s' \<and> used_task_ids s \<subseteq> used_task_ids s' \<and>
    armed_immediates s' \<subseteq> armed_immediates s - {i}"
proof -
  have inv: "loop_inv E {} s'" by (rule keeps_apply [OF cancelTask_keeps assms])
  have le: "nextId s \<le> nextId s'" by (rule nextId_le [OF ids_from_ops(4) assms(2)])
  have agree: "indexed task_id (tasksById s) (queued s)"
    using assms(1) by (simp add: loop_inv_def tasks_agree_def)
  have dist: "distinct (map im_id (immediates s))"
    using inv_distinct [OF assms(1)] by (simp add: ids_def)
  have "armed_immediates s' \<subseteq> armed_immediates s - {i}" if "\<not> disposed s'"
  proof (cases "\<exists>t. tasksById s i = Some (ImmediateTask t)")
    case True
    then obtain t where t: "tasksById s i = Some (ImmediateTask t)" by blast
    then have "t \<in> set (immediates s)" "im_id t = i"
      using indexed_lookup [OF agree t] by (auto simp: queued_def)
    then show ?thesis
      using cancelTask_result [OF assms(2) that] t set_remove1_key [OF dist] by (auto simp: armed_immediates_def)
  next
    case False
    have "tasksById s (im_id t) = Some (ImmediateTask t)" if "t \<in> set (immediates s)" for t
      using indexed_member [OF agree, of "ImmediateTask t"] that by (simp add: queued_def)
    then have "i \<notin> armed_immediates s" using False by (auto simp: armed_immediates_def)
    moreover have "immediates s' = immediates s"
      using cancelTask_result [OF assms(2) that] False by (auto split: option.splits task.splits)
    ultimately show ?thesis by (auto simp: armed_immediates_def)
  qed
  then have "armed_immediates s' \<subseteq> armed_immediates s - {i}"
    using no_immediates_when_disposed [OF inv] by (cases "disposed s'") (auto simp: armed_immediates_def)
  then show ?thesis using inv le by (auto simp: used_task_ids_def)
qed

interpretation loop_immediates: work_port
  "\<lambda>h. enqueueImmediate E (Some (name h)) None" "cancelTask E" "\<lambda>s. loop_inv E {} s"
  armed_immediates used_task_ids
  for E :: "('c, 'w) env" and name :: "nat \<Rightarrow> 'c"
proof
  fix x i and s s' :: "('c, 'w) loop"
  assume "loop_inv E {} s" "enqueueImmediate E (Some (name x)) None s = (Inr i, s')"
  from enqueue_laws [OF this]
  show "loop_inv E {} s' \<and> i \<notin> used_task_ids s \<and> insert i (used_task_ids s) \<subseteq> used_task_ids s' \<and>
      armed_immediates s' \<subseteq> insert i (armed_immediates s)"
    by (auto simp: used_task_ids_def)
next
  fix x e and s s' :: "('c, 'w) loop"
  assume "loop_inv E {} s" "enqueueImmediate E (Some (name x)) None s = (Inl e, s')"
  from enqueue_laws [OF this]
  show "loop_inv E {} s' \<and> used_task_ids s \<subseteq> used_task_ids s' \<and> armed_immediates s' \<subseteq> armed_immediates s"
    by simp
next
  fix i r and s s' :: "('c, 'w) loop"
  assume "loop_inv E {} s" "cancelTask E i s = (r, s')"
  then show "loop_inv E {} s' \<and> used_task_ids s \<subseteq> used_task_ids s' \<and>
      armed_immediates s' \<subseteq> armed_immediates s - {i}"
    by (rule cancel_task_laws)
next
  fix i e and s s' :: "('c, 'w) loop"
  assume a: "loop_inv E {} s" "cancelTask E i s = (Inl e, s')"
  then show "armed_immediates s' = {}"
    using cancel_errors(1) [OF a(2)] no_immediates_when_disposed [OF keeps_apply [OF cancelTask_keeps a]]
    by (simp add: armed_immediates_def)
qed

section \<open>The timer facade over the loop\<close>

text \<open>
  The composed system: the guest registers and clears through the facade, the runtime disposes
  it, the loop delivers due ids (a one-shot timer has left the loop by then), and the loop
  moves on its own without setting timers.
\<close>

inductive timers_reach ::
    "('c, 'w) env \<Rightarrow> 'c \<Rightarrow> ('f, 'a, ('c, 'w) loop) timers_state \<Rightarrow> bool" for E c where
  start: "timers_reach E c (createRuntimeTimers (initial_loop w))"
| set_timer: "timers_reach E c st \<Longrightarrow> register (loop_timer_host E c) cb d b args st = (r, st') \<Longrightarrow>
    timers_reach E c st'"
| clear_timer: "timers_reach E c st \<Longrightarrow> timers_reach E c (clear (loop_timer_host E c) i st)"
| dispose_timers: "timers_reach E c st \<Longrightarrow> timers_reach E c (dispose (loop_timer_host E c) st)"
| fire_timer: "timers_reach E c st \<Longrightarrow> fire i st = (r, st') \<Longrightarrow>
    (\<forall>e. map_of (ts_records st) i = Some e \<and> \<not> te_interval e \<longrightarrow> i \<notin> armed_timers (ts_host st)) \<Longrightarrow>
    timers_reach E c st'"
| loop_moves: "timers_reach E c st \<Longrightarrow> loop_step E (ts_host st) s' \<Longrightarrow>
    tm_id ` set (timers s') \<subseteq> tm_id ` set (timers (ts_host st)) \<Longrightarrow>
    nextId (ts_host st) \<le> nextId s' \<Longrightarrow> timers_reach E c (st\<lparr>ts_host := s'\<rparr>)"

abbreviation recorded :: "('f, 'a, 's) timers_state \<Rightarrow> jsnum set" where
  "recorded st \<equiv> fst ` set (ts_records st)"

lemma recorded_drop [simp]: "fst ` set (drop_key k xs) = fst ` set xs - {k}"
  by (force simp: drop_key_def)

lemma drop_key_Nil [simp]: "drop_key k [] = []"
  by (simp add: drop_key_def)

lemma cancel_all_fold:
  "cancel_all (loop_timer_host E c) is s = fold (\<lambda>i s. snd (host_cancel (loop_timer_host E c) i s)) is s"
  by (induction "is" arbitrary: s) auto

lemma timers_covered:
  assumes "timers_reach E c st" "env_ok E"
  shows "loop_timers.covers E (recorded st) (ts_host st) \<and> (ts_disposed st \<longrightarrow> recorded st = {})"
  using assms
proof (induction rule: timers_reach.induct)
  case (start w)
  then show ?case
    unfolding loop_timers.covers_def
    by (simp add: createRuntimeTimers_def loop_inv_initial armed_timers_def) (simp add: initial_loop_def)
next
  case (set_timer st cb d b args r st')
  let ?d = "normalizeTimerDelay d" and ?iv = "if b then Some (normalizeTimerDelay d) else None"
  obtain x h where h: "host_schedule (loop_timer_host E c) ?d ?iv (ts_host st) = (x, h)" by fastforce
  have cov: "loop_timers.covers E (recorded st) (ts_host st)" using set_timer by blast
  show ?case
  proof (cases "ts_disposed st \<or> cb = None")
    case True
    then show ?thesis using set_timer by (auto simp: register_def split: option.splits if_splits)
  next
    case False
    then obtain f where f: "cb = Some f" "\<not> ts_disposed st" by auto
    show ?thesis
    proof (cases x)
      case (Inl e)
      then show ?thesis
        using set_timer.hyps(2) f h loop_timers.covers_admit_err [OF cov, of c "(?d, ?iv)" e h]
        by (auto simp: register_def Let_def)
    next
      case (Inr i)
      have adm: "(\<lambda>(d, iv). host_schedule (loop_timer_host E c) d iv) (?d, ?iv) (ts_host st) = (Inr i, h)"
        using h Inr by simp
      have w: "loop_timers.covers E (recorded st) (snd (host_cancel (loop_timer_host E c) i h))"
        by (rule loop_timers.covers_withdraw [OF cov adm prod.collapse [symmetric]])
      show ?thesis
        using set_timer.hyps(2) f h Inr w loop_timers.covers_admit [OF cov adm]
        by (auto simp: register_def Let_def split: if_splits)
    qed
  qed
next
  case (clear_timer st i)
  then have "loop_timers.covers E (recorded st) (ts_host st)" by blast
  from loop_timers.covers_cancel [OF this prod.collapse [symmetric]]
  show ?case using clear_timer by (simp add: clear_def)
next
  case (dispose_timers st)
  then have "loop_timers.covers E (set (map fst (ts_records st))) (ts_host st)" by simp
  from loop_timers.covers_cancel_list [OF this] show ?case
    using dispose_timers by (cases "ts_disposed st") (auto simp: dispose_def cancel_all_fold)
next
  case (fire_timer st i r st')
  then have cov: "loop_timers.covers E (recorded st) (ts_host st)" by blast
  show ?case
    using fire_timer loop_timers.covers_forget [OF cov, of i]
    by (auto simp: fire_def split: if_splits option.splits)
next
  case (loop_moves st s')
  then have cov: "loop_timers.covers E (recorded st) (ts_host st)" by blast
  have "loop_inv E {} (ts_host st)" using cov unfolding loop_timers.covers_def by blast
  then have inv: "loop_inv E {} s'" by (rule loop_step_inv [OF loop_moves(2,6)])
  have "armed_timers s' \<subseteq> armed_timers (ts_host st)"
    unfolding armed_timers_def by (rule image_mono [OF loop_moves(3)])
  moreover have "used_ids (ts_host st) \<subseteq> used_ids s'"
    using loop_moves(4) unfolding used_ids_def by (intro image_mono) auto
  ultimately have "loop_timers.covers E (recorded st) s'"
    by (rule loop_timers.covers_moves [OF cov conjI [OF loop_moves(6) inv]])
  then show ?case using loop_moves(5,6) by simp
qed

section \<open>The immediate facade over the loop\<close>

lemma setImmediateRef_frame:
  assumes "loop_inv E {} s" "setImmediateRef E i b s = (r, s')"
  shows "loop_inv E {} s' \<and> used_task_ids s \<subseteq> used_task_ids s' \<and> armed_immediates s' \<subseteq> armed_immediates s"
proof -
  have inv: "loop_inv E {} s'" by (rule keeps_apply [OF setImmediateRef_keeps assms])
  have rec: "keeps (ids_from n) (seqE (reconcileWakeupIfActive E) (\<lambda>_. ret x))" for n and x :: bool
    by (intro keeps_rules ids_from_reconcile)
  have "nextId s \<le> nextId s' \<and> (\<not> disposed s' \<longrightarrow> armed_immediates s' = armed_immediates s)"
  proof (cases "r = Inr False \<and> s' = s \<or> r = Inr True \<and> s' = s")
    case False
    then obtain t where run: "seqE (reconcileWakeupIfActive E) (\<lambda>_. ret True)
        (s\<lparr>tasksById := (tasksById s)(i \<mapsto> ImmediateTask (t\<lparr>im_ref := b\<rparr>)),
           immediates := map (\<lambda>u. if im_id u = i then u\<lparr>im_ref := b\<rparr> else u) (immediates s)\<rparr>) = (r, s')"
      using assms(2) by (auto simp: setImmediateRef_def split: option.splits task.splits if_splits)
    have "im_id ` set (map (\<lambda>u. if im_id u = i then u\<lparr>im_ref := b\<rparr> else u) us) = im_id ` set us"
      for us :: "'a immediate_task list" by (induction us) auto
    then show ?thesis
      using reconcile_active_frame [OF run] nextId_le [OF rec run] by (simp add: armed_immediates_def)
  qed auto
  then show ?thesis using inv no_immediates_when_disposed [OF inv]
    by (cases "disposed s'") (auto simp: used_task_ids_def armed_immediates_def)
qed

inductive immediates_reach ::
    "('c, 'w) env \<Rightarrow> (nat \<Rightarrow> 'c) \<Rightarrow> ('f, 'a, ('c, 'w) loop) immediates_state \<Rightarrow> bool" for E name where
  start: "immediates_reach E name (createRuntimeImmediate (initial_loop w))"
| set_immediate: "immediates_reach E name st \<Longrightarrow>
    setImmediate (loop_immediate_host E name) cb args st = (r, st') \<Longrightarrow> immediates_reach E name st'"
| clear_immediate: "immediates_reach E name st \<Longrightarrow>
    clearImmediate (loop_immediate_host E name) h st = (q, st') \<Longrightarrow> immediates_reach E name st'"
| set_immediate_ref: "immediates_reach E name st \<Longrightarrow>
    set_ref (loop_immediate_host E name) h b st = (q, st') \<Longrightarrow> immediates_reach E name st'"
| dispose: "immediates_reach E name st \<Longrightarrow>
    dispose_immediates (loop_immediate_host E name) unsubscribe st = (q, st') \<Longrightarrow>
    (\<And>s. unsubscribe s = s\<lparr>lifecycleObservers := removeAll ob (lifecycleObservers s)\<rparr>) \<Longrightarrow>
    immediates_reach E name st'"
| run: "immediates_reach E name st \<Longrightarrow> run_immediate h st = (x, st') \<Longrightarrow>
    (\<forall>i. map_of (is_records st) h = Some i \<longrightarrow> i \<notin> armed_immediates (is_host st)) \<Longrightarrow>
    immediates_reach E name st'"
| loop_moves: "immediates_reach E name st \<Longrightarrow> loop_step E (is_host st) s' \<Longrightarrow>
    armed_immediates s' \<subseteq> armed_immediates (is_host st) \<Longrightarrow> nextId (is_host st) \<le> nextId s' \<Longrightarrow>
    immediates_reach E name (st\<lparr>is_host := s'\<rparr>)"

abbreviation task_ids :: "('f, 'a, 's) immediates_state \<Rightarrow> nat set" where
  "task_ids st \<equiv> snd ` set (is_records st)"

text \<open>One record per handle and one per task; handles come from a counter.\<close>

definition handles_ok :: "('f, 'a, 's) immediates_state \<Rightarrow> bool" where
  "handles_ok st \<longleftrightarrow> distinct (map fst (is_records st)) \<and> distinct (map snd (is_records st)) \<and>
     (\<forall>h \<in> fst ` set (is_records st). h < is_nextHandle st)"

lemma handles_ok_next:
  "handles_ok st \<Longrightarrow> handles_ok (st\<lparr>is_nextHandle := Suc (is_nextHandle st), is_callbacks := cs, is_host := s\<rparr>)"
  by (force simp: handles_ok_def less_Suc_eq)

lemma handles_ok_add:
  assumes "handles_ok st" "i \<notin> snd ` set (is_records st)"
  shows "handles_ok (st\<lparr>is_nextHandle := Suc (is_nextHandle st), is_callbacks := cs, is_host := s,
    is_records := is_records st @ [(is_nextHandle st, i)]\<rparr>)"
proof -
  have "is_nextHandle st \<notin> fst ` set (is_records st)"
    using assms(1) unfolding handles_ok_def by blast
  then show ?thesis using assms by (force simp: handles_ok_def less_Suc_eq)
qed

lemma handles_drop:
  assumes "handles_ok st" "map_of (is_records st) h = Some i"
  shows "snd ` set (drop_key h (is_records st)) = task_ids st - {i}"
    "distinct (map fst (drop_key h (is_records st)))" "distinct (map snd (drop_key h (is_records st)))"
proof -
  have d: "distinct (map fst (is_records st))" "distinct (map snd (is_records st))"
    using assms(1) by (auto simp: handles_ok_def)
  have "inj_on fst (set (is_records st))" "inj_on snd (set (is_records st))"
    using d by (auto simp: distinct_map)
  moreover have "(h, i) \<in> set (is_records st)" using assms(2) by (rule map_of_SomeD)
  ultimately show "snd ` set (drop_key h (is_records st)) = task_ids st - {i}"
    by (auto simp: drop_key_def inj_on_def image_iff) force+
  show "distinct (map fst (drop_key h (is_records st)))" "distinct (map snd (drop_key h (is_records st)))"
    using d by (auto simp: drop_key_def distinct_map inj_on_def)
qed

lemma drop_key_absent: "map_of xs k = None \<Longrightarrow> drop_key k xs = xs"
  by (force simp: drop_key_def map_of_eq_None_iff filter_id_conv)

lemma handles_drop_ok: "handles_ok st \<Longrightarrow> handles_ok (st\<lparr>is_records := drop_key h (is_records st)\<rparr>)"
  using handles_drop(2,3) [of st h] by (cases "map_of (is_records st) h") (auto simp: handles_ok_def drop_key_absent)

lemma cancel_tasks_covers:
  assumes "loop_immediates.covers E (set is) s" "cancel_tasks (loop_immediate_host E name) is s = (r, s')"
  shows "loop_immediates.covers E {} s'"
  using assms
proof (induction "is" arbitrary: s)
  case (Cons i "is")
  obtain q s1 where c: "cancelTask E i s = (q, s1)" by fastforce
  show ?case
  proof (cases q)
    case (Inl e)
    then show ?thesis
      using Cons.prems(2) c loop_immediates.covers_torn_down [OF Cons.prems(1), of i e s1]
      by (simp add: loop_immediate_host_def)
  next
    case (Inr b)
    have "loop_immediates.covers E (set is) s1"
      using cancel_task_laws [OF _ c] Cons.prems(1) unfolding loop_immediates.covers_def by auto
    then show ?thesis using Cons.IH [of s1] Cons.prems(2) c Inr by (simp add: loop_immediate_host_def)
  qed
qed (simp add: loop_immediates.covers_def)

lemma immediates_covered:
  assumes "immediates_reach E name st" "env_ok E"
  shows "loop_immediates.covers E (task_ids st) (is_host st) \<and> handles_ok st \<and>
    (is_disposed st \<longrightarrow> is_records st = [])"
  using assms
proof (induction rule: immediates_reach.induct)
  case (start w)
  show ?case unfolding loop_immediates.covers_def
    by (simp add: createRuntimeImmediate_def handles_ok_def loop_inv_initial armed_immediates_def)
       (simp add: initial_loop_def)
next
  case (set_immediate st cb args r st')
  then have cov: "loop_immediates.covers E (task_ids st) (is_host st)" and ok: "handles_ok st" by blast+
  show ?case
  proof (cases "is_disposed st \<or> cb = None")
    case True
    then show ?thesis using set_immediate by (auto simp: setImmediate_def split: option.splits if_splits)
  next
    case False
    then obtain f where f: "cb = Some f" "\<not> is_disposed st" by auto
    obtain x s where q: "enqueueImmediate E (Some (name (is_nextHandle st))) None (is_host st) = (x, s)" by fastforce
    show ?thesis
    proof (cases x)
      case (Inl e)
      then show ?thesis
        using set_immediate.hyps(2) f q handles_ok_next [OF ok]
          loop_immediates.covers_admit_err [OF cov, of name "is_nextHandle st" e s]
        by (auto simp: setImmediate_def loop_immediate_host_def Let_def)
    next
      case (Inr i)
      then show ?thesis
        using set_immediate.hyps(2) f q handles_ok_add [OF ok, of i]
          loop_immediates.covers_admit [OF cov, of name "is_nextHandle st" i s]
        by (auto simp: setImmediate_def loop_immediate_host_def Let_def)
    qed
  qed
next
  case (clear_immediate st h q st')
  then have cov: "loop_immediates.covers E (task_ids st) (is_host st)" and ok: "handles_ok st"
    and d: "is_disposed st \<longrightarrow> is_records st = []" by blast+
  show ?case
  proof (cases "map_of (is_records st) h")
    case None
    then show ?thesis using clear_immediate by (simp add: clearImmediate_def)
  next
    case (Some i)
    obtain x s where c: "cancelTask E i (is_host st) = (x, s)" by fastforce
    have "st' = st\<lparr>is_records := drop_key h (is_records st), is_host := s\<rparr>"
      using clear_immediate.hyps(2) Some c
      by (cases x) (simp_all add: clearImmediate_def loop_immediate_host_def)
    then show ?thesis
      using loop_immediates.covers_cancel [OF cov c] handles_drop(1) [OF ok Some] handles_drop_ok [OF ok, of h] d
      by (auto simp: handles_ok_def drop_key_def)
  qed
next
  case (set_immediate_ref st h b q st')
  then have cov: "loop_immediates.covers E (task_ids st) (is_host st)" and ok: "handles_ok st"
    and d: "is_disposed st \<longrightarrow> is_records st = []" by blast+
  show ?case
  proof (cases "map_of (is_records st) h")
    case None
    then show ?thesis using set_immediate_ref by (simp add: set_ref_def)
  next
    case (Some i)
    obtain x s where c: "setImmediateRef E i b (is_host st) = (x, s)" by fastforce
    have st': "st' = st\<lparr>is_host := s\<rparr>"
      using set_immediate_ref.hyps(2) Some c by (cases x) (simp_all add: set_ref_def loop_immediate_host_def)
    have "loop_inv E {} (is_host st)" using cov unfolding loop_immediates.covers_def by blast
    from setImmediateRef_frame [OF this c] have "loop_immediates.covers E (task_ids st) s"
      using loop_immediates.covers_moves [OF cov] by blast
    then show ?thesis using st' ok d by (simp add: handles_ok_def)
  qed
next
  case (dispose st unsubscribe q st' ob)
  then have cov: "loop_immediates.covers E (task_ids st) (is_host st)" and ok: "handles_ok st" by blast+
  show ?case
  proof (cases "is_disposed st")
    case True
    then have "st' = st" using dispose.hyps(2) by (simp add: dispose_immediates_def)
    then show ?thesis using dispose by blast
  next
    case False
    obtain r s where c: "cancel_tasks (loop_immediate_host E name) (map snd (is_records st))
        (unsubscribe (is_host st)) = (r, s)" by fastforce
    have "loop_inv E {} (is_host st)" using cov unfolding loop_immediates.covers_def by blast
    then have "loop_inv E {} (unsubscribe (is_host st))"
      using keeps_snd [OF removeLifecycleObserver_keeps] dispose.hyps(3) by (fastforce simp: removeLifecycleObserver_def)
    then have "loop_immediates.covers E (set (map snd (is_records st))) (unsubscribe (is_host st))"
      using cov dispose.hyps(3) unfolding loop_immediates.covers_def armed_immediates_def used_task_ids_def by simp
    from cancel_tasks_covers [OF this c] show ?thesis
      using dispose.hyps(2) False c by (auto simp: dispose_immediates_def Let_def handles_ok_def)
  qed
next
  case (run st h x st')
  then have cov: "loop_immediates.covers E (task_ids st) (is_host st)" and ok: "handles_ok st"
    and d: "is_disposed st \<longrightarrow> is_records st = []" by blast+
  have st': "st' = st\<lparr>is_records := drop_key h (is_records st)\<rparr>"
    using run.hyps(2) by (simp add: run_immediate_def)
  show ?case
  proof (cases "map_of (is_records st) h")
    case None
    then show ?thesis using st' cov ok d drop_key_absent [OF None] by simp
  next
    case (Some i)
    then have "i \<notin> armed_immediates (is_host st)" using run.hyps(3) by blast
    from loop_immediates.covers_forget [OF cov this] show ?thesis
      using st' handles_drop(1) [OF ok Some] handles_drop_ok [OF ok, of h] d by (auto simp: drop_key_def)
  qed
next
  case (loop_moves st s')
  then have cov: "loop_immediates.covers E (task_ids st) (is_host st)" by blast
  have "loop_inv E {} (is_host st)" using cov unfolding loop_immediates.covers_def by blast
  then have "loop_inv E {} s'" by (rule loop_step_inv [OF loop_moves(2,6)])
  then have "loop_immediates.covers E (task_ids st) s'"
    using loop_moves(3,4) by (intro loop_immediates.covers_moves [OF cov]) (auto simp: used_task_ids_def)
  then show ?case using loop_moves(5,6) by (simp add: handles_ok_def)
qed

section \<open>Properties\<close>


definition one_timer :: "(nat, nat, (nat, rat) loop) timers_state" where
  "one_timer = snd (register (loop_timer_host demo 0) (Some 7) (Fin (5/2)) True [1] (createRuntimeTimers (initial_loop 0)))"

lemma one_timer_reach: "timers_reach demo 0 one_timer"
  unfolding one_timer_def by (rule timers_reach.set_timer [OF timers_reach.start prod.collapse [symmetric]])


text \<open>the loop never makes the facade refuse an identifier: \<open>register\<close> on a reachable facade either
  throws for its own reasons (disposed, no function), passes on what the loop threw, or records a
  new identifier, as long as the loop's counter is a positive safe integer.\<close>

theorem timer_identifiers_are_fresh:
  assumes "timers_reach E c st" "env_ok E" "register (loop_timer_host E c) cb d b args st = (r, st')"
    "positive_id (id_num (nextId (ts_host st)))"
  shows "r \<noteq> Inl Invalid_identifier \<and>
    (\<forall>i. r = Inr i \<longrightarrow> i \<notin> recorded st \<and> recorded st' = insert i (recorded st) \<and>
       map_of (ts_records st') i = Some \<lparr>te_args = args, te_callback = the cb, te_interval = b\<rparr>)"
proof -
  have cov: "loop_timers.covers E (recorded st) (ts_host st)" using timers_covered [OF assms(1,2)] by blast
  then have inv: "loop_inv E {} (ts_host st)" unfolding loop_timers.covers_def by blast
  have fresh: "id_num (nextId (ts_host st)) \<notin> recorded st"
    using cov unfolding loop_timers.covers_def by (auto simp: used_ids_def)
  obtain x h where h: "host_schedule (loop_timer_host E c) (normalizeTimerDelay d)
      (if b then Some (normalizeTimerDelay d) else None) (ts_host st) = (x, h)" by fastforce
  have "i = id_num (nextId (ts_host st))" if "x = Inr i" for i
    using schedule_laws [OF assms(2) inv h] that by simp
  then show ?thesis
    using assms(3,4) fresh h
    by (auto simp: register_def Let_def map_add_def map_of_eq_None_iff [THEN iffD2]
        split: if_splits option.splits sum.splits)
qed

theorem timer_identifiers_are_fresh_witness:
  "\<exists>i. fst (register (loop_timer_host demo 0) (Some 8) (Fin 1) False [] one_timer) = Inr i \<and> i \<notin> recorded one_timer"
proof -
  let ?m = "register (loop_timer_host demo 0) (Some 8) (Fin 1) False [] one_timer"
  have p: "positive_id (id_num (nextId (ts_host one_timer)))" by code_simp
  have "case fst ?m of Inl e \<Rightarrow> False | Inr i \<Rightarrow> True" by code_simp
  then obtain i where "fst ?m = Inr i" by (auto split: sum.splits)
  then show ?thesis
    using timer_identifiers_are_fresh [OF one_timer_reach demo_ok(1) prod.collapse [symmetric] p, of "Some 8" "Fin 1" False "[]"]
    by auto
qed


definition one_immediate :: "(nat, nat, (nat, rat) loop) immediates_state" where
  "one_immediate = snd (setImmediate (loop_immediate_host demo (\<lambda>h. h)) (Some 7) [1]
     (createRuntimeImmediate (initial_loop 0)))"


end
