(* ===== verification/Bytes.thy ===== *)
theory Bytes
  imports Prelude "HOL-Library.Word"
begin

unbundle bit_operations_syntax

text \<open>
  Bytes and 32-bit words as the source uses them: a \<open>Uint8Array\<close> is a list of bytes, a
  \<open>Uint32Array\<close> a list of 32-bit words, and a number that went through \<open>>>> 0\<close> is a word.
  Indices stay in range in the source, so an update is \<open>xs[i := v]\<close>.
\<close>

type_synonym byte = "8 word"
type_synonym u32 = "32 word"

definition rotateLeft :: "u32 \<Rightarrow> nat \<Rightarrow> u32" where
  "rotateLeft value bits = push_bit bits value OR drop_bit (32 - bits) value"

definition rotateRight :: "u32 \<Rightarrow> nat \<Rightarrow> u32" where
  "rotateRight value bits = drop_bit bits value OR push_bit (32 - bits) value"

definition readWord :: "byte list \<Rightarrow> nat \<Rightarrow> u32" where
  "readWord block offset =
     push_bit 24 (ucast (block ! offset)) OR push_bit 16 (ucast (block ! (offset + 1))) OR
     push_bit 8 (ucast (block ! (offset + 2))) OR ucast (block ! (offset + 3))"

definition writeWord :: "byte list \<Rightarrow> nat \<Rightarrow> u32 \<Rightarrow> byte list" where
  "writeWord output offset value =
     output[offset := ucast (drop_bit 24 value), offset + 1 := ucast (drop_bit 16 value),
            offset + 2 := ucast (drop_bit 8 value), offset + 3 := ucast value]"

text \<open>The four bytes of a word, most significant first.\<close>

definition be32 :: "u32 \<Rightarrow> byte list" where
  "be32 w = [ucast (drop_bit 24 w), ucast (drop_bit 16 w), ucast (drop_bit 8 w), ucast w]"

lemma length_be32 [simp]: "length (be32 w) = 4"
  by (simp add: be32_def)

lemma length_writeWord [simp]: "length (writeWord xs i w) = length xs"
  by (simp add: writeWord_def)

lemma writeWord_append:
  "length ys = 4 \<Longrightarrow> i = length xs \<Longrightarrow> writeWord (xs @ ys @ zs) i w = xs @ be32 w @ zs"
  by (auto simp: writeWord_def be32_def list_update_append length_Suc_conv numeral_eq_Suc)

lemma readWord_append: "readWord (xs @ [a, b, c, d] @ ys) (length xs) =
    push_bit 24 (ucast a) OR push_bit 16 (ucast b) OR push_bit 8 (ucast c) OR ucast d"
  by (simp add: readWord_def nth_append)

lemma readWord_be32: "readWord (be32 w) 0 = w"
proof (rule bit_word_eqI)
  fix n assume n: "n < LENGTH(32)"
  then have "n < 8 \<or> 8 \<le> n \<and> n < 16 \<or> 16 \<le> n \<and> n < 24 \<or> 24 \<le> n \<and> n < 32" by auto
  then show "bit (readWord (be32 w) 0) n = bit w n"
    using n by (auto simp: readWord_def be32_def bit_or_iff bit_push_bit_iff bit_ucast_iff bit_drop_bit_eq)
qed

lemma be32_readWord:
  assumes "length xs = 4" shows "be32 (readWord xs 0) = xs"
proof -
  obtain a b c d where xs: "xs = [a, b, c, d]" using assms by (auto simp: length_Suc_conv numeral_eq_Suc)
  let ?w = "readWord xs 0"
  have "ucast (drop_bit 24 ?w) = a" "ucast (drop_bit 16 ?w) = b" "ucast (drop_bit 8 ?w) = c" "ucast ?w = d"
    by (rule bit_word_eqI, auto simp: xs readWord_def bit_or_iff bit_push_bit_iff bit_ucast_iff bit_drop_bit_eq
        dest: bit_imp_le_length)+
  then show ?thesis by (simp add: be32_def xs)
qed

end
