(* ===== verification/Sha.thy ===== *)
theory Sha
  imports Bytes
begin

unbundle bit_operations_syntax

text \<open>
  SHA-1 and SHA-256 (\<open>crypto/sha.ts\<close>, \<open>sha-words.ts\<close>, \<open>sha-constants.ts\<close>), HMAC
  (\<open>crypto/hmac-sha256.ts\<close>) and the second SHA-256 of the module loader
  (\<open>module-loader/sha256.ts\<close>), with their common specification: the Merkle-Damgard
  iteration of the compression function over the padded message.
  Lengths are natural numbers; the source counts them in doubles, exact below 2^53 bits.
\<close>

section \<open>The compression functions\<close>

datatype algorithm = Sha1 | Sha256

datatype sha_error = Hash_unavailable | Invalid_padding_state

definition SHA256_CONSTANTS :: "u32 list" where
  "SHA256_CONSTANTS =
    [0x428A2F98, 0x71374491, 0xB5C0FBCF, 0xE9B5DBA5, 0x3956C25B, 0x59F111F1, 0x923F82A4, 0xAB1C5ED5,
     0xD807AA98, 0x12835B01, 0x243185BE, 0x550C7DC3, 0x72BE5D74, 0x80DEB1FE, 0x9BDC06A7, 0xC19BF174,
     0xE49B69C1, 0xEFBE4786, 0x0FC19DC6, 0x240CA1CC, 0x2DE92C6F, 0x4A7484AA, 0x5CB0A9DC, 0x76F988DA,
     0x983E5152, 0xA831C66D, 0xB00327C8, 0xBF597FC7, 0xC6E00BF3, 0xD5A79147, 0x06CA6351, 0x14292967,
     0x27B70A85, 0x2E1B2138, 0x4D2C6DFC, 0x53380D13, 0x650A7354, 0x766A0ABB, 0x81C2C92E, 0x92722C85,
     0xA2BFE8A1, 0xA81A664B, 0xC24B8B70, 0xC76C51A3, 0xD192E819, 0xD6990624, 0xF40E3585, 0x106AA070,
     0x19A4C116, 0x1E376C08, 0x2748774C, 0x34B0BCB5, 0x391C0CB3, 0x4ED8AA4A, 0x5B9CCA4F, 0x682E6FF3,
     0x748F82EE, 0x78A5636F, 0x84C87814, 0x8CC70208, 0x90BEFFFA, 0xA4506CEB, 0xBEF9A3F7, 0xC67178F2]"

definition initial_state :: "algorithm \<Rightarrow> u32 list" where
  "initial_state a = (case a of
     Sha1 \<Rightarrow> [0x67452301, 0xEFCDAB89, 0x98BADCFE, 0x10325476, 0xC3D2E1F0]
   | Sha256 \<Rightarrow> [0x6A09E667, 0xBB67AE85, 0x3C6EF372, 0xA54FF53A, 0x510E527F, 0x9B05688C, 0x1F83D9AB,
                 0x5BE0CD19])"

definition load_words :: "byte list \<Rightarrow> nat \<Rightarrow> u32 list" where
  "load_words block n = fold (\<lambda>i ws. ws[i := readWord block (i * 4)]) [0..<16] (replicate n 0)"

definition sha1_schedule :: "byte list \<Rightarrow> u32 list" where
  "sha1_schedule block =
     fold (\<lambda>i ws. ws[i := rotateLeft (ws ! (i - 3) XOR ws ! (i - 8) XOR ws ! (i - 14) XOR ws ! (i - 16)) 1])
          [16..<80] (load_words block 80)"

type_synonym five = "u32 \<times> u32 \<times> u32 \<times> u32 \<times> u32"

definition sha1_round :: "u32 list \<Rightarrow> nat \<Rightarrow> five \<Rightarrow> five" where
  "sha1_round ws i = (\<lambda>(a, b, c, d, e).
     let (f, k) =
       (if i < 20 then ((b AND c) OR (NOT b AND d), 0x5A827999)
        else if i < 40 then (b XOR c XOR d, 0x6ED9EBA1)
        else if i < 60 then ((b AND c) OR (b AND d) OR (c AND d), 0x8F1BBCDC)
        else (b XOR c XOR d, 0xCA62C1D6));
       temporary = rotateLeft a 5 + f + e + k + ws ! i
     in (temporary, a, rotateLeft b 30, c, d))"

definition processSha1 :: "u32 list \<Rightarrow> byte list \<Rightarrow> u32 list" where
  "processSha1 st block =
     (let (a, b, c, d, e) = fold (sha1_round (sha1_schedule block)) [0..<80]
            (st ! 0, st ! 1, st ! 2, st ! 3, st ! 4)
      in st[0 := st ! 0 + a, 1 := st ! 1 + b, 2 := st ! 2 + c, 3 := st ! 3 + d, 4 := st ! 4 + e])"

definition sha256_schedule :: "byte list \<Rightarrow> u32 list" where
  "sha256_schedule block =
     fold (\<lambda>i ws.
        let word15 = ws ! (i - 15); word2 = ws ! (i - 2);
            sigma0 = rotateRight word15 7 XOR rotateRight word15 18 XOR drop_bit 3 word15;
            sigma1 = rotateRight word2 17 XOR rotateRight word2 19 XOR drop_bit 10 word2
        in ws[i := ws ! (i - 16) + sigma0 + ws ! (i - 7) + sigma1])
      [16..<64] (load_words block 64)"

type_synonym eight = "u32 \<times> u32 \<times> u32 \<times> u32 \<times> u32 \<times> u32 \<times> u32 \<times> u32"

definition sha256_round :: "u32 list \<Rightarrow> nat \<Rightarrow> eight \<Rightarrow> eight" where
  "sha256_round ws i = (\<lambda>(a, b, c, d, e, f, g, h).
     let sum1 = rotateRight e 6 XOR rotateRight e 11 XOR rotateRight e 25;
         choice = (e AND f) XOR (NOT e AND g);
         temporary1 = h + sum1 + choice + SHA256_CONSTANTS ! i + ws ! i;
         sum0 = rotateRight a 2 XOR rotateRight a 13 XOR rotateRight a 22;
         majority = (a AND b) XOR (a AND c) XOR (b AND c);
         temporary2 = sum0 + majority
     in (temporary1 + temporary2, a, b, c, d + temporary1, e, f, g))"

definition processSha256 :: "u32 list \<Rightarrow> byte list \<Rightarrow> u32 list" where
  "processSha256 st block =
     (let (a, b, c, d, e, f, g, h) = fold (sha256_round (sha256_schedule block)) [0..<64]
            (st ! 0, st ! 1, st ! 2, st ! 3, st ! 4, st ! 5, st ! 6, st ! 7)
      in st[0 := st ! 0 + a, 1 := st ! 1 + b, 2 := st ! 2 + c, 3 := st ! 3 + d, 4 := st ! 4 + e,
            5 := st ! 5 + f, 6 := st ! 6 + g, 7 := st ! 7 + h])"

definition process :: "algorithm \<Rightarrow> u32 list \<Rightarrow> byte list \<Rightarrow> u32 list" where
  "process a = (case a of Sha1 \<Rightarrow> processSha1 | Sha256 \<Rightarrow> processSha256)"

lemma length_process [simp]: "length (process a st block) = length st"
  by (simp add: process_def processSha1_def processSha256_def split: algorithm.split prod.split)

section \<open>\<open>ShaDigest\<close>\<close>

record sha =
  sha_algorithm :: algorithm
  sha_block :: "byte list"
  sha_state :: "u32 list"
  sha_blockLength :: nat
  sha_disposed :: bool
  sha_finalized :: bool
  sha_totalBytes :: nat

definition new_sha :: "algorithm \<Rightarrow> sha" where
  "new_sha a = \<lparr>sha_algorithm = a, sha_block = replicate 64 0, sha_state = initial_state a, sha_blockLength = 0,
                sha_disposed = False, sha_finalized = False, sha_totalBytes = 0\<rparr>"

definition append_byte :: "byte \<Rightarrow> sha \<Rightarrow> sha" where
  "append_byte b s =
     (let block = (sha_block s)[sha_blockLength s := b]; n = sha_blockLength s + 1
      in if n = 64
         then s\<lparr>sha_block := block, sha_state := process (sha_algorithm s) (sha_state s) block,
                sha_blockLength := 0\<rparr>
         else s\<lparr>sha_block := block, sha_blockLength := n\<rparr>)"

definition sha_append :: "byte list \<Rightarrow> sha \<Rightarrow> sha" where
  "sha_append input = fold append_byte input"

definition sha_update :: "byte list \<Rightarrow> (sha, sha_error, unit) op" where
  "sha_update input s =
     (if sha_disposed s \<or> sha_finalized s then (Inl Hash_unavailable, s)
      else (Inr (), sha_append input (s\<lparr>sha_totalBytes := sha_totalBytes s + length input\<rparr>)))"

definition padding :: "nat \<Rightarrow> byte list" where
  "padding totalBytes =
     (let bitLength = int totalBytes * 8;
          paddingLength = (56 + 64 - (totalBytes + 1) mod 64) mod 64;
          pad = (replicate (1 + paddingLength + 8) 0)[0 := 0x80];
          high = word_of_int (bitLength div 2 ^ 32); low = word_of_int bitLength
      in writeWord (writeWord pad (length pad - 8) high) (length pad - 4) low)"

definition state_bytes :: "u32 list \<Rightarrow> byte list" where
  "state_bytes st = fold (\<lambda>i out. writeWord out (i * 4) (st ! i)) [0..<length st] (replicate (length st * 4) 0)"

definition sha_digest :: "(sha, sha_error, byte list) op" where
  "sha_digest s =
     (if sha_disposed s \<or> sha_finalized s then (Inl Hash_unavailable, s)
      else let s1 = sha_append (padding (sha_totalBytes s)) (s\<lparr>sha_finalized := True\<rparr>)
           in if sha_blockLength s1 \<noteq> 0 then (Inl Invalid_padding_state, s1)
              else (Inr (state_bytes (sha_state s1)), s1))"

definition sha_dispose :: "sha \<Rightarrow> sha" where
  "sha_dispose s =
     (if sha_disposed s then s
      else s\<lparr>sha_block := map (\<lambda>_. 0) (sha_block s), sha_state := map (\<lambda>_. 0) (sha_state s),
             sha_blockLength := 0, sha_totalBytes := 0, sha_disposed := True\<rparr>)"

section \<open>The specification\<close>

text \<open>Iterate the compression over the whole blocks of a byte string; what is left is the rest.\<close>

function absorb :: "algorithm \<Rightarrow> u32 list \<Rightarrow> byte list \<Rightarrow> u32 list \<times> byte list" where
  "absorb a st bs =
     (if length bs < 64 then (st, bs) else absorb a (process a st (take 64 bs)) (drop 64 bs))"
  by pat_completeness auto
termination by (relation "measure (\<lambda>(_, _, bs). length bs)") auto

declare absorb.simps [simp del]

definition pad_message :: "byte list \<Rightarrow> byte list" where
  "pad_message msg =
     msg @ [0x80] @ replicate ((119 - length msg mod 64) mod 64) 0 @
     be32 (word_of_int (int (length msg) * 8 div 2 ^ 32)) @ be32 (word_of_int (int (length msg) * 8))"

definition sha_spec :: "algorithm \<Rightarrow> byte list \<Rightarrow> byte list" where
  "sha_spec a msg = concat (map be32 (fst (absorb a (initial_state a) (pad_message msg))))"

section \<open>The digest object implements the specification\<close>

lemma absorb_short: "length bs < 64 \<Longrightarrow> absorb a st bs = (st, bs)"
  by (simp add: absorb.simps)

lemma absorb_block: "length b = 64 \<Longrightarrow> absorb a st (b @ bs) = absorb a (process a st b) bs"
  by (simp add: absorb.simps [of a st "b @ bs"])

lemma length_absorb: "length (fst (absorb a st bs)) = length st"
  by (induction a st bs rule: absorb.induct) (subst absorb.simps, simp)

lemma length_absorb_rest: "length (snd (absorb a st bs)) = length bs mod 64"
proof (induction a st bs rule: absorb.induct)
  case (1 a st bs)
  then show ?case by (subst absorb.simps) (simp add: le_mod_geq)
qed

text \<open>\<open>holds s a st rest\<close>: the object is in state \<open>st\<close> with the bytes \<open>rest\<close> buffered.\<close>

definition holds :: "sha \<Rightarrow> algorithm \<Rightarrow> u32 list \<Rightarrow> byte list \<Rightarrow> bool" where
  "holds s a st rest \<longleftrightarrow> sha_algorithm s = a \<and> sha_state s = st \<and> length (sha_block s) = 64 \<and>
     length rest < 64 \<and> sha_blockLength s = length rest \<and> take (length rest) (sha_block s) = rest"

lemma holds_new: "holds (new_sha a) a (initial_state a) []"
  by (simp add: holds_def new_sha_def)

lemma append_byte_holds:
  assumes "holds s a st rest"
  shows "if length rest = 63 then holds (append_byte b s) a (process a st (rest @ [b])) []
    else holds (append_byte b s) a st (rest @ [b])"
proof -
  let ?blk = "(sha_block s)[length rest := b]"
  have t: "take (Suc (length rest)) ?blk = rest @ [b]"
    using assms by (simp add: holds_def take_Suc_conv_app_nth)
  have "?blk = rest @ [b]" if "length rest = 63"
    using t that assms by (simp add: holds_def)
  then show ?thesis using assms t by (auto simp: holds_def append_byte_def Let_def)
qed

lemma sha_append_holds:
  "holds s a st rest \<Longrightarrow> absorb a st (rest @ bs) = (st', rest') \<Longrightarrow> holds (sha_append bs s) a st' rest'"
proof (induction bs arbitrary: s st rest)
  case Nil
  then show ?case by (auto simp: sha_append_def absorb_short holds_def)
next
  case (Cons b bs)
  have step: "sha_append (b # bs) s = sha_append bs (append_byte b s)" by (simp add: sha_append_def)
  show ?case
  proof (cases "length rest = 63")
    case True
    with append_byte_holds [OF Cons.prems(1), of b]
    have "holds (append_byte b s) a (process a st (rest @ [b])) []" by simp
    moreover have "absorb a (process a st (rest @ [b])) ([] @ bs) = (st', rest')"
      using Cons.prems(2) absorb_block [of "rest @ [b]" a st bs] True by simp
    ultimately show ?thesis unfolding step by (rule Cons.IH)
  next
    case False
    with append_byte_holds [OF Cons.prems(1), of b] have "holds (append_byte b s) a st (rest @ [b])" by simp
    moreover have "absorb a st ((rest @ [b]) @ bs) = (st', rest')" using Cons.prems(2) by simp
    ultimately show ?thesis unfolding step by (rule Cons.IH)
  qed
qed

lemma append_byte_frame:
  "sha_totalBytes (append_byte b s) = sha_totalBytes s" "sha_disposed (append_byte b s) = sha_disposed s"
  "sha_finalized (append_byte b s) = sha_finalized s" "sha_algorithm (append_byte b s) = sha_algorithm s"
  by (simp_all add: append_byte_def Let_def)

lemma sha_append_frame [simp]:
  "sha_totalBytes (sha_append bs s) = sha_totalBytes s" "sha_disposed (sha_append bs s) = sha_disposed s"
  "sha_finalized (sha_append bs s) = sha_finalized s" "sha_algorithm (sha_append bs s) = sha_algorithm s"
  by (induction bs arbitrary: s) (simp_all add: sha_append_def append_byte_frame)

lemma holds_fields [simp]:
  "holds (s\<lparr>sha_totalBytes := n\<rparr>) a st rest = holds s a st rest"
  "holds (s\<lparr>sha_finalized := f\<rparr>) a st rest = holds s a st rest"
  by (simp_all add: holds_def)

text \<open>\<open>fed s a msg\<close>: a live object that has been fed \<open>msg\<close>.\<close>

definition fed :: "sha \<Rightarrow> algorithm \<Rightarrow> byte list \<Rightarrow> bool" where
  "fed s a msg \<longleftrightarrow> \<not> sha_disposed s \<and> \<not> sha_finalized s \<and> sha_totalBytes s = length msg \<and>
     holds s a (fst (absorb a (initial_state a) msg)) (snd (absorb a (initial_state a) msg))"

lemma fed_new: "fed (new_sha a) a []"
  using holds_new [of a] by (simp add: fed_def absorb_short) (simp add: new_sha_def)

lemma absorb_append:
  "absorb a st (xs @ ys) = absorb a (fst (absorb a st xs)) (snd (absorb a st xs) @ ys)"
proof (induction a st xs rule: absorb.induct)
  case (1 a st xs)
  show ?case
  proof (cases "length xs < 64")
    case False
    then have "absorb a st (xs @ ys) = absorb a (process a st (take 64 xs)) (drop 64 xs @ ys)"
      using absorb_block [of "take 64 xs" a st "drop 64 xs @ ys"]
      by (simp del: append_assoc add: append_assoc [symmetric])
    then show ?thesis using 1 [OF False] False by (simp add: absorb.simps [of a st xs])
  qed (simp add: absorb_short)
qed

lemma sha_update_fed:
  assumes "fed s a msg"
  shows "\<exists>s'. sha_update bs s = (Inr (), s') \<and> fed s' a (msg @ bs)"
proof -
  let ?i = "absorb a (initial_state a) msg"
  have "holds (sha_append bs (s\<lparr>sha_totalBytes := sha_totalBytes s + length bs\<rparr>)) a
      (fst (absorb a (initial_state a) (msg @ bs))) (snd (absorb a (initial_state a) (msg @ bs)))"
    using assms absorb_append [of a "initial_state a" msg bs]
    by (intro sha_append_holds [of _ a "fst ?i" "snd ?i"]) (simp_all add: fed_def)
  then show ?thesis using assms by (simp add: sha_update_def fed_def)
qed

lemma padding_eq:
  "padding n = [0x80] @ replicate ((119 - n mod 64) mod 64) 0 @
     be32 (word_of_int (int n * 8 div 2 ^ 32)) @ be32 (word_of_int (int n * 8))"
proof -
  let ?p = "(119 - n mod 64) mod 64"
  have p: "(56 + 64 - (n + 1) mod 64) mod 64 = ?p"
    by (cases "n mod 64 = 63") (simp_all add: mod_Suc)
  let ?xs = "0x80 # replicate ?p (0 :: byte)"
  have z: "replicate 8 (0 :: byte) = replicate 4 0 @ replicate 4 0" by (simp add: numeral_eq_Suc)
  have "(replicate (1 + ?p + 8) (0 :: byte))[0 := 0x80] = ?xs @ replicate 4 0 @ replicate 4 0"
    unfolding replicate_add z by simp
  then have "padding n = writeWord (writeWord (?xs @ replicate 4 0 @ replicate 4 0) (length ?xs)
      (word_of_int (int n * 8 div 2 ^ 32))) (length ?xs + 4) (word_of_int (int n * 8))"
    by (simp only: padding_def p Let_def length_append length_replicate) simp
  also have "writeWord (?xs @ replicate 4 0 @ replicate 4 0) (length ?xs) (word_of_int (int n * 8 div 2 ^ 32)) =
      ?xs @ be32 (word_of_int (int n * 8 div 2 ^ 32)) @ replicate 4 0"
    by (rule writeWord_append) simp_all
  also have "writeWord \<dots> (length ?xs + 4) (word_of_int (int n * 8)) =
      (?xs @ be32 (word_of_int (int n * 8 div 2 ^ 32))) @ be32 (word_of_int (int n * 8)) @ []"
    using writeWord_append [of "replicate 4 0" "length ?xs + 4" "?xs @ be32 (word_of_int (int n * 8 div 2 ^ 32))" "[]"]
    by simp
  finally show ?thesis by simp
qed

lemma pad_message_padding: "pad_message msg = msg @ padding (length msg)"
  by (simp add: pad_message_def padding_eq)

lemma length_pad_message: "length (pad_message msg) mod 64 = 0"
proof -
  have *: "(n + (9 + (119 - n mod 64) mod 64)) mod 64 = 0" for n :: nat
  proof -
    define q r where "q = n div 64" and "r = n mod 64"
    have n: "n = 64 * q + r" "r < 64" by (simp_all add: q_def r_def)
    have "(119 - r) mod 64 = (if r \<le> 55 then 55 - r else 119 - r)"
    proof (cases "r \<le> 55")
      case True
      then have "119 - r = 64 + (55 - r)" by simp
      then show ?thesis using True by (simp only: mod_add_self1) simp
    qed simp
    then have "n + (9 + (119 - r) mod 64) = 64 * (q + (if r \<le> 55 then 1 else 2))"
      using n by auto
    then show ?thesis unfolding r_def [symmetric] by (simp only: mod_mult_self1_is_0)
  qed
  show ?thesis using * [of "length msg"] by (simp add: pad_message_def)
qed

lemma state_bytes_concat: "state_bytes st = concat (map be32 st)"
proof -
  have "fold (\<lambda>i out. writeWord out (i * 4) (st ! i)) [0..<n] (replicate (length st * 4) 0) =
      concat (map be32 (take n st)) @ replicate ((length st - n) * 4) 0" if "n \<le> length st" for n
    using that
  proof (induction n)
    case (Suc n)
    have l: "length (concat (map be32 (take n st))) = n * 4"
      using Suc.prems by (simp add: length_concat comp_def sum_list_triv)
    have z: "replicate ((length st - n) * 4) (0 :: byte) = replicate 4 0 @ replicate ((length st - Suc n) * 4) 0"
      using Suc.prems by (simp add: replicate_add [symmetric] Suc_diff_Suc [symmetric])
    have "fold (\<lambda>i out. writeWord out (i * 4) (st ! i)) [0..<Suc n] (replicate (length st * 4) 0) =
        writeWord (concat (map be32 (take n st)) @ replicate 4 0 @ replicate ((length st - Suc n) * 4) 0)
          (n * 4) (st ! n)"
      using Suc z by simp
    also have "\<dots> = concat (map be32 (take n st)) @ be32 (st ! n) @ replicate ((length st - Suc n) * 4) 0"
      by (rule writeWord_append) (simp_all add: l)
    finally show ?case using Suc.prems by (simp add: take_Suc_conv_app_nth)
  qed simp
  from this [of "length st"] show ?thesis by (simp add: state_bytes_def)
qed

lemma sha_digest_fed:
  assumes "fed s a msg"
  shows "\<exists>s'. sha_digest s = (Inr (sha_spec a msg), s') \<and> sha_finalized s'"
proof -
  let ?i = "absorb a (initial_state a) msg" and ?p = "absorb a (initial_state a) (pad_message msg)"
  define s1 where "s1 = sha_append (padding (length msg)) (s\<lparr>sha_finalized := True\<rparr>)"
  have "holds s1 a (fst ?p) (snd ?p)" unfolding s1_def
    using assms absorb_append [of a "initial_state a" msg "padding (length msg)"]
    by (intro sha_append_holds [of _ a "fst ?i" "snd ?i"]) (simp_all add: fed_def pad_message_padding)
  moreover have "length (snd ?p) = 0" using length_absorb_rest [of a "initial_state a" "pad_message msg"]
    length_pad_message [of msg] by simp
  ultimately have "sha_blockLength s1 = 0" "sha_state s1 = fst ?p" by (simp_all add: holds_def)
  then show ?thesis using assms
    by (simp add: sha_digest_def fed_def s1_def [symmetric] Let_def sha_spec_def state_bytes_concat)
       (simp add: s1_def)
qed

text \<open>Feeding an object in chunks.\<close>

lemma fed_chunks:
  "fed s a msg \<Longrightarrow> fed (fold (\<lambda>c s. snd (sha_update c s)) chunks s) a (msg @ concat chunks)"
proof (induction chunks arbitrary: s msg)
  case (Cons c chunks)
  from sha_update_fed [OF Cons.prems, of c] have "fed (snd (sha_update c s)) a (msg @ c)" by auto
  from Cons.IH [OF this] show ?case by simp
qed simp

lemma length_sha_spec: "length (sha_spec a msg) = (case a of Sha1 \<Rightarrow> 20 | Sha256 \<Rightarrow> 32)"
proof -
  have "length (fst (absorb a (initial_state a) (pad_message msg))) = (case a of Sha1 \<Rightarrow> 5 | Sha256 \<Rightarrow> 8)"
    by (simp add: length_absorb initial_state_def split: algorithm.split)
  then show ?thesis by (simp add: sha_spec_def length_concat comp_def sum_list_triv split: algorithm.splits)
qed

section \<open>HMAC\<close>

record hmac =
  hm_inner :: sha
  hm_outerPad :: "byte list"
  hm_disposed :: bool
  hm_finalized :: bool

definition new_hmac :: "byte list \<Rightarrow> sha_error + hmac" where
  "new_hmac key =
     (case (if length key > 64 then fst (seqE (sha_update key) (\<lambda>_. sha_digest) (new_sha Sha256))
            else Inr key) of
        Inl e \<Rightarrow> Inl e
      | Inr normalizedKey \<Rightarrow>
          (let keyByte = (\<lambda>i. if i < length normalizedKey then normalizedKey ! i else 0);
               innerPad = map (\<lambda>i. keyByte i XOR 0x36) [0..<64];
               outerPad = map (\<lambda>i. keyByte i XOR 0x5C) [0..<64]
           in case sha_update innerPad (new_sha Sha256) of
                (Inl e, _) \<Rightarrow> Inl e
              | (Inr _, inner) \<Rightarrow> Inr \<lparr>hm_inner = inner, hm_outerPad = outerPad, hm_disposed = False,
                                        hm_finalized = False\<rparr>))"

definition hmac_update :: "byte list \<Rightarrow> (hmac, sha_error, unit) op" where
  "hmac_update input h =
     (if hm_disposed h \<or> hm_finalized h then (Inl Hash_unavailable, h)
      else let (r, s) = sha_update input (hm_inner h) in (r, h\<lparr>hm_inner := s\<rparr>))"

definition hmac_digest :: "(hmac, sha_error, byte list) op" where
  "hmac_digest h =
     (if hm_disposed h \<or> hm_finalized h then (Inl Hash_unavailable, h)
      else let (r, s) = sha_digest (hm_inner h); h1 = h\<lparr>hm_finalized := True, hm_inner := s\<rparr>
           in case r of
                Inl e \<Rightarrow> (Inl e, h1)
              | Inr innerDigest \<Rightarrow>
                  (fst (seqE (sha_update (hm_outerPad h)) (\<lambda>_. seqE (sha_update innerDigest) (\<lambda>_. sha_digest))
                     (new_sha Sha256)), h1))"

definition hmac_dispose :: "hmac \<Rightarrow> hmac" where
  "hmac_dispose h =
     (if hm_disposed h then h
      else h\<lparr>hm_inner := sha_dispose (hm_inner h), hm_outerPad := map (\<lambda>_. 0) (hm_outerPad h), hm_disposed := True\<rparr>)"

text \<open>The specification of RFC 2104.\<close>

definition hmac_key :: "byte list \<Rightarrow> byte list" where
  "hmac_key key = (let k = (if length key > 64 then sha_spec Sha256 key else key)
                   in k @ replicate (64 - length k) 0)"

definition hmac_spec :: "byte list \<Rightarrow> byte list \<Rightarrow> byte list" where
  "hmac_spec key msg =
     sha_spec Sha256 (map (\<lambda>b. b XOR 0x5C) (hmac_key key) @
       sha_spec Sha256 (map (\<lambda>b. b XOR 0x36) (hmac_key key) @ msg))"

lemma one_shot: "fst (seqE (sha_update msg) (\<lambda>_. sha_digest) (new_sha a)) = Inr (sha_spec a msg)"
proof -
  obtain s1 where u: "sha_update msg (new_sha a) = (Inr (), s1)" "fed s1 a msg"
    using sha_update_fed [OF fed_new, of msg a] by auto
  obtain s2 where "sha_digest s1 = (Inr (sha_spec a msg), s2)" using sha_digest_fed [OF u(2)] by blast
  then show ?thesis using u(1) by (simp add: seqE_def)
qed

lemma two_shots:
  "fst (seqE (sha_update xs) (\<lambda>_. seqE (sha_update ys) (\<lambda>_. sha_digest)) (new_sha a)) = Inr (sha_spec a (xs @ ys))"
proof -
  obtain s1 where u: "sha_update xs (new_sha a) = (Inr (), s1)" "fed s1 a xs"
    using sha_update_fed [OF fed_new, of xs a] by auto
  obtain s2 where v: "sha_update ys s1 = (Inr (), s2)" "fed s2 a (xs @ ys)"
    using sha_update_fed [OF u(2)] by blast
  obtain s3 where "sha_digest s2 = (Inr (sha_spec a (xs @ ys)), s3)" using sha_digest_fed [OF v(2)] by blast
  then show ?thesis using u(1) v(1) by (simp add: seqE_def)
qed

definition hmac_fed :: "hmac \<Rightarrow> byte list \<Rightarrow> byte list \<Rightarrow> bool" where
  "hmac_fed h key msg \<longleftrightarrow> \<not> hm_disposed h \<and> \<not> hm_finalized h \<and>
     hm_outerPad h = map (\<lambda>b. b XOR 0x5C) (hmac_key key) \<and>
     fed (hm_inner h) Sha256 (map (\<lambda>b. b XOR 0x36) (hmac_key key) @ msg)"

lemma pad_key:
  "length k \<le> 64 \<Longrightarrow> map (\<lambda>i. f (if i < length k then k ! i else 0)) [0..<64] = map f (k @ replicate (64 - length k) 0)"
  by (rule nth_equalityI) (auto simp: nth_append)

lemma new_hmac_fed: "\<exists>h. new_hmac key = Inr h \<and> hmac_fed h key []"
proof -
  define k where "k = (if length key > 64 then sha_spec Sha256 key else key)"
  have k: "length k \<le> 64" by (simp add: k_def length_sha_spec)
  have key: "(if length key > 64 then fst (seqE (sha_update key) (\<lambda>_. sha_digest) (new_sha Sha256)) else Inr key) = Inr k"
    by (simp add: k_def one_shot)
  have pads: "map (\<lambda>i. (if i < length k then k ! i else 0) XOR m) [0..<64] = map (\<lambda>b. b XOR m) (hmac_key key)" for m
    using pad_key [OF k, of "\<lambda>b. b XOR m"] by (simp add: hmac_key_def Let_def k_def)
  obtain s where "sha_update (map (\<lambda>b. b XOR 0x36) (hmac_key key)) (new_sha Sha256) = (Inr (), s)"
    "fed s Sha256 (map (\<lambda>b. b XOR 0x36) (hmac_key key))"
    using sha_update_fed [OF fed_new] by fastforce
  then show ?thesis by (simp add: new_hmac_def key Let_def pads hmac_fed_def)
qed

lemma hmac_update_fed:
  assumes "hmac_fed h key msg"
  shows "\<exists>h'. hmac_update bs h = (Inr (), h') \<and> hmac_fed h' key (msg @ bs)"
proof -
  obtain s where "sha_update bs (hm_inner h) = (Inr (), s)"
    "fed s Sha256 ((map (\<lambda>b. b XOR 0x36) (hmac_key key) @ msg) @ bs)"
    using sha_update_fed assms unfolding hmac_fed_def by blast
  then show ?thesis using assms by (simp add: hmac_update_def hmac_fed_def)
qed

lemma hmac_digest_fed:
  assumes "hmac_fed h key msg"
  shows "fst (hmac_digest h) = Inr (hmac_spec key msg)"
proof -
  obtain s where "sha_digest (hm_inner h) = (Inr (sha_spec Sha256 (map (\<lambda>b. b XOR 0x36) (hmac_key key) @ msg)), s)"
    using sha_digest_fed assms unfolding hmac_fed_def by blast
  then show ?thesis using assms by (simp add: hmac_digest_def hmac_fed_def two_shots hmac_spec_def)
qed

lemma hmac_fed_chunks:
  "hmac_fed h key msg \<Longrightarrow> hmac_fed (fold (\<lambda>c h. snd (hmac_update c h)) chunks h) key (msg @ concat chunks)"
proof (induction chunks arbitrary: h msg)
  case (Cons c chunks)
  from hmac_update_fed [OF Cons.prems, of c] have "hmac_fed (snd (hmac_update c h)) key (msg @ c)" by auto
  from Cons.IH [OF this] show ?case by simp
qed simp

section \<open>The SHA-256 of the module loader\<close>

definition ROUND_CONSTANTS :: "u32 list" where
  "ROUND_CONSTANTS =
    [0x428A2F98, 0x71374491, 0xB5C0FBCF, 0xE9B5DBA5, 0x3956C25B, 0x59F111F1, 0x923F82A4, 0xAB1C5ED5,
     0xD807AA98, 0x12835B01, 0x243185BE, 0x550C7DC3, 0x72BE5D74, 0x80DEB1FE, 0x9BDC06A7, 0xC19BF174,
     0xE49B69C1, 0xEFBE4786, 0x0FC19DC6, 0x240CA1CC, 0x2DE92C6F, 0x4A7484AA, 0x5CB0A9DC, 0x76F988DA,
     0x983E5152, 0xA831C66D, 0xB00327C8, 0xBF597FC7, 0xC6E00BF3, 0xD5A79147, 0x06CA6351, 0x14292967,
     0x27B70A85, 0x2E1B2138, 0x4D2C6DFC, 0x53380D13, 0x650A7354, 0x766A0ABB, 0x81C2C92E, 0x92722C85,
     0xA2BFE8A1, 0xA81A664B, 0xC24B8B70, 0xC76C51A3, 0xD192E819, 0xD6990624, 0xF40E3585, 0x106AA070,
     0x19A4C116, 0x1E376C08, 0x2748774C, 0x34B0BCB5, 0x391C0CB3, 0x4ED8AA4A, 0x5B9CCA4F, 0x682E6FF3,
     0x748F82EE, 0x78A5636F, 0x84C87814, 0x8CC70208, 0x90BEFFFA, 0xA4506CEB, 0xBEF9A3F7, 0xC67178F2]"

text \<open>The padded copy of the input; \<open>ceil(n / 64)\<close> is \<open>(n + 63) div 64\<close>.\<close>

definition owned_padded :: "byte list \<Rightarrow> byte list" where
  "owned_padded input =
     (let len = length input; paddedLength = (len + 9 + 63) div 64 * 64;
          bitLength = int len * 8;
          high = word_of_int (bitLength div 2 ^ 32) :: u32; low = word_of_int bitLength :: u32;
          padded = fold (\<lambda>i p. p[i := input ! i]) [0..<len] (replicate paddedLength 0)
      in fold (\<lambda>i p. let shift = 24 - i * 8
                     in p[paddedLength - 8 + i := ucast (drop_bit shift high AND 0xFF),
                          paddedLength - 4 + i := ucast (drop_bit shift low AND 0xFF)])
           [0..<4] (padded[len := 0x80]))"

definition owned_schedule :: "byte list \<Rightarrow> nat \<Rightarrow> u32 list \<Rightarrow> u32 list" where
  "owned_schedule padded offset words =
     fold (\<lambda>i ws.
        let word15 = ws ! (i - 15); word2 = ws ! (i - 2);
            sigma0 = rotateRight word15 7 XOR rotateRight word15 18 XOR drop_bit 3 word15;
            sigma1 = rotateRight word2 17 XOR rotateRight word2 19 XOR drop_bit 10 word2
        in ws[i := ws ! (i - 16) + sigma0 + ws ! (i - 7) + sigma1])
      [16..<64] (fold (\<lambda>i ws. ws[i := readWord padded (offset + i * 4)]) [0..<16] words)"

definition owned_round :: "u32 list \<Rightarrow> nat \<Rightarrow> eight \<Rightarrow> eight" where
  "owned_round ws i = (\<lambda>(a, b, c, d, e, f, g, h).
     let sum1 = rotateRight e 6 XOR rotateRight e 11 XOR rotateRight e 25;
         choice = (e AND f) XOR (NOT e AND g);
         temporary1 = h + sum1 + choice + ROUND_CONSTANTS ! i + ws ! i;
         sum0 = rotateRight a 2 XOR rotateRight a 13 XOR rotateRight a 22;
         majority = (a AND b) XOR (a AND c) XOR (b AND c);
         temporary2 = sum0 + majority
     in (temporary1 + temporary2, a, b, c, d + temporary1, e, f, g))"

text \<open>One turn of the block loop; the array of words is reused, not cleared.\<close>

definition owned_block :: "byte list \<Rightarrow> nat \<Rightarrow> u32 list \<times> u32 list \<Rightarrow> u32 list \<times> u32 list" where
  "owned_block padded offset = (\<lambda>(st, words).
     let words = owned_schedule padded offset words;
         (a, b, c, d, e, f, g, h) = fold (owned_round words) [0..<64]
            (st ! 0, st ! 1, st ! 2, st ! 3, st ! 4, st ! 5, st ! 6, st ! 7)
     in (st[0 := st ! 0 + a, 1 := st ! 1 + b, 2 := st ! 2 + c, 3 := st ! 3 + d, 4 := st ! 4 + e,
            5 := st ! 5 + f, 6 := st ! 6 + g, 7 := st ! 7 + h], words))"

definition HEX :: string where
  "HEX = ''0123456789abcdef''"

definition word_hex :: "u32 \<Rightarrow> string" where
  "word_hex w = map (\<lambda>k. HEX ! unat (drop_bit (28 - 4 * k) w AND 0xF)) [0..<8]"

definition hashOwnedBytes :: "byte list \<Rightarrow> string" where
  "hashOwnedBytes input =
     (let padded = owned_padded input;
          (st, _) = fold (\<lambda>k. owned_block padded (k * 64)) [0..<length padded div 64]
            ([0x6A09E667, 0xBB67AE85, 0x3C6EF372, 0xA54FF53A, 0x510E527F, 0x9B05688C, 0x1F83D9AB, 0x5BE0CD19],
             replicate 64 0)
      in concat (map (\<lambda>i. word_hex (st ! i)) [0..<8]))"

definition byte_hex :: "byte \<Rightarrow> string" where
  "byte_hex b = [HEX ! (unat b div 16), HEX ! (unat b mod 16)]"

section \<open>Both implementations agree\<close>

text \<open>The copied input followed by the length is the padded message.\<close>

lemma copy_bytes:
  "n \<le> length xs \<Longrightarrow> length xs \<le> m \<Longrightarrow>
   fold (\<lambda>i p. p[i := xs ! i]) [0..<n] (replicate m 0) = take n xs @ replicate (m - n) (0 :: byte)"
proof (induction n)
  case (Suc n)
  then have "replicate (m - n) (0 :: byte) = 0 # replicate (m - Suc n) 0"
    by (simp add: Suc_diff_Suc [symmetric])
  then show ?case using Suc by (simp add: list_update_append take_Suc_conv_app_nth)
qed simp

lemma be32_mask: "be32 w = map (\<lambda>i. ucast (drop_bit (24 - i * 8) w AND 0xFF)) [0..<4]"
proof -
  have "ucast (v AND 0xFF) = (ucast v :: byte)" for v :: u32
  proof (rule bit_word_eqI)
    fix n assume n: "n < LENGTH(8)"
    have m: "v AND 0xFF = take_bit 8 v" by (simp add: take_bit_eq_mask mask_eq_exp_minus_1)
    show "bit (ucast (v AND 0xFF) :: byte) n = bit (ucast v :: byte) n"
      using n unfolding m by (simp add: bit_ucast_iff bit_take_bit_iff)
  qed
  then show ?thesis by (simp add: be32_def upt_rec)
qed

lemma padded_length: "(n + 9 + 63) div 64 * 64 = n + 9 + (119 - n mod 64) mod (64 :: nat)"
proof -
  define q r where "q = n div 64" and "r = n mod 64"
  have n: "n = 64 * q + r" "r < 64" by (simp_all add: q_def r_def)
  show ?thesis unfolding r_def [symmetric]
  proof (cases "r \<le> 55")
    case True
    then have "119 - r = 64 + (55 - r)" by simp
    then have m: "(119 - r) mod 64 = 55 - r" using True by (simp only: mod_add_self1) simp
    have "n + 9 + 63 = 64 * (q + 1) + (r + 8)" using n by simp
    then have "(n + 9 + 63) div 64 = q + 1" using True by (simp only: div_mult_self4, simp?)
    then show "(n + 9 + 63) div 64 * 64 = n + 9 + (119 - r) mod 64" using n m True by simp
  next
    case False
    then have m: "(119 - r) mod 64 = 119 - r" using n by simp
    have "n + 9 + 63 = 64 * (q + 2) + (r - 56)" using n False by simp
    then have "(n + 9 + 63) div 64 = q + 2" using n by (simp only: div_mult_self4, simp?)
    then show "(n + 9 + 63) div 64 * 64 = n + 9 + (119 - r) mod 64" using n m False by simp
  qed
qed

lemma owned_padded_eq: "owned_padded msg = pad_message msg"
proof -
  let ?n = "length msg" and ?p = "(119 - length msg mod 64) mod 64"
  let ?xs = "msg @ 0x80 # replicate ?p (0 :: byte)"
  have m: "(?n + 9 + 63) div 64 * 64 = ?n + 9 + ?p" by (rule padded_length)
  have "fold (\<lambda>i p. p[i := msg ! i]) [0..<?n] (replicate (?n + 9 + ?p) 0) = msg @ replicate (9 + ?p) (0 :: byte)"
    using copy_bytes [of ?n msg "?n + 9 + ?p"] by simp
  moreover have "replicate (9 + ?p) (0 :: byte) = replicate 1 0 @ replicate ?p 0 @ replicate 4 0 @ replicate 4 0"
    by (simp only: replicate_add [symmetric]) (simp add: algebra_simps)
  moreover have four: "replicate 4 (0 :: byte) = [0, 0, 0, 0]" by (simp add: numeral_eq_Suc)
  ultimately have start: "(fold (\<lambda>i p. p[i := msg ! i]) [0..<?n] (replicate (?n + 9 + ?p) 0))[?n := 0x80] =
      ?xs @ [0, 0, 0, 0] @ [0, 0, 0, 0]"
    using four by (simp add: list_update_length)
  have len: "?n + 9 + ?p - 8 = length ?xs" "?n + 9 + ?p - 4 = length ?xs + 4" by simp_all
  have put: "fold (\<lambda>i p. p[length ys + i := f i, length ys + 4 + i := g i]) [0..<4] (ys @ [0, 0, 0, 0] @ [0, 0, 0, 0]) =
      ys @ map f [0..<4] @ map g [0..<4]" for ys :: "byte list" and f g
    by (simp add: upt_rec list_update_append numeral_eq_Suc)
  show ?thesis
    unfolding owned_padded_def Let_def m start len put be32_mask [symmetric] by (simp add: pad_message_def)
qed

text \<open>The message schedule only depends on the block.\<close>

definition agree :: "nat \<Rightarrow> u32 list \<Rightarrow> u32 list \<Rightarrow> bool" where
  "agree n ws vs \<longleftrightarrow> length ws = length vs \<and> n \<le> length ws \<and> (\<forall>j < n. ws ! j = vs ! j)"

lemma agree_update: "agree n ws vs \<Longrightarrow> n < length ws \<Longrightarrow> x = y \<Longrightarrow> agree (Suc n) (ws[n := x]) (vs[n := y])"
  by (auto simp: agree_def nth_list_update less_Suc_eq)

lemma agree_all: "agree n ws vs \<and> length ws = n \<Longrightarrow> ws = vs"
  by (auto simp: agree_def intro: nth_equalityI)

lemma agree_fold:
  assumes "\<And>i ws vs. lo \<le> i \<Longrightarrow> i < hi \<Longrightarrow> agree i ws vs \<Longrightarrow> length ws = len \<Longrightarrow>
      agree (Suc i) (f i ws) (g i vs) \<and> length (f i ws) = len"
    "agree lo ws vs" "length ws = len" "lo \<le> hi"
  shows "agree hi (fold f [lo..<hi] ws) (fold g [lo..<hi] vs) \<and> length (fold f [lo..<hi] ws) = len"
proof -
  have "lo + d \<le> hi \<Longrightarrow> agree (lo + d) (fold f [lo..<lo + d] ws) (fold g [lo..<lo + d] vs) \<and>
      length (fold f [lo..<lo + d] ws) = len" for d
  proof (induction d)
    case (Suc d)
    then show ?case
      using assms(1) [of "lo + d" "fold f [lo..<lo + d] ws" "fold g [lo..<lo + d] vs"] by simp
  qed (simp add: assms)
  from this [of "hi - lo"] show ?thesis using assms(4) by simp
qed

lemma owned_schedule_eq:
  assumes "length words = 64" "offset + 64 \<le> length padded"
  shows "owned_schedule padded offset words = sha256_schedule (take 64 (drop offset padded))"
proof -
  let ?f = "\<lambda>i ws :: u32 list.
        let word15 = ws ! (i - 15); word2 = ws ! (i - 2);
            sigma0 = rotateRight word15 7 XOR rotateRight word15 18 XOR drop_bit 3 word15;
            sigma1 = rotateRight word2 17 XOR rotateRight word2 19 XOR drop_bit 10 word2
        in ws[i := ws ! (i - 16) + sigma0 + ws ! (i - 7) + sigma1]"
  have step: "agree (Suc i) (?f i ws) (?f i vs) \<and> length (?f i ws) = 64"
    if "16 \<le> i" "i < 64" "agree i ws vs" "length ws = 64" for i ws vs
  proof -
    have "ws ! (i - k) = vs ! (i - k)" if "0 < k" "k \<le> 16" for k
      using that \<open>16 \<le> i\<close> \<open>agree i ws vs\<close> by (simp add: agree_def)
    then show ?thesis using that by (simp add: Let_def agree_update)
  qed
  have rd: "readWord padded (offset + i * 4) = readWord (take 64 (drop offset padded)) (i * 4)" if "i < 16" for i
    using that assms(2) by (simp add: readWord_def nth_append add.assoc)
  have "agree 16 (fold (\<lambda>i ws. ws[i := readWord padded (offset + i * 4)]) [0..<16] words)
      (fold (\<lambda>i ws. ws[i := readWord (take 64 (drop offset padded)) (i * 4)]) [0..<16] (replicate 64 0)) \<and>
    length (fold (\<lambda>i ws. ws[i := readWord padded (offset + i * 4)]) [0..<16] words) = 64"
    by (rule agree_fold) (auto simp: assms(1) rd intro!: agree_update, simp add: agree_def assms(1))
  then have "agree 64 (fold ?f [16..<64] (fold (\<lambda>i ws. ws[i := readWord padded (offset + i * 4)]) [0..<16] words))
      (fold ?f [16..<64] (fold (\<lambda>i ws. ws[i := readWord (take 64 (drop offset padded)) (i * 4)]) [0..<16]
        (replicate 64 0))) \<and>
    length (fold ?f [16..<64] (fold (\<lambda>i ws. ws[i := readWord padded (offset + i * 4)]) [0..<16] words)) = 64"
    by (intro agree_fold [OF step]) simp_all
  then show ?thesis
    unfolding owned_schedule_def sha256_schedule_def load_words_def by (rule agree_all)
qed

lemma owned_round_eq: "owned_round = sha256_round"
proof -
  have "ROUND_CONSTANTS = SHA256_CONSTANTS" by (simp only: ROUND_CONSTANTS_def SHA256_CONSTANTS_def)
  then show ?thesis by (simp add: fun_eq_iff owned_round_def sha256_round_def)
qed

lemma length_sha256_schedule: "length (sha256_schedule block) = 64"
proof -
  have l: "length (fold (\<lambda>i ws. ws[f i ws := g i ws]) is ws) = length ws" for f and g :: "nat \<Rightarrow> u32 list \<Rightarrow> u32" and "is" ws
    by (induction "is" arbitrary: ws) simp_all
  show ?thesis unfolding sha256_schedule_def load_words_def Let_def l by simp
qed

lemma owned_block_eq:
  assumes "length words = 64" "offset + 64 \<le> length padded"
  shows "fst (owned_block padded offset (st, words)) = process Sha256 st (take 64 (drop offset padded))"
    "length (snd (owned_block padded offset (st, words))) = 64"
  by (simp_all add: owned_block_def owned_schedule_eq [OF assms] owned_round_eq process_def processSha256_def
      Let_def length_sha256_schedule split: prod.split)

lemma owned_blocks:
  assumes "k * 64 \<le> length padded" "length words = 64"
  shows "absorb Sha256 st padded =
      absorb Sha256 (fst (fold (\<lambda>k. owned_block padded (k * 64)) [0..<k] (st, words))) (drop (k * 64) padded) \<and>
    length (snd (fold (\<lambda>k. owned_block padded (k * 64)) [0..<k] (st, words))) = 64"
  using assms(1)
proof (induction k)
  case (Suc k)
  define x where "x = fold (\<lambda>k. owned_block padded (k * 64)) [0..<k] (st, words)"
  have x: "length (snd x) = 64" "absorb Sha256 st padded = absorb Sha256 (fst x) (drop (k * 64) padded)"
    using Suc by (simp_all add: x_def)
  have blk: "fst (owned_block padded (k * 64) x) = process Sha256 (fst x) (take 64 (drop (k * 64) padded))"
    "length (snd (owned_block padded (k * 64) x)) = 64"
    using owned_block_eq [OF x(1), of "k * 64" padded "fst x"] Suc.prems by simp_all
  have "absorb Sha256 (fst x) (drop (k * 64) padded) =
      absorb Sha256 (process Sha256 (fst x) (take 64 (drop (k * 64) padded))) (drop (Suc k * 64) padded)"
  proof -
    have "\<not> length (drop (k * 64) padded) < 64" using Suc.prems by simp
    then show ?thesis by (simp add: absorb.simps [of Sha256 "fst x" "drop (k * 64) padded"] add.commute
        del: length_drop)
  qed
  then show ?case using x(2) blk by (simp add: x_def)
qed (simp add: assms)

lemma nibbles:
  fixes w :: u32
  assumes "k < 4"
  shows "unat (drop_bit (28 - 4 * (2 * k)) w AND 0xF) = unat (ucast (drop_bit (24 - 8 * k) w) :: byte) div 16"
    "unat (drop_bit (28 - 4 * (2 * k + 1)) w AND 0xF) = unat (ucast (drop_bit (24 - 8 * k) w) :: byte) mod 16"
proof -
  have m: "v AND 0xF = take_bit 4 v" for v :: u32 by (simp add: take_bit_eq_mask mask_eq_exp_minus_1)
  have wl: "unat w mod 4294967296 = unat w"
    using unsigned_less [of w, where ?'a = nat] by simp
  have u: "unat (drop_bit n w AND 0xF) = unat w div 2 ^ n mod 16" for n
    unfolding m unsigned_take_bit_eq unsigned_drop_bit_eq by (simp add: take_bit_eq_mod drop_bit_eq_div wl)
  have b: "unat (ucast (drop_bit n w) :: byte) = unat w div 2 ^ n mod 256" for n
    unfolding unsigned_ucast_eq unsigned_drop_bit_eq by (simp add: take_bit_eq_mod drop_bit_eq_div wl)
  have p: "unat w div 2 ^ (n + 4) = unat w div 2 ^ n div 16" for n
    by (simp add: power_add div_mult2_eq)
  have half: "m mod 256 div 16 = m div 16 mod (16 :: nat)" for m
    using mod_mult2_eq [of m 16 16] by simp
  have low: "m mod 256 mod 16 = m mod (16 :: nat)" for m
    by (rule mod_mod_cancel) simp
  have k: "28 - 4 * (2 * k) = (24 - 8 * k) + 4" "28 - 4 * (2 * k + 1) = 24 - 8 * k" using assms by auto
  show "unat (drop_bit (28 - 4 * (2 * k)) w AND 0xF) = unat (ucast (drop_bit (24 - 8 * k) w) :: byte) div 16"
    unfolding u b half k p ..
  show "unat (drop_bit (28 - 4 * (2 * k + 1)) w AND 0xF) = unat (ucast (drop_bit (24 - 8 * k) w) :: byte) mod 16"
    unfolding u b low k ..
qed

lemma word_hex_bytes: "word_hex w = concat (map byte_hex (be32 w))"
  using nibbles [of 0 w] nibbles [of 1 w] nibbles [of 2 w] nibbles [of 3 w]
  by (simp add: word_hex_def be32_def byte_hex_def upt_rec)

lemma words_hex: "concat (map word_hex ws) = concat (map byte_hex (concat (map be32 ws)))"
  by (induction ws) (simp_all add: word_hex_bytes)

lemma absorb_whole: "length bs mod 64 = 0 \<Longrightarrow> snd (absorb a st bs) = []"
  using length_absorb_rest [of a st bs] by simp

lemma hashOwnedBytes_spec: "hashOwnedBytes msg = concat (map byte_hex (sha_spec Sha256 msg))"
proof -
  let ?p = "pad_message msg" and ?i = "initial_state Sha256"
  define k where "k = length ?p div 64"
  have k: "k * 64 = length ?p" using length_pad_message [of msg] unfolding k_def by (metis add.right_neutral div_mult_mod_eq)
  define x where "x = fold (\<lambda>k. owned_block ?p (k * 64)) [0..<k] (?i, replicate 64 0)"
  have "absorb Sha256 ?i ?p = absorb Sha256 (fst x) (drop (k * 64) ?p)"
    unfolding x_def using owned_blocks [of k ?p "replicate 64 0" ?i] k by simp
  then have st: "fst x = fst (absorb Sha256 ?i ?p)" using k by (simp add: absorb_short)
  have "length (fst x) = 8" by (simp add: st length_absorb initial_state_def)
  then have all: "map (\<lambda>i. word_hex (fst x ! i)) [0..<8] = map word_hex (fst x)"
    by (intro nth_equalityI) simp_all
  have "hashOwnedBytes msg = concat (map (\<lambda>i. word_hex (fst x ! i)) [0..<8])"
    by (simp add: hashOwnedBytes_def owned_padded_eq Let_def x_def k_def initial_state_def split: prod.split)
  also have "\<dots> = concat (map byte_hex (concat (map be32 (fst x))))"
    unfolding all by (rule words_hex)
  finally show ?thesis by (simp add: sha_spec_def st)
qed

section \<open>Properties\<close>

text \<open>C25: the incremental digest is the standard one: however a message is cut into chunks, feeding them
  and taking the digest returns the Merkle-Damgard hash of the padded message; neither an update
  nor the digest of a fresh object throws.\<close>

theorem incremental_digest_is_the_hash:
  "fst (sha_digest (fold (\<lambda>c s. snd (sha_update c s)) chunks (new_sha a))) = Inr (sha_spec a (concat chunks))"
  using sha_digest_fed [OF fed_chunks [OF fed_new, of chunks a]] by auto

text \<open>C26: the two SHA-256 implementations of the runtime agree: the one of the module loader returns the
  hexadecimal digits of the digest of the crypto one, for every input.\<close>

theorem module_loader_sha256_agrees:
  "Inr (hashOwnedBytes msg) =
     (case fst (sha_digest (snd (sha_update msg (new_sha Sha256)))) of
        Inl e \<Rightarrow> Inl e | Inr d \<Rightarrow> Inr (concat (map byte_hex d)))"
  using one_shot [of msg Sha256] sha_update_fed [OF fed_new, of msg Sha256]
  by (auto simp: seqE_def hashOwnedBytes_spec)

text \<open>C27: the incremental HMAC is the one of RFC 2104, for keys of every length and every way to cut the
  message, and creating it never throws.\<close>

theorem incremental_hmac_is_rfc2104:
  "\<exists>h. new_hmac key = Inr h \<and>
     fst (hmac_digest (fold (\<lambda>c h. snd (hmac_update c h)) chunks h)) = Inr (hmac_spec key (concat chunks))"
proof -
  obtain h where h: "new_hmac key = Inr h" "hmac_fed h key []" using new_hmac_fed by blast
  from hmac_digest_fed [OF hmac_fed_chunks [OF h(2), of chunks]] h(1) show ?thesis by simp
qed

text \<open>a digest object gives one digest of the algorithm's length; afterwards, and after it was
  disposed, every update and digest is refused, and disposing wipes the state and the buffer.\<close>

theorem digest_is_final:
  assumes "sha_digest s = (Inr d, s')" "length (sha_state s) = length (initial_state (sha_algorithm s))"
  shows "length d = (case sha_algorithm s of Sha1 \<Rightarrow> 20 | Sha256 \<Rightarrow> 32) \<and>
    fst (sha_update bs s') = Inl Hash_unavailable \<and> fst (sha_digest s') = Inl Hash_unavailable \<and>
    fst (sha_digest (sha_dispose s')) = Inl Hash_unavailable \<and>
    set (sha_state (sha_dispose s)) \<subseteq> {0} \<and> set (sha_block (sha_dispose s)) \<subseteq> {0}"
proof -
  have s': "sha_finalized s'" "d = state_bytes (sha_state s')" "\<not> sha_disposed s"
    and app: "s' = sha_append (padding (sha_totalBytes s)) (s\<lparr>sha_finalized := True\<rparr>)"
    using assms(1) by (auto simp: sha_digest_def Let_def split: if_splits)
  have "length (sha_state (append_byte b s)) = length (sha_state s)" for b s
    by (simp add: append_byte_def Let_def)
  then have "length (sha_state (sha_append bs s)) = length (sha_state s)" for bs s
    by (induction bs arbitrary: s) (simp_all add: sha_append_def)
  then have "length (sha_state s') = length (initial_state (sha_algorithm s))"
    using app assms(2) by simp
  then have "length d = (case sha_algorithm s of Sha1 \<Rightarrow> 20 | Sha256 \<Rightarrow> 32)"
    using s'(2) by (simp add: state_bytes_concat length_concat comp_def sum_list_triv initial_state_def
        split: algorithm.split)
  then show ?thesis using s' by (auto simp: sha_update_def sha_digest_def sha_dispose_def)
qed

theorem digest_is_final_witness:
  "\<exists>d s'. sha_digest (new_sha Sha1) = (Inr d, s') \<and> length d = 20 \<and>
     fst (sha_update [1, 2] s') = Inl Hash_unavailable"
proof -
  obtain d s' where d: "sha_digest (new_sha Sha1) = (Inr d, s')" using sha_digest_fed [OF fed_new] by blast
  have "length (sha_state (new_sha Sha1)) = length (initial_state (sha_algorithm (new_sha Sha1)))"
    by (simp add: new_sha_def)
  from digest_is_final [OF d this] d show ?thesis by (auto simp: new_sha_def)
qed

end
