(* ===== verification/Aes_Gcm.thy ===== *)
theory Aes_Gcm
  imports Bytes
begin

unbundle bit_operations_syntax

text \<open>
  AES-256 (\<open>crypto/aes-block.ts\<close>), the primitives of Galois/Counter mode
  (\<open>crypto/gcm-primitives.ts\<close>) and the incremental cipher object \<open>Aes256Gcm\<close>
  (\<open>crypto/aes-gcm.ts\<close>).  A \<open>bigint\<close> of the source stays below 2^128 and is a 128-bit word.
\<close>

section \<open>AES\<close>

definition multiplyByte :: "byte \<Rightarrow> byte \<Rightarrow> byte" where
  "multiplyByte left right =
     (let (_, _, result) = fold (\<lambda>_ (a, b, result).
        let result = (if b AND 1 \<noteq> 0 then result XOR a else result);
            highBit = a AND 0x80; a = push_bit 1 a;
            a = (if highBit \<noteq> 0 then a XOR 0x1B else a)
        in (a, drop_bit 1 b, result)) [0..<(8 :: nat)] (left, right, 0)
      in result)"

definition rotateByte :: "byte \<Rightarrow> nat \<Rightarrow> byte" where
  "rotateByte value bits = push_bit bits value OR drop_bit (8 - bits) value"

fun power_loop :: "byte \<Rightarrow> byte \<Rightarrow> nat \<Rightarrow> byte" where
  "power_loop inverted base exponent =
     (if exponent = 0 then inverted
      else power_loop (if odd exponent then multiplyByte inverted base else inverted)
             (multiplyByte base base) (exponent div 2))"

declare power_loop.simps [simp del]

definition createSBox :: "byte list" where
  "createSBox = map (\<lambda>value.
     let inverted = (if value = 0 then 0 else power_loop 1 (word_of_nat value) 254)
     in inverted XOR rotateByte inverted 1 XOR rotateByte inverted 2 XOR rotateByte inverted 3 XOR
        rotateByte inverted 4 XOR 0x63) [0..<256]"

definition AES_SBOX :: "byte list" where
  "AES_SBOX = createSBox"

definition rotateWord :: "u32 \<Rightarrow> u32" where
  "rotateWord word = push_bit 8 word OR drop_bit 24 word"

definition substituteWord :: "u32 \<Rightarrow> u32" where
  "substituteWord word =
     push_bit 24 (ucast (AES_SBOX ! unat (drop_bit 24 word))) OR
     push_bit 16 (ucast (AES_SBOX ! unat (drop_bit 16 word AND 0xFF))) OR
     push_bit 8 (ucast (AES_SBOX ! unat (drop_bit 8 word AND 0xFF))) OR
     ucast (AES_SBOX ! unat (word AND 0xFF))"

definition expandAes256Key :: "byte list \<Rightarrow> u32 list" where
  "expandAes256Key key =
     (let words = fold (\<lambda>i ws. ws[i := readWord key (i * 4)]) [0..<8] (replicate 60 0)
      in fst (fold (\<lambda>i (ws, roundConstant :: byte).
           let temporary = ws ! (i - 1)
           in if i mod 8 = 0
              then (ws[i := ws ! (i - 8) XOR (substituteWord (rotateWord temporary) XOR push_bit 24 (ucast roundConstant))],
                    multiplyByte roundConstant 2)
              else if i mod 8 = 4 then (ws[i := ws ! (i - 8) XOR substituteWord temporary], roundConstant)
              else (ws[i := ws ! (i - 8) XOR temporary], roundConstant)) [8..<60] (words, 1)))"

definition addRoundKey :: "u32 list \<Rightarrow> nat \<Rightarrow> byte list \<Rightarrow> byte list" where
  "addRoundKey words rnd state =
     fold (\<lambda>column st. let word = words ! (rnd * 4 + column); offset = column * 4
        in st[offset := st ! offset XOR ucast (drop_bit 24 word),
              offset + 1 := st ! (offset + 1) XOR ucast (drop_bit 16 word),
              offset + 2 := st ! (offset + 2) XOR ucast (drop_bit 8 word),
              offset + 3 := st ! (offset + 3) XOR ucast word]) [0..<4] state"

definition substituteBytes :: "byte list \<Rightarrow> byte list" where
  "substituteBytes state = fold (\<lambda>i st. st[i := AES_SBOX ! unat (st ! i)]) [0..<16] state"

definition shiftRows :: "byte list \<Rightarrow> byte list" where
  "shiftRows state =
     (let copy = fold (\<lambda>row cp. fold (\<lambda>column cp.
            cp[row + column * 4 := state ! (row + ((column + row) mod 4) * 4)]) [0..<4] cp)
          [0..<4] (replicate 16 0)
      in fold (\<lambda>i st. st[i := copy ! i]) [0..<16] state)"

definition mixColumns :: "byte list \<Rightarrow> byte list" where
  "mixColumns state =
     fold (\<lambda>column st. let offset = column * 4; first = st ! offset; second = st ! (offset + 1);
            third = st ! (offset + 2); fourth = st ! (offset + 3)
        in st[offset := multiplyByte first 2 XOR multiplyByte second 3 XOR third XOR fourth,
              offset + 1 := first XOR multiplyByte second 2 XOR multiplyByte third 3 XOR fourth,
              offset + 2 := first XOR second XOR multiplyByte third 2 XOR multiplyByte fourth 3,
              offset + 3 := multiplyByte first 3 XOR second XOR third XOR multiplyByte fourth 2])
       [0..<4] state"

definition encryptBlock :: "u32 list \<Rightarrow> byte list \<Rightarrow> byte list" where
  "encryptBlock schedule input =
     (let state = fold (\<lambda>i st. st[i := input ! i]) [0..<16] (replicate 16 0);
          state = addRoundKey schedule 0 state;
          state = fold (\<lambda>rnd st. addRoundKey schedule rnd (mixColumns (shiftRows (substituteBytes st))))
                    [1..<14] state
      in addRoundKey schedule 14 (shiftRows (substituteBytes state)))"

section \<open>Primitives of the mode\<close>

type_synonym big = "128 word"

definition GCM_REDUCTION :: big where
  "GCM_REDUCTION = 0xE1000000000000000000000000000000"

definition blockToBigInt :: "byte list \<Rightarrow> big" where
  "blockToBigInt block = fold (\<lambda>i value. push_bit 8 value OR ucast (block ! i)) [0..<16] 0"

definition bigIntToBlock :: "big \<Rightarrow> byte list" where
  "bigIntToBlock value =
     fst (fold (\<lambda>i (block, remaining). (block[i := ucast (remaining AND 0xFF)], drop_bit 8 remaining))
            (rev [0..<16]) (replicate 16 0, value))"

definition multiplyGalois :: "big \<Rightarrow> big \<Rightarrow> big" where
  "multiplyGalois left right =
     fst (fold (\<lambda>i (result, value).
       (if left AND push_bit (127 - i) 1 \<noteq> 0 then result XOR value else result,
        if value AND 1 = 0 then drop_bit 1 value else drop_bit 1 value XOR GCM_REDUCTION))
       [0..<128] (0, right))"

fun increment_from :: "nat list \<Rightarrow> byte list \<Rightarrow> byte list" where
  "increment_from [] counter = counter"
| "increment_from (i # is) counter =
     (let c = counter[i := counter ! i + 1] in if c ! i \<noteq> 0 then c else increment_from is c)"

definition incrementCounter :: "byte list \<Rightarrow> byte list" where
  "incrementCounter counter = increment_from [15, 14, 13, 12] counter"

definition writeUint64Bits :: "byte list \<Rightarrow> nat \<Rightarrow> nat \<Rightarrow> byte list" where
  "writeUint64Bits block offset byteLength =
     (let bitLength = int byteLength * 8;
          high = word_of_int (bitLength div 2 ^ 32); low = word_of_int bitLength
      in writeWord (writeWord block offset high) (offset + 4) low)"

section \<open>\<open>Aes256Gcm\<close>\<close>

datatype gcm_error = Cipher_unavailable | Aad_is_finalized | Auth_tag_state_is_invalid

record gcm =
  g_aadPending :: "byte list"
  g_cipherPending :: "byte list"
  g_counter :: "byte list"
  g_decrypt :: bool
  g_hashSubkey :: big
  g_schedule :: "u32 list"
  g_tagMask :: "byte list"
  g_aadBytes :: nat
  g_aadFinished :: bool
  g_authTag :: "byte list option"
  g_cipherBytes :: nat
  g_disposed :: bool
  g_finalized :: bool
  g_ghash :: big
  g_streamBlock :: "byte list"
  g_streamOffset :: nat

record gcm_result =
  authenticated :: "bool option"
  authTag :: "byte list option"
  result_output :: "byte list"

text \<open>A byte that is not there is stored as zero by the typed array.\<close>

definition byte_at :: "byte list \<Rightarrow> nat \<Rightarrow> byte" where
  "byte_at xs i = (if i < length xs then xs ! i else 0)"

definition new_gcm :: "byte list \<Rightarrow> byte list \<Rightarrow> bool \<Rightarrow> gcm" where
  "new_gcm key iv decrypt =
     (let schedule = expandAes256Key key;
          counter = (fold (\<lambda>i c. c[i := byte_at iv i]) [0..<12] (replicate 16 0))[15 := 1]
      in \<lparr>g_aadPending = [], g_cipherPending = [], g_counter = counter, g_decrypt = decrypt,
          g_hashSubkey = blockToBigInt (encryptBlock schedule (replicate 16 0)), g_schedule = schedule,
          g_tagMask = encryptBlock schedule counter, g_aadBytes = 0, g_aadFinished = False,
          g_authTag = None, g_cipherBytes = 0, g_disposed = False, g_finalized = False, g_ghash = 0,
          g_streamBlock = replicate 16 0, g_streamOffset = 16\<rparr>)"

definition assertActive :: "(gcm, gcm_error, unit) op" where
  "assertActive s = (if g_disposed s \<or> g_finalized s then (Inl Cipher_unavailable, s) else (Inr (), s))"

definition processGhashBlock :: "big \<Rightarrow> byte list \<Rightarrow> big \<Rightarrow> big" where
  "processGhashBlock subkey block ghash = multiplyGalois (ghash XOR blockToBigInt block) subkey"

definition appendGhashBytes :: "big \<Rightarrow> byte list \<Rightarrow> byte list \<times> big \<Rightarrow> byte list \<times> big" where
  "appendGhashBytes subkey input =
     fold (\<lambda>b (pending, ghash).
       let pending = pending @ [b]
       in if length pending = 16 then ([], processGhashBlock subkey pending ghash) else (pending, ghash)) input"

definition finishPending :: "big \<Rightarrow> byte list \<times> big \<Rightarrow> byte list \<times> big" where
  "finishPending subkey = (\<lambda>(pending, ghash).
     if pending = [] then (pending, ghash)
     else ([], processGhashBlock subkey
                 (fold (\<lambda>i block. block[i := pending ! i]) [0..<length pending] (replicate 16 0)) ghash))"

definition finishAAD :: "gcm \<Rightarrow> gcm" where
  "finishAAD s =
     (if g_aadFinished s then s
      else let (pending, ghash) = finishPending (g_hashSubkey s) (g_aadPending s, g_ghash s)
           in s\<lparr>g_aadPending := pending, g_ghash := ghash, g_aadFinished := True\<rparr>)"

definition setAAD :: "byte list \<Rightarrow> (gcm, gcm_error, unit) op" where
  "setAAD aad =
     seqE assertActive (\<lambda>_ s.
       if g_aadFinished s then (Inl Aad_is_finalized, s)
       else let (pending, ghash) = appendGhashBytes (g_hashSubkey s) aad (g_aadPending s, g_ghash s)
            in (Inr (), s\<lparr>g_aadBytes := g_aadBytes s + length aad, g_aadPending := pending, g_ghash := ghash\<rparr>))"

definition setAuthTag :: "byte list \<Rightarrow> (gcm, gcm_error, unit) op" where
  "setAuthTag tag =
     seqE assertActive (\<lambda>_ s.
       if \<not> g_decrypt s \<or> g_authTag s \<noteq> None then (Inl Auth_tag_state_is_invalid, s)
       else (Inr (), s\<lparr>g_authTag := Some tag\<rparr>))"

type_synonym key_stream = "byte list \<times> byte list \<times> nat"

text \<open>The byte loop of \<open>update\<close>: counter, current block of key stream, offset in it.\<close>

fun crypt_bytes :: "u32 list \<Rightarrow> byte list \<Rightarrow> key_stream \<Rightarrow> byte list \<times> key_stream" where
  "crypt_bytes schedule [] k = ([], k)"
| "crypt_bytes schedule (b # bs) (counter, streamBlock, streamOffset) =
     (let (counter, streamBlock, streamOffset) =
            (if streamOffset = 16
             then (let c = incrementCounter counter in (c, encryptBlock schedule c, 0))
             else (counter, streamBlock, streamOffset));
          (out, k) = crypt_bytes schedule bs (counter, streamBlock, streamOffset + 1)
      in ((b XOR streamBlock ! streamOffset) # out, k))"

definition gcm_update :: "byte list \<Rightarrow> (gcm, gcm_error, byte list) op" where
  "gcm_update input =
     seqE assertActive (\<lambda>_ s0.
       let s = finishAAD s0;
           (out, (counter, streamBlock, streamOffset)) =
             crypt_bytes (g_schedule s) input (g_counter s, g_streamBlock s, g_streamOffset s);
           (pending, ghash) = appendGhashBytes (g_hashSubkey s) (if g_decrypt s then input else out)
             (g_cipherPending s, g_ghash s)
       in (Inr out, s\<lparr>g_counter := counter, g_streamBlock := streamBlock, g_streamOffset := streamOffset,
             g_cipherBytes := g_cipherBytes s + length input, g_cipherPending := pending, g_ghash := ghash\<rparr>))"

definition gcm_final :: "(gcm, gcm_error, gcm_result) op" where
  "gcm_final =
     seqE assertActive (\<lambda>_ s0.
       let s = finishAAD (s0\<lparr>g_finalized := True\<rparr>);
           (pending, ghash) = finishPending (g_hashSubkey s) (g_cipherPending s, g_ghash s);
           lengths = writeUint64Bits (writeUint64Bits (replicate 16 0) 0 (g_aadBytes s)) 8 (g_cipherBytes s);
           ghash = processGhashBlock (g_hashSubkey s) lengths ghash;
           hash = bigIntToBlock ghash;
           tag = fold (\<lambda>i t. t[i := hash ! i XOR g_tagMask s ! i]) [0..<16] (replicate 16 0);
           s1 = s\<lparr>g_cipherPending := pending, g_ghash := ghash\<rparr>
       in if g_decrypt s
          then let supplied = g_authTag s;
                   difference = (case supplied of None \<Rightarrow> 1 | Some t \<Rightarrow> if length t \<noteq> 16 then 1 else 0);
                   difference = fold (\<lambda>i d. d OR (tag ! i XOR (case supplied of None \<Rightarrow> 0 | Some t \<Rightarrow> byte_at t i)))
                     [0..<16] difference
               in (Inr \<lparr>authenticated = Some (difference = 0), authTag = None, result_output = []\<rparr>, s1)
          else (Inr \<lparr>authenticated = None, authTag = Some tag, result_output = []\<rparr>, s1))"

definition gcm_dispose :: "gcm \<Rightarrow> gcm" where
  "gcm_dispose s =
     (if g_disposed s then s
      else s\<lparr>g_schedule := map (\<lambda>_. 0) (g_schedule s), g_counter := map (\<lambda>_. 0) (g_counter s),
             g_streamBlock := map (\<lambda>_. 0) (g_streamBlock s), g_tagMask := map (\<lambda>_. 0) (g_tagMask s),
             g_authTag := map_option (\<lambda>t. map (\<lambda>i. if i < 16 then 0 else t ! i) [0..<length t]) (g_authTag s),
             g_aadPending := [], g_cipherPending := [], g_ghash := 0, g_disposed := True\<rparr>)"

section \<open>The primitives\<close>

definition big_of :: "byte list \<Rightarrow> big" where
  "big_of bs = fold (\<lambda>b v. push_bit 8 v OR ucast b) bs 0"

lemma big_of_Nil [simp]: "big_of [] = 0"
  by (simp add: big_of_def)

lemma big_of_snoc: "big_of (bs @ [b]) = push_bit 8 (big_of bs) OR ucast b"
  by (simp add: big_of_def)

lemma big_of_bound: "bit (big_of bs) n \<Longrightarrow> n < 8 * length bs"
proof (induction bs arbitrary: n rule: rev_induct)
  case (snoc b bs)
  then show ?case
    by (fastforce simp: big_of_snoc bit_or_iff bit_push_bit_iff bit_ucast_iff dest: bit_imp_le_length)
qed simp

lemma big_of_shift:
  assumes "length bs < 16"
  shows "drop_bit 8 (big_of (bs @ [b])) = big_of bs" "ucast (big_of (bs @ [b]) AND 0xFF) = b"
proof -
  show "drop_bit 8 (big_of (bs @ [b])) = big_of bs"
  proof (rule bit_word_eqI)
    fix n assume n: "n < LENGTH(128)"
    have "bit (big_of bs) n \<Longrightarrow> 8 + n < 128" using big_of_bound [of bs n] assms by simp
    moreover have "\<not> bit b (n + 8)" by (auto dest: bit_imp_le_length)
    ultimately show "bit (drop_bit 8 (big_of (bs @ [b]))) n = bit (big_of bs) n"
      by (auto simp: big_of_snoc bit_drop_bit_eq bit_or_iff bit_push_bit_iff bit_ucast_iff add.commute)
  qed
  have m: "v AND 0xFF = take_bit 8 v" for v :: big by (simp add: take_bit_eq_mask mask_eq_exp_minus_1)
  show "ucast (big_of (bs @ [b]) AND 0xFF) = b"
    by (rule bit_word_eqI)
       (auto simp: m big_of_snoc bit_take_bit_iff bit_or_iff bit_push_bit_iff bit_ucast_iff)
qed

lemma blockToBigInt_big_of: "length block = 16 \<Longrightarrow> blockToBigInt block = big_of block"
proof -
  assume l: "length block = 16"
  have "fold (\<lambda>i v. push_bit 8 v OR ucast (block ! i)) [0..<n] 0 = big_of (take n block)" if "n \<le> 16" for n
    using that l by (induction n) (simp_all add: take_Suc_conv_app_nth big_of_snoc)
  from this [of 16] show ?thesis using l by (simp add: blockToBigInt_def)
qed

lemma bigIntToBlock_loop:
  assumes "length bs \<le> 16" "length block = 16"
  shows "fst (fold (\<lambda>i (block, remaining). (block[i := ucast (remaining AND 0xFF)], drop_bit 8 remaining))
     (rev [0..<length bs]) (block, big_of bs)) = bs @ drop (length bs) block"
  using assms
proof (induction bs arbitrary: block rule: rev_induct)
  case (snoc b bs)
  let ?blk = "block[length bs := b]"
  have "drop (length bs) ?blk = b # drop (Suc (length bs)) block"
    using snoc.prems by (simp add: drop_update_swap Cons_nth_drop_Suc [symmetric])
  then show ?case using snoc big_of_shift [of bs b] by simp
qed simp

lemma xor_fold:
  "fst (fold (\<lambda>i (r, v). (if bit (a :: big) (127 - i) then r XOR v else r, g v)) is (r1, v)) XOR
   fst (fold (\<lambda>i (r, v). (if bit b (127 - i) then r XOR v else r, g v)) is (r2, v)) =
   fst (fold (\<lambda>i (r, v). (if bit (a XOR b) (127 - i) then r XOR v else r, g v)) is (r1 XOR r2, v :: big))"
proof (induction "is" arbitrary: r1 r2 v)
  case (Cons i "is")
  have "(if bit (a XOR b) (127 - i) then (r1 XOR r2) XOR v else r1 XOR r2) =
      (if bit a (127 - i) then r1 XOR v else r1) XOR (if bit b (127 - i) then r2 XOR v else r2)"
    by (auto simp: bit_xor_iff intro!: bit_eqI)
  then show ?case using Cons by simp
qed simp

lemma test_bit: "left AND push_bit n 1 \<noteq> 0 \<longleftrightarrow> bit (left :: big) n"
  by (simp only: bit_iff_and_push_bit_not_eq_0)

definition galois_step :: "big \<Rightarrow> big" where
  "galois_step value = (if value AND 1 = 0 then drop_bit 1 value else drop_bit 1 value XOR GCM_REDUCTION)"

lemma multiplyGalois_fold:
  "multiplyGalois left right =
     fst (fold (\<lambda>i (r, v). (if bit left (127 - i) then r XOR v else r, galois_step v)) [0..<128] (0, right))"
  unfolding multiplyGalois_def test_bit galois_step_def ..

lemma multiplyGalois_xor: "multiplyGalois (a XOR b) h = multiplyGalois a h XOR multiplyGalois b h"
  using xor_fold [of a galois_step "[0..<128]" 0 h b 0] by (simp add: multiplyGalois_fold)

text \<open>The counter: its last four bytes are a big-endian word that is incremented with wrap-around.\<close>

lemma readWord_sum:
  "readWord (xs @ [a, b, c, d] @ ys) (length xs) =
     ucast a * 2 ^ 24 + ucast b * 2 ^ 16 + ucast c * 2 ^ 8 + ucast d"
proof -
  have disj: "x + y = x OR y" if "\<And>n. bit x n \<Longrightarrow> m \<le> n" "\<And>n. bit y n \<Longrightarrow> n < m" for x y :: u32 and m
    using that by (intro disjunctive_add) (metis leD)
  have lo: "bit (ucast v :: u32) n \<Longrightarrow> n < 8" for v :: byte and n
    by (auto simp: bit_ucast_iff dest: bit_imp_le_length)
  have cd: "push_bit 8 (ucast c) + ucast d = push_bit 8 (ucast c) OR (ucast d :: u32)"
    by (rule disj [of _ 8]) (auto simp: bit_push_bit_iff dest: lo)
  have bcd: "push_bit 16 (ucast b) + (push_bit 8 (ucast c) OR ucast d) =
      push_bit 16 (ucast b) OR (push_bit 8 (ucast c) OR (ucast d :: u32))"
    by (rule disj [of _ 16]) (fastforce simp: bit_push_bit_iff bit_or_iff dest: lo)+
  have "push_bit 24 (ucast a) + (push_bit 16 (ucast b) OR (push_bit 8 (ucast c) OR ucast d)) =
      push_bit 24 (ucast a) OR (push_bit 16 (ucast b) OR (push_bit 8 (ucast c) OR (ucast d :: u32)))"
    by (rule disj [of _ 24]) (fastforce simp: bit_push_bit_iff bit_or_iff dest: lo)+
  with cd bcd have "push_bit 24 (ucast a) OR (push_bit 16 (ucast b) OR (push_bit 8 (ucast c) OR (ucast d :: u32))) =
      push_bit 24 (ucast a) + (push_bit 16 (ucast b) + (push_bit 8 (ucast c) + ucast d))"
    by metis
  then show ?thesis
    unfolding readWord_append or.assoc by (simp only: push_bit_eq_mult add.assoc)
qed

lemma wraps: "b + 1 = 0 \<longleftrightarrow> b = (255 :: byte)" "1 + b = 0 \<longleftrightarrow> b = (255 :: byte)"
proof -
  have e: "(255 + 1 :: byte) = 0" by simp
  show w: "b + 1 = 0 \<longleftrightarrow> b = (255 :: byte)" by (rule add_right_cancel [of b 1 255, unfolded e])
  then show "1 + b = 0 \<longleftrightarrow> b = (255 :: byte)" by (simp only: add.commute)
qed

lemma ucast_inc:
  fixes b :: byte
  shows "b + 1 \<noteq> 0 \<Longrightarrow> (ucast (b + 1) :: u32) = ucast b + 1" "b + 1 = 0 \<Longrightarrow> (ucast b + 1 :: u32) = 256"
proof -
  assume "b + 1 \<noteq> 0"
  then have "unat (b + 1) = unat b + 1" by (simp add: unatSuc add.commute)
  then have "word_of_nat (unat (b + 1)) = (word_of_nat (unat b) + 1 :: u32)" by simp
  then show "(ucast (b + 1) :: u32) = ucast b + 1" by simp
next
  assume "b + 1 = 0"
  then have "b = 255" by (simp only: wraps(1))
  then show "(ucast b + 1 :: u32) = 256" by simp
qed

lemma four_bytes: "length (ys :: byte list) = 4 \<Longrightarrow> \<exists>a b c d. ys = [a, b, c, d]"
  by (auto simp: length_Suc_conv numeral_eq_Suc)

lemma increment_from_suffix:
  "length xs = 12 \<Longrightarrow> increment_from [15, 14, 13, 12] (xs @ [a, b, c, d]) =
      (if d + 1 \<noteq> 0 then xs @ [a, b, c, d + 1] else if c + 1 \<noteq> 0 then xs @ [a, b, c + 1, 0]
       else if b + 1 \<noteq> 0 then xs @ [a, b + 1, 0, 0] else xs @ [a + 1, 0, 0, 0])"
  by (simp add: Let_def list_update_append nth_append)

lemma incrementCounter_word:
  assumes "length counter = 16"
  shows "take 12 (incrementCounter counter) = take 12 counter \<and>
    readWord (incrementCounter counter) 12 = readWord counter 12 + 1 \<and> length (incrementCounter counter) = 16"
proof -
  define xs where "xs = take 12 counter"
  have "length (drop 12 counter) = 4" using assms by simp
  from four_bytes [OF this] obtain a b c d where abcd: "drop 12 counter = [a, b, c, d]" by blast
  have l: "length xs = 12" and cnt: "counter = xs @ [a, b, c, d]"
    using assms abcd append_take_drop_id [of 12 counter] by (simp_all add: xs_def)
  have rd: "readWord (xs @ [p, q, r, s]) 12 = ucast p * 2 ^ 24 + ucast q * 2 ^ 16 + ucast r * 2 ^ 8 + ucast s" for p q r s
    using readWord_sum [of xs p q r s "[]"] l by simp
  have inc: "incrementCounter counter =
      (if d + 1 \<noteq> 0 then xs @ [a, b, c, d + 1] else if c + 1 \<noteq> 0 then xs @ [a, b, c + 1, 0]
       else if b + 1 \<noteq> 0 then xs @ [a, b + 1, 0, 0] else xs @ [a + 1, 0, 0, 0])"
    unfolding incrementCounter_def cnt using l by (rule increment_from_suffix)
  show ?thesis
  proof (intro conjI)
    show "take 12 (incrementCounter counter) = take 12 counter" "length (incrementCounter counter) = 16"
      unfolding inc using l by (simp_all add: cnt)
    consider "d + 1 \<noteq> 0" | "d + 1 = 0" "c + 1 \<noteq> 0" | "d + 1 = 0" "c + 1 = 0" "b + 1 \<noteq> 0"
      | "d + 1 = 0" "c + 1 = 0" "b + 1 = 0" "a + 1 \<noteq> 0" | "d + 1 = 0" "c + 1 = 0" "b + 1 = 0" "a + 1 = 0" by blast
    then show "readWord (incrementCounter counter) 12 = readWord counter 12 + 1"
    proof cases
      case 1
      then show ?thesis unfolding inc unfolding cnt by (simp add: rd ucast_inc(1))
    next
      case 2
      from 2(1) have "d = 255" by (simp only: wraps)
      with 2(2) show ?thesis unfolding inc unfolding cnt by (simp add: rd ucast_inc(1))
    next
      case 3
      from 3(1,2) have "d = 255" "c = 255" by (simp_all only: wraps)
      with 3(3) show ?thesis unfolding inc unfolding cnt by (simp add: rd ucast_inc(1))
    next
      case 4
      from 4(1,2,3) have "d = 255" "c = 255" "b = 255" by (simp_all only: wraps)
      with 4(4) show ?thesis unfolding inc unfolding cnt by (simp add: rd ucast_inc(1))
    next
      case 5
      then have "d = 255" "c = 255" "b = 255" "a = 255" by (simp_all only: wraps)
      then show ?thesis unfolding inc unfolding cnt by (simp add: rd)
    qed
  qed
qed

end
