(* ===== verification/Gcm_Correct.thy ===== *)
theory Gcm_Correct
  imports Aes_Gcm
begin

unbundle bit_operations_syntax

text \<open>
  Correctness of the authenticated cipher: the multiplication of the hash is that of a
  commutative ring, and the incremental object computes counter mode and the tag of
  Galois/Counter mode whatever the chunks it is fed in.
\<close>

section \<open>The multiplication\<close>

text \<open>Multiplication by the indeterminate is additive, and so is the product in each argument.\<close>

lemma galois_step_xor: "galois_step (a XOR b) = galois_step a XOR galois_step b"
proof -
  have o: "(v AND 1 = 0) = (\<not> bit v 0)" for v :: big by (simp add: and_one_eq even_iff_mod_2_eq_zero [symmetric] bit_0)
  have d: "drop_bit 1 (a XOR b) = drop_bit 1 a XOR drop_bit 1 b" by (rule bit_eqI) (simp add: bit_drop_bit_eq bit_xor_iff)
  show ?thesis unfolding galois_step_def o d
    by (cases "bit a 0"; cases "bit b 0") (simp_all add: bit_xor_iff ac_simps xor.left_commute)
qed

lemma fold_right_xor:
  "fst (fold (\<lambda>i (r, v). (if c i then r XOR v else r, galois_step v)) is (r1, v1)) XOR
   fst (fold (\<lambda>i (r, v). (if c i then r XOR v else r, galois_step v)) is (r2, v2)) =
   fst (fold (\<lambda>i (r, v). (if c i then r XOR v else r, galois_step v)) is (r1 XOR r2, v1 XOR v2))"
proof (induction "is" arbitrary: r1 r2 v1 v2)
  case (Cons i "is")
  have "(r1 XOR r2) XOR (v1 XOR v2) = (r1 XOR v1) XOR (r2 XOR v2)" by (simp add: ac_simps)
  then show ?case using Cons by (simp add: galois_step_xor)
qed simp

lemma multiplyGalois_xor_right: "multiplyGalois a (h XOR k) = multiplyGalois a h XOR multiplyGalois a k"
  using fold_right_xor [of "\<lambda>i. bit a (127 - i)" "[0..<128]" 0 h 0 k] by (simp add: multiplyGalois_fold)

text \<open>An xor_hom function is known by its values on the powers of the indeterminate.\<close>

definition X :: "nat \<Rightarrow> big" where
  "X i = push_bit (127 - i) 1"

lemma bit_X: "m < 128 \<Longrightarrow> bit (X i) m \<longleftrightarrow> m = 127 - i"
  by (auto simp: X_def push_bit_of_1 bit_exp_iff)

definition xor_hom :: "(big \<Rightarrow> big) \<Rightarrow> bool" where
  "xor_hom f \<longleftrightarrow> (\<forall>a b. f (a XOR b) = f a XOR f b)"

lemma xor_hom_eq:
  assumes "xor_hom f" "xor_hom g" "\<And>i. i < 128 \<Longrightarrow> f (X i) = g (X i)"
  shows "f a = g a"
proof -
  have f0: "f 0 = 0" and g0: "g 0 = 0" using assms(1,2) by (metis xor_hom_def xor_self_eq)+
  have "f (take_bit n a) = g (take_bit n a)" if "n \<le> 128" for n
    using that
  proof (induction n)
    case (Suc n)
    have t: "take_bit (Suc n) a = (if bit a n then X (127 - n) else 0) XOR take_bit n a"
      using Suc.prems by (intro bit_word_eqI)
        (auto simp: bit_X bit_xor_iff bit_take_bit_iff less_Suc_eq)
    show ?case unfolding t using Suc assms by (auto simp: xor_hom_def f0 g0)
  qed (simp add: f0 g0)
  from this [of 128] show ?thesis by (simp add: take_bit_word_eq_self)
qed

lemma xor_hom_left: "xor_hom (\<lambda>a. multiplyGalois a h)"
  by (simp add: xor_hom_def multiplyGalois_xor)

lemma xor_hom_right: "xor_hom (multiplyGalois a)"
  by (simp add: xor_hom_def multiplyGalois_xor_right)

lemma xor_hom_comp: "xor_hom f \<Longrightarrow> xor_hom g \<Longrightarrow> xor_hom (\<lambda>a. f (g a))"
  by (simp add: xor_hom_def)

lemma single_bit_fold:
  "(\<And>i. i < m \<Longrightarrow> c i \<longleftrightarrow> i = k) \<Longrightarrow>
   fold (\<lambda>i (r, v). (if c i then r XOR v else r, galois_step v)) [0..<m] (0, h) =
     ((if k < m then (galois_step ^^ k) h else 0), (galois_step ^^ m) h)"
proof (induction m)
  case (Suc m)
  then have "c m \<longleftrightarrow> m = k" "\<And>i. i < m \<Longrightarrow> c i \<longleftrightarrow> i = k" by simp_all
  then show ?case using Suc.IH by (auto simp: less_Suc_eq)
qed simp

lemma multiplyGalois_X:
  assumes "i < 128" shows "multiplyGalois (X i) h = (galois_step ^^ i) h"
proof -
  have "bit (X i) (127 - j) \<longleftrightarrow> j = i" if "j < 128" for j
    using that assms by (auto simp: bit_X)
  from single_bit_fold [of 128 "\<lambda>j. bit (X i) (127 - j)" i h, OF this] show ?thesis
    using assms by (simp add: multiplyGalois_fold)
qed

lemma galois_step_X: "Suc i < 128 \<Longrightarrow> galois_step (X i) = X (Suc i)"
proof -
  assume i: "Suc i < 128"
  then have "127 - i = Suc (127 - Suc i)" by simp
  moreover have "push_bit (Suc n) 1 AND 1 = (0 :: big)" for n
    by (rule bit_eqI) (auto simp: bit_and_iff bit_push_bit_iff bit_1_iff simp del: push_bit_Suc push_bit_of_1)
  moreover have "drop_bit 1 (push_bit (Suc n) (1 :: big)) = push_bit n 1" if "Suc n < 128" for n
    using that by (intro bit_word_eqI) (auto simp: bit_drop_bit_eq bit_push_bit_iff bit_1_iff simp del: push_bit_Suc push_bit_of_1)
  ultimately show ?thesis using i by (simp only: X_def galois_step_def) simp
qed

lemma X_power: "i < 128 \<Longrightarrow> X i = (galois_step ^^ i) (X 0)"
  by (induction i) (simp_all add: galois_step_X [symmetric])

lemma product_X: "i < 128 \<Longrightarrow> j < 128 \<Longrightarrow> multiplyGalois (X i) (X j) = (galois_step ^^ (i + j)) (X 0)"
  by (simp add: multiplyGalois_X X_power [of j] funpow_add)

lemma multiplyGalois_commute: "multiplyGalois a b = multiplyGalois b a"
proof (rule xor_hom_eq [of "\<lambda>a. multiplyGalois a b" "multiplyGalois b"])
  fix i assume i: "i < (128 :: nat)"
  show "multiplyGalois (X i) b = multiplyGalois b (X i)"
    by (rule xor_hom_eq [of "multiplyGalois (X i)" "\<lambda>b. multiplyGalois b (X i)"])
       (simp_all add: xor_hom_left xor_hom_right product_X i add.commute)
qed (simp_all add: xor_hom_left xor_hom_right)

lemma multiplyGalois_assoc: "multiplyGalois (multiplyGalois a b) c = multiplyGalois a (multiplyGalois b c)"
proof -
  have xxx: "multiplyGalois (multiplyGalois (X i) (X j)) (X k) = multiplyGalois (X i) (multiplyGalois (X j) (X k))"
    if "i < 128" "j < 128" "k < 128" for i j k
  proof -
    let ?p = "\<lambda>n. (galois_step ^^ n) (X 0)"
    have add: "(galois_step ^^ m) (?p n) = ?p (m + n)" for m n by (simp add: funpow_add)
    have "multiplyGalois (multiplyGalois (X i) (X j)) (X k) = multiplyGalois (X k) (?p (i + j))"
      using that multiplyGalois_commute [of "?p (i + j)" "X k"] by (simp only: product_X)
    also have "\<dots> = ?p (k + (i + j))" using that by (simp only: multiplyGalois_X add)
    also have "\<dots> = multiplyGalois (X i) (?p (j + k))" using that by (simp only: multiplyGalois_X add) (simp add: ac_simps)
    finally show ?thesis using that by (simp only: product_X)
  qed
  have 1: "multiplyGalois (multiplyGalois (X i) (X j)) c = multiplyGalois (X i) (multiplyGalois (X j) c)"
    if "i < 128" "j < 128" for i j
    by (rule xor_hom_eq [of "multiplyGalois (multiplyGalois (X i) (X j))"])
       (simp_all add: xor_hom_right xor_hom_comp xxx that)
  have h: "xor_hom (\<lambda>b. multiplyGalois (multiplyGalois u b) c)" "xor_hom (\<lambda>b. multiplyGalois u (multiplyGalois b c))" for u
    by (simp_all add: xor_hom_def multiplyGalois_xor multiplyGalois_xor_right)
  have 2: "multiplyGalois (multiplyGalois (X i) b) c = multiplyGalois (X i) (multiplyGalois b c)" if "i < 128" for i
    by (rule xor_hom_eq [of "\<lambda>b. multiplyGalois (multiplyGalois (X i) b) c" "\<lambda>b. multiplyGalois (X i) (multiplyGalois b c)"])
       (simp_all add: h 1 that)
  show ?thesis
    by (rule xor_hom_eq [of "\<lambda>a. multiplyGalois (multiplyGalois a b) c" "\<lambda>a. multiplyGalois a (multiplyGalois b c)"])
       (simp_all add: xor_hom_left xor_hom_comp [of "\<lambda>a. multiplyGalois a c"] 2)
qed

lemma multiplyGalois_unit: "multiplyGalois (X 0) h = h"
  by (simp add: multiplyGalois_X)

section \<open>Specification of the mode\<close>

definition counter_at :: "byte list \<Rightarrow> nat \<Rightarrow> byte list" where
  "counter_at j0 n = (incrementCounter ^^ n) j0"

definition keystream :: "u32 list \<Rightarrow> byte list \<Rightarrow> nat \<Rightarrow> byte" where
  "keystream schedule j0 i = encryptBlock schedule (counter_at j0 (Suc (i div 16))) ! (i mod 16)"

text \<open>Counter mode: the text from position \<open>start\<close> on, each byte masked by the key stream.\<close>

definition ctr_mode :: "u32 list \<Rightarrow> byte list \<Rightarrow> nat \<Rightarrow> byte list \<Rightarrow> byte list" where
  "ctr_mode schedule j0 start bs = map (\<lambda>i. bs ! i XOR keystream schedule j0 (start + i)) [0..<length bs]"

text \<open>The text as blocks of sixteen bytes, the last one filled with zeros.\<close>

function blocks16 :: "byte list \<Rightarrow> byte list list" where
  "blocks16 bs = (if bs = [] then []
     else if length bs < 16 then [bs @ replicate (16 - length bs) 0]
     else take 16 bs # blocks16 (drop 16 bs))"
  by pat_completeness auto
termination by (relation "measure length") auto

declare blocks16.simps [simp del]

definition ghash_spec :: "big \<Rightarrow> byte list list \<Rightarrow> big" where
  "ghash_spec h blocks = fold (\<lambda>b y. multiplyGalois (y XOR big_of b) h) blocks 0"

definition length_block :: "nat \<Rightarrow> nat \<Rightarrow> byte list" where
  "length_block m n =
     be32 (word_of_int (int m * 8 div 2 ^ 32)) @ be32 (word_of_int (int m * 8)) @
     be32 (word_of_int (int n * 8 div 2 ^ 32)) @ be32 (word_of_int (int n * 8))"

definition gcm_tag :: "u32 list \<Rightarrow> byte list \<Rightarrow> byte list \<Rightarrow> byte list \<Rightarrow> byte list" where
  "gcm_tag schedule j0 aad cipher =
     (let h = big_of (encryptBlock schedule (replicate 16 0));
          s = ghash_spec h (blocks16 aad @ blocks16 cipher @ [length_block (length aad) (length cipher)])
      in map2 (\<lambda>a b. a XOR b) (bigIntToBlock s) (encryptBlock schedule j0))"

definition first_counter :: "byte list \<Rightarrow> byte list" where
  "first_counter iv = iv @ [0, 0, 0, 1]"

section \<open>The incremental object implements it\<close>

lemma fold_update_upt:
  "n \<le> length xs \<Longrightarrow> fold (\<lambda>i t. t[i := f i]) [0..<n] xs = map f [0..<n] @ drop n xs"
proof (induction n)
  case (Suc n)
  then have "drop n xs = xs ! n # drop (Suc n) xs" by (simp add: Cons_nth_drop_Suc)
  then show ?case using Suc by (simp add: list_update_append)
qed simp

text \<open>Sixteen bytes in, sixteen bytes out.\<close>

lemma length_fold: "(\<And>x xs. length (f x xs) = length xs) \<Longrightarrow> length (fold f ys xs) = length xs"
  by (induction ys arbitrary: xs) simp_all

lemma length_addRoundKey [simp]: "length (addRoundKey ws r st) = length st"
  unfolding addRoundKey_def by (rule length_fold) (simp add: Let_def)

lemma length_substituteBytes [simp]: "length (substituteBytes st) = length st"
  unfolding substituteBytes_def by (rule length_fold) simp

lemma length_shiftRows [simp]: "length (shiftRows st) = length st"
  unfolding shiftRows_def Let_def by (rule length_fold) simp

lemma length_mixColumns [simp]: "length (mixColumns st) = length st"
  unfolding mixColumns_def by (rule length_fold) (simp add: Let_def)

lemma length_encryptBlock [simp]: "length (encryptBlock schedule block) = 16"
proof -
  have "length (fold (\<lambda>r st. addRoundKey schedule r (mixColumns (shiftRows (substituteBytes st)))) rs st) = length st"
    for rs and st :: "byte list" by (rule length_fold) simp
  moreover have "length (fold (\<lambda>i st. st[i := block ! i]) [0..<16] (replicate 16 0)) = 16"
    by (simp add: length_fold)
  ultimately show ?thesis by (simp add: encryptBlock_def Let_def)
qed

text \<open>The position of the key stream before byte \<open>n\<close> of the text.\<close>

definition stream_at :: "u32 list \<Rightarrow> byte list \<Rightarrow> nat \<Rightarrow> key_stream \<Rightarrow> bool" where
  "stream_at schedule j0 n = (\<lambda>(counter, streamBlock, streamOffset).
     counter = counter_at j0 ((n + 15) div 16) \<and>
     (if n mod 16 = 0 then streamOffset = 16
      else streamOffset = n mod 16 \<and> streamBlock = encryptBlock schedule counter))"

lemma crypt_bytes_ctr:
  assumes "stream_at schedule j0 n k"
  shows "fst (crypt_bytes schedule bs k) = ctr_mode schedule j0 n bs \<and>
    stream_at schedule j0 (n + length bs) (snd (crypt_bytes schedule bs k))"
  using assms
proof (induction bs arbitrary: n k)
  case Nil
  then show ?case by (simp add: ctr_mode_def)
next
  case (Cons b bs)
  obtain counter blk off where k: "k = (counter, blk, off)" by (cases k)
  define c' where "c' = counter_at j0 (Suc (n div 16))"
  have adv: "(if off = 16 then (incrementCounter counter, encryptBlock schedule (incrementCounter counter), 0)
      else (counter, blk, off)) = (c', encryptBlock schedule c', n mod 16)"
  proof (cases "n mod 16 = 0")
    case True
    then obtain q where "n = 16 * q" by fastforce
    then have "(n + 15) div 16 = q" "n div 16 = q" by simp_all
    then show ?thesis using Cons.prems True by (simp add: k stream_at_def c'_def counter_at_def)
  next
    case False
    define q r where "q = n div 16" and "r = n mod 16"
    have n: "n = 16 * q + r" "0 < r" "r < 16" using False by (simp_all add: q_def r_def)
    have "(n + 15) div 16 = Suc q"
    proof -
      have "n + 15 = (r - 1) + 16 * Suc q" using n by simp
      then show ?thesis using n by (simp only: div_mult_self2)
    qed
    then show ?thesis using Cons.prems False n(3) by (simp add: k stream_at_def c'_def q_def r_def)
  qed
  let ?k1 = "(c', encryptBlock schedule c', n mod 16 + 1)"
  have d: "(Suc n + 15) div 16 = Suc (n div 16)"
    using div_add_self2 [of 16 n] by (simp add: add.commute)
  have "stream_at schedule j0 (Suc n) ?k1"
  proof (cases "n mod 16 = 15")
    case True
    then have "Suc n mod 16 = 0" by (simp add: mod_Suc)
    then show ?thesis using True d by (simp add: stream_at_def c'_def)
  next
    case False
    then have "Suc n mod 16 = n mod 16 + 1" by (simp add: mod_Suc)
    then show ?thesis using d by (simp add: stream_at_def c'_def)
  qed
  note IH = Cons.IH [OF this]
  have "crypt_bytes schedule (b # bs) k =
      ((b XOR keystream schedule j0 n) # fst (crypt_bytes schedule bs ?k1), snd (crypt_bytes schedule bs ?k1))"
    by (simp only: k crypt_bytes.simps Let_def adv) (simp add: keystream_def c'_def split: prod.split)
  moreover have "ctr_mode schedule j0 n (b # bs) = (b XOR keystream schedule j0 n) # ctr_mode schedule j0 (Suc n) bs"
    by (simp add: ctr_mode_def upt_conv_Cons map_Suc_upt [symmetric] del: upt_Suc)
  ultimately show ?case using IH by simp
qed

lemma ctr_mode_append:
  "ctr_mode schedule j0 n (xs @ ys) = ctr_mode schedule j0 n xs @ ctr_mode schedule j0 (n + length xs) ys"
  by (rule nth_equalityI) (auto simp: ctr_mode_def nth_append add.assoc)

lemma length_ctr_mode [simp]: "length (ctr_mode schedule j0 n bs) = length bs"
  by (simp add: ctr_mode_def)

lemma ctr_mode_involutive: "ctr_mode schedule j0 n (ctr_mode schedule j0 n bs) = bs"
  by (rule nth_equalityI) (simp_all add: ctr_mode_def xor.assoc)

text \<open>The hash of what was appended, and of what is still pending.\<close>

definition absorb_blocks :: "big \<Rightarrow> byte list list \<Rightarrow> big \<Rightarrow> big" where
  "absorb_blocks h blocks y = fold (\<lambda>b y. multiplyGalois (y XOR big_of b) h) blocks y"

lemma processGhashBlock_eq: "length b = 16 \<Longrightarrow> processGhashBlock h b y = multiplyGalois (y XOR big_of b) h"
  by (simp add: processGhashBlock_def blockToBigInt_big_of)

lemma finishPending_short:
  assumes "length p < 16"
  shows "finishPending h (p, y) = ([], absorb_blocks h (blocks16 p) y)"
proof (cases "p = []")
  case False
  have "fold (\<lambda>i block. block[i := p ! i]) [0..<length p] (replicate 16 0) = p @ replicate (16 - length p) 0"
    using fold_update_upt [of "length p" "replicate 16 0" "\<lambda>i. p ! i"] assms by (simp add: map_nth)
  then show ?thesis using False assms
    by (simp add: finishPending_def blocks16.simps [of p] absorb_blocks_def processGhashBlock_eq)
qed (simp add: finishPending_def blocks16.simps absorb_blocks_def)

lemma appendGhashBytes_append:
  "appendGhashBytes h (xs @ ys) st = appendGhashBytes h ys (appendGhashBytes h xs st)"
  by (simp add: appendGhashBytes_def)

lemma finish_append:
  "length p < 16 \<Longrightarrow> finishPending h (appendGhashBytes h bs (p, y)) = ([], absorb_blocks h (blocks16 (p @ bs)) y)"
proof (induction bs arbitrary: p y)
  case Nil
  then show ?case by (simp add: appendGhashBytes_def finishPending_short)
next
  case (Cons b bs)
  show ?case
  proof (cases "length p = 15")
    case True
    have "blocks16 (p @ b # bs) = (p @ [b]) # blocks16 bs"
      using True by (simp add: blocks16.simps [of "p @ b # bs"])
    moreover have "appendGhashBytes h (b # bs) (p, y) =
        appendGhashBytes h bs ([], multiplyGalois (y XOR big_of (p @ [b])) h)"
      using True by (simp add: appendGhashBytes_def processGhashBlock_eq)
    ultimately show ?thesis using Cons.IH [of "[]"] by (simp add: absorb_blocks_def)
  next
    case False
    then have "appendGhashBytes h (b # bs) (p, y) = appendGhashBytes h bs (p @ [b], y)"
      by (simp add: appendGhashBytes_def)
    then show ?thesis using Cons.IH [of "p @ [b]"] Cons.prems False by simp
  qed
qed

lemma append_empty: "appendGhashBytes h [] st = st"
  by (simp add: appendGhashBytes_def)

text \<open>
  \<open>fed\<close> states of the cipher object.  \<open>text_fed\<close> looks at the object after \<open>finishAAD\<close>, so it covers
  the time before and after the first \<open>update\<close>; \<open>aad_fed\<close> is the time before it.
\<close>

record gcm_inputs =
  in_schedule :: "u32 list"
  in_j0 :: "byte list"
  in_decrypt :: bool
  in_tag :: "byte list option"
  in_aad :: "byte list"
  in_text :: "byte list"

definition ciphertext :: "gcm_inputs \<Rightarrow> byte list" where
  "ciphertext i = (if in_decrypt i then in_text i else ctr_mode (in_schedule i) (in_j0 i) 0 (in_text i))"

definition live :: "gcm_inputs \<Rightarrow> gcm \<Rightarrow> bool" where
  "live i s \<longleftrightarrow> \<not> g_disposed s \<and> \<not> g_finalized s \<and> g_decrypt s = in_decrypt i \<and> g_authTag s = in_tag i \<and>
     g_schedule s = in_schedule i \<and> g_hashSubkey s = big_of (encryptBlock (in_schedule i) (replicate 16 0)) \<and>
     g_tagMask s = encryptBlock (in_schedule i) (in_j0 i) \<and> g_aadBytes s = length (in_aad i) \<and>
     g_cipherBytes s = length (in_text i) \<and>
     stream_at (in_schedule i) (in_j0 i) (length (in_text i)) (g_counter s, g_streamBlock s, g_streamOffset s)"

definition aad_fed :: "gcm_inputs \<Rightarrow> gcm \<Rightarrow> bool" where
  "aad_fed i s \<longleftrightarrow> live i s \<and> \<not> g_aadFinished s \<and> in_text i = [] \<and> g_cipherPending s = [] \<and>
     (g_aadPending s, g_ghash s) = appendGhashBytes (g_hashSubkey s) (in_aad i) ([], 0)"

definition text_fed :: "gcm_inputs \<Rightarrow> gcm \<Rightarrow> bool" where
  "text_fed i s \<longleftrightarrow> live i s \<and> (let t = finishAAD s in
     (g_cipherPending t, g_ghash t) =
       appendGhashBytes (g_hashSubkey t) (ciphertext i) ([], absorb_blocks (g_hashSubkey t) (blocks16 (in_aad i)) 0))"

lemma finishAAD_frame [simp]:
  "g_aadFinished (finishAAD s)" "g_disposed (finishAAD s) = g_disposed s" "g_finalized (finishAAD s) = g_finalized s"
  "g_decrypt (finishAAD s) = g_decrypt s" "g_authTag (finishAAD s) = g_authTag s"
  "g_schedule (finishAAD s) = g_schedule s" "g_hashSubkey (finishAAD s) = g_hashSubkey s"
  "g_tagMask (finishAAD s) = g_tagMask s" "g_aadBytes (finishAAD s) = g_aadBytes s"
  "g_cipherBytes (finishAAD s) = g_cipherBytes s" "g_counter (finishAAD s) = g_counter s"
  "g_streamBlock (finishAAD s) = g_streamBlock s" "g_streamOffset (finishAAD s) = g_streamOffset s"
  "g_cipherPending (finishAAD s) = g_cipherPending s"
  by (simp_all add: finishAAD_def split: prod.split)

lemma finishAAD_finished: "g_aadFinished s \<Longrightarrow> finishAAD s = s"
  by (simp add: finishAAD_def)

lemma aad_fed_text_fed:
  assumes "aad_fed i s" shows "text_fed i s"
proof -
  let ?h = "g_hashSubkey s"
  have "finishPending ?h (g_aadPending s, g_ghash s) = ([], absorb_blocks ?h (blocks16 (in_aad i)) 0)"
    using assms finish_append [of "[]" ?h "in_aad i" 0] by (simp add: aad_fed_def)
  moreover have "ciphertext i = []" using assms by (simp add: aad_fed_def ciphertext_def ctr_mode_def)
  ultimately show ?thesis using assms
    by (simp add: aad_fed_def text_fed_def finishAAD_def Let_def append_empty)
qed

definition inputs :: "byte list \<Rightarrow> byte list \<Rightarrow> bool \<Rightarrow> gcm_inputs" where
  "inputs key iv decrypt = \<lparr>in_schedule = expandAes256Key key, in_j0 = first_counter iv, in_decrypt = decrypt,
     in_tag = None, in_aad = [], in_text = []\<rparr>"

lemma new_gcm_fed:
  assumes "length iv = 12" shows "aad_fed (inputs key iv decrypt) (new_gcm key iv decrypt)"
proof -
  have "map (byte_at iv) [0..<12] = iv" using assms map_nth [of iv] by (auto simp: byte_at_def intro!: nth_equalityI)
  then have "fold (\<lambda>i c. c[i := byte_at iv i]) [0..<12] (replicate 16 0) = iv @ replicate 4 0"
    using fold_update_upt [of 12 "replicate 16 0" "byte_at iv"] by simp
  moreover have "(iv @ replicate 4 0)[15 := 1] = first_counter iv"
    using assms by (simp add: first_counter_def list_update_append numeral_eq_Suc)
  ultimately have c: "(fold (\<lambda>i c. c[i := byte_at iv i]) [0..<12] (replicate 16 0))[15 := 1] = first_counter iv"
    by simp
  show ?thesis unfolding new_gcm_def Let_def c
    by (simp add: aad_fed_def live_def inputs_def stream_at_def counter_at_def blockToBigInt_big_of append_empty)
qed

lemma setAAD_fed:
  assumes "aad_fed i s"
  shows "\<exists>s'. setAAD bs s = (Inr (), s') \<and> aad_fed (i\<lparr>in_aad := in_aad i @ bs\<rparr>) s'"
proof -
  let ?p = "appendGhashBytes (g_hashSubkey s) bs (g_aadPending s, g_ghash s)"
  let ?s = "s\<lparr>g_aadBytes := g_aadBytes s + length bs, g_aadPending := fst ?p, g_ghash := snd ?p\<rparr>"
  have e: "appendGhashBytes (g_hashSubkey s) (in_aad i) ([], 0) = (g_aadPending s, g_ghash s)"
    using assms by (simp add: aad_fed_def)
  have "setAAD bs s = (Inr (), ?s)" using assms
    by (simp add: setAAD_def seqE_def assertActive_def aad_fed_def live_def case_prod_beta)
  moreover have "live i s" using assms by (simp add: aad_fed_def)
  then have "live (i\<lparr>in_aad := in_aad i @ bs\<rparr>) ?s" by (simp add: live_def)
  then have "aad_fed (i\<lparr>in_aad := in_aad i @ bs\<rparr>) ?s" using assms
    by (simp add: aad_fed_def appendGhashBytes_append e [symmetric])
  ultimately show ?thesis by blast
qed

lemma finishAAD_authTag [simp]: "finishAAD (s\<lparr>g_authTag := t\<rparr>) = (finishAAD s)\<lparr>g_authTag := t\<rparr>"
  by (simp add: finishAAD_def split: prod.split)

lemma setAuthTag_fed:
  assumes "text_fed i s" "in_decrypt i" "in_tag i = None"
  shows "\<exists>s'. setAuthTag t s = (Inr (), s') \<and> text_fed (i\<lparr>in_tag := Some t\<rparr>) s'"
  using assms by (simp add: setAuthTag_def seqE_def assertActive_def text_fed_def live_def ciphertext_def Let_def)

lemma update_fed:
  assumes "text_fed i s"
  shows "\<exists>s'. gcm_update bs s = (Inr (ctr_mode (in_schedule i) (in_j0 i) (length (in_text i)) bs), s') \<and>
    text_fed (i\<lparr>in_text := in_text i @ bs\<rparr>) s'"
proof -
  define t where "t = finishAAD s"
  let ?i = "i\<lparr>in_text := in_text i @ bs\<rparr>"
  define c where "c = crypt_bytes (g_schedule t) bs (g_counter t, g_streamBlock t, g_streamOffset t)"
  have st: "stream_at (in_schedule i) (in_j0 i) (length (in_text i)) (g_counter t, g_streamBlock t, g_streamOffset t)"
    and live: "live i s" using assms by (simp_all add: t_def text_fed_def live_def)
  have c1: "fst c = ctr_mode (in_schedule i) (in_j0 i) (length (in_text i)) bs"
    and c2: "stream_at (in_schedule i) (in_j0 i) (length (in_text i @ bs)) (snd c)"
    using crypt_bytes_ctr [OF st, of bs] live by (simp_all add: c_def t_def live_def)
  let ?h = "g_hashSubkey t"
  define x where "x = (if g_decrypt t then bs else fst c)"
  define p where "p = appendGhashBytes ?h x (g_cipherPending t, g_ghash t)"
  have cx: "ciphertext ?i = ciphertext i @ x"
    using live by (simp add: ciphertext_def x_def c1 ctr_mode_append t_def live_def)
  let ?s = "t\<lparr>g_counter := fst (snd c), g_streamBlock := fst (snd (snd c)), g_streamOffset := snd (snd (snd c)),
     g_cipherBytes := g_cipherBytes t + length bs, g_cipherPending := fst p, g_ghash := snd p\<rparr>"
  have active: "assertActive s = (Inr (), s)" using live by (simp add: assertActive_def live_def)
  have "gcm_update bs s = (Inr (fst c), ?s)"
    unfolding gcm_update_def seqE_def active x_def p_def c_def t_def by (simp add: Let_def case_prod_beta)
  moreover have "live ?i ?s" using live c2 by (simp add: live_def t_def)
  moreover have "appendGhashBytes ?h (ciphertext ?i) ([], absorb_blocks ?h (blocks16 (in_aad i)) 0) = p"
    using assms unfolding cx appendGhashBytes_append by (simp add: text_fed_def Let_def t_def p_def)
  then have "text_fed ?i ?s" using \<open>live ?i ?s\<close>
    by (simp add: text_fed_def Let_def finishAAD_finished t_def)
  ultimately show ?thesis using c1 by auto
qed

text \<open>The last step: the tag, or the verdict on the supplied one.\<close>

lemma lengths_block:
  "writeUint64Bits (writeUint64Bits (replicate 16 0) 0 m) 8 n = length_block m n"
proof -
  have z: "replicate 16 (0 :: byte) = [] @ replicate 4 0 @ replicate 4 0 @ replicate 4 0 @ replicate 4 0"
    by (simp add: numeral_eq_Suc)
  have w: "writeUint64Bits (xs @ replicate 4 0 @ replicate 4 0 @ ys) (length xs) k =
      xs @ be32 (word_of_int (int k * 8 div 2 ^ 32)) @ be32 (word_of_int (int k * 8)) @ ys" for xs ys k
    using writeWord_append [of "replicate 4 0" "length xs" xs "replicate 4 0 @ ys"]
      writeWord_append [of "replicate 4 0" "length xs + 4" "xs @ be32 (word_of_int (int k * 8 div 2 ^ 32))" ys]
    by (simp add: writeUint64Bits_def Let_def)
  show ?thesis
    using w [of "[]" "replicate 4 0 @ replicate 4 0" m]
      w [of "be32 (word_of_int (int m * 8 div 2 ^ 32)) @ be32 (word_of_int (int m * 8))" "[]" n]
    unfolding z length_block_def by simp
qed

lemma length_bigIntToBlock [simp]: "length (bigIntToBlock v) = 16"
proof -
  have "length (fst (fold (\<lambda>i (block, remaining). (block[i := ucast (remaining AND 0xFF)], drop_bit 8 remaining))
      is (block, r))) = length block" for "is" block and r :: big
    by (induction "is" arbitrary: block r) simp_all
  from this [of "rev [0..<16]" "replicate 16 0" v] show ?thesis unfolding bigIntToBlock_def length_replicate .
qed

lemma or_fold:
  "fold (\<lambda>i d. d OR f i) is d = (0 :: byte) \<longleftrightarrow> d = 0 \<and> (\<forall>i \<in> set is. f i = 0)"
  by (induction "is" arbitrary: d) (auto simp: or_eq_0_iff)

lemma xor_eq_0: "a XOR b = (0 :: byte) \<longleftrightarrow> a = b"
  by (metis xor.right_neutral xor.assoc xor_self_eq)

lemma verdict:
  assumes "length tag = 16"
  shows "fold (\<lambda>i d. d OR (tag ! i XOR (case supplied of None \<Rightarrow> 0 | Some t \<Rightarrow> byte_at t i))) [0..<16]
      (case supplied of None \<Rightarrow> 1 | Some t \<Rightarrow> if length t \<noteq> 16 then 1 else 0) = 0 \<longleftrightarrow> supplied = Some tag"
proof (cases supplied)
  case (Some t)
  have "(\<forall>i \<in> set [0..<16]. tag ! i XOR byte_at t i = 0) \<longleftrightarrow> t = tag" if "length t = 16"
    using that assms by (auto simp: xor_eq_0 byte_at_def list_eq_iff_nth_eq)
  then show ?thesis using assms unfolding or_fold by (auto simp: Some)
qed (simp add: or_fold)

lemma final_fed:
  assumes "text_fed i s"
  shows "fst (gcm_final s) = Inr
    (let tag = gcm_tag (in_schedule i) (in_j0 i) (in_aad i) (ciphertext i)
     in if in_decrypt i then \<lparr>authenticated = Some (in_tag i = Some tag), authTag = None, result_output = []\<rparr>
        else \<lparr>authenticated = None, authTag = Some tag, result_output = []\<rparr>)"
proof -
  define t where "t = finishAAD s"
  let ?h = "big_of (encryptBlock (in_schedule i) (replicate 16 0))"
  have live: "live i s" using assms by (simp add: text_fed_def)
  have active: "assertActive s = (Inr (), s)" using live by (simp add: assertActive_def live_def)
  have t: "finishAAD (s\<lparr>g_finalized := True\<rparr>) = t\<lparr>g_finalized := True\<rparr>"
    by (simp add: t_def finishAAD_def split: prod.split)
  have h: "g_hashSubkey t = ?h" using live by (simp add: t_def live_def)
  have "finishPending ?h (g_cipherPending t, g_ghash t) =
      ([], absorb_blocks ?h (blocks16 (ciphertext i)) (absorb_blocks ?h (blocks16 (in_aad i)) 0))"
    using assms finish_append [of "[]" ?h "ciphertext i"] h by (simp add: text_fed_def Let_def t_def)
  moreover have "length (ciphertext i) = g_cipherBytes s" using live by (simp add: live_def ciphertext_def)
  ultimately have hash: "processGhashBlock ?h (length_block (g_aadBytes s) (g_cipherBytes s))
      (snd (finishPending ?h (g_cipherPending t, g_ghash t))) =
      ghash_spec ?h (blocks16 (in_aad i) @ blocks16 (ciphertext i) @ [length_block (length (in_aad i)) (length (ciphertext i))])"
    using live by (simp add: ghash_spec_def absorb_blocks_def processGhashBlock_eq length_block_def live_def)
  define tag where "tag = gcm_tag (in_schedule i) (in_j0 i) (in_aad i) (ciphertext i)"
  have ltag: "length tag = 16" by (simp add: tag_def gcm_tag_def Let_def)
  let ?b = "bigIntToBlock (ghash_spec ?h (blocks16 (in_aad i) @ blocks16 (ciphertext i) @
      [length_block (length (in_aad i)) (length (ciphertext i))]))"
  have tag: "fold (\<lambda>j t. t[j := ?b ! j XOR encryptBlock (in_schedule i) (in_j0 i) ! j]) [0..<16] (replicate 16 0) = tag"
    by (subst fold_update_upt) (auto simp: tag_def gcm_tag_def Let_def intro!: nth_equalityI)
  have mask: "g_tagMask s = encryptBlock (in_schedule i) (in_j0 i)" and hs: "g_hashSubkey s = ?h"
    using live by (simp_all add: live_def)
  note run = gcm_final_def seqE_def active lengths_block
  have "fst (gcm_final s) = Inr (if g_decrypt t
      then \<lparr>authenticated = Some (g_authTag t = Some tag), authTag = None, result_output = []\<rparr>
      else \<lparr>authenticated = None, authTag = Some tag, result_output = []\<rparr>)"
    unfolding run using hash tag verdict [OF ltag, of "g_authTag t"] mask hs arg_cong [OF t, of g_ghash]
    by (simp add: Let_def case_prod_beta t_def)
  then show ?thesis using live by (simp add: tag_def [symmetric] t_def live_def)
qed

section \<open>Whole messages\<close>

primrec each :: "('a \<Rightarrow> ('s, 'e, 'b) op) \<Rightarrow> 'a list \<Rightarrow> ('s, 'e, 'b list) op" where
  "each f [] = ret []"
| "each f (x # xs) = seqE (f x) (\<lambda>y. seqE (each f xs) (\<lambda>ys. ret (y # ys)))"

text \<open>A message sealed, and opened with the tag \<open>t\<close>, in any chunks.\<close>

definition seal :: "byte list \<Rightarrow> byte list \<Rightarrow> byte list list \<Rightarrow> byte list list \<Rightarrow> gcm_error + byte list \<times> gcm_result" where
  "seal key iv aads texts =
     fst (seqE (each setAAD aads) (\<lambda>_. seqE (each gcm_update texts) (\<lambda>outs. seqE gcm_final (\<lambda>r. ret (concat outs, r))))
       (new_gcm key iv False))"

definition open_sealed ::
    "byte list \<Rightarrow> byte list \<Rightarrow> byte list \<Rightarrow> byte list list \<Rightarrow> byte list list \<Rightarrow> gcm_error + byte list \<times> gcm_result" where
  "open_sealed key iv t aads texts =
     fst (seqE (each setAAD aads) (\<lambda>_. seqE (setAuthTag t) (\<lambda>_. seqE (each gcm_update texts) (\<lambda>outs.
       seqE gcm_final (\<lambda>r. ret (concat outs, r))))) (new_gcm key iv True))"

lemma each_setAAD:
  "aad_fed i s \<Longrightarrow> \<exists>us s'. each setAAD aads s = (Inr us, s') \<and> aad_fed (i\<lparr>in_aad := in_aad i @ concat aads\<rparr>) s'"
proof (induction aads arbitrary: i s)
  case (Cons a aads)
  obtain s1 where "setAAD a s = (Inr (), s1)" "aad_fed (i\<lparr>in_aad := in_aad i @ a\<rparr>) s1"
    using setAAD_fed [OF Cons.prems] by blast
  with Cons.IH [of "i\<lparr>in_aad := in_aad i @ a\<rparr>" s1] show ?case by (auto simp: seqE_def ret_def)
qed (simp add: ret_def)

lemma each_update:
  "text_fed i s \<Longrightarrow> \<exists>outs s'. each gcm_update bss s = (Inr outs, s') \<and>
     concat outs = ctr_mode (in_schedule i) (in_j0 i) (length (in_text i)) (concat bss) \<and>
     text_fed (i\<lparr>in_text := in_text i @ concat bss\<rparr>) s'"
proof (induction bss arbitrary: i s)
  case (Cons b bss)
  obtain s1 where "gcm_update b s = (Inr (ctr_mode (in_schedule i) (in_j0 i) (length (in_text i)) b), s1)"
    "text_fed (i\<lparr>in_text := in_text i @ b\<rparr>) s1"
    using update_fed [OF Cons.prems] by blast
  with Cons.IH [of "i\<lparr>in_text := in_text i @ b\<rparr>" s1] show ?case
    by (auto simp: seqE_def ret_def ctr_mode_append)
qed (simp add: ret_def ctr_mode_def)

lemma seal_result:
  assumes "length iv = 12"
  shows "seal key iv aads texts =
    (let ks = expandAes256Key key; j0 = first_counter iv; cipher = ctr_mode ks j0 0 (concat texts)
     in Inr (cipher, \<lparr>authenticated = None, authTag = Some (gcm_tag ks j0 (concat aads) cipher), result_output = []\<rparr>))"
proof -
  let ?i = "(inputs key iv False)\<lparr>in_aad := concat aads\<rparr>"
  obtain us s1 where 1: "each setAAD aads (new_gcm key iv False) = (Inr us, s1)" "aad_fed ?i s1"
    using each_setAAD [OF new_gcm_fed [OF assms, of key False], of aads] by (auto simp: inputs_def)
  obtain outs s2 where 2: "each gcm_update texts s1 = (Inr outs, s2)"
    "concat outs = ctr_mode (in_schedule ?i) (in_j0 ?i) (length (in_text ?i)) (concat texts)"
    "text_fed (?i\<lparr>in_text := in_text ?i @ concat texts\<rparr>) s2"
    using each_update [OF aad_fed_text_fed [OF 1(2)], of texts] by blast
  obtain r s3 where 3: "gcm_final s2 = (r, s3)" by fastforce
  show ?thesis using 1(1) 2(1,2) 3 final_fed [OF 2(3)]
    by (simp add: seal_def seqE_def ret_def inputs_def ciphertext_def Let_def)
qed

lemma open_result:
  assumes "length iv = 12"
  shows "open_sealed key iv t aads texts =
    (let ks = expandAes256Key key; j0 = first_counter iv; tag = gcm_tag ks j0 (concat aads) (concat texts)
     in Inr (ctr_mode ks j0 0 (concat texts), \<lparr>authenticated = Some (t = tag), authTag = None, result_output = []\<rparr>))"
proof -
  let ?i = "(inputs key iv True)\<lparr>in_aad := concat aads\<rparr>"
  obtain us s1 where 1: "each setAAD aads (new_gcm key iv True) = (Inr us, s1)" "aad_fed ?i s1"
    using each_setAAD [OF new_gcm_fed [OF assms, of key True], of aads] by (auto simp: inputs_def)
  let ?j = "?i\<lparr>in_tag := Some t\<rparr>"
  obtain s2 where 2: "setAuthTag t s1 = (Inr (), s2)" "text_fed ?j s2"
    using setAuthTag_fed [OF aad_fed_text_fed [OF 1(2)], of t] by (auto simp: inputs_def)
  obtain outs s3 where 3: "each gcm_update texts s2 = (Inr outs, s3)"
    "concat outs = ctr_mode (in_schedule ?j) (in_j0 ?j) (length (in_text ?j)) (concat texts)"
    "text_fed (?j\<lparr>in_text := in_text ?j @ concat texts\<rparr>) s3"
    using each_update [OF 2(2), of texts] by blast
  obtain r s4 where 4: "gcm_final s3 = (r, s4)" by fastforce
  show ?thesis using 1(1) 2(1) 3(1,2) 4 final_fed [OF 3(3)]
    by (simp add: open_sealed_def seqE_def ret_def inputs_def ciphertext_def Let_def)
qed

section \<open>Properties\<close>

text \<open>C23: Encryption with a twelve byte nonce computes AES in counter mode and the tag of
  Galois/Counter mode over the whole additional data and text, however both are cut into chunks.\<close>

theorem gcm_computes_the_mode:
  assumes "length iv = 12"
  shows "seal key iv aads texts =
    (let ks = expandAes256Key key; j0 = first_counter iv; cipher = ctr_mode ks j0 0 (concat texts)
     in Inr (cipher, \<lparr>authenticated = None, authTag = Some (gcm_tag ks j0 (concat aads) cipher), result_output = []\<rparr>))"
  using assms by (rule seal_result)

theorem gcm_computes_the_mode_witness:
  "seal (replicate 32 7) (replicate 12 0) [[1], [2, 3]] [replicate 17 5, [], [6]] =
    (let ks = expandAes256Key (replicate 32 7); j0 = replicate 12 0 @ [0, 0, 0, 1];
         cipher = ctr_mode ks j0 0 (replicate 17 5 @ [6])
     in Inr (cipher, \<lparr>authenticated = None, authTag = Some (gcm_tag ks j0 [1, 2, 3] cipher), result_output = []\<rparr>))"
  using gcm_computes_the_mode [of "replicate 12 0" "replicate 32 7" "[[1], [2, 3]]" "[replicate 17 5, [], [6]]"]
  by (simp add: first_counter_def Let_def)

text \<open>C24: What was sealed opens to the text, whatever the chunks on either side, and the
  decryptor reports success for the sealed tag and for no other.\<close>

theorem gcm_opens_what_it_sealed:
  assumes "length iv = 12"
  shows "\<exists>cipher tag.
    seal key iv aads texts = Inr (cipher, \<lparr>authenticated = None, authTag = Some tag, result_output = []\<rparr>) \<and>
    length cipher = length (concat texts) \<and> length tag = 16 \<and>
    (\<forall>aads' texts' t. concat aads' = concat aads \<longrightarrow> concat texts' = cipher \<longrightarrow>
       open_sealed key iv t aads' texts' =
         Inr (concat texts, \<lparr>authenticated = Some (t = tag), authTag = None, result_output = []\<rparr>))"
proof -
  have "length (gcm_tag ks j0 aad c) = 16" for ks j0 aad c by (simp add: gcm_tag_def Let_def)
  then show ?thesis unfolding seal_result [OF assms] open_result [OF assms] Let_def
    by (auto simp: ctr_mode_involutive)
qed

theorem gcm_opens_what_it_sealed_witness:
  "\<exists>cipher tag.
    seal (replicate 32 7) (replicate 12 0) [[1], [2]] [[5], [6, 7]] =
      Inr (cipher, \<lparr>authenticated = None, authTag = Some tag, result_output = []\<rparr>) \<and>
    open_sealed (replicate 32 7) (replicate 12 0) tag [[1, 2]] [cipher] =
      Inr ([5, 6, 7], \<lparr>authenticated = Some True, authTag = None, result_output = []\<rparr>) \<and>
    open_sealed (replicate 32 7) (replicate 12 0) [] [[1, 2]] [cipher] =
      Inr ([5, 6, 7], \<lparr>authenticated = Some False, authTag = None, result_output = []\<rparr>)"
proof -
  obtain c t where *: "seal (replicate 32 7) (replicate 12 0) [[1], [2]] [[5], [6, 7]] =
      Inr (c, \<lparr>authenticated = None, authTag = Some t, result_output = []\<rparr>)" "length t = 16"
    "\<And>aads' texts' u. concat aads' = [1, 2] \<Longrightarrow> concat texts' = c \<Longrightarrow>
       open_sealed (replicate 32 7) (replicate 12 0) u aads' texts' =
         Inr ([5, 6, 7], \<lparr>authenticated = Some (u = t), authTag = None, result_output = []\<rparr>)"
    using gcm_opens_what_it_sealed [of "replicate 12 0" "replicate 32 7" "[[1], [2]]" "[[5], [6, 7]]"] by auto
  have "[] \<noteq> t" using *(2) by auto
  then show ?thesis using * by (intro exI [of _ c] exI [of _ t]) auto
qed

text \<open>The product of the hash is that of a commutative ring: it is associative and
  commutative, distributes over the sum (exclusive or) and has the unit 2^127.\<close>

theorem galois_product_is_a_ring:
  "multiplyGalois (multiplyGalois a b) c = multiplyGalois a (multiplyGalois b c) \<and>
   multiplyGalois a b = multiplyGalois b a \<and>
   multiplyGalois (a XOR b) c = multiplyGalois a c XOR multiplyGalois b c \<and>
   multiplyGalois (push_bit 127 1) a = a"
proof -
  have "push_bit 127 1 = X 0" by (simp add: X_def)
  then show ?thesis
    using multiplyGalois_assoc multiplyGalois_commute multiplyGalois_xor multiplyGalois_unit by metis
qed

text \<open>The counter of the mode is its first twelve bytes and a big-endian 32-bit word that
  is incremented with wrap-around, whose carry never reaches the nonce.\<close>

theorem counter_increment:
  assumes "length counter = 16"
  shows "take 12 (incrementCounter counter) = take 12 counter \<and>
    readWord (incrementCounter counter) 12 = readWord counter 12 + 1 \<and> length (incrementCounter counter) = 16"
  using assms by (rule incrementCounter_word)

theorem counter_increment_witness:
  "readWord (incrementCounter (replicate 16 255)) 12 = 0 \<and>
   take 12 (incrementCounter (replicate 16 255)) = replicate 12 255"
proof -
  have "readWord (replicate 16 255) 12 + 1 = 0" by (simp add: readWord_def)
  then show ?thesis using counter_increment [of "replicate 16 255"] by simp
qed

end
