(* ===== verification/Utf8.thy ===== *)
theory Utf8
  imports Bytes
begin

unbundle bit_operations_syntax

text \<open>
  JavaScript strings and their UTF-8 encoding: the codec of \<open>node-compat/utf8.ts\<close> and the one
  of \<open>crypto/crypto-utf8.ts\<close>.  A string is the list of its UTF-16 code units; the numbers the
  code computes with (code points) are naturals.  \<open>charCodeAt\<close> past the end is \<open>NaN\<close>, for which
  every comparison is false, so the last unit never starts a pair.
\<close>

type_synonym u16 = "16 word"
type_synonym jstring = "u16 list"

definition js :: "string \<Rightarrow> jstring" where
  "js = map of_char"

section \<open>Code points\<close>

definition is_high :: "nat \<Rightarrow> bool" where
  "is_high code \<longleftrightarrow> 0xD800 \<le> code \<and> code \<le> 0xDBFF"

definition is_low :: "nat \<Rightarrow> bool" where
  "is_low code \<longleftrightarrow> 0xDC00 \<le> code \<and> code \<le> 0xDFFF"

text \<open>Evaluation compares integers, whose numerals are binary.\<close>

lemma is_high_code [code]: "is_high code \<longleftrightarrow> (let c = int code in 0xD800 \<le> c \<and> c \<le> 0xDBFF)"
  by (simp add: is_high_def Let_def)

lemma is_low_code [code]: "is_low code \<longleftrightarrow> (let c = int code in 0xDC00 \<le> c \<and> c \<le> 0xDFFF)"
  by (simp add: is_low_def Let_def)

definition pair_code :: "nat \<Rightarrow> nat \<Rightarrow> nat" where
  "pair_code code nxt = 0x10000 + push_bit 10 (code - 0xD800) + nxt - 0xDC00"

text \<open>\<open>forEachUtf8CodePoint\<close>: the sequence of visited code points.\<close>

fun forEachUtf8CodePoint :: "jstring \<Rightarrow> nat list" where
  "forEachUtf8CodePoint [] = []"
| "forEachUtf8CodePoint (u # r) =
     (if is_high (unat u) then
        (case r of
           [] \<Rightarrow> [0xFFFD]
         | v # r' \<Rightarrow> if is_low (unat v) then pair_code (unat u) (unat v) # forEachUtf8CodePoint r'
                    else 0xFFFD # forEachUtf8CodePoint r)
      else if is_low (unat u) then 0xFFFD # forEachUtf8CodePoint r
      else unat u # forEachUtf8CodePoint r)"

definition code_width :: "nat \<Rightarrow> nat" where
  "code_width codePoint =
     (if codePoint \<le> 0x7F then 1 else if codePoint \<le> 0x7FF then 2 else if codePoint \<le> 0xFFFF then 3 else 4)"

definition utf8ByteLength :: "jstring \<Rightarrow> nat" where
  "utf8ByteLength value = fold (\<lambda>codePoint n. n + code_width codePoint) (forEachUtf8CodePoint value) 0"

definition code_bytes :: "nat \<Rightarrow> nat list" where
  "code_bytes codePoint =
     (if codePoint \<le> 0x7F then [codePoint]
      else if codePoint \<le> 0x7FF then [0xC0 OR drop_bit 6 codePoint, 0x80 OR (codePoint AND 0x3F)]
      else if codePoint \<le> 0xFFFF then
        [0xE0 OR drop_bit 12 codePoint, 0x80 OR (drop_bit 6 codePoint AND 0x3F), 0x80 OR (codePoint AND 0x3F)]
      else
        [0xF0 OR drop_bit 18 codePoint, 0x80 OR (drop_bit 12 codePoint AND 0x3F),
         0x80 OR (drop_bit 6 codePoint AND 0x3F), 0x80 OR (codePoint AND 0x3F)])"

definition encodeUtf8 :: "jstring \<Rightarrow> byte list" where
  "encodeUtf8 value =
     map word_of_nat (fold (\<lambda>codePoint bytes. bytes @ code_bytes codePoint) (forEachUtf8CodePoint value) [])"

section \<open>Decoding\<close>

record utf8_sequence =
  codePointMask :: nat
  secondMaximum :: nat
  secondMinimum :: nat
  width :: nat

definition sequenceForLead :: "nat \<Rightarrow> utf8_sequence option" where
  "sequenceForLead lead =
     (if 0xC2 \<le> lead \<and> lead \<le> 0xDF then
        Some \<lparr>codePointMask = 0x1F, secondMaximum = 0xBF, secondMinimum = 0x80, width = 2\<rparr>
      else if 0xE0 \<le> lead \<and> lead \<le> 0xEF then
        Some \<lparr>codePointMask = 0x0F, secondMaximum = (if lead = 0xED then 0x9F else 0xBF),
              secondMinimum = (if lead = 0xE0 then 0xA0 else 0x80), width = 3\<rparr>
      else if 0xF0 \<le> lead \<and> lead \<le> 0xF4 then
        Some \<lparr>codePointMask = 0x07, secondMaximum = (if lead = 0xF4 then 0x8F else 0xBF),
              secondMinimum = (if lead = 0xF0 then 0x90 else 0x80), width = 4\<rparr>
      else None)"

definition fromCodePoint :: "nat \<Rightarrow> jstring" where
  "fromCodePoint code =
     (if code < 0x10000 then [word_of_nat code]
      else [word_of_nat (0xD800 + (code - 0x10000) div 0x400), word_of_nat (0xDC00 + (code - 0x10000) mod 0x400)])"

lemma fromCodePoint_code [code]:
  "fromCodePoint code =
     (if int code < 0x10000 then [word_of_nat code]
      else [word_of_nat (0xD800 + (code - 0x10000) div 0x400), word_of_nat (0xDC00 + (code - 0x10000) mod 0x400)])"
  by (simp add: fromCodePoint_def)

text \<open>The loop over the continuation bytes: the code point, the bytes consumed, whether it was valid.\<close>

function continuation :: "utf8_sequence \<Rightarrow> byte list \<Rightarrow> nat \<Rightarrow> nat \<Rightarrow> nat \<Rightarrow> nat \<times> nat \<times> bool" where
  "continuation sq bytes offset codePoint consumed =
     (if \<not> offset < width sq then (codePoint, consumed, True)
      else if \<not> offset < length bytes then (codePoint, offset, False)
      else let byte = unat (bytes ! offset);
               minimum = (if offset = 1 then secondMinimum sq else 0x80);
               maximum = (if offset = 1 then secondMaximum sq else 0xBF)
           in if byte < minimum \<or> maximum < byte then (codePoint, if offset = 1 then 1 else offset, False)
              else continuation sq bytes (offset + 1) (push_bit 6 codePoint OR (byte AND 0x3F)) (offset + 1))"
  by pat_completeness auto
termination by (relation "measure (\<lambda>(sq, _, offset, _, _). width sq - offset)") auto

declare continuation.simps [simp del]

lemma continuation_consumed:
  "continuation sq bytes offset codePoint consumed = (c, n, v) \<Longrightarrow> 1 \<le> offset \<Longrightarrow> 1 \<le> consumed \<Longrightarrow> 1 \<le> n"
proof (induction sq bytes offset codePoint consumed rule: continuation.induct)
  case (1 sq bytes offset codePoint consumed)
  then show ?case
    by (subst (asm) (2) continuation.simps) (auto simp: Let_def split: if_splits)
qed

text \<open>One turn of the decoding loop on the bytes from the index on: what is appended and consumed.\<close>

definition decode_step :: "byte list \<Rightarrow> jstring \<times> nat" where
  "decode_step bytes =
     (let lead = unat (bytes ! 0)
      in if lead \<le> 0x7F then (fromCodePoint lead, 1)
         else case sequenceForLead lead of
                None \<Rightarrow> ([0xFFFD], 1)
              | Some sq \<Rightarrow>
                  (let (codePoint, consumed, valid) = continuation sq bytes 1 (lead AND codePointMask sq) 1
                   in (if valid then fromCodePoint codePoint else [0xFFFD], consumed)))"

lemma decode_step_consumed: "1 \<le> snd (decode_step bytes)"
  using continuation_consumed [of _ bytes 1 _ 1]
  by (fastforce simp: decode_step_def Let_def split: option.split prod.split)

function decodeUtf8 :: "byte list \<Rightarrow> jstring" where
  "decodeUtf8 bytes =
     (if bytes = [] then []
      else let (text, consumed) = decode_step bytes in text @ decodeUtf8 (drop consumed bytes))"
  by pat_completeness auto
termination
  by (relation "measure length") (simp, metis decode_step_consumed diff_less in_measure length_drop length_greater_0_conv
      less_le_trans snd_conv zero_less_one)

declare decodeUtf8.simps [simp del]

section \<open>Round trip\<close>

text \<open>The bit operations of the codec are sums of bit fields.\<close>

lemma or_sum: "b < 2 ^ k \<Longrightarrow> push_bit k a OR b = a * 2 ^ k + (b :: nat)"
proof -
  assume b: "b < 2 ^ k"
  then have "take_bit k b = b" by (rule take_bit_nat_eq_self)
  then have "\<not> bit b n" if "k \<le> n" for n using that by (metis bit_take_bit_iff leD)
  then have "push_bit k a AND b = 0"
    by (intro bit_eqI) (auto simp: bit_and_iff bit_push_bit_iff)
  then show ?thesis using disjunctive_add_eq_or [of "push_bit k a" b] by (simp add: push_bit_eq_mult)
qed

lemma lead_or: "b < 32 \<Longrightarrow> 0xC0 OR b = 0xC0 + (b :: nat)" "b < 16 \<Longrightarrow> 0xE0 OR b = 0xE0 + (b :: nat)"
  "b < 8 \<Longrightarrow> 0xF0 OR b = 0xF0 + (b :: nat)" "b < 64 \<Longrightarrow> 0x80 OR b = 0x80 + (b :: nat)"
  using or_sum [of b 5 6] or_sum [of b 4 14] or_sum [of b 3 30] or_sum [of b 6 2] by simp_all

lemma and_masks: "b AND 0x3F = b mod 64" "b AND 0x1F = b mod 32" "b AND 0x0F = b mod 16" "b AND 0x07 = b mod (8 :: nat)"
  using take_bit_eq_mask [of 6 b] take_bit_eq_mask [of 5 b] take_bit_eq_mask [of 4 b] take_bit_eq_mask [of 3 b]
  by (simp_all add: take_bit_eq_mod mask_eq_exp_minus_1)

lemma drop_bits: "drop_bit 6 b = b div 64" "drop_bit 12 b = b div 4096" "drop_bit 18 b = b div (262144 :: nat)"
  by (simp_all add: drop_bit_eq_div)

definition scalar :: "nat \<Rightarrow> bool" where
  "scalar c \<longleftrightarrow> c < 0xD800 \<or> 0xE000 \<le> c \<and> c \<le> 0x10FFFF"

lemma code_bytes_sum:
  "c \<le> 0x10FFFF \<Longrightarrow> code_bytes c =
     (if c \<le> 0x7F then [c]
      else if c \<le> 0x7FF then [0xC0 + c div 64, 0x80 + c mod 64]
      else if c \<le> 0xFFFF then [0xE0 + c div 4096, 0x80 + c div 64 mod 64, 0x80 + c mod 64]
      else [0xF0 + c div 262144, 0x80 + c div 4096 mod 64, 0x80 + c div 64 mod 64, 0x80 + c mod 64])"
  by (simp add: code_bytes_def and_masks drop_bits lead_or)

lemma unat_byte [simp]: "n < 256 \<Longrightarrow> unat (word_of_nat n :: byte) = n"
  by (simp add: unat_of_nat)

lemma push_or: "b < 64 \<Longrightarrow> push_bit 6 a OR b = a * 64 + (b :: nat)"
  using or_sum [of b 6 a] by simp

lemma lead_mods: "x < 32 \<Longrightarrow> (192 + x) mod 32 = (x :: nat)" "x < 16 \<Longrightarrow> (224 + x) mod 16 = (x :: nat)"
  "x < 8 \<Longrightarrow> (240 + x) mod 8 = (x :: nat)" "x < 64 \<Longrightarrow> (128 + x) mod 64 = (x :: nat)"
  using mod_mult_self3 [of 6 32 x] mod_mult_self3 [of 14 16 x] mod_mult_self3 [of 30 8 x] mod_mult_self3 [of 2 64 x]
  by simp_all

lemmas continue_simps = continuation.simps [of _ "_ # _"] push_or Let_def

text \<open>What the lead byte announces, and the loop over the rest.\<close>

definition decode_lead :: "byte list \<Rightarrow> (nat \<times> nat \<times> nat \<times> bool) option" where
  "decode_lead bytes =
     (case sequenceForLead (unat (bytes ! 0)) of
        None \<Rightarrow> None
      | Some sq \<Rightarrow> Some (width sq, continuation sq bytes 1 (unat (bytes ! 0) AND codePointMask sq) 1))"

lemma decode_two:
  assumes "unat a = 0xC0 + x" "2 \<le> x" "x < 32" "unat b = 0x80 + y" "y < 64"
  shows "decode_lead (a # b # rest) = Some (2, x * 64 + y, 2, True)"
  using assms by (simp add: decode_lead_def sequenceForLead_def and_masks continue_simps lead_mods)

lemma decode_three:
  assumes "unat a = 0xE0 + x" "x < 16" "unat b = 0x80 + y" "y < 64" "unat c = 0x80 + z" "z < 64"
    "x = 0 \<longrightarrow> 32 \<le> y" "x = 13 \<longrightarrow> y < 32"
  shows "decode_lead (a # b # c # rest) = Some (3, (x * 64 + y) * 64 + z, 3, True)"
  using assms by (simp add: decode_lead_def sequenceForLead_def and_masks continue_simps lead_mods, auto)

lemma decode_four:
  assumes "unat a = 0xF0 + x" "x \<le> 4" "unat b = 0x80 + y" "y < 64" "unat c = 0x80 + z" "z < 64"
    "unat d = 0x80 + t" "t < 64" "x = 0 \<longrightarrow> 16 \<le> y" "x = 4 \<longrightarrow> y < 16"
  shows "decode_lead (a # b # c # d # rest) = Some (4, ((x * 64 + y) * 64 + z) * 64 + t, 4, True)"
  using assms by (simp add: decode_lead_def sequenceForLead_def and_masks continue_simps lead_mods, auto)

lemma decode_lead_code:
  assumes "scalar c" "0x80 \<le> c"
  shows "decode_lead (map word_of_nat (code_bytes c) @ rest) = Some (length (code_bytes c), c, length (code_bytes c), True)"
proof -
  let ?b = "\<lambda>n. word_of_nat n :: byte"
  have c: "c \<le> 0x10FFFF" using assms by (auto simp: scalar_def)
  consider "c \<le> 0x7FF" | "0x800 \<le> c" "c \<le> 0xFFFF" | "0x10000 \<le> c" by linarith
  then show ?thesis
  proof cases
    case 1
    then have "2 \<le> c div 64" "c div 64 < 32" using assms by auto
    then have "decode_lead (?b (0xC0 + c div 64) # ?b (0x80 + c mod 64) # rest) = Some (2, c div 64 * 64 + c mod 64, 2, True)"
      by (intro decode_two) (simp_all del: of_nat_add)
    then show ?thesis using 1 c assms by (simp add: code_bytes_sum)
  next
    case 2
    define x y z where "x = c div 4096" and "y = c div 64 mod 64" and "z = c mod 64"
    have cz: "c = (x * 64 + y) * 64 + z" unfolding x_def y_def z_def
      by (simp add: div_mult2_eq [of c 64 64, simplified])
    have b: "x < 16" "y < 64" "z < 64" using 2 unfolding x_def y_def z_def by auto
    have "x = 0 \<longrightarrow> 32 \<le> y" using 2 cz b by auto
    moreover have "x = 13 \<longrightarrow> y < 32" using assms cz b unfolding scalar_def by auto
    ultimately have "decode_lead (?b (0xE0 + x) # ?b (0x80 + y) # ?b (0x80 + z) # rest) = Some (3, c, 3, True)"
      unfolding cz using b by (intro decode_three) (simp_all del: of_nat_add)
    then show ?thesis using 2 c by (simp add: code_bytes_sum x_def y_def z_def)
  next
    case 3
    define x y z t where "x = c div 262144" and "y = c div 4096 mod 64" and "z = c div 64 mod 64" and "t = c mod 64"
    have cz: "c = ((x * 64 + y) * 64 + z) * 64 + t" unfolding x_def y_def z_def t_def
      by (simp add: div_mult2_eq [of c 64 64, simplified] div_mult2_eq [of c 4096 64, simplified])
    have b: "x \<le> 4" "y < 64" "z < 64" "t < 64" using c unfolding x_def y_def z_def t_def by auto
    have "x = 0 \<longrightarrow> 16 \<le> y" using 3 cz b by auto
    moreover have "x = 4 \<longrightarrow> y < 16" using c cz b by auto
    ultimately have "decode_lead (?b (0xF0 + x) # ?b (0x80 + y) # ?b (0x80 + z) # ?b (0x80 + t) # rest) = Some (4, c, 4, True)"
      unfolding cz using b by (intro decode_four) (simp_all del: of_nat_add)
    then show ?thesis using 3 c by (simp add: code_bytes_sum x_def y_def z_def t_def)
  qed
qed

lemma lead_byte: "c \<le> 0x10FFFF \<Longrightarrow> 0x80 \<le> c \<Longrightarrow> 0x7F < unat (word_of_nat (code_bytes c ! 0) :: byte)"
  by (simp add: code_bytes_sum del: of_nat_add)

lemma decode_step_code:
  assumes "scalar c"
  shows "decode_step (map word_of_nat (code_bytes c) @ rest) = (fromCodePoint c, length (code_bytes c))"
proof (cases "c \<le> 0x7F")
  case True
  then show ?thesis by (simp add: code_bytes_def decode_step_def)
next
  case False
  let ?bs = "map word_of_nat (code_bytes c) @ rest"
  have "0 < length (code_bytes c)" by (simp add: code_bytes_def)
  then have "?bs ! 0 = word_of_nat (code_bytes c ! 0)" by (simp add: nth_append)
  then have "0x7F < unat (?bs ! 0)" using lead_byte [of c] False assms by (auto simp: scalar_def)
  moreover have "decode_lead ?bs = Some (length (code_bytes c), c, length (code_bytes c), True)"
    by (rule decode_lead_code) (use assms False in auto)
  ultimately show ?thesis by (auto simp: decode_step_def decode_lead_def Let_def split: option.splits)
qed

lemma encodeUtf8_concat: "encodeUtf8 s = concat (map (\<lambda>c. map word_of_nat (code_bytes c)) (forEachUtf8CodePoint s))"
proof -
  have "fold (\<lambda>c bytes. bytes @ code_bytes c) cs bytes = bytes @ concat (map code_bytes cs)" for cs bytes
    by (induction cs arbitrary: bytes) simp_all
  then show ?thesis by (simp add: encodeUtf8_def map_concat comp_def)
qed

lemma decode_codes:
  "list_all scalar cs \<Longrightarrow>
   decodeUtf8 (concat (map (\<lambda>c. map word_of_nat (code_bytes c)) cs)) = concat (map fromCodePoint cs)"
proof (induction cs)
  case (Cons c cs)
  have "code_bytes c \<noteq> []" by (simp add: code_bytes_def)
  then show ?case using Cons decode_step_code [of c "concat (map (\<lambda>c. map word_of_nat (code_bytes c)) cs)"]
    by (subst decodeUtf8.simps) simp
qed (simp add: decodeUtf8.simps)

lemma scalar_codePoints: "list_all scalar (forEachUtf8CodePoint s)"
proof (induction s rule: forEachUtf8CodePoint.induct)
  case (2 u r)
  have "unat u < 65536" using unsigned_less [of u, where ?'a = nat] by simp
  moreover have "scalar (pair_code (unat u) (unat v))" if "is_high (unat u)" "is_low (unat v)" for v :: u16
    using that by (auto simp: scalar_def pair_code_def push_bit_eq_mult is_high_def is_low_def)
  ultimately show ?case using 2 by (auto simp: scalar_def is_high_def is_low_def split: list.split)
qed simp

text \<open>\<open>toWellFormed\<close>: a surrogate that is not part of a pair becomes U+FFFD.\<close>

fun well_formed_text :: "jstring \<Rightarrow> jstring" where
  "well_formed_text [] = []"
| "well_formed_text (u # r) =
     (if is_high (unat u) then
        (case r of
           [] \<Rightarrow> [0xFFFD]
         | v # r' \<Rightarrow> if is_low (unat v) then u # v # well_formed_text r' else 0xFFFD # well_formed_text r)
      else if is_low (unat u) then 0xFFFD # well_formed_text r
      else u # well_formed_text r)"

lemma fromCodePoint_pair:
  fixes u v :: u16
  assumes "is_high (unat u)" "is_low (unat v)"
  shows "fromCodePoint (pair_code (unat u) (unat v)) = [u, v]"
proof -
  define a b where "a = unat u - 0xD800" and "b = unat v - 0xDC00"
  have ab: "unat u = 0xD800 + a" "unat v = 0xDC00 + b" "a < 1024" "b < 1024"
    using assms by (auto simp: a_def b_def is_high_def is_low_def)
  have p: "pair_code (unat u) (unat v) = 0x10000 + (a * 1024 + b)" using ab by (simp add: pair_code_def push_bit_eq_mult)
  have "word_of_nat (0xD800 + a) = u" "word_of_nat (0xDC00 + b) = v"
    unfolding ab(1,2) [symmetric] by simp_all
  then show ?thesis unfolding p fromCodePoint_def using ab(3,4) by (simp del: of_nat_add)
qed

lemma fromCodePoint_codePoints: "concat (map fromCodePoint (forEachUtf8CodePoint s)) = well_formed_text s"
proof (induction s rule: forEachUtf8CodePoint.induct)
  case (2 u r)
  have "unat u < 65536" using unsigned_less [of u, where ?'a = nat] by simp
  then have "fromCodePoint (unat u) = [u]" by (simp add: fromCodePoint_def)
  moreover have "fromCodePoint 0xFFFD = [0xFFFD]" by (simp add: fromCodePoint_def)
  ultimately show ?case using 2 by (auto simp: fromCodePoint_pair split: list.split)
qed simp

lemma utf8_roundtrip: "decodeUtf8 (encodeUtf8 s) = well_formed_text s"
  unfolding encodeUtf8_concat decode_codes [OF scalar_codePoints] by (rule fromCodePoint_codePoints)

lemma length_code_bytes: "length (code_bytes c) = code_width c"
  by (simp add: code_bytes_def code_width_def)

lemma utf8ByteLength_sum: "utf8ByteLength s = sum_list (map code_width (forEachUtf8CodePoint s))"
proof -
  have "fold (\<lambda>c n. n + code_width c) cs n = n + sum_list (map code_width cs)" for cs n
    by (induction cs arbitrary: n) simp_all
  then show ?thesis by (simp add: utf8ByteLength_def)
qed

lemma utf8ByteLength: "utf8ByteLength s = length (encodeUtf8 s)"
  by (simp add: utf8ByteLength_sum encodeUtf8_concat length_concat comp_def length_code_bytes)

end
