(* ===== verification/Crypto_Utf8.thy ===== *)
theory Crypto_Utf8
  imports Utf8
begin

unbundle bit_operations_syntax

text \<open>
  The UTF-8 encoder of the crypto module (\<open>crypto/crypto-utf8.ts\<close>), which computes the length
  first and then writes into a buffer of that length, against the encoder of \<open>node-compat\<close>.
\<close>

record code_step =
  step_code :: nat
  nextIndex :: nat

definition nextCodePoint :: "jstring \<Rightarrow> nat \<Rightarrow> code_step" where
  "nextCodePoint value index =
     (let code = unat (value ! index)
      in if 0xD800 \<le> code \<and> code \<le> 0xDBFF then
           (if index + 1 < length value \<and> 0xDC00 \<le> unat (value ! (index + 1)) \<and> unat (value ! (index + 1)) \<le> 0xDFFF
            then \<lparr>step_code = 0x10000 + push_bit 10 (code - 0xD800) + unat (value ! (index + 1)) - 0xDC00,
                  nextIndex = index + 2\<rparr>
            else \<lparr>step_code = 0xFFFD, nextIndex = index + 1\<rparr>)
         else if 0xDC00 \<le> code \<and> code \<le> 0xDFFF then \<lparr>step_code = 0xFFFD, nextIndex = index + 1\<rparr>
         else \<lparr>step_code = code, nextIndex = index + 1\<rparr>)"

lemma nextIndex_greater: "index < nextIndex (nextCodePoint value index)"
  by (simp add: nextCodePoint_def Let_def)

function length_loop :: "jstring \<Rightarrow> nat \<Rightarrow> nat \<Rightarrow> nat" where
  "length_loop value len index =
     (if \<not> index < length value then len
      else let step = nextCodePoint value index; code = step_code step
           in length_loop value
                (len + (if code \<le> 0x7F then 1 else if code \<le> 0x7FF then 2 else if code \<le> 0xFFFF then 3 else 4))
                (nextIndex step))"
  by pat_completeness auto
termination
  by (relation "measure (\<lambda>(value, len, index). length value - index)") (simp_all add: nextIndex_greater diff_less_mono2)

definition cryptoUtf8Length :: "jstring \<Rightarrow> nat" where
  "cryptoUtf8Length value = length_loop value 0 0"

function encode_loop :: "jstring \<Rightarrow> byte list \<Rightarrow> nat \<Rightarrow> nat \<Rightarrow> byte list \<times> nat" where
  "encode_loop value output offset index =
     (if \<not> index < length value then (output, offset)
      else let step = nextCodePoint value index; code = step_code step; index = nextIndex step
           in if code \<le> 0x7F then encode_loop value (output[offset := word_of_nat code]) (offset + 1) index
              else if code \<le> 0x7FF then
                encode_loop value
                  (output[offset := word_of_nat (0xC0 OR drop_bit 6 code),
                          offset + 1 := word_of_nat (0x80 OR (code AND 0x3F))]) (offset + 2) index
              else if code \<le> 0xFFFF then
                encode_loop value
                  (output[offset := word_of_nat (0xE0 OR drop_bit 12 code),
                          offset + 1 := word_of_nat (0x80 OR (drop_bit 6 code AND 0x3F)),
                          offset + 2 := word_of_nat (0x80 OR (code AND 0x3F))]) (offset + 3) index
              else
                encode_loop value
                  (output[offset := word_of_nat (0xF0 OR drop_bit 18 code),
                          offset + 1 := word_of_nat (0x80 OR (drop_bit 12 code AND 0x3F)),
                          offset + 2 := word_of_nat (0x80 OR (drop_bit 6 code AND 0x3F)),
                          offset + 3 := word_of_nat (0x80 OR (code AND 0x3F))]) (offset + 4) index)"
  by pat_completeness auto
termination
  by (relation "measure (\<lambda>(value, output, offset, index). length value - index)")
     (simp_all add: nextIndex_greater diff_less_mono2)

declare length_loop.simps [simp del] encode_loop.simps [simp del]

definition encodeCryptoUtf8 :: "jstring \<Rightarrow> byte list" where
  "encodeCryptoUtf8 value = fst (encode_loop value (replicate (cryptoUtf8Length value) 0) 0 0)"

section \<open>Agreement of the encoders\<close>

lemma codePoints_step:
  assumes "index < length value"
  shows "forEachUtf8CodePoint (drop index value) =
    step_code (nextCodePoint value index) # forEachUtf8CodePoint (drop (nextIndex (nextCodePoint value index)) value)"
proof -
  have d: "drop index value = value ! index # drop (Suc index) value"
    using assms by (simp add: Cons_nth_drop_Suc)
  show ?thesis
  proof (cases "Suc index < length value")
    case True
    then have d2: "drop (Suc index) value = value ! Suc index # drop (Suc (Suc index)) value"
      by (simp add: Cons_nth_drop_Suc)
    show ?thesis unfolding d using True
      by (auto simp: d2 nextCodePoint_def Let_def is_high_def is_low_def pair_code_def)
  next
    case False
    then have "drop (Suc index) value = []" by simp
    then show ?thesis unfolding d using False
      by (auto simp: nextCodePoint_def Let_def is_high_def is_low_def)
  qed
qed

lemma length_loop_eq:
  "length_loop value len index = len + sum_list (map code_width (forEachUtf8CodePoint (drop index value)))"
proof (induction "value" len index rule: length_loop.induct)
  case (1 "value" len index)
  show ?case
  proof (cases "index < length value")
    case True
    show ?thesis using 1 [OF _ refl refl] True unfolding code_width_def [symmetric]
      by (subst length_loop.simps) (simp add: codePoints_step Let_def code_width_def [symmetric])
  qed (simp add: length_loop.simps)
qed

lemma cryptoUtf8Length_eq: "cryptoUtf8Length value = utf8ByteLength value"
  by (simp add: cryptoUtf8Length_def length_loop_eq utf8ByteLength_sum)

text \<open>One write: the bytes of a code point go to the offset.\<close>

definition put :: "byte list \<Rightarrow> nat \<Rightarrow> byte list \<Rightarrow> byte list" where
  "put out offset bs = fold (\<lambda>i o'. o'[offset + i := bs ! i]) [0..<length bs] out"

lemma put_append:
  "length bs \<le> length zs \<Longrightarrow> put (xs @ zs) (length xs) bs = xs @ bs @ drop (length bs) zs"
proof -
  assume l: "length bs \<le> length zs"
  have "fold (\<lambda>i o'. o'[length xs + i := bs ! i]) [0..<n] (xs @ zs) = xs @ take n bs @ drop n zs"
    if "n \<le> length bs" for n
    using that
  proof (induction n)
    case (Suc n)
    then have "drop n zs = zs ! n # drop (Suc n) zs" using l by (simp add: Cons_nth_drop_Suc)
    then show ?case using Suc by (simp add: list_update_append take_Suc_conv_app_nth)
  qed simp
  from this [of "length bs"] show ?thesis by (simp add: put_def)
qed

lemma put_simps:
  "put out n [a] = out[n := a]" "put out n [a, b] = out[n := a, n + 1 := b]"
  "put out n [a, b, c] = out[n := a, n + 1 := b, n + 2 := c]"
  "put out n [a, b, c, d] = out[n := a, n + 1 := b, n + 2 := c, n + 3 := d]"
  by (simp_all add: put_def upt_conv_Cons eval_nat_numeral)

lemma encode_loop_step:
  "index < length value \<Longrightarrow> encode_loop value out offset index =
     (let code = step_code (nextCodePoint value index)
      in encode_loop value (put out offset (map word_of_nat (code_bytes code))) (offset + code_width code)
           (nextIndex (nextCodePoint value index)))"
  by (subst encode_loop.simps)
     (simp add: Let_def code_bytes_def code_width_def put_simps)

lemma encode_loop_eq:
  "length out = offset + sum_list (map code_width (forEachUtf8CodePoint (drop index value))) \<Longrightarrow>
   encode_loop value out offset index =
     (take offset out @ concat (map (\<lambda>c. map word_of_nat (code_bytes c)) (forEachUtf8CodePoint (drop index value))),
      length out)"
proof (induction "length value - index" arbitrary: out offset index rule: less_induct)
  case less
  show ?case
  proof (cases "index < length value")
    case True
    let ?st = "nextCodePoint value index"
    let ?bs = "map word_of_nat (code_bytes (step_code ?st)) :: byte list"
    let ?xs = "take offset out" and ?zs = "drop offset out"
    have w: "length ?bs = code_width (step_code ?st)" by (simp add: length_code_bytes)
    have l: "length out = offset + code_width (step_code ?st) +
        sum_list (map code_width (forEachUtf8CodePoint (drop (nextIndex ?st) value)))"
      using less.prems True by (simp add: codePoints_step)
    have "put (?xs @ ?zs) (length ?xs) ?bs = ?xs @ ?bs @ drop (length ?bs) ?zs"
      by (rule put_append) (simp add: l length_code_bytes)
    then have p: "put out offset ?bs = ?xs @ ?bs @ drop (length ?bs) ?zs" using l by simp
    have "length value - nextIndex ?st < length value - index"
      using True nextIndex_greater [of index "value"] by simp
    from less.hyps [OF this, of "put out offset ?bs" "offset + code_width (step_code ?st)"] l
    show ?thesis using True w
      by (simp add: encode_loop_step Let_def p codePoints_step)
  next
    case False
    then show ?thesis using less.prems by (subst encode_loop.simps) simp
  qed
qed

text \<open>The crypto encoder fills exactly the buffer it allocated, and returns the bytes the encoder
  of the Node layer returns, for every string.\<close>

theorem crypto_utf8_agrees:
  "encodeCryptoUtf8 value = encodeUtf8 value \<and> cryptoUtf8Length value = length (encodeUtf8 value) \<and>
   snd (encode_loop value (replicate (cryptoUtf8Length value) 0) 0 0) = cryptoUtf8Length value"
  using encode_loop_eq [of "replicate (cryptoUtf8Length value) 0" 0 0 "value"]
  by (simp add: encodeCryptoUtf8_def cryptoUtf8Length_eq utf8ByteLength_sum encodeUtf8_concat [symmetric])
     (simp add: utf8ByteLength_sum [symmetric] utf8ByteLength)


end
