(* ===== verification/Fs_Path.thy ===== *)
theory Fs_Path
  imports Utf8
begin

unbundle bit_operations_syntax

text \<open>
  Virtual file system paths (\<open>capabilities/fs/src/node/path.ts\<close>), with the two functions of the
  language they rest on, \<open>encodeURIComponent\<close> and \<open>decodeURIComponent\<close>.  A path text is a
  sequence of UTF-16 code units; a throw of the language (\<open>URIError\<close>) is kept apart from a file
  system error, because the provider reports it differently.
\<close>

section \<open>URI components\<close>

definition ch :: "char \<Rightarrow> u16" where
  "ch c = of_char c"

definition unreserved :: "jstring" where
  "unreserved = js ''ABCDEFGHIJKLMNOPQRSTUVWXYZabcdefghijklmnopqrstuvwxyz0123456789-_.!~*'()''"

definition hex_digits :: "jstring" where
  "hex_digits = js ''0123456789ABCDEF''"

definition percent :: "nat \<Rightarrow> jstring" where
  "percent b = [ch CHR ''%'', hex_digits ! (b div 16), hex_digits ! (b mod 16)]"

fun encodeURIComponent :: "jstring \<Rightarrow> jstring option" where
  "encodeURIComponent [] = Some []"
| "encodeURIComponent (u # r) =
     (if u \<in> set unreserved then map_option (\<lambda>t. u # t) (encodeURIComponent r)
      else if is_low (unat u) then None
      else if is_high (unat u) then
        (case r of
           [] \<Rightarrow> None
         | v # r' \<Rightarrow>
             if is_low (unat v)
             then map_option (\<lambda>t. concat (map percent (code_bytes (pair_code (unat u) (unat v)))) @ t) (encodeURIComponent r')
             else None)
      else map_option (\<lambda>t. concat (map percent (code_bytes (unat u))) @ t) (encodeURIComponent r))"

definition hex_value :: "u16 \<Rightarrow> nat option" where
  "hex_value u =
     (let n = unat u
      in if 48 \<le> n \<and> n \<le> 57 then Some (n - 48)
         else if 65 \<le> n \<and> n \<le> 70 then Some (n - 55)
         else if 97 \<le> n \<and> n \<le> 102 then Some (n - 87) else None)"

fun octet :: "jstring \<Rightarrow> (nat \<times> jstring) option" where
  "octet (p # h # l # r) =
     (if p = ch CHR ''%'' then
        (case (hex_value h, hex_value l) of (Some a, Some b) \<Rightarrow> Some (a * 16 + b, r) | _ \<Rightarrow> None)
      else None)"
| "octet _ = None"

fun octets :: "nat \<Rightarrow> jstring \<Rightarrow> (nat list \<times> jstring) option" where
  "octets 0 s = Some ([], s)"
| "octets (Suc n) s =
     (case octet s of
        None \<Rightarrow> None
      | Some (b, r) \<Rightarrow> (case octets n r of None \<Rightarrow> None | Some (bs, r') \<Rightarrow> Some (b # bs, r')))"

lemma octet_shorter: "octet s = Some (b, r) \<Longrightarrow> length r < length s"
  by (induction s rule: octet.induct) (auto split: if_splits option.splits)

lemma octets_shorter: "octets n s = Some (bs, r) \<Longrightarrow> length r \<le> length s"
  by (induction n arbitrary: s bs) (fastforce split: option.splits dest: octet_shorter)+

text \<open>The code point at the head of an escaped text, and the rest.\<close>

definition escaped_code :: "jstring \<Rightarrow> (nat \<times> jstring) option" where
  "escaped_code s =
     (case octet s of
        None \<Rightarrow> None
      | Some (b, r) \<Rightarrow>
          if b < 0x80 then Some (b, r)
          else (case sequenceForLead b of
                  None \<Rightarrow> None
                | Some sq \<Rightarrow>
                    (case octets (width sq - 1) r of
                       None \<Rightarrow> None
                     | Some (bs, r') \<Rightarrow>
                         (let (c, _, valid) = continuation sq (map word_of_nat (b # bs)) 1 (b AND codePointMask sq) 1
                          in if valid then Some (c, r') else None))))"

lemma escaped_code_shorter: "escaped_code s = Some (c, r) \<Longrightarrow> length r < length s"
  by (auto simp: escaped_code_def split: option.splits if_splits prod.splits
      dest: octet_shorter dest!: octets_shorter)

function decodeURIComponent :: "jstring \<Rightarrow> jstring option" where
  "decodeURIComponent s =
     (case s of
        [] \<Rightarrow> Some []
      | u # r \<Rightarrow>
          if u \<noteq> ch CHR ''%'' then map_option (\<lambda>t. u # t) (decodeURIComponent r)
          else (case escaped_code s of
                  None \<Rightarrow> None
                | Some (c, r') \<Rightarrow> map_option (\<lambda>t. fromCodePoint c @ t) (decodeURIComponent r')))"
  by pat_completeness auto
termination by (relation "measure length") (auto dest: escaped_code_shorter)

declare decodeURIComponent.simps [simp del]

section \<open>Paths\<close>

datatype root_authority = App_data | Workspace | Temp

datatype fs_code = EACCES | EBADF | ECANCELED | EEXIST | EINVAL | EIO | EISDIR | ENOENT | ENOSPC | ENOTDIR
  | ENOTEMPTY | EPERM | ERR_HOLONOMY_NOT_SUPPORTED | ETIMEDOUT | EXDEV

datatype fs_error = Fs_error fs_code | URIError

record parsed_path =
  p_authority :: root_authority
  href :: jstring
  segments :: "jstring list"

definition root_name :: "root_authority \<Rightarrow> jstring" where
  "root_name a = (case a of App_data \<Rightarrow> js ''app-data'' | Workspace \<Rightarrow> js ''workspace'' | Temp \<Rightarrow> js ''temp'')"

definition rootAuthority :: "jstring \<Rightarrow> root_authority option" where
  "rootAuthority s = find (\<lambda>a. root_name a = s) [App_data, Workspace, Temp]"

definition FS_SCHEME_PREFIX :: jstring where
  "FS_SCHEME_PREFIX = js ''holonomy-fs://''"

text \<open>\<open>/%(?:2f|5c)/iu\<close> and \<open>/%[0-9a-f]{2}/giu\<close>.\<close>

fun hasEncodedSeparator :: "jstring \<Rightarrow> bool" where
  "hasEncodedSeparator (p # h # l # r) =
     (p = ch CHR ''%'' \<and> (h = ch CHR ''2'' \<and> l \<in> set (js ''fF'') \<or> h = ch CHR ''5'' \<and> l \<in> set (js ''cC'')) \<or>
      hasEncodedSeparator (h # l # r))"
| "hasEncodedSeparator _ = False"

function removeEscapes :: "jstring \<Rightarrow> jstring" where
  "removeEscapes s =
     (case s of [] \<Rightarrow> []
      | u # r \<Rightarrow> (case octet s of Some (_, r') \<Rightarrow> removeEscapes r' | None \<Rightarrow> u # removeEscapes r))"
  by pat_completeness auto
termination by (relation "measure length") (auto dest: octet_shorter)

declare removeEscapes.simps [simp del]

definition decodeSegment :: "jstring \<Rightarrow> fs_error + jstring" where
  "decodeSegment segment =
     (if hasEncodedSeparator segment then Inl (Fs_error EINVAL)
      else if ch CHR ''%'' \<in> set (removeEscapes segment) then Inl (Fs_error EINVAL)
      else (case decodeURIComponent segment of
              None \<Rightarrow> Inl (Fs_error EINVAL)
            | Some decoded \<Rightarrow>
                if decoded = [] \<or> decoded = js ''.'' \<or> decoded = js ''..'' \<or> ch CHR ''/'' \<in> set decoded \<or>
                   ch (CHR 0x5C) \<in> set decoded \<or> 0 \<in> set decoded
                then Inl (Fs_error EINVAL) else Inr decoded))"

fun all_some :: "'a option list \<Rightarrow> 'a list option" where
  "all_some [] = Some []"
| "all_some (None # xs) = None"
| "all_some (Some x # xs) = map_option (\<lambda>ys. x # ys) (all_some xs)"

fun join_slash :: "jstring list \<Rightarrow> jstring" where
  "join_slash [] = []"
| "join_slash [x] = x"
| "join_slash (x # y # r) = x @ ch CHR ''/'' # join_slash (y # r)"

definition formatFsPath :: "root_authority \<Rightarrow> jstring list \<Rightarrow> fs_error + jstring" where
  "formatFsPath a segs =
     (case all_some (map encodeURIComponent segs) of
        None \<Rightarrow> Inl URIError
      | Some es \<Rightarrow> Inr (FS_SCHEME_PREFIX @ root_name a @ [ch CHR ''/''] @ join_slash es))"

definition fsRootUrl :: "root_authority \<Rightarrow> fs_error + jstring" where
  "fsRootUrl a = formatFsPath a []"

fun split_slash :: "jstring \<Rightarrow> jstring list" where
  "split_slash [] = [[]]"
| "split_slash (u # r) =
     (if u = ch CHR ''/'' then [] # split_slash r
      else (case split_slash r of s # ss \<Rightarrow> (u # s) # ss | [] \<Rightarrow> [[u]]))"

fun mapE :: "('a \<Rightarrow> 'e + 'b) \<Rightarrow> 'a list \<Rightarrow> 'e + 'b list" where
  "mapE f [] = Inr []"
| "mapE f (x # xs) =
     (case f x of Inl e \<Rightarrow> Inl e
      | Inr y \<Rightarrow> (case mapE f xs of Inl e \<Rightarrow> Inl e | Inr ys \<Rightarrow> Inr (y # ys)))"

definition parseFsPath :: "jstring \<Rightarrow> fs_error + parsed_path" where
  "parseFsPath path =
     (if path = [] \<or> length path > 4096 \<or> 0 \<in> set path \<or> ch (CHR 0x5C) \<in> set path \<or> ch CHR ''?'' \<in> set path \<or>
         ch CHR ''#'' \<in> set path
      then Inl (Fs_error EINVAL)
      else if take (length FS_SCHEME_PREFIX) path \<noteq> FS_SCHEME_PREFIX then Inl (Fs_error EACCES)
      else let rem = drop (length FS_SCHEME_PREFIX) path
           in if ch CHR ''/'' \<notin> set rem then Inl (Fs_error EINVAL)
              else case rootAuthority (takeWhile (\<lambda>u. u \<noteq> ch CHR ''/'') rem) of
                     None \<Rightarrow> Inl (Fs_error EACCES)
                   | Some a \<Rightarrow>
                       (let rawPath = drop 1 (dropWhile (\<lambda>u. u \<noteq> ch CHR ''/'') rem)
                        in if rawPath \<noteq> [] \<and> last rawPath = ch CHR ''/'' then Inl (Fs_error EINVAL)
                           else case (if rawPath = [] then Inr [] else mapE decodeSegment (split_slash rawPath)) of
                                  Inl e \<Rightarrow> Inl e
                                | Inr segs \<Rightarrow>
                                    (case formatFsPath a segs of
                                       Inl e \<Rightarrow> Inl e
                                     | Inr h \<Rightarrow> Inr \<lparr>p_authority = a, href = h, segments = segs\<rparr>)))"

definition joinFsPath :: "parsed_path \<Rightarrow> jstring \<Rightarrow> fs_error + jstring" where
  "joinFsPath base name =
     (case encodeURIComponent name of
        None \<Rightarrow> Inl URIError
      | Some e \<Rightarrow> (case decodeSegment e of
                     Inl err \<Rightarrow> Inl err
                   | Inr segment \<Rightarrow> formatFsPath (p_authority base) (segments base @ [segment])))"

section \<open>Escaped text\<close>

lemma hex_digit: "n < 16 \<Longrightarrow> hex_value (hex_digits ! n) = Some n"
proof -
  have "list_all (\<lambda>n. hex_value (hex_digits ! n) = Some n) [0..<16]" by code_simp
  then show "n < 16 \<Longrightarrow> ?thesis" by (simp add: list_all_iff)
qed

lemma octet_percent: "b < 256 \<Longrightarrow> octet (percent b @ t) = Some (b, t)"
proof -
  assume b: "b < 256"
  then have "hex_value (hex_digits ! (b div 16)) = Some (b div 16)" "hex_value (hex_digits ! (b mod 16)) = Some (b mod 16)"
    by (intro hex_digit; simp)+
  then show ?thesis by (simp add: percent_def)
qed

lemma octets_percent:
  "\<forall>b \<in> set bs. b < 256 \<Longrightarrow> octets (length bs) (concat (map percent bs) @ t) = Some (bs, t)"
  by (induction bs) (simp_all add: octet_percent)

lemma code_bytes_small: "scalar c \<Longrightarrow> b \<in> set (code_bytes c) \<Longrightarrow> b < 256"
proof -
  assume c: "scalar c" and b: "b \<in> set (code_bytes c)"
  have "c \<le> 0x10FFFF" using c by (auto simp: scalar_def)
  then show ?thesis using b
    by (auto simp: code_bytes_sum split: if_splits)
qed

lemma escaped_code_bytes:
  assumes "scalar c"
  shows "escaped_code (concat (map percent (code_bytes c)) @ t) = Some (c, t)"
proof -
  have small: "\<forall>b \<in> set (code_bytes c). b < 256" using code_bytes_small [OF assms] by blast
  obtain b bs where cb: "code_bytes c = b # bs" by (cases "code_bytes c") (auto simp: code_bytes_def split: if_splits)
  have o: "octet (concat (map percent (code_bytes c)) @ t) = Some (b, concat (map percent bs) @ t)"
    using octet_percent [of b] small by (simp add: cb)
  show ?thesis
  proof (cases "c \<le> 0x7F")
    case True
    then have "b = c" "bs = []" using cb by (simp_all add: code_bytes_def)
    then show ?thesis using True o by (simp add: escaped_code_def)
  next
    case False
    have "c \<le> 0x10FFFF" using assms by (auto simp: scalar_def)
    then have b: "0x80 \<le> b" "unat (word_of_nat b :: byte) = b"
      using lead_byte [of c] False small by (simp_all add: cb)
    have "decode_lead (map word_of_nat (b # bs)) = Some (Suc (length bs), c, Suc (length bs), True)"
      using decode_lead_code [OF assms, of "[]"] False by (simp add: cb)
    then obtain sq where "sequenceForLead b = Some sq" "width sq = Suc (length bs)"
      "continuation sq (map word_of_nat (b # bs)) 1 (b AND codePointMask sq) 1 = (c, Suc (length bs), True)"
      using b(2) by (auto simp: decode_lead_def split: option.splits)
    moreover have "octets (length bs) (concat (map percent bs) @ t) = Some (bs, t)"
      using small cb by (intro octets_percent) simp
    ultimately show ?thesis using b(1) o by (simp add: escaped_code_def)
  qed
qed

lemma unreserved_ascii: "u \<in> set unreserved \<Longrightarrow> u \<noteq> ch CHR ''%''"
proof -
  have "list_all (\<lambda>u. u \<noteq> ch CHR ''%'') unreserved" by code_simp
  then show "u \<in> set unreserved \<Longrightarrow> ?thesis" by (auto simp: list_all_iff)
qed

text \<open>An induction over what is encoded: one code point at a time, plain or escaped.\<close>

lemma encode_cases [consumes 1, case_names Nil Plain Escaped]:
  assumes "encodeURIComponent s = Some e"
  obtains "s = []" "e = []"
  | u r t where "s = u # r" "u \<in> set unreserved" "e = u # t" "encodeURIComponent r = Some t"
  | c r t where "scalar c" "s = fromCodePoint c @ r" "c < 0x10000 \<longrightarrow> word_of_nat c \<notin> set unreserved"
      "e = concat (map percent (code_bytes c)) @ t" "encodeURIComponent r = Some t"
proof (cases s)
  case Nil
  then show thesis using assms that(1) by simp
next
  case (Cons u r)
  have u: "unat u < 65536" using unsigned_less [of u, where ?'a = nat] by simp
  consider (plain) "u \<in> set unreserved" | (pair) v r' where "u \<notin> set unreserved" "is_high (unat u)" "r = v # r'" "is_low (unat v)"
    | (single) "u \<notin> set unreserved" "\<not> is_high (unat u)" "\<not> is_low (unat u)"
    using assms Cons by (auto split: if_splits list.splits)
  then show thesis
  proof cases
    case plain
    then show thesis using assms Cons that(2) by (auto)
  next
    case pair
    have sc: "scalar (pair_code (unat u) (unat v))" and big: "\<not> pair_code (unat u) (unat v) < 0x10000"
      using pair by (auto simp: scalar_def pair_code_def push_bit_eq_mult is_high_def is_low_def)
    have "\<not> is_low (unat u)" using pair by (auto simp: is_high_def is_low_def)
    then obtain t where "encodeURIComponent r' = Some t" "e = concat (map percent (code_bytes (pair_code (unat u) (unat v)))) @ t"
      using assms Cons pair by auto
    then show thesis using that(3) [OF sc] Cons pair big fromCodePoint_pair [of u v] by simp
  next
    case single
    then have sc: "scalar (unat u)" using u by (auto simp: scalar_def is_high_def is_low_def)
    obtain t where "encodeURIComponent r = Some t" "e = concat (map percent (code_bytes (unat u))) @ t"
      using assms Cons single by auto
    then show thesis using that(3) [OF sc, of r] Cons single u by (simp add: fromCodePoint_def)
  qed
qed

lemma encode_induct [consumes 1, case_names Nil Plain Escaped]:
  assumes "encodeURIComponent s = Some e"
    and "P [] []"
    and "\<And>u r t. u \<in> set unreserved \<Longrightarrow> encodeURIComponent r = Some t \<Longrightarrow> P r t \<Longrightarrow> P (u # r) (u # t)"
    and "\<And>c r t. scalar c \<Longrightarrow> c < 0x10000 \<longrightarrow> word_of_nat c \<notin> set unreserved \<Longrightarrow> encodeURIComponent r = Some t \<Longrightarrow> P r t \<Longrightarrow>
      P (fromCodePoint c @ r) (concat (map percent (code_bytes c)) @ t)"
  shows "P s e"
  using assms(1)
proof (induction "length s" arbitrary: s e rule: less_induct)
  case less
  from less.prems show ?case
  proof (cases rule: encode_cases)
    case Nil
    then show ?thesis using assms(2) by simp
  next
    case (Plain u r t)
    then show ?thesis using less.hyps [of r t] assms(3) by simp
  next
    case (Escaped c r t)
    have "0 < length (fromCodePoint c)" by (simp add: fromCodePoint_def)
    then show ?thesis using Escaped less.hyps [of r t] assms(4) by simp
  qed
qed

lemma uri_roundtrip: "encodeURIComponent s = Some e \<Longrightarrow> decodeURIComponent e = Some s"
proof (induction rule: encode_induct)
  case Nil
  show ?case by (simp add: decodeURIComponent.simps)
next
  case (Plain u r t)
  then show ?case by (subst decodeURIComponent.simps) (simp add: unreserved_ascii)
next
  case (Escaped c r t)
  obtain b bs where cb: "code_bytes c = b # bs" by (cases "code_bytes c") (auto simp: code_bytes_def split: if_splits)
  then obtain w where "concat (map percent (code_bytes c)) @ t = ch CHR ''%'' # w" by (simp add: percent_def)
  moreover have "escaped_code (concat (map percent (code_bytes c)) @ t) = Some (c, t)"
    by (rule escaped_code_bytes) fact
  ultimately show ?case using Escaped by (subst decodeURIComponent.simps) simp
qed

text \<open>What an encoded text contains, and what the checks of a segment see in it.\<close>

definition plain_units :: "u16 set" where
  "plain_units = set unreserved \<union> {ch CHR ''%''} \<union> set hex_digits"

lemma hex_in: "n < 16 \<Longrightarrow> hex_digits ! n \<in> set hex_digits"
  by (rule nth_mem) (simp add: hex_digits_def js_def)

lemma percent_plain: "b < 256 \<Longrightarrow> set (percent b) \<subseteq> plain_units"
  using hex_in [of "b div 16"] hex_in [of "b mod 16"] by (simp add: percent_def plain_units_def)

lemma encoded_plain: "encodeURIComponent s = Some e \<Longrightarrow> set e \<subseteq> plain_units"
proof (induction rule: encode_induct)
  case (Plain u r t)
  then show ?case by (simp add: plain_units_def)
next
  case (Escaped c r t)
  have "set (percent b) \<subseteq> plain_units" if "b \<in> set (code_bytes c)" for b
    using percent_plain [OF code_bytes_small [OF Escaped(1) that]] .
  then show ?case using Escaped by auto
qed simp

definition forbidden :: "u16 list" where
  "forbidden = [ch (CHR 0x5C), ch CHR ''?'', ch CHR ''#'', 0]"

lemma plain_units_exclude:
  assumes "u \<in> plain_units"
  shows "u \<noteq> ch CHR ''/''" "u \<notin> set forbidden"
proof -
  have p: "plain_units = set (unreserved @ [ch CHR ''%''] @ hex_digits)"
    by (simp only: plain_units_def set_append list.set Un_assoc)
  have "list_all (\<lambda>u. u \<noteq> ch CHR ''/'') (unreserved @ [ch CHR ''%''] @ hex_digits)"
    "list_all (\<lambda>u. u \<notin> set forbidden) (unreserved @ [ch CHR ''%''] @ hex_digits)"
    by code_simp+
  then have "\<forall>u \<in> plain_units. u \<noteq> ch CHR ''/''" "\<forall>u \<in> plain_units. u \<notin> set forbidden"
    unfolding p by (simp_all only: list_all_iff)
  then show "u \<noteq> ch CHR ''/''" "u \<notin> set forbidden" using assms by blast+
qed

lemma octet_unreserved: "u \<in> set unreserved \<Longrightarrow> octet (u # r) = None"
proof -
  assume "u \<in> set unreserved"
  then have "u \<noteq> ch CHR ''%''" by (rule unreserved_ascii)
  then show ?thesis by (cases "u # r" rule: octet.cases) auto
qed

lemma removeEscapes_percents:
  "\<forall>b \<in> set bs. b < 256 \<Longrightarrow> removeEscapes (concat (map percent bs) @ t) = removeEscapes t"
proof (induction bs)
  case (Cons b bs)
  let ?s = "percent b @ concat (map percent bs) @ t"
  have "octet ?s = Some (b, concat (map percent bs) @ t)" using Cons.prems by (simp add: octet_percent)
  moreover have "?s \<noteq> []" by (simp add: percent_def)
  ultimately have "removeEscapes ?s = removeEscapes (concat (map percent bs) @ t)"
    by (subst removeEscapes.simps) (auto split: list.split)
  then show ?case using Cons by simp
qed simp

lemma removeEscapes_encoded: "encodeURIComponent s = Some e \<Longrightarrow> ch CHR ''%'' \<notin> set (removeEscapes e)"
proof (induction rule: encode_induct)
  case Nil
  show ?case by (simp add: removeEscapes.simps)
next
  case (Plain u r t)
  have "removeEscapes (u # t) = u # removeEscapes t"
    using octet_unreserved [OF Plain(1), of t] by (subst removeEscapes.simps) simp
  then show ?case using Plain unreserved_ascii by auto
next
  case (Escaped c r t)
  then show ?case using removeEscapes_percents [of "code_bytes c" t] code_bytes_small by auto
qed

lemma hasEncodedSeparator_skip: "u \<noteq> ch CHR ''%'' \<Longrightarrow> hasEncodedSeparator (u # r) = hasEncodedSeparator r"
  by (cases "u # r" rule: hasEncodedSeparator.cases) auto

lemma hex_digits_not_percent: "n < 16 \<Longrightarrow> hex_digits ! n \<noteq> ch CHR ''%''"
proof -
  have "list_all (\<lambda>n. hex_digits ! n \<noteq> ch CHR ''%'') [0..<16]" by code_simp
  then show "n < 16 \<Longrightarrow> ?thesis" by (simp add: list_all_iff)
qed

lemma percent_separator:
  "b < 256 \<Longrightarrow> b \<noteq> 0x2F \<Longrightarrow> b \<noteq> 0x5C \<Longrightarrow> hasEncodedSeparator (percent b @ t) = hasEncodedSeparator t"
proof -
  assume b: "b < 256" "b \<noteq> 0x2F" "b \<noteq> 0x5C"
  have d: "hex_value (hex_digits ! (b div 16)) = Some (b div 16)" "hex_value (hex_digits ! (b mod 16)) = Some (b mod 16)"
    using b by (intro hex_digit; simp)+
  have v: "hex_value (ch CHR ''2'') = Some 2" "hex_value (ch CHR ''5'') = Some 5" "list_all (\<lambda>u. hex_value u = Some 15) (js ''fF'')"
    "list_all (\<lambda>u. hex_value u = Some 12) (js ''cC'')" by code_simp+
  have "b div 16 = 2" if "hex_digits ! (b div 16) = ch CHR ''2''" using d(1) v(1) that by simp
  moreover have "b div 16 = 5" if "hex_digits ! (b div 16) = ch CHR ''5''" using d(1) v(2) that by simp
  moreover have "b mod 16 = 15" if "hex_digits ! (b mod 16) \<in> set (js ''fF'')" using d(2) v(3) that by (auto simp: list_all_iff)
  moreover have "b mod 16 = 12" if "hex_digits ! (b mod 16) \<in> set (js ''cC'')" using d(2) v(4) that by (auto simp: list_all_iff)
  moreover have e: "b div 16 * 16 + b mod 16 = b" by (rule div_mult_mod_eq)
  have "\<not> (b div 16 = 2 \<and> b mod 16 = 15)" by (rule notI, elim conjE) (use e b(2) in linarith)
  moreover have "\<not> (b div 16 = 5 \<and> b mod 16 = 12)" by (rule notI, elim conjE) (use e b(3) in linarith)
  ultimately have "\<not> (hex_digits ! (b div 16) = ch CHR ''2'' \<and> hex_digits ! (b mod 16) \<in> set (js ''fF'') \<or>
      hex_digits ! (b div 16) = ch CHR ''5'' \<and> hex_digits ! (b mod 16) \<in> set (js ''cC''))"
    by blast
  moreover have "hex_digits ! (b div 16) \<noteq> ch CHR ''%''" "hex_digits ! (b mod 16) \<noteq> ch CHR ''%''"
    using b hex_digits_not_percent by simp_all
  ultimately show ?thesis by (auto simp: percent_def hasEncodedSeparator_skip)
qed

lemma percents_separator:
  "\<forall>b \<in> set bs. b < 256 \<and> b \<noteq> 0x2F \<and> b \<noteq> 0x5C \<Longrightarrow>
   hasEncodedSeparator (concat (map percent bs) @ t) = hasEncodedSeparator t"
  by (induction bs) (simp_all add: percent_separator)

lemma code_bytes_ascii: "b \<in> set (code_bytes c) \<Longrightarrow> scalar c \<Longrightarrow> b < 0x80 \<Longrightarrow> c = b"
proof -
  assume b: "b \<in> set (code_bytes c)" "b < 0x80" and c: "scalar c"
  have "c \<le> 0x10FFFF" using c by (auto simp: scalar_def)
  then show ?thesis using b by (auto simp: code_bytes_sum split: if_splits)
qed

lemma encoded_separator:
  "encodeURIComponent s = Some e \<Longrightarrow> ch CHR ''/'' \<notin> set s \<Longrightarrow> ch (CHR 0x5C) \<notin> set s \<Longrightarrow> \<not> hasEncodedSeparator e"
proof (induction rule: encode_induct)
  case (Plain u r t)
  then show ?case by (simp add: hasEncodedSeparator_skip unreserved_ascii)
next
  case (Escaped c r t)
  have "b < 256 \<and> b \<noteq> 0x2F \<and> b \<noteq> 0x5C" if "b \<in> set (code_bytes c)" for b
  proof -
    have "ch CHR ''/'' = 0x2F" "ch (CHR 0x5C) = 0x5C" by (simp_all add: ch_def)
    then have "c \<noteq> 0x2F" "c \<noteq> 0x5C" using Escaped.prems by (auto simp: fromCodePoint_def)
    then show ?thesis using code_bytes_ascii [OF that Escaped(1)] code_bytes_small [OF Escaped(1) that] by auto
  qed
  then show ?case using Escaped percents_separator [of "code_bytes c" t] by simp
qed simp

text \<open>A segment that names an entry: what the parser lets through.\<close>

definition safe_segment :: "jstring \<Rightarrow> bool" where
  "safe_segment d \<longleftrightarrow> d \<noteq> [] \<and> d \<noteq> js ''.'' \<and> d \<noteq> js ''..'' \<and> ch CHR ''/'' \<notin> set d \<and> ch (CHR 0x5C) \<notin> set d \<and> 0 \<notin> set d"

lemma decodeSegment_safe: "decodeSegment s = Inr d \<Longrightarrow> safe_segment d"
  by (auto simp: decodeSegment_def safe_segment_def split: if_splits option.splits)

lemma decode_encoded: "encodeURIComponent d = Some e \<Longrightarrow> safe_segment d \<Longrightarrow> decodeSegment e = Inr d"
  by (simp add: decodeSegment_def safe_segment_def uri_roundtrip removeEscapes_encoded encoded_separator)

lemma split_slash_not_Nil: "split_slash s \<noteq> []"
  by (cases s) (auto split: list.splits)

lemma split_slash_append:
  "ch CHR ''/'' \<notin> set e \<Longrightarrow> split_slash (e @ ch CHR ''/'' # r) = e # split_slash r"
  by (induction e) auto

lemma split_slash_single: "ch CHR ''/'' \<notin> set e \<Longrightarrow> split_slash e = [e]"
  by (induction e) auto

lemma split_join: "es \<noteq> [] \<Longrightarrow> \<forall>e \<in> set es. ch CHR ''/'' \<notin> set e \<Longrightarrow> split_slash (join_slash es) = es"
  by (induction es rule: join_slash.induct) (simp_all add: split_slash_append split_slash_single)

lemma mapE_encoded:
  "all_some (map encodeURIComponent segs) = Some es \<Longrightarrow> list_all safe_segment segs \<Longrightarrow> mapE decodeSegment es = Inr segs"
proof (induction segs arbitrary: es)
  case (Cons d segs)
  then obtain e es' where "encodeURIComponent d = Some e" "all_some (map encodeURIComponent segs) = Some es'" "es = e # es'"
    by (cases "encodeURIComponent d") auto
  then show ?case using Cons by (simp add: decode_encoded)
qed simp

lemma all_some_set: "all_some (map f xs) = Some ys \<Longrightarrow> y \<in> set ys \<Longrightarrow> \<exists>x \<in> set xs. f x = Some y"
proof (induction xs arbitrary: ys)
  case (Cons x xs)
  then show ?case by (cases "f x") auto
qed simp

lemma all_some_length: "all_some (map f xs) = Some ys \<Longrightarrow> length ys = length xs"
proof (induction xs arbitrary: ys)
  case (Cons x xs)
  then show ?case by (cases "f x") auto
qed simp

lemma encoded_nonempty: "encodeURIComponent s = Some e \<Longrightarrow> s \<noteq> [] \<Longrightarrow> e \<noteq> []"
  by (cases s) (auto simp: percent_def code_bytes_def split: if_splits list.splits)

lemma join_slash_set: "set (join_slash es) \<subseteq> insert (ch CHR ''/'') (\<Union> (set ` set es))"
  by (induction es rule: join_slash.induct) auto

lemma join_slash_last:
  "es \<noteq> [] \<Longrightarrow> \<forall>e \<in> set es. e \<noteq> [] \<Longrightarrow> join_slash es \<noteq> [] \<and> last (join_slash es) = last (last es)"
  by (induction es rule: join_slash.induct) auto

lemma rootAuthority_name [simp]: "rootAuthority (root_name a) = Some a"
proof -
  have "list_all (\<lambda>a. rootAuthority (root_name a) = Some a) [App_data, Workspace, Temp]" by code_simp
  then show ?thesis by (cases a) simp_all
qed

lemma root_name_no_slash: "ch CHR ''/'' \<notin> set (root_name a)"
proof -
  have "list_all (\<lambda>a. ch CHR ''/'' \<notin> set (root_name a)) [App_data, Workspace, Temp]" by code_simp
  then show ?thesis by (cases a) simp_all
qed

section \<open>Parsing and formatting\<close>

lemma takeWhile_name: "takeWhile (\<lambda>u. u \<noteq> ch CHR ''/'') (root_name a @ ch CHR ''/'' # r) = root_name a"
    "dropWhile (\<lambda>u. u \<noteq> ch CHR ''/'') (root_name a @ ch CHR ''/'' # r) = ch CHR ''/'' # r"
  using root_name_no_slash [of a] by (auto simp: takeWhile_append dropWhile_append)

lemma prefix_units: "u \<in> set (FS_SCHEME_PREFIX @ root_name a) \<Longrightarrow> u \<notin> set forbidden"
proof -
  have "list_all (\<lambda>u. u \<notin> set forbidden) (FS_SCHEME_PREFIX @ root_name App_data)"
    "list_all (\<lambda>u. u \<notin> set forbidden) (FS_SCHEME_PREFIX @ root_name Workspace)"
    "list_all (\<lambda>u. u \<notin> set forbidden) (FS_SCHEME_PREFIX @ root_name Temp)" by code_simp+
  then have "list_all (\<lambda>u. u \<notin> set forbidden) (FS_SCHEME_PREFIX @ root_name a)" by (cases a) simp_all
  then have "\<forall>u \<in> set (FS_SCHEME_PREFIX @ root_name a). u \<notin> set forbidden" by (simp only: list_all_iff)
  then show "u \<in> set (FS_SCHEME_PREFIX @ root_name a) \<Longrightarrow> u \<notin> set forbidden" by (rule bspec)
qed

lemma formatFsPath_units:
  assumes "all_some (map encodeURIComponent segs) = Some es"
    and "u \<in> set (FS_SCHEME_PREFIX @ root_name a @ [ch CHR ''/''] @ join_slash es)"
  shows "u \<notin> set forbidden"
proof -
  have slash: "ch CHR ''/'' \<notin> set forbidden" by code_simp
  have "u = ch CHR ''/'' \<or> u \<in> set (FS_SCHEME_PREFIX @ root_name a) \<or> (\<exists>e \<in> set es. u \<in> set e)"
    using assms(2) join_slash_set [of es] by auto
  then show ?thesis
  proof (elim disjE bexE)
    fix e assume e: "e \<in> set es" "u \<in> set e"
    obtain s where "encodeURIComponent s = Some e" using all_some_set [OF assms(1) e(1)] by blast
    then have "u \<in> plain_units" using encoded_plain e(2) by blast
    then show ?thesis by (rule plain_units_exclude)
  qed (use slash prefix_units in blast)+
qed

lemma parse_format:
  assumes "formatFsPath a segs = Inr h" "list_all safe_segment segs" "length h \<le> 4096"
  shows "parseFsPath h = Inr \<lparr>p_authority = a, href = h, segments = segs\<rparr>"
proof -
  obtain es where es: "all_some (map encodeURIComponent segs) = Some es"
    and h: "h = FS_SCHEME_PREFIX @ root_name a @ [ch CHR ''/''] @ join_slash es"
    using assms(1) by (auto simp: formatFsPath_def split: option.splits)
  have "u \<notin> set forbidden" if "u \<in> set h" for u
    using formatFsPath_units [OF es] that unfolding h by blast
  moreover have "u \<in> set forbidden" if "u = 0 \<or> u = ch (CHR 0x5C) \<or> u = ch CHR ''?'' \<or> u = ch CHR ''#''" for u
    using that unfolding forbidden_def list.set by blast
  ultimately have units: "0 \<notin> set h" "ch (CHR 0x5C) \<notin> set h" "ch CHR ''?'' \<notin> set h" "ch CHR ''#'' \<notin> set h" by blast+
  have plain: "set e \<subseteq> plain_units" "e \<noteq> []" if e: "e \<in> set es" for e
  proof -
    obtain s where s: "s \<in> set segs" "encodeURIComponent s = Some e" using all_some_set [OF es e] by blast
    then show "set e \<subseteq> plain_units" by (intro encoded_plain)
    have "s \<noteq> []" using assms(2) s(1) by (auto simp: list_all_iff safe_segment_def)
    then show "e \<noteq> []" using encoded_nonempty s(2) by blast
  qed
  have noslash: "\<forall>e \<in> set es. ch CHR ''/'' \<notin> set e" using plain plain_units_exclude(1) by blast
  have raw: "(if join_slash es = [] then Inr [] else mapE decodeSegment (split_slash (join_slash es))) = Inr segs"
  proof (cases "es = []")
    case True
    then show ?thesis using all_some_length [OF es] by simp
  next
    case False
    then show ?thesis using join_slash_last [of es] plain split_join [OF _ noslash] mapE_encoded [OF es assms(2)] by simp
  qed
  have "join_slash es = [] \<or> last (join_slash es) \<noteq> ch CHR ''/''"
  proof (cases "join_slash es = []")
    case that: False
    have "es \<noteq> []" using that by auto
    then have "last (join_slash es) = last (last es)" "last es \<in> set es" using join_slash_last [of es] plain by auto
    then show ?thesis using noslash plain last_in_set by metis
  qed simp
  moreover have "h \<noteq> []" by (simp add: h)
  moreover have "drop (length FS_SCHEME_PREFIX) h = root_name a @ ch CHR ''/'' # join_slash es"
    "take (length FS_SCHEME_PREFIX) h = FS_SCHEME_PREFIX" by (simp_all add: h)
  ultimately show ?thesis
    using assms(1,3) units raw by (simp add: parseFsPath_def Let_def takeWhile_name)
qed

lemma parseFsPath_safe: "parseFsPath s = Inr p \<Longrightarrow>
    list_all safe_segment (segments p) \<and> formatFsPath (p_authority p) (segments p) = Inr (href p)"
proof -
  have m: "mapE decodeSegment xs = Inr ys \<Longrightarrow> list_all safe_segment ys" for xs ys
    by (induction xs arbitrary: ys) (auto split: sum.splits dest: decodeSegment_safe)
  show "parseFsPath s = Inr p \<Longrightarrow> ?thesis"
    by (auto simp: parseFsPath_def Let_def split: if_splits option.splits sum.splits dest: m)
qed



end
