(* ===== verification/Fs_Types.thy ===== *)
theory Fs_Types
  imports Fs_Path
begin

unbundle bit_operations_syntax

text \<open>
  Requests, authorities and limits of the file system capability: \<open>types.ts\<close>, \<open>authority.ts\<close>,
  \<open>open-flags.ts\<close>, \<open>constants.ts\<close> and the argument checks of \<open>memory-provider.ts\<close> under
  \<open>capabilities/fs/src/node\<close>.  The value of an argument is a JSON value or the reference of
  a resource, which the provider compares by identity (\<open>JRef\<close>).  A property that is absent reads
  as \<open>None\<close>.
\<close>

datatype json = JNull | JBool bool | JNum jsnum | JStr jstring | JArr "json list" | JObj "(string \<times> json) list" | JRef nat

definition jnat :: "nat \<Rightarrow> json" where
  "jnat n = JNum (Fin (of_nat n))"

section \<open>Argument checks\<close>

definition read :: "(string \<times> json) list \<Rightarrow> string \<Rightarrow> json option" where
  "read args key = map_of args key"

definition requireExactKeys :: "(string \<times> json) list \<Rightarrow> string list \<Rightarrow> fs_error + unit" where
  "requireExactKeys args expected =
     (let keys = map fst args
      in if length keys \<noteq> length expected \<or> list_ex (\<lambda>k. k \<notin> set expected) keys
         then Inl (Fs_error EINVAL) else Inr ())"

definition requirePath :: "json option \<Rightarrow> fs_error + parsed_path" where
  "requirePath v = (case v of Some (JStr s) \<Rightarrow> parseFsPath s | _ \<Rightarrow> Inl (Fs_error EINVAL))"

definition requireBoolean :: "json option \<Rightarrow> bool \<Rightarrow> fs_error + bool" where
  "requireBoolean v fallback =
     (case v of None \<Rightarrow> Inr fallback | Some (JBool b) \<Rightarrow> Inr b | _ \<Rightarrow> Inl (Fs_error EINVAL))"

definition requireInteger :: "json option \<Rightarrow> nat option \<Rightarrow> fs_error + nat" where
  "requireInteger v fallback =
     (case (case v of None \<Rightarrow> map_option (\<lambda>n. JNum (Fin (of_nat n))) fallback | Some w \<Rightarrow> Some w) of
        Some (JNum x) \<Rightarrow>
          (if num_isSafeInteger x then
             (case x of Fin q \<Rightarrow> if q < 0 then Inl (Fs_error EINVAL) else Inr (nat \<lfloor>q\<rfloor>) | _ \<Rightarrow> Inl (Fs_error EINVAL))
           else Inl (Fs_error EINVAL))
      | _ \<Rightarrow> Inl (Fs_error EINVAL))"

section \<open>Open flags\<close>

definition O_APPEND :: u32 where "O_APPEND = 0x400"
definition O_CREAT :: u32 where "O_CREAT = 0x40"
definition O_DIRECTORY :: u32 where "O_DIRECTORY = 0x10000"
definition O_EXCL :: u32 where "O_EXCL = 0x80"
definition O_NOFOLLOW :: u32 where "O_NOFOLLOW = 0x20000"
definition O_RDONLY :: u32 where "O_RDONLY = 0"
definition O_RDWR :: u32 where "O_RDWR = 2"
definition O_TRUNC :: u32 where "O_TRUNC = 0x200"
definition O_WRONLY :: u32 where "O_WRONLY = 1"

datatype open_flags = Flag_string string | Flag_number jsnum

record parsed_open_flags =
  f_append :: bool
  f_create :: bool
  f_directory :: bool
  f_exclusive :: bool
  f_noFollow :: bool
  f_readable :: bool
  f_truncate :: bool
  f_writable :: bool

definition STRING_FLAGS :: "(string \<times> u32) list" where
  "STRING_FLAGS =
     [(''a'', O_WRONLY OR O_APPEND OR O_CREAT),
      (''a+'', O_RDWR OR O_APPEND OR O_CREAT),
      (''ax'', O_WRONLY OR O_APPEND OR O_CREAT OR O_EXCL),
      (''ax+'', O_RDWR OR O_APPEND OR O_CREAT OR O_EXCL),
      (''r'', O_RDONLY),
      (''r+'', O_RDWR),
      (''w'', O_WRONLY OR O_CREAT OR O_TRUNC),
      (''w+'', O_RDWR OR O_CREAT OR O_TRUNC),
      (''wx'', O_WRONLY OR O_CREAT OR O_TRUNC OR O_EXCL),
      (''wx+'', O_RDWR OR O_CREAT OR O_TRUNC OR O_EXCL)]"

definition KNOWN_FLAGS :: u32 where
  "KNOWN_FLAGS = O_WRONLY OR O_RDWR OR O_APPEND OR O_CREAT OR O_DIRECTORY OR O_EXCL OR O_NOFOLLOW OR O_TRUNC"

text \<open>The bit operators of the language see a number modulo 2^32.\<close>

definition flag_bits :: "open_flags \<Rightarrow> u32 option" where
  "flag_bits flags =
     (case flags of
        Flag_string s \<Rightarrow> map_of STRING_FLAGS s
      | Flag_number x \<Rightarrow>
          if num_isSafeInteger x then
            (case x of Fin q \<Rightarrow> if q < 0 then None else Some (word_of_int \<lfloor>q\<rfloor>) | _ \<Rightarrow> None)
          else None)"

definition parseOpenFlags :: "open_flags \<Rightarrow> fs_error + parsed_open_flags" where
  "parseOpenFlags flags =
     (case flag_bits flags of
        None \<Rightarrow> Inl (Fs_error EINVAL)
      | Some numeric \<Rightarrow>
          if numeric AND NOT KNOWN_FLAGS \<noteq> 0 then Inl (Fs_error EINVAL)
          else
            let accessMode = numeric AND 3
            in if accessMode > O_RDWR then Inl (Fs_error EINVAL)
               else
                 let readable = (accessMode = O_RDONLY \<or> accessMode = O_RDWR);
                     writable = (accessMode = O_WRONLY \<or> accessMode = O_RDWR);
                     create = (numeric AND O_CREAT \<noteq> 0); truncate = (numeric AND O_TRUNC \<noteq> 0);
                     append = (numeric AND O_APPEND \<noteq> 0); exclusive = (numeric AND O_EXCL \<noteq> 0);
                     dir = (numeric AND O_DIRECTORY \<noteq> 0)
                 in if truncate \<and> \<not> writable \<or> append \<and> \<not> writable \<or> exclusive \<and> \<not> create \<or> create \<and> dir
                    then Inl (Fs_error EINVAL)
                    else Inr \<lparr>f_append = append, f_create = create, f_directory = dir, f_exclusive = exclusive,
                              f_noFollow = (numeric AND O_NOFOLLOW \<noteq> 0), f_readable = readable,
                              f_truncate = truncate, f_writable = writable\<rparr>)"

definition normalizeMode :: "jsnum option \<Rightarrow> nat \<Rightarrow> fs_error + nat" where
  "normalizeMode mode fallback =
     (case requireInteger (map_option JNum mode) (Some fallback) of
        Inl e \<Rightarrow> Inl e
      | Inr resolved \<Rightarrow> if resolved > 0xFFF then Inl (Fs_error EINVAL) else Inr resolved)"

section \<open>Authorities\<close>

datatype permission = Metadata | Read | Write

record root_grant =
  rg_rootId :: string
  rg_permissions :: "permission list"

record fs_authority =
  au_capabilities :: "string list"
  au_principal :: string
  au_roots :: "(root_authority \<times> root_grant) list"

definition FS_REQUIRED_CAPABILITY :: string where
  "FS_REQUIRED_CAPABILITY = ''host.fs.v1''"

definition hasSameCapabilities :: "string list \<Rightarrow> string list \<Rightarrow> bool" where
  "hasSameCapabilities left right \<longleftrightarrow> length left = length right \<and> list_all (\<lambda>v. v \<in> set right) left"

text \<open>The patterns \<open>/^\w[\w.:-]{0,127}$/u\<close> and \<open>/^[\w@][\w@./:-]{0,127}$/u\<close>.\<close>

definition word_char :: "char \<Rightarrow> bool" where
  "word_char c \<longleftrightarrow> c \<in> set ''ABCDEFGHIJKLMNOPQRSTUVWXYZabcdefghijklmnopqrstuvwxyz0123456789_''"

definition id_pattern :: "string \<Rightarrow> bool" where
  "id_pattern s =
     (case s of [] \<Rightarrow> False
      | c # r \<Rightarrow> word_char c \<and> length r \<le> 127 \<and> list_all (\<lambda>d. word_char d \<or> d \<in> set ''.:-'') r)"

definition capability_pattern :: "string \<Rightarrow> bool" where
  "capability_pattern s =
     (case s of [] \<Rightarrow> False
      | c # r \<Rightarrow> (word_char c \<or> c = CHR ''@'') \<and> length r \<le> 127 \<and>
                 list_all (\<lambda>d. word_char d \<or> d \<in> set ''@./:-'') r)"

text \<open>The validation of an authority, for an input that is already a plain record of lists.\<close>

definition createFsAuthority :: "fs_authority \<Rightarrow> fs_error + fs_authority" where
  "createFsAuthority a =
     (if \<not> id_pattern (au_principal a) \<or> length (au_capabilities a) > 256 \<or>
         list_ex (\<lambda>c. \<not> capability_pattern c) (au_capabilities a) \<or> \<not> distinct (au_capabilities a) \<or>
         list_ex (\<lambda>(_, g). rg_permissions g = [] \<or> \<not> id_pattern (rg_rootId g) \<or> \<not> distinct (rg_permissions g)) (au_roots a)
      then Inl (Fs_error EINVAL) else Inr a)"

definition createFsAuthorityRegistry :: "fs_authority list \<Rightarrow> fs_error + (string \<times> fs_authority) list" where
  "createFsAuthorityRegistry as =
     fold (\<lambda>a r. case r of Inl e \<Rightarrow> Inl e
        | Inr reg \<Rightarrow> if au_principal a \<in> fst ` set reg then Inl (Fs_error EINVAL) else Inr (reg @ [(au_principal a, a)]))
       as (Inr [])"

definition resolveProviderAuthority ::
    "(string \<times> fs_authority) list \<Rightarrow> string \<Rightarrow> string list \<Rightarrow> fs_error + fs_authority" where
  "resolveProviderAuthority registry caller capabilities =
     (case map_of registry caller of
        None \<Rightarrow> Inl (Fs_error EACCES)
      | Some a \<Rightarrow>
          if FS_REQUIRED_CAPABILITY \<notin> set capabilities \<or> \<not> hasSameCapabilities (au_capabilities a) capabilities
          then Inl (Fs_error EACCES) else Inr a)"

definition authorizeFsPath :: "fs_authority \<Rightarrow> parsed_path \<Rightarrow> permission \<Rightarrow> fs_error + root_grant" where
  "authorizeFsPath a path p =
     (case map_of (au_roots a) (p_authority path) of
        None \<Rightarrow> Inl (Fs_error EACCES)
      | Some g \<Rightarrow> if p \<in> set (rg_permissions g) then Inr g else Inl (Fs_error EACCES))"

section \<open>Requests and events\<close>

datatype fs_operation = Op_access | Op_atomicWriteBegin | Op_atomicWriteChunk | Op_atomicWriteCommit | Op_chmod | Op_cp
  | Op_handleRead | Op_handleStat | Op_handleSync | Op_handleWrite | Op_lstat | Op_mkdir | Op_open | Op_readStream
  | Op_readlink | Op_readdir | Op_realpath | Op_rename | Op_rm | Op_stat | Op_symlink | Op_watch | Op_unknown

text \<open>Provider tokens \<open>fs-file:n\<close> and \<open>fs-atomic-write:n\<close>.\<close>

datatype token_prefix = Fs_file | Fs_atomic_write

type_synonym provider_token = "token_prefix \<times> nat"
type_synonym call_token = nat

record resource_binding =
  rb_ownerCallToken :: call_token
  rb_providerToken :: provider_token
  rb_reference :: json
  rb_type :: string

record dispatch_context =
  cx_principal :: string
  cx_capabilities :: "string list"
  cx_callToken :: call_token
  cx_resources :: "resource_binding list"

text \<open>A binary part has a handle and its bytes, \<open>None\<close> when the value is not a byte array.\<close>

type_synonym binary = "string \<times> byte list option"

record port_request =
  rq_args :: json
  rq_binary :: "binary list option"
  rq_id :: string
  rq_module :: string
  rq_operation :: fs_operation

record fs_limits =
  maxChunkBytes :: nat
  maxDirectoryEntries :: nat
  maxEntries :: nat
  maxFileBytes :: nat
  maxOpenHandles :: nat
  maxTotalBytes :: nat
  maxWatchEvents :: nat

definition DEFAULT_LIMITS :: fs_limits where
  "DEFAULT_LIMITS = \<lparr>maxChunkBytes = 64 * 1024, maxDirectoryEntries = 1024, maxEntries = 4096,
     maxFileBytes = 16 * 1024 * 1024, maxOpenHandles = 64, maxTotalBytes = 64 * 1024 * 1024, maxWatchEvents = 1024\<rparr>"

datatype envelope = Ok_value "json option" | Failed fs_code

datatype domain_error = Fs_exists | Fs_not_found | Fs_permission_denied | Invalid_request | Port_disposed | Limit_exceeded

datatype port_event =
    Ev_result string "binary list option" "(provider_token \<times> string) list option" envelope
  | Ev_error string domain_error
  | Ev_chunk string nat "binary list option" envelope
  | Ev_end string envelope

definition fsSuccess :: "json option \<Rightarrow> envelope" where
  "fsSuccess v = Ok_value v"

definition fsFailure :: "fs_code \<Rightarrow> envelope" where
  "fsFailure c = Failed c"

definition fsDomainError :: "fs_code \<Rightarrow> domain_error" where
  "fsDomainError c =
     (case c of EEXIST \<Rightarrow> Fs_exists | ENOENT \<Rightarrow> Fs_not_found | EACCES \<Rightarrow> Fs_permission_denied | _ \<Rightarrow> Invalid_request)"

section \<open>Open flags are consistent\<close>

lemma parseOpenFlags_consistent:
  assumes "parseOpenFlags flags = Inr f"
  shows "(f_readable f \<or> f_writable f) \<and> (f_truncate f \<longrightarrow> f_writable f) \<and> (f_append f \<longrightarrow> f_writable f) \<and>
    (f_exclusive f \<longrightarrow> f_create f) \<and> (f_create f \<longrightarrow> \<not> f_directory f)"
proof -
  have m: "w \<le> 2 \<Longrightarrow> w = 0 \<or> w = 1 \<or> w = 2" for w :: u32
  proof -
    assume "w \<le> 2"
    then have "unat w \<le> 2" by (simp add: word_le_nat_alt)
    then have "unat w = 0 \<or> unat w = 1 \<or> unat w = 2" by auto
    moreover have h: "word_of_nat (unat w) = w" by simp
    ultimately have "w = word_of_nat 0 \<or> w = word_of_nat 1 \<or> w = word_of_nat 2" by metis
    then show ?thesis by simp
  qed
  from assms show ?thesis
    using m [of "the (flag_bits flags) AND 3"]
    by (auto simp: parseOpenFlags_def Let_def O_RDONLY_def O_WRONLY_def O_RDWR_def split: option.splits if_splits)
qed

end
