(* ===== verification/Js_Maps.thy ===== *)
theory Js_Maps
  imports Prelude
begin

text \<open>
  A JavaScript \<open>Map\<close> as an association list in insertion order: \<open>set\<close> keeps the place of a key that
  is there and appends a new one, \<open>delete\<close> removes the key.
\<close>

definition map_set :: "'k \<Rightarrow> 'v \<Rightarrow> ('k \<times> 'v) list \<Rightarrow> ('k \<times> 'v) list" where
  "map_set k v m =
     (if k \<in> fst ` set m then map (\<lambda>(k', v'). (k', if k' = k then v else v')) m else m @ [(k, v)])"

definition map_delete :: "'k \<Rightarrow> ('k \<times> 'v) list \<Rightarrow> ('k \<times> 'v) list" where
  "map_delete k m = filter (\<lambda>(k', _). k' \<noteq> k) m"

definition map_adjust :: "'k \<Rightarrow> ('v \<Rightarrow> 'v) \<Rightarrow> ('k \<times> 'v) list \<Rightarrow> ('k \<times> 'v) list" where
  "map_adjust k f m = map (\<lambda>(k', v). (k', if k' = k then f v else v)) m"

lemma map_of_map_set [simp]: "map_of (map_set k v m) = (map_of m)(k \<mapsto> v)"
proof (cases "k \<in> fst ` set m")
  case True
  then have "map_of (map (\<lambda>(k', v'). (k', if k' = k then v else v')) m) = (map_of m)(k \<mapsto> v)"
  proof (induction m)
    case (Cons p m)
    show ?case
    proof (cases "k \<in> fst ` set m")
      case True
      then show ?thesis using Cons by (cases p) auto
    next
      case False
      then have "fst p = k" using Cons.prems by auto
      moreover have "map (\<lambda>(k', v'). (k', if k' = k then v else v')) m = m"
        using False by (intro map_idI) force
      ultimately show ?thesis by (cases p) auto
    qed
  qed simp
  then show ?thesis using True by (simp add: map_set_def)
next
  case False
  then have "map_of m k = None" by (simp add: map_of_eq_None_iff)
  then show ?thesis using False by (auto simp: map_set_def map_add_def fun_eq_iff split: option.split)
qed

lemma map_of_map_delete [simp]: "map_of (map_delete k m) = (map_of m)(k := None)"
  by (induction m) (auto simp: map_delete_def)

lemma keys_map_set: "fst ` set (map_set k v m) = insert k (fst ` set m)"
  by (force simp: map_set_def)

lemma distinct_map_set: "distinct (map fst m) \<Longrightarrow> distinct (map fst (map_set k v m))"
  by (auto simp: map_set_def comp_def case_prod_beta)

lemma length_map_set: "length (map_set k v m) = (if k \<in> fst ` set m then length m else Suc (length m))"
  by (simp add: map_set_def)

lemma length_map_delete: "length (map_delete k m) \<le> length m"
  by (simp add: map_delete_def)

lemma length_map_adjust [simp]: "length (map_adjust k f m) = length m"
  by (simp add: map_adjust_def)

lemma map_of_map_adjust: "map_of (map_adjust k f m) = (\<lambda>k'. map_option (if k' = k then f else id) (map_of m k'))"
  by (induction m) (auto simp: map_adjust_def)

lemma map_set_fresh: "k \<notin> fst ` set m \<Longrightarrow> map_set k v m = m @ [(k, v)]"
  by (simp add: map_set_def)

lemma map_fst_adjust [simp]: "map fst (map_adjust k f m) = map fst m"
  by (auto simp: map_adjust_def)

end
