(* ===== verification/Fs_Heap.thy ===== *)
theory Fs_Heap
  imports Fs_Types Js_Maps
begin

text \<open>
  The state of \<open>MemoryFsNativePort\<close> (\<open>memory-provider.ts\<close>) and its private helpers.  The entries
  are objects that the tree, open handles, streams and transactions share, so they live in a
  store: an address stands for the object identity, the addresses below \<open>fs_next\<close> are the allocated
  ones.  A \<open>Map\<close> is an association list in insertion order.  The clock is read once per call of
  the port.  Calls of an event sink are recorded in \<open>fs_events\<close>.

  The recursions over directories take the number of allocated addresses as fuel, which bounds
  the depth of a tree (see the lemmas on trees).
\<close>

section \<open>State\<close>

type_synonym addr = nat

datatype entry_kind = Directory "(jstring \<times> addr) list" | File "byte list" | Symlink parsed_path

record entry =
  birthtimeMs :: int
  ctimeMs :: int
  mtimeMs :: int
  e_mode :: nat
  e_kind :: entry_kind

record file_resource =
  fr_append :: bool
  fr_authority :: root_authority
  fr_entry :: addr
  fr_offset :: nat
  fr_owner :: call_token
  fr_path :: parsed_path
  fr_readable :: bool
  fr_rootId :: string
  fr_writable :: bool

datatype tx_state = Aborted | Committed | Tx_open | Tx_writing

record atomic_write =
  aw_authority :: root_authority
  aw_callTokens :: "call_token list"
  aw_create :: bool
  aw_entry :: addr
  aw_noFollow :: bool
  aw_owner :: call_token
  aw_path :: parsed_path
  aw_principal :: string
  aw_rootId :: string
  aw_state :: tx_state
  aw_token :: provider_token

record stream_record =
  sr_id :: string
  sr_cursor :: nat
  sr_end :: nat
  sr_file :: addr
  sr_chunkSize :: nat
  sr_sequence :: nat

datatype watch_type = Change | Rename_event

record watch_record =
  wr_credits :: nat
  wr_events :: "(watch_type \<times> jstring) list"
  wr_id :: string
  wr_path :: parsed_path
  wr_sequence :: nat

record fs =
  fs_authorities :: "(string \<times> fs_authority) list"
  fs_limits :: fs_limits
  fs_heap :: "addr \<Rightarrow> entry"
  fs_next :: addr
  fs_files :: "(provider_token \<times> file_resource) list"
  fs_roots :: "(string \<times> addr) list"
  fs_streams :: "(call_token \<times> stream_record) list"
  fs_transactionByCallToken :: "(call_token \<times> provider_token) list"
  fs_transactions :: "(provider_token \<times> atomic_write) list"
  fs_watchers :: "(call_token \<times> watch_record) list"
  fs_disposed :: bool
  fs_nextToken :: nat
  fs_now :: int
  fs_events :: "port_event list"

type_synonym 'a fs_op = "(fs, fs_error, 'a) op"

section \<open>Entries\<close>

definition new_directory :: "nat \<Rightarrow> int \<Rightarrow> entry" where
  "new_directory mode t = \<lparr>birthtimeMs = t, ctimeMs = t, mtimeMs = t, e_mode = mode, e_kind = Directory []\<rparr>"

definition new_file :: "nat \<Rightarrow> int \<Rightarrow> entry" where
  "new_file mode t = \<lparr>birthtimeMs = t, ctimeMs = t, mtimeMs = t, e_mode = mode, e_kind = File []\<rparr>"

definition liftE :: "'e + 'a \<Rightarrow> ('s, 'e, 'a) op" where
  "liftE r s = (r, s)"

definition fs_fail :: "fs_code \<Rightarrow> 'a fs_op" where
  "fs_fail c = throw (Fs_error c)"

definition when_fail :: "bool \<Rightarrow> fs_code \<Rightarrow> unit fs_op" where
  "when_fail b c = (if b then fs_fail c else ret ())"

definition alloc :: "entry \<Rightarrow> addr fs_op" where
  "alloc e s = (Inr (fs_next s), s\<lparr>fs_heap := (fs_heap s)(fs_next s := e), fs_next := fs_next s + 1\<rparr>)"

definition update_entry :: "addr \<Rightarrow> (entry \<Rightarrow> entry) \<Rightarrow> unit fs_op" where
  "update_entry a f = modify (\<lambda>s. s\<lparr>fs_heap := (fs_heap s)(a := f (fs_heap s a))\<rparr>)"

definition children :: "entry \<Rightarrow> (jstring \<times> addr) list" where
  "children e = (case e_kind e of Directory cs \<Rightarrow> cs | _ \<Rightarrow> [])"

definition is_directory :: "entry \<Rightarrow> bool" where
  "is_directory e = (case e_kind e of Directory _ \<Rightarrow> True | _ \<Rightarrow> False)"

definition is_file :: "entry \<Rightarrow> bool" where
  "is_file e = (case e_kind e of File _ \<Rightarrow> True | _ \<Rightarrow> False)"

definition is_symlink :: "entry \<Rightarrow> bool" where
  "is_symlink e = (case e_kind e of Symlink _ \<Rightarrow> True | _ \<Rightarrow> False)"

definition entry_data :: "entry \<Rightarrow> byte list" where
  "entry_data e = (case e_kind e of File d \<Rightarrow> d | _ \<Rightarrow> [])"

definition set_child :: "jstring \<Rightarrow> addr \<Rightarrow> entry \<Rightarrow> entry" where
  "set_child name a e =
     (case e_kind e of Directory cs \<Rightarrow> e\<lparr>e_kind := Directory (map_set name a cs)\<rparr> | _ \<Rightarrow> e)"

definition delete_child :: "jstring \<Rightarrow> entry \<Rightarrow> entry" where
  "delete_child name e =
     (case e_kind e of Directory cs \<Rightarrow> e\<lparr>e_kind := Directory (map_delete name cs)\<rparr> | _ \<Rightarrow> e)"

section \<open>The tree\<close>

definition root :: "root_grant \<Rightarrow> addr fs_op" where
  "root grant s =
     (case map_of (fs_roots s) (rg_rootId grant) of
        Some a \<Rightarrow> (Inr a, s)
      | None \<Rightarrow> seqE (alloc (new_directory 0x1FF (fs_now s)))
                 (\<lambda>a. seqE (modify (\<lambda>s. s\<lparr>fs_roots := map_set (rg_rootId grant) a (fs_roots s)\<rparr>)) (\<lambda>_. ret a)) s)"

text \<open>The loop of \<open>resolve\<close>: the entry reached, or the symbolic link to follow with what is left.\<close>

fun walk_segments :: "(addr \<Rightarrow> entry) \<Rightarrow> bool \<Rightarrow> addr \<Rightarrow> jstring list \<Rightarrow> fs_error + (addr + parsed_path \<times> jstring list)" where
  "walk_segments h follow a [] = Inr (Inl a)"
| "walk_segments h follow a (n # rest) =
     (case e_kind (h a) of
        Directory cs \<Rightarrow>
          (case map_of cs n of
             None \<Rightarrow> Inl (Fs_error ENOENT)
           | Some b \<Rightarrow>
               (case e_kind (h b) of
                  Symlink t \<Rightarrow> if follow \<or> rest \<noteq> [] then Inr (Inr (t, rest)) else walk_segments h follow b rest
                | _ \<Rightarrow> walk_segments h follow b rest))
      | _ \<Rightarrow> Inl (Fs_error ENOTDIR))"

function resolve :: "fs_authority \<Rightarrow> parsed_path \<Rightarrow> bool \<Rightarrow> permission \<Rightarrow> nat \<Rightarrow> (addr \<times> parsed_path) fs_op" where
  "resolve a path follow p hops s =
     (case authorizeFsPath a path p of
        Inl e \<Rightarrow> (Inl e, s)
      | Inr grant \<Rightarrow>
          (case root grant s of
             (Inl e, s) \<Rightarrow> (Inl e, s)
           | (Inr r, s) \<Rightarrow>
               (case walk_segments (fs_heap s) follow r (segments path) of
                  Inl e \<Rightarrow> (Inl e, s)
                | Inr (Inl b) \<Rightarrow> (Inr (b, path), s)
                | Inr (Inr (target, rest)) \<Rightarrow>
                    if hops \<ge> 40 \<or> p_authority target \<noteq> p_authority path then (Inl (Fs_error EPERM), s)
                    else (case formatFsPath (p_authority path) (segments target @ rest) of
                            Inl e \<Rightarrow> (Inl e, s)
                          | Inr nxt \<Rightarrow>
                              (case parseFsPath nxt of
                                 Inl e \<Rightarrow> (Inl e, s)
                               | Inr path' \<Rightarrow> resolve a path' True p (hops + 1) s)))))"
  by pat_completeness auto
termination by (relation "measure (\<lambda>(a, path, follow, p, hops, s). 41 - hops)") auto

declare resolve.simps [simp del]

definition parent :: "fs_authority \<Rightarrow> parsed_path \<Rightarrow> permission \<Rightarrow> addr fs_op" where
  "parent a path p =
     (if segments path = [] then fs_fail EPERM
      else seqE (resolve a (path\<lparr>segments := butlast (segments path)\<rparr>) True p 0) (\<lambda>(b, _).
        seqE (gets (\<lambda>s. is_directory (fs_heap s b))) (\<lambda>d. if d then ret b else fs_fail ENOTDIR)))"

definition last_segment :: "parsed_path \<Rightarrow> jstring option" where
  "last_segment path = (if segments path = [] then None else Some (last (segments path)))"

section \<open>Sizes\<close>

fun visit :: "nat \<Rightarrow> (addr \<Rightarrow> entry) \<Rightarrow> addr \<Rightarrow> addr list" where
  "visit 0 h a = []"
| "visit (Suc n) h a = a # concat (map (\<lambda>(_, b). visit n h b) (children (h a)))"

definition isActiveTransaction :: "atomic_write \<Rightarrow> bool" where
  "isActiveTransaction t \<longleftrightarrow> aw_state t = Tx_open \<or> aw_state t = Tx_writing"

record fs_snapshot =
  sn_disposed :: bool
  sn_entries :: nat
  sn_openHandles :: nat
  sn_pendingTransactions :: nat
  sn_pendingStreams :: nat
  sn_totalBytes :: nat
  sn_transactionBytes :: nat

definition visited :: "fs \<Rightarrow> addr list" where
  "visited s = concat (map (\<lambda>(_, r). visit (fs_next s) (fs_heap s) r) (fs_roots s))"

text \<open>The files that count: those in the trees, open ones and those of active transactions.\<close>

definition counted_files :: "fs \<Rightarrow> addr list" where
  "counted_files s =
     remdups (filter (\<lambda>a. is_file (fs_heap s a)) (visited s @ map (\<lambda>(_, r). fr_entry r) (fs_files s)) @
       map (\<lambda>(_, t). aw_entry t) (filter (\<lambda>(_, t). isActiveTransaction t) (fs_transactions s)))"

definition getFsSnapshot :: "fs \<Rightarrow> fs_snapshot" where
  "getFsSnapshot s =
     \<lparr>sn_disposed = fs_disposed s, sn_entries = length (visited s),
      sn_openHandles = length (fs_files s) + length (fs_transactions s),
      sn_pendingTransactions = length (filter (\<lambda>(_, t). isActiveTransaction t) (fs_transactions s)),
      sn_pendingStreams = length (fs_streams s) + length (fs_watchers s),
      sn_totalBytes = sum_list (map (\<lambda>a. length (entry_data (fs_heap s a))) (counted_files s)),
      sn_transactionBytes = sum_list (map (\<lambda>(_, t). length (entry_data (fs_heap s (aw_entry t))))
        (filter (\<lambda>(_, t). isActiveTransaction t) (fs_transactions s)))\<rparr>"

definition totalBytes :: "fs \<Rightarrow> nat" where
  "totalBytes s = sn_totalBytes (getFsSnapshot s)"

definition assertEntryCapacity :: "unit fs_op" where
  "assertEntryCapacity s =
     (if sn_entries (getFsSnapshot s) \<ge> maxEntries (fs_limits s) then (Inl (Fs_error ENOSPC), s) else (Inr (), s))"

definition assertDirectoryCapacity :: "addr \<Rightarrow> jstring \<Rightarrow> unit fs_op" where
  "assertDirectoryCapacity d name s =
     (let cs = children (fs_heap s d)
      in if name \<notin> fst ` set cs \<and> length cs \<ge> maxDirectoryEntries (fs_limits s)
         then (Inl (Fs_error ENOSPC), s) else (Inr (), s))"

fun entrySize :: "nat \<Rightarrow> (addr \<Rightarrow> entry) \<Rightarrow> addr \<Rightarrow> nat \<times> nat" where
  "entrySize 0 h a = (0, 0)"
| "entrySize (Suc n) h a =
     (case e_kind (h a) of
        File d \<Rightarrow> (length d, 1)
      | Symlink _ \<Rightarrow> (0, 1)
      | Directory cs \<Rightarrow>
          fold (\<lambda>(_, b) (bytes, entries). case entrySize n h b of (x, y) \<Rightarrow> (bytes + x, entries + y)) cs (0, 1))"

definition isHeldFile :: "fs \<Rightarrow> addr \<Rightarrow> bool" where
  "isHeldFile s a = list_ex (\<lambda>(_, r). fr_entry r = a) (fs_files s)"

fun releasedBytes :: "nat \<Rightarrow> fs \<Rightarrow> addr \<Rightarrow> nat" where
  "releasedBytes 0 s a = 0"
| "releasedBytes (Suc n) s a =
     (case e_kind (fs_heap s a) of
        File d \<Rightarrow> if isHeldFile s a then 0 else length d
      | Symlink _ \<Rightarrow> 0
      | Directory cs \<Rightarrow> fold (\<lambda>(_, b) bytes. bytes + releasedBytes n s b) cs 0)"

fun clone :: "nat \<Rightarrow> addr \<Rightarrow> fs \<Rightarrow> addr \<times> fs" where
  "clone 0 a s = (fs_next s, snd (alloc (new_file 0 0) s))"
| "clone (Suc n) a s =
     (case e_kind (fs_heap s a) of
        Directory cs \<Rightarrow>
          (let b = fs_next s;
               s1 = snd (alloc (new_directory (e_mode (fs_heap s a)) (fs_now s)) s);
               (cs', s2) = fold (\<lambda>(name, c) (acc, st). case clone n c st of (c', st') \<Rightarrow> (map_set name c' acc, st'))
                             cs ([], s1)
           in (b, s2\<lparr>fs_heap := (fs_heap s2)(b := (fs_heap s2 b)\<lparr>e_kind := Directory cs'\<rparr>)\<rparr>))
      | _ \<Rightarrow> (fs_next s, snd (alloc (fs_heap s a) s)))"

section \<open>Watchers\<close>

definition emit :: "port_event \<Rightarrow> fs \<Rightarrow> fs" where
  "emit ev s = s\<lparr>fs_events := fs_events s @ [ev]\<rparr>"

definition watch_json :: "watch_type \<times> jstring \<Rightarrow> json" where
  "watch_json e =
     JObj [(''eventType'', JStr (js (case fst e of Change \<Rightarrow> ''change'' | Rename_event \<Rightarrow> ''rename''))),
           (''filename'', JStr (snd e))]"

text \<open>\<open>flushWatcher\<close>: one event per credit.\<close>

fun flush_events :: "call_token \<Rightarrow> (watch_type \<times> jstring) list \<Rightarrow> watch_record \<Rightarrow> fs \<Rightarrow> fs" where
  "flush_events c [] w s = s\<lparr>fs_watchers := map_adjust c (\<lambda>_. w\<lparr>wr_events := []\<rparr>) (fs_watchers s)\<rparr>"
| "flush_events c (e # es) w s =
     (if wr_credits w = 0 then s\<lparr>fs_watchers := map_adjust c (\<lambda>_. w\<lparr>wr_events := e # es\<rparr>) (fs_watchers s)\<rparr>
      else flush_events c es (w\<lparr>wr_credits := wr_credits w - 1, wr_sequence := wr_sequence w + 1\<rparr>)
             (emit (Ev_chunk (wr_id w) (wr_sequence w) None (fsSuccess (Some (watch_json e)))) s))"

definition flushWatcher :: "call_token \<Rightarrow> fs \<Rightarrow> fs" where
  "flushWatcher c s =
     (case map_of (fs_watchers s) c of None \<Rightarrow> s | Some w \<Rightarrow> flush_events c (wr_events w) w s)"

definition notify_one :: "watch_type \<Rightarrow> parsed_path \<Rightarrow> call_token \<Rightarrow> fs \<Rightarrow> fs" where
  "notify_one t changed c s =
     (case map_of (fs_watchers s) c of
        None \<Rightarrow> s
      | Some w \<Rightarrow>
          let pre = segments (wr_path w)
          in if p_authority (wr_path w) \<noteq> p_authority changed then s
             else if take (length pre) (segments changed) \<noteq> pre then s
             else if length (wr_events w) \<ge> maxWatchEvents (fs_limits s)
             then emit (Ev_error (wr_id w) Limit_exceeded) (s\<lparr>fs_watchers := map_delete c (fs_watchers s)\<rparr>)
             else flushWatcher c (s\<lparr>fs_watchers := map_adjust c
                    (\<lambda>w. w\<lparr>wr_events := wr_events w @ [(t, join_slash (drop (length pre) (segments changed)))]\<rparr>)
                    (fs_watchers s)\<rparr>))"

definition notifyWatchers :: "fs_operation \<Rightarrow> jstring list \<Rightarrow> unit fs_op" where
  "notifyWatchers operation candidates =
     modify (fold (\<lambda>candidate s.
       case parseFsPath candidate of
         Inl _ \<Rightarrow> s
       | Inr changed \<Rightarrow>
           fold (notify_one (if operation = Op_chmod then Change else Rename_event) changed)
             (map fst (fs_watchers s)) s) candidates)"

section \<open>Resources\<close>

definition allocateProviderToken :: "token_prefix \<Rightarrow> provider_token fs_op" where
  "allocateProviderToken kind s =
     (if int (fs_nextToken s) > MAX_SAFE_INTEGER then (Inl (Fs_error ENOSPC), s)
      else (Inr (kind, fs_nextToken s), s\<lparr>fs_nextToken := fs_nextToken s + 1\<rparr>))"

definition fileResource ::
    "(string \<times> json) list \<Rightarrow> dispatch_context \<Rightarrow> fs_authority \<Rightarrow> permission \<Rightarrow> fs \<Rightarrow>
     fs_error + provider_token \<times> file_resource" where
  "fileResource args context a p s =
     (case find (\<lambda>b. Some (rb_reference b) = read args ''handle'' \<and> rb_type b = ''fs.file'') (cx_resources context) of
        None \<Rightarrow> Inl (Fs_error EBADF)
      | Some binding \<Rightarrow>
          (case map_of (fs_files s) (rb_providerToken binding) of
             None \<Rightarrow> Inl (Fs_error EBADF)
           | Some r \<Rightarrow>
               if fr_owner r \<noteq> rb_ownerCallToken binding then Inl (Fs_error EBADF)
               else if fr_authority r \<noteq> p_authority (fr_path r) then Inl (Fs_error EBADF)
               else (case authorizeFsPath a (fr_path r) p of
                       Inl e \<Rightarrow> Inl e
                     | Inr grant \<Rightarrow>
                         if rg_rootId grant \<noteq> fr_rootId r then Inl (Fs_error EBADF)
                         else if p = Read \<and> \<not> fr_readable r \<or> p = Write \<and> \<not> fr_writable r
                         then Inl (Fs_error EACCES) else Inr (rb_providerToken binding, r))))"

definition atomicWriteResource ::
    "(string \<times> json) list \<Rightarrow> dispatch_context \<Rightarrow> fs_authority \<Rightarrow> fs \<Rightarrow> fs_error + atomic_write" where
  "atomicWriteResource args context a s =
     (case cx_resources context of
        [binding] \<Rightarrow>
          if Some (rb_reference binding) \<noteq> read args ''transaction'' \<or> rb_type binding \<noteq> ''fs.atomic-write''
          then Inl (Fs_error EBADF)
          else (case map_of (fs_transactions s) (rb_providerToken binding) of
                  None \<Rightarrow> Inl (Fs_error EBADF)
                | Some t \<Rightarrow>
                    if aw_token t \<noteq> rb_providerToken binding \<or> aw_owner t \<noteq> rb_ownerCallToken binding \<or>
                       aw_authority t \<noteq> p_authority (aw_path t) \<or> aw_principal t \<noteq> au_principal a \<or>
                       \<not> isActiveTransaction t
                    then Inl (Fs_error EBADF)
                    else (case authorizeFsPath a (aw_path t) Write of
                            Inl e \<Rightarrow> Inl e
                          | Inr grant \<Rightarrow> if rg_rootId grant \<noteq> aw_rootId t then Inl (Fs_error EBADF) else Inr t))
      | _ \<Rightarrow> Inl (Fs_error EBADF))"

definition adjust_transaction :: "provider_token \<Rightarrow> (atomic_write \<Rightarrow> atomic_write) \<Rightarrow> fs \<Rightarrow> fs" where
  "adjust_transaction tk f s = s\<lparr>fs_transactions := map_adjust tk f (fs_transactions s)\<rparr>"

definition trackTransactionCall :: "atomic_write \<Rightarrow> call_token \<Rightarrow> unit fs_op" where
  "trackTransactionCall t c =
     modify (\<lambda>s. (adjust_transaction (aw_token t)
         (\<lambda>t. t\<lparr>aw_callTokens := (if c \<in> set (aw_callTokens t) then aw_callTokens t else aw_callTokens t @ [c])\<rparr>) s)
       \<lparr>fs_transactionByCallToken := map_set c (aw_token t) (fs_transactionByCallToken s)\<rparr>)"

definition clearTransactionCalls :: "atomic_write \<Rightarrow> fs \<Rightarrow> fs" where
  "clearTransactionCalls t s =
     adjust_transaction (aw_token t) (\<lambda>t. t\<lparr>aw_callTokens := []\<rparr>)
       (s\<lparr>fs_transactionByCallToken :=
            fold (\<lambda>c m. if map_of m c = Some (aw_token t) then map_delete c m else m) (aw_callTokens t)
              (fs_transactionByCallToken s)\<rparr>)"

definition abortTransaction :: "atomic_write \<Rightarrow> fs \<Rightarrow> fs" where
  "abortTransaction t s =
     (if \<not> isActiveTransaction t then s
      else clearTransactionCalls t
             ((adjust_transaction (aw_token t) (\<lambda>t. t\<lparr>aw_state := Aborted\<rparr>) s)
                \<lparr>fs_heap := (fs_heap s)(aw_entry t := (fs_heap s (aw_entry t))\<lparr>e_kind := File []\<rparr>)\<rparr>))"

definition releaseTransaction :: "atomic_write \<Rightarrow> fs \<Rightarrow> fs" where
  "releaseTransaction t s =
     (let s = clearTransactionCalls t s in s\<lparr>fs_transactions := map_delete (aw_token t) (fs_transactions s)\<rparr>)"

end
