(* ===== verification/Fs_Ops.thy ===== *)
theory Fs_Ops
  imports Fs_Heap
begin

unbundle bit_operations_syntax

text \<open>
  The operations of the in-memory file system provider (\<open>memory-provider.ts\<close>), one definition per
  private method, and the entry points of the port: \<open>dispatch\<close>, \<open>cancel\<close>, \<open>closeResource\<close>,
  \<open>grantCredits\<close>, \<open>dispose\<close>.
\<close>

datatype op_output = Plain json | Rich "binary list option" "(provider_token \<times> string) list option" "json option"

section \<open>Queries\<close>

definition access :: "(string \<times> json) list \<Rightarrow> fs_authority \<Rightarrow> op_output fs_op" where
  "access args a =
     seqE (liftE (requirePath (read args ''path''))) (\<lambda>path.
     seqE (liftE (requireInteger (read args ''mode'') (Some 0))) (\<lambda>mode.
       let m = word_of_nat mode :: u32
       in seqE (when_fail (m AND NOT 7 \<noteq> 0 \<or> m AND 1 \<noteq> 0) ERR_HOLONOMY_NOT_SUPPORTED) (\<lambda>_.
          seqE (if m AND 4 \<noteq> 0 then liftE (map_sum id (\<lambda>_. ()) (authorizeFsPath a path Read)) else ret ()) (\<lambda>_.
          seqE (if m AND 2 \<noteq> 0 then liftE (map_sum id (\<lambda>_. ()) (authorizeFsPath a path Write)) else ret ()) (\<lambda>_.
          seqE (resolve a path True (if m AND 4 \<noteq> 0 then Read else if m AND 2 \<noteq> 0 then Write else Metadata) 0) (\<lambda>_.
            ret (Plain (JObj []))))))))"

definition statRecord :: "entry \<Rightarrow> json" where
  "statRecord e =
     JObj [(''birthtimeMs'', JNum (Fin (of_int (birthtimeMs e)))), (''ctimeMs'', JNum (Fin (of_int (ctimeMs e)))),
           (''kind'', JStr (js (case e_kind e of Directory _ \<Rightarrow> ''directory'' | File _ \<Rightarrow> ''file'' | Symlink _ \<Rightarrow> ''symlink''))),
           (''mode'', jnat (e_mode e)), (''mtimeMs'', JNum (Fin (of_int (mtimeMs e)))),
           (''size'', jnat (length (entry_data e)))]"

definition stat :: "(string \<times> json) list \<Rightarrow> fs_authority \<Rightarrow> bool \<Rightarrow> op_output fs_op" where
  "stat args a follow =
     seqE (liftE (requirePath (read args ''path''))) (\<lambda>path.
     seqE (resolve a path follow Metadata 0) (\<lambda>(b, _).
     seqE (gets (\<lambda>s. statRecord (fs_heap s b))) (\<lambda>r. ret (Plain r))))"

text \<open>\<open>localeCompare\<close> is a parameter: the order of the host's locale.  The sort is stable.\<close>

fun insert_sorted :: "(jstring \<Rightarrow> jstring \<Rightarrow> bool) \<Rightarrow> jstring \<times> 'a \<Rightarrow> (jstring \<times> 'a) list \<Rightarrow> (jstring \<times> 'a) list" where
  "insert_sorted le x [] = [x]"
| "insert_sorted le x (y # ys) = (if le (fst x) (fst y) then x # y # ys else y # insert_sorted le x ys)"

definition sort_names :: "(jstring \<Rightarrow> jstring \<Rightarrow> bool) \<Rightarrow> (jstring \<times> 'a) list \<Rightarrow> (jstring \<times> 'a) list" where
  "sort_names le xs = foldr (insert_sorted le) xs []"

definition readdir :: "(jstring \<Rightarrow> jstring \<Rightarrow> bool) \<Rightarrow> (string \<times> json) list \<Rightarrow> fs_authority \<Rightarrow> op_output fs_op" where
  "readdir le args a =
     seqE (liftE (requirePath (read args ''path''))) (\<lambda>path.
     seqE (resolve a path True Read 0) (\<lambda>(b, _).
     seqE (gets (\<lambda>s. s)) (\<lambda>s.
     seqE (when_fail (\<not> is_directory (fs_heap s b)) ENOTDIR) (\<lambda>_.
     seqE (when_fail (length (children (fs_heap s b)) > maxDirectoryEntries (fs_limits s)) ENOSPC) (\<lambda>_.
       ret (Plain (JObj [(''entries'', JArr (map (\<lambda>(name, c).
         JObj [(''kind'', JStr (js (case e_kind (fs_heap s c) of Directory _ \<Rightarrow> ''directory'' | File _ \<Rightarrow> ''file'' | Symlink _ \<Rightarrow> ''symlink''))),
               (''name'', JStr name)]) (sort_names le (children (fs_heap s b)))))])))))))"

definition readlink :: "(string \<times> json) list \<Rightarrow> fs_authority \<Rightarrow> op_output fs_op" where
  "readlink args a =
     seqE (liftE (requirePath (read args ''path''))) (\<lambda>path.
     seqE (resolve a path False Read 0) (\<lambda>(b, _).
     seqE (gets (\<lambda>s. e_kind (fs_heap s b))) (\<lambda>k.
       case k of Symlink t \<Rightarrow> ret (Plain (JObj [(''path'', JStr (href t))])) | _ \<Rightarrow> fs_fail EINVAL)))"

definition realpath :: "(string \<times> json) list \<Rightarrow> fs_authority \<Rightarrow> op_output fs_op" where
  "realpath args a =
     seqE (liftE (requirePath (read args ''path''))) (\<lambda>path.
     seqE (resolve a path True Metadata 0) (\<lambda>(_, p). ret (Plain (JObj [(''path'', JStr (href p))]))))"

section \<open>Changes of the tree\<close>

definition chmod :: "(string \<times> json) list \<Rightarrow> fs_authority \<Rightarrow> op_output fs_op" where
  "chmod args a =
     seqE (liftE (requirePath (read args ''path''))) (\<lambda>path.
     seqE (liftE (requireInteger (read args ''mode'') None)) (\<lambda>mode.
     seqE (when_fail (mode > 0xFFF) EINVAL) (\<lambda>_.
     seqE (resolve a path True Write 0) (\<lambda>(b, _).
     seqE (gets fs_now) (\<lambda>t.
     seqE (update_entry b (\<lambda>e. e\<lparr>e_mode := mode, ctimeMs := t\<rparr>)) (\<lambda>_.
     seqE (notifyWatchers Op_chmod [href path]) (\<lambda>_. ret (Plain (JObj [])))))))))"

definition is_prefix :: "jstring list \<Rightarrow> jstring list \<Rightarrow> bool" where
  "is_prefix p q \<longleftrightarrow> take (length p) q = p"

definition copy :: "(string \<times> json) list \<Rightarrow> fs_authority \<Rightarrow> op_output fs_op" where
  "copy args a =
     seqE (liftE (requirePath (read args ''source''))) (\<lambda>source.
     seqE (liftE (requirePath (read args ''destination''))) (\<lambda>destination.
     seqE (liftE (requireBoolean (read args ''recursive'') False)) (\<lambda>recursive.
     seqE (liftE (requireBoolean (read args ''force'') True)) (\<lambda>force.
     seqE (liftE (requireBoolean (read args ''errorOnExist'') False)) (\<lambda>errorOnExist.
     seqE (resolve a source False Read 0) (\<lambda>(from, _).
     seqE (gets (\<lambda>s. is_directory (fs_heap s from))) (\<lambda>dir.
     seqE (when_fail (dir \<and> \<not> recursive) EISDIR) (\<lambda>_.
     seqE (when_fail (dir \<and> p_authority source = p_authority destination \<and>
             is_prefix (segments source) (segments destination)) EINVAL) (\<lambda>_.
     seqE (parent a destination Write) (\<lambda>target.
       case last_segment destination of
         None \<Rightarrow> fs_fail EPERM
       | Some name \<Rightarrow>
           seqE (gets (\<lambda>s. map_of (children (fs_heap s target)) name)) (\<lambda>existing.
           seqE (when_fail (existing \<noteq> None \<and> (errorOnExist \<or> \<not> force)) EEXIST) (\<lambda>_.
           seqE (\<lambda>s. case clone (fs_next s) from s of (c, s') \<Rightarrow> (Inr c, s')) (\<lambda>copied.
           seqE (gets (\<lambda>s. s)) (\<lambda>s.
             let existingEntries = (case existing of None \<Rightarrow> 0 | Some b \<Rightarrow> snd (entrySize (fs_next s) (fs_heap s) b));
                 (bytes, entries) = entrySize (fs_next s) (fs_heap s) copied;
                 snapshot = getFsSnapshot s;
                 released = (case existing of None \<Rightarrow> 0 | Some b \<Rightarrow> releasedBytes (fs_next s) s b)
             in seqE (when_fail (int (sn_entries snapshot) - int existingEntries + int entries > int (maxEntries (fs_limits s)) \<or>
                      int (sn_totalBytes snapshot) - int released + int bytes > int (maxTotalBytes (fs_limits s))) ENOSPC) (\<lambda>_.
                seqE (assertDirectoryCapacity target name) (\<lambda>_.
                seqE (update_entry target (set_child name copied)) (\<lambda>_.
                seqE (notifyWatchers Op_cp [href destination]) (\<lambda>_. ret (Plain (JObj []))))))))))))))))))))"

text \<open>The loop of \<open>mkdir\<close>: the directory reached and the text of the first one created.\<close>

fun mkdir_loop ::
    "root_authority \<Rightarrow> nat \<Rightarrow> bool \<Rightarrow> addr \<Rightarrow> jstring option \<Rightarrow> jstring list \<Rightarrow> jstring list \<Rightarrow> jstring option fs_op" where
  "mkdir_loop auth mode recursive current created done [] = ret created"
| "mkdir_loop auth mode recursive current created done (name # rest) =
     seqE (gets (\<lambda>s. s)) (\<lambda>s.
       case map_of (children (fs_heap s current)) name of
         Some b \<Rightarrow>
           if \<not> is_directory (fs_heap s b) then fs_fail ENOTDIR
           else mkdir_loop auth mode recursive b created (done @ [name]) rest
       | None \<Rightarrow>
           seqE (when_fail (\<not> recursive \<and> rest \<noteq> []) ENOENT) (\<lambda>_.
           seqE assertEntryCapacity (\<lambda>_.
           seqE (assertDirectoryCapacity current name) (\<lambda>_.
           seqE (alloc (new_directory mode (fs_now s))) (\<lambda>child.
           seqE (update_entry current (set_child name child)) (\<lambda>_.
           seqE (case created of Some c \<Rightarrow> ret c | None \<Rightarrow> liftE (formatFsPath auth (done @ [name]))) (\<lambda>c.
             mkdir_loop auth mode recursive child (Some c) (done @ [name]) rest)))))))"

definition mkdir :: "(string \<times> json) list \<Rightarrow> fs_authority \<Rightarrow> op_output fs_op" where
  "mkdir args a =
     seqE (liftE (requirePath (read args ''path''))) (\<lambda>path.
     seqE (liftE (requireInteger (read args ''mode'') (Some 0x1FF))) (\<lambda>mode.
     seqE (liftE (requireBoolean (read args ''recursive'') False)) (\<lambda>recursive.
     seqE (liftE (authorizeFsPath a path Write)) (\<lambda>grant.
     seqE (root grant) (\<lambda>r.
     seqE (mkdir_loop (p_authority path) mode recursive r None [] (segments path)) (\<lambda>created.
     seqE (if created \<noteq> None then notifyWatchers Op_mkdir [href path] else ret ()) (\<lambda>_.
     seqE (when_fail (created = None \<and> \<not> recursive) EEXIST) (\<lambda>_.
       ret (Plain (JObj [(''created'', case created of None \<Rightarrow> JNull | Some c \<Rightarrow> JStr c)]))))))))))"

definition open_file :: "(string \<times> json) list \<Rightarrow> fs_authority \<Rightarrow> call_token \<Rightarrow> op_output fs_op" where
  "open_file args a owner =
     seqE (liftE (requirePath (read args ''path''))) (\<lambda>path.
     seqE (liftE (requireInteger (read args ''flags'') None)) (\<lambda>numeric.
     seqE (liftE (parseOpenFlags (Flag_number (Fin (of_nat numeric))))) (\<lambda>flags.
     seqE (liftE (requireInteger (read args ''mode'') (Some 0x1B6))) (\<lambda>mode.
       let p = (if f_writable flags then Write else Read)
       in
     seqE (liftE (authorizeFsPath a path p)) (\<lambda>grant.
     seqE (if f_readable flags then liftE (map_sum id (\<lambda>_. ()) (authorizeFsPath a path Read)) else ret ()) (\<lambda>_.
     seqE (\<lambda>s. if length (fs_files s) \<ge> maxOpenHandles (fs_limits s) then (Inl (Fs_error ENOSPC), s) else (Inr (), s)) (\<lambda>_.
     seqE (tryE (seqE (resolve a path (\<not> f_noFollow flags) p 0) (\<lambda>(b, _). ret (b, False)))
            (\<lambda>err. if err \<noteq> Fs_error ENOENT \<or> \<not> f_create flags then throw err
                   else seqE (parent a path Write) (\<lambda>d.
                     case last_segment path of
                       None \<Rightarrow> fs_fail EISDIR
                     | Some name \<Rightarrow>
                         seqE assertEntryCapacity (\<lambda>_.
                         seqE (assertDirectoryCapacity d name) (\<lambda>_.
                         seqE (gets fs_now) (\<lambda>t.
                         seqE (alloc (new_file mode t)) (\<lambda>b.
                         seqE (update_entry d (set_child name b)) (\<lambda>_. ret (b, True))))))))) (\<lambda>(b, created).
     seqE (gets (\<lambda>s. is_symlink (fs_heap s b))) (\<lambda>link.
     seqE (if link then (if f_noFollow flags then fs_fail EPERM else seqE (resolve a path True p 0) (\<lambda>(b, _). ret b)) else ret b) (\<lambda>b.
     seqE (gets (\<lambda>s. fs_heap s b)) (\<lambda>e.
     seqE (when_fail (is_directory e \<and> \<not> f_directory flags) EISDIR) (\<lambda>_.
     seqE (when_fail (\<not> is_directory e \<and> f_directory flags) ENOTDIR) (\<lambda>_.
     seqE (when_fail (is_symlink e) EINVAL) (\<lambda>_.
     seqE (when_fail (f_exclusive flags \<and> f_create flags \<and> \<not> created) EEXIST) (\<lambda>_.
     seqE (if f_truncate flags
           then if \<not> is_file e then fs_fail EISDIR else update_entry b (\<lambda>e. e\<lparr>e_kind := File []\<rparr>)
           else ret ()) (\<lambda>_.
     seqE (allocateProviderToken Fs_file) (\<lambda>token.
     seqE (modify (\<lambda>s. s\<lparr>fs_files := map_set token
             \<lparr>fr_append = f_append flags, fr_authority = p_authority path, fr_entry = b,
              fr_offset = (if f_append flags then length (entry_data (fs_heap s b)) else 0),
              fr_owner = owner, fr_path = path, fr_readable = f_readable flags, fr_rootId = rg_rootId grant,
              fr_writable = f_writable flags\<rparr> (fs_files s)\<rparr>)) (\<lambda>_.
     seqE (if created \<or> f_truncate flags then notifyWatchers Op_open [href path] else ret ()) (\<lambda>_.
       ret (Rich None (Some [(token, ''fs.file'')]) None))))))))))))))))))))"

definition rename :: "(string \<times> json) list \<Rightarrow> fs_authority \<Rightarrow> op_output fs_op" where
  "rename args a =
     seqE (liftE (requirePath (read args ''source''))) (\<lambda>source.
     seqE (liftE (requirePath (read args ''destination''))) (\<lambda>destination.
     seqE (when_fail (p_authority source \<noteq> p_authority destination) EXDEV) (\<lambda>_.
     seqE (parent a source Write) (\<lambda>from.
       case (last_segment source, last_segment destination) of
         (Some sourceName, Some destinationName) \<Rightarrow>
           seqE (gets (\<lambda>s. map_of (children (fs_heap s from)) sourceName)) (\<lambda>found.
             case found of
               None \<Rightarrow> fs_fail ENOENT
             | Some entry \<Rightarrow>
                 seqE (parent a destination Write) (\<lambda>to.
                 seqE (gets (\<lambda>s. map_of (children (fs_heap s to)) destinationName)) (\<lambda>existing.
                 seqE (gets (\<lambda>s. s)) (\<lambda>s.
                 seqE (when_fail (case existing of Some x \<Rightarrow> is_directory (fs_heap s x) \<and> children (fs_heap s x) \<noteq> [] | None \<Rightarrow> False)
                        ENOTEMPTY) (\<lambda>_.
                   if href source = href destination then ret (Plain (JObj []))
                   else
                 seqE (when_fail (is_directory (fs_heap s entry) \<and> is_prefix (segments source) (segments destination)) EINVAL) (\<lambda>_.
                 seqE (if from \<noteq> to \<or> existing \<noteq> None then assertDirectoryCapacity to destinationName else ret ()) (\<lambda>_.
                 seqE (update_entry to (set_child destinationName entry)) (\<lambda>_.
                 seqE (update_entry from (delete_child sourceName)) (\<lambda>_.
                 seqE (notifyWatchers Op_rename [href destination, href source]) (\<lambda>_. ret (Plain (JObj []))))))))))))
       | _ \<Rightarrow> fs_fail EPERM))))"

definition rm :: "(string \<times> json) list \<Rightarrow> fs_authority \<Rightarrow> op_output fs_op" where
  "rm args a =
     seqE (liftE (requirePath (read args ''path''))) (\<lambda>path.
     seqE (liftE (requireBoolean (read args ''force'') False)) (\<lambda>force.
     seqE (liftE (requireBoolean (read args ''recursive'') False)) (\<lambda>recursive.
     seqE (parent a path Write) (\<lambda>d.
       case last_segment path of
         None \<Rightarrow> fs_fail EPERM
       | Some name \<Rightarrow>
           seqE (gets (\<lambda>s. s)) (\<lambda>s.
             case map_of (children (fs_heap s d)) name of
               None \<Rightarrow> if force then ret (Plain (JObj [])) else fs_fail ENOENT
             | Some b \<Rightarrow>
                 seqE (when_fail (is_directory (fs_heap s b) \<and> children (fs_heap s b) \<noteq> [] \<and> \<not> recursive) ENOTEMPTY) (\<lambda>_.
                 seqE (update_entry d (delete_child name)) (\<lambda>_.
                 seqE (notifyWatchers Op_rm [href path]) (\<lambda>_. ret (Plain (JObj [])))))))))) "

definition symlink :: "(string \<times> json) list \<Rightarrow> fs_authority \<Rightarrow> op_output fs_op" where
  "symlink args a =
     seqE (liftE (requirePath (read args ''target''))) (\<lambda>target.
     seqE (liftE (requirePath (read args ''path''))) (\<lambda>path.
     seqE (when_fail (p_authority target \<noteq> p_authority path) EXDEV) (\<lambda>_.
     seqE (liftE (authorizeFsPath a target Read)) (\<lambda>_.
     seqE (parent a path Write) (\<lambda>d.
       case last_segment path of
         None \<Rightarrow> fs_fail EPERM
       | Some name \<Rightarrow>
           seqE (gets (\<lambda>s. s)) (\<lambda>s.
           seqE (when_fail (map_of (children (fs_heap s d)) name \<noteq> None) EEXIST) (\<lambda>_.
           seqE assertEntryCapacity (\<lambda>_.
           seqE (assertDirectoryCapacity d name) (\<lambda>_.
           seqE (alloc \<lparr>birthtimeMs = fs_now s, ctimeMs = fs_now s, mtimeMs = fs_now s, e_mode = 0x1FF,
                        e_kind = Symlink target\<rparr>) (\<lambda>b.
           seqE (update_entry d (set_child name b)) (\<lambda>_.
           seqE (notifyWatchers Op_symlink [href path]) (\<lambda>_. ret (Plain (JObj [])))))))))))))) "

end
