(* ===== verification/Fs_Provider.thy ===== *)
theory Fs_Provider
  imports Fs_Ops
begin

text \<open>
  Open files, atomic writes, streams and watchers of the in-memory file system provider, and
  the entry points of the port (\<open>memory-provider.ts\<close>).
\<close>

section \<open>Atomic writes\<close>

definition beginAtomicWrite ::
    "(string \<times> json) list \<Rightarrow> dispatch_context \<Rightarrow> fs_authority \<Rightarrow> port_request \<Rightarrow> op_output fs_op" where
  "beginAtomicWrite args context a request =
     seqE (liftE (requireExactKeys args [''flags'', ''mode'', ''path''])) (\<lambda>_.
     seqE (when_fail (cx_resources context \<noteq> [] \<or> (\<exists>b \<in> set_option (rq_binary request). b \<noteq> [])) EINVAL) (\<lambda>_.
     seqE (liftE (requirePath (read args ''path''))) (\<lambda>path.
     seqE (liftE (requireInteger (read args ''flags'') None)) (\<lambda>numeric.
     seqE (liftE (parseOpenFlags (Flag_number (Fin (of_nat numeric))))) (\<lambda>flags.
     seqE (liftE (requireInteger (read args ''mode'') (Some 0x1B6))) (\<lambda>mode.
     seqE (when_fail (mode > 0xFFF \<or> \<not> f_writable flags \<or> \<not> f_truncate flags \<or> f_append flags \<or>
                      f_directory flags \<or> f_exclusive flags) EINVAL) (\<lambda>_.
     seqE (liftE (authorizeFsPath a path Write)) (\<lambda>grant.
     seqE (parent a path Write) (\<lambda>d.
       case last_segment path of
         None \<Rightarrow> fs_fail EISDIR
       | Some name \<Rightarrow>
           seqE (gets (\<lambda>s. s)) (\<lambda>s.
             let existing = map_of (children (fs_heap s d)) name;
                 found = (case existing of None \<Rightarrow> (\<lambda>_. False) | Some b \<Rightarrow> (\<lambda>f. f (fs_heap s b)))
             in
           seqE (when_fail (existing = None \<and> \<not> f_create flags) ENOENT) (\<lambda>_.
           seqE (when_fail (found is_directory) EISDIR) (\<lambda>_.
           seqE (when_fail (found is_symlink \<and> f_noFollow flags) EPERM) (\<lambda>_.
           seqE (when_fail (length (fs_files s) + length (fs_transactions s) \<ge> maxOpenHandles (fs_limits s)) ENOSPC) (\<lambda>_.
           seqE (allocateProviderToken Fs_atomic_write) (\<lambda>token.
           seqE (alloc (new_file (case existing of Some b \<Rightarrow> if is_file (fs_heap s b) then e_mode (fs_heap s b) else mode
                                                | None \<Rightarrow> mode) (fs_now s))) (\<lambda>b.
           seqE (modify (\<lambda>s. s\<lparr>fs_transactions := map_set token
             \<lparr>aw_authority = p_authority path, aw_callTokens = [], aw_create = f_create flags, aw_entry = b,
              aw_noFollow = f_noFollow flags, aw_owner = cx_callToken context, aw_path = path,
              aw_principal = au_principal a, aw_rootId = rg_rootId grant, aw_state = Tx_open, aw_token = token\<rparr>
             (fs_transactions s)\<rparr>)) (\<lambda>_.
             ret (Rich None (Some [(token, ''fs.atomic-write'')]) None))))))))))))))))))"

definition writeAtomicChunk ::
    "(string \<times> json) list \<Rightarrow> dispatch_context \<Rightarrow> fs_authority \<Rightarrow> port_request \<Rightarrow> op_output fs_op" where
  "writeAtomicChunk args context a request =
     seqE (liftE (requireExactKeys args [''transaction''])) (\<lambda>_.
     seqE (gets (\<lambda>s. s)) (\<lambda>s.
     seqE (liftE (atomicWriteResource args context a s)) (\<lambda>t.
       case rq_binary request of
         Some [(handle, Some data)] \<Rightarrow>
           seqE (when_fail (handle \<noteq> ''data'' \<or> data = [] \<or> length data > maxChunkBytes (fs_limits s)) EINVAL) (\<lambda>_.
           seqE (trackTransactionCall t (cx_callToken context)) (\<lambda>_.
             let old = entry_data (fs_heap s (aw_entry t)); end = length old + length data
             in
           seqE (when_fail (end > maxFileBytes (fs_limits s) \<or>
                  int (totalBytes s) - int (length old) + int end > int (maxTotalBytes (fs_limits s))) ENOSPC) (\<lambda>_.
           seqE (update_entry (aw_entry t) (\<lambda>e. e\<lparr>e_kind := File (old @ data), mtimeMs := fs_now s\<rparr>)) (\<lambda>_.
           seqE (modify (adjust_transaction (aw_token t) (\<lambda>t. t\<lparr>aw_state := Tx_writing\<rparr>))) (\<lambda>_.
             ret (Plain (JObj [(''bytesWritten'', jnat (length data))])))))))
       | _ \<Rightarrow> fs_fail EINVAL)))"

definition commitAtomicWrite ::
    "(string \<times> json) list \<Rightarrow> dispatch_context \<Rightarrow> fs_authority \<Rightarrow> port_request \<Rightarrow> op_output fs_op" where
  "commitAtomicWrite args context a request =
     seqE (liftE (requireExactKeys args [''transaction''])) (\<lambda>_.
     seqE (when_fail (\<exists>b \<in> set_option (rq_binary request). b \<noteq> []) EINVAL) (\<lambda>_.
     seqE (gets (\<lambda>s. s)) (\<lambda>s0.
     seqE (liftE (atomicWriteResource args context a s0)) (\<lambda>t.
     seqE (trackTransactionCall t (cx_callToken context)) (\<lambda>_.
     seqE (parent a (aw_path t) Write) (\<lambda>d.
       case last_segment (aw_path t) of
         None \<Rightarrow> fs_fail EISDIR
       | Some name \<Rightarrow>
           seqE (gets (\<lambda>s. s)) (\<lambda>s.
             let existing = map_of (children (fs_heap s d)) name;
                 found = (case existing of None \<Rightarrow> (\<lambda>_. False) | Some b \<Rightarrow> (\<lambda>f. f (fs_heap s b)));
                 snapshot = getFsSnapshot s
             in
           seqE (when_fail (existing = None \<and> \<not> aw_create t) ENOENT) (\<lambda>_.
           seqE (when_fail (found is_directory) EISDIR) (\<lambda>_.
           seqE (when_fail (found is_symlink \<and> aw_noFollow t) EPERM) (\<lambda>_.
           seqE (when_fail (sn_entries snapshot + (if existing = None then 1 else 0) > maxEntries (fs_limits s) \<or>
                            sn_totalBytes snapshot > maxTotalBytes (fs_limits s)) ENOSPC) (\<lambda>_.
           seqE (assertDirectoryCapacity d name) (\<lambda>_.
           seqE (update_entry d (set_child name (aw_entry t))) (\<lambda>_.
           seqE (update_entry (aw_entry t) (\<lambda>e. e\<lparr>ctimeMs := fs_now s, mtimeMs := fs_now s\<rparr>)) (\<lambda>_.
           seqE (modify (adjust_transaction (aw_token t) (\<lambda>t. t\<lparr>aw_state := Committed\<rparr>))) (\<lambda>_.
           seqE (notifyWatchers Op_chmod [href (aw_path t)]) (\<lambda>_. ret (Plain (JObj []))))))))))))))))))"

section \<open>Open files\<close>

definition handleRead :: "(string \<times> json) list \<Rightarrow> dispatch_context \<Rightarrow> fs_authority \<Rightarrow> op_output fs_op" where
  "handleRead args context a =
     seqE (gets (\<lambda>s. s)) (\<lambda>s.
     seqE (liftE (fileResource args context a Read s)) (\<lambda>(token, r).
     seqE (liftE (requireInteger (read args ''length'') None)) (\<lambda>requested.
       let len = min requested (maxChunkBytes (fs_limits s)); position = read args ''position''
       in
     seqE (if position = Some JNull then ret (fr_offset r) else liftE (requireInteger position None)) (\<lambda>start.
     seqE (when_fail (\<not> fr_readable r) EACCES) (\<lambda>_.
     seqE (when_fail (\<not> is_file (fs_heap s (fr_entry r))) EISDIR) (\<lambda>_.
       let bytes = take len (drop start (entry_data (fs_heap s (fr_entry r))))
       in
     seqE (if position = Some JNull
           then modify (\<lambda>s. s\<lparr>fs_files := map_adjust token (\<lambda>r. r\<lparr>fr_offset := start + length bytes\<rparr>) (fs_files s)\<rparr>)
           else ret ()) (\<lambda>_.
       ret (Rich (Some [(''data'', Some bytes)]) None (Some (JObj [(''bytesRead'', jnat (length bytes))]))))))))))"

definition handleStat :: "(string \<times> json) list \<Rightarrow> dispatch_context \<Rightarrow> fs_authority \<Rightarrow> op_output fs_op" where
  "handleStat args context a =
     seqE (gets (\<lambda>s. s)) (\<lambda>s.
     seqE (liftE (fileResource args context a Metadata s)) (\<lambda>(_, r).
       ret (Plain (statRecord (fs_heap s (fr_entry r))))))"

definition handleSync :: "(string \<times> json) list \<Rightarrow> dispatch_context \<Rightarrow> fs_authority \<Rightarrow> op_output fs_op" where
  "handleSync args context a =
     seqE (gets (\<lambda>s. s)) (\<lambda>s. seqE (liftE (fileResource args context a Write s)) (\<lambda>_. ret (Plain (JObj []))))"

text \<open>The bytes after writing \<open>binary\<close> at \<open>start\<close>; a gap is filled with zeros.\<close>

definition write_at :: "byte list \<Rightarrow> nat \<Rightarrow> byte list \<Rightarrow> byte list" where
  "write_at old start binary =
     (let end = start + length binary; data = old @ replicate (max end (length old) - length old) 0
      in take start data @ binary @ drop end data)"

definition handleWrite ::
    "(string \<times> json) list \<Rightarrow> dispatch_context \<Rightarrow> fs_authority \<Rightarrow> port_request \<Rightarrow> op_output fs_op" where
  "handleWrite args context a request =
     seqE (gets (\<lambda>s. s)) (\<lambda>s.
     seqE (liftE (fileResource args context a Write s)) (\<lambda>(token, r).
     seqE (when_fail (\<not> fr_writable r) EACCES) (\<lambda>_.
       case (case rq_binary request of None \<Rightarrow> None | Some bs \<Rightarrow> find (\<lambda>(h, _). h = ''data'') bs) of
         Some (_, Some binary) \<Rightarrow>
           seqE (when_fail (length binary > maxChunkBytes (fs_limits s)) EINVAL) (\<lambda>_.
             let position = read args ''position''; old = entry_data (fs_heap s (fr_entry r))
             in
           seqE (when_fail (\<not> is_file (fs_heap s (fr_entry r))) EISDIR) (\<lambda>_.
           seqE (if fr_append r then ret (length old)
                 else if position = Some JNull then ret (fr_offset r)
                 else liftE (requireInteger position None)) (\<lambda>start.
             let end = start + length binary
             in
           seqE (when_fail (end > maxFileBytes (fs_limits s) \<or>
                  int (totalBytes s) - int (length old) + int end > int (maxTotalBytes (fs_limits s))) ENOSPC) (\<lambda>_.
           seqE (update_entry (fr_entry r) (\<lambda>e. e\<lparr>e_kind := File (write_at old start binary), mtimeMs := fs_now s\<rparr>)) (\<lambda>_.
           seqE (notifyWatchers Op_chmod [href (fr_path r)]) (\<lambda>_.
           seqE (if position = Some JNull \<or> fr_append r
                 then modify (\<lambda>s. s\<lparr>fs_files := map_adjust token (\<lambda>r. r\<lparr>fr_offset := end\<rparr>) (fs_files s)\<rparr>)
                 else ret ()) (\<lambda>_.
             ret (Plain (JObj [(''bytesWritten'', jnat (length binary))]))))))))) 
       | _ \<Rightarrow> fs_fail EINVAL)))"

section \<open>Streams and watchers\<close>

definition openReadStream :: "port_request \<Rightarrow> (string \<times> json) list \<Rightarrow> dispatch_context \<Rightarrow> fs_authority \<Rightarrow> unit fs_op" where
  "openReadStream request args context a =
     seqE (liftE (requirePath (read args ''path''))) (\<lambda>path.
     seqE (liftE (requireInteger (read args ''start'') (Some 0))) (\<lambda>start.
     seqE (if read args ''endExclusive'' = Some JNull then ret None
           else seqE (liftE (requireInteger (read args ''endExclusive'') None)) (\<lambda>n. ret (Some n))) (\<lambda>endExclusive.
     seqE (liftE (requireInteger (read args ''chunkSize'') None)) (\<lambda>chunkSize.
     seqE (\<lambda>s. if chunkSize = 0 \<or> chunkSize > maxChunkBytes (fs_limits s) then (Inl (Fs_error EINVAL), s) else (Inr (), s)) (\<lambda>_.
     seqE (resolve a path True Read 0) (\<lambda>(b, _).
     seqE (gets (\<lambda>s. fs_heap s b)) (\<lambda>e.
     seqE (when_fail (\<not> is_file e) (if is_directory e then EISDIR else EINVAL)) (\<lambda>_.
       let size = length (entry_data e)
       in modify (\<lambda>s. s\<lparr>fs_streams := map_set (cx_callToken context)
            \<lparr>sr_id = rq_id request, sr_cursor = min start size,
             sr_end = min (case endExclusive of None \<Rightarrow> size | Some n \<Rightarrow> n) size,
             sr_file = b, sr_chunkSize = chunkSize, sr_sequence = 0\<rparr> (fs_streams s)\<rparr>)))))))))"

definition openWatcher :: "port_request \<Rightarrow> (string \<times> json) list \<Rightarrow> dispatch_context \<Rightarrow> fs_authority \<Rightarrow> unit fs_op" where
  "openWatcher request args context a =
     seqE (liftE (requirePath (read args ''path''))) (\<lambda>path.
     seqE (resolve a path True Read 0) (\<lambda>_.
       modify (\<lambda>s. s\<lparr>fs_watchers := map_set (cx_callToken context)
         \<lparr>wr_credits = 0, wr_events = [], wr_id = rq_id request, wr_path = path, wr_sequence = 0\<rparr> (fs_watchers s)\<rparr>)))"

text \<open>The credits of a stream: each one sends a chunk, or the end.\<close>

fun stream_credits :: "nat \<Rightarrow> call_token \<Rightarrow> fs \<Rightarrow> fs" where
  "stream_credits 0 c s = s"
| "stream_credits (Suc n) c s =
     (case map_of (fs_streams s) c of
        None \<Rightarrow> s
      | Some st \<Rightarrow>
          if sr_cursor st \<ge> sr_end st
          then emit (Ev_end (sr_id st) (fsSuccess (Some (JObj [(''bytesRead'', jnat (sr_cursor st))]))))
                 (s\<lparr>fs_streams := map_delete c (fs_streams s)\<rparr>)
          else
            let end = min (sr_end st) (sr_cursor st + sr_chunkSize st);
                bytes = take (end - sr_cursor st) (drop (sr_cursor st) (entry_data (fs_heap s (sr_file st))))
            in stream_credits n c
                 (emit (Ev_chunk (sr_id st) (sr_sequence st) (Some [(''data'', Some bytes)]) (fsSuccess None))
                   (s\<lparr>fs_streams := map_adjust c (\<lambda>st. st\<lparr>sr_cursor := end, sr_sequence := sr_sequence st + 1\<rparr>) (fs_streams s)\<rparr>)))"

section \<open>The port\<close>

definition new_port :: "fs_authority list \<Rightarrow> fs_limits \<Rightarrow> fs_error + fs" where
  "new_port authorities limits =
     (case createFsAuthorityRegistry authorities of
        Inl e \<Rightarrow> Inl e
      | Inr reg \<Rightarrow> Inr \<lparr>fs_authorities = reg, fs_limits = limits, fs_heap = (\<lambda>_. new_file 0 0), fs_next = 0, fs_files = [],
          fs_roots = [], fs_streams = [], fs_transactionByCallToken = [], fs_transactions = [], fs_watchers = [],
          fs_disposed = False, fs_nextToken = 1, fs_now = 0, fs_events = []\<rparr>)"

definition execute ::
    "(jstring \<Rightarrow> jstring \<Rightarrow> bool) \<Rightarrow> port_request \<Rightarrow> (string \<times> json) list \<Rightarrow> dispatch_context \<Rightarrow> fs_authority \<Rightarrow> op_output fs_op" where
  "execute le request args context a =
     (case rq_operation request of
        Op_access \<Rightarrow> access args a
      | Op_atomicWriteBegin \<Rightarrow> beginAtomicWrite args context a request
      | Op_atomicWriteChunk \<Rightarrow> writeAtomicChunk args context a request
      | Op_atomicWriteCommit \<Rightarrow> commitAtomicWrite args context a request
      | Op_chmod \<Rightarrow> chmod args a
      | Op_cp \<Rightarrow> copy args a
      | Op_handleRead \<Rightarrow> handleRead args context a
      | Op_handleStat \<Rightarrow> handleStat args context a
      | Op_handleSync \<Rightarrow> handleSync args context a
      | Op_handleWrite \<Rightarrow> handleWrite args context a request
      | Op_lstat \<Rightarrow> stat args a False
      | Op_mkdir \<Rightarrow> mkdir args a
      | Op_open \<Rightarrow> open_file args a (cx_callToken context)
      | Op_readdir \<Rightarrow> readdir le args a
      | Op_readlink \<Rightarrow> readlink args a
      | Op_realpath \<Rightarrow> realpath args a
      | Op_rename \<Rightarrow> rename args a
      | Op_rm \<Rightarrow> rm args a
      | Op_stat \<Rightarrow> stat args a True
      | Op_symlink \<Rightarrow> symlink args a
      | _ \<Rightarrow> fs_fail EINVAL)"

definition FS_NATIVE_MODULE :: string where
  "FS_NATIVE_MODULE = ''host.fs''"

text \<open>\<open>dispatch\<close>: the body of the \<open>try\<close>, and the translation of what it throws.\<close>

definition dispatch_body :: "(jstring \<Rightarrow> jstring \<Rightarrow> bool) \<Rightarrow> port_request \<Rightarrow> dispatch_context \<Rightarrow> unit fs_op" where
  "dispatch_body le request context =
     seqE (gets fs_authorities) (\<lambda>registry.
     seqE (liftE (resolveProviderAuthority registry (cx_principal context) (cx_capabilities context))) (\<lambda>a.
       case rq_args request of
         JObj args \<Rightarrow>
           if rq_module request \<noteq> FS_NATIVE_MODULE then fs_fail EINVAL
           else if rq_operation request = Op_readStream then openReadStream request args context a
           else if rq_operation request = Op_watch then openWatcher request args context a
           else seqE (execute le request args context a) (\<lambda>out.
                  modify (emit (case out of
                    Rich binary resources v \<Rightarrow> Ev_result (rq_id request) binary resources (fsSuccess v)
                  | Plain v \<Rightarrow> Ev_result (rq_id request) None None (fsSuccess (Some v)))))
       | _ \<Rightarrow> fs_fail EINVAL))"

definition report :: "string \<Rightarrow> fs_error \<Rightarrow> port_event" where
  "report rid err =
     (let code = (case err of Fs_error c \<Rightarrow> c | URIError \<Rightarrow> EIO)
      in if code \<notin> {EACCES, EEXIST, ENOENT} then Ev_result rid None None (fsFailure code)
         else Ev_error rid (fsDomainError code))"

definition dispatch :: "(jstring \<Rightarrow> jstring \<Rightarrow> bool) \<Rightarrow> int \<Rightarrow> port_request \<Rightarrow> dispatch_context \<Rightarrow> fs \<Rightarrow> fs" where
  "dispatch le t request context s =
     (if fs_disposed s then emit (Ev_error (rq_id request) Port_disposed) s
      else case dispatch_body le request context (s\<lparr>fs_now := t\<rparr>) of
             (Inr _, s') \<Rightarrow> s'
           | (Inl err, s') \<Rightarrow> emit (report (rq_id request) err) s')"

definition cancel :: "call_token \<Rightarrow> fs \<Rightarrow> fs" where
  "cancel c s =
     (let s1 = s\<lparr>fs_streams := map_delete c (fs_streams s), fs_watchers := map_delete c (fs_watchers s)\<rparr>
      in case map_of (fs_transactionByCallToken s1) c of
           None \<Rightarrow> s1
         | Some token \<Rightarrow>
             (case map_of (fs_transactions s1) token of
                None \<Rightarrow> s1
              | Some t \<Rightarrow> if isActiveTransaction t then abortTransaction t s1 else s1))"

definition closeResource :: "call_token \<Rightarrow> provider_token \<Rightarrow> fs \<Rightarrow> fs" where
  "closeResource owner token s =
     (if (case map_of (fs_files s) token of Some r \<Rightarrow> fr_owner r = owner | None \<Rightarrow> False)
      then s\<lparr>fs_files := map_delete token (fs_files s)\<rparr>
      else case map_of (fs_transactions s) token of
             None \<Rightarrow> s
           | Some t \<Rightarrow>
               if aw_owner t \<noteq> owner then s
               else let s1 = (if isActiveTransaction t then abortTransaction t s else s);
                        t1 = the (map_of (fs_transactions s1) token)
                    in releaseTransaction t1 s1)"

definition grantCredits :: "call_token \<Rightarrow> jsnum \<Rightarrow> fs \<Rightarrow> fs" where
  "grantCredits c credits s =
     (case credits of
        Fin q \<Rightarrow>
          if \<not> num_isSafeInteger credits \<or> q \<le> 0 then s
          else (case map_of (fs_streams s) c of
                  Some _ \<Rightarrow> stream_credits (nat \<lfloor>q\<rfloor>) c s
                | None \<Rightarrow>
                    (case map_of (fs_watchers s) c of
                       None \<Rightarrow> s
                     | Some _ \<Rightarrow> flushWatcher c
                         (s\<lparr>fs_watchers := map_adjust c (\<lambda>w. w\<lparr>wr_credits := wr_credits w + nat \<lfloor>q\<rfloor>\<rparr>) (fs_watchers s)\<rparr>)))
      | _ \<Rightarrow> s)"

definition dispose_port :: "fs \<Rightarrow> fs" where
  "dispose_port s =
     (if fs_disposed s then s
      else let s1 = s\<lparr>fs_disposed := True, fs_files := [], fs_streams := []\<rparr>;
               s2 = fold (\<lambda>token s. case map_of (fs_transactions s) token of
                      None \<Rightarrow> s | Some t \<Rightarrow> if isActiveTransaction t then abortTransaction t s else s)
                    (map fst (fs_transactions s1)) s1
           in s2\<lparr>fs_transactionByCallToken := [], fs_transactions := [], fs_watchers := []\<rparr>)"

end
