(* ===== verification/Fs_Access.thy ===== *)
theory Fs_Access
  imports Fs_Provider
begin

text \<open>
  Access control of the in-memory file system: a path is resolved inside the root its authority
  grants, links included, and an authority without write permission changes no entry.
\<close>

section \<open>Resolution stays in the root\<close>

definition add_root :: "root_grant \<Rightarrow> fs \<Rightarrow> fs" where
  "add_root g s =
     s\<lparr>fs_heap := (fs_heap s)(fs_next s := new_directory 0x1FF (fs_now s)), fs_next := fs_next s + 1,
       fs_roots := map_set (rg_rootId g) (fs_next s) (fs_roots s)\<rparr>"

lemma root_cases:
  "root g s = (case map_of (fs_roots s) (rg_rootId g) of Some r \<Rightarrow> (Inr r, s) | None \<Rightarrow> (Inr (fs_next s), add_root g s))"
  by (simp add: root_def alloc_def seqE_def modify_def ret_def add_root_def split: option.split)

lemma root_known: "root g s = (Inr r, s') \<Longrightarrow> map_of (fs_roots s') (rg_rootId g) = Some r"
  by (auto simp: root_cases add_root_def split: option.splits)

lemma authorize_same:
  "p_authority path' = p_authority path \<Longrightarrow> authorizeFsPath a path' p = authorizeFsPath a path p"
  by (simp add: authorizeFsPath_def)

lemma parse_format_authority: "formatFsPath auth segs = Inr h \<Longrightarrow> parseFsPath h = Inr q \<Longrightarrow> p_authority q = auth"
proof -
  assume f: "formatFsPath auth segs = Inr h" and q: "parseFsPath h = Inr q"
  obtain es where h: "h = FS_SCHEME_PREFIX @ root_name auth @ [ch CHR ''/''] @ join_slash es"
    using f by (auto simp: formatFsPath_def split: option.splits)
  then have "drop (length FS_SCHEME_PREFIX) h = root_name auth @ ch CHR ''/'' # join_slash es" by simp
  then show ?thesis using q
    by (auto simp: parseFsPath_def Let_def takeWhile_name split: if_splits sum.splits)
qed

text \<open>
  What a resolution does to the state: at most it creates the root.  What it returns: an entry
  that its own names lead to from the granted root.
\<close>

definition resolved_in :: "fs_authority \<Rightarrow> parsed_path \<Rightarrow> permission \<Rightarrow> bool \<Rightarrow> fs \<Rightarrow> addr \<Rightarrow> parsed_path \<Rightarrow> bool" where
  "resolved_in a path p follow s b path' \<longleftrightarrow>
     p_authority path' = p_authority path \<and>
     (\<exists>g r f. authorizeFsPath a path p = Inr g \<and> map_of (fs_roots s) (rg_rootId g) = Some r \<and> (follow \<longrightarrow> f) \<and>
        walk_segments (fs_heap s) f r (segments path') = Inr (Inl b))"

lemma resolve_spec:
  "resolve a path follow p hops s = (res, s') \<Longrightarrow>
   (s' = s \<or> (\<exists>g. authorizeFsPath a path p = Inr g \<and> map_of (fs_roots s) (rg_rootId g) = None \<and> s' = add_root g s)) \<and>
   (\<forall>b path'. res = Inr (b, path') \<longrightarrow> resolved_in a path p follow s' b path')"
proof (induction a path follow p hops s arbitrary: res s' rule: resolve.induct)
  case (1 a path follow p hops s)
  show ?case
  proof (cases "authorizeFsPath a path p")
    case (Inl e)
    then show ?thesis using 1(2) by (auto simp: resolve.simps)
  next
    case (Inr g)
    obtain r s1 where r1: "root g s = (Inr r, s1)"
      by (cases "map_of (fs_roots s) (rg_rootId g)") (auto simp: root_cases)
    have s1: "s1 = s \<or> map_of (fs_roots s) (rg_rootId g) = None \<and> s1 = add_root g s"
      using r1 by (auto simp: root_cases split: option.splits)
    have known: "map_of (fs_roots s1) (rg_rootId g) = Some r" using root_known [OF r1] .
    show ?thesis
    proof (cases "\<exists>t rest nxt path'. walk_segments (fs_heap s1) follow r (segments path) = Inr (Inr (t, rest)) \<and>
        \<not> (hops \<ge> 40 \<or> p_authority t \<noteq> p_authority path) \<and>
        formatFsPath (p_authority path) (segments t @ rest) = Inr nxt \<and> parseFsPath nxt = Inr path'")
      case True
      then obtain t rest nxt path' where w: "walk_segments (fs_heap s1) follow r (segments path) = Inr (Inr (t, rest))"
        "\<not> (hops \<ge> 40 \<or> p_authority t \<noteq> p_authority path)"
        "formatFsPath (p_authority path) (segments t @ rest) = Inr nxt" "parseFsPath nxt = Inr path'" by blast
      have "resolve a path' True p (hops + 1) s1 = (res, s')"
        using 1(2) Inr r1 w by (simp add: resolve.simps [of a path])
      note IH = 1(1) [OF Inr r1 [symmetric] refl w(1) refl refl w(2,3,4) this]
      have pa: "p_authority path' = p_authority path" using parse_format_authority [OF w(3,4)] .
      have au: "authorizeFsPath a path' p = authorizeFsPath a path p" by (rule authorize_same [OF pa])
      have "s' = s1" using IH known au Inr by auto
      moreover have "resolved_in a path' p True s' b q \<Longrightarrow> resolved_in a path p follow s' b q" for b q
        unfolding resolved_in_def pa au by blast
      ultimately show ?thesis using s1 Inr IH by auto
    next
      case False
      then have "s' = s1 \<and> (\<forall>b path'. res = Inr (b, path') \<longrightarrow>
          path' = path \<and> walk_segments (fs_heap s1) follow r (segments path) = Inr (Inl b))"
        using 1(2) Inr r1 by (auto simp: resolve.simps [of a path] split: sum.splits if_splits prod.splits)
      then show ?thesis using s1 Inr known unfolding resolved_in_def by auto
    qed
  qed
qed

lemma resolve_denied: "authorizeFsPath a path p = Inl e \<Longrightarrow> resolve a path follow p hops s = (Inl e, s)"
  by (simp add: resolve.simps)

section \<open>Without write permission nothing is written\<close>

definition read_only :: "fs_authority \<Rightarrow> bool" where
  "read_only a \<longleftrightarrow> (\<forall>(_, g) \<in> set (au_roots a). Write \<notin> set (rg_permissions g))"

lemma read_only_denied: "read_only a \<Longrightarrow> authorizeFsPath a path Write = Inl (Fs_error EACCES)"
  by (auto simp: read_only_def authorizeFsPath_def split: option.split dest: map_of_SomeD)

text \<open>The entries of an earlier state are as they were; entries that did not exist may appear.\<close>

definition frozen :: "fs \<Rightarrow> fs \<Rightarrow> bool" where
  "frozen s0 s \<longleftrightarrow> fs_next s0 \<le> fs_next s \<and> (\<forall>b < fs_next s0. fs_heap s b = fs_heap s0 b)"

named_theorems frozen_rules

lemma frozen_pure:
  "(\<And>s. fs_heap (snd (m s)) = fs_heap s \<and> fs_next (snd (m s)) = fs_next s) \<Longrightarrow> keeps (frozen s0) m"
  by (simp add: keeps_iff frozen_def)

lemma frozen_liftE [frozen_rules]: "keeps (frozen s0) (liftE r)"
  by (rule frozen_pure) (simp add: liftE_def)

lemma frozen_when_fail [frozen_rules]: "keeps (frozen s0) (when_fail b c)"
  by (rule frozen_pure) (simp add: when_fail_def fs_fail_def monad_defs)

lemma frozen_fail [frozen_rules]: "keeps (frozen s0) (fs_fail c)"
  by (rule frozen_pure) (simp add: fs_fail_def monad_defs)

lemma frozen_modify:
  "(\<And>s. fs_heap (f s) = fs_heap s \<and> fs_next (f s) = fs_next s) \<Longrightarrow> keeps (frozen s0) (modify f)"
  by (rule frozen_pure) (simp add: modify_def)

lemma frozen_alloc: "keeps (frozen s0) (alloc e)"
  by (auto simp: keeps_iff frozen_def alloc_def)

lemma frozen_add_root: "frozen s0 s \<Longrightarrow> frozen s0 (add_root g s)"
  by (auto simp: frozen_def add_root_def)

lemma frozen_resolve [frozen_rules]: "keeps (frozen s0) (resolve a path follow p hops)"
  unfolding keeps_iff using resolve_spec frozen_add_root by (metis prod.collapse)

text \<open>An operation that throws, and what follows it.\<close>

definition throws :: "('s \<Rightarrow> bool) \<Rightarrow> ('s, 'e, 'a) op \<Rightarrow> bool" where
  "throws I m \<longleftrightarrow> hoare I m (\<lambda>_ _. False) (\<lambda>_. I)"

lemma throws_seq: "throws I m \<Longrightarrow> keeps I (seqE m f)"
  unfolding throws_def by (rule hoare_seq) (auto simp: hoare_def)

lemma throws_resolve: "read_only a \<Longrightarrow> throws (frozen s0) (resolve a path follow Write hops)"
  using read_only_denied [of a path] by (auto simp: throws_def hoare_def resolve_denied)

lemma throws_authorize: "read_only a \<Longrightarrow> throws (frozen s0) (liftE (authorizeFsPath a path Write))"
  using read_only_denied [of a path] by (auto simp: throws_def hoare_def liftE_def)

lemma throws_parent: "read_only a \<Longrightarrow> throws (frozen s0) (parent a path Write)"
  using read_only_denied [of a "path\<lparr>segments := butlast (segments path)\<rparr>"]
  by (auto simp: throws_def hoare_def parent_def fs_fail_def monad_defs resolve_denied)

lemma keeps_case_prod: "(\<And>x y. keeps I (f x y)) \<Longrightarrow> keeps I (case p of (x, y) \<Rightarrow> f x y)"
  by (cases p) simp

lemma keeps_case_option: "keeps I m \<Longrightarrow> (\<And>x. keeps I (f x)) \<Longrightarrow> keeps I (case v of None \<Rightarrow> m | Some x \<Rightarrow> f x)"
  by (cases v) simp_all

lemma keeps_Let: "(\<And>x. keeps I (f x)) \<Longrightarrow> keeps I (let x = v in f x)"
  by (simp add: Let_def)

lemma keeps_case_kind:
  "(\<And>cs. keeps I (f cs)) \<Longrightarrow> (\<And>d. keeps I (g d)) \<Longrightarrow> (\<And>t. keeps I (h t)) \<Longrightarrow>
   keeps I (case k of Directory cs \<Rightarrow> f cs | File d \<Rightarrow> g d | Symlink t \<Rightarrow> h t)"
  by (cases k) simp_all

lemma keeps_case_list: "keeps I m \<Longrightarrow> (\<And>x xs. keeps I (f x xs)) \<Longrightarrow> keeps I (case l of [] \<Rightarrow> m | x # xs \<Rightarrow> f x xs)"
  by (cases l) simp_all

lemmas keeps_splits = keeps_case_prod keeps_case_option keeps_Let keeps_case_kind keeps_case_list

lemma frozen_assertDirectoryCapacity [frozen_rules]: "keeps (frozen s0) (assertDirectoryCapacity d name)"
  by (rule frozen_pure) (simp add: assertDirectoryCapacity_def Let_def)

lemma frozen_assertEntryCapacity [frozen_rules]: "keeps (frozen s0) assertEntryCapacity"
  by (rule frozen_pure) (simp add: assertEntryCapacity_def)

lemma frozen_allocateProviderToken [frozen_rules]: "keeps (frozen s0) (allocateProviderToken k)"
  by (rule frozen_pure) (simp add: allocateProviderToken_def)

text \<open>Watchers touch neither the entries nor the addresses.\<close>

lemma flush_events_frame [simp]:
  "fs_heap (flush_events c es w s) = fs_heap s" "fs_next (flush_events c es w s) = fs_next s"
  by (induction es arbitrary: w s) (simp_all add: emit_def)

lemma flushWatcher_frame [simp]: "fs_heap (flushWatcher c s) = fs_heap s" "fs_next (flushWatcher c s) = fs_next s"
  by (simp_all add: flushWatcher_def split: option.split)

lemma notify_one_frame [simp]:
  "fs_heap (notify_one t p c s) = fs_heap s" "fs_next (notify_one t p c s) = fs_next s"
  by (simp_all add: notify_one_def Let_def emit_def split: option.split)

lemma fold_frame: "(\<And>x s. g (f x s) = g s) \<Longrightarrow> g (fold f xs s) = g s"
  by (induction xs arbitrary: s) simp_all

lemma notifyWatchers_frame:
  "fs_heap (snd (notifyWatchers op cs s)) = fs_heap s" "fs_next (snd (notifyWatchers op cs s)) = fs_next s"
  by (simp_all add: notifyWatchers_def modify_def fold_frame [of fs_heap] fold_frame [of fs_next] split: sum.split)

lemma frozen_notifyWatchers [frozen_rules]: "keeps (frozen s0) (notifyWatchers op cs)"
  by (rule frozen_pure) (simp add: notifyWatchers_frame)

lemma frozen_root [frozen_rules]: "keeps (frozen s0) (root g)"
  by (simp add: keeps_iff root_cases frozen_add_root split: option.split)

lemma frozen_parent [frozen_rules]: "keeps (frozen s0) (parent a path p)"
  unfolding parent_def by (intro keeps_rules keeps_splits frozen_rules)

lemmas frozen_intros = keeps_rules keeps_splits frozen_rules frozen_alloc

lemma keeps_test: "keeps I (\<lambda>s. if c s then (Inl e, s) else (Inr x, s))"
  by (simp add: keeps_iff)

lemma keeps_liftE_bind: "(\<And>x. r = Inr x \<Longrightarrow> keeps I (f x)) \<Longrightarrow> keeps I (seqE (liftE r) f)"
  by (cases r) (auto simp: hoare_def seqE_def liftE_def)

text \<open>The contract of a caller without write permission, and what every operation owes it.\<close>

locale read_only_caller =
  fixes a :: fs_authority
  assumes ro: "read_only a"
begin

lemmas denied = throws_resolve [OF ro] throws_authorize [OF ro] throws_parent [OF ro]

lemma frozen_queries:
  "keeps (frozen s0) (access args a)" "keeps (frozen s0) (stat args a f)" "keeps (frozen s0) (readdir le args a)"
  "keeps (frozen s0) (readlink args a)" "keeps (frozen s0) (realpath args a)"
  unfolding access_def stat_def readdir_def readlink_def realpath_def
  by (intro frozen_intros)+

lemma frozen_chmod: "keeps (frozen s0) (chmod args a)"
  unfolding chmod_def by (rule throws_seq, rule denied | rule frozen_intros)+

lemma frozen_tree_changes:
  "keeps (frozen s0) (copy args a)" "keeps (frozen s0) (mkdir args a)" "keeps (frozen s0) (rename args a)"
  "keeps (frozen s0) (rm args a)" "keeps (frozen s0) (symlink args a)"
  unfolding copy_def mkdir_def rename_def rm_def symlink_def
  by ((rule throws_seq, rule denied | rule frozen_intros)+)

lemma frozen_open: "keeps (frozen s0) (open_file args a c)"
  unfolding open_file_def
proof (intro keeps_liftE_bind, goal_cases)
  case (1 path numeric flags mode)
  note consistent = parseOpenFlags_consistent [OF 1(3)]
  show ?case
  proof (cases "f_writable flags")
    case True
    show ?thesis unfolding Let_def by (simp only: True if_True) (rule throws_seq, rule denied)
  next
    case False
    with consistent have t: "f_truncate flags = False" by blast
    have w: "f_writable flags = False" using False by blast
    show ?thesis
      unfolding Let_def w t if_False
      by ((rule throws_seq, rule denied | rule frozen_intros keeps_test | rule frozen_modify, simp)+)
  qed
qed

lemma fileResource_denied: "\<exists>e. fileResource args ctx a Write s = Inl e"
  by (auto simp: fileResource_def read_only_denied [OF ro] split: option.split)

lemma atomicWriteResource_denied: "\<exists>e. atomicWriteResource args ctx a s = Inl e"
  by (auto simp: atomicWriteResource_def read_only_denied [OF ro] split: option.split list.split)

lemma throws_fileResource: "throws I (liftE (fileResource args ctx a Write s))"
  using fileResource_denied [of args ctx s] by (auto simp: throws_def hoare_def liftE_def)

lemma throws_atomicWriteResource: "throws I (liftE (atomicWriteResource args ctx a s))"
  using atomicWriteResource_denied [of args ctx s] by (auto simp: throws_def hoare_def liftE_def)

lemmas denied_resources = throws_fileResource throws_atomicWriteResource

lemma frozen_handles:
  "keeps (frozen s0) (handleRead args ctx a)" "keeps (frozen s0) (handleStat args ctx a)"
  "keeps (frozen s0) (handleSync args ctx a)" "keeps (frozen s0) (handleWrite args ctx a request)"
  unfolding handleRead_def handleStat_def handleSync_def handleWrite_def
  by (rule throws_seq, rule denied_resources | rule frozen_intros | rule frozen_modify, simp)+

lemma frozen_atomic:
  "keeps (frozen s0) (beginAtomicWrite args ctx a request)"
  "keeps (frozen s0) (writeAtomicChunk args ctx a request)"
  "keeps (frozen s0) (commitAtomicWrite args ctx a request)"
  unfolding beginAtomicWrite_def writeAtomicChunk_def commitAtomicWrite_def
  by (rule throws_seq, rule denied denied_resources | rule frozen_intros)+

lemma frozen_execute: "keeps (frozen s0) (execute le request args ctx a)"
  unfolding execute_def
  by (cases "rq_operation request")
     (simp_all add: frozen_queries frozen_chmod frozen_tree_changes frozen_open frozen_handles frozen_atomic frozen_fail)

lemma frozen_openReadStream: "keeps (frozen s0) (openReadStream request args ctx a)"
  unfolding openReadStream_def by (rule frozen_intros frozen_pure frozen_modify | simp)+

lemma frozen_openWatcher: "keeps (frozen s0) (openWatcher request args ctx a)"
  unfolding openWatcher_def by (rule frozen_intros frozen_modify | simp)+

end

lemma dispatch_frozen:
  assumes "\<And>a. map_of (fs_authorities s) (cx_principal ctx) = Some a \<Longrightarrow> read_only a"
  shows "frozen s (dispatch le t request ctx s)"
proof (cases "fs_disposed s")
  case True
  then show ?thesis by (simp add: dispatch_def emit_def frozen_def)
next
  case False
  let ?s = "s\<lparr>fs_now := t\<rparr>"
  have "frozen s (snd (dispatch_body le request ctx ?s))"
  proof (cases "resolveProviderAuthority (fs_authorities s) (cx_principal ctx) (cx_capabilities ctx)")
    case (Inl e)
    then show ?thesis by (simp add: dispatch_body_def seqE_def gets_def liftE_def frozen_def)
  next
    case (Inr a)
    then have "read_only a" using assms by (auto simp: resolveProviderAuthority_def split: option.splits if_splits)
    then have ro: "read_only_caller a" by unfold_locales
    then have k: "keeps (frozen s) (case rq_args request of JObj args \<Rightarrow>
           if rq_module request \<noteq> FS_NATIVE_MODULE then fs_fail EINVAL
           else if rq_operation request = Op_readStream then openReadStream request args ctx a
           else if rq_operation request = Op_watch then openWatcher request args ctx a
           else seqE (execute le request args ctx a) (\<lambda>out.
                  modify (emit (case out of
                    Rich binary resources v \<Rightarrow> Ev_result (rq_id request) binary resources (fsSuccess v)
                  | Plain v \<Rightarrow> Ev_result (rq_id request) None None (fsSuccess (Some v))))) | _ \<Rightarrow> fs_fail EINVAL)"
      by (auto simp: emit_def split: json.split intro!: keeps_if keeps_seq frozen_fail frozen_modify
          read_only_caller.frozen_openReadStream [OF ro] read_only_caller.frozen_openWatcher [OF ro]
          read_only_caller.frozen_execute [OF ro])
    have "frozen s ?s" by (simp add: frozen_def)
    from keeps_snd [OF k this] Inr show ?thesis
      by (simp add: dispatch_body_def seqE_def gets_def liftE_def)
  qed
  then show ?thesis using False
    by (auto simp: dispatch_def emit_def frozen_def split: prod.split sum.split)
qed

end
