(* ===== verification/Fs_Rules.thy ===== *)
theory Fs_Rules
  imports Fs_Access
begin

text \<open>
  Weakest preconditions of the operations of the file system provider.  A rule of the
  collection \<open>wp_rules\<close> splits one construct of an operation; what a test established becomes a
  premise.  The properties of the provider apply the rules and prove the leaves.
\<close>

definition wp :: "('s, 'e, 'a) op \<Rightarrow> ('a \<Rightarrow> 's \<Rightarrow> bool) \<Rightarrow> ('e \<Rightarrow> 's \<Rightarrow> bool) \<Rightarrow> 's \<Rightarrow> bool" where
  "wp m Q E s = (case m s of (Inl e, s') \<Rightarrow> E e s' | (Inr x, s') \<Rightarrow> Q x s')"

lemma hoare_iff_wp: "hoare P m Q E \<longleftrightarrow> (\<forall>s. P s \<longrightarrow> wp m Q E s)"
  by (simp add: hoare_def wp_def)

lemma wpD: "wp m Q E s \<Longrightarrow> m s = (Inr x, s') \<Longrightarrow> Q x s'"
  by (simp add: wp_def)

lemma wp_snd: "wp m (\<lambda>_. I) (\<lambda>_. I) s \<Longrightarrow> I (snd (m s))"
  by (simp add: wp_def split: prod.splits sum.splits)

named_theorems wp_rules

lemma wp_seq [wp_rules]: "wp m (\<lambda>x. wp (f x) Q E) E s \<Longrightarrow> wp (seqE m f) Q E s"
  by (simp add: wp_def seqE_def split: prod.splits sum.splits)

lemma wp_ret [wp_rules]: "Q x s \<Longrightarrow> wp (ret x) Q E s"
  by (simp add: wp_def ret_def)

lemma wp_throw [wp_rules]: "E e s \<Longrightarrow> wp (throw e) Q E s"
  by (simp add: wp_def throw_def)

lemma wp_gets [wp_rules]: "Q (f s) s \<Longrightarrow> wp (gets f) Q E s"
  by (simp add: wp_def gets_def)

lemma wp_modify [wp_rules]: "Q () (f s) \<Longrightarrow> wp (modify f) Q E s"
  by (simp add: wp_def modify_def)

lemma wp_try: "wp m Q (\<lambda>e. wp (h e) Q E) s \<Longrightarrow> wp (tryE m h) Q E s"
  by (simp add: wp_def tryE_def split: prod.splits sum.splits)

lemma wp_liftE [wp_rules]:
  "(\<And>x. r = Inr x \<Longrightarrow> Q x s) \<Longrightarrow> (\<And>e. r = Inl e \<Longrightarrow> E e s) \<Longrightarrow> wp (liftE r) Q E s"
  by (cases r) (simp_all add: wp_def liftE_def)

lemma wp_fs_fail [wp_rules]: "E (Fs_error c) s \<Longrightarrow> wp (fs_fail c) Q E s"
  by (simp add: fs_fail_def wp_throw)

lemma wp_when_fail [wp_rules]:
  "(b \<Longrightarrow> E (Fs_error c) s) \<Longrightarrow> (\<not> b \<Longrightarrow> Q () s) \<Longrightarrow> wp (when_fail b c) Q E s"
  by (simp add: when_fail_def wp_fs_fail wp_ret)

lemma wp_if [wp_rules]: "(b \<Longrightarrow> wp m Q E s) \<Longrightarrow> (\<not> b \<Longrightarrow> wp n Q E s) \<Longrightarrow> wp (if b then m else n) Q E s"
  by simp

lemma wp_case_option [wp_rules]:
  "(v = None \<Longrightarrow> wp m Q E s) \<Longrightarrow> (\<And>x. v = Some x \<Longrightarrow> wp (f x) Q E s) \<Longrightarrow>
   wp (case v of None \<Rightarrow> m | Some x \<Rightarrow> f x) Q E s"
  by (cases v) simp_all

lemma wp_case_prod [wp_rules]: "(\<And>x y. p = (x, y) \<Longrightarrow> wp (f x y) Q E s) \<Longrightarrow> wp (case p of (x, y) \<Rightarrow> f x y) Q E s"
  by (cases p) simp

lemma wp_Let [wp_rules]: "wp (f v) Q E s \<Longrightarrow> wp (let x = v in f x) Q E s"
  by (simp add: Let_def)

lemma wp_case_kind [wp_rules]:
  "(\<And>cs. k = Directory cs \<Longrightarrow> wp (f cs) Q E s) \<Longrightarrow> (\<And>d. k = File d \<Longrightarrow> wp (g d) Q E s) \<Longrightarrow>
   (\<And>t. k = Symlink t \<Longrightarrow> wp (h t) Q E s) \<Longrightarrow>
   wp (case k of Directory cs \<Rightarrow> f cs | File d \<Rightarrow> g d | Symlink t \<Rightarrow> h t) Q E s"
  by (cases k) simp_all

lemma wp_case_list [wp_rules]:
  "(l = [] \<Longrightarrow> wp m Q E s) \<Longrightarrow> (\<And>x xs. l = x # xs \<Longrightarrow> wp (f x xs) Q E s) \<Longrightarrow>
   wp (case l of [] \<Rightarrow> m | x # xs \<Rightarrow> f x xs) Q E s"
  by (cases l) simp_all

lemma wp_case_json [wp_rules]:
  "(\<And>l. v = JObj l \<Longrightarrow> wp (f l) Q E s) \<Longrightarrow> (\<And>x. wp (g x) Q E s) \<Longrightarrow>
   wp (case v of JObj l \<Rightarrow> f l | x \<Rightarrow> g x) Q E s"
  by (cases v) simp_all

lemma wp_alloc:
  "Q (fs_next s) (s\<lparr>fs_heap := (fs_heap s)(fs_next s := e), fs_next := fs_next s + 1\<rparr>) \<Longrightarrow> wp (alloc e) Q E s"
  by (simp add: wp_def alloc_def)

lemma wp_update_entry:
  "Q () (s\<lparr>fs_heap := (fs_heap s)(b := f (fs_heap s b))\<rparr>) \<Longrightarrow> wp (update_entry b f) Q E s"
  by (simp add: update_entry_def wp_modify)

lemma wp_allocateProviderToken [wp_rules]:
  "(\<And>c. E c s) \<Longrightarrow> Q (k, fs_nextToken s) (s\<lparr>fs_nextToken := fs_nextToken s + 1\<rparr>) \<Longrightarrow>
   wp (allocateProviderToken k) Q E s"
  by (simp add: wp_def allocateProviderToken_def)

lemma wp_test:
  "(c s \<Longrightarrow> E e s) \<Longrightarrow> (\<not> c s \<Longrightarrow> Q x s) \<Longrightarrow> wp (\<lambda>s. if c s then (Inl e, s) else (Inr x, s)) Q E s"
  by (simp add: wp_def)

lemma wp_assertEntryCapacity [wp_rules]:
  "(\<And>c. E c s) \<Longrightarrow> (sn_entries (getFsSnapshot s) < maxEntries (fs_limits s) \<Longrightarrow> Q () s) \<Longrightarrow> wp assertEntryCapacity Q E s"
  by (auto simp: wp_def assertEntryCapacity_def)

definition room :: "fs_limits \<Rightarrow> entry \<Rightarrow> jstring \<Rightarrow> bool" where
  "room L e name \<longleftrightarrow> name \<in> fst ` set (children e) \<or> length (children e) < maxDirectoryEntries L"

lemma wp_assertDirectoryCapacity [wp_rules]:
  "(\<And>c. E c s) \<Longrightarrow> (room (fs_limits s) (fs_heap s d) name \<Longrightarrow> Q () s) \<Longrightarrow> wp (assertDirectoryCapacity d name) Q E s"
  by (auto simp: wp_def assertDirectoryCapacity_def room_def Let_def)

end
