(* ===== verification/Fs_Invariant.thy ===== *)
theory Fs_Invariant
  imports Fs_Rules
begin

text \<open>
  The state invariant of the in-memory file system provider.  \<open>links_ok\<close>: directories have unique
  names, at most \<open>maxDirectoryEntries\<close> of them, and lead to allocated entries; files have at most
  \<open>maxFileBytes\<close>; every entry has at most one name in the whole store, the roots and the entries
  of pending atomic writes have none.  The other parts relate the tables of the port to the store.
\<close>

section \<open>Links\<close>

definition names :: "entry \<Rightarrow> jstring list" where
  "names e = map fst (children e)"

definition targets :: "entry \<Rightarrow> addr set" where
  "targets e = snd ` set (children e)"

definition node_ok :: "fs_limits \<Rightarrow> addr \<Rightarrow> entry \<Rightarrow> bool" where
  "node_ok L n e \<longleftrightarrow>
     distinct (names e) \<and> length (children e) \<le> maxDirectoryEntries L \<and> distinct (map snd (children e)) \<and>
     (\<forall>b \<in> targets e. b < n) \<and> length (entry_data e) \<le> maxFileBytes L"

definition nodes_ok :: "fs_limits \<Rightarrow> (addr \<Rightarrow> entry) \<Rightarrow> addr \<Rightarrow> bool" where
  "nodes_ok L h n \<longleftrightarrow> (\<forall>d < n. node_ok L n (h d))"

definition single_names :: "(addr \<Rightarrow> entry) \<Rightarrow> addr \<Rightarrow> bool" where
  "single_names h n \<longleftrightarrow> (\<forall>d < n. \<forall>d' < n. d \<noteq> d' \<longrightarrow> targets (h d) \<inter> targets (h d') = {})"

definition unlinked :: "(addr \<Rightarrow> entry) \<Rightarrow> addr \<Rightarrow> addr \<Rightarrow> bool" where
  "unlinked h n b \<longleftrightarrow> (\<forall>d < n. b \<notin> targets (h d))"

definition links_ok :: "fs_limits \<Rightarrow> (addr \<Rightarrow> entry) \<Rightarrow> addr \<Rightarrow> addr set \<Rightarrow> bool" where
  "links_ok L h n U \<longleftrightarrow> nodes_ok L h n \<and> single_names h n \<and> (\<forall>b \<in> U. unlinked h n b)"

text \<open>The invariant is executable.\<close>

lemma nodes_ok_code [code]: "nodes_ok L h n = list_all (\<lambda>d. node_ok L n (h d)) [0..<n]"
  by (auto simp: nodes_ok_def list_all_iff)

lemma single_names_code [code]:
  "single_names h n = list_all (\<lambda>d. list_all (\<lambda>d'. d \<noteq> d' \<longrightarrow> targets (h d) \<inter> targets (h d') = {}) [0..<n]) [0..<n]"
  by (simp add: single_names_def list_all_iff Ball_def)

lemma unlinked_code [code]: "unlinked h n b = list_all (\<lambda>d. b \<notin> targets (h d)) [0..<n]"
  by (auto simp: unlinked_def list_all_iff)

lemma links_ok_mono: "links_ok L h n U \<Longrightarrow> U' \<subseteq> U \<Longrightarrow> links_ok L h n U'"
  by (auto simp: links_ok_def)

lemma unlinked_fresh: "nodes_ok L h n \<Longrightarrow> n \<le> b \<Longrightarrow> unlinked h n b"
  by (fastforce simp: nodes_ok_def node_ok_def unlinked_def)

lemma children_new [simp]: "children (new_directory m t) = []" "children (new_file m t) = []"
  by (simp_all add: children_def new_directory_def new_file_def)

lemma data_new [simp]: "entry_data (new_directory m t) = []" "entry_data (new_file m t) = []"
  by (simp_all add: entry_data_def new_directory_def new_file_def)

text \<open>A new entry without children and with admissible data.\<close>

lemma links_alloc:
  assumes "links_ok L h n U" "children e = []" "length (entry_data e) \<le> maxFileBytes L"
  shows "links_ok L (h(n := e)) (Suc n) (insert n U)"
proof -
  have o: "d < Suc n \<Longrightarrow> d \<noteq> n \<Longrightarrow> d < n" for d by simp
  have "nodes_ok L (h(n := e)) (Suc n)"
    using assms by (fastforce simp: links_ok_def nodes_ok_def node_ok_def names_def targets_def less_Suc_eq)
  moreover have "single_names (h(n := e)) (Suc n)"
    using assms by (auto simp: links_ok_def single_names_def targets_def less_Suc_eq)
  moreover have "\<forall>b \<in> insert n U. unlinked (h(n := e)) (Suc n) b"
    using assms unlinked_fresh [of L h n n] by (auto simp: links_ok_def unlinked_def targets_def less_Suc_eq)
  ultimately show ?thesis by (simp add: links_ok_def)
qed

lemma kind_set_child [simp]:
  "is_directory (set_child m b e) = is_directory e" "is_file (set_child m b e) = is_file e"
  "is_symlink (set_child m b e) = is_symlink e" "entry_data (set_child m b e) = entry_data e"
  by (auto simp: set_child_def is_directory_def is_file_def is_symlink_def entry_data_def split: entry_kind.split)

lemma kind_delete_child [simp]:
  "is_directory (delete_child m e) = is_directory e" "is_file (delete_child m e) = is_file e"
  "is_symlink (delete_child m e) = is_symlink e" "entry_data (delete_child m e) = entry_data e"
  by (auto simp: delete_child_def is_directory_def is_file_def is_symlink_def entry_data_def split: entry_kind.split)

lemma children_set_child: "is_directory e \<Longrightarrow> children (set_child m b e) = map_set m b (children e)"
  by (auto simp: set_child_def is_directory_def children_def split: entry_kind.split_asm)

lemma children_delete_child: "children (delete_child m e) = map_delete m (children e)"
  by (auto simp: delete_child_def children_def map_delete_def split: entry_kind.split)

lemma set_map_set: "set (map_set k v m) \<subseteq> insert (k, v) (set m)"
  by (auto simp: map_set_def split: if_splits)

lemma set_map_delete: "set (map_delete k m) = {(k', v). (k', v) \<in> set m \<and> k' \<noteq> k}"
  by (auto simp: map_delete_def)

lemma distinct_snd_map_set:
  assumes "distinct (map fst m)" "distinct (map snd m)" "v \<notin> snd ` set m"
  shows "distinct (map snd (map_set k v m))"
proof (cases "k \<in> fst ` set m")
  case True
  have "inj_on (\<lambda>(k', v'). if k' = k then v else v') (set m)"
    using assms by (auto simp: inj_on_def distinct_map split: if_splits; force)
  moreover have "distinct m" using assms(1) by (simp add: distinct_map)
  ultimately have "distinct (map (\<lambda>(k', v'). if k' = k then v else v') m)" by (simp add: distinct_map)
  moreover have "map snd (map_set k v m) = map (\<lambda>(k', v'). if k' = k then v else v') m"
    using True by (auto simp: map_set_def)
  ultimately show ?thesis by metis
next
  case False
  then show ?thesis using assms by (simp add: map_set_def)
qed

lemma targets_set_child: "targets (set_child m b e) \<subseteq> insert b (targets e)"
proof (cases "is_directory e")
  case True
  then show ?thesis using set_map_set [of m b "children e"] by (auto simp: targets_def children_set_child)
next
  case False
  then have "set_child m b e = e" by (simp add: set_child_def is_directory_def split: entry_kind.splits)
  then show ?thesis by auto
qed

lemma targets_delete_child: "targets (delete_child m e) \<subseteq> targets e"
  by (auto simp: targets_def children_delete_child set_map_delete)

lemma node_set_child:
  assumes "node_ok L n e" "is_directory e" "b < n" "b \<notin> targets e" "room L e m"
  shows "node_ok L n (set_child m b e)"
proof -
  have "\<forall>c \<in> targets (set_child m b e). c < n"
    using assms(1,3) targets_set_child [of m b e] by (auto simp: node_ok_def)
  moreover have "length (children (set_child m b e)) \<le> maxDirectoryEntries L"
    using assms by (auto simp: children_set_child length_map_set room_def node_ok_def)
  moreover have "distinct (names (set_child m b e))"
    using assms by (simp add: names_def children_set_child distinct_map_set node_ok_def)
  moreover have "distinct (map snd (children (set_child m b e)))"
    using assms by (simp add: names_def children_set_child distinct_snd_map_set targets_def node_ok_def)
  ultimately show ?thesis using assms(1) by (simp add: node_ok_def)
qed

lemma node_delete_child: "node_ok L n e \<Longrightarrow> node_ok L n (delete_child m e)"
  using targets_delete_child [of m e] length_map_delete [of m "children e"] unfolding node_ok_def
  by (auto simp: names_def children_delete_child map_delete_def distinct_map_filter intro: le_trans [OF length_filter_le])

text \<open>One entry replaced by one with fewer targets, or with one more.\<close>

lemma single_names_replace:
  assumes "single_names h n" "targets e \<subseteq> insert b (targets (h d))" "\<forall>d < n. b \<notin> targets (h d)"
  shows "single_names (h(d := e)) n"
  unfolding single_names_def
proof (intro allI impI)
  fix x y assume "x < n" "y < n" "x \<noteq> (y::addr)"
  moreover have "targets (h x) \<inter> targets (h y) = {}"
    using assms(1) calculation by (simp add: single_names_def)
  moreover have "b \<notin> targets (h x)" "b \<notin> targets (h y)" using assms(3) calculation by simp_all
  ultimately show "targets ((h(d := e)) x) \<inter> targets ((h(d := e)) y) = {}"
    using assms(2) by (cases "x = d"; cases "y = d") auto
qed

lemma single_names_subset:
  assumes "single_names h n" "targets e \<subseteq> targets (h d)"
  shows "single_names (h(d := e)) n"
  unfolding single_names_def
proof (intro allI impI)
  fix x y assume "x < n" "y < n" "x \<noteq> (y::addr)"
  moreover have "targets (h x) \<inter> targets (h y) = {}"
    using assms(1) calculation by (simp add: single_names_def)
  ultimately show "targets ((h(d := e)) x) \<inter> targets ((h(d := e)) y) = {}"
    using assms(2) by (cases "x = d"; cases "y = d") auto
qed

lemma links_set_child:
  assumes "links_ok L h n U" "is_directory (h d)" "b < n" "unlinked h n b" "room L (h d) m"
  shows "links_ok L (h(d := set_child m b (h d))) n (U - {b})"
proof -
  have t: "targets (set_child m b (h d)) \<subseteq> insert b (targets (h d))" by (rule targets_set_child)
  have b: "\<forall>d < n. b \<notin> targets (h d)" using assms(4) by (simp add: unlinked_def)
  have "nodes_ok L (h(d := set_child m b (h d))) n"
    using assms b by (simp add: links_ok_def nodes_ok_def node_set_child)
  moreover have "single_names (h(d := set_child m b (h d))) n"
    using assms(1) t b by (intro single_names_replace) (auto simp: links_ok_def)
  moreover have "\<forall>c \<in> U - {b}. unlinked (h(d := set_child m b (h d))) n c"
    using assms(1) t by (auto simp: links_ok_def unlinked_def)
  ultimately show ?thesis by (simp add: links_ok_def)
qed

lemma links_delete_child:
  assumes "links_ok L h n U"
  shows "links_ok L (h(d := delete_child m (h d))) n U"
proof -
  have t: "targets (delete_child m (h d)) \<subseteq> targets (h d)" by (rule targets_delete_child)
  have "nodes_ok L (h(d := delete_child m (h d))) n"
    using assms by (simp add: links_ok_def nodes_ok_def node_delete_child)
  moreover have "single_names (h(d := delete_child m (h d))) n"
    using assms t by (intro single_names_subset) (auto simp: links_ok_def)
  moreover have "\<forall>c \<in> U. unlinked (h(d := delete_child m (h d))) n c"
    using assms t by (auto simp: links_ok_def unlinked_def)
  ultimately show ?thesis by (simp add: links_ok_def)
qed

lemma unlinked_deleted:
  assumes "links_ok L h n U" "map_of (children (h d)) m = Some b" "d < n"
  shows "unlinked (h(d := delete_child m (h d))) n b"
proof -
  have m: "(m, b) \<in> set (children (h d))" using assms(2) by (rule map_of_SomeD)
  then have "b \<in> targets (h d)" by (force simp: targets_def)
  then have o: "d' < n \<Longrightarrow> d' \<noteq> d \<Longrightarrow> b \<notin> targets (h d')" for d'
    using assms(1,3) by (auto simp: links_ok_def single_names_def)
  have "distinct (map snd (children (h d)))" using assms by (simp add: links_ok_def nodes_ok_def node_ok_def)
  then have "(m', b) \<in> set (children (h d)) \<Longrightarrow> m' = m" for m'
    using m by (metis (no_types, lifting) distinct_map inj_on_def prod.sel(2) fst_conv)
  then have "b \<notin> targets (delete_child m (h d))"
    by (auto simp: targets_def children_delete_child set_map_delete)
  then show ?thesis using o by (simp add: unlinked_def)
qed

text \<open>A change of an entry that keeps its children.\<close>

lemma links_update:
  assumes "links_ok L h n U" "children e = children (h b)"
    "length (entry_data e) \<le> maxFileBytes L \<or> entry_data e = entry_data (h b)"
  shows "links_ok L (h(b := e)) n U"
  using assms by (auto simp: links_ok_def nodes_ok_def node_ok_def single_names_def unlinked_def names_def targets_def)

section \<open>The tables of the port\<close>

definition same_kind :: "entry \<Rightarrow> entry \<Rightarrow> bool" where
  "same_kind e e' \<longleftrightarrow> is_directory e = is_directory e' \<and> is_file e = is_file e' \<and> is_symlink e = is_symlink e'"

definition roots_ok :: "(addr \<Rightarrow> entry) \<Rightarrow> addr \<Rightarrow> (string \<times> addr) list \<Rightarrow> bool" where
  "roots_ok h n rs \<longleftrightarrow>
     distinct (map fst rs) \<and> distinct (map snd rs) \<and> (\<forall>b \<in> snd ` set rs. b < n \<and> is_directory (h b))"

definition file_ok :: "(addr \<Rightarrow> entry) \<Rightarrow> addr \<Rightarrow> nat \<Rightarrow> provider_token \<Rightarrow> file_resource \<Rightarrow> bool" where
  "file_ok h n tok k r \<longleftrightarrow>
     fst k = Fs_file \<and> snd k < tok \<and> fr_entry r < n \<and> \<not> is_symlink (h (fr_entry r)) \<and>
     fr_authority r = p_authority (fr_path r) \<and> (fr_readable r \<or> fr_writable r) \<and> (fr_append r \<longrightarrow> fr_writable r)"

definition files_ok :: "fs_limits \<Rightarrow> (addr \<Rightarrow> entry) \<Rightarrow> addr \<Rightarrow> nat \<Rightarrow> (provider_token \<times> file_resource) list \<Rightarrow> bool" where
  "files_ok L h n tok fs \<longleftrightarrow>
     distinct (map fst fs) \<and> length fs \<le> maxOpenHandles L \<and> (\<forall>(k, r) \<in> set fs. file_ok h n tok k r)"

definition tx_ok :: "(addr \<Rightarrow> entry) \<Rightarrow> addr \<Rightarrow> nat \<Rightarrow> provider_token \<Rightarrow> atomic_write \<Rightarrow> bool" where
  "tx_ok h n tok k t \<longleftrightarrow>
     fst k = Fs_atomic_write \<and> snd k < tok \<and> aw_token t = k \<and> aw_entry t < n \<and> is_file (h (aw_entry t)) \<and>
     aw_authority t = p_authority (aw_path t)"

definition txs_ok :: "fs_limits \<Rightarrow> (addr \<Rightarrow> entry) \<Rightarrow> addr \<Rightarrow> nat \<Rightarrow> (provider_token \<times> atomic_write) list \<Rightarrow> bool" where
  "txs_ok L h n tok ts \<longleftrightarrow>
     distinct (map fst ts) \<and> distinct (map (aw_entry \<circ> snd) ts) \<and> length ts \<le> maxOpenHandles L \<and>
     (\<forall>(k, t) \<in> set ts. tx_ok h n tok k t)"

definition streams_ok :: "fs_limits \<Rightarrow> (addr \<Rightarrow> entry) \<Rightarrow> addr \<Rightarrow> (call_token \<times> stream_record) list \<Rightarrow> bool" where
  "streams_ok L h n sts \<longleftrightarrow>
     distinct (map fst sts) \<and>
     (\<forall>st \<in> snd ` set sts. sr_file st < n \<and> is_file (h (sr_file st)) \<and> 0 < sr_chunkSize st \<and>
        sr_chunkSize st \<le> maxChunkBytes L)"

definition watchers_ok :: "fs_limits \<Rightarrow> (call_token \<times> watch_record) list \<Rightarrow> bool" where
  "watchers_ok L ws \<longleftrightarrow>
     distinct (map fst ws) \<and>
     (\<forall>w \<in> snd ` set ws. length (wr_events w) \<le> maxWatchEvents L \<and> (wr_credits w = 0 \<or> wr_events w = []))"

text \<open>The entries that must have no name: the roots and those of pending atomic writes.\<close>

definition pending :: "(provider_token \<times> atomic_write) list \<Rightarrow> addr set" where
  "pending ts = aw_entry ` {t \<in> snd ` set ts. isActiveTransaction t}"

definition nameless :: "fs \<Rightarrow> addr set" where
  "nameless s = snd ` set (fs_roots s) \<union> pending (fs_transactions s)"

definition fs_ok :: "fs \<Rightarrow> bool" where
  "fs_ok s \<longleftrightarrow>
     links_ok (fs_limits s) (fs_heap s) (fs_next s) (nameless s) \<and>
     roots_ok (fs_heap s) (fs_next s) (fs_roots s) \<and>
     files_ok (fs_limits s) (fs_heap s) (fs_next s) (fs_nextToken s) (fs_files s) \<and>
     txs_ok (fs_limits s) (fs_heap s) (fs_next s) (fs_nextToken s) (fs_transactions s) \<and>
     streams_ok (fs_limits s) (fs_heap s) (fs_next s) (fs_streams s) \<and>
     watchers_ok (fs_limits s) (fs_watchers s) \<and>
     (fs_disposed s \<longrightarrow> fs_files s = [] \<and> fs_transactions s = [] \<and> fs_streams s = [] \<and> fs_watchers s = [])"

text \<open>The store may grow and entries may change, as long as they stay what they are.\<close>

definition evolves :: "(addr \<Rightarrow> entry) \<Rightarrow> addr \<Rightarrow> (addr \<Rightarrow> entry) \<Rightarrow> addr \<Rightarrow> bool" where
  "evolves h n h' n' \<longleftrightarrow> n \<le> n' \<and> (\<forall>b < n. same_kind (h b) (h' b))"

lemma evolves_refl [simp]: "evolves h n h n"
  by (simp add: evolves_def same_kind_def)

lemma evolves_trans: "evolves h n h' n' \<Longrightarrow> evolves h' n' h'' n'' \<Longrightarrow> evolves h n h'' n''"
  by (auto simp: evolves_def same_kind_def)

lemma evolves_update: "same_kind (h b) e \<Longrightarrow> evolves h n (h(b := e)) n"
  by (simp add: evolves_def same_kind_def)

lemma evolves_alloc: "evolves h n (h(n := e)) (Suc n)"
  by (simp add: evolves_def same_kind_def)

lemma roots_evolve: "roots_ok h n rs \<Longrightarrow> evolves h n h' n' \<Longrightarrow> roots_ok h' n' rs"
  by (fastforce simp: roots_ok_def evolves_def same_kind_def)

lemma files_evolve: "files_ok L h n tok fs \<Longrightarrow> evolves h n h' n' \<Longrightarrow> tok \<le> tok' \<Longrightarrow> files_ok L h' n' tok' fs"
  by (fastforce simp: files_ok_def file_ok_def evolves_def same_kind_def)

lemma txs_evolve: "txs_ok L h n tok ts \<Longrightarrow> evolves h n h' n' \<Longrightarrow> tok \<le> tok' \<Longrightarrow> txs_ok L h' n' tok' ts"
  by (fastforce simp: txs_ok_def tx_ok_def evolves_def same_kind_def)

lemma streams_evolve: "streams_ok L h n sts \<Longrightarrow> evolves h n h' n' \<Longrightarrow> streams_ok L h' n' sts"
  by (fastforce simp: streams_ok_def evolves_def same_kind_def)

lemmas tables_evolve = roots_evolve files_evolve txs_evolve streams_evolve

lemma fs_ok_store:
  assumes "fs_ok s" "links_ok (fs_limits s) h n (nameless s)" "evolves (fs_heap s) (fs_next s) h n"
  shows "fs_ok (s\<lparr>fs_heap := h, fs_next := n\<rparr>)"
  using assms tables_evolve [OF _ assms(3)] by (auto simp: fs_ok_def nameless_def)

end
