(* ===== verification/Fs_Preserve.thy ===== *)
theory Fs_Preserve
  imports Fs_Invariant
begin

text \<open>
  Every entry point of the in-memory file system provider keeps the invariant \<open>fs_ok\<close>, and the
  consequences: resource bounds, the confinement of path resolution.
\<close>

section \<open>Roots and resolution\<close>

definition rooted :: "fs \<Rightarrow> fs \<Rightarrow> bool" where
  "rooted s s' \<longleftrightarrow> s' = s \<or> (\<exists>g. map_of (fs_roots s) (rg_rootId g) = None \<and> s' = add_root g s)"

lemma rooted_refl [simp]: "rooted s s"
  by (simp add: rooted_def)

lemma rooted_frame:
  assumes "rooted s s'"
  shows "fs_limits s' = fs_limits s" "fs_files s' = fs_files s" "fs_transactions s' = fs_transactions s"
    "fs_streams s' = fs_streams s" "fs_watchers s' = fs_watchers s" "fs_nextToken s' = fs_nextToken s"
    "fs_disposed s' = fs_disposed s" "fs_now s' = fs_now s" "fs_next s \<le> fs_next s'"
    "b < fs_next s \<Longrightarrow> fs_heap s' b = fs_heap s b"
  using assms by (auto simp: rooted_def add_root_def)

lemma rooted_evolves: "rooted s s' \<Longrightarrow> evolves (fs_heap s) (fs_next s) (fs_heap s') (fs_next s')"
  by (simp add: evolves_def same_kind_def rooted_frame)

lemma fs_ok_add_root:
  assumes "fs_ok s" "map_of (fs_roots s) (rg_rootId g) = None"
  shows "fs_ok (add_root g s)"
proof -
  have r: "map_set (rg_rootId g) (fs_next s) (fs_roots s) = fs_roots s @ [(rg_rootId g, fs_next s)]"
    using assms(2) by (simp add: map_set_def map_of_eq_None_iff)
  have n: "nameless (add_root g s) = insert (fs_next s) (nameless s)"
    by (auto simp: nameless_def add_root_def r)
  have e: "evolves (fs_heap s) (fs_next s) ((fs_heap s)(fs_next s := new_directory 0x1FF (fs_now s))) (Suc (fs_next s))"
    by (rule evolves_alloc)
  have "links_ok (fs_limits s) ((fs_heap s)(fs_next s := new_directory 0x1FF (fs_now s))) (Suc (fs_next s))
      (insert (fs_next s) (nameless s))"
    using assms(1) by (intro links_alloc) (simp_all add: fs_ok_def)
  moreover have "roots_ok ((fs_heap s)(fs_next s := new_directory 0x1FF (fs_now s))) (Suc (fs_next s))
      (map_set (rg_rootId g) (fs_next s) (fs_roots s))"
    using assms by (auto simp: r roots_ok_def fs_ok_def map_of_eq_None_iff is_directory_def new_directory_def less_Suc_eq)
  ultimately show ?thesis using assms(1) tables_evolve [OF _ e] n
    by (auto simp: fs_ok_def add_root_def)
qed

lemma fs_ok_rooted: "fs_ok s \<Longrightarrow> rooted s s' \<Longrightarrow> fs_ok s'"
  by (auto simp: rooted_def fs_ok_add_root)

lemma child_allocated: "nodes_ok L h n \<Longrightarrow> a < n \<Longrightarrow> map_of (children (h a)) name = Some b \<Longrightarrow> b < n"
  by (force simp: nodes_ok_def node_ok_def targets_def dest: map_of_SomeD)

lemma walk_allocated:
  "walk_segments h follow a segs = Inr (Inl b) \<Longrightarrow> nodes_ok L h n \<Longrightarrow> a < n \<Longrightarrow> b < n"
proof (induction h follow a segs rule: walk_segments.induct)
  case (2 h follow a m rest)
  from 2(4) obtain cs c where c: "e_kind (h a) = Directory cs" "map_of cs m = Some c"
    by (auto split: entry_kind.splits option.splits)
  have "c < n" using child_allocated [OF 2(5,6)] c by (simp add: children_def)
  then show ?case using 2 c by (auto split: entry_kind.splits if_splits)
qed simp

lemma walk_follows:
  "walk_segments h follow a segs = Inr (Inl b) \<Longrightarrow> follow \<Longrightarrow> \<not> is_symlink (h a) \<Longrightarrow> \<not> is_symlink (h b)"
proof (induction h follow a segs rule: walk_segments.induct)
  case (2 h follow a m rest)
  from 2(4) obtain cs c where c: "e_kind (h a) = Directory cs" "map_of cs m = Some c"
    by (auto split: entry_kind.splits option.splits)
  have nl: "\<And>ds. e_kind (h c) = Directory ds \<Longrightarrow> \<not> is_symlink (h c)" "\<And>d. e_kind (h c) = File d \<Longrightarrow> \<not> is_symlink (h c)"
    by (simp_all add: is_symlink_def)
  show ?case
  proof (cases "e_kind (h c)")
    case (Directory ds)
    then show ?thesis using 2(1) [OF c Directory] 2(4,5) nl(1) by (simp add: c)
  next
    case (File d)
    then show ?thesis using 2(2) [OF c File] 2(4,5) nl(2) by (simp add: c)
  next
    case (Symlink t)
    then show ?thesis using 2(4,5) by (simp add: c)
  qed
qed simp

lemma root_directory: "fs_ok s \<Longrightarrow> map_of (fs_roots s) k = Some r \<Longrightarrow> r < fs_next s \<and> is_directory (fs_heap s r)"
  by (force simp: fs_ok_def roots_ok_def dest: map_of_SomeD)

lemma directory_not_symlink: "is_directory e \<Longrightarrow> \<not> is_symlink e \<and> \<not> is_file e"
  by (auto simp: is_directory_def is_symlink_def is_file_def split: entry_kind.splits)

lemma resolve_rooted: "resolve a path follow p hops s = (res, s') \<Longrightarrow> rooted s s'"
  using resolve_spec unfolding rooted_def by blast

lemma resolve_found:
  assumes "resolve a path follow p hops s = (Inr (b, q), s')" "fs_ok s"
  shows "b < fs_next s' \<and> (follow \<longrightarrow> \<not> is_symlink (fs_heap s' b))"
proof -
  have ok: "fs_ok s'" using fs_ok_rooted [OF assms(2) resolve_rooted [OF assms(1)]] .
  from resolve_spec [OF assms(1)] obtain r f where f: "follow \<longrightarrow> f"
    "walk_segments (fs_heap s') f r (segments q) = Inr (Inl b)" and r: "r < fs_next s'" "is_directory (fs_heap s' r)"
    using root_directory [OF ok] by (auto simp: resolved_in_def)
  have "nodes_ok (fs_limits s') (fs_heap s') (fs_next s')" using ok by (simp add: fs_ok_def links_ok_def)
  then have "b < fs_next s'" using walk_allocated [OF f(2) _ r(1)] by blast
  moreover have "follow \<Longrightarrow> \<not> is_symlink (fs_heap s' b)"
    using walk_follows [OF f(2)] f(1) directory_not_symlink [OF r(2)] by blast
  ultimately show ?thesis by blast
qed

text \<open>
  The rules name the parts of the state that change: the store, which only grows, and the roots.
\<close>

definition grows :: "fs \<Rightarrow> (addr \<Rightarrow> entry) \<Rightarrow> addr \<Rightarrow> bool" where
  "grows s h n \<longleftrightarrow> fs_next s \<le> n \<and> (\<forall>b < fs_next s. h b = fs_heap s b)"

abbreviation store :: "fs \<Rightarrow> (addr \<Rightarrow> entry) \<Rightarrow> addr \<Rightarrow> (string \<times> addr) list \<Rightarrow> fs" where
  "store s h n rs \<equiv> s\<lparr>fs_heap := h, fs_next := n, fs_roots := rs\<rparr>"

lemma rooted_store:
  assumes "rooted s s'"
  shows "\<exists>h n rs. s' = store s h n rs \<and> grows s h n"
proof -
  from assms consider "s' = s" | g where "s' = add_root g s" by (auto simp: rooted_def)
  then show ?thesis
  proof cases
    case 1
    then show ?thesis by (intro exI [of _ "fs_heap s"] exI [of _ "fs_next s"] exI [of _ "fs_roots s"]) (simp add: grows_def)
  next
    case 2
    then show ?thesis unfolding add_root_def
      by (intro exI conjI) (auto simp: grows_def)
  qed
qed

lemma wp_resolve [wp_rules]:
  assumes "fs_ok s" "\<And>e h n rs. fs_ok (store s h n rs) \<Longrightarrow> grows s h n \<Longrightarrow> E e (store s h n rs)"
    "\<And>b q h n rs. fs_ok (store s h n rs) \<Longrightarrow> grows s h n \<Longrightarrow> b < n \<Longrightarrow> (follow \<longrightarrow> \<not> is_symlink (h b)) \<Longrightarrow> Q (b, q) (store s h n rs)"
  shows "wp (resolve a path follow p hops) Q E s"
proof -
  obtain res s' where r: "resolve a path follow p hops s = (res, s')" by fastforce
  have "fs_ok s'" using fs_ok_rooted [OF assms(1) resolve_rooted [OF r]] .
  moreover obtain h n rs where "s' = store s h n rs" "grows s h n" using rooted_store [OF resolve_rooted [OF r]] by blast
  ultimately show ?thesis using assms(2,3) resolve_found [of a path follow p hops s] assms(1) r
    by (cases res) (auto simp: wp_def)
qed

lemma wp_parent [wp_rules]:
  assumes "fs_ok s" "\<And>e h n rs. fs_ok (store s h n rs) \<Longrightarrow> grows s h n \<Longrightarrow> E e (store s h n rs)"
    "\<And>d h n rs. fs_ok (store s h n rs) \<Longrightarrow> grows s h n \<Longrightarrow> d < n \<Longrightarrow> is_directory (h d) \<Longrightarrow> Q d (store s h n rs)"
  shows "wp (parent a path p) Q E s"
  unfolding parent_def
proof (intro wp_if wp_fs_fail wp_seq wp_resolve wp_case_prod wp_gets wp_ret)
  have "store s (fs_heap s) (fs_next s) (fs_roots s) = s" by simp
  then show "E (Fs_error EPERM) s"
    using assms(1) assms(2) [where h = "fs_heap s" and n = "fs_next s" and rs = "fs_roots s"] by (simp add: grows_def)
qed (use assms in simp_all)

lemma wp_root [wp_rules]:
  assumes "fs_ok s"
    "\<And>r h n rs. fs_ok (store s h n rs) \<Longrightarrow> grows s h n \<Longrightarrow> r < n \<Longrightarrow> is_directory (h r) \<Longrightarrow> Q r (store s h n rs)"
  shows "wp (root g) Q E s"
proof -
  have w: "wp (root g) Q E s"
    if x: "rooted s s'" "root g s = (Inr r, s')" "map_of (fs_roots s') (rg_rootId g) = Some r" for r s'
  proof -
    have ok: "fs_ok s'" using fs_ok_rooted [OF assms(1) x(1)] .
    obtain h n rs where "s' = store s h n rs" "grows s h n" using rooted_store [OF x(1)] by blast
    then show ?thesis using assms(2) ok x(2) root_directory [OF ok x(3)] by (simp add: wp_def)
  qed
  show ?thesis
  proof (cases "map_of (fs_roots s) (rg_rootId g)")
    case None
    have "rooted s (add_root g s)" using None by (auto simp: rooted_def)
    then show ?thesis by (rule w [of "add_root g s" "fs_next s"]) (simp_all add: None root_cases, simp add: add_root_def)
  next
    case (Some r)
    show ?thesis by (rule w [of s r]) (simp_all add: root_cases Some)
  qed
qed

section \<open>Watchers\<close>

lemma flush_events_result:
  "\<exists>w' ev. flush_events c es w s = s\<lparr>fs_watchers := map_adjust c (\<lambda>_. w') (fs_watchers s), fs_events := ev\<rparr> \<and>
     (wr_credits w' = 0 \<or> wr_events w' = []) \<and> length (wr_events w') \<le> length es"
proof (induction es arbitrary: w s)
  case Nil
  show ?case by (rule exI [of _ "w\<lparr>wr_events := []\<rparr>"], rule exI [of _ "fs_events s"]) simp
next
  case (Cons e es)
  show ?case
  proof (cases "wr_credits w = 0")
    case True
    then show ?thesis
      by (intro exI [of _ "w\<lparr>wr_events := e # es\<rparr>"] exI [of _ "fs_events s"]) simp
  next
    case False
    let ?w = "w\<lparr>wr_credits := wr_credits w - 1, wr_sequence := wr_sequence w + 1\<rparr>"
    let ?s = "emit (Ev_chunk (wr_id w) (wr_sequence w) None (fsSuccess (Some (watch_json e)))) s"
    obtain w' ev where w': "flush_events c es ?w ?s = ?s\<lparr>fs_watchers := map_adjust c (\<lambda>_. w') (fs_watchers ?s), fs_events := ev\<rparr>"
      "wr_credits w' = 0 \<or> wr_events w' = []" "length (wr_events w') \<le> length es"
      using Cons.IH [of ?w ?s] by blast
    have "flush_events c (e # es) w s = s\<lparr>fs_watchers := map_adjust c (\<lambda>_. w') (fs_watchers s), fs_events := ev\<rparr>"
      using False w'(1) by (simp add: emit_def)
    then show ?thesis using w'(2,3) by (intro exI [of _ w'] exI [of _ ev]) simp
  qed
qed

definition watch_ok :: "fs_limits \<Rightarrow> watch_record \<Rightarrow> bool" where
  "watch_ok L w \<longleftrightarrow> length (wr_events w) \<le> maxWatchEvents L \<and> (wr_credits w = 0 \<or> wr_events w = [])"

lemma watchers_ok_iff: "watchers_ok L ws \<longleftrightarrow> distinct (map fst ws) \<and> (\<forall>(k, w) \<in> set ws. watch_ok L w)"
  by (force simp: watchers_ok_def watch_ok_def)

lemma map_adjust_adjust: "map_adjust k (\<lambda>_. v) (map_adjust k f m) = map_adjust k (\<lambda>_. v) m"
  by (auto simp: map_adjust_def)

lemma watchers_adjust: "watchers_ok L ws \<Longrightarrow> watch_ok L w \<Longrightarrow> watchers_ok L (map_adjust c (\<lambda>_. w) ws)"
  by (auto simp: watchers_ok_iff) (auto simp: map_adjust_def)

lemma watchers_delete: "watchers_ok L ws \<Longrightarrow> watchers_ok L (map_delete c ws)"
  by (auto simp: watchers_ok_iff map_delete_def distinct_map_filter)

text \<open>What an operation on watchers may change.\<close>

definition watch_change :: "fs \<Rightarrow> fs \<Rightarrow> bool" where
  "watch_change s s' \<longleftrightarrow>
     (\<exists>ws ev. s' = s\<lparr>fs_watchers := ws, fs_events := ev\<rparr> \<and> (watchers_ok (fs_limits s) (fs_watchers s) \<longrightarrow>
        watchers_ok (fs_limits s) ws) \<and> (fs_watchers s = [] \<longrightarrow> ws = []))"

lemma watch_change_refl: "watch_change s s"
  by (auto simp: watch_change_def intro!: exI [of _ "fs_watchers s"] exI [of _ "fs_events s"])

lemma watch_change_trans: "watch_change s s' \<Longrightarrow> watch_change s' s'' \<Longrightarrow> watch_change s s''"
  unfolding watch_change_def by clarsimp blast

lemma watch_change_fold: "(\<And>x s. watch_change s (f x s)) \<Longrightarrow> watch_change s (fold f xs s)"
  by (induction xs arbitrary: s) (auto intro: watch_change_refl watch_change_trans)

lemma flushed_watchers:
  assumes "map_of (fs_watchers s) c = Some w" "length (wr_events (f w)) \<le> maxWatchEvents (fs_limits s)"
  shows "watch_change s (flushWatcher c (s\<lparr>fs_watchers := map_adjust c f (fs_watchers s)\<rparr>))"
proof -
  have m: "map_of (map_adjust c f (fs_watchers s)) c = Some (f w)"
    using assms(1) by (simp add: map_of_map_adjust)
  from flush_events_result [of c "wr_events (f w)" "f w" "s\<lparr>fs_watchers := map_adjust c f (fs_watchers s)\<rparr>"]
  obtain w' ev where w': "flush_events c (wr_events (f w)) (f w) (s\<lparr>fs_watchers := map_adjust c f (fs_watchers s)\<rparr>) =
      s\<lparr>fs_watchers := map_adjust c (\<lambda>_. w') (fs_watchers s), fs_events := ev\<rparr>"
    "watch_ok (fs_limits s) w'"
    using assms(2) by (auto simp: map_adjust_adjust watch_ok_def)
  then show ?thesis using m watchers_adjust
    by (auto simp: watch_change_def flushWatcher_def map_adjust_def intro!: exI [of _ "map_adjust c (\<lambda>_. w') (fs_watchers s)"])
qed

lemma notify_one_change: "watch_change s (notify_one t changed c s)"
proof (cases "map_of (fs_watchers s) c")
  case None
  then show ?thesis by (simp add: notify_one_def watch_change_refl)
next
  case (Some w)
  have "watch_change s (emit ev (s\<lparr>fs_watchers := map_delete c (fs_watchers s)\<rparr>))" for ev
    by (auto simp: watch_change_def emit_def map_delete_def intro!: watchers_delete [unfolded map_delete_def]
        exI [of _ "map_delete c (fs_watchers s)"])
  moreover have "length (wr_events w) < maxWatchEvents (fs_limits s) \<Longrightarrow>
      watch_change s (flushWatcher c (s\<lparr>fs_watchers := map_adjust c (\<lambda>w. w\<lparr>wr_events := wr_events w @ [e]\<rparr>) (fs_watchers s)\<rparr>))" for e
    using Some by (intro flushed_watchers) auto
  ultimately show ?thesis using Some by (simp add: notify_one_def Let_def watch_change_refl)
qed

lemma notifyWatchers_change: "watch_change s (snd (notifyWatchers op cs s))"
  unfolding notifyWatchers_def modify_def snd_conv
  by (intro watch_change_fold) (auto intro: watch_change_fold notify_one_change watch_change_refl split: sum.split)

lemma fs_ok_watch_change: "fs_ok s \<Longrightarrow> watch_change s s' \<Longrightarrow> fs_ok s'"
  by (auto simp: watch_change_def fs_ok_def nameless_def)

lemma wp_notifyWatchers [wp_rules]:
  assumes "fs_ok s" "\<And>ws ev. fs_ok (s\<lparr>fs_watchers := ws, fs_events := ev\<rparr>) \<Longrightarrow> Q () (s\<lparr>fs_watchers := ws, fs_events := ev\<rparr>)"
  shows "wp (notifyWatchers op cs) Q E s"
proof -
  have c: "watch_change s (snd (notifyWatchers op cs s))" by (rule notifyWatchers_change)
  then obtain ws ev where w: "snd (notifyWatchers op cs s) = s\<lparr>fs_watchers := ws, fs_events := ev\<rparr>"
    by (auto simp: watch_change_def)
  have "fst (notifyWatchers op cs s) = Inr ()" by (simp add: notifyWatchers_def modify_def)
  then show ?thesis using assms(2) fs_ok_watch_change [OF assms(1) c] w
    by (auto simp: wp_def split: prod.split)
qed

end
