(* ===== verification/Fs_Keep.thy ===== *)
theory Fs_Keep
  imports Fs_Preserve
begin

text \<open>
  The operations of the in-memory file system provider keep the invariant \<open>fs_ok\<close>.
\<close>

section \<open>Rules for changes of the store\<close>

text \<open>An entry that may be given a name.\<close>

definition nameable :: "fs \<Rightarrow> addr \<Rightarrow> bool" where
  "nameable s b \<longleftrightarrow> b < fs_next s \<and> unlinked (fs_heap s) (fs_next s) b \<and> b \<notin> nameless s"

lemma fs_ok_links: "fs_ok s \<Longrightarrow> links_ok (fs_limits s) (fs_heap s) (fs_next s) (nameless s)"
  by (simp add: fs_ok_def)

lemma nameless_bound: "fs_ok s \<Longrightarrow> b \<in> nameless s \<Longrightarrow> b < fs_next s"
  by (auto simp: fs_ok_def nameless_def pending_def roots_ok_def txs_ok_def tx_ok_def; force)

lemma fs_ok_update:
  assumes "fs_ok s" "children e = children (fs_heap s b)" "same_kind (fs_heap s b) e"
    "length (entry_data e) \<le> maxFileBytes (fs_limits s) \<or> entry_data e = entry_data (fs_heap s b)"
  shows "fs_ok (s\<lparr>fs_heap := (fs_heap s)(b := e)\<rparr>)"
proof -
  have "fs_ok (s\<lparr>fs_heap := (fs_heap s)(b := e), fs_next := fs_next s\<rparr>)"
    using assms by (intro fs_ok_store links_update evolves_update fs_ok_links) simp_all
  then show ?thesis by simp
qed

lemma wp_update_ok [wp_rules]:
  assumes "fs_ok s" "children (f (fs_heap s b)) = children (fs_heap s b)" "same_kind (fs_heap s b) (f (fs_heap s b))"
    "length (entry_data (f (fs_heap s b))) \<le> maxFileBytes (fs_limits s) \<or> entry_data (f (fs_heap s b)) = entry_data (fs_heap s b)"
    "fs_ok (s\<lparr>fs_heap := (fs_heap s)(b := f (fs_heap s b))\<rparr>) \<Longrightarrow> Q () (s\<lparr>fs_heap := (fs_heap s)(b := f (fs_heap s b))\<rparr>)"
  shows "wp (update_entry b f) Q E s"
  using assms by (intro wp_update_entry) (simp add: fs_ok_update)

lemma fs_ok_alloc:
  assumes "fs_ok s" "children e = []" "length (entry_data e) \<le> maxFileBytes (fs_limits s)"
  shows "fs_ok (s\<lparr>fs_heap := (fs_heap s)(fs_next s := e), fs_next := Suc (fs_next s)\<rparr>)"
    "nameable (s\<lparr>fs_heap := (fs_heap s)(fs_next s := e), fs_next := Suc (fs_next s)\<rparr>) (fs_next s)"
proof -
  let ?s = "s\<lparr>fs_heap := (fs_heap s)(fs_next s := e), fs_next := Suc (fs_next s)\<rparr>"
  have l: "links_ok (fs_limits s) ((fs_heap s)(fs_next s := e)) (Suc (fs_next s)) (insert (fs_next s) (nameless s))"
    using assms by (intro links_alloc fs_ok_links)
  then have "links_ok (fs_limits s) ((fs_heap s)(fs_next s := e)) (Suc (fs_next s)) (nameless s)"
    by (rule links_ok_mono) auto
  then show "fs_ok ?s" using assms(1) by (intro fs_ok_store evolves_alloc)
  have "nameless ?s = nameless s" by (simp add: nameless_def)
  moreover have "fs_next s \<notin> nameless s" using nameless_bound [OF assms(1)] by blast
  ultimately show "nameable ?s (fs_next s)" using l by (simp add: nameable_def links_ok_def)
qed

lemma wp_alloc_ok [wp_rules]:
  assumes "fs_ok s" "children e = []" "length (entry_data e) \<le> maxFileBytes (fs_limits s)"
    "\<And>h n. fs_ok (s\<lparr>fs_heap := h, fs_next := n\<rparr>) \<Longrightarrow> nameable (s\<lparr>fs_heap := h, fs_next := n\<rparr>) (fs_next s) \<Longrightarrow>
       h = (fs_heap s)(fs_next s := e) \<Longrightarrow> n = Suc (fs_next s) \<Longrightarrow> Q (fs_next s) (s\<lparr>fs_heap := h, fs_next := n\<rparr>)"
  shows "wp (alloc e) Q E s"
  using assms(4) [OF fs_ok_alloc(1) [OF assms(1-3)] fs_ok_alloc(2) [OF assms(1-3)]] by (intro wp_alloc) simp

lemma evolves_set_child: "evolves h n (h(d := set_child m b (h d))) n"
  by (simp add: evolves_def same_kind_def)

lemma evolves_delete_child: "evolves h n (h(d := delete_child m (h d))) n"
  by (simp add: evolves_def same_kind_def)

lemma fs_ok_set_child:
  assumes "fs_ok s" "nameable s b" "is_directory (fs_heap s d)" "room (fs_limits s) (fs_heap s d) m"
  shows "fs_ok (s\<lparr>fs_heap := (fs_heap s)(d := set_child m b (fs_heap s d))\<rparr>)"
proof -
  have "links_ok (fs_limits s) ((fs_heap s)(d := set_child m b (fs_heap s d))) (fs_next s) (nameless s - {b})"
    using assms by (intro links_set_child fs_ok_links) (simp_all add: nameable_def)
  then have "fs_ok (s\<lparr>fs_heap := (fs_heap s)(d := set_child m b (fs_heap s d)), fs_next := fs_next s\<rparr>)"
    using assms by (intro fs_ok_store evolves_set_child) (simp_all add: nameable_def)
  then show ?thesis by simp
qed

lemma wp_set_child:
  assumes "fs_ok s" "nameable s b" "is_directory (fs_heap s d)" "room (fs_limits s) (fs_heap s d) m"
    "\<And>h. fs_ok (s\<lparr>fs_heap := h\<rparr>) \<Longrightarrow> h = (fs_heap s)(d := set_child m b (fs_heap s d)) \<Longrightarrow> Q () (s\<lparr>fs_heap := h\<rparr>)"
  shows "wp (update_entry d (set_child m b)) Q E s"
  using assms(5) [OF fs_ok_set_child [OF assms(1-4)]] by (intro wp_update_entry) simp

lemma fs_ok_delete_child: "fs_ok s \<Longrightarrow> fs_ok (s\<lparr>fs_heap := (fs_heap s)(d := delete_child m (fs_heap s d))\<rparr>)"
  using fs_ok_store [of s "(fs_heap s)(d := delete_child m (fs_heap s d))" "fs_next s"]
  by (simp add: links_delete_child fs_ok_links evolves_delete_child)

lemma wp_delete_child:
  assumes "fs_ok s" "\<And>h. fs_ok (s\<lparr>fs_heap := h\<rparr>) \<Longrightarrow> Q () (s\<lparr>fs_heap := h\<rparr>)"
  shows "wp (update_entry d (delete_child m)) Q E s"
  using assms(2) [OF fs_ok_delete_child [OF assms(1)]] by (intro wp_update_entry) simp

text \<open>The two updates of \<open>rename\<close>.\<close>

lemma filter_keys_map:
  "filter (\<lambda>(k, _). k \<noteq> m) (map (\<lambda>(k, v). (k, g k v)) cs) = map (\<lambda>(k, v). (k, g k v)) (filter (\<lambda>(k, _). k \<noteq> m) cs)"
  by (induction cs) auto

lemma map_set_delete: "m \<noteq> m' \<Longrightarrow> map_delete m' (map_set m b cs) = map_set m b (map_delete m' cs)"
  by (force simp: map_set_def map_delete_def filter_keys_map)

lemma set_delete_child:
  "m \<noteq> m' \<Longrightarrow> delete_child m' (set_child m b e) = set_child m b (delete_child m' e)"
  by (auto simp: set_child_def delete_child_def map_set_delete split: entry_kind.split)

lemma fs_ok_move:
  assumes "fs_ok s" "map_of (children (fs_heap s from)) m = Some e" "from < fs_next s" "is_directory (fs_heap s to)"
    "from \<noteq> to \<or> map_of (children (fs_heap s to)) m' \<noteq> None \<Longrightarrow> room (fs_limits s) (fs_heap s to) m'"
  defines "h \<equiv> (fs_heap s)(to := set_child m' e (fs_heap s to))"
  shows "fs_ok (s\<lparr>fs_heap := h(from := delete_child m (h from))\<rparr>)"
proof -
  let ?s = "s\<lparr>fs_heap := (fs_heap s)(from := delete_child m (fs_heap s from))\<rparr>"
  have ok: "fs_ok ?s" using assms(1) by (rule fs_ok_delete_child)
  have "(m, e) \<in> set (children (fs_heap s from))" using assms(2) by (rule map_of_SomeD)
  then have t: "e \<in> targets (fs_heap s from)" by (force simp: targets_def)
  have links: "links_ok (fs_limits s) (fs_heap s) (fs_next s) (nameless s)" using assms(1) by (rule fs_ok_links)
  have "e \<notin> nameless s" using links t assms(3) by (auto simp: links_ok_def unlinked_def)
  moreover have "e < fs_next s" using links t assms(3) by (auto simp: links_ok_def nodes_ok_def node_ok_def)
  ultimately have nm: "nameable ?s e"
    using unlinked_deleted [OF links assms(2,3)] by (simp add: nameable_def nameless_def)
  show ?thesis
  proof (cases "from = to \<and> m = m'")
    case True
    have "map_set m e (children (fs_heap s from)) = children (fs_heap s from)"
    proof -
      have "distinct (map fst (children (fs_heap s from)))"
        using links assms(3) by (simp add: links_ok_def nodes_ok_def node_ok_def names_def)
      then have "(m, b) \<in> set (children (fs_heap s from)) \<Longrightarrow> b = e" for b
        using assms(2) by (metis map_of_is_SomeI option.inject)
      then have "map (\<lambda>(k', v'). (k', if k' = m then e else v')) (children (fs_heap s from)) = children (fs_heap s from)"
        by (intro map_idI) auto
      moreover have "m \<in> fst ` set (children (fs_heap s from))" using assms(2) by (force dest: map_of_SomeD)
      ultimately show ?thesis by (simp add: map_set_def)
    qed
    then have "set_child m e (fs_heap s from) = fs_heap s from"
      by (auto simp: set_child_def children_def split: entry_kind.splits)
    then show ?thesis using ok True by (simp add: h_def)
  next
    case False
    have l: "length (map_delete m (children (fs_heap s from))) < maxDirectoryEntries (fs_limits s)"
    proof -
      have "length (map_delete m (children (fs_heap s from))) < length (children (fs_heap s from))"
        using assms(2) by (force simp: map_delete_def dest: map_of_SomeD intro: length_filter_less)
      then show ?thesis using links assms(3) by (fastforce simp: links_ok_def nodes_ok_def node_ok_def)
    qed
    have "room (fs_limits ?s) (fs_heap ?s to) m'"
      using l assms(5) by (cases "from = to") (auto simp: room_def children_delete_child)
    then have "fs_ok (?s\<lparr>fs_heap := (fs_heap ?s)(to := set_child m' e (fs_heap ?s to))\<rparr>)"
      using assms(4) by (intro fs_ok_set_child ok nm) (auto simp: fun_upd_apply)
    moreover have "(fs_heap ?s)(to := set_child m' e (fs_heap ?s to)) = h(from := delete_child m (h from))"
      using False set_delete_child [of m' m] by (auto simp: h_def fun_eq_iff)
    ultimately show ?thesis by simp
  qed
qed

lemma wp_move:
  assumes "fs_ok s" "map_of (children (fs_heap s from)) m = Some e" "from < fs_next s" "is_directory (fs_heap s to)"
    "from \<noteq> to \<or> map_of (children (fs_heap s to)) m' \<noteq> None \<Longrightarrow> room (fs_limits s) (fs_heap s to) m'"
    "\<And>h. fs_ok (s\<lparr>fs_heap := h\<rparr>) \<Longrightarrow> wp (f ()) Q E (s\<lparr>fs_heap := h\<rparr>)"
  shows "wp (seqE (update_entry to (set_child m' e)) (\<lambda>_. seqE (update_entry from (delete_child m)) f)) Q E s"
proof (intro wp_seq wp_update_entry)
  show "wp (f ()) Q E (s\<lparr>fs_heap := (fs_heap s)(to := set_child m' e (fs_heap s to)),
      fs_heap := (fs_heap (s\<lparr>fs_heap := (fs_heap s)(to := set_child m' e (fs_heap s to))\<rparr>))
       (from := delete_child m (fs_heap (s\<lparr>fs_heap := (fs_heap s)(to := set_child m' e (fs_heap s to))\<rparr>) from))\<rparr>)"
    using assms(6) [OF fs_ok_move [OF assms(1-5)]] by simp
qed

section \<open>Rules for the tables\<close>

lemma entry_fields [simp]:
  "children (e\<lparr>e_mode := m\<rparr>) = children e" "children (e\<lparr>ctimeMs := c\<rparr>) = children e" "children (e\<lparr>mtimeMs := c\<rparr>) = children e"
  "entry_data (e\<lparr>e_mode := m\<rparr>) = entry_data e" "entry_data (e\<lparr>ctimeMs := c\<rparr>) = entry_data e"
  "entry_data (e\<lparr>mtimeMs := c\<rparr>) = entry_data e" "children (e\<lparr>e_kind := File d\<rparr>) = []" "entry_data (e\<lparr>e_kind := File d\<rparr>) = d"
  "is_directory (e\<lparr>e_mode := m\<rparr>) = is_directory e" "is_directory (e\<lparr>ctimeMs := c\<rparr>) = is_directory e"
  "is_directory (e\<lparr>mtimeMs := c\<rparr>) = is_directory e" "\<not> is_directory (e\<lparr>e_kind := File d\<rparr>)"
  "is_file (e\<lparr>e_mode := m\<rparr>) = is_file e" "is_file (e\<lparr>ctimeMs := c\<rparr>) = is_file e"
  "is_file (e\<lparr>mtimeMs := c\<rparr>) = is_file e" "is_file (e\<lparr>e_kind := File d\<rparr>)"
  "is_symlink (e\<lparr>e_mode := m\<rparr>) = is_symlink e" "is_symlink (e\<lparr>ctimeMs := c\<rparr>) = is_symlink e"
  "is_symlink (e\<lparr>mtimeMs := c\<rparr>) = is_symlink e" "\<not> is_symlink (e\<lparr>e_kind := File d\<rparr>)"
  by (simp_all add: children_def entry_data_def is_directory_def is_file_def is_symlink_def)

lemma file_entry: "is_file e \<Longrightarrow> children e = [] \<and> \<not> is_directory e \<and> \<not> is_symlink e"
  by (auto simp: children_def is_directory_def is_file_def is_symlink_def split: entry_kind.splits)

lemma new_entries [simp]:
  "is_directory (new_directory m t)" "\<not> is_directory (new_file m t)" "is_file (new_file m t)" "\<not> is_symlink (new_file m t)"
  "\<not> is_symlink (new_directory m t)" "\<not> is_file (new_directory m t)"
  "children \<lparr>birthtimeMs = t1, ctimeMs = t2, mtimeMs = t3, e_mode = m, e_kind = Symlink p\<rparr> = []"
  "entry_data \<lparr>birthtimeMs = t1, ctimeMs = t2, mtimeMs = t3, e_mode = m, e_kind = Symlink p\<rparr> = []"
  by (simp_all add: new_directory_def new_file_def is_directory_def is_file_def is_symlink_def children_def entry_data_def)

lemma fs_ok_new_file:
  assumes "fs_ok s" "length (fs_files s) < maxOpenHandles (fs_limits s)" "\<not> fs_disposed s"
    "file_ok (fs_heap s) (fs_next s) (Suc (fs_nextToken s)) (Fs_file, fs_nextToken s) r"
  shows "fs_ok (s\<lparr>fs_nextToken := Suc (fs_nextToken s), fs_files := map_set (Fs_file, fs_nextToken s) r (fs_files s)\<rparr>)"
proof -
  have "(Fs_file, fs_nextToken s) \<notin> fst ` set (fs_files s)"
    using assms(1) by (fastforce simp: fs_ok_def files_ok_def file_ok_def)
  moreover have "files_ok (fs_limits s) (fs_heap s) (fs_next s) (Suc (fs_nextToken s)) (fs_files s)"
    using assms(1) files_evolve by (force simp: fs_ok_def)
  moreover have "txs_ok (fs_limits s) (fs_heap s) (fs_next s) (Suc (fs_nextToken s)) (fs_transactions s)"
    using assms(1) txs_evolve by (force simp: fs_ok_def)
  ultimately show ?thesis using assms
    by (auto simp: fs_ok_def map_set_fresh files_ok_def nameless_def)
qed

lemma wp_new_file:
  assumes "fs_ok s" "length (fs_files s) < maxOpenHandles (fs_limits s)" "\<not> fs_disposed s"
    "file_ok (fs_heap s) (fs_next s) (Suc (fs_nextToken s)) (Fs_file, fs_nextToken s) (r (s\<lparr>fs_nextToken := fs_nextToken s + 1\<rparr>))"
    "\<And>c. E c s"
    "\<And>tok fl. fs_ok (s\<lparr>fs_nextToken := tok, fs_files := fl\<rparr>) \<Longrightarrow> wp (g (Fs_file, fs_nextToken s)) Q E (s\<lparr>fs_nextToken := tok, fs_files := fl\<rparr>)"
  shows "wp (seqE (allocateProviderToken Fs_file) (\<lambda>token.
      seqE (modify (\<lambda>s. s\<lparr>fs_files := map_set token (r s) (fs_files s)\<rparr>)) (\<lambda>_. g token))) Q E s"
  using assms(6) [OF fs_ok_new_file [OF assms(1-4)]] assms(5)
  by (intro wp_seq wp_allocateProviderToken wp_modify) simp_all

end
