(* ===== verification/Fs_Clone.thy ===== *)
theory Fs_Clone
  imports Fs_Keep
begin

text \<open>
  A copied tree shares no entry with the original, and atomic writes keep the invariant.
\<close>

section \<open>Copies\<close>

text \<open>The entries a copy created lead only to entries it created; its own root has no name yet.\<close>

definition closed_from :: "addr \<Rightarrow> (addr \<Rightarrow> entry) \<Rightarrow> addr \<Rightarrow> bool" where
  "closed_from n0 h n \<longleftrightarrow> (\<forall>d. n0 \<le> d \<and> d < n \<longrightarrow> targets (h d) \<subseteq> {n0..<n})"

definition cloned :: "fs \<Rightarrow> addr \<times> fs \<Rightarrow> bool" where
  "cloned s r \<longleftrightarrow>
     (case r of (c, s') \<Rightarrow>
        fs_ok s' \<and> (\<exists>h n. s' = s\<lparr>fs_heap := h, fs_next := n\<rparr> \<and> grows s h n \<and> fs_next s \<le> c \<and> c < n \<and>
          unlinked h n c \<and> closed_from (fs_next s) h n))"

lemma cloned_alloc:
  assumes "fs_ok s" "children e = []" "length (entry_data e) \<le> maxFileBytes (fs_limits s)"
  shows "cloned s (fs_next s, snd (alloc e s))"
proof -
  have "unlinked ((fs_heap s)(fs_next s := e)) (Suc (fs_next s)) (fs_next s)"
    using fs_ok_alloc(2) [OF assms] by (simp add: nameable_def)
  moreover have "closed_from (fs_next s) ((fs_heap s)(fs_next s := e)) (Suc (fs_next s))"
    using assms(2) by (auto simp: closed_from_def targets_def less_Suc_eq)
  ultimately show ?thesis using fs_ok_alloc(1) [OF assms]
    by (auto simp: cloned_def alloc_def grows_def intro!: exI [of _ "(fs_heap s)(fs_next s := e)"])
qed

text \<open>The loop over the children: what was copied so far, and the store.\<close>

definition copying :: "fs \<Rightarrow> (jstring \<times> addr) list \<Rightarrow> fs \<Rightarrow> bool" where
  "copying s acc st \<longleftrightarrow>
     fs_ok st \<and> distinct (map snd acc) \<and>
     (\<exists>h n. st = s\<lparr>fs_heap := h, fs_next := n\<rparr> \<and> grows s h n \<and> closed_from (fs_next s) h n \<and>
        (\<forall>x \<in> snd ` set acc. fs_next s \<le> x \<and> x < n \<and> unlinked h n x))"

lemma copying_step:
  assumes "copying s acc st" "cloned st (c, st')" "m \<notin> fst ` set acc"
  shows "copying s (map_set m c acc) st'"
proof -
  obtain h n where st: "st = s\<lparr>fs_heap := h, fs_next := n\<rparr>" "grows s h n" "closed_from (fs_next s) h n"
    "\<forall>x \<in> snd ` set acc. fs_next s \<le> x \<and> x < n \<and> unlinked h n x"
    using assms(1) by (auto simp: copying_def)
  obtain h' n' where st': "st' = st\<lparr>fs_heap := h', fs_next := n'\<rparr>" "grows st h' n'" "n \<le> c" "c < n'" "unlinked h' n' c"
    "closed_from n h' n'" using assms(2) st(1) by (auto simp: cloned_def)
  have old: "d < n \<Longrightarrow> h' d = h d" and le: "n \<le> n'" "fs_next s \<le> n" for d
    using st'(2) st(1,2) by (auto simp: grows_def)
  have "unlinked h' n' x" if "x \<in> snd ` set acc" for x
    unfolding unlinked_def
  proof (intro allI impI)
    fix d assume "d < n'"
    have x: "x < n" "unlinked h n x" using st(4) that by auto
    show "x \<notin> targets (h' d)"
    proof (cases "d < n")
      case True
      then show ?thesis using x old by (simp add: unlinked_def)
    next
      case False
      then have "targets (h' d) \<subseteq> {n..<n'}" using st'(6) \<open>d < n'\<close> by (simp add: closed_from_def)
      then show ?thesis using x by auto
    qed
  qed
  then have "\<forall>x \<in> snd ` set (acc @ [(m, c)]). fs_next s \<le> x \<and> x < n' \<and> unlinked h' n' x"
    using st(4) st'(3-5) le by (auto intro: less_le_trans)
  moreover have "closed_from (fs_next s) h' n'"
    unfolding closed_from_def
  proof (intro allI impI)
    fix d assume d: "fs_next s \<le> d \<and> d < n'"
    show "targets (h' d) \<subseteq> {fs_next s..<n'}"
    proof (cases "d < n")
      case True
      then have "targets (h d) \<subseteq> {fs_next s..<n}" using st(3) d by (simp add: closed_from_def)
      then show ?thesis using old [OF True] le by auto
    next
      case False
      then have "targets (h' d) \<subseteq> {n..<n'}" using st'(6) d by (simp add: closed_from_def)
      then show ?thesis using le by auto
    qed
  qed
  moreover have "distinct (map snd (acc @ [(m, c)]))"
    using assms(1) st(4) st'(3) by (auto simp: copying_def)
  moreover have "grows s h' n'" using st(1,2) st'(2) by (auto simp: grows_def)
  moreover have "st' = s\<lparr>fs_heap := h', fs_next := n'\<rparr>" "fs_ok st'"
    using st(1) st'(1) assms(2) by (simp_all add: cloned_def)
  ultimately show ?thesis unfolding copying_def map_set_fresh [OF assms(3)]
    by (intro conjI exI [of _ h'] exI [of _ n']) simp_all
qed

lemma copying_start: "fs_ok st \<Longrightarrow> copying st [] st"
  by (auto simp: copying_def grows_def closed_from_def intro!: exI [of _ "fs_heap st"] exI [of _ "fs_next st"])

lemma copying_fold:
  assumes IH: "\<And>a st. fs_ok st \<Longrightarrow> a < fs_next st \<Longrightarrow> cloned st (clone k a st)"
  shows "copying s acc st \<Longrightarrow> \<forall>x \<in> snd ` set cs. x < fs_next s \<Longrightarrow> distinct (map fst acc @ map fst cs) \<Longrightarrow>
    (acc', st') = fold (\<lambda>(name, c) (acc, st). case clone k c st of (c', st') \<Rightarrow> (map_set name c' acc, st')) cs (acc, st) \<Longrightarrow>
    copying s acc' st' \<and> map fst acc' = map fst acc @ map fst cs"
proof (induction cs arbitrary: acc st)
  case (Cons p cs)
  obtain name a where p: "p = (name, a)" by fastforce
  obtain c st1 where c: "clone k a st = (c, st1)" by fastforce
  have "fs_ok st" "a < fs_next st" using Cons.prems(1,2) by (auto simp: copying_def grows_def p)
  then have "cloned st (c, st1)" using IH c by metis
  moreover have m: "name \<notin> fst ` set acc" using Cons.prems(3) by (auto simp: p)
  ultimately have "copying s (map_set name c acc) st1" using Cons.prems(1) copying_step by blast
  moreover have "distinct (map fst (map_set name c acc) @ map fst cs)"
    using Cons.prems(3) m by (auto simp: p map_set_fresh)
  ultimately show ?case using Cons.IH [of "map_set name c acc" st1] Cons.prems(2,4) m
    by (simp add: p c map_set_fresh)
qed simp

text \<open>An empty directory filled at once.\<close>

lemma links_fill:
  assumes "links_ok L h n U" "node_ok L n e" "\<forall>x \<in> targets e. unlinked h n x \<and> x \<notin> U"
  shows "links_ok L (h(d := e)) n U"
proof -
  have "single_names (h(d := e)) n"
    unfolding single_names_def
  proof (intro allI impI)
    fix x y assume "x < n" "y < n" "x \<noteq> (y::addr)"
    moreover have "targets (h x) \<inter> targets (h y) = {}"
      using assms(1) calculation by (simp add: links_ok_def single_names_def)
    ultimately show "targets ((h(d := e)) x) \<inter> targets ((h(d := e)) y) = {}"
      using assms(3) by (cases "x = d"; cases "y = d") (auto simp: unlinked_def)
  qed
  then show ?thesis using assms by (auto simp: links_ok_def nodes_ok_def unlinked_def)
qed

text \<open>The directory itself, filled with the copies of the children.\<close>

lemma unlinked_while_copying:
  assumes "copying s1 acc s2" "b < fs_next s1" "unlinked (fs_heap s1) (fs_next s1) b"
  shows "unlinked (fs_heap s2) (fs_next s2) b"
  unfolding unlinked_def
proof (intro allI impI)
  fix d assume d: "d < fs_next s2"
  obtain h n where s2: "s2 = s1\<lparr>fs_heap := h, fs_next := n\<rparr>" "grows s1 h n" "closed_from (fs_next s1) h n"
    using assms(1) by (auto simp: copying_def)
  show "b \<notin> targets (fs_heap s2 d)"
  proof (cases "d < fs_next s1")
    case True
    then show ?thesis using assms(3) s2(1,2) by (simp add: grows_def unlinked_def)
  next
    case False
    then have "targets (h d) \<subseteq> {fs_next s1..<n}" using s2(1,3) d by (simp add: closed_from_def)
    then show ?thesis using assms(2) s2(1) by auto
  qed
qed

lemma closed_from_fill:
  assumes "closed_from (Suc b) h n" "b < n" "\<forall>x \<in> targets e. Suc b \<le> x \<and> x < n"
  shows "closed_from b (h(b := e)) n"
  unfolding closed_from_def
proof (intro allI impI)
  fix d assume d: "b \<le> d \<and> d < n"
  show "targets ((h(b := e)) d) \<subseteq> {b..<n}"
  proof (cases "d = b")
    case True
    then show ?thesis using assms(3) by auto
  next
    case False
    then have "targets (h d) \<subseteq> {Suc b..<n}" using assms(1) d by (simp add: closed_from_def)
    then show ?thesis using False by auto
  qed
qed

lemma cloned_fill:
  fixes s m
  defines "b \<equiv> fs_next s" and "s1 \<equiv> s\<lparr>fs_heap := (fs_heap s)(fs_next s := new_directory m (fs_now s)), fs_next := Suc (fs_next s)\<rparr>"
  assumes "fs_ok s" "copying s1 cs' s2" "distinct (map fst cs')" "length cs' \<le> maxDirectoryEntries (fs_limits s)"
  shows "cloned s (b, s2\<lparr>fs_heap := (fs_heap s2)(b := (fs_heap s2 b)\<lparr>e_kind := Directory cs'\<rparr>)\<rparr>)"
proof -
  obtain h n where s2: "s2 = s1\<lparr>fs_heap := h, fs_next := n\<rparr>" "grows s1 h n" "closed_from (Suc b) h n"
    "\<forall>x \<in> snd ` set cs'. Suc b \<le> x \<and> x < n \<and> unlinked h n x" "fs_ok s2" "distinct (map snd cs')"
    using assms(4) by (auto simp: copying_def s1_def b_def)
  let ?e = "(h b)\<lparr>e_kind := Directory cs'\<rparr>"
  have hb: "h b = new_directory m (fs_now s)" "Suc b \<le> n" "d < b \<Longrightarrow> h d = fs_heap s d" for d
    using s2(2) by (auto simp: grows_def s1_def b_def)
  have e: "children ?e = cs'" "entry_data ?e = []" "targets ?e = snd ` set cs'"
    by (simp_all add: children_def entry_data_def targets_def)
  have nd: "node_ok (fs_limits s) n ?e"
    using assms(5,6) s2(4,6) by (auto simp: node_ok_def names_def e)
  have U: "x \<notin> nameless s" if "b < x" for x
    using nameless_bound [OF assms(3), of x] that by (auto simp: b_def)
  have "links_ok (fs_limits s) h n (nameless s)"
    using fs_ok_links [OF s2(5)] by (simp add: s2(1) s1_def nameless_def)
  then have "links_ok (fs_limits s) (h(b := ?e)) n (nameless s)"
    using nd s2(4) U e(3) by (intro links_fill) fastforce+
  then have "links_ok (fs_limits s2) (h(b := ?e)) n (nameless s2)" by (simp add: s2(1) s1_def nameless_def)
  moreover have "evolves (fs_heap s2) (fs_next s2) (h(b := ?e)) n"
    using hb(1) by (simp add: s2(1) evolves_def same_kind_def is_directory_def is_file_def is_symlink_def new_directory_def)
  ultimately have ok: "fs_ok (s2\<lparr>fs_heap := h(b := ?e), fs_next := n\<rparr>)" by (rule fs_ok_store [OF s2(5)])
  have "unlinked (fs_heap s1) (fs_next s1) b"
    using fs_ok_alloc(2) [OF assms(3), of "new_directory m (fs_now s)"] by (simp add: nameable_def s1_def b_def)
  then have "unlinked h n b" using unlinked_while_copying [OF assms(4)] by (simp add: s2(1) s1_def b_def)
  then have "unlinked (h(b := ?e)) n b" using s2(4) e(3) by (auto simp: unlinked_def)
  moreover have "closed_from b (h(b := ?e)) n" using s2(3,4) hb(2) e(3) by (intro closed_from_fill) auto
  moreover have "grows s (h(b := ?e)) n" using hb by (simp add: grows_def b_def)
  moreover have "s2\<lparr>fs_heap := (fs_heap s2)(b := (fs_heap s2 b)\<lparr>e_kind := Directory cs'\<rparr>)\<rparr> = s\<lparr>fs_heap := h(b := ?e), fs_next := n\<rparr>"
    "s2\<lparr>fs_heap := h(b := ?e), fs_next := n\<rparr> = s\<lparr>fs_heap := h(b := ?e), fs_next := n\<rparr>"
    by (simp_all add: s2(1) s1_def)
  ultimately show ?thesis using ok hb(2) unfolding cloned_def prod.case
    by (intro conjI exI [of _ "h(b := ?e)"] exI [of _ n]) (simp_all add: b_def)
qed

lemma clone_spec: "fs_ok s \<Longrightarrow> a < fs_next s \<Longrightarrow> cloned s (clone k a s)"
proof (induction k arbitrary: a s)
  case 0
  show ?case using cloned_alloc [OF 0(1), of "new_file 0 0"] by simp
next
  case (Suc k)
  have node: "node_ok (fs_limits s) (fs_next s) (fs_heap s a)"
    using fs_ok_links [OF Suc.prems(1)] Suc.prems(2) by (simp add: links_ok_def nodes_ok_def)
  show ?case
  proof (cases "e_kind (fs_heap s a)")
    case (Directory cs)
    let ?b = "fs_next s" and ?d = "new_directory (e_mode (fs_heap s a)) (fs_now s)"
    define s1 where "s1 = snd (alloc ?d s)"
    have cs: "children (fs_heap s a) = cs" using Directory by (simp add: children_def)
    have s1: "s1 = s\<lparr>fs_heap := (fs_heap s)(?b := ?d), fs_next := Suc ?b\<rparr>" by (simp add: s1_def alloc_def)
    have "fs_ok s1" using fs_ok_alloc(1) [OF Suc.prems(1), of ?d] by (simp add: s1)
    note start = copying_start [OF this]
    obtain cs' s2 where f: "(cs', s2) =
        fold (\<lambda>(name, c) (acc, st). case clone k c st of (c', st') \<Rightarrow> (map_set name c' acc, st')) cs ([], s1)"
      by (metis surj_pair)
    have "copying s1 cs' s2 \<and> map fst cs' = map fst ([] :: (jstring \<times> addr) list) @ map fst cs"
    proof (rule copying_fold [OF _ start _ _ f])
      show "\<And>a st. fs_ok st \<Longrightarrow> a < fs_next st \<Longrightarrow> cloned st (clone k a st)" by (rule Suc.IH)
      show "\<forall>x\<in>snd ` set cs. x < fs_next s1"
        using node cs by (fastforce simp: node_ok_def targets_def s1)
      show "distinct (map fst ([] :: (jstring \<times> addr) list) @ map fst cs)" using node cs by (simp add: node_ok_def names_def)
    qed
    then have c2: "copying s1 cs' s2" "map fst cs' = map fst cs" by auto
    have "length cs' = length cs" using c2(2) by (metis length_map)
    then have "cloned s (?b, s2\<lparr>fs_heap := (fs_heap s2)(?b := (fs_heap s2 ?b)\<lparr>e_kind := Directory cs'\<rparr>)\<rparr>)"
      using c2 node cs unfolding s1 by (intro cloned_fill Suc.prems) (simp_all add: node_ok_def names_def)
    then show ?thesis using Directory by (simp add: s1_def [symmetric] Let_def f [symmetric])
  next
    case (File d)
    then have "children (fs_heap s a) = []" by (simp add: children_def)
    then show ?thesis using cloned_alloc [OF Suc.prems(1)] node File by (simp add: node_ok_def)
  next
    case (Symlink t)
    then have "children (fs_heap s a) = []" by (simp add: children_def)
    then show ?thesis using cloned_alloc [OF Suc.prems(1)] node Symlink by (simp add: node_ok_def)
  qed
qed

lemma wp_clone [wp_rules]:
  assumes "fs_ok s" "a < fs_next s"
    "\<And>c h n. fs_ok (s\<lparr>fs_heap := h, fs_next := n\<rparr>) \<Longrightarrow> nameable (s\<lparr>fs_heap := h, fs_next := n\<rparr>) c \<Longrightarrow> grows s h n \<Longrightarrow>
       Q c (s\<lparr>fs_heap := h, fs_next := n\<rparr>)"
  shows "wp (\<lambda>s. case clone (fs_next s) a s of (c, s') \<Rightarrow> (Inr c, s')) Q E s"
proof -
  obtain c s' where c: "clone (fs_next s) a s = (c, s')" by fastforce
  then obtain h n where s': "fs_ok s'" "s' = s\<lparr>fs_heap := h, fs_next := n\<rparr>" "grows s h n" "fs_next s \<le> c" "c < n" "unlinked h n c"
    using clone_spec [OF assms(1,2), of "fs_next s"] by (auto simp: cloned_def)
  moreover have "c \<notin> nameless s" using nameless_bound [OF assms(1), of c] s'(4) by auto
  ultimately show ?thesis using assms(3) by (simp add: wp_def c nameable_def nameless_def)
qed

end
