(* ===== verification/Fs_Bounds.thy ===== *)
theory Fs_Bounds
  imports Fs_Clone
begin

text \<open>
  Every entry point of the in-memory file system provider keeps the invariant \<open>fs_ok\<close>.
\<close>

section \<open>Atomic writes\<close>

lemma fs_ok_new_tx:
  assumes "fs_ok s" "length (fs_transactions s) < maxOpenHandles (fs_limits s)" "\<not> fs_disposed s" "is_file e"
    "length (entry_data e) \<le> maxFileBytes (fs_limits s)"
    "aw_token t = (Fs_atomic_write, fs_nextToken s)" "aw_entry t = fs_next s" "aw_authority t = p_authority (aw_path t)"
  shows "fs_ok (s\<lparr>fs_nextToken := Suc (fs_nextToken s), fs_heap := (fs_heap s)(fs_next s := e), fs_next := Suc (fs_next s),
     fs_transactions := map_set (Fs_atomic_write, fs_nextToken s) t (fs_transactions s)\<rparr>)"
proof -
  let ?h = "(fs_heap s)(fs_next s := e)" and ?k = "(Fs_atomic_write, fs_nextToken s)"
  have ch: "children e = []" using file_entry [OF assms(4)] by simp
  have "?k \<notin> fst ` set (fs_transactions s)"
    using assms(1) by (fastforce simp: fs_ok_def txs_ok_def tx_ok_def)
  then have m: "map_set ?k t (fs_transactions s) = fs_transactions s @ [(?k, t)]" by (rule map_set_fresh)
  have ev: "evolves (fs_heap s) (fs_next s) ?h (Suc (fs_next s))" by (rule evolves_alloc)
  have l: "links_ok (fs_limits s) ?h (Suc (fs_next s)) (insert (fs_next s) (nameless s))"
    using assms(1,5) ch by (intro links_alloc fs_ok_links)
  have "snd ` set (fs_roots s) \<union> pending (fs_transactions s @ [(?k, t)]) \<subseteq> insert (fs_next s) (nameless s)"
    using assms(7) by (auto simp: nameless_def pending_def)
  then have "links_ok (fs_limits s) ?h (Suc (fs_next s)) (snd ` set (fs_roots s) \<union> pending (fs_transactions s @ [(?k, t)]))"
    using l links_ok_mono by blast
  moreover have "txs_ok (fs_limits s) ?h (Suc (fs_next s)) (Suc (fs_nextToken s)) (fs_transactions s @ [(?k, t)])"
  proof -
    have o: "txs_ok (fs_limits s) ?h (Suc (fs_next s)) (Suc (fs_nextToken s)) (fs_transactions s)"
      using assms(1) txs_evolve [OF _ ev, where tok = "fs_nextToken s"] by (simp add: fs_ok_def)
    have "aw_entry u < fs_next s" if "(k, u) \<in> set (fs_transactions s)" for k u
      using assms(1) that by (auto simp: fs_ok_def txs_ok_def tx_ok_def)
    then have "fs_next s \<notin> (aw_entry \<circ> snd) ` set (fs_transactions s)" by fastforce
    then show ?thesis using o assms \<open>?k \<notin> _\<close> by (auto simp: txs_ok_def tx_ok_def)
  qed
  moreover have "files_ok (fs_limits s) ?h (Suc (fs_next s)) (Suc (fs_nextToken s)) (fs_files s)"
    using assms(1) files_evolve [OF _ ev, where tok = "fs_nextToken s"] by (simp add: fs_ok_def)
  ultimately show ?thesis using assms(1,3) tables_evolve [OF _ ev]
    by (simp add: fs_ok_def nameless_def m)
qed

lemma wp_new_tx:
  assumes "fs_ok s" "length (fs_transactions s) < maxOpenHandles (fs_limits s)" "\<not> fs_disposed s" "is_file e"
    "length (entry_data e) \<le> maxFileBytes (fs_limits s)"
    "\<And>k b. aw_token (t k b) = k \<and> aw_entry (t k b) = b \<and> aw_authority (t k b) = p_authority (aw_path (t k b))"
    "\<And>c. E c s"
    "\<And>tok h n ts. fs_ok (s\<lparr>fs_nextToken := tok, fs_heap := h, fs_next := n, fs_transactions := ts\<rparr>) \<Longrightarrow>
       wp (g (Fs_atomic_write, fs_nextToken s) (fs_next s)) Q E (s\<lparr>fs_nextToken := tok, fs_heap := h, fs_next := n, fs_transactions := ts\<rparr>)"
  shows "wp (seqE (allocateProviderToken Fs_atomic_write) (\<lambda>token. seqE (alloc e) (\<lambda>b.
      seqE (modify (\<lambda>s. s\<lparr>fs_transactions := map_set token (t token b) (fs_transactions s)\<rparr>)) (\<lambda>_. g token b)))) Q E s"
proof -
  let ?k = "(Fs_atomic_write, fs_nextToken s)"
  have "fs_ok (s\<lparr>fs_nextToken := Suc (fs_nextToken s), fs_heap := (fs_heap s)(fs_next s := e), fs_next := Suc (fs_next s),
     fs_transactions := map_set ?k (t ?k (fs_next s)) (fs_transactions s)\<rparr>)"
    using assms(6) [of ?k "fs_next s"] by (intro fs_ok_new_tx assms(1-5)) simp_all
  from assms(8) [OF this] assms(7) show ?thesis
    by (intro wp_seq wp_allocateProviderToken wp_alloc wp_modify) simp_all
qed

text \<open>A transaction changed in place, which does not start again.\<close>

lemma fs_ok_adjust:
  assumes "fs_ok s"
    "\<And>t. aw_entry (f t) = aw_entry t \<and> aw_token (f t) = aw_token t \<and> aw_authority (f t) = aw_authority t \<and> aw_path (f t) = aw_path t"
    "\<And>t. map_of (fs_transactions s) k = Some t \<Longrightarrow> isActiveTransaction (f t) \<Longrightarrow> isActiveTransaction t"
  shows "fs_ok (adjust_transaction k f s)"
proof -
  have d: "distinct (map fst (fs_transactions s))" using assms(1) by (simp add: fs_ok_def txs_ok_def)
  have "pending (map_adjust k f (fs_transactions s)) \<subseteq> pending (fs_transactions s)"
  proof
    fix b assume "b \<in> pending (map_adjust k f (fs_transactions s))"
    then obtain k' t where t: "(k', t) \<in> set (fs_transactions s)" "b = aw_entry t"
      "isActiveTransaction (if k' = k then f t else t)"
      using assms(2) by (auto simp: pending_def map_adjust_def split: if_splits)
    then have "isActiveTransaction t" using d assms(3) map_of_is_SomeI [of "fs_transactions s" k' t] by (auto split: if_splits)
    then show "b \<in> pending (fs_transactions s)" using t by (force simp: pending_def)
  qed
  then have "nameless (adjust_transaction k f s) \<subseteq> nameless s" by (auto simp: nameless_def adjust_transaction_def)
  moreover have "txs_ok (fs_limits s) (fs_heap s) (fs_next s) (fs_nextToken s) (map_adjust k f (fs_transactions s))"
  proof -
    have "map (aw_entry \<circ> snd) (map_adjust k f (fs_transactions s)) = map (aw_entry \<circ> snd) (fs_transactions s)"
      using assms(2) by (auto simp: map_adjust_def)
    moreover have "\<forall>(k', t) \<in> set (map_adjust k f (fs_transactions s)). tx_ok (fs_heap s) (fs_next s) (fs_nextToken s) k' t"
      using assms(1,2) by (auto simp: fs_ok_def txs_ok_def tx_ok_def map_adjust_def)
    ultimately show ?thesis using assms(1) by (simp add: fs_ok_def txs_ok_def)
  qed
  ultimately show ?thesis using assms(1) links_ok_mono
    by (auto simp: fs_ok_def adjust_transaction_def map_adjust_def)
qed

lemma fs_ok_calls: "fs_ok s \<Longrightarrow> fs_ok (s\<lparr>fs_transactionByCallToken := m\<rparr>)"
  by (simp add: fs_ok_def nameless_def)

lemma wp_track [wp_rules]:
  assumes "fs_ok s" "\<And>ts m. fs_ok (s\<lparr>fs_transactions := ts, fs_transactionByCallToken := m\<rparr>) \<Longrightarrow>
      ts = map_adjust (aw_token t) (\<lambda>t. t\<lparr>aw_callTokens := (if c \<in> set (aw_callTokens t) then aw_callTokens t else aw_callTokens t @ [c])\<rparr>)
        (fs_transactions s) \<Longrightarrow> Q () (s\<lparr>fs_transactions := ts, fs_transactionByCallToken := m\<rparr>)"
  shows "wp (trackTransactionCall t c) Q E s"
proof -
  let ?f = "\<lambda>t. t\<lparr>aw_callTokens := (if c \<in> set (aw_callTokens t) then aw_callTokens t else aw_callTokens t @ [c])\<rparr>"
  have "fs_ok (adjust_transaction (aw_token t) ?f s)"
    by (intro fs_ok_adjust assms(1)) (simp_all add: isActiveTransaction_def)
  then have "fs_ok (s\<lparr>fs_transactions := map_adjust (aw_token t) ?f (fs_transactions s),
      fs_transactionByCallToken := map_set c (aw_token t) (fs_transactionByCallToken s)\<rparr>)"
    unfolding adjust_transaction_def by (rule fs_ok_calls)
  from assms(2) [OF this refl] show ?thesis
    unfolding trackTransactionCall_def by (intro wp_modify) (simp add: adjust_transaction_def)
qed

lemma fs_ok_clear: "fs_ok s \<Longrightarrow> fs_ok (clearTransactionCalls t s)"
  unfolding clearTransactionCalls_def by (intro fs_ok_adjust fs_ok_calls) (simp_all add: isActiveTransaction_def)

lemma fs_ok_abort:
  assumes "fs_ok s" "map_of (fs_transactions s) k = Some t"
  shows "fs_ok (abortTransaction t s)"
proof (cases "isActiveTransaction t")
  case True
  have t: "aw_token t = k" "aw_entry t < fs_next s" "is_file (fs_heap s (aw_entry t))"
    using assms by (auto simp: fs_ok_def txs_ok_def tx_ok_def dest!: map_of_SomeD)
  have "fs_ok (adjust_transaction (aw_token t) (\<lambda>t. t\<lparr>aw_state := Aborted\<rparr>) s)" (is "fs_ok ?s")
    by (intro fs_ok_adjust assms(1)) (simp_all add: isActiveTransaction_def)
  moreover have "fs_heap ?s = fs_heap s" by (simp add: adjust_transaction_def)
  ultimately have "fs_ok (?s\<lparr>fs_heap := (fs_heap ?s)(aw_entry t := (fs_heap ?s (aw_entry t))\<lparr>e_kind := File []\<rparr>)\<rparr>)"
    using t(3) file_entry [OF t(3)] by (intro fs_ok_update) (simp_all add: same_kind_def)
  then show ?thesis using True fs_ok_clear by (simp add: abortTransaction_def \<open>fs_heap ?s = fs_heap s\<close>)
next
  case False
  then show ?thesis using assms by (simp add: abortTransaction_def)
qed

lemma fs_ok_drop_tx: "fs_ok s \<Longrightarrow> fs_ok (s\<lparr>fs_transactions := map_delete k (fs_transactions s)\<rparr>)"
proof -
  assume a: "fs_ok s"
  have "nameless (s\<lparr>fs_transactions := map_delete k (fs_transactions s)\<rparr>) \<subseteq> nameless s"
    by (auto simp: nameless_def pending_def map_delete_def)
  moreover have "txs_ok (fs_limits s) (fs_heap s) (fs_next s) (fs_nextToken s) (map_delete k (fs_transactions s))"
    using a by (auto simp: fs_ok_def txs_ok_def map_delete_def distinct_map_filter intro: le_trans [OF length_filter_le])
  ultimately show ?thesis using a links_ok_mono by (auto simp: fs_ok_def map_delete_def)
qed

lemma fs_ok_release: "fs_ok s \<Longrightarrow> fs_ok (releaseTransaction t s)"
  unfolding releaseTransaction_def Let_def by (intro fs_ok_drop_tx fs_ok_clear)

section \<open>The commit\<close>

lemma fs_ok_commit:
  assumes "fs_ok s" "map_of (fs_transactions s) k = Some t" "is_directory (fs_heap s d)" "room (fs_limits s) (fs_heap s d) m"
    "isActiveTransaction t"
  shows "fs_ok (s\<lparr>fs_transactions := map_adjust k (\<lambda>t. t\<lparr>aw_state := Committed\<rparr>) (fs_transactions s),
     fs_heap := (fs_heap s)(d := set_child m (aw_entry t) (fs_heap s d))\<rparr>)"
proof -
  let ?g = "\<lambda>t. t\<lparr>aw_state := Committed\<rparr>"
  let ?s = "adjust_transaction k ?g s"
  have ok: "fs_ok ?s" by (intro fs_ok_adjust assms(1)) (simp_all add: isActiveTransaction_def)
  have m: "(k, t) \<in> set (fs_transactions s)" using assms(2) by (rule map_of_SomeD)
  then have t: "aw_entry t < fs_next s" "is_file (fs_heap s (aw_entry t))" "aw_entry t \<in> nameless s"
    using assms(1,5) by (auto simp: fs_ok_def txs_ok_def tx_ok_def nameless_def pending_def; force)+
  have "unlinked (fs_heap s) (fs_next s) (aw_entry t)" using fs_ok_links [OF assms(1)] t(3) by (simp add: links_ok_def)
  moreover have "aw_entry t \<notin> nameless ?s"
  proof
    assume "aw_entry t \<in> nameless ?s"
    then consider "aw_entry t \<in> snd ` set (fs_roots s)"
      | k' u where "(k', u) \<in> set (fs_transactions s)" "aw_entry u = aw_entry t" "k' \<noteq> k"
      by (auto simp: nameless_def adjust_transaction_def pending_def map_adjust_def isActiveTransaction_def split: if_splits)
    then show False
    proof cases
      case 1
      then show ?thesis using assms(1) file_entry [OF t(2)] by (auto simp: fs_ok_def roots_ok_def)
    next
      case 2
      have "inj_on (aw_entry \<circ> snd) (set (fs_transactions s))" "distinct (fs_transactions s)"
        using assms(1) by (simp_all add: fs_ok_def txs_ok_def distinct_map)
      then have "(k', u) = (k, t)" using 2(1,2) m unfolding inj_on_def by force
      then show ?thesis using 2(3) by simp
    qed
  qed
  ultimately have "nameable ?s (aw_entry t)" using t(1) by (simp add: nameable_def adjust_transaction_def)
  then have "fs_ok (?s\<lparr>fs_heap := (fs_heap ?s)(d := set_child m (aw_entry t) (fs_heap ?s d))\<rparr>)"
    using assms(3,4) by (intro fs_ok_set_child ok) (simp_all add: adjust_transaction_def)
  then show ?thesis by (simp add: adjust_transaction_def)
qed

lemma wp_commit:
  assumes "fs_ok s" "\<exists>t. map_of (fs_transactions s) k = Some t \<and> isActiveTransaction t \<and> b = aw_entry t"
    "is_directory (fs_heap s d)" "room (fs_limits s) (fs_heap s d) m" "\<And>e. children (f e) = children e \<and> entry_data (f e) = entry_data e \<and> same_kind e (f e)"
    "\<And>h ts. fs_ok (s\<lparr>fs_transactions := ts, fs_heap := h\<rparr>) \<Longrightarrow> wp (g ()) Q E (s\<lparr>fs_transactions := ts, fs_heap := h\<rparr>)"
  shows "wp (seqE (update_entry d (set_child m b)) (\<lambda>_. seqE (update_entry b f) (\<lambda>_.
      seqE (modify (adjust_transaction k (\<lambda>t. t\<lparr>aw_state := Committed\<rparr>))) g))) Q E s"
proof (intro wp_seq wp_update_entry wp_modify)
  obtain t where t: "map_of (fs_transactions s) k = Some t" "isActiveTransaction t" "b = aw_entry t" using assms(2) by blast
  let ?h = "(fs_heap s)(d := set_child m b (fs_heap s d))" and ?g = "\<lambda>t. t\<lparr>aw_state := Committed\<rparr>"
  have c: "fs_ok (s\<lparr>fs_transactions := map_adjust k ?g (fs_transactions s), fs_heap := ?h\<rparr>)" (is "fs_ok ?s")
    using fs_ok_commit [OF assms(1) t(1) assms(3,4) t(2)] t(3) by simp
  have "fs_ok (?s\<lparr>fs_heap := (fs_heap ?s)(b := f (fs_heap ?s b))\<rparr>)"
    using assms(5) by (intro fs_ok_update c) simp_all
  then have w: "fs_ok (s\<lparr>fs_transactions := map_adjust k ?g (fs_transactions s), fs_heap := ?h(b := f (?h b))\<rparr>)" by simp
  have "adjust_transaction k ?g (s\<lparr>fs_heap := ?h, fs_heap := (fs_heap (s\<lparr>fs_heap := ?h\<rparr>))(b := f (fs_heap (s\<lparr>fs_heap := ?h\<rparr>) b))\<rparr>) =
      s\<lparr>fs_transactions := map_adjust k ?g (fs_transactions s), fs_heap := ?h(b := f (?h b))\<rparr>"
    by (simp add: adjust_transaction_def)
  then show "wp (g ()) Q E (adjust_transaction k ?g (s\<lparr>fs_heap := ?h,
      fs_heap := (fs_heap (s\<lparr>fs_heap := ?h\<rparr>))(b := f (fs_heap (s\<lparr>fs_heap := ?h\<rparr>) b))\<rparr>))"
    using assms(6) [OF w] by (simp only:)
qed

lemma atomicWriteResource_found:
  "atomicWriteResource args ctx a s = Inr t \<Longrightarrow> map_of (fs_transactions s) (aw_token t) = Some t \<and> isActiveTransaction t"
  by (auto simp: atomicWriteResource_def split: list.splits option.splits if_splits sum.splits)

lemma wp_atomicWriteResource:
  assumes "fs_ok s" "\<And>e. E e s"
    "\<And>t. map_of (fs_transactions s) (aw_token t) = Some t \<Longrightarrow> isActiveTransaction t \<Longrightarrow> is_file (fs_heap s (aw_entry t)) \<Longrightarrow>
       atomicWriteResource args ctx a s = Inr t \<Longrightarrow> Q t s"
  shows "wp (liftE (atomicWriteResource args ctx a s)) Q E s"
proof (rule wp_liftE)
  fix t assume t: "atomicWriteResource args ctx a s = Inr t"
  note f = atomicWriteResource_found [OF t]
  then have "is_file (fs_heap s (aw_entry t))"
    using assms(1) by (auto simp: fs_ok_def txs_ok_def tx_ok_def dest!: map_of_SomeD)
  then show "Q t s" using assms(3) f t by blast
qed (rule assms(2))

lemma fileResource_found: "fileResource args ctx a p s = Inr (k, r) \<Longrightarrow> map_of (fs_files s) k = Some r"
  by (auto simp: fileResource_def split: option.splits if_splits sum.splits)

lemma wp_fileResource:
  assumes "fs_ok s" "\<And>e. E e s"
    "\<And>k r. map_of (fs_files s) k = Some r \<Longrightarrow> length (entry_data (fs_heap s (fr_entry r))) \<le> maxFileBytes (fs_limits s) \<Longrightarrow>
       fileResource args ctx a p s = Inr (k, r) \<Longrightarrow> Q (k, r) s"
  shows "wp (liftE (fileResource args ctx a p s)) Q E s"
proof (rule wp_liftE)
  fix x assume x: "fileResource args ctx a p s = Inr x"
  obtain k r where kr: "x = (k, r)" by fastforce
  have f: "map_of (fs_files s) k = Some r" using fileResource_found x kr by simp
  then have "fr_entry r < fs_next s" using assms(1) by (auto simp: fs_ok_def files_ok_def file_ok_def dest!: map_of_SomeD)
  then have "length (entry_data (fs_heap s (fr_entry r))) \<le> maxFileBytes (fs_limits s)"
    using fs_ok_links [OF assms(1)] by (simp add: links_ok_def nodes_ok_def node_ok_def)
  then show "Q x s" using assms(3) f x kr by blast
qed (rule assms(2))

lemma wp_writing:
  assumes "fs_ok s" "\<exists>t. map_of (fs_transactions s) k = Some t \<and> isActiveTransaction t"
    "\<And>ts. fs_ok (s\<lparr>fs_transactions := ts\<rparr>) \<Longrightarrow> Q () (s\<lparr>fs_transactions := ts\<rparr>)"
  shows "wp (modify (adjust_transaction k (\<lambda>t. t\<lparr>aw_state := Tx_writing\<rparr>))) Q E s"
proof -
  have "fs_ok (adjust_transaction k (\<lambda>t. t\<lparr>aw_state := Tx_writing\<rparr>) s)"
    using assms(2) by (intro fs_ok_adjust assms(1)) auto
  then show ?thesis using assms(3) unfolding adjust_transaction_def by (intro wp_modify)
qed

lemma fs_ok_offset: "fs_ok s \<Longrightarrow> fs_ok (s\<lparr>fs_files := map_adjust k (\<lambda>r. r\<lparr>fr_offset := n\<rparr>) (fs_files s)\<rparr>)"
proof -
  assume a: "fs_ok s"
  have "files_ok (fs_limits s) (fs_heap s) (fs_next s) (fs_nextToken s) (map_adjust k (\<lambda>r. r\<lparr>fr_offset := n\<rparr>) (fs_files s))"
    using a by (auto simp: fs_ok_def files_ok_def file_ok_def map_adjust_def comp_def case_prod_beta)
  then show ?thesis using a by (auto simp: fs_ok_def nameless_def map_adjust_def)
qed

lemma wp_offset:
  assumes "fs_ok s" "\<And>fl. fs_ok (s\<lparr>fs_files := fl\<rparr>) \<Longrightarrow> Q () (s\<lparr>fs_files := fl\<rparr>)"
  shows "wp (modify (\<lambda>s. s\<lparr>fs_files := map_adjust k (\<lambda>r. r\<lparr>fr_offset := n\<rparr>) (fs_files s)\<rparr>)) Q E s"
  using assms(2) [OF fs_ok_offset [OF assms(1)]] by (intro wp_modify)

text \<open>Rules for several steps at once, which come before those for one step.\<close>

lemmas wp_steps = wp_move wp_new_file wp_new_tx wp_commit wp_set_child wp_delete_child wp_offset wp_writing
  wp_atomicWriteResource wp_fileResource

section \<open>The operations\<close>

lemma wp_post: "wp m Q' E' s \<Longrightarrow> (\<And>x s. Q' x s \<Longrightarrow> Q x s) \<Longrightarrow> (\<And>e s. E' e s \<Longrightarrow> E e s) \<Longrightarrow> wp m Q E s"
  by (auto simp: wp_def split: prod.splits sum.splits)

abbreviation preserves :: "'a fs_op \<Rightarrow> bool" where
  "preserves m \<equiv> (\<forall>s. fs_ok s \<and> \<not> fs_disposed s \<longrightarrow> wp m (\<lambda>_. fs_ok) (\<lambda>_. fs_ok) s)"

lemma preservesI: "(\<And>s. fs_ok s \<Longrightarrow> \<not> fs_disposed s \<Longrightarrow> wp m (\<lambda>_. fs_ok) (\<lambda>_. fs_ok) s) \<Longrightarrow> preserves m"
  by blast

lemma preserve_queries:
  "preserves (access args a)" "preserves (stat args a f)" "preserves (readdir le args a)"
  "preserves (readlink args a)" "preserves (realpath args a)"
  unfolding access_def stat_def readdir_def readlink_def realpath_def
  by (intro preservesI; (rule wp_rules | assumption)+)+

lemma preserve_chmod: "preserves (chmod args a)"
  unfolding chmod_def by (intro preservesI wp_rules) (simp_all add: same_kind_def)

lemma preserve_symlink: "preserves (symlink args a)"
  unfolding symlink_def by (intro preservesI wp_set_child wp_rules) (simp_all add: grows_def)

lemma preserve_rm: "preserves (rm args a)"
  unfolding rm_def by (intro preservesI wp_delete_child wp_rules) simp_all

lemma preserve_rename: "preserves (rename args a)"
  unfolding rename_def by (intro preservesI wp_steps wp_rules) (simp_all add: grows_def)

lemma preserve_copy: "preserves (copy args a)"
  unfolding copy_def by (intro preservesI wp_steps wp_rules) (simp_all add: grows_def)

lemma preserve_open: "preserves (open_file args a c)"
  unfolding open_file_def
  by (intro preservesI wp_try wp_test wp_steps wp_rules, simp_all add: grows_def same_kind_def file_entry)
     (auto simp: file_ok_def dest!: parseOpenFlags_consistent)

lemma preserve_mkdir_loop:
  "fs_ok s \<Longrightarrow> \<not> fs_disposed s \<Longrightarrow> current < fs_next s \<Longrightarrow> is_directory (fs_heap s current) \<Longrightarrow>
   wp (mkdir_loop auth mode recursive current created done segs) (\<lambda>_ s'. fs_ok s' \<and> \<not> fs_disposed s') (\<lambda>_. fs_ok) s"
proof (induction segs arbitrary: s current created "done")
  case Nil
  then show ?case by (simp add: wp_def ret_def)
next
  case (Cons name rest)
  have "map_of (children (fs_heap s current)) name = Some b \<Longrightarrow> b < fs_next s" for b
    using child_allocated fs_ok_links [OF Cons.prems(1)] Cons.prems(3) by (auto simp: links_ok_def)
  then show ?case unfolding mkdir_loop.simps
    by (intro wp_steps wp_rules) (use Cons in simp_all)
qed

lemma preserve_mkdir: "preserves (mkdir args a)"
  unfolding mkdir_def by (intro preservesI wp_rules preserve_mkdir_loop [THEN wp_post]) (simp_all add: grows_def)

lemma preserve_begin: "preserves (beginAtomicWrite args ctx a request)"
  unfolding beginAtomicWrite_def Let_def by (intro preservesI wp_steps wp_rules) (simp_all add: grows_def)

lemma preserve_chunk: "preserves (writeAtomicChunk args ctx a request)"
  unfolding writeAtomicChunk_def
  by (intro preservesI wp_steps wp_rules)
     (simp_all add: file_entry same_kind_def map_of_map_adjust isActiveTransaction_def)

lemma preserve_commit: "preserves (commitAtomicWrite args ctx a request)"
  unfolding commitAtomicWrite_def Let_def
  by (intro preservesI wp_steps wp_rules)
     (simp_all add: grows_def map_of_map_adjust isActiveTransaction_def same_kind_def)

lemma preserve_reads:
  "preserves (handleRead args ctx a)" "preserves (handleStat args ctx a)" "preserves (handleSync args ctx a)"
  unfolding handleRead_def handleStat_def handleSync_def
  by (intro preservesI; (rule wp_steps | rule wp_rules | assumption)+)+

lemma length_write_at [simp]: "length (write_at old start bs) = max (start + length bs) (length old)"
  by (auto simp: write_at_def Let_def)

lemma preserve_write: "preserves (handleWrite args ctx a request)"
  unfolding handleWrite_def
  by (intro preservesI wp_steps wp_rules) (simp_all add: file_entry same_kind_def)

lemmas preserve_operations = preserve_queries preserve_chmod preserve_symlink preserve_rm preserve_rename preserve_copy
  preserve_open preserve_mkdir preserve_begin preserve_chunk preserve_commit preserve_reads preserve_write

lemma preserve_execute: "preserves (execute le request args ctx a)"
  unfolding execute_def
  by (cases "rq_operation request") (simp_all add: wp_fs_fail preserve_operations)

section \<open>Streams and the entry points\<close>

lemma ball_map_set: "\<forall>v \<in> snd ` set m. P v \<Longrightarrow> P w \<Longrightarrow> \<forall>v \<in> snd ` set (map_set k w m). P v"
  using set_map_set [of k w m] by force

lemma wp_open_stream:
  assumes "fs_ok s" "\<not> fs_disposed s" "sr_file st < fs_next s" "is_file (fs_heap s (sr_file st))"
    "0 < sr_chunkSize st" "sr_chunkSize st \<le> maxChunkBytes (fs_limits s)"
  shows "wp (modify (\<lambda>s. s\<lparr>fs_streams := map_set c st (fs_streams s)\<rparr>)) (\<lambda>_. fs_ok) E s"
proof -
  have "streams_ok (fs_limits s) (fs_heap s) (fs_next s) (map_set c st (fs_streams s))"
    unfolding streams_ok_def
    using assms by (intro conjI distinct_map_set ball_map_set) (simp_all add: fs_ok_def streams_ok_def)
  then show ?thesis using assms(1,2) by (intro wp_modify) (simp add: fs_ok_def nameless_def)
qed

lemma wp_open_watcher:
  assumes "fs_ok s" "\<not> fs_disposed s" "wr_credits w = 0" "wr_events w = []"
  shows "wp (modify (\<lambda>s. s\<lparr>fs_watchers := map_set c w (fs_watchers s)\<rparr>)) (\<lambda>_. fs_ok) E s"
proof -
  have "watchers_ok (fs_limits s) (map_set c w (fs_watchers s))"
    unfolding watchers_ok_def
    using assms by (intro conjI distinct_map_set ball_map_set) (simp_all add: fs_ok_def watchers_ok_def)
  then show ?thesis using assms(1,2) by (intro wp_modify) (simp add: fs_ok_def nameless_def)
qed

lemma preserve_openReadStream: "preserves (openReadStream request args ctx a)"
  unfolding openReadStream_def by (intro preservesI wp_test wp_open_stream wp_rules) simp_all

lemma preserve_openWatcher: "preserves (openWatcher request args ctx a)"
  unfolding openWatcher_def by (intro preservesI wp_open_watcher wp_rules) simp_all

lemma fs_ok_emit [simp]: "fs_ok (emit ev s) = fs_ok s"
  by (simp add: fs_ok_def emit_def nameless_def)

lemma fs_ok_now [simp]: "fs_ok (s\<lparr>fs_now := t\<rparr>) = fs_ok s"
  by (simp add: fs_ok_def nameless_def)

lemma fs_ok_dispatch: "fs_ok s \<Longrightarrow> fs_ok (dispatch le t request ctx s)"
proof (cases "fs_disposed s")
  case False
  assume ok: "fs_ok s"
  have "preserves (dispatch_body le request ctx)"
    unfolding dispatch_body_def
    by (intro preservesI preserve_openReadStream [rule_format] preserve_openWatcher [rule_format]
        preserve_execute [rule_format, THEN wp_post] wp_rules) simp_all
  then have "fs_ok (snd (dispatch_body le request ctx (s\<lparr>fs_now := t\<rparr>)))"
    using False ok by (intro wp_snd [where I = fs_ok]) simp
  then show ?thesis using False by (auto simp: dispatch_def split: prod.split sum.split)
qed (simp add: dispatch_def)

lemma fs_ok_drop_stream: "fs_ok s \<Longrightarrow> fs_ok (s\<lparr>fs_streams := map_delete c (fs_streams s)\<rparr>)"
  by (auto simp: fs_ok_def streams_ok_def nameless_def map_delete_def distinct_map_filter)

lemma fs_ok_drop_watcher: "fs_ok s \<Longrightarrow> fs_ok (s\<lparr>fs_watchers := map_delete c (fs_watchers s)\<rparr>)"
  by (auto simp: fs_ok_def watchers_delete nameless_def) (simp add: map_delete_def)

lemma fs_ok_drop_file: "fs_ok s \<Longrightarrow> fs_ok (s\<lparr>fs_files := map_delete k (fs_files s)\<rparr>)"
proof -
  assume a: "fs_ok s"
  then have "files_ok (fs_limits s) (fs_heap s) (fs_next s) (fs_nextToken s) (map_delete k (fs_files s))"
    by (auto simp: fs_ok_def files_ok_def map_delete_def distinct_map_filter intro: le_trans [OF length_filter_le])
  then show ?thesis using a by (auto simp: fs_ok_def nameless_def map_delete_def)
qed

lemma fs_ok_cancel: "fs_ok s \<Longrightarrow> fs_ok (cancel c s)"
  using fs_ok_drop_watcher [OF fs_ok_drop_stream, of s c c]
  by (auto simp: cancel_def Let_def fs_ok_abort split: option.split)

lemma fs_ok_close: "fs_ok s \<Longrightarrow> fs_ok (closeResource owner token s)"
  by (auto simp: closeResource_def Let_def fs_ok_drop_file fs_ok_release fs_ok_abort split: option.split)

lemma fs_ok_stream_credits: "fs_ok s \<Longrightarrow> fs_ok (stream_credits n c s)"
proof (induction n c s rule: stream_credits.induct)
  case (2 n c s)
  have "fs_ok (s\<lparr>fs_streams := map_adjust c (\<lambda>st. st\<lparr>sr_cursor := x, sr_sequence := y st\<rparr>) (fs_streams s)\<rparr>)" for x y
    using 2(2) by (auto simp: fs_ok_def streams_ok_def nameless_def map_adjust_def comp_def case_prod_beta)
  then show ?case using 2 by (auto simp: Let_def fs_ok_drop_stream split: option.split)
qed simp

lemma fs_ok_grant: "fs_ok s \<Longrightarrow> fs_ok (grantCredits c credits s)"
proof -
  assume ok: "fs_ok s"
  have "fs_ok (flushWatcher c (s\<lparr>fs_watchers := map_adjust c (\<lambda>w. w\<lparr>wr_credits := wr_credits w + n\<rparr>) (fs_watchers s)\<rparr>))"
    if "map_of (fs_watchers s) c = Some w" for n w
  proof -
    have "length (wr_events w) \<le> maxWatchEvents (fs_limits s)"
      using ok that by (force simp: fs_ok_def watchers_ok_def dest: map_of_SomeD)
    then show ?thesis using that by (intro fs_ok_watch_change [OF ok] flushed_watchers) simp_all
  qed
  then show ?thesis using ok fs_ok_stream_credits by (auto simp: grantCredits_def split: jsnum.split option.split)
qed

lemma abort_frame [simp]:
  "fs_files (abortTransaction t s) = fs_files s" "fs_streams (abortTransaction t s) = fs_streams s"
  "fs_limits (abortTransaction t s) = fs_limits s" "fs_disposed (abortTransaction t s) = fs_disposed s"
  by (simp_all add: abortTransaction_def clearTransactionCalls_def adjust_transaction_def)

lemma abort_disposed: "abortTransaction t (s\<lparr>fs_disposed := b\<rparr>) = (abortTransaction t s)\<lparr>fs_disposed := b\<rparr>"
  by (simp add: abortTransaction_def clearTransactionCalls_def adjust_transaction_def)

lemma fs_ok_dispose: "fs_ok s \<Longrightarrow> fs_ok (dispose_port s)"
proof (cases "fs_disposed s")
  case False
  assume ok: "fs_ok s"
  let ?abort = "\<lambda>token s. case map_of (fs_transactions s) token of
     None \<Rightarrow> s | Some t \<Rightarrow> if isActiveTransaction t then abortTransaction t s else s"
  let ?I = "\<lambda>x. fs_ok (x\<lparr>fs_disposed := False\<rparr>) \<and> fs_files x = [] \<and> fs_streams x = [] \<and> fs_disposed x"
  have step: "?I (?abort k x)" if i: "?I x" for k x
  proof (cases "map_of (fs_transactions x) k")
    case (Some t)
    have "fs_ok (abortTransaction t (x\<lparr>fs_disposed := False\<rparr>))" using i Some by (intro fs_ok_abort) simp_all
    then show ?thesis using i Some by (simp add: abort_disposed)
  qed (use i in simp)
  have "?I x \<Longrightarrow> ?I (fold ?abort ks x)" for ks x
  proof (induction ks arbitrary: x)
    case (Cons k ks)
    show ?case using Cons.IH [OF step [OF Cons.prems, of k]] by simp
  qed simp
  moreover have "?I (s\<lparr>fs_disposed := True, fs_files := [], fs_streams := []\<rparr>)"
    using ok by (simp add: fs_ok_def files_ok_def streams_ok_def nameless_def)
  ultimately have "?I (fold ?abort ks (s\<lparr>fs_disposed := True, fs_files := [], fs_streams := []\<rparr>))" for ks by blast
  moreover have "fs_ok (x\<lparr>fs_transactionByCallToken := [], fs_transactions := [], fs_watchers := []\<rparr>)" if "?I x" for x
    using that links_ok_mono by (auto simp: fs_ok_def txs_ok_def watchers_ok_def nameless_def pending_def)
  ultimately show ?thesis using False by (simp add: dispose_port_def Let_def)
qed (simp add: dispose_port_def)

section \<open>Reachable states\<close>

datatype port_call = Dispatch int port_request dispatch_context | Cancel call_token | CloseResource call_token provider_token
  | GrantCredits call_token jsnum | Dispose

fun call_port :: "(jstring \<Rightarrow> jstring \<Rightarrow> bool) \<Rightarrow> port_call \<Rightarrow> fs \<Rightarrow> fs" where
  "call_port le (Dispatch t request ctx) s = dispatch le t request ctx s"
| "call_port le (Cancel c) s = cancel c s"
| "call_port le (CloseResource owner token) s = closeResource owner token s"
| "call_port le (GrantCredits c credits) s = grantCredits c credits s"
| "call_port le Dispose s = dispose_port s"

lemma fs_ok_new: "new_port authorities limits = Inr s \<Longrightarrow> fs_ok s"
  by (auto simp: new_port_def fs_ok_def links_ok_def nodes_ok_def single_names_def roots_ok_def files_ok_def txs_ok_def
      streams_ok_def watchers_ok_def nameless_def pending_def split: sum.splits)

lemma fs_ok_call: "fs_ok s \<Longrightarrow> fs_ok (call_port le c s)"
  by (cases c) (simp_all add: fs_ok_dispatch fs_ok_cancel fs_ok_close fs_ok_grant fs_ok_dispose)

lemma fs_ok_reachable: "new_port authorities limits = Inr s \<Longrightarrow> fs_ok (fold (call_port le) calls s)"
proof -
  assume n: "new_port authorities limits = Inr s"
  have "fs_ok s \<Longrightarrow> fs_ok (fold (call_port le) calls s)" for s
    by (induction calls arbitrary: s) (simp_all add: fs_ok_call)
  then show ?thesis using fs_ok_new [OF n] by blast
qed

end
