(* ===== verification/Fs_Properties.thy ===== *)
theory Fs_Properties
  imports Fs_Bounds
begin

text \<open>
  What the in-memory file system provider promises: its state stays well formed, paths are
  confined to the granted root, read-only authorities change nothing, disposal is final.
\<close>

section \<open>The state invariant\<close>

text \<open>C28: In every state that calls of the port reach from a new port, the state is well formed:
  directories have unique names and at most \<open>maxDirectoryEntries\<close> of them, files have at most
  \<open>maxFileBytes\<close>, every entry has at most one name and roots and pending atomic writes have none,
  at most \<open>maxOpenHandles\<close> files and as many transactions are open, tokens are unique, no watcher
  queues more than \<open>maxWatchEvents\<close> or keeps an event while it has credit, and a disposed port
  holds no resource.\<close>
theorem provider_state_is_well_formed:
  assumes "new_port authorities limits = Inr s"
  shows "fs_ok (fold (call_port le) calls s)"
  using assms by (rule fs_ok_reachable)

definition sample_authority :: fs_authority where
  "sample_authority = \<lparr>au_capabilities = [''host.fs.v1''], au_principal = ''app'',
     au_roots = [(Workspace, \<lparr>rg_rootId = ''root'', rg_permissions = [Metadata, Read, Write]\<rparr>)]\<rparr>"

definition small_limits :: fs_limits where
  "small_limits = \<lparr>maxChunkBytes = 4, maxDirectoryEntries = 4, maxEntries = 9, maxFileBytes = 9, maxOpenHandles = 2,
     maxTotalBytes = 20, maxWatchEvents = 2\<rparr>"

definition sample_port :: fs where
  "sample_port = \<lparr>fs_authorities = [(''app'', sample_authority)], fs_limits = small_limits,
     fs_heap = (\<lambda>_. new_file 0 0), fs_next = 0, fs_files = [],
     fs_roots = [], fs_streams = [], fs_transactionByCallToken = [], fs_transactions = [], fs_watchers = [],
     fs_disposed = False, fs_nextToken = 1, fs_now = 0, fs_events = []\<rparr>"

lemma new_sample: "new_port [sample_authority] small_limits = Inr sample_port"
  by (simp add: new_port_def createFsAuthorityRegistry_def sample_port_def sample_authority_def)

theorem provider_state_is_well_formed_witness:
  "fs_ok (fold (call_port (\<lambda>_ _. True)) [Cancel 1, GrantCredits 2 (Fin 3), Dispose] sample_port)"
  by (rule provider_state_is_well_formed [OF new_sample])

section \<open>Confinement\<close>

text \<open>C29: A path that resolves leads to an entry of the root the authority grants for the path's
  own name space, with the permission asked for: the answered path is in the same name space and
  its segments, walked from the granted root, give exactly that entry.  Symbolic links do not lead
  out.  Resolution changes at most one thing: it creates the root directory on first use.\<close>
theorem resolution_is_confined:
  assumes "resolve a path follow p hops s = (Inr (b, path'), s')"
  shows "\<exists>g r f. map_of (au_roots a) (p_authority path) = Some g \<and> p \<in> set (rg_permissions g) \<and>
    p_authority path' = p_authority path \<and> map_of (fs_roots s') (rg_rootId g) = Some r \<and> (follow \<longrightarrow> f) \<and>
    walk_segments (fs_heap s') f r (segments path') = Inr (Inl b) \<and>
    (s' = s \<or> map_of (fs_roots s) (rg_rootId g) = None \<and> s' = add_root g s)"
proof -
  from resolve_spec [OF assms] obtain g r f where "authorizeFsPath a path p = Inr g"
    "p_authority path' = p_authority path" "map_of (fs_roots s') (rg_rootId g) = Some r" "follow \<longrightarrow> f"
    "walk_segments (fs_heap s') f r (segments path') = Inr (Inl b)"
    "s' = s \<or> map_of (fs_roots s) (rg_rootId g) = None \<and> s' = add_root g s"
    unfolding resolved_in_def by (metis Inr_inject)
  then show ?thesis by (auto simp: authorizeFsPath_def split: option.splits if_splits)
qed

text \<open>A port with a link \<open>l\<close> to a directory \<open>d\<close> that holds a file \<open>f\<close>.\<close>

definition ws :: "string list \<Rightarrow> parsed_path" where
  "ws ns = \<lparr>p_authority = Workspace,
     href = js (''holonomy-fs://workspace/'' @ concat (map (\<lambda>n. n) ns)), segments = map js ns\<rparr>"

definition dir :: "(string \<times> addr) list \<Rightarrow> entry" where
  "dir cs = \<lparr>birthtimeMs = 0, ctimeMs = 0, mtimeMs = 0, e_mode = 511,
     e_kind = Directory (map (\<lambda>(n, a). (js n, a)) cs)\<rparr>"

definition linked_port :: fs where
  "linked_port = sample_port\<lparr>fs_next := 4, fs_roots := [(''root'', 0)],
     fs_heap := (fs_heap sample_port)(0 := dir [(''d'', 1), (''l'', 3)], 1 := dir [(''f'', 2)],
       2 := (new_file 0 0)\<lparr>e_kind := File [1, 2, 3]\<rparr>, 3 := (new_file 0 0)\<lparr>e_kind := Symlink (ws [''d''])\<rparr>)\<rparr>"

lemma linked_resolution:
  "fst (resolve sample_authority (ws [''l'', ''f'']) True Read 0 linked_port) = Inr (2, \<lparr>p_authority = Workspace,
     href = js ''holonomy-fs://workspace/d/f'', segments = [js ''d'', js ''f'']\<rparr>)"
  by code_simp

theorem resolution_is_confined_witness:
  "\<exists>g r f. map_of (au_roots sample_authority) (p_authority (ws [''l'', ''f''])) = Some g \<and> Read \<in> set (rg_permissions g) \<and>
    Workspace = p_authority (ws [''l'', ''f'']) \<and>
    map_of (fs_roots (snd (resolve sample_authority (ws [''l'', ''f'']) True Read 0 linked_port))) (rg_rootId g) = Some r \<and>
    (True \<longrightarrow> f) \<and>
    walk_segments (fs_heap (snd (resolve sample_authority (ws [''l'', ''f'']) True Read 0 linked_port))) f r [js ''d'', js ''f''] = Inr (Inl 2) \<and>
    (snd (resolve sample_authority (ws [''l'', ''f'']) True Read 0 linked_port) = linked_port \<or>
     map_of (fs_roots linked_port) (rg_rootId g) = None \<and>
     snd (resolve sample_authority (ws [''l'', ''f'']) True Read 0 linked_port) = add_root g linked_port)"
  using resolution_is_confined [of sample_authority "ws [''l'', ''f'']" True Read 0 linked_port 2] linked_resolution
  by (cases "resolve sample_authority (ws [''l'', ''f'']) True Read 0 linked_port") fastforce

section \<open>Read-only authorities\<close>

text \<open>C32: When the caller's authority grants write permission on no root, no request changes an
  entry of the store: every operation, on paths, open files, atomic writes, streams or watchers,
  leaves each existing entry with the same kind, content, mode and times.\<close>
theorem read_only_authority_changes_nothing:
  assumes "map_of (fs_authorities s) (cx_principal ctx) = Some a"
    "list_all (\<lambda>(_, g). Write \<notin> set (rg_permissions g)) (au_roots a)" "b < fs_next s"
  shows "fs_heap (dispatch le t request ctx s) b = fs_heap s b"
proof -
  have "read_only a" using assms(2) by (auto simp: read_only_def list_all_iff)
  then have "frozen s (dispatch le t request ctx s)" using assms(1) by (intro dispatch_frozen) simp
  then show ?thesis using assms(3) by (simp add: frozen_def)
qed

definition reader_authority :: fs_authority where
  "reader_authority = \<lparr>au_capabilities = [''host.fs.v1''], au_principal = ''reader'',
     au_roots = [(Workspace, \<lparr>rg_rootId = ''root'', rg_permissions = [Metadata, Read]\<rparr>)]\<rparr>"

interpretation reader: read_only_caller reader_authority
  by unfold_locales (simp add: read_only_def reader_authority_def)

definition sample_context :: "string \<Rightarrow> dispatch_context" where
  "sample_context p = \<lparr>cx_principal = p, cx_capabilities = [''host.fs.v1''], cx_callToken = 1, cx_resources = []\<rparr>"

definition fs_request :: "fs_operation \<Rightarrow> (string \<times> json) list \<Rightarrow> port_request" where
  "fs_request op args = \<lparr>rq_args = JObj args, rq_binary = None, rq_id = ''r'', rq_module = ''host.fs'', rq_operation = op\<rparr>"

theorem read_only_authority_changes_nothing_witness:
  "fs_heap (dispatch (\<lambda>_ _. True) 7 (fs_request Op_rm [(''path'', JStr (js ''holonomy-fs://workspace/d/f''))])
     (sample_context ''reader'') (linked_port\<lparr>fs_authorities := [(''reader'', reader_authority)]\<rparr>)) 2 =
   fs_heap (linked_port\<lparr>fs_authorities := [(''reader'', reader_authority)]\<rparr>) 2"
  by (rule read_only_authority_changes_nothing [where a = reader_authority])
     (simp_all add: linked_port_def sample_context_def reader_authority_def)

section \<open>Disposal\<close>

text \<open>C37: Disposal releases everything and is final: no file, transaction, stream or watcher is left, a
  request is answered with \<open>disposed\<close> and nothing else, and no later call changes the entries or
  opens anything.\<close>
theorem disposed_port_is_final:
  assumes "fs_ok s"
  shows "fs_files (dispose_port s) = [] \<and> fs_transactions (dispose_port s) = [] \<and> fs_streams (dispose_port s) = [] \<and>
    fs_watchers (dispose_port s) = [] \<and> fs_disposed (dispose_port s) \<and>
    dispatch le t request ctx (dispose_port s) = emit (Ev_error (rq_id request) Port_disposed) (dispose_port s) \<and>
    cancel c (dispose_port s) = dispose_port s \<and> closeResource c token (dispose_port s) = dispose_port s \<and>
    grantCredits c credits (dispose_port s) = dispose_port s \<and> dispose_port (dispose_port s) = dispose_port s"
proof -
  let ?d = "dispose_port s"
  have d: "fs_disposed ?d"
  proof (cases "fs_disposed s")
    case False
    have "fs_disposed (fold (\<lambda>token s. case map_of (fs_transactions s) token of
       None \<Rightarrow> s | Some t \<Rightarrow> if isActiveTransaction t then abortTransaction t s else s) ks x) = fs_disposed x" for ks x
      by (induction ks arbitrary: x) (auto split: option.split)
    then show ?thesis using False by (simp add: dispose_port_def Let_def)
  qed (simp add: dispose_port_def)
  then have e: "fs_files ?d = []" "fs_transactions ?d = []" "fs_streams ?d = []" "fs_watchers ?d = []"
    using fs_ok_dispose [OF assms] by (simp_all add: fs_ok_def)
  have "dispatch le t request ctx ?d = emit (Ev_error (rq_id request) Port_disposed) ?d" using d by (simp add: dispatch_def)
  moreover have "cancel c ?d = ?d" using e by (simp add: cancel_def map_delete_def Let_def split: option.split)
  moreover have "closeResource c token ?d = ?d" using e by (simp add: closeResource_def)
  moreover have "grantCredits c credits ?d = ?d" using e by (simp add: grantCredits_def split: jsnum.split)
  moreover have "dispose_port ?d = ?d" using d by (simp add: dispose_port_def [of ?d])
  ultimately show ?thesis using d e by blast
qed

theorem disposed_port_is_final_witness:
  "fs_disposed (dispose_port linked_port) \<and>
   dispatch (\<lambda>_ _. True) 7 (fs_request Op_stat []) (sample_context ''app'') (dispose_port linked_port) =
     emit (Ev_error ''r'' Port_disposed) (dispose_port linked_port)"
proof -
  have "fs_ok linked_port" by code_simp
  from disposed_port_is_final [OF this, of "\<lambda>_ _. True" 7 "fs_request Op_stat []" "sample_context ''app''" 1 "(Fs_file, 1)" "Fin 1"]
  show ?thesis by (simp add: fs_request_def)
qed

end
