(* ===== verification/Fs_Files.thy ===== *)
theory Fs_Files
  imports Fs_Properties
begin

text \<open>
  Files of the in-memory provider: what is written is read back, atomic writes appear as a whole,
  streams deliver the file in order.
\<close>

section \<open>Reading what was written\<close>

lemma nth_replaced:
  "start + length bs \<le> length d \<Longrightarrow> i < length d \<Longrightarrow>
   (take start d @ bs @ drop (start + length bs) d) ! i = (if start \<le> i \<and> i < start + length bs then bs ! (i - start) else d ! i)"
  by (auto simp: nth_append min_def)

lemma nth_write_at:
  assumes "i < length (write_at old start bs)"
  shows "write_at old start bs ! i =
    (if start \<le> i \<and> i < start + length bs then bs ! (i - start) else if i < length old then old ! i else 0)"
proof -
  define d where "d = old @ replicate (max (start + length bs) (length old) - length old) 0"
  have d: "length d = max (start + length bs) (length old)" "i < length d \<Longrightarrow> d ! i = (if i < length old then old ! i else 0)"
    by (simp_all add: d_def nth_append)
  have "write_at old start bs = take start d @ bs @ drop (start + length bs) d" by (simp add: write_at_def Let_def d_def)
  then show ?thesis using nth_replaced [of start bs d i] d assms by simp
qed

lemma read_write_at: "take (length bs) (drop start (write_at old start bs)) = bs"
  by (intro nth_equalityI) (auto simp: nth_write_at)

lemma fileResource_files: "fs_files s' = fs_files s \<Longrightarrow> fileResource args ctx a p s' = fileResource args ctx a p s"
  by (simp add: fileResource_def cong: option.case_cong)

lemma fileResource_permission:
  "fileResource args ctx a p s = Inr (k, r) \<Longrightarrow> fileResource args ctx a q s = Inr (k', r') \<Longrightarrow> (k', r') = (k, r)"
  by (auto simp: fileResource_def split: option.splits if_splits sum.splits)

lemma fileResource_mode:
  "fileResource args ctx a p s = Inr (k, r) \<Longrightarrow> (p = Read \<longrightarrow> fr_readable r) \<and> (p = Write \<longrightarrow> fr_writable r)"
  by (auto simp: fileResource_def split: option.splits if_splits sum.splits)

text \<open>What a successful write at a position does.\<close>

definition wrote :: "fs \<Rightarrow> addr \<Rightarrow> nat \<Rightarrow> byte list \<Rightarrow> fs \<Rightarrow> bool" where
  "wrote s e pos data s' \<longleftrightarrow>
     is_file (fs_heap s e) \<and> length data \<le> maxChunkBytes (fs_limits s) \<and> fs_limits s' = fs_limits s \<and>
     fs_files s' = fs_files s \<and> fs_heap s' = (fs_heap s)(e := (fs_heap s e)
       \<lparr>e_kind := File (write_at (entry_data (fs_heap s e)) pos data), mtimeMs := fs_now s\<rparr>)"

lemma handleWrite_spec:
  assumes "fs_ok s" "rq_binary request = Some [(''data'', Some data)]" "read args ''position'' \<noteq> Some JNull"
    "requireInteger (read args ''position'') None = Inr pos" "fileResource args ctx a Write s = Inr (k, r)" "\<not> fr_append r"
  shows "wp (handleWrite args ctx a request)
    (\<lambda>out s'. out = Plain (JObj [(''bytesWritten'', jnat (length data))]) \<and> wrote s (fr_entry r) pos data s') (\<lambda>_ _. True) s"
  unfolding handleWrite_def using assms
  by (intro wp_steps wp_rules) (simp_all add: file_entry same_kind_def wrote_def)

lemma handleRead_at:
  assumes "fileResource args ctx a Read s = Inr (k, r)" "is_file (fs_heap s (fr_entry r))" "read args ''position'' \<noteq> Some JNull"
    "requireInteger (read args ''position'') None = Inr pos" "requireInteger (read args ''length'') None = Inr n"
    "n \<le> maxChunkBytes (fs_limits s)"
  defines "bytes \<equiv> take n (drop pos (entry_data (fs_heap s (fr_entry r))))"
  shows "handleRead args ctx a s =
    (Inr (Rich (Some [(''data'', Some bytes)]) None (Some (JObj [(''bytesRead'', jnat (length bytes))]))), s)"
  using assms(1-6) fileResource_mode [OF assms(1)]
  by (simp add: handleRead_def seqE_def gets_def liftE_def when_fail_def ret_def Let_def bytes_def min_absorb1)

text \<open>C33: Bytes written to an open file at a position are read back from that position through the
  same handle.  The write answers the number of bytes, changes no entry but the file, and its other
  bytes are the old ones, with zeros where the file had ended before the position.\<close>
theorem written_bytes_are_read_back:
  assumes "fs_ok s" "handleWrite args ctx a request s = (Inr out, s')"
    "rq_binary request = Some [(''data'', Some data)]" "read args ''position'' \<noteq> Some JNull"
    "requireInteger (read args ''position'') None = Inr pos" "requireInteger (read args ''length'') None = Inr (length data)"
    "fileResource args ctx a Write s = Inr (k, r)" "fileResource args ctx a Read s = Inr (k, r)" "\<not> fr_append r"
  shows "handleRead args ctx a s' =
      (Inr (Rich (Some [(''data'', Some data)]) None (Some (JObj [(''bytesRead'', jnat (length data))]))), s') \<and>
    out = Plain (JObj [(''bytesWritten'', jnat (length data))]) \<and> (\<forall>b. b \<noteq> fr_entry r \<longrightarrow> fs_heap s' b = fs_heap s b) \<and>
    length (entry_data (fs_heap s' (fr_entry r))) = max (pos + length data) (length (entry_data (fs_heap s (fr_entry r)))) \<and>
    (\<forall>i < length (entry_data (fs_heap s' (fr_entry r))). i < pos \<or> pos + length data \<le> i \<longrightarrow>
       entry_data (fs_heap s' (fr_entry r)) ! i =
         (if i < length (entry_data (fs_heap s (fr_entry r))) then entry_data (fs_heap s (fr_entry r)) ! i else 0))"
proof -
  have w: "out = Plain (JObj [(''bytesWritten'', jnat (length data))])" "wrote s (fr_entry r) pos data s'"
    using wpD [OF handleWrite_spec [OF assms(1,3,4,5,7,9)] assms(2)] by simp_all
  have f: "fileResource args ctx a Read s' = Inr (k, r)"
    using w(2) assms(8) fileResource_files [of s' s] by (simp add: wrote_def)
  have d: "entry_data (fs_heap s' (fr_entry r)) = write_at (entry_data (fs_heap s (fr_entry r))) pos data"
    "is_file (fs_heap s' (fr_entry r))" "length data \<le> maxChunkBytes (fs_limits s')"
    using w(2) by (simp_all add: wrote_def)
  have "handleRead args ctx a s' =
      (Inr (Rich (Some [(''data'', Some data)]) None (Some (JObj [(''bytesRead'', jnat (length data))]))), s')"
    using handleRead_at [OF f d(2) assms(4,5,6) d(3)] by (simp add: d(1) read_write_at)
  moreover have "\<forall>b. b \<noteq> fr_entry r \<longrightarrow> fs_heap s' b = fs_heap s b" using w(2) by (simp add: wrote_def)
  ultimately show ?thesis using w(1) by (simp add: d(1) nth_write_at)
qed

text \<open>An open file of three bytes, of which two are overwritten.\<close>

definition open_port :: fs where
  "open_port = linked_port\<lparr>fs_files := [((Fs_file, 1), \<lparr>fr_append = False, fr_authority = Workspace, fr_entry = 2,
     fr_offset = 0, fr_owner = 5, fr_path = ws [''d'', ''f''], fr_readable = True, fr_rootId = ''root'', fr_writable = True\<rparr>)],
     fs_nextToken := 2\<rparr>"

definition handle_context :: dispatch_context where
  "handle_context = \<lparr>cx_principal = ''app'', cx_capabilities = [''host.fs.v1''], cx_callToken = 6,
     cx_resources = [\<lparr>rb_ownerCallToken = 5, rb_providerToken = (Fs_file, 1), rb_reference = JRef 0, rb_type = ''fs.file''\<rparr>]\<rparr>"

definition handle_args :: "(string \<times> json) list" where
  "handle_args = [(''handle'', JRef 0), (''position'', jnat 1), (''length'', jnat 2)]"

lemma open_port_ok: "fs_ok open_port"
  by code_simp

definition written_port :: fs where
  "written_port = snd (handleWrite handle_args handle_context sample_authority
     ((fs_request Op_handleWrite handle_args)\<lparr>rq_binary := Some [(''data'', Some [8, 9])]\<rparr>) open_port)"

theorem written_bytes_are_read_back_witness:
  "handleRead handle_args handle_context sample_authority written_port =
    (Inr (Rich (Some [(''data'', Some [8, 9])]) None (Some (JObj [(''bytesRead'', jnat 2)]))), written_port)"
proof -
  let ?rq = "(fs_request Op_handleWrite handle_args)\<lparr>rq_binary := Some [(''data'', Some [8, 9])]\<rparr>"
  have "fst (handleWrite handle_args handle_context sample_authority ?rq open_port) =
      Inr (Plain (JObj [(''bytesWritten'', jnat 2)]))" by code_simp
  then have w: "handleWrite handle_args handle_context sample_authority ?rq open_port =
      (Inr (Plain (JObj [(''bytesWritten'', jnat 2)])), written_port)"
    by (metis prod.collapse written_port_def)
  define r where "r = snd (hd (fs_files open_port))"
  have h: "requireInteger (read handle_args ''position'') None = Inr 1" "read handle_args ''position'' \<noteq> Some JNull"
    "requireInteger (read handle_args ''length'') None = Inr (length [8, 9 :: byte])" by code_simp+
  have f: "fileResource handle_args handle_context sample_authority Write open_port = Inr ((Fs_file, 1), r)"
    "fileResource handle_args handle_context sample_authority Read open_port = Inr ((Fs_file, 1), r)" "\<not> fr_append r"
    unfolding r_def by code_simp+
  show ?thesis
    using written_bytes_are_read_back [OF open_port_ok w _ h(2,1,3) f] by simp
qed

end
