(* ===== verification/Fs_Atomic.thy ===== *)
theory Fs_Atomic
  imports Fs_Files
begin

text \<open>
  Atomic writes: the chunks are collected in an entry that no path leads to, and the commit gives it
  its name in one step.
\<close>

section \<open>The transaction of a request\<close>

definition tables :: "(provider_token \<times> atomic_write) list \<Rightarrow> (call_token \<times> provider_token) list \<Rightarrow> fs \<Rightarrow> fs" where
  "tables ts m s = s\<lparr>fs_transactions := ts, fs_transactionByCallToken := m\<rparr>"

lemma root_tables: "root g (tables ts m s) = apsnd (tables ts m) (root g s)"
  by (simp add: root_cases add_root_def tables_def split: option.split)

lemma resolve_tables: "resolve a path follow p hops (tables ts m s) = apsnd (tables ts m) (resolve a path follow p hops s)"
proof (induction a path follow p hops s rule: resolve.induct)
  case (1 a path follow p hops s)
  show ?case
  proof (cases "authorizeFsPath a path p")
    case (Inl e)
    then show ?thesis by (simp add: resolve.simps)
  next
    case (Inr g)
    obtain r s1 where r1: "root g s = (Inr r, s1)"
      by (cases "map_of (fs_roots s) (rg_rootId g)") (auto simp: root_cases)
    have h: "fs_heap (tables ts m s1) = fs_heap s1" by (simp add: tables_def)
    note IH = 1 [OF Inr r1 [symmetric] refl]
    show ?thesis
      unfolding resolve.simps [of a path follow p hops] using Inr r1 IH
      by (auto simp: root_tables h split: sum.split prod.split)
  qed
qed

lemma heap_tables [simp]: "fs_heap (tables ts m s) = fs_heap s"
  by (simp add: tables_def)

lemma parent_tables: "parent a path p (tables ts m s) = apsnd (tables ts m) (parent a path p s)"
  by (auto simp: parent_def resolve_tables seqE_def fs_fail_def monad_defs split: prod.split sum.split)

lemma atomicWriteResource_again:
  assumes "atomicWriteResource args ctx a s = Inr t" "map_of (fs_transactions s') (aw_token t) = Some t'"
    "aw_token t' = aw_token t" "aw_owner t' = aw_owner t" "aw_authority t' = aw_authority t" "aw_path t' = aw_path t"
    "aw_principal t' = aw_principal t" "aw_rootId t' = aw_rootId t" "isActiveTransaction t'"
  shows "atomicWriteResource args ctx a s' = Inr t'"
  using assms by (auto simp: atomicWriteResource_def split: list.splits option.splits if_splits sum.splits)

text \<open>Writing: the transaction of a request collects \<open>data\<close> in the entry \<open>e\<close> for a path.\<close>

definition collecting ::
    "(string \<times> json) list \<Rightarrow> dispatch_context \<Rightarrow> fs_authority \<Rightarrow> addr \<Rightarrow> parsed_path \<Rightarrow> byte list \<Rightarrow> fs \<Rightarrow> bool" where
  "collecting args ctx a e path data s \<longleftrightarrow>
     fs_ok s \<and> \<not> fs_disposed s \<and> entry_data (fs_heap s e) = data \<and> is_file (fs_heap s e) \<and> unlinked (fs_heap s) (fs_next s) e \<and>
     (\<exists>t. atomicWriteResource args ctx a s = Inr t \<and> aw_entry t = e \<and> aw_path t = path)"

lemma collecting_start:
  assumes "fs_ok s" "\<not> fs_disposed s" "atomicWriteResource args ctx a s = Inr t"
  shows "collecting args ctx a (aw_entry t) (aw_path t) (entry_data (fs_heap s (aw_entry t))) s"
proof -
  have t: "map_of (fs_transactions s) (aw_token t) = Some t" "isActiveTransaction t"
    using atomicWriteResource_found [OF assms(3)] by auto
  then have "is_file (fs_heap s (aw_entry t))" "aw_entry t \<in> nameless s"
    using assms(1) by (auto simp: fs_ok_def txs_ok_def tx_ok_def nameless_def pending_def dest!: map_of_SomeD; force)+
  then show ?thesis using assms fs_ok_links [OF assms(1)] by (auto simp: collecting_def links_ok_def)
qed

definition chunk_data :: "port_request \<Rightarrow> byte list" where
  "chunk_data request = (case rq_binary request of Some [(_, Some d)] \<Rightarrow> d | _ \<Rightarrow> [])"

lemma wp_notify_any:
  assumes "\<And>ws ev. Q () (s\<lparr>fs_watchers := ws, fs_events := ev\<rparr>)"
  shows "wp (notifyWatchers op cs) Q E s"
proof -
  have "fst (notifyWatchers op cs s) = Inr ()" by (simp add: notifyWatchers_def modify_def)
  moreover obtain ws ev where "snd (notifyWatchers op cs s) = s\<lparr>fs_watchers := ws, fs_events := ev\<rparr>"
    using notifyWatchers_change [of s op cs] by (auto simp: watch_change_def)
  ultimately show ?thesis using assms by (auto simp: wp_def split: prod.split)
qed

text \<open>A chunk that is accepted.\<close>

lemma wp_both: "wp m Q E s \<Longrightarrow> wp m Q' E' s \<Longrightarrow> wp m (\<lambda>x s. Q x s \<and> Q' x s) (\<lambda>e s. E e s \<and> E' e s) s"
  by (simp add: wp_def split: prod.splits sum.splits)

lemma chunk_collects:
  assumes "collecting args ctx a e path data s"
  shows "wp (writeAtomicChunk args ctx a request) (\<lambda>_ s'. collecting args ctx a e path (data @ chunk_data request) s' \<and>
      fs_next s' = fs_next s \<and> (\<forall>b. b \<noteq> e \<longrightarrow> fs_heap s' b = fs_heap s b)) (\<lambda>_ _. True) s"
proof -
  obtain t where t: "atomicWriteResource args ctx a s = Inr t" "aw_entry t = e" "aw_path t = path"
    using assms by (auto simp: collecting_def)
  have ok: "fs_ok s" "\<not> fs_disposed s" using assms by (simp_all add: collecting_def)
  let ?g = "\<lambda>t. t\<lparr>aw_callTokens := (if cx_callToken ctx \<in> set (aw_callTokens t) then aw_callTokens t
      else aw_callTokens t @ [cx_callToken ctx]), aw_state := Tx_writing\<rparr>"
  have m: "map_of (fs_transactions s) (aw_token t) = Some t" using atomicWriteResource_found [OF t(1)] by simp
  have k: "wp (writeAtomicChunk args ctx a request) (\<lambda>_. fs_ok) (\<lambda>_. fs_ok) s"
    using ok by (simp add: preserve_chunk)
  have w: "wp (writeAtomicChunk args ctx a request) (\<lambda>_ s'. fs_next s' = fs_next s \<and> fs_disposed s' = fs_disposed s \<and>
      fs_heap s' = (fs_heap s)(e := (fs_heap s e)\<lparr>e_kind := File (data @ chunk_data request), mtimeMs := fs_now s\<rparr>) \<and>
      map_of (fs_transactions s') (aw_token t) = Some (?g t)) (\<lambda>_ _. True) s"
    unfolding writeAtomicChunk_def trackTransactionCall_def
    using t m assms
    by (intro wp_update_entry wp_rules)
       (simp_all add: chunk_data_def adjust_transaction_def map_of_map_adjust collecting_def)
  show ?thesis
  proof (rule wp_post [OF wp_both [OF k w]])
    fix x :: op_output and s'
    assume p: "fs_ok s' \<and> fs_next s' = fs_next s \<and> fs_disposed s' = fs_disposed s \<and>
      fs_heap s' = (fs_heap s)(e := (fs_heap s e)\<lparr>e_kind := File (data @ chunk_data request), mtimeMs := fs_now s\<rparr>) \<and>
      map_of (fs_transactions s') (aw_token t) = Some (?g t)"
    have "atomicWriteResource args ctx a s' = Inr (?g t)"
      using p by (intro atomicWriteResource_again [OF t(1)]) (simp_all add: isActiveTransaction_def)
    then have "collecting args ctx a (aw_entry (?g t)) (aw_path (?g t)) (entry_data (fs_heap s' (aw_entry (?g t)))) s'"
      using p ok(2) by (intro collecting_start) simp_all
    then show "collecting args ctx a e path (data @ chunk_data request) s' \<and> fs_next s' = fs_next s \<and>
        (\<forall>b. b \<noteq> e \<longrightarrow> fs_heap s' b = fs_heap s b)"
      using p t(2,3) by simp
  qed simp
qed

section \<open>The commit\<close>

fun write_chunks :: "(string \<times> json) list \<Rightarrow> dispatch_context \<Rightarrow> fs_authority \<Rightarrow> port_request list \<Rightarrow> unit fs_op" where
  "write_chunks args ctx a [] = ret ()"
| "write_chunks args ctx a (r # rs) = seqE (writeAtomicChunk args ctx a r) (\<lambda>_. write_chunks args ctx a rs)"

lemma chunks_collect:
  "collecting args ctx a e path data s \<Longrightarrow>
   wp (write_chunks args ctx a rs) (\<lambda>_ s'. collecting args ctx a e path (data @ concat (map chunk_data rs)) s' \<and>
      fs_next s' = fs_next s \<and> (\<forall>b. b \<noteq> e \<longrightarrow> fs_heap s' b = fs_heap s b)) (\<lambda>_ _. True) s"
proof (induction rs arbitrary: data s)
  case Nil
  then show ?case by (simp add: wp_def ret_def)
next
  case (Cons r rs)
  show ?case unfolding write_chunks.simps
  proof (rule wp_seq, rule wp_post [OF chunk_collects [OF Cons.prems]])
    fix x s'
    assume p: "collecting args ctx a e path (data @ chunk_data r) s' \<and> fs_next s' = fs_next s \<and>
      (\<forall>b. b \<noteq> e \<longrightarrow> fs_heap s' b = fs_heap s b)"
    then show "wp (write_chunks args ctx a rs) (\<lambda>_ s'. collecting args ctx a e path (data @ concat (map chunk_data (r # rs))) s' \<and>
      fs_next s' = fs_next s \<and> (\<forall>b. b \<noteq> e \<longrightarrow> fs_heap s' b = fs_heap s b)) (\<lambda>_ _. True) s'"
      using Cons.IH [of "data @ chunk_data r" s'] by (auto simp: wp_def split: prod.splits sum.splits)
  qed simp
qed

text \<open>What the commit installs, in terms of the parent directory of the path.\<close>

definition installed :: "fs_authority \<Rightarrow> addr \<Rightarrow> parsed_path \<Rightarrow> fs \<Rightarrow> fs \<Rightarrow> bool" where
  "installed a e path s s' \<longleftrightarrow>
     (\<exists>d name sp. parent a path Write s = (Inr d, sp) \<and> last_segment path = Some name \<and>
        map_of (children (fs_heap s' d)) = (map_of (children (fs_heap sp d)))(name \<mapsto> e) \<and>
        (\<forall>b. b \<noteq> d \<and> b \<noteq> e \<longrightarrow> fs_heap s' b = fs_heap sp b))"

lemma wp_parent_tables:
  assumes "fs_ok s" "\<And>e s'. E e s'"
    "\<And>d sp. parent a path p s = (Inr d, sp) \<Longrightarrow> is_directory (fs_heap sp d) \<Longrightarrow>
     (\<forall>b < fs_next s. fs_heap sp b = fs_heap s b) \<Longrightarrow> Q d (sp\<lparr>fs_transactions := ts, fs_transactionByCallToken := m\<rparr>)"
  shows "wp (parent a path p) Q E (s\<lparr>fs_transactions := ts, fs_transactionByCallToken := m\<rparr>)"
proof -
  have "wp (parent a path p) (\<lambda>d s'. is_directory (fs_heap s' d) \<and> (\<forall>b < fs_next s. fs_heap s' b = fs_heap s b)) (\<lambda>_ _. True) s"
    using assms(1) by (intro wp_parent) (simp_all add: grows_def)
  then show ?thesis using assms(2,3) unfolding tables_def [symmetric]
    by (auto simp: wp_def parent_tables split: prod.splits sum.splits)
qed

lemma commit_installs:
  assumes "collecting args ctx a e path data s"
  shows "wp (commitAtomicWrite args ctx a request) (\<lambda>out s'. out = Plain (JObj []) \<and> installed a e path s s' \<and>
      entry_data (fs_heap s' e) = data \<and> is_file (fs_heap s' e)) (\<lambda>_ _. True) s"
proof -
  obtain t where t: "atomicWriteResource args ctx a s = Inr t" "aw_entry t = e" "aw_path t = path"
    using assms by (auto simp: collecting_def)
  have ok: "fs_ok s" "entry_data (fs_heap s e) = data" "is_file (fs_heap s e)" using assms by (simp_all add: collecting_def)
  have lt: "e < fs_next s"
    using atomicWriteResource_found [OF t(1)] ok(1) t(2) by (auto simp: fs_ok_def txs_ok_def tx_ok_def dest!: map_of_SomeD)
  show ?thesis
    unfolding commitAtomicWrite_def Let_def
    using ok lt t
    by (intro wp_track wp_parent_tables wp_update_entry wp_notify_any wp_rules, simp_all)
       (auto simp: adjust_transaction_def installed_def children_set_child dest!: file_entry)
qed


definition writing_port :: fs where
  "writing_port = linked_port\<lparr>fs_next := 5, fs_nextToken := 2,
     fs_transactions := [((Fs_atomic_write, 1), \<lparr>aw_authority = Workspace, aw_callTokens = [5], aw_create = True, aw_entry = 4,
       aw_noFollow = False, aw_owner = 5, aw_path = ws [''d'', ''f''], aw_principal = ''app'', aw_rootId = ''root'',
       aw_state = Tx_open, aw_token = (Fs_atomic_write, 1)\<rparr>)],
     fs_transactionByCallToken := [(5, (Fs_atomic_write, 1))]\<rparr>"

definition write_context :: dispatch_context where
  "write_context = \<lparr>cx_principal = ''app'', cx_capabilities = [''host.fs.v1''], cx_callToken = 6,
     cx_resources = [\<lparr>rb_ownerCallToken = 5, rb_providerToken = (Fs_atomic_write, 1), rb_reference = JRef 0,
       rb_type = ''fs.atomic-write''\<rparr>]\<rparr>"

definition write_args :: "(string \<times> json) list" where
  "write_args = [(''transaction'', JRef 0)]"

definition chunk_request :: "byte list \<Rightarrow> port_request" where
  "chunk_request d = (fs_request Op_atomicWriteChunk write_args)\<lparr>rq_binary := Some [(''data'', Some d)]\<rparr>"

definition chunks_port :: fs where
  "chunks_port = snd (write_chunks write_args write_context sample_authority [chunk_request [7], chunk_request [8, 9]] writing_port)"

definition committed_port :: fs where
  "committed_port = snd (commitAtomicWrite write_args write_context sample_authority (fs_request Op_atomicWriteCommit write_args) chunks_port)"




end
