(* ===== verification/Fs_Streams.thy ===== *)
theory Fs_Streams
  imports Fs_Files
begin

text \<open>
  Renaming, read streams and the events of the in-memory file system provider.
\<close>

section \<open>Renaming\<close>

lemma wp_parent_eq: "parent a path p s = (Inr d, s') \<Longrightarrow> Q d s' \<Longrightarrow> wp (parent a path p) Q E s"
  by (simp add: wp_def)

lemma wp_liftE_eq: "r = Inr x \<Longrightarrow> Q x s \<Longrightarrow> wp (liftE r) Q E s"
  by (simp add: wp_def liftE_def)

lemma resolve_known_root:
  assumes "authorizeFsPath a path p = Inr g" "map_of (fs_roots s) (rg_rootId g) = Some r"
  shows "snd (resolve a path follow p hops s) = s"
  using resolve_spec [of a path follow p hops s] assms by (metis Inr_inject option.distinct(1) prod.collapse)

lemma parent_known_root:
  assumes "authorizeFsPath a path p = Inr g" "map_of (fs_roots s) (rg_rootId g) = Some r"
  shows "snd (parent a path p s) = s"
proof -
  have "authorizeFsPath a (path\<lparr>segments := butlast (segments path)\<rparr>) p = Inr g"
    using assms(1) by (simp add: authorizeFsPath_def)
  from resolve_known_root [OF this assms(2), of True 0] show ?thesis
    by (cases "resolve a (path\<lparr>segments := butlast (segments path)\<rparr>) True p 0 s")
       (auto simp: parent_def seqE_def fs_fail_def monad_defs split: sum.split)
qed

lemma wp_notify_frame:
  assumes "\<And>s'. fs_heap s' = fs_heap s \<Longrightarrow> Q () s'"
  shows "wp (notifyWatchers op cs) Q E s"
proof -
  have "fst (notifyWatchers op cs s) = Inr ()" by (simp add: notifyWatchers_def modify_def)
  then show ?thesis using assms notifyWatchers_frame(1) [of op cs s]
    by (cases "notifyWatchers op cs s") (auto simp: wp_def)
qed


definition rename_args :: "(string \<times> json) list" where
  "rename_args = [(''source'', JStr (js ''holonomy-fs://workspace/l/f'')), (''destination'', JStr (js ''holonomy-fs://workspace/d/f''))]"

lemma linked_root: "map_of (fs_roots linked_port) ''root'' = Some 0"
  by (simp add: linked_port_def)


section \<open>Read streams\<close>

function slices :: "nat \<Rightarrow> byte list \<Rightarrow> nat \<Rightarrow> nat \<Rightarrow> byte list list" where
  "slices k data cursor stop =
     (if cursor \<ge> stop \<or> k = 0 then []
      else take (min stop (cursor + k) - cursor) (drop cursor data) # slices k data (min stop (cursor + k)) stop)"
  by pat_completeness auto
termination by (relation "measure (\<lambda>(k, data, cursor, stop). stop - cursor)") auto

declare slices.simps [simp del]

lemma slices_partition:
  "0 < k \<Longrightarrow> stop \<le> length data \<Longrightarrow>
   concat (slices k data cursor stop) = take (stop - cursor) (drop cursor data) \<and>
   (\<forall>c \<in> set (slices k data cursor stop). c \<noteq> [] \<and> length c \<le> k)"
proof (induction k data cursor stop rule: slices.induct)
  case (1 k data cursor stop)
  show ?case
  proof (cases "cursor \<ge> stop")
    case True
    then show ?thesis by (simp add: slices.simps [of k data cursor stop])
  next
    case False
    let ?n = "min stop (cursor + k)"
    have IH: "concat (slices k data ?n stop) = take (stop - ?n) (drop ?n data)"
      "\<forall>c \<in> set (slices k data ?n stop). c \<noteq> [] \<and> length c \<le> k"
      using 1 False by auto
    have "take (?n - cursor) (drop cursor data) @ take (stop - ?n) (drop ?n data) = take (stop - cursor) (drop cursor data)"
    proof -
      have "stop - cursor = (?n - cursor) + (stop - ?n)" using False by (auto simp: min_def)
      moreover have "drop ?n data = drop (?n - cursor) (drop cursor data)" using False by (simp add: min_def)
      ultimately show ?thesis by (metis take_add)
    qed
    moreover have "take (?n - cursor) (drop cursor data) \<noteq> []" using False 1(2,3) by (auto simp: min_def)
    moreover have "length (take (?n - cursor) (drop cursor data)) \<le> k" by (auto simp: min_def)
    ultimately show ?thesis using IH False 1(2) by (simp add: slices.simps [of k data cursor stop])
  qed
qed

definition chunk_events :: "string \<Rightarrow> nat \<Rightarrow> byte list list \<Rightarrow> port_event list" where
  "chunk_events i n cs = map (\<lambda>(j, c). Ev_chunk i j (Some [(''data'', Some c)]) (fsSuccess None)) (enumerate n cs)"

lemma stream_credits_events:
  assumes "map_of (fs_streams s) c = Some st" "0 < sr_chunkSize st"
  defines "cs \<equiv> slices (sr_chunkSize st) (entry_data (fs_heap s (sr_file st))) (sr_cursor st) (sr_end st)"
  shows "fs_events (stream_credits n c s) = fs_events s @ chunk_events (sr_id st) (sr_sequence st) (take n cs) @
      (if length cs < n then [Ev_end (sr_id st) (fsSuccess (Some (JObj [(''bytesRead'', jnat (max (sr_cursor st) (sr_end st)))])))] else []) \<and>
    (map_of (fs_streams (stream_credits n c s)) c = None \<longleftrightarrow> length cs < n)"
  using assms unfolding cs_def
proof (induction n c s arbitrary: st rule: stream_credits.induct)
  case (1 c s)
  then show ?case by (simp add: chunk_events_def)
next
  case (2 n c s)
  let ?data = "entry_data (fs_heap s (sr_file st))"
  show ?case
  proof (cases "sr_cursor st \<ge> sr_end st")
    case True
    then show ?thesis using 2(2,3)
      by (simp add: slices.simps [of "sr_chunkSize st"] emit_def chunk_events_def max_absorb1)
  next
    case False
    let ?stop = "min (sr_end st) (sr_cursor st + sr_chunkSize st)"
    let ?b = "take (?stop - sr_cursor st) (drop (sr_cursor st) ?data)"
    let ?s = "emit (Ev_chunk (sr_id st) (sr_sequence st) (Some [(''data'', Some ?b)]) (fsSuccess None))
       (s\<lparr>fs_streams := map_adjust c (\<lambda>st. st\<lparr>sr_cursor := ?stop, sr_sequence := sr_sequence st + 1\<rparr>) (fs_streams s)\<rparr>)"
    let ?st = "st\<lparr>sr_cursor := ?stop, sr_sequence := sr_sequence st + 1\<rparr>"
    have m: "map_of (fs_streams ?s) c = Some ?st" using 2(2) by (simp add: emit_def map_of_map_adjust)
    have sl: "slices (sr_chunkSize st) ?data (sr_cursor st) (sr_end st) = ?b # slices (sr_chunkSize st) ?data ?stop (sr_end st)"
      using False 2(3) by (simp add: slices.simps [of "sr_chunkSize st" ?data "sr_cursor st"])
    have step: "stream_credits (Suc n) c s = stream_credits n c ?s" using 2(2) False by (simp add: Let_def)
    have "max ?stop (sr_end st) = max (sr_cursor st) (sr_end st)" using False by (simp add: min_def max_def)
    then show ?thesis
      using 2(1) [OF 2(2) False refl refl m] 2(3) unfolding step sl
      by (simp add: emit_def chunk_events_def)
  qed
qed

text \<open>C34: Granting \<open>n\<close> credits to a read stream sends at most \<open>n\<close> chunks, numbered on from the last,
  and no chunk without credit: the next \<open>n\<close> of the pieces that cut the rest of the requested
  range of the file into non-empty parts of at most \<open>chunkSize\<close> bytes, in order and without gap.
  The stream ends, with one end event, exactly when a credit is left after the last piece.\<close>
theorem stream_delivers_the_range:
  assumes "fs_ok s" "map_of (fs_streams s) c = Some st" "num_isSafeInteger (Fin (of_nat n))"
    "sr_end st \<le> length (entry_data (fs_heap s (sr_file st)))"
  defines "pieces \<equiv> slices (sr_chunkSize st) (entry_data (fs_heap s (sr_file st))) (sr_cursor st) (sr_end st)"
  shows "fs_events (grantCredits c (Fin (of_nat n)) s) = fs_events s @ chunk_events (sr_id st) (sr_sequence st) (take n pieces) @
      (if length pieces < n then [Ev_end (sr_id st) (fsSuccess (Some (JObj [(''bytesRead'', jnat (max (sr_cursor st) (sr_end st)))])))] else []) \<and>
    (map_of (fs_streams (grantCredits c (Fin (of_nat n)) s)) c = None \<longleftrightarrow> length pieces < n) \<and>
    concat pieces = take (sr_end st - sr_cursor st) (drop (sr_cursor st) (entry_data (fs_heap s (sr_file st)))) \<and>
    (\<forall>p \<in> set pieces. p \<noteq> [] \<and> length p \<le> sr_chunkSize st)"
proof -
  have k: "0 < sr_chunkSize st"
    using assms(1,2) by (auto simp: fs_ok_def streams_ok_def dest!: map_of_SomeD)
  have g: "grantCredits c (Fin (of_nat n)) s = stream_credits n c s"
    using assms(2,3) by (cases "n = 0") (simp_all add: grantCredits_def)
  show ?thesis unfolding g pieces_def
    using stream_credits_events [OF assms(2) k, of n] slices_partition [OF k assms(4), of "sr_cursor st"] by blast
qed

definition streaming_port :: fs where
  "streaming_port = linked_port\<lparr>fs_streams := [(7, \<lparr>sr_id = ''r'', sr_cursor = 0, sr_end = 3, sr_file = 2, sr_chunkSize = 2, sr_sequence = 0\<rparr>)]\<rparr>"

theorem stream_delivers_the_range_witness:
  "fs_events (grantCredits 7 (Fin (of_nat 3)) streaming_port) =
    [Ev_chunk ''r'' 0 (Some [(''data'', Some [1, 2])]) (fsSuccess None), Ev_chunk ''r'' 1 (Some [(''data'', Some [3])]) (fsSuccess None),
     Ev_end ''r'' (fsSuccess (Some (JObj [(''bytesRead'', jnat 3)])))]"
proof -
  let ?st = "snd (hd (fs_streams streaming_port))"
  have s: "fs_ok streaming_port" by code_simp
  have m: "map_of (fs_streams streaming_port) 7 = Some ?st" by (simp add: streaming_port_def)
  have n: "num_isSafeInteger (Fin (of_nat 3))" by (simp add: num_isSafeInteger_def rat_isInteger_def MAX_SAFE_INTEGER_def)
  have e: "sr_end ?st \<le> length (entry_data (fs_heap streaming_port (sr_file ?st)))" by code_simp
  have p: "slices 2 [1, 2, 3] 0 3 = [[1, 2], [3]]" by code_simp
  have v: "fs_events streaming_port = []" "sr_id ?st = ''r''" "sr_sequence ?st = 0" "sr_cursor ?st = 0" "sr_end ?st = 3"
    "sr_chunkSize ?st = 2" "entry_data (fs_heap streaming_port (sr_file ?st)) = [1, 2, 3]"
    by (simp_all add: streaming_port_def linked_port_def sample_port_def)
  show ?thesis
    using conjunct1 [OF stream_delivers_the_range [OF s m n e]] unfolding v p by (simp add: chunk_events_def)
qed

end
