(* ===== verification/Fs_Events.thy ===== *)
theory Fs_Events
  imports Fs_Files
begin

text \<open>
  The events of the in-memory file system provider: every request is answered once.
\<close>

definition watcher_event :: "port_event \<Rightarrow> bool" where
  "watcher_event ev \<longleftrightarrow>
     (case ev of Ev_chunk _ _ None (Ok_value (Some _)) \<Rightarrow> True | Ev_error _ Limit_exceeded \<Rightarrow> True | _ \<Rightarrow> False)"

definition chatter :: "fs \<Rightarrow> fs \<Rightarrow> bool" where
  "chatter s0 s \<longleftrightarrow> (\<exists>w. fs_events s = fs_events s0 @ w \<and> list_all watcher_event w)"

lemma chatter_refl [simp]: "chatter s s"
  by (simp add: chatter_def)

lemma chatter_trans: "chatter s0 s1 \<Longrightarrow> chatter s1 s2 \<Longrightarrow> chatter s0 s2"
  unfolding chatter_def by (metis append.assoc list_all_append)

lemma chatter_quiet: "fs_events s' = fs_events s \<Longrightarrow> chatter s s'"
  by (simp add: chatter_def)

named_theorems chatter_rules

lemma chatter_pure: "(\<And>s. fs_events (snd (m s)) = fs_events s) \<Longrightarrow> keeps (chatter s0) m"
  unfolding keeps_iff using chatter_trans chatter_quiet by blast

lemma chatter_basic [chatter_rules]:
  "keeps (chatter s0) (liftE r)" "keeps (chatter s0) (when_fail b c)" "keeps (chatter s0) (fs_fail c)"
  "keeps (chatter s0) (alloc e)" "keeps (chatter s0) (update_entry d f)" "keeps (chatter s0) assertEntryCapacity"
  "keeps (chatter s0) (assertDirectoryCapacity d name)" "keeps (chatter s0) (allocateProviderToken k)"
  "keeps (chatter s0) (trackTransactionCall t ct)"
  by (rule chatter_pure, simp add: liftE_def when_fail_def fs_fail_def monad_defs alloc_def update_entry_def
      assertEntryCapacity_def assertDirectoryCapacity_def Let_def allocateProviderToken_def trackTransactionCall_def
      adjust_transaction_def)+

lemma chatter_modify: "(\<And>s. fs_events (f s) = fs_events s) \<Longrightarrow> keeps (chatter s0) (modify f)"
  by (rule chatter_pure) (simp add: modify_def)

lemma rooted_events: "rooted s s' \<Longrightarrow> fs_events s' = fs_events s"
  by (auto simp: rooted_def add_root_def)

lemma chatter_resolve [chatter_rules]: "keeps (chatter s0) (resolve a path follow p hops)"
  by (rule chatter_pure) (metis prod.collapse resolve_rooted rooted_events)

lemma chatter_root [chatter_rules]: "keeps (chatter s0) (root g)"
  by (rule chatter_pure) (simp add: root_cases add_root_def split: option.split)

lemma chatter_parent [chatter_rules]: "keeps (chatter s0) (parent a path p)"
  unfolding parent_def by (intro keeps_rules keeps_splits chatter_rules)

text \<open>Watchers.\<close>

lemma flush_events_chatter: "chatter s (flush_events c es w s)"
proof (induction es arbitrary: w s)
  case (Cons e es)
  have "chatter s (emit (Ev_chunk (wr_id w) (wr_sequence w) None (fsSuccess (Some (watch_json e)))) s)"
    by (simp add: chatter_def emit_def watcher_event_def fsSuccess_def)
  then show ?case using chatter_trans Cons.IH by (auto intro: chatter_quiet)
qed (simp add: chatter_quiet)

lemma flushWatcher_chatter: "chatter s (flushWatcher c s)"
  by (simp add: flushWatcher_def flush_events_chatter split: option.split)

lemma notify_one_chatter: "chatter s (notify_one t p c s)"
proof -
  have "chatter s (flushWatcher c (s\<lparr>fs_watchers := ws\<rparr>))" for ws
    using chatter_trans [OF chatter_quiet flushWatcher_chatter] by simp
  then show ?thesis
    by (auto simp: notify_one_def Let_def chatter_def emit_def watcher_event_def split: option.split)
qed

lemma fold_chatter: "(\<And>x s. chatter s (f x s)) \<Longrightarrow> chatter s (fold f xs s)"
  by (induction xs arbitrary: s) (auto intro: chatter_trans)

lemma chatter_notifyWatchers [chatter_rules]: "keeps (chatter s0) (notifyWatchers op cs)"
proof -
  have "chatter s (snd (notifyWatchers op cs s))" for s
    unfolding notifyWatchers_def modify_def snd_conv
    by (intro fold_chatter) (auto intro: fold_chatter notify_one_chatter split: sum.split)
  then show ?thesis unfolding keeps_iff using chatter_trans by blast
qed

lemma chatter_clone: "fs_events (snd (clone k a s)) = fs_events s"
proof (induction k arbitrary: a s)
  case (Suc k)
  have f: "fs_events (snd (fold (\<lambda>(name, c) (acc, st). case clone k c st of (c', st') \<Rightarrow> (map_set name c' acc, st')) cs (acc, st))) =
      fs_events st" for cs acc st
    by (induction cs arbitrary: acc st) (auto simp: Suc.IH split: prod.split, metis Suc.IH snd_conv)
  show ?case
  proof (cases "e_kind (fs_heap s a)")
    case (Directory cs)
    let ?s = "snd (alloc (new_directory (e_mode (fs_heap s a)) (fs_now s)) s)"
    have "fs_events ?s = fs_events s" by (simp add: alloc_def)
    then show ?thesis using Directory f [of cs "[]" ?s] by (simp add: Let_def case_prod_beta)
  qed (simp_all add: alloc_def)
qed (simp add: alloc_def)

lemmas chatter_intros = keeps_rules keeps_splits chatter_rules keeps_test chatter_modify

lemma chatter_mkdir_loop [chatter_rules]: "keeps (chatter s0) (mkdir_loop auth mode recursive current created done segs)"
  by (induction segs arbitrary: current created "done") (simp_all, (intro chatter_intros keeps_ret | assumption)+)

lemma chatter_copy_clone [chatter_rules]: "keeps (chatter s0) (\<lambda>s. case clone (fs_next s) a s of (c, s') \<Rightarrow> (Inr c, s'))"
  by (rule chatter_pure) (metis (no_types, lifting) chatter_clone case_prod_beta snd_conv)

lemma chatter_operations [chatter_rules]:
  "keeps (chatter s0) (access args a)" "keeps (chatter s0) (stat args a fl)" "keeps (chatter s0) (readdir le args a)"
  "keeps (chatter s0) (readlink args a)" "keeps (chatter s0) (realpath args a)" "keeps (chatter s0) (chmod args a)"
  "keeps (chatter s0) (copy args a)" "keeps (chatter s0) (mkdir args a)" "keeps (chatter s0) (open_file args a ct)"
  "keeps (chatter s0) (rename args a)" "keeps (chatter s0) (rm args a)" "keeps (chatter s0) (symlink args a)"
  "keeps (chatter s0) (beginAtomicWrite args ctx a request)" "keeps (chatter s0) (writeAtomicChunk args ctx a request)"
  "keeps (chatter s0) (commitAtomicWrite args ctx a request)" "keeps (chatter s0) (handleRead args ctx a)"
  "keeps (chatter s0) (handleStat args ctx a)" "keeps (chatter s0) (handleSync args ctx a)"
  "keeps (chatter s0) (handleWrite args ctx a request)" "keeps (chatter s0) (openReadStream request args ctx a)"
  "keeps (chatter s0) (openWatcher request args ctx a)"
  unfolding access_def stat_def readdir_def readlink_def realpath_def chmod_def copy_def mkdir_def open_file_def rename_def
    rm_def symlink_def beginAtomicWrite_def writeAtomicChunk_def commitAtomicWrite_def handleRead_def handleStat_def
    handleSync_def handleWrite_def openReadStream_def openWatcher_def
  by (rule keeps_rules keeps_splits chatter_rules keeps_test | rule chatter_modify, simp add: adjust_transaction_def)+

section \<open>Every request is answered once\<close>

definition answer :: "string \<Rightarrow> port_event \<Rightarrow> bool" where
  "answer rid ev \<longleftrightarrow> (case ev of Ev_result i _ _ _ \<Rightarrow> i = rid | Ev_error i _ \<Rightarrow> i = rid | _ \<Rightarrow> False)"

lemma answer_report: "answer rid (report rid err)"
  by (simp add: answer_def report_def Let_def)

text \<open>A request that stays open has a stream or a watcher of its own.\<close>

definition opened :: "port_request \<Rightarrow> dispatch_context \<Rightarrow> fs \<Rightarrow> bool" where
  "opened request ctx s \<longleftrightarrow>
     (if rq_operation request = Op_readStream
      then map_option sr_id (map_of (fs_streams s) (cx_callToken ctx)) = Some (rq_id request)
      else rq_operation request = Op_watch \<and>
        map_option wr_id (map_of (fs_watchers s) (cx_callToken ctx)) = Some (rq_id request))"

definition answered :: "fs \<Rightarrow> port_request \<Rightarrow> dispatch_context \<Rightarrow> fs \<Rightarrow> bool" where
  "answered s0 request ctx s \<longleftrightarrow>
     (\<exists>watch reply. fs_events s = fs_events s0 @ watch @ reply \<and> list_all watcher_event watch \<and>
       (reply = [] \<and> opened request ctx s \<or> (\<exists>ev. reply = [ev] \<and> answer (rq_id request) ev)))"

lemma answered_emit: "chatter s0 s \<Longrightarrow> answer (rq_id request) ev \<Longrightarrow> answered s0 request ctx (emit ev s)"
  unfolding answered_def chatter_def emit_def by (elim exE conjE) (rule exI, rule exI [of _ "[ev]"], simp)

lemma answered_open: "chatter s0 s \<Longrightarrow> opened request ctx s \<Longrightarrow> answered s0 request ctx s"
  by (force simp: answered_def chatter_def)

lemma hoare_keeps: "keeps I m \<Longrightarrow> hoare I m (\<lambda>_. I) (\<lambda>_. I)"
  by (simp add: hoare_def keeps_iff split: prod.splits sum.splits)

lemma chatter_execute: "keeps (chatter s0) (execute le request args ctx a)"
  unfolding execute_def by (cases "rq_operation request") (simp_all add: chatter_rules)

lemma chatter_wp:
  assumes "keeps (chatter s0) m" "chatter s0 s" "\<And>x s'. chatter s0 s' \<Longrightarrow> Q x s'" "\<And>e s'. chatter s0 s' \<Longrightarrow> E e s'"
  shows "wp m Q E s"
  using assms by (auto simp: wp_def keeps_iff split: prod.split sum.split)


lemma opened_stream:
  assumes "rq_operation request = Op_readStream" "chatter s0 s"
  shows "wp (openReadStream request args ctx a) (\<lambda>_ s. chatter s0 s \<and> opened request ctx s) (\<lambda>_. chatter s0) s"
  unfolding openReadStream_def using assms
  by (intro chatter_wp [OF chatter_resolve] wp_test wp_rules)
     (auto simp: opened_def intro: chatter_trans [OF _ chatter_quiet])

lemma opened_watcher:
  assumes "rq_operation request = Op_watch" "chatter s0 s"
  shows "wp (openWatcher request args ctx a) (\<lambda>_ s. chatter s0 s \<and> opened request ctx s) (\<lambda>_. chatter s0) s"
  unfolding openWatcher_def using assms
  by (intro chatter_wp [OF chatter_resolve] wp_rules)
     (auto simp: opened_def intro: chatter_trans [OF _ chatter_quiet])

lemma answered_body:
  assumes "chatter s0 s"
  shows "wp (dispatch_body le request ctx) (\<lambda>_. answered s0 request ctx) (\<lambda>_. chatter s0) s"
proof -
  have "wp (execute le request args ctx a) (\<lambda>out. wp (modify (emit (case out of
          Rich binary resources v \<Rightarrow> Ev_result (rq_id request) binary resources (fsSuccess v)
        | Plain v \<Rightarrow> Ev_result (rq_id request) None None (fsSuccess (Some v))))) (\<lambda>_. answered s0 request ctx) (\<lambda>_. chatter s0))
      (\<lambda>_. chatter s0) s" for args a
    by (rule chatter_wp [OF chatter_execute assms])
       (auto simp: wp_def modify_def answer_def intro!: answered_emit split: op_output.split)
  then show ?thesis unfolding dispatch_body_def using assms
    by (intro wp_rules)
       (auto intro!: wp_post [OF opened_stream] wp_post [OF opened_watcher] answered_open)
qed

text \<open>C35: Every request to an open port is answered exactly once, after the events of the watchers it
  triggered: with one result or error event that carries the request's id, or, when it opens a read
  stream or a watcher, by no event at all, and then the call has a stream or watcher record with that
  id.\<close>
theorem request_is_answered_once:
  assumes "\<not> fs_disposed s"
  shows "\<exists>watch reply. fs_events (dispatch le t request ctx s) = fs_events s @ watch @ reply \<and> list_all watcher_event watch \<and>
    (reply = [] \<and> opened request ctx (dispatch le t request ctx s) \<or> (\<exists>ev. reply = [ev] \<and> answer (rq_id request) ev))"
proof -
  have "chatter s (s\<lparr>fs_now := t\<rparr>)" by (simp add: chatter_quiet)
  then have "answered s request ctx (dispatch le t request ctx s)"
    using answered_body [of s "s\<lparr>fs_now := t\<rparr>" le request ctx] assms
    by (auto simp: wp_def dispatch_def intro: answered_emit answer_report split: prod.splits sum.splits)
  then show ?thesis by (simp add: answered_def)
qed

text \<open>Removing a watched file with credit sends the watch event and then the answer.\<close>

definition watched_port :: fs where
  "watched_port = linked_port\<lparr>fs_watchers := [(7, \<lparr>wr_credits = 1, wr_events = [], wr_id = ''w'',
     wr_path = ws [''d''], wr_sequence = 0\<rparr>)]\<rparr>"

definition remove_request :: port_request where
  "remove_request = fs_request Op_rm [(''path'', JStr (js ''holonomy-fs://workspace/d/f''))]"

theorem request_is_answered_once_witness:
  "\<exists>watch reply. fs_events (dispatch (\<lambda>_ _. True) 7 remove_request (sample_context ''app'') watched_port) =
      fs_events watched_port @ watch @ reply \<and> list_all watcher_event watch \<and>
    (reply = [] \<and> opened remove_request (sample_context ''app'') (dispatch (\<lambda>_ _. True) 7 remove_request (sample_context ''app'') watched_port) \<or>
     (\<exists>ev. reply = [ev] \<and> answer (rq_id remove_request) ev))"
  by (rule request_is_answered_once) (simp add: watched_port_def linked_port_def sample_port_def)

lemma removal_events:
  "fs_events (dispatch (\<lambda>_ _. True) 7 remove_request (sample_context ''app'') watched_port) =
     [Ev_chunk ''w'' 0 None (Ok_value (Some (watch_json (Rename_event, js ''f'')))),
      Ev_result ''r'' None None (Ok_value (Some (JObj [])))]"
  by code_simp

end
