(* ===== verification/Fs_Fuel.thy ===== *)
theory Fs_Fuel
  imports Fs_Properties
begin

text \<open>
  The recursions over the entries end: every entry below a root (or below any entry without a
  name) is reached by exactly one path, so a descent visits no entry twice and is at most as deep as
  the number of entries; the bound \<open>fs_next\<close> of the recursive definitions is never reached.
\<close>

section \<open>Paths\<close>

fun chain :: "(addr \<Rightarrow> entry) \<Rightarrow> addr \<Rightarrow> addr list \<Rightarrow> bool" where
  "chain h a [] = True"
| "chain h a (b # bs) = (b \<in> targets (h a) \<and> chain h b bs)"

lemma chain_append: "chain h a (bs @ cs) \<longleftrightarrow> chain h a bs \<and> chain h (last (a # bs)) cs"
  by (induction bs arbitrary: a) auto

lemma last_extended [simp]: "last (a # bs @ [b]) = b"
  by simp

lemma chain_snoc: "chain h a (bs @ [b]) \<longleftrightarrow> chain h a bs \<and> b \<in> targets (h (last (a # bs)))"
  by (simp add: chain_append)

definition forest :: "(addr \<Rightarrow> entry) \<Rightarrow> addr \<Rightarrow> bool" where
  "forest h n \<longleftrightarrow> (\<forall>d < n. distinct (map snd (children (h d))) \<and> (\<forall>b \<in> targets (h d). b < n)) \<and> single_names h n"

lemma forest_links: "links_ok L h n U \<Longrightarrow> forest h n"
  by (auto simp: links_ok_def nodes_ok_def node_ok_def forest_def)

lemma chain_bound: "forest h n \<Longrightarrow> r < n \<Longrightarrow> chain h r bs \<Longrightarrow> last (r # bs) < n"
proof (induction bs rule: rev_induct)
  case (snoc b bs)
  then show ?case by (auto simp: chain_snoc forest_def simp del: last.simps)
qed simp

lemma chain_unique:
  assumes "forest h n" "r < n" "r' < n" "unlinked h n r" "unlinked h n r'"
  shows "chain h r bs \<Longrightarrow> chain h r' cs \<Longrightarrow> last (r # bs) = last (r' # cs) \<Longrightarrow> r = r' \<and> bs = cs"
proof (induction bs arbitrary: cs rule: rev_induct)
  case Nil
  show ?case
  proof (cases cs rule: rev_cases)
    case (snoc cs' c)
    have "last (r' # cs') < n" using Nil snoc chain_bound [OF assms(1,3)] by (simp add: chain_snoc del: last.simps)
    then show ?thesis using Nil snoc assms(4) by (auto simp: chain_snoc unlinked_def simp del: last.simps) simp
  qed (use Nil in simp)
next
  case (snoc b bs)
  have x: "last (r # bs) < n" "b \<in> targets (h (last (r # bs)))"
    using snoc.prems chain_bound [OF assms(1,2)] by (simp_all add: chain_snoc del: last.simps)
  show ?case
  proof (cases cs rule: rev_cases)
    case Nil
    then have "b = r'" using snoc.prems(3) by simp
    then show ?thesis using x assms(5) by (auto simp: unlinked_def)
  next
    case (snoc cs' c)
    have c: "c = b" using snoc.prems(3) snoc by simp
    have y: "last (r' # cs') < n" "b \<in> targets (h (last (r' # cs')))"
      using snoc.prems(2) snoc c chain_bound [OF assms(1,3)] by (simp_all add: chain_snoc del: last.simps)
    have "last (r # bs) = last (r' # cs')"
      using x y assms(1) unfolding forest_def single_names_def by blast
    then show ?thesis using snoc.IH [of cs'] snoc.prems snoc c by (simp add: chain_snoc del: last.simps)
  qed
qed

lemma chain_distinct:
  assumes "forest h n" "r < n" "unlinked h n r" "chain h r bs"
  shows "distinct (r # bs)"
proof -
  have take: "chain h r (take i bs)" for i using assms(4) chain_append [of h r "take i bs" "drop i bs"] by simp
  have "(r # bs) ! i \<noteq> (r # bs) ! j" if ij: "i < j" "j < length (r # bs)" for i j
  proof
    assume e: "(r # bs) ! i = (r # bs) ! j"
    have l: "last (r # take k bs) = (r # bs) ! k" if "k < length (r # bs)" for k
      using that by (cases k) (auto simp: last_conv_nth min_def le_Suc_eq)
    have "last (r # take i bs) = last (r # take j bs)" using l [of i] l [of j] ij e by (simp del: last.simps)
    then have "take i bs = take j bs" using chain_unique [OF assms(1,2,2,3,3) take take] by blast
    then have "length (take i bs) = length (take j bs)" by simp
    then show False using ij by simp
  qed
  then show ?thesis unfolding distinct_conv_nth by (metis nat_neq_iff)
qed

lemma chain_short:
  assumes "forest h n" "r < n" "unlinked h n r" "chain h r bs"
  shows "length bs < n"
proof -
  have "set (r # bs) \<subseteq> {..<n}"
  proof
    fix x assume "x \<in> set (r # bs)"
    then obtain ys zs where s: "r # bs = ys @ x # zs" by (meson split_list)
    show "x \<in> {..<n}"
    proof (cases ys)
      case Nil
      then show ?thesis using s assms(2) by simp
    next
      case (Cons y ys')
      then have "chain h r (ys' @ [x])" using s assms(4) chain_append [of h r "ys' @ [x]" zs] by simp
      then show ?thesis using chain_bound [OF assms(1,2), of "ys' @ [x]"] by simp
    qed
  qed
  then have "card (set (r # bs)) \<le> n" using card_mono [of "{..<n}" "set (r # bs)"] by simp
  then show ?thesis using distinct_card [OF chain_distinct [OF assms]] by simp
qed

section \<open>Enough fuel\<close>

definition height :: "(addr \<Rightarrow> entry) \<Rightarrow> addr \<Rightarrow> nat \<Rightarrow> bool" where
  "height h a m \<longleftrightarrow> (\<forall>bs. chain h a bs \<longrightarrow> length bs < m)"

lemma height_0 [simp]: "\<not> height h a 0"
  unfolding height_def by (metis chain.simps(1) list.size(3) less_irrefl)

lemma height_child: "height h a (Suc m) \<Longrightarrow> b \<in> targets (h a) \<Longrightarrow> height h b m"
  unfolding height_def by (metis Suc_less_eq chain.simps(2) length_Cons)

lemma height_below:
  assumes "forest h n" "r < n" "unlinked h n r" "chain h r cs"
  shows "height h (last (r # cs)) n"
  unfolding height_def
proof (intro allI impI)
  fix bs assume "chain h (last (r # cs)) bs"
  then have "chain h r (cs @ bs)" using assms(4) by (simp add: chain_append)
  then show "length bs < n" using chain_short [OF assms(1-3), of "cs @ bs"] by simp
qed

lemma child_target: "c \<in> set (children e) \<Longrightarrow> snd c \<in> targets e"
  by (simp add: targets_def)

lemma visit_fuel: "height h a m \<Longrightarrow> visit (m + k) h a = visit m h a"
proof (induction m arbitrary: a)
  case (Suc m)
  have "visit (m + k) h (snd c) = visit m h (snd c)" if "c \<in> set (children (h a))" for c
    using Suc.IH [OF height_child [OF Suc.prems child_target [OF that]]] .
  then show ?case by (simp add: case_prod_beta cong: map_cong)
qed simp

lemma children_kind: "e_kind e = Directory cs \<Longrightarrow> children e = cs"
  by (simp add: children_def)

lemma entrySize_fuel: "height h a m \<Longrightarrow> entrySize (m + k) h a = entrySize m h a"
proof (induction m arbitrary: a)
  case (Suc m)
  have "entrySize (m + k) h (snd c) = entrySize m h (snd c)" if "c \<in> set (children (h a))" for c
    using Suc.IH [OF height_child [OF Suc.prems child_target [OF that]]] .
  then show ?case by (auto simp: case_prod_beta children_kind split: entry_kind.split intro!: fold_cong)
qed simp

lemma releasedBytes_fuel: "height (fs_heap s) a m \<Longrightarrow> releasedBytes (m + k) s a = releasedBytes m s a"
proof (induction m arbitrary: a)
  case (Suc m)
  have "releasedBytes (m + k) s (snd c) = releasedBytes m s (snd c)" if "c \<in> set (children (fs_heap s a))" for c
    using Suc.IH [OF height_child [OF Suc.prems child_target [OF that]]] .
  then show ?case by (auto simp: case_prod_beta children_kind split: entry_kind.split intro!: fold_cong)
qed simp

text \<open>\<open>clone\<close> adds entries while it descends, above those it copies.\<close>

definition above :: "nat \<Rightarrow> (addr \<Rightarrow> entry) \<Rightarrow> fs \<Rightarrow> bool" where
  "above n h s \<longleftrightarrow> n \<le> fs_next s \<and> (\<forall>b < n. fs_heap s b = h b)"

lemma above_alloc: "above n h s \<Longrightarrow> above n h (snd (alloc e s))"
  by (simp add: above_def alloc_def)

lemma clone_above: "above n h s \<Longrightarrow> above n h (snd (clone k a s))"
proof (induction k arbitrary: a s)
  case (Suc k)
  have f: "above n h st \<Longrightarrow> above n h (snd (fold (\<lambda>(name, c) (acc, st). case clone k c st of (c', st') \<Rightarrow> (map_set name c' acc, st')) cs (acc, st)))"
    for cs acc st
    by (induction cs arbitrary: acc st) (auto split: prod.split, metis Suc.IH snd_conv)
  show ?case
  proof (cases "e_kind (fs_heap s a)")
    case (Directory cs)
    let ?s = "snd (alloc (new_directory (e_mode (fs_heap s a)) (fs_now s)) s)"
    have "above n h ?s" using Suc.prems by (rule above_alloc)
    then have "above n h (snd (fold (\<lambda>(name, c) (acc, st). case clone k c st of (c', st') \<Rightarrow> (map_set name c' acc, st')) cs ([], ?s)))"
      by (rule f)
    then show ?thesis using Directory Suc.prems by (simp add: Let_def case_prod_beta above_def)
  qed (use Suc.prems in \<open>simp_all add: above_alloc\<close>)
qed (simp add: above_alloc)

lemma clone_fuel:
  assumes "forest h n"
  shows "height h a m \<Longrightarrow> a < n \<Longrightarrow> above n h s \<Longrightarrow> clone (m + k) a s = clone m a s"
proof (induction m arbitrary: a s)
  case (Suc m)
  have f: "(\<forall>c \<in> set cs. c \<in> set (children (h a))) \<Longrightarrow> above n h st \<Longrightarrow>
      fold (\<lambda>(name, c) (acc, st). case clone (m + k) c st of (c', st') \<Rightarrow> (map_set name c' acc, st')) cs (acc, st) =
      fold (\<lambda>(name, c) (acc, st). case clone m c st of (c', st') \<Rightarrow> (map_set name c' acc, st')) cs (acc, st)" for cs acc st
  proof (induction cs arbitrary: acc st)
    case (Cons c cs)
    have t: "snd c \<in> targets (h a)" using Cons.prems child_target by simp
    then have "snd c < n" using assms Suc.prems(2) by (simp add: forest_def)
    then have "clone (m + k) (snd c) st = clone m (snd c) st"
      using Suc.IH [OF height_child [OF Suc.prems(1) t]] Cons.prems(2) by blast
    moreover have "above n h (snd (clone m (snd c) st))" using Cons.prems(2) by (rule clone_above)
    ultimately show ?case using Cons by (simp add: case_prod_beta)
  qed simp
  have e: "fs_heap s a = h a" using Suc.prems by (simp add: above_def)
  show ?case
  proof (cases "e_kind (h a)")
    case (Directory cs)
    then show ?thesis
      using f [of cs "snd (alloc (new_directory (e_mode (h a)) (fs_now s)) s)" "[]"] above_alloc [OF Suc.prems(3)]
      by (simp add: e children_kind)
  qed (simp_all add: e)
qed simp

section \<open>Visiting every entry once\<close>

lemma visit_paths: "b \<in> set (visit n h a) \<Longrightarrow> \<exists>bs. chain h a bs \<and> last (a # bs) = b"
proof (induction n arbitrary: a)
  case (Suc n)
  show ?case
  proof (cases "b = a")
    case True
    then show ?thesis by (intro exI [of _ "[]"]) simp
  next
    case False
    then obtain c where c: "c \<in> set (children (h a))" "b \<in> set (visit n h (snd c))" using Suc.prems by auto
    obtain bs where "chain h (snd c) bs" "last (snd c # bs) = b" using Suc.IH [OF c(2)] by blast
    then show ?thesis using child_target [OF c(1)] by (intro exI [of _ "snd c # bs"]) simp
  qed
qed simp

lemma visit_distinct:
  assumes "forest h n" "r < n" "unlinked h n r"
  shows "chain h r cs \<Longrightarrow> last (r # cs) = a \<Longrightarrow> distinct (visit k h a)"
proof (induction k arbitrary: cs a)
  case (Suc k)
  note unique = chain_unique [OF assms(1,2,2,3,3)]
  have a: "a < n" using chain_bound [OF assms(1,2) Suc.prems(1)] Suc.prems(2) by (simp del: last.simps)
  have down: "chain h r (cs @ bs) \<and> last (r # cs @ bs) = last (a # bs)" if "chain h a bs" for bs
    using that Suc.prems chain_append [of h r cs bs] by (cases bs) auto
  have below: "\<exists>bs. chain h r (cs @ snd c # bs) \<and> last (r # cs @ snd c # bs) = b"
    if c: "c \<in> set (children (h a))" and b: "b \<in> set (visit k h (snd c))" for c b
  proof -
    obtain bs where "chain h (snd c) bs" "last (snd c # bs) = b" using visit_paths [OF b] by blast
    then show ?thesis using down [of "snd c # bs"] child_target [OF c] by (intro exI [of _ bs]) simp
  qed
  have "a \<notin> set (visit k h (snd c))" if c: "c \<in> set (children (h a))" for c
  proof
    assume "a \<in> set (visit k h (snd c))"
    note in_c = below [OF c this]
    then obtain bs where "chain h r (cs @ snd c # bs)" "last (r # cs @ snd c # bs) = a" using in_c by blast
    then show False using unique [OF Suc.prems(1), of "cs @ snd c # bs"] Suc.prems(2) by simp
  qed
  moreover have "distinct (concat (map (\<lambda>c. visit k h (snd c)) ds))"
    if "set ds \<subseteq> set (children (h a))" "distinct (map snd ds)" for ds
    using that
  proof (induction ds)
    case (Cons d ds)
    have d: "distinct (visit k h (snd d))"
      using Suc.IH [of "cs @ [snd d]"] Suc.prems Cons.prems child_target [of d "h a"] by (simp add: chain_snoc del: last.simps) 
    have "b \<notin> set (visit k h (snd c))" if b: "b \<in> set (visit k h (snd d))" and c: "c \<in> set ds" for b c
    proof
      assume b': "b \<in> set (visit k h (snd c))"
      have cd: "c \<in> set (children (h a))" "d \<in> set (children (h a))" "snd d \<notin> snd ` set ds"
        using Cons.prems c by auto
      obtain bs bs' where "chain h r (cs @ snd d # bs)" "last (r # cs @ snd d # bs) = b"
          "chain h r (cs @ snd c # bs')" "last (r # cs @ snd c # bs') = b"
        using below [OF cd(2) b] below [OF cd(1) b'] by blast
      then show False using unique [of "cs @ snd d # bs" "cs @ snd c # bs'"] cd(3) imageI [OF c, of snd] by auto
    qed
    then show ?case using Cons d by auto
  qed simp
  moreover have "distinct (map snd (children (h a)))" using a assms(1) by (simp add: forest_def)
  moreover have "visit (Suc k) h a = a # concat (map (\<lambda>c. visit k h (snd c)) (children (h a)))"
    by (simp add: case_prod_unfold)
  ultimately show ?case by simp
qed simp

lemma visited_distinct:
  assumes "fs_ok s"
  shows "distinct (visited s)"
proof -
  let ?n = "fs_next s" and ?h = "fs_heap s"
  have f: "forest ?h ?n" using assms forest_links by (auto simp: fs_ok_def)
  have r: "r < ?n \<and> unlinked ?h ?n r" if "(k, r) \<in> set (fs_roots s)" for k r
    using assms that by (force simp: fs_ok_def roots_ok_def links_ok_def nameless_def)
  have d: "distinct (concat (map (\<lambda>(_, r). visit ?n ?h r) rs))"
    if "set rs \<subseteq> set (fs_roots s)" "distinct (map snd rs)" for rs
    using that
  proof (induction rs)
    case (Cons p rs)
    obtain k r' where p: "p = (k, r')" by fastforce
    have r': "r' < ?n" "unlinked ?h ?n r'" using r Cons.prems p by auto
    have "b \<notin> set (visit ?n ?h r)" if b: "b \<in> set (visit ?n ?h r')" and q: "(l, r) \<in> set rs" for b l r
    proof
      assume b': "b \<in> set (visit ?n ?h r)"
      obtain bs bs' where "chain ?h r' bs" "last (r' # bs) = b" "chain ?h r bs'" "last (r # bs') = b"
        using visit_paths [OF b] visit_paths [OF b'] by blast
      then have "r = r'" using chain_unique [OF f r'(1) _ r'(2), of r bs bs'] r [of l r] q Cons.prems by (auto simp del: last.simps)
      then show False using q Cons.prems p by force
    qed
    moreover have "distinct (visit ?n ?h r')" using visit_distinct [OF f r', of "[]"] by simp
    ultimately show ?case using Cons p by auto
  qed simp
  show ?thesis unfolding visited_def
    by (rule d) (use assms in \<open>simp_all add: fs_ok_def roots_ok_def\<close>)
qed

text \<open>C39: The recursive walks over the entries end and count right.  In a well-formed state, for
  every entry below one without a name (a root, a fresh copy), more fuel than the number of entries
  changes nothing in \<open>visit\<close>, \<open>entrySize\<close>, \<open>releasedBytes\<close> and \<open>clone\<close>: their recursion has ended
  before.  The snapshot meets every entry below the roots exactly once, so an entry or a file is
  never counted twice.\<close>
theorem tree_walks_terminate:
  assumes "fs_ok s" "r < fs_next s" "unlinked (fs_heap s) (fs_next s) r" "b \<in> set (visit (fs_next s) (fs_heap s) r)"
  shows "visit (fs_next s + k) (fs_heap s) b = visit (fs_next s) (fs_heap s) b \<and>
    entrySize (fs_next s + k) (fs_heap s) b = entrySize (fs_next s) (fs_heap s) b \<and>
    releasedBytes (fs_next s + k) s b = releasedBytes (fs_next s) s b \<and>
    clone (fs_next s + k) b s = clone (fs_next s) b s \<and> distinct (visited s)"
proof -
  have f: "forest (fs_heap s) (fs_next s)" using assms(1) forest_links by (auto simp: fs_ok_def)
  obtain bs where bs: "chain (fs_heap s) r bs" "last (r # bs) = b" using visit_paths [OF assms(4)] by blast
  have b: "height (fs_heap s) b (fs_next s)" "b < fs_next s"
    using height_below [OF f assms(2,3) bs(1)] chain_bound [OF f assms(2) bs(1)] bs(2) by simp_all
  have "clone (fs_next s + k) b s = clone (fs_next s) b s" by (rule clone_fuel [OF f b]) (simp add: above_def)
  then show ?thesis using visit_fuel entrySize_fuel releasedBytes_fuel b(1) visited_distinct [OF assms(1)] by simp
qed

theorem tree_walks_terminate_witness:
  "clone (fs_next linked_port + 3) 1 linked_port = clone (fs_next linked_port) 1 linked_port"
proof -
  have "fs_ok linked_port" "unlinked (fs_heap linked_port) (fs_next linked_port) 0"
    "0 < fs_next linked_port" "1 \<in> set (visit (fs_next linked_port) (fs_heap linked_port) 0)" by code_simp+
  then show ?thesis using tree_walks_terminate [of linked_port 0 1 3] by blast
qed

end
