(* ===== verification/Js_Values.thy ===== *)
theory Js_Values
  imports Utf8
begin

text \<open>
  The JavaScript values that cross the native port, as far as the validation of
  \<open>runtime/src/native-port\<close> looks at them: primitive values, and references to ordinary objects
  in a heap.  An object has a prototype, its own properties in the order of \<open>Reflect.ownKeys\<close>, each
  a data property or an accessor, and the bytes of its internal slot when it is a \<open>Uint8Array\<close> or an
  \<open>ArrayBuffer\<close>.  Cycles and sharing are references.  Proxies, whose traps run code, are not modelled.
  The length of an array is its own property \<open>length\<close>, as in the language.
\<close>

type_synonym obj_ref = nat

datatype jsv = V_undefined | V_null | V_bool bool | V_num jsnum | V_str jstring | V_function | V_ref obj_ref

datatype prop_key = Key jstring | Symbol nat

record descriptor =
  pr_enumerable :: bool
  pr_value :: "jsv option"

datatype prototype = Object_prototype | Array_prototype | Uint8Array_prototype | ArrayBuffer_prototype | Null_prototype
  | Other_prototype

datatype bytes_kind = Uint8_array | Array_buffer

record obj =
  ob_proto :: prototype
  ob_array :: bool
  ob_props :: "(prop_key \<times> descriptor) list"
  ob_bytes :: "(bytes_kind \<times> byte list) option"

type_synonym js_heap = "obj_ref \<Rightarrow> obj"

definition ownKeys :: "obj \<Rightarrow> prop_key list" where
  "ownKeys ob = map fst (ob_props ob)"

definition getOwnPropertyDescriptor :: "obj \<Rightarrow> jstring \<Rightarrow> descriptor option" where
  "getOwnPropertyDescriptor ob key = map_of (ob_props ob) (Key key)"

text \<open>The value of an enumerable data property (\<open>ownDataDescriptor\<close>), \<open>undefined\<close> without one (\<open>ownData\<close>).\<close>

definition ownDataDescriptor :: "obj \<Rightarrow> jstring \<Rightarrow> jsv option" where
  "ownDataDescriptor ob key =
     (case getOwnPropertyDescriptor ob key of
        None \<Rightarrow> None
      | Some p \<Rightarrow> if pr_enumerable p then pr_value p else None)"

definition ownData :: "obj \<Rightarrow> jstring \<Rightarrow> jsv" where
  "ownData ob key = (case ownDataDescriptor ob key of None \<Rightarrow> V_undefined | Some v \<Rightarrow> v)"

definition plain_prototype :: "obj \<Rightarrow> bool" where
  "plain_prototype ob \<longleftrightarrow> ob_proto ob = Object_prototype \<or> ob_proto ob = Null_prototype"

text \<open>A value that is an object but neither \<open>null\<close> nor an array.\<close>

definition as_record :: "js_heap \<Rightarrow> jsv \<Rightarrow> obj option" where
  "as_record h v = (case v of V_ref a \<Rightarrow> if ob_array (h a) then None else Some (h a) | _ \<Rightarrow> None)"

definition as_array :: "js_heap \<Rightarrow> jsv \<Rightarrow> obj option" where
  "as_array h v = (case v of V_ref a \<Rightarrow> if ob_array (h a) then Some (h a) else None | _ \<Rightarrow> None)"

text \<open>A safe integer that is not negative.\<close>

definition safe_nat :: "jsv \<Rightarrow> nat option" where
  "safe_nat v =
     (case v of
        V_num (Fin q) \<Rightarrow> if num_isSafeInteger (Fin q) \<and> 0 \<le> q then Some (nat \<lfloor>q\<rfloor>) else None
      | _ \<Rightarrow> None)"

section \<open>Decimal text\<close>

definition is_digit :: "u16 \<Rightarrow> bool" where
  "is_digit u \<longleftrightarrow> 0x30 \<le> u \<and> u \<le> 0x39"

function decimal :: "nat \<Rightarrow> jstring" where
  "decimal n = (if n < 10 then [0x30 + of_nat n] else decimal (n div 10) @ [0x30 + of_nat (n mod 10)])"
  by pat_completeness auto
termination by (relation "measure (\<lambda>n. n)") auto

declare decimal.simps [simp del]

text \<open>\<open>Number(key)\<close> of a key that matches \<open>/^(?:0|[1-9]\d*)$/u\<close>.\<close>

definition array_index :: "jstring \<Rightarrow> nat option" where
  "array_index key =
     (if key \<noteq> [] \<and> list_all is_digit key \<and> (hd key = 0x30 \<longrightarrow> length key = 1)
      then Some (fold (\<lambda>u n. 10 * n + (unat u - 0x30)) key 0) else None)"

lemma decimal_nonempty [simp]: "decimal n \<noteq> []"
  by (subst decimal.simps) simp

lemma digits: "d < 10 \<Longrightarrow> unat (0x30 + of_nat d :: u16) = 48 + d \<and> is_digit (0x30 + of_nat d)"
proof -
  have "list_all (\<lambda>d. unat (0x30 + of_nat d :: u16) = 48 + d \<and> is_digit (0x30 + of_nat d)) [0..<10]" by code_simp
  then show "d < 10 \<Longrightarrow> ?thesis" by (auto simp: list_all_iff)
qed

lemma decimal_digits: "list_all is_digit (decimal n)"
proof (induction n rule: decimal.induct)
  case (1 n)
  show ?case using 1 by (subst decimal.simps) (simp add: digits)
qed

lemma decimal_value: "fold (\<lambda>u m. 10 * m + (unat u - 0x30)) (decimal n) 0 = n"
proof (induction n rule: decimal.induct)
  case (1 n)
  show ?case using 1 by (subst decimal.simps) (simp add: digits)
qed

section \<open>The text of JSON\<close>

datatype native_value = J_null | J_bool bool | J_num rat | J_str jstring | J_list "native_value list"
  | J_map "(jstring \<times> native_value) list" | J_resource nat

definition hex_lower :: "nat \<Rightarrow> u16" where
  "hex_lower d = (if d < 10 then of_nat (0x30 + d) else of_nat (0x57 + d))"

definition unicode_escape :: "u16 \<Rightarrow> jstring" where
  "unicode_escape u =
     js [CHR 0x5C, CHR ''u''] @ map (\<lambda>k. hex_lower (unat u div 16 ^ k mod 16)) [3, 2, 1, 0]"

text \<open>\<open>JSON.stringify\<close> of a string: quotes, the short escapes, and \<open>\uXXXX\<close> for the other control characters
  and lone surrogates.\<close>

definition short_escape :: "u16 \<Rightarrow> u16 option" where
  "short_escape u = map_of [(0x22, 0x22), (0x5C, 0x5C), (8, 0x62), (9, 0x74), (0xA, 0x6E), (0xC, 0x66), (0xD, 0x72)] u"

definition quote_unit :: "u16 \<Rightarrow> jstring" where
  "quote_unit u =
     (case short_escape u of
        Some c \<Rightarrow> [0x5C, c]
      | None \<Rightarrow> if u < 0x20 \<or> is_high (unat u) \<or> is_low (unat u) then unicode_escape u else [u])"

fun quote_units :: "jstring \<Rightarrow> jstring" where
  "quote_units [] = []"
| "quote_units (u # r) =
     (case r of
        v # r' \<Rightarrow> if is_high (unat u) \<and> is_low (unat v) then u # v # quote_units r' else quote_unit u @ quote_units r
      | [] \<Rightarrow> quote_unit u)"

definition quote :: "jstring \<Rightarrow> jstring" where
  "quote s = 0x22 # quote_units s @ [0x22]"

definition commas :: "jstring list \<Rightarrow> jstring" where
  "commas xs = (case xs of [] \<Rightarrow> [] | x # r \<Rightarrow> x @ concat (map (\<lambda>y. 0x2C # y) r))"

text \<open>\<open>JSON.stringify\<close>; \<open>num_text\<close> is \<open>Number::toString\<close>.\<close>

fun stringify :: "(rat \<Rightarrow> jstring) \<Rightarrow> native_value \<Rightarrow> jstring" where
  "stringify num_text J_null = js ''null''"
| "stringify num_text (J_bool b) = (if b then js ''true'' else js ''false'')"
| "stringify num_text (J_num q) = num_text q"
| "stringify num_text (J_str s) = quote s"
| "stringify num_text (J_list vs) = 0x5B # commas (map (stringify num_text) vs) @ [0x5D]"
| "stringify num_text (J_map kvs) = 0x7B # commas (map (\<lambda>(k, v). quote k @ 0x3A # stringify num_text v) kvs) @ [0x7D]"
| "stringify num_text (J_resource n) = js (''{'' @ [CHR 0x22] @ ''resource'' @ [CHR 0x22] @ '':'') @ quote (js ''resource:'' @ decimal n) @ js ''}''"

section \<open>The length of JSON text\<close>

lemma utf8ByteLength_Nil [simp]: "utf8ByteLength [] = 0"
  by (simp add: utf8ByteLength_sum)

text \<open>Text can be cut before a unit that is no low surrogate.\<close>

lemma codePoints_append:
  "b = [] \<or> \<not> is_low (unat (hd b)) \<Longrightarrow>
   forEachUtf8CodePoint (a @ b) = forEachUtf8CodePoint a @ forEachUtf8CodePoint b"
proof (induction a rule: forEachUtf8CodePoint.induct)
  case (2 u r)
  show ?case
  proof (cases r)
    case Nil
    then show ?thesis using 2 by (cases b) auto
  next
    case (Cons v r')
    then show ?thesis using 2 by auto
  qed
qed simp

lemma utf8ByteLength_append:
  "b = [] \<or> \<not> is_low (unat (hd b)) \<Longrightarrow> utf8ByteLength (a @ b) = utf8ByteLength a + utf8ByteLength b"
  by (simp add: utf8ByteLength_sum codePoints_append)

lemma not_surrogate: "(u :: u16) < 0x80 \<Longrightarrow> \<not> is_high (unat u) \<and> \<not> is_low (unat u)"
  by (simp add: is_high_def is_low_def word_less_nat_alt)

lemma utf8ByteLength_ascii:
  "u < 0x80 \<Longrightarrow> utf8ByteLength (u # b) = 1 + utf8ByteLength b"
  using not_surrogate [of u] by (simp add: utf8ByteLength_sum code_width_def word_less_nat_alt)

lemma utf8ByteLength_snoc: "u < 0x80 \<Longrightarrow> utf8ByteLength (b @ u # c) = utf8ByteLength b + 1 + utf8ByteLength c"
  using not_surrogate [of u] utf8ByteLength_append [of "u # c" b] utf8ByteLength_ascii [of u c] by simp

end
