(* ===== verification/Value_Validation.thy ===== *)
theory Value_Validation
  imports Js_Values
begin

text \<open>
  Validation of the values that cross the native port (\<open>native-port/value-validation.ts\<close>,
  \<open>errors.ts\<close>, the limits of \<open>types.ts\<close>): the bounded copy of JSON data, with resource references
  when the value is the argument of a request, and the admission of binary parts.
\<close>

datatype native_code = N_cancelled | N_capability_unsupported | N_disposed | N_internal | N_invalid_request | N_invalid_value
  | N_limit_exceeded | N_not_found | N_operation_unsupported | N_exists | N_permission_denied | N_protocol_error
  | N_resource_invalid | N_connection_refused | N_timeout | N_unavailable

record native_limits =
  maxBinaryBytes :: nat
  maxBinaryHandles :: nat
  maxCreditsPerStream :: nat
  maxHandles :: nat
  maxInFlightBinaryBytes :: nat
  maxInFlightBinaryHandles :: nat
  maxInlineBytes :: nat
  maxJsonDepth :: nat
  maxOpenResources :: nat
  maxOutstandingCredits :: nat
  maxPendingRequests :: nat
  maxTimeoutMs :: nat

section \<open>Copying JSON data\<close>

fun inlineByteLength :: "jstring \<Rightarrow> nat" where
  "inlineByteLength [] = 0"
| "inlineByteLength (u # r) =
     (let code = unat u
      in if code < 0x80 then 1 + inlineByteLength r
         else if code < 0x800 then 2 + inlineByteLength r
         else if code \<ge> 0xD800 \<and> code \<le> 0xDBFF \<and> r \<noteq> [] then
           (let nxt = unat (hd r)
            in if nxt \<ge> 0xDC00 \<and> nxt \<le> 0xDFFF then 4 + inlineByteLength (tl r) else 3 + inlineByteLength r)
         else 3 + inlineByteLength r)"

definition encodedStringBytes :: "jstring \<Rightarrow> nat" where
  "encodedStringBytes s = inlineByteLength (quote s)"

text \<open>A resolver of resource handles: an error, a reference, or nothing for another object.\<close>

type_synonym 'r resolver = "obj_ref \<Rightarrow> 'r \<Rightarrow> (native_code + nat option) \<times> 'r"

record 'r clone_state =
  cl_bytes :: nat
  cl_failure :: native_code
  cl_uses :: 'r

definition addBytes :: "native_limits \<Rightarrow> nat \<Rightarrow> 'a \<Rightarrow> 'r clone_state \<Rightarrow> 'a option \<times> 'r clone_state" where
  "addBytes L amount x st =
     (let bytes = cl_bytes st + amount
      in if int bytes > MAX_SAFE_INTEGER \<or> bytes > maxInlineBytes L
         then (None, st\<lparr>cl_bytes := bytes, cl_failure := N_limit_exceeded\<rparr>)
         else (Some x, st\<lparr>cl_bytes := bytes\<rparr>))"

text \<open>The own keys are \<open>length\<close> and exactly the indices below \<open>n\<close>.\<close>

definition index_keys :: "obj \<Rightarrow> nat \<Rightarrow> bool" where
  "index_keys ob n \<longleftrightarrow>
     length (ownKeys ob) = n + 1 \<and>
     list_all (\<lambda>k. case k of
         Symbol _ \<Rightarrow> False
       | Key key \<Rightarrow> key = js ''length'' \<or> (case array_index key of None \<Rightarrow> False | Some i \<Rightarrow> i < n)) (ownKeys ob)"

definition array_length :: "obj \<Rightarrow> nat option" where
  "array_length ob =
     (case getOwnPropertyDescriptor ob (js ''length'') of
        None \<Rightarrow> None
      | Some p \<Rightarrow> (case pr_value p of None \<Rightarrow> None | Some v \<Rightarrow> safe_nat v))"

definition array_shape :: "obj \<Rightarrow> nat option" where
  "array_shape ob =
     (case array_length ob of None \<Rightarrow> None | Some n \<Rightarrow> if index_keys ob n then Some n else None)"

definition keys_text :: "prop_key list \<Rightarrow> jstring list" where
  "keys_text ks = concat (map (\<lambda>k. case k of Key key \<Rightarrow> [key] | Symbol _ \<Rightarrow> []) ks)"

function clone_visit ::
    "(rat \<Rightarrow> jstring) \<Rightarrow> js_heap \<Rightarrow> native_limits \<Rightarrow> 'r resolver option \<Rightarrow> obj_ref set \<Rightarrow> nat \<Rightarrow> jsv \<Rightarrow> 'r clone_state \<Rightarrow>
     native_value option \<times> 'r clone_state"
  and clone_items ::
    "(rat \<Rightarrow> jstring) \<Rightarrow> js_heap \<Rightarrow> native_limits \<Rightarrow> 'r resolver option \<Rightarrow> obj_ref set \<Rightarrow> nat \<Rightarrow> obj \<Rightarrow> nat list \<Rightarrow>
     'r clone_state \<Rightarrow> native_value list option \<times> 'r clone_state"
  and clone_entries ::
    "(rat \<Rightarrow> jstring) \<Rightarrow> js_heap \<Rightarrow> native_limits \<Rightarrow> 'r resolver option \<Rightarrow> obj_ref set \<Rightarrow> nat \<Rightarrow> obj \<Rightarrow> jstring list \<Rightarrow>
     'r clone_state \<Rightarrow> (jstring \<times> native_value) list option \<times> 'r clone_state" where
  "clone_visit num h L res active depth v st =
     (if depth > maxJsonDepth L then (None, st)
      else case v of
        V_null \<Rightarrow> addBytes L 4 J_null st
      | V_bool b \<Rightarrow> addBytes L (if b then 4 else 5) (J_bool b) st
      | V_num (Fin q) \<Rightarrow> addBytes L (inlineByteLength (num q)) (J_num q) st
      | V_str s \<Rightarrow> addBytes L (encodedStringBytes s) (J_str s) st
      | V_ref a \<Rightarrow>
          if a \<in> active then (None, st)
          else (case (case res of None \<Rightarrow> (Inr None, cl_uses st) | Some f \<Rightarrow> f a (cl_uses st)) of
              (Inl e, uses) \<Rightarrow>
                (None, st\<lparr>cl_uses := uses, cl_failure := (if e = N_resource_invalid then N_resource_invalid else N_invalid_value)\<rparr>)
            | (Inr (Some i), uses) \<Rightarrow>
                addBytes L (13 + encodedStringBytes (js ''resource:'' @ decimal i)) (J_resource i) (st\<lparr>cl_uses := uses\<rparr>)
            | (Inr None, uses) \<Rightarrow>
                (let st = st\<lparr>cl_uses := uses\<rparr>; ob = h a; active = insert a active
                 in if \<not> ob_array ob \<and> \<not> plain_prototype ob then (None, st)
                    else if list_ex (\<lambda>k. case k of Symbol _ \<Rightarrow> True | _ \<Rightarrow> False) (ownKeys ob) then (None, st)
                    else if ob_array ob then
                      (case array_shape ob of
                         None \<Rightarrow> (None, st)
                       | Some n \<Rightarrow>
                           (case addBytes L (2 + (n - 1)) () st of
                              (None, st) \<Rightarrow> (None, st)
                            | (Some _, st) \<Rightarrow>
                                (case clone_items num h L res active (depth + 1) ob [0..<n] st of
                                   (r, st) \<Rightarrow> (map_option J_list r, st))))
                    else
                      (case addBytes L (2 + (length (ownKeys ob) - 1)) () st of
                         (None, st) \<Rightarrow> (None, st)
                       | (Some _, st) \<Rightarrow>
                           (case clone_entries num h L res active (depth + 1) ob (keys_text (ownKeys ob)) st of
                              (r, st) \<Rightarrow> (map_option J_map r, st)))))
      | _ \<Rightarrow> (None, st))"
| "clone_items num h L res active depth ob [] st = (Some [], st)"
| "clone_items num h L res active depth ob (i # is) st =
     (case ownDataDescriptor ob (decimal i) of
        None \<Rightarrow> (None, st)
      | Some v \<Rightarrow>
          (case clone_visit num h L res active depth v st of
             (None, st) \<Rightarrow> (None, st)
           | (Some x, st) \<Rightarrow>
               (case clone_items num h L res active depth ob is st of
                  (r, st) \<Rightarrow> (map_option ((#) x) r, st))))"
| "clone_entries num h L res active depth ob [] st = (Some [], st)"
| "clone_entries num h L res active depth ob (k # ks) st =
     (case ownDataDescriptor ob k of
        None \<Rightarrow> (None, st)
      | Some v \<Rightarrow>
          (case addBytes L (encodedStringBytes k + 1) () st of
             (None, st) \<Rightarrow> (None, st)
           | (Some _, st) \<Rightarrow>
               (case clone_visit num h L res active depth v st of
                  (None, st) \<Rightarrow> (None, st)
                | (Some x, st) \<Rightarrow>
                    (case clone_entries num h L res active depth ob ks st of
                       (r, st) \<Rightarrow> (map_option ((#) (k, x)) r, st)))))"
  by pat_completeness auto
termination
  by (relation "measures [\<lambda>x. case x of
        Inl (_, _, L, _, _, d, _) \<Rightarrow> 2 * (maxJsonDepth L + 2 - d)
      | Inr (Inl (_, _, L, _, _, d, _)) \<Rightarrow> 2 * (maxJsonDepth L + 2 - d) + 1
      | Inr (Inr (_, _, L, _, _, d, _)) \<Rightarrow> 2 * (maxJsonDepth L + 2 - d) + 1,
      \<lambda>x. case x of Inl _ \<Rightarrow> 0 | Inr (Inl (_, _, _, _, _, _, _, is, _)) \<Rightarrow> length is | Inr (Inr (_, _, _, _, _, _, _, ks, _)) \<Rightarrow> length ks]")
     auto

declare clone_visit.simps [simp del]

definition cloneValue ::
    "(rat \<Rightarrow> jstring) \<Rightarrow> js_heap \<Rightarrow> native_limits \<Rightarrow> 'r resolver option \<Rightarrow> jsv \<Rightarrow> 'r \<Rightarrow>
     (native_code + nat \<times> native_value) \<times> 'r" where
  "cloneValue num h L res v uses =
     (case clone_visit num h L res {} 0 v \<lparr>cl_bytes = 0, cl_failure = N_invalid_value, cl_uses = uses\<rparr> of
        (None, st) \<Rightarrow> (Inl (cl_failure st), cl_uses st)
      | (Some x, st) \<Rightarrow> (Inr (cl_bytes st, x), cl_uses st))"

definition cloneJsonValue ::
    "(rat \<Rightarrow> jstring) \<Rightarrow> js_heap \<Rightarrow> native_limits \<Rightarrow> jsv \<Rightarrow> native_code + nat \<times> native_value" where
  "cloneJsonValue num h L v = fst (cloneValue num h L None v ())"

definition cloneNativeArgumentValue ::
    "(rat \<Rightarrow> jstring) \<Rightarrow> js_heap \<Rightarrow> native_limits \<Rightarrow> 'r resolver \<Rightarrow> jsv \<Rightarrow> 'r \<Rightarrow>
     (native_code + nat \<times> native_value) \<times> 'r" where
  "cloneNativeArgumentValue num h L f v uses = cloneValue num h L (Some f) v uses"

section \<open>Binary parts\<close>

definition is_word :: "u16 \<Rightarrow> bool" where
  "is_word u \<longleftrightarrow> is_digit u \<or> 0x41 \<le> u \<and> u \<le> 0x5A \<or> 0x61 \<le> u \<and> u \<le> 0x7A \<or> u = 0x5F"

text \<open>\<open>/^\w[\w.:-]{0,127}$/u\<close> and \<open>/^[\w@][\w@./:-]{0,127}$/u\<close>.\<close>

definition id_pattern_test :: "jstring \<Rightarrow> bool" where
  "id_pattern_test s \<longleftrightarrow>
     (case s of [] \<Rightarrow> False | u # r \<Rightarrow> is_word u \<and> length r \<le> 127 \<and> list_all (\<lambda>u. is_word u \<or> u \<in> set (js ''.:-'')) r)"

definition name_pattern_test :: "jstring \<Rightarrow> bool" where
  "name_pattern_test s \<longleftrightarrow>
     (case s of [] \<Rightarrow> False
      | u # r \<Rightarrow> (is_word u \<or> u \<in> set (js ''@'')) \<and> length r \<le> 127 \<and>
          list_all (\<lambda>u. is_word u \<or> u \<in> set (js ''@./:-'')) r)"

record plan_entry =
  pe_bytes :: nat
  pe_handle :: jstring
  pe_kind :: bytes_kind
  pe_source :: obj_ref

record binary_plan =
  bp_bytes :: nat
  bp_entries :: "plan_entry list"
  bp_handles :: nat

definition readBinarySource :: "js_heap \<Rightarrow> jsv \<Rightarrow> (nat \<times> bytes_kind \<times> obj_ref) option" where
  "readBinarySource h v =
     (case v of
        V_ref a \<Rightarrow>
          (case ob_bytes (h a) of
             Some (Uint8_array, bs) \<Rightarrow>
               if ob_proto (h a) = Uint8Array_prototype then Some (length bs, Uint8_array, a) else None
           | Some (Array_buffer, bs) \<Rightarrow>
               if ob_proto (h a) = ArrayBuffer_prototype then Some (length bs, Array_buffer, a) else None
           | None \<Rightarrow> None)
      | _ \<Rightarrow> None)"

text \<open>One item of the list: its handle and source.\<close>

definition binary_item :: "js_heap \<Rightarrow> obj \<Rightarrow> nat \<Rightarrow> (jstring \<times> nat \<times> bytes_kind \<times> obj_ref) option" where
  "binary_item h ob i =
     (case ownDataDescriptor ob (decimal i) of
        None \<Rightarrow> None
      | Some v \<Rightarrow>
          (case as_record h v of
             None \<Rightarrow> None
           | Some item \<Rightarrow>
               if \<not> plain_prototype item \<or> length (ownKeys item) \<noteq> 2 \<or> Key (js ''data'') \<notin> set (ownKeys item) \<or>
                  Key (js ''handle'') \<notin> set (ownKeys item)
               then None
               else (case (ownDataDescriptor item (js ''data''), ownDataDescriptor item (js ''handle'')) of
                       (Some d, Some (V_str handle)) \<Rightarrow>
                         if id_pattern_test handle then map_option (\<lambda>src. (handle, src)) (readBinarySource h d) else None
                     | _ \<Rightarrow> None)))"

fun binary_items ::
    "js_heap \<Rightarrow> native_limits \<Rightarrow> obj \<Rightarrow> nat list \<Rightarrow> nat \<Rightarrow> plan_entry list \<Rightarrow> native_code + nat \<times> plan_entry list" where
  "binary_items h L ob [] bytes entries = Inr (bytes, entries)"
| "binary_items h L ob (i # is) bytes entries =
     (case binary_item h ob i of
        None \<Rightarrow> Inl N_invalid_value
      | Some (handle, n, kind, src) \<Rightarrow>
          if handle \<in> pe_handle ` set entries then Inl N_invalid_value
          else if int (bytes + n) > MAX_SAFE_INTEGER \<or> bytes + n > maxBinaryBytes L then Inl N_limit_exceeded
          else binary_items h L ob is (bytes + n)
                 (entries @ [\<lparr>pe_bytes = n, pe_handle = handle, pe_kind = kind, pe_source = src\<rparr>]))"

definition preflightBinary :: "js_heap \<Rightarrow> native_limits \<Rightarrow> jsv \<Rightarrow> native_code + binary_plan" where
  "preflightBinary h L v =
     (if v = V_undefined then Inr \<lparr>bp_bytes = 0, bp_entries = [], bp_handles = 0\<rparr>
      else case as_array h v of
        None \<Rightarrow> Inl N_invalid_value
      | Some ob \<Rightarrow>
          (case array_length ob of
             None \<Rightarrow> Inl N_invalid_value
           | Some n \<Rightarrow>
               if n > maxBinaryHandles L then Inl N_limit_exceeded
               else if \<not> index_keys ob n then Inl N_invalid_value
               else (case binary_items h L ob [0..<n] 0 [] of
                       Inl e \<Rightarrow> Inl e
                     | Inr (bytes, entries) \<Rightarrow>
                         Inr \<lparr>bp_bytes = bytes, bp_entries = entries, bp_handles = length entries\<rparr>)))"

text \<open>\<open>copyBinary\<close>: the bytes at the time of the call, \<open>None\<close> for \<open>undefined\<close>.\<close>

definition copyBinary :: "js_heap \<Rightarrow> binary_plan \<Rightarrow> (jstring \<times> byte list) list option" where
  "copyBinary h plan =
     (if bp_entries plan = [] then None
      else Some (map (\<lambda>e. (pe_handle e, case ob_bytes (h (pe_source e)) of None \<Rightarrow> [] | Some (_, bs) \<Rightarrow> bs)) (bp_entries plan)))"

lemma binary_items_bounds:
  "binary_items h L ob is bytes entries = Inr (b, es) \<Longrightarrow> bytes \<le> maxBinaryBytes L \<Longrightarrow>
   b \<le> maxBinaryBytes L \<and> length es = length entries + length is"
  by (induction h L ob "is" bytes entries rule: binary_items.induct) (auto split: option.splits prod.splits if_splits)

lemma preflightBinary_bounds:
  assumes "preflightBinary h L v = Inr plan"
  shows "bp_bytes plan \<le> maxBinaryBytes L \<and> bp_handles plan \<le> maxBinaryHandles L"
  using assms by (auto simp: preflightBinary_def dest!: binary_items_bounds split: if_splits option.splits sum.splits)

end
