(* ===== verification/Event_Validation.thy ===== *)
theory Event_Validation
  imports Value_Validation
begin

text \<open>
  Inspection of the events a provider sends (\<open>native-port/event-validation.ts\<close>): the grants of
  resources a malformed event carries, and the event itself when it is well formed.
\<close>

section \<open>Resource grants\<close>

record resource_grant =
  gr_token :: jstring
  gr_type :: jstring

record grant_extraction =
  ex_code :: "native_code option"
  ex_grants :: "resource_grant list"
  ex_duplicate :: bool

text \<open>\<open>hasKnownDataKeys\<close>: required keys are enumerable data properties, optional ones are so or absent.\<close>

definition hasKnownDataKeys :: "obj \<Rightarrow> string list \<Rightarrow> string list \<Rightarrow> bool" where
  "hasKnownDataKeys ob required optional \<longleftrightarrow>
     list_all (\<lambda>k. ownDataDescriptor ob (js k) \<noteq> None) required \<and>
     list_all (\<lambda>k. getOwnPropertyDescriptor ob (js k) = None \<or> ownDataDescriptor ob (js k) \<noteq> None) optional"

definition grant_item :: "js_heap \<Rightarrow> obj \<Rightarrow> nat \<Rightarrow> resource_grant option" where
  "grant_item h ob i =
     (case ownDataDescriptor ob (decimal i) of
        None \<Rightarrow> None
      | Some v \<Rightarrow>
          (case as_record h v of
             None \<Rightarrow> None
           | Some item \<Rightarrow>
               if \<not> plain_prototype item \<or> \<not> hasKnownDataKeys item [''providerToken'', ''type''] [] then None
               else (case (ownData item (js ''providerToken''), ownData item (js ''type'')) of
                       (V_str token, V_str type) \<Rightarrow>
                         if name_pattern_test token \<and> name_pattern_test type
                         then Some \<lparr>gr_token = token, gr_type = type\<rparr> else None
                     | _ \<Rightarrow> None)))"

fun grant_items :: "js_heap \<Rightarrow> obj \<Rightarrow> nat list \<Rightarrow> resource_grant list \<Rightarrow> bool \<Rightarrow> grant_extraction" where
  "grant_items h ob [] grants duplicate = \<lparr>ex_code = None, ex_grants = grants, ex_duplicate = duplicate\<rparr>"
| "grant_items h ob (i # is) grants duplicate =
     (case grant_item h ob i of
        None \<Rightarrow> \<lparr>ex_code = Some N_protocol_error, ex_grants = grants, ex_duplicate = duplicate\<rparr>
      | Some g \<Rightarrow> grant_items h ob is (grants @ [g]) (duplicate \<or> gr_token g \<in> gr_token ` set grants))"

definition extraction_of :: "native_code option \<Rightarrow> grant_extraction" where
  "extraction_of code = \<lparr>ex_code = code, ex_grants = [], ex_duplicate = False\<rparr>"

definition extractResourceGrants :: "js_heap \<Rightarrow> native_limits \<Rightarrow> jsv \<Rightarrow> grant_extraction" where
  "extractResourceGrants h L v =
     (if v = V_undefined then extraction_of None
      else case as_array h v of
        None \<Rightarrow> extraction_of (Some N_protocol_error)
      | Some ob \<Rightarrow>
          (case array_length ob of
             None \<Rightarrow> extraction_of (Some N_protocol_error)
           | Some n \<Rightarrow>
               if n > maxOpenResources L \<or> n > maxHandles L then extraction_of (Some N_limit_exceeded)
               else grant_items h ob [0..<n] [] False))"

definition extractUndeliveredResourceGrants :: "js_heap \<Rightarrow> native_limits \<Rightarrow> jsv \<Rightarrow> grant_extraction" where
  "extractUndeliveredResourceGrants h L event =
     (case as_record h event of
        None \<Rightarrow> extraction_of (Some N_protocol_error)
      | Some ob \<Rightarrow>
          (case getOwnPropertyDescriptor ob (js ''resources'') of
             None \<Rightarrow> extractResourceGrants h L V_undefined
           | Some p \<Rightarrow>
               (case ownDataDescriptor ob (js ''resources'') of
                  None \<Rightarrow> extraction_of (Some N_protocol_error)
                | Some v \<Rightarrow> extractResourceGrants h L v)))"

section \<open>Events\<close>

datatype native_domain = D_fs | D_network | D_runtime

record error_details =
  ed_resource :: "jstring option"
  ed_retryable :: "bool option"

record native_error =
  ne_code :: native_code
  ne_domain :: native_domain
  ne_details :: "error_details option"

record prepared_output =
  po_binaryPlan :: binary_plan
  po_resources :: "resource_grant list"
  po_value :: "native_value option"

datatype native_event = NE_error native_error | NE_end prepared_output | NE_result prepared_output
  | NE_chunk prepared_output nat

definition error_codes :: "native_domain \<Rightarrow> (string \<times> native_code) list" where
  "error_codes d =
     (case d of
        D_fs \<Rightarrow> [(''exists'', N_exists), (''not_found'', N_not_found), (''permission_denied'', N_permission_denied)]
      | D_network \<Rightarrow> [(''connection_refused'', N_connection_refused), (''timeout'', N_timeout), (''unavailable'', N_unavailable)]
      | D_runtime \<Rightarrow> [(''cancelled'', N_cancelled), (''capability_unsupported'', N_capability_unsupported),
          (''disposed'', N_disposed), (''internal'', N_internal), (''invalid_request'', N_invalid_request),
          (''invalid_value'', N_invalid_value), (''limit_exceeded'', N_limit_exceeded),
          (''operation_unsupported'', N_operation_unsupported), (''protocol_error'', N_protocol_error),
          (''resource_invalid'', N_resource_invalid), (''timeout'', N_timeout)])"

definition code_in_domain :: "native_domain \<Rightarrow> jstring \<Rightarrow> native_code option" where
  "code_in_domain d text = map_of (map (\<lambda>(k, c). (js k, c)) (error_codes d)) text"

definition domain_named :: "jsv \<Rightarrow> native_domain option" where
  "domain_named v =
     (if v = V_undefined \<or> v = V_null then Some D_runtime
      else if v = V_str (js ''fs'') then Some D_fs else if v = V_str (js ''network'') then Some D_network
      else if v = V_str (js ''runtime'') then Some D_runtime else None)"

definition readDetails :: "js_heap \<Rightarrow> jsv \<Rightarrow> error_details option option" where
  "readDetails h raw =
     (if raw = V_undefined then Some None
      else case as_record h raw of
        None \<Rightarrow> None
      | Some ob \<Rightarrow>
          if \<not> plain_prototype ob \<or> \<not> hasKnownDataKeys ob [] [''resource'', ''retryable''] then None
          else (case (case ownData ob (js ''resource'') of
                        V_undefined \<Rightarrow> Some None
                      | V_str s \<Rightarrow> if s \<in> set (map js [''directory'', ''file'', ''host'', ''socket'']) then Some (Some s) else None
                      | _ \<Rightarrow> None,
                      case ownData ob (js ''retryable'') of
                        V_undefined \<Rightarrow> Some None | V_bool b \<Rightarrow> Some (Some b) | _ \<Rightarrow> None) of
                  (Some resource, Some retryable) \<Rightarrow> Some (Some \<lparr>ed_resource = resource, ed_retryable = retryable\<rparr>)
                | _ \<Rightarrow> None))"

definition readError :: "js_heap \<Rightarrow> obj \<Rightarrow> native_code + native_event" where
  "readError h ob =
     (if \<not> hasKnownDataKeys ob [''error'', ''id'', ''type''] [''resources''] \<or>
         getOwnPropertyDescriptor ob (js ''resources'') \<noteq> None
      then Inl N_protocol_error
      else case as_record h (ownData ob (js ''error'')) of
        None \<Rightarrow> Inl N_protocol_error
      | Some err \<Rightarrow>
          if getOwnPropertyDescriptor err (js ''message'') \<noteq> None \<or> \<not> plain_prototype err \<or>
             \<not> hasKnownDataKeys err [''code''] [''details'', ''domain'']
          then Inl N_protocol_error
          else (case (ownData err (js ''code''), domain_named (ownData err (js ''domain''))) of
                  (V_str code, Some d) \<Rightarrow>
                    (case (code_in_domain d code, readDetails h (ownData err (js ''details''))) of
                       (Some c, Some details) \<Rightarrow> Inr (NE_error \<lparr>ne_code = c, ne_domain = d, ne_details = details\<rparr>)
                     | _ \<Rightarrow> Inl N_protocol_error)
                | _ \<Rightarrow> Inl N_protocol_error))"

text \<open>\<open>readOptionalData\<close>: absent, invalid, or present with a value.\<close>

datatype optional_data = Absent | Invalid | Present jsv

definition readOptionalData :: "obj \<Rightarrow> string \<Rightarrow> optional_data" where
  "readOptionalData ob key =
     (case getOwnPropertyDescriptor ob (js key) of
        None \<Rightarrow> Absent
      | Some p \<Rightarrow> (case ownDataDescriptor ob (js key) of None \<Rightarrow> Invalid | Some v \<Rightarrow> Present v))"

definition optional_value :: "optional_data \<Rightarrow> jsv" where
  "optional_value d = (case d of Present v \<Rightarrow> v | _ \<Rightarrow> V_undefined)"

definition as_limit :: "native_code \<Rightarrow> native_code" where
  "as_limit e = (if e = N_limit_exceeded then N_limit_exceeded else N_protocol_error)"

definition readOutput :: "(rat \<Rightarrow> jstring) \<Rightarrow> js_heap \<Rightarrow> obj \<Rightarrow> native_limits \<Rightarrow> native_code + prepared_output" where
  "readOutput num h ob L =
     (let binary = readOptionalData ob ''binary''; resources = readOptionalData ob ''resources'';
          v = readOptionalData ob ''value''
      in if binary = Invalid \<or> resources = Invalid \<or> v = Invalid then Inl N_protocol_error
         else case (case v of Present x \<Rightarrow> map_sum as_limit (\<lambda>(_, w). Some w) (cloneJsonValue num h L x) | _ \<Rightarrow> Inr None) of
           Inl e \<Rightarrow> Inl e
         | Inr cloned \<Rightarrow>
             (case preflightBinary h L (optional_value binary) of
                Inl e \<Rightarrow> Inl (as_limit e)
              | Inr plan \<Rightarrow>
                  (let ex = extractResourceGrants h L (optional_value resources)
                   in case ex_code ex of
                        Some e \<Rightarrow> Inl e
                      | None \<Rightarrow> Inr \<lparr>po_binaryPlan = plan, po_resources = ex_grants ex, po_value = cloned\<rparr>)))"

definition readHeader :: "js_heap \<Rightarrow> jsv \<Rightarrow> jstring \<Rightarrow> (obj \<times> jstring) option" where
  "readHeader h event expectedId =
     (case as_record h event of
        None \<Rightarrow> None
      | Some ob \<Rightarrow>
          if \<not> plain_prototype ob \<or> ownData ob (js ''id'') \<noteq> V_str expectedId then None
          else (case ownData ob (js ''type'') of V_str t \<Rightarrow> Some (ob, t) | _ \<Rightarrow> None))"

definition preflightNativePortEvent ::
    "(rat \<Rightarrow> jstring) \<Rightarrow> js_heap \<Rightarrow> jsv \<Rightarrow> jstring \<Rightarrow> native_limits \<Rightarrow> bool \<Rightarrow> native_code + native_event" where
  "preflightNativePortEvent num h event expectedId L acceptChunk =
     (case readHeader h event expectedId of
        None \<Rightarrow> Inl N_protocol_error
      | Some (ob, type) \<Rightarrow>
          if type = js ''error'' then readError h ob
          else if type = js ''chunk'' then
            (if \<not> acceptChunk then Inl N_protocol_error
             else case safe_nat (ownData ob (js ''sequence'')) of
                    None \<Rightarrow> Inl N_protocol_error
                  | Some n \<Rightarrow> map_sum id (\<lambda>output. NE_chunk output n) (readOutput num h ob L))
          else if type \<noteq> js ''result'' \<and> type \<noteq> js ''end'' then Inl N_protocol_error
          else map_sum id (if type = js ''end'' then NE_end else NE_result) (readOutput num h ob L))"

section \<open>What the inspection guarantees\<close>

definition event_output :: "native_event \<Rightarrow> prepared_output option" where
  "event_output e = (case e of NE_error _ \<Rightarrow> None | NE_end p \<Rightarrow> Some p | NE_result p \<Rightarrow> Some p | NE_chunk p _ \<Rightarrow> Some p)"

lemma map_sum_Inr: "map_sum id f r = Inr e \<longleftrightarrow> (\<exists>x. r = Inr x \<and> e = f x)"
  by (cases r) auto

lemma preflight_output:
  assumes "preflightNativePortEvent num h event expectedId L acceptChunk = Inr e" "event_output e = Some p"
  shows "\<exists>ob. as_record h event = Some ob \<and> readOutput num h ob L = Inr p"
  using assms
  by (auto simp: preflightNativePortEvent_def readHeader_def readError_def event_output_def
      map_sum_Inr split: option.splits if_splits sum.splits jsv.splits prod.splits)

text \<open>The resources of an accepted event are those the scan for undelivered grants found.\<close>

lemma preflight_grants:
  assumes "preflightNativePortEvent num h event expectedId L acceptChunk = Inr e" "event_output e = Some p"
  shows "ex_grants (extractUndeliveredResourceGrants h L event) = po_resources p \<and>
    ex_code (extractUndeliveredResourceGrants h L event) = None"
proof -
  obtain ob where ob: "as_record h event = Some ob" "readOutput num h ob L = Inr p" using preflight_output [OF assms] by blast
  then have "readOptionalData ob ''resources'' \<noteq> Invalid"
    "ex_code (extractResourceGrants h L (optional_value (readOptionalData ob ''resources''))) = None"
    "po_resources p = ex_grants (extractResourceGrants h L (optional_value (readOptionalData ob ''resources'')))"
    by (auto simp: readOutput_def Let_def split: if_splits sum.splits option.splits)
  then show ?thesis using ob(1)
    by (auto simp: extractUndeliveredResourceGrants_def readOptionalData_def optional_value_def split: option.splits)
qed

lemma preflight_binary:
  assumes "preflightNativePortEvent num h event expectedId L acceptChunk = Inr e" "event_output e = Some p"
  shows "bp_bytes (po_binaryPlan p) \<le> maxBinaryBytes L \<and> bp_handles (po_binaryPlan p) \<le> maxBinaryHandles L"
proof -
  obtain ob where "readOutput num h ob L = Inr p" using preflight_output [OF assms] by blast
  then have "preflightBinary h L (optional_value (readOptionalData ob ''binary'')) = Inr (po_binaryPlan p)"
    by (auto simp: readOutput_def Let_def split: if_splits sum.splits option.splits)
  then show ?thesis by (rule preflightBinary_bounds)
qed

end
