(* ===== verification/Request_Validation.thy ===== *)
theory Request_Validation
  imports Value_Validation
begin

text \<open>
  Admission checks of the native bridge (\<open>native-port/request-validation.ts\<close>): limits, the authority,
  call options, deadlines and requests.  An abort signal is a host object: \<open>signals a\<close> is \<open>None\<close> when the
  object \<open>a\<close> is none, and its \<open>aborted\<close> flag otherwise.  The clock is read once per call; \<open>None\<close> is a
  clock that throws.
\<close>

definition DEFAULT_NATIVE_BRIDGE_LIMITS :: native_limits where
  "DEFAULT_NATIVE_BRIDGE_LIMITS = \<lparr>maxBinaryBytes = 8 * 1024 * 1024, maxBinaryHandles = 128, maxCreditsPerStream = 16,
     maxHandles = 512, maxInFlightBinaryBytes = 32 * 1024 * 1024, maxInFlightBinaryHandles = 512,
     maxInlineBytes = 1024 * 1024, maxJsonDepth = 64, maxOpenResources = 128, maxOutstandingCredits = 256,
     maxPendingRequests = 64, maxTimeoutMs = 5 * 60 * 1000\<rparr>"

section \<open>Strict records and arrays\<close>

definition strict_key :: "string list \<Rightarrow> obj \<Rightarrow> prop_key \<Rightarrow> bool" where
  "strict_key allowed ob k \<longleftrightarrow>
     (case k of Symbol _ \<Rightarrow> False | Key key \<Rightarrow> key \<in> set (map js allowed) \<and> ownDataDescriptor ob key \<noteq> None)"

definition readStrictRecord :: "js_heap \<Rightarrow> jsv \<Rightarrow> string list \<Rightarrow> string list \<Rightarrow> obj option" where
  "readStrictRecord h v allowed required =
     (case as_record h v of
        None \<Rightarrow> None
      | Some ob \<Rightarrow>
          if plain_prototype ob \<and> list_all (strict_key allowed ob) (ownKeys ob) \<and>
             list_all (\<lambda>k. ownDataDescriptor ob (js k) \<noteq> None) required
          then Some ob else None)"

definition readStrictArray :: "js_heap \<Rightarrow> jsv \<Rightarrow> nat \<Rightarrow> native_code + jsv list" where
  "readStrictArray h v maxLength =
     (case as_array h v of
        None \<Rightarrow> Inl N_invalid_request
      | Some ob \<Rightarrow>
          (case array_length ob of
             None \<Rightarrow> Inl N_invalid_request
           | Some n \<Rightarrow>
               if n > maxLength then Inl N_limit_exceeded
               else if \<not> index_keys ob n \<or> list_ex (\<lambda>i. ownDataDescriptor ob (decimal i) = None) [0..<n]
               then Inl N_invalid_request
               else Inr (map (\<lambda>i. ownData ob (decimal i)) [0..<n])))"

section \<open>Limits\<close>

definition limit_setters :: "(string \<times> (nat \<Rightarrow> native_limits \<Rightarrow> native_limits)) list" where
  "limit_setters = [
     (''maxBinaryBytes'', \<lambda>n L. L\<lparr>maxBinaryBytes := n\<rparr>), (''maxBinaryHandles'', \<lambda>n L. L\<lparr>maxBinaryHandles := n\<rparr>),
     (''maxCreditsPerStream'', \<lambda>n L. L\<lparr>maxCreditsPerStream := n\<rparr>), (''maxHandles'', \<lambda>n L. L\<lparr>maxHandles := n\<rparr>),
     (''maxInFlightBinaryBytes'', \<lambda>n L. L\<lparr>maxInFlightBinaryBytes := n\<rparr>),
     (''maxInFlightBinaryHandles'', \<lambda>n L. L\<lparr>maxInFlightBinaryHandles := n\<rparr>),
     (''maxInlineBytes'', \<lambda>n L. L\<lparr>maxInlineBytes := n\<rparr>), (''maxJsonDepth'', \<lambda>n L. L\<lparr>maxJsonDepth := n\<rparr>),
     (''maxOpenResources'', \<lambda>n L. L\<lparr>maxOpenResources := n\<rparr>), (''maxOutstandingCredits'', \<lambda>n L. L\<lparr>maxOutstandingCredits := n\<rparr>),
     (''maxPendingRequests'', \<lambda>n L. L\<lparr>maxPendingRequests := n\<rparr>), (''maxTimeoutMs'', \<lambda>n L. L\<lparr>maxTimeoutMs := n\<rparr>)]"

fun override_limits :: "obj \<Rightarrow> (string \<times> (nat \<Rightarrow> native_limits \<Rightarrow> native_limits)) list \<Rightarrow> native_limits \<Rightarrow> native_limits option" where
  "override_limits ob [] L = Some L"
| "override_limits ob ((key, put) # rest) L =
     (if Key (js key) \<notin> set (ownKeys ob) then override_limits ob rest L
      else case safe_nat (ownData ob (js key)) of
        None \<Rightarrow> None
      | Some n \<Rightarrow> if n = 0 \<and> key \<noteq> ''maxJsonDepth'' then None else override_limits ob rest (put n L))"

definition consistent_limits :: "native_limits \<Rightarrow> bool" where
  "consistent_limits L \<longleftrightarrow>
     maxBinaryBytes L \<le> maxInFlightBinaryBytes L \<and> maxBinaryHandles L \<le> maxInFlightBinaryHandles L \<and>
     maxCreditsPerStream L \<le> maxOutstandingCredits L"

definition resolveNativeBridgeLimits :: "js_heap \<Rightarrow> jsv \<Rightarrow> native_limits option" where
  "resolveNativeBridgeLimits h overrides =
     (case (if overrides = V_undefined then Some DEFAULT_NATIVE_BRIDGE_LIMITS
            else case readStrictRecord h overrides (map fst limit_setters) [] of
              None \<Rightarrow> None
            | Some ob \<Rightarrow> override_limits ob limit_setters DEFAULT_NATIVE_BRIDGE_LIMITS) of
        None \<Rightarrow> None
      | Some L \<Rightarrow> if consistent_limits L then Some L else None)"

section \<open>The authority\<close>

record native_authority =
  na_capabilities :: "jstring list"
  na_principal :: jstring

fun all_names :: "jsv list \<Rightarrow> jstring list option" where
  "all_names [] = Some []"
| "all_names (v # vs) =
     (case v of
        V_str s \<Rightarrow> if name_pattern_test s then map_option ((#) s) (all_names vs) else None
      | _ \<Rightarrow> None)"

definition resolveNativeAuthority :: "js_heap \<Rightarrow> jsv \<Rightarrow> native_code + native_authority" where
  "resolveNativeAuthority h v =
     (case readStrictRecord h v [''capabilities'', ''principal''] [''capabilities'', ''principal''] of
        None \<Rightarrow> Inl N_invalid_request
      | Some ob \<Rightarrow>
          (case readStrictArray h (ownData ob (js ''capabilities'')) 256 of
             Inl e \<Rightarrow> Inl e
           | Inr raw \<Rightarrow>
               (case (ownData ob (js ''principal''), all_names raw) of
                  (V_str p, Some caps) \<Rightarrow>
                    if id_pattern_test p \<and> distinct caps then Inr \<lparr>na_capabilities = caps, na_principal = p\<rparr>
                    else Inl N_invalid_request
                | _ \<Rightarrow> Inl N_invalid_request)))"

section \<open>Call options and deadlines\<close>

record call_options =
  co_abortSignal :: "obj_ref option"
  co_signalAborted :: bool
  co_timeoutMs :: "nat option"

definition prepareNativeCallOptions ::
    "js_heap \<Rightarrow> (obj_ref \<Rightarrow> bool option) \<Rightarrow> jsv \<Rightarrow> native_code + call_options" where
  "prepareNativeCallOptions h signals v =
     (if v = V_undefined then Inr \<lparr>co_abortSignal = None, co_signalAborted = False, co_timeoutMs = None\<rparr>
      else case readStrictRecord h v [''signal'', ''timeoutMs''] [] of
        None \<Rightarrow> Inl N_invalid_request
      | Some ob \<Rightarrow>
          (let timeout = ownData ob (js ''timeoutMs''); signal = ownData ob (js ''signal'')
           in if timeout \<noteq> V_undefined \<and> (safe_nat timeout = None \<or> safe_nat timeout = Some 0) then Inl N_invalid_request
              else case signal of
                V_undefined \<Rightarrow> Inr \<lparr>co_abortSignal = None, co_signalAborted = False, co_timeoutMs = safe_nat timeout\<rparr>
              | V_ref a \<Rightarrow>
                  (case signals a of
                     None \<Rightarrow> Inl N_invalid_request
                   | Some aborted \<Rightarrow> Inr \<lparr>co_abortSignal = Some a, co_signalAborted = aborted, co_timeoutMs = safe_nat timeout\<rparr>)
              | _ \<Rightarrow> Inl N_invalid_request))"

definition max_safe :: rat where
  "max_safe = of_int MAX_SAFE_INTEGER"

definition raw_deadline :: "jsv \<Rightarrow> rat option option" where
  "raw_deadline v =
     (case v of
        V_undefined \<Rightarrow> Some None
      | V_num (Fin q) \<Rightarrow> if 0 \<le> q \<and> q \<le> max_safe then Some (Some q) else None
      | _ \<Rightarrow> None)"

definition resolveDeadline :: "jsv \<Rightarrow> nat option \<Rightarrow> native_limits \<Rightarrow> jsnum option \<Rightarrow> native_code + rat option" where
  "resolveDeadline rawDeadline timeoutMs L clock =
     (case raw_deadline rawDeadline of
        None \<Rightarrow> Inl N_invalid_request
      | Some raw \<Rightarrow>
          if raw = None \<and> timeoutMs = None then Inr None
          else (case clock of
              Some (Fin now) \<Rightarrow>
                if now < 0 \<or> now > max_safe then Inl N_internal
                else if (\<exists>t \<in> set_option timeoutMs. t > maxTimeoutMs L \<or> now + of_nat t > max_safe) then Inl N_limit_exceeded
                else
                  (let bound = map_option (\<lambda>t. now + of_nat t) timeoutMs;
                       deadline = (case raw of None \<Rightarrow> the bound | Some d \<Rightarrow> (case bound of None \<Rightarrow> d | Some b \<Rightarrow> min d b))
                   in if deadline - now > of_nat (maxTimeoutMs L) then Inl N_limit_exceeded
                      else if deadline \<le> now then Inl N_timeout
                      else Inr (Some deadline))
            | _ \<Rightarrow> Inl N_internal))"

section \<open>Requests\<close>

record prepared_request =
  pq_args :: native_value
  pq_binaryPlan :: binary_plan
  pq_deadlineMs :: "rat option"
  pq_id :: jstring
  pq_module :: jstring
  pq_operation :: jstring

definition prepareNativeRequest ::
    "(rat \<Rightarrow> jstring) \<Rightarrow> js_heap \<Rightarrow> jsv \<Rightarrow> call_options \<Rightarrow> native_limits \<Rightarrow> jsnum option \<Rightarrow> 'r resolver \<Rightarrow> 'r \<Rightarrow>
     (native_code + prepared_request) \<times> 'r" where
  "prepareNativeRequest num h request options L clock resolver uses =
     (case readStrictRecord h request [''args'', ''binary'', ''deadlineMs'', ''id'', ''module'', ''operation'']
             [''args'', ''id'', ''module'', ''operation''] of
        None \<Rightarrow> (Inl N_invalid_request, uses)
      | Some ob \<Rightarrow>
          (case (ownData ob (js ''id''), ownData ob (js ''module''), ownData ob (js ''operation'')) of
             (V_str i, V_str m, V_str operation) \<Rightarrow>
               if \<not> id_pattern_test i \<or> \<not> name_pattern_test m \<or> \<not> name_pattern_test operation then (Inl N_invalid_request, uses)
               else (case cloneNativeArgumentValue num h L resolver (ownData ob (js ''args'')) uses of
                   (Inl e, uses) \<Rightarrow> (Inl e, uses)
                 | (Inr (_, args), uses) \<Rightarrow>
                     (case preflightBinary h L (ownData ob (js ''binary'')) of
                        Inl e \<Rightarrow> (Inl e, uses)
                      | Inr plan \<Rightarrow>
                          (case resolveDeadline (ownData ob (js ''deadlineMs'')) (co_timeoutMs options) L clock of
                             Inl e \<Rightarrow> (Inl e, uses)
                           | Inr deadline \<Rightarrow>
                               if co_signalAborted options then (Inl N_cancelled, uses)
                               else (Inr \<lparr>pq_args = args, pq_binaryPlan = plan, pq_deadlineMs = deadline, pq_id = i,
                                          pq_module = m, pq_operation = operation\<rparr>, uses))))
           | _ \<Rightarrow> (Inl N_invalid_request, uses)))"

record native_request =
  nr_args :: native_value
  nr_binary :: "(jstring \<times> byte list) list option"
  nr_deadlineMs :: "rat option"
  nr_id :: jstring
  nr_module :: jstring
  nr_operation :: jstring

definition materializeNativePortRequest :: "js_heap \<Rightarrow> prepared_request \<Rightarrow> native_request" where
  "materializeNativePortRequest h p =
     \<lparr>nr_args = pq_args p, nr_binary = copyBinary h (pq_binaryPlan p), nr_deadlineMs = pq_deadlineMs p, nr_id = pq_id p,
      nr_module = pq_module p, nr_operation = pq_operation p\<rparr>"

section \<open>What admission guarantees\<close>

lemma resolved_limits_consistent: "resolveNativeBridgeLimits h v = Some L \<Longrightarrow> consistent_limits L"
  by (auto simp: resolveNativeBridgeLimits_def split: option.splits if_splits)

lemma deadline_window:
  "resolveDeadline raw timeoutMs L clock = Inr (Some d) \<Longrightarrow>
   \<exists>now. clock = Some (Fin now) \<and> now < d \<and> d \<le> now + of_nat (maxTimeoutMs L) \<and>
     (\<forall>t. timeoutMs = Some t \<longrightarrow> d \<le> now + of_nat t)"
  by (auto simp: resolveDeadline_def raw_deadline_def Let_def split: option.splits jsnum.splits jsv.splits if_splits)

lemma prepared_binary:
  "fst (prepareNativeRequest num h request options L clock resolver uses) = Inr p \<Longrightarrow>
   bp_bytes (pq_binaryPlan p) \<le> maxBinaryBytes L \<and> bp_handles (pq_binaryPlan p) \<le> maxBinaryHandles L"
  by (auto simp: prepareNativeRequest_def dest!: preflightBinary_bounds
      split: option.splits jsv.splits if_splits prod.splits sum.splits)

end
