(* ===== verification/Bridge_State.thy ===== *)
theory Bridge_State
  imports Event_Validation Request_Validation Js_Maps
begin

text \<open>
  The state of \<open>NativeBridgeController\<close> (\<open>native-port/native-bridge.ts\<close>) and its smallest steps.
  Pending requests, outputs and resources are objects the source compares by identity: they live in
  stores and are named by numbers.  A pending request is named by its call generation, which is also
  its call token.  A reservation or record of a resource is a cell; a delivered resource handle is
  named by the cell of its record.  The counters are integers, as in the source.

  Calls of the provider are recorded in \<open>br_calls\<close>; the provider answers in later steps, it does not call
  back while the bridge is working.  Settled promises are recorded in \<open>br_settled\<close>.  Of the event loop the
  state keeps what the bridge put there: registered requests, queued tasks, timers; \<open>br_loopFails n\<close> says
  that the \<open>n\<close>-th scheduling call throws.
\<close>

datatype call_mode = Unary | Streaming

datatype promise = P_request nat | P_reader nat

record native_result =
  nv_binary :: "(jstring \<times> byte list) list option"
  nv_resources :: "nat list"
  nv_value :: "native_value option"

datatype outcome = Rejected native_error | Resolved native_result | Chunk_read native_result nat | Stream_done native_result

record port_binding =
  pb_ownerCallToken :: nat
  pb_providerToken :: jstring
  pb_reference :: nat
  pb_type :: jstring

datatype port_call = PC_dispatch native_request nat call_mode "port_binding list" | PC_cancel nat "jstring option"
  | PC_close nat jstring "jstring option" | PC_grant nat nat | PC_dispose

datatype loop_task = Deliver_terminal nat nat | Deliver_chunk nat nat | Revoke_resource nat jstring

record resource_cell =
  rc_token :: jstring
  rc_type :: jstring
  rc_owner :: nat
  rc_revokeQueued :: bool
  rc_record :: bool
  rc_open :: bool

record output_reservation =
  ot_binary :: "(jstring \<times> byte list) list option"
  ot_binaryBytes :: nat
  ot_binaryHandles :: nat
  ot_delivered :: bool
  ot_resources :: "nat list"
  ot_value :: "native_value option"

datatype terminal = T_error native_error | T_output nat

record completion =
  cp_id :: nat
  cp_terminal :: terminal
  cp_taskId :: "nat option"

record queued_chunk =
  qc_id :: nat
  qc_output :: nat
  qc_reader :: nat
  qc_sequence :: nat
  qc_taskId :: "nat option"

record undelivered_cleanup =
  uc_capped :: bool
  uc_closedTokens :: "jstring list"

datatype stream_terminal = S_error native_error | S_end native_result

record pending_request =
  pn_id :: jstring
  pn_mode :: call_mode
  pn_active :: bool
  pn_credits :: nat
  pn_inputBinaryBytes :: nat
  pn_inputBinaryHandles :: nat
  pn_deadlineTimer :: "nat option"
  pn_abortSignal :: "obj_ref option"
  pn_loopRegistered :: bool
  pn_providerCancelIssued :: bool
  pn_completion :: "completion option"
  pn_undeliveredCleanup :: "undelivered_cleanup option"
  pn_deliveries :: "queued_chunk list"
  pn_nextSequence :: nat
  pn_readers :: "nat list"
  pn_terminal :: "stream_terminal option"

record bridge =
  br_limits :: native_limits
  br_authority :: native_authority
  br_pendings :: "nat \<Rightarrow> pending_request"
  br_outputs :: "nat \<Rightarrow> output_reservation"
  br_nextOutput :: nat
  br_resources :: "nat \<Rightarrow> resource_cell"
  br_nextResource :: nat
  br_openResourceRecords :: "nat list"
  br_pending :: "(jstring \<times> nat) list"
  br_resourceEventTasks :: "nat list"
  br_resourceByProviderToken :: "(jstring \<times> nat) list"
  br_admissionActive :: bool
  br_admissionViolated :: bool
  br_callGeneration :: nat
  br_disposed :: bool
  br_inFlightBinaryBytes :: int
  br_inFlightBinaryHandles :: int
  br_lifecycleGeneration :: nat
  br_openHandles :: int
  br_openResources :: int
  br_outstandingCredits :: int
  br_terminalCode :: native_code
  br_nextId :: nat
  br_loopRequests :: "nat list"
  br_loopTasks :: "(nat \<times> loop_task) list"
  br_loopTimers :: "(nat \<times> nat \<times> rat) list"
  br_loopCalls :: nat
  br_loopFails :: "nat \<Rightarrow> bool"
  br_calls :: "port_call list"
  br_settled :: "(promise \<times> outcome) list"

definition createNativeBridgeError :: "native_code \<Rightarrow> native_error" where
  "createNativeBridgeError code = \<lparr>ne_code = code, ne_domain = D_runtime, ne_details = None\<rparr>"

definition code_text :: "native_code \<Rightarrow> jstring" where
  "code_text c =
     js (case c of N_cancelled \<Rightarrow> ''cancelled'' | N_capability_unsupported \<Rightarrow> ''capability_unsupported''
       | N_disposed \<Rightarrow> ''disposed'' | N_internal \<Rightarrow> ''internal'' | N_invalid_request \<Rightarrow> ''invalid_request''
       | N_invalid_value \<Rightarrow> ''invalid_value'' | N_limit_exceeded \<Rightarrow> ''limit_exceeded'' | N_not_found \<Rightarrow> ''not_found''
       | N_operation_unsupported \<Rightarrow> ''operation_unsupported'' | N_exists \<Rightarrow> ''exists''
       | N_permission_denied \<Rightarrow> ''permission_denied'' | N_protocol_error \<Rightarrow> ''protocol_error''
       | N_resource_invalid \<Rightarrow> ''resource_invalid'' | N_connection_refused \<Rightarrow> ''connection_refused''
       | N_timeout \<Rightarrow> ''timeout'' | N_unavailable \<Rightarrow> ''unavailable'')"

definition normalizeCancelReason :: "jstring option \<Rightarrow> jstring option" where
  "normalizeCancelReason reason =
     (case reason of None \<Rightarrow> None | Some r \<Rightarrow> if r \<noteq> [] \<and> length r \<le> 256 then Some r else None)"

section \<open>Small steps\<close>

definition adjust_pending :: "nat \<Rightarrow> (pending_request \<Rightarrow> pending_request) \<Rightarrow> bridge \<Rightarrow> bridge" where
  "adjust_pending g f s = s\<lparr>br_pendings := (br_pendings s)(g := f (br_pendings s g))\<rparr>"

definition adjust_cell :: "nat \<Rightarrow> (resource_cell \<Rightarrow> resource_cell) \<Rightarrow> bridge \<Rightarrow> bridge" where
  "adjust_cell r f s = s\<lparr>br_resources := (br_resources s)(r := f (br_resources s r))\<rparr>"

definition isCurrent :: "bridge \<Rightarrow> nat \<Rightarrow> bool" where
  "isCurrent s g \<longleftrightarrow>
     pn_active (br_pendings s g) \<and> map_of (br_pending s) (pn_id (br_pendings s g)) = Some g"

definition call_port :: "port_call \<Rightarrow> bridge \<Rightarrow> bridge" where
  "call_port c s = s\<lparr>br_calls := br_calls s @ [c]\<rparr>"

definition settle :: "promise \<Rightarrow> outcome \<Rightarrow> bridge \<Rightarrow> bridge" where
  "settle p out s = s\<lparr>br_settled := br_settled s @ [(p, out)]\<rparr>"

section \<open>The event loop\<close>

text \<open>A scheduling call returns an identifier, or throws (\<open>None\<close>).\<close>

definition loop_call :: "(nat \<Rightarrow> bridge \<Rightarrow> bridge) \<Rightarrow> bridge \<Rightarrow> nat option \<times> bridge" where
  "loop_call f s =
     (let i = br_loopCalls s; s1 = s\<lparr>br_loopCalls := i + 1\<rparr>
      in if br_loopFails s i then (None, s1) else (Some i, f i s1))"

definition enqueue_task :: "loop_task \<Rightarrow> bridge \<Rightarrow> nat option \<times> bridge" where
  "enqueue_task t = loop_call (\<lambda>i s. s\<lparr>br_loopTasks := br_loopTasks s @ [(i, t)]\<rparr>)"

definition register_request :: "nat \<Rightarrow> bridge \<Rightarrow> nat option \<times> bridge" where
  "register_request g = loop_call (\<lambda>i s. s\<lparr>br_loopRequests := br_loopRequests s @ [g]\<rparr>)"

definition complete_request :: "nat \<Rightarrow> loop_task \<Rightarrow> bridge \<Rightarrow> nat option \<times> bridge" where
  "complete_request g t s =
     (if g \<notin> set (br_loopRequests s) then (None, s)
      else loop_call (\<lambda>i s. s\<lparr>br_loopRequests := removeAll g (br_loopRequests s),
             br_loopTasks := br_loopTasks s @ [(i, t)]\<rparr>) s)"

definition set_deadline :: "nat \<Rightarrow> rat \<Rightarrow> bridge \<Rightarrow> nat option \<times> bridge" where
  "set_deadline g d = loop_call (\<lambda>i s. s\<lparr>br_loopTimers := br_loopTimers s @ [(i, g, d)]\<rparr>)"

definition safeCancelNativeRequest :: "nat \<Rightarrow> bridge \<Rightarrow> bridge" where
  "safeCancelNativeRequest g s = s\<lparr>br_loopRequests := removeAll g (br_loopRequests s)\<rparr>"

definition safeCancelTask :: "nat \<Rightarrow> bridge \<Rightarrow> bridge" where
  "safeCancelTask i s = s\<lparr>br_loopTasks := map_delete i (br_loopTasks s)\<rparr>"

definition safeClearTimer :: "nat \<Rightarrow> bridge \<Rightarrow> bridge" where
  "safeClearTimer i s = s\<lparr>br_loopTimers := map_delete i (br_loopTimers s)\<rparr>"

section \<open>Closing resources\<close>

text \<open>A cell that stops being open.\<close>

definition close_cell :: "nat \<Rightarrow> bridge \<Rightarrow> bridge" where
  "close_cell r s =
     (if rc_open (br_resources s r)
      then (adjust_cell r (\<lambda>c. c\<lparr>rc_open := False\<rparr>) s)
             \<lparr>br_openResourceRecords := removeAll r (br_openResourceRecords s),
              br_openHandles := br_openHandles s - 1, br_openResources := br_openResources s - 1\<rparr>
      else s)"

definition forget_token :: "jstring \<Rightarrow> nat \<Rightarrow> bridge \<Rightarrow> bridge" where
  "forget_token token r s =
     (if map_of (br_resourceByProviderToken s) token = Some r
      then s\<lparr>br_resourceByProviderToken := map_delete token (br_resourceByProviderToken s)\<rparr> else s)"

definition closeProviderResource :: "nat \<Rightarrow> jstring \<Rightarrow> jstring option \<Rightarrow> bridge \<Rightarrow> bridge" where
  "closeProviderResource owner token reason = call_port (PC_close owner token reason)"

definition closeResource_bridge :: "nat \<Rightarrow> bool \<Rightarrow> jstring \<Rightarrow> bridge \<Rightarrow> bool \<times> bridge" where
  "closeResource_bridge r notifyProvider reason s =
     (let s = (if br_admissionActive s then s\<lparr>br_admissionViolated := True\<rparr> else s); c = br_resources s r
      in if \<not> rc_open c then (False, s)
         else let s = close_cell r (forget_token (rc_token c) r s)
              in (True, if notifyProvider \<and> \<not> rc_revokeQueued c
                        then closeProviderResource (rc_owner c) (rc_token c) (Some reason) s else s))"

definition invalidateCollidingResource :: "jstring \<Rightarrow> nat \<Rightarrow> bridge \<Rightarrow> nat option \<times> bridge" where
  "invalidateCollidingResource token fallbackOwner s =
     (case map_of (br_resourceByProviderToken s) token of
        None \<Rightarrow> (Some fallbackOwner, s)
      | Some r \<Rightarrow>
          if rc_owner (br_resources s r) \<noteq> fallbackOwner then (None, s)
          else (Some (rc_owner (br_resources s r)), forget_token token r (close_cell r s)))"

definition cleanup_of :: "pending_request \<Rightarrow> undelivered_cleanup" where
  "cleanup_of p = (case pn_undeliveredCleanup p of None \<Rightarrow> \<lparr>uc_capped = False, uc_closedTokens = []\<rparr> | Some c \<Rightarrow> c)"

text \<open>\<open>enqueueUndeliveredClose\<close>: whether the close is queued.\<close>

definition enqueueUndeliveredClose :: "nat \<Rightarrow> jstring \<Rightarrow> bridge \<Rightarrow> bool \<times> bridge" where
  "enqueueUndeliveredClose g token s =
     (let c = cleanup_of (br_pendings s g)
      in if token \<in> set (uc_closedTokens c) \<or> uc_capped c then (False, s)
         else if length (uc_closedTokens c) \<ge> min (maxHandles (br_limits s)) (maxOpenResources (br_limits s))
         then (False, adjust_pending g (\<lambda>p. p\<lparr>pn_undeliveredCleanup := Some (c\<lparr>uc_capped := True\<rparr>)\<rparr>) s)
         else (True, adjust_pending g (\<lambda>p. p\<lparr>pn_undeliveredCleanup :=
                Some (c\<lparr>uc_closedTokens := uc_closedTokens c @ [token]\<rparr>)\<rparr>) s))"

fun close_grants :: "nat \<Rightarrow> jstring list \<Rightarrow> (nat \<times> jstring) list \<Rightarrow> bridge \<Rightarrow> (nat \<times> jstring) list \<times> bridge" where
  "close_grants g [] queue s = (queue, s)"
| "close_grants g (token # rest) queue s =
     (case invalidateCollidingResource token g s of
        (None, s) \<Rightarrow> close_grants g rest queue s
      | (Some owner, s) \<Rightarrow>
          (case enqueueUndeliveredClose g token s of
             (queued, s) \<Rightarrow> close_grants g rest (if queued then queue @ [(owner, token)] else queue) s))"

definition closeUndeliveredGrants :: "nat \<Rightarrow> resource_grant list \<Rightarrow> bridge \<Rightarrow> bridge" where
  "closeUndeliveredGrants g grants s =
     (case close_grants g (map gr_token grants) []
             (adjust_pending g (\<lambda>p. p\<lparr>pn_undeliveredCleanup := Some (cleanup_of p)\<rparr>) s) of
        (queue, s) \<Rightarrow> fold (\<lambda>(owner, token). closeProviderResource owner token (Some (js ''undelivered''))) queue s)"

end
