(* ===== verification/Bridge_Ops.thy ===== *)
theory Bridge_Ops
  imports Bridge_State
begin

text \<open>
  Outputs, settlement and provider events of the native bridge (\<open>native-port/native-bridge.ts\<close>).
\<close>

section \<open>Outputs\<close>

text \<open>\<open>releaseOutput\<close>: the loop over the reservations, and the whole.\<close>

definition release_reservation :: "bool \<Rightarrow> nat \<Rightarrow> bridge \<Rightarrow> bridge" where
  "release_reservation closeResources r s =
     (let c = br_resources s r
      in if \<not> rc_open c then s
         else let s = forget_token (rc_token c) r (close_cell r s)
              in if closeResources \<and> \<not> rc_revokeQueued c
                 then closeUndeliveredGrants (rc_owner c) [\<lparr>gr_token = rc_token c, gr_type = rc_type c\<rparr>] s
                 else s)"

definition take_output :: "nat \<Rightarrow> bridge \<Rightarrow> bridge" where
  "take_output oref s =
     s\<lparr>br_outputs := (br_outputs s)(oref := (br_outputs s oref)\<lparr>ot_delivered := True\<rparr>),
       br_inFlightBinaryBytes := br_inFlightBinaryBytes s - int (ot_binaryBytes (br_outputs s oref)),
       br_inFlightBinaryHandles := br_inFlightBinaryHandles s - int (ot_binaryHandles (br_outputs s oref)),
       br_openHandles := br_openHandles s - int (ot_binaryHandles (br_outputs s oref))\<rparr>"

definition releaseOutput :: "nat \<Rightarrow> bool \<Rightarrow> bridge \<Rightarrow> bridge" where
  "releaseOutput oref closeResources s =
     (if ot_delivered (br_outputs s oref) then s
      else fold (release_reservation closeResources) (ot_resources (br_outputs s oref)) (take_output oref s))"

text \<open>\<open>deliverOutput\<close>: a reservation becomes the record of a resource; the record is a new cell.\<close>

definition deliver_reservation :: "nat \<Rightarrow> bridge \<Rightarrow> nat \<times> bridge" where
  "deliver_reservation r s =
     (let c = br_resources s r; k = br_nextResource s
      in (k, s\<lparr>br_resources := (br_resources s)(r := c\<lparr>rc_open := False\<rparr>, k := c\<lparr>rc_record := True, rc_open := True\<rparr>),
               br_nextResource := k + 1,
               br_resourceByProviderToken := map_set (rc_token c) k (br_resourceByProviderToken s),
               br_openResourceRecords := br_openResourceRecords s @ [k]\<rparr>))"

fun deliver_reservations :: "nat list \<Rightarrow> bridge \<Rightarrow> nat list \<times> bridge" where
  "deliver_reservations [] s = ([], s)"
| "deliver_reservations (r # rs) s =
     (case deliver_reservation r s of (k, s) \<Rightarrow> (case deliver_reservations rs s of (ks, s) \<Rightarrow> (k # ks, s)))"

definition deliverOutput :: "nat \<Rightarrow> bridge \<Rightarrow> native_result option \<times> bridge" where
  "deliverOutput oref s =
     (let out = br_outputs s oref
      in if ot_delivered out then (None, s)
         else if list_ex (\<lambda>r. \<not> rc_open (br_resources s r)) (ot_resources out) then (None, releaseOutput oref True s)
         else (case deliver_reservations (ot_resources out) (take_output oref s) of
                 (handles, s) \<Rightarrow>
                   (Some \<lparr>nv_binary = ot_binary out, nv_resources = handles, nv_value = ot_value out\<rparr>, s)))"

section \<open>Settlement\<close>

definition releaseCredits :: "nat \<Rightarrow> bridge \<Rightarrow> bridge" where
  "releaseCredits g s =
     (adjust_pending g (\<lambda>p. p\<lparr>pn_credits := 0\<rparr>) s)
       \<lparr>br_outstandingCredits := br_outstandingCredits s - int (pn_credits (br_pendings s g))\<rparr>"

definition clearDeadlineAndSignal :: "nat \<Rightarrow> bridge \<Rightarrow> bridge" where
  "clearDeadlineAndSignal g s =
     adjust_pending g (\<lambda>p. p\<lparr>pn_deadlineTimer := None, pn_abortSignal := None\<rparr>)
       (case pn_deadlineTimer (br_pendings s g) of None \<Rightarrow> s | Some i \<Rightarrow> safeClearTimer i s)"

definition cancel_task_of :: "nat option \<Rightarrow> bridge \<Rightarrow> bridge" where
  "cancel_task_of t s = (case t of None \<Rightarrow> s | Some i \<Rightarrow> safeCancelTask i s)"

definition release_completion :: "nat \<Rightarrow> bridge \<Rightarrow> bridge" where
  "release_completion g s =
     (case pn_completion (br_pendings s g) of
        None \<Rightarrow> s
      | Some c \<Rightarrow>
          (let s = cancel_task_of (cp_taskId c) s;
               s = (case cp_terminal c of T_output oref \<Rightarrow> releaseOutput oref True s | T_error _ \<Rightarrow> s)
           in adjust_pending g (\<lambda>p. p\<lparr>pn_completion := None\<rparr>) s))"

definition release_delivery :: "native_error option \<Rightarrow> queued_chunk \<Rightarrow> bridge \<Rightarrow> bridge" where
  "release_delivery err d s =
     (let s = releaseOutput (qc_output d) True (cancel_task_of (qc_taskId d) s)
      in case err of None \<Rightarrow> s | Some e \<Rightarrow> settle (P_reader (qc_reader d)) (Rejected e) s)"

definition handle_share :: "pending_request \<Rightarrow> nat" where
  "handle_share p = pn_inputBinaryHandles p + (if pn_mode p = Streaming then 1 else 0)"

text \<open>\<open>releasePending\<close> for a request that is current.\<close>

definition release_current :: "nat \<Rightarrow> native_error option \<Rightarrow> bridge \<Rightarrow> bridge" where
  "release_current g err s =
     (let s = (adjust_pending g (\<lambda>p. p\<lparr>pn_active := False\<rparr>) s)
                \<lparr>br_pending := map_delete (pn_id (br_pendings s g)) (br_pending s)\<rparr>;
          s = clearDeadlineAndSignal g s;
          s = (if pn_loopRegistered (br_pendings s g)
               then adjust_pending g (\<lambda>p. p\<lparr>pn_loopRegistered := False\<rparr>) (safeCancelNativeRequest g s) else s);
          s = release_completion g s;
          s = adjust_pending g (\<lambda>p. p\<lparr>pn_deliveries := []\<rparr>) (fold (release_delivery err) (pn_deliveries (br_pendings s g)) s);
          p = br_pendings s g;
          s = s\<lparr>br_inFlightBinaryBytes := br_inFlightBinaryBytes s - int (pn_inputBinaryBytes p),
                br_inFlightBinaryHandles := br_inFlightBinaryHandles s - int (pn_inputBinaryHandles p),
                br_openHandles := br_openHandles s - int (handle_share p)\<rparr>
      in releaseCredits g s)"

definition releasePending :: "nat \<Rightarrow> native_error option \<Rightarrow> bridge \<Rightarrow> bool \<times> bridge" where
  "releasePending g err s = (if \<not> isCurrent s g then (False, s) else (True, release_current g err s))"

definition settle_readers :: "nat \<Rightarrow> outcome \<Rightarrow> bridge \<Rightarrow> bridge" where
  "settle_readers g out s =
     adjust_pending g (\<lambda>p. p\<lparr>pn_readers := []\<rparr>) (fold (\<lambda>r. settle (P_reader r) out) (pn_readers (br_pendings s g)) s)"

definition settleError :: "nat \<Rightarrow> native_error \<Rightarrow> bridge \<Rightarrow> bridge" where
  "settleError g err s =
     (case releasePending g (Some err) s of
        (False, s) \<Rightarrow> s
      | (True, s) \<Rightarrow>
          if pn_mode (br_pendings s g) = Unary then settle (P_request g) (Rejected err) s
          else settle_readers g (Rejected err) (adjust_pending g (\<lambda>p. p\<lparr>pn_terminal := Some (S_error err)\<rparr>) s))"

definition settleUnaryResult :: "nat \<Rightarrow> native_result \<Rightarrow> bridge \<Rightarrow> bridge" where
  "settleUnaryResult g result s =
     (case releasePending g None s of (False, s) \<Rightarrow> s | (True, s) \<Rightarrow> settle (P_request g) (Resolved result) s)"

definition settleStreamEnd :: "nat \<Rightarrow> native_result \<Rightarrow> bridge \<Rightarrow> bridge" where
  "settleStreamEnd g result s =
     (case releasePending g None s of
        (False, s) \<Rightarrow> s
      | (True, s) \<Rightarrow> settle_readers g (Stream_done result) (adjust_pending g (\<lambda>p. p\<lparr>pn_terminal := Some (S_end result)\<rparr>) s))"

definition cancelPendingProvider :: "nat \<Rightarrow> jstring option \<Rightarrow> bridge \<Rightarrow> bridge" where
  "cancelPendingProvider g reason s =
     (if pn_providerCancelIssued (br_pendings s g) then s
      else call_port (PC_cancel g reason) (adjust_pending g (\<lambda>p. p\<lparr>pn_providerCancelIssued := True\<rparr>) s))"

text \<open>The pair the source writes at every failure: settle with a code, tell the provider.\<close>

definition fail_pending :: "nat \<Rightarrow> native_code \<Rightarrow> bridge \<Rightarrow> bridge" where
  "fail_pending g code s =
     cancelPendingProvider g (Some (code_text code)) (settleError g (createNativeBridgeError code) s)"

definition cancelPending :: "nat \<Rightarrow> jstring option \<Rightarrow> bridge \<Rightarrow> bool \<times> bridge" where
  "cancelPending g reason s =
     (if \<not> isCurrent s g then (False, s)
      else (True, cancelPendingProvider g (normalizeCancelReason reason)
                    (settleError g (createNativeBridgeError N_cancelled) s)))"

definition failLoopScheduling :: "nat \<Rightarrow> bridge \<Rightarrow> bridge" where
  "failLoopScheduling g s = (if \<not> isCurrent s g then s else fail_pending g N_internal s)"

section \<open>Terminals\<close>

definition lockTerminal :: "nat \<Rightarrow> terminal \<Rightarrow> bridge \<Rightarrow> nat option \<times> bridge" where
  "lockTerminal g t s =
     (if \<not> isCurrent s g \<or> pn_completion (br_pendings s g) \<noteq> None
      then (None, case t of T_output oref \<Rightarrow> releaseOutput oref True s | T_error _ \<Rightarrow> s)
      else (Some (br_nextId s),
            releaseCredits g
              ((adjust_pending g (\<lambda>p. p\<lparr>pn_completion := Some \<lparr>cp_id = br_nextId s, cp_terminal = t, cp_taskId = None\<rparr>\<rparr>) s)
                 \<lparr>br_nextId := br_nextId s + 1\<rparr>)))"

definition is_completion :: "bridge \<Rightarrow> nat \<Rightarrow> nat \<Rightarrow> bool" where
  "is_completion s g cid \<longleftrightarrow> map_option cp_id (pn_completion (br_pendings s g)) = Some cid"

definition scheduleTerminal :: "nat \<Rightarrow> nat \<Rightarrow> bridge \<Rightarrow> bridge" where
  "scheduleTerminal g cid s =
     (if \<not> isCurrent s g \<or> \<not> is_completion s g cid then s
      else let task = Deliver_terminal g cid;
               scheduled =
                 (if pn_mode (br_pendings s g) = Unary
                  then (case complete_request g task s of
                          (None, s) \<Rightarrow> (None, s)
                        | (Some i, s) \<Rightarrow> (Some i, adjust_pending g (\<lambda>p. p\<lparr>pn_loopRegistered := False\<rparr>) s))
                  else enqueue_task task (adjust_pending g (\<lambda>p. p\<lparr>pn_loopRegistered := False\<rparr>) (safeCancelNativeRequest g s)))
           in case scheduled of
                (None, s) \<Rightarrow> failLoopScheduling g s
              | (Some i, s) \<Rightarrow>
                  adjust_pending g (\<lambda>p. p\<lparr>pn_completion := map_option (\<lambda>c. c\<lparr>cp_taskId := Some i\<rparr>) (pn_completion p)\<rparr>) s)"

definition queueTerminal :: "nat \<Rightarrow> terminal \<Rightarrow> bridge \<Rightarrow> bridge" where
  "queueTerminal g t s =
     (case lockTerminal g t s of (None, s) \<Rightarrow> s | (Some cid, s) \<Rightarrow> scheduleTerminal g cid s)"

definition lockProviderFailure :: "nat \<Rightarrow> native_code \<Rightarrow> bridge \<Rightarrow> nat option \<times> bridge" where
  "lockProviderFailure g code s = lockTerminal g (T_error (createNativeBridgeError code)) s"

definition failProvider :: "nat \<Rightarrow> native_code \<Rightarrow> bridge \<Rightarrow> bridge" where
  "failProvider g code s =
     (case lockProviderFailure g code s of
        (None, s) \<Rightarrow> s
      | (Some cid, s) \<Rightarrow> scheduleTerminal g cid (cancelPendingProvider g (Some (code_text code)) s))"

definition failProviderWithUndelivered :: "nat \<Rightarrow> native_code \<Rightarrow> resource_grant list \<Rightarrow> bridge \<Rightarrow> bridge" where
  "failProviderWithUndelivered g code grants s =
     (case lockProviderFailure g code s of
        (None, s) \<Rightarrow> s
      | (Some cid, s) \<Rightarrow>
          scheduleTerminal g cid (cancelPendingProvider g (Some (code_text code)) (closeUndeliveredGrants g grants s)))"

text \<open>The task of a terminal and the task of a chunk.\<close>

definition deliverTerminal :: "nat \<Rightarrow> nat \<Rightarrow> bridge \<Rightarrow> bridge" where
  "deliverTerminal g cid s =
     (if \<not> isCurrent s g then s
      else case pn_completion (br_pendings s g) of
        None \<Rightarrow> s
      | Some c \<Rightarrow>
          if cp_id c \<noteq> cid then s
          else (let s = adjust_pending g (\<lambda>p. p\<lparr>pn_completion := None\<rparr>) s
                in case cp_terminal c of
                     T_error e \<Rightarrow> settleError g e s
                   | T_output oref \<Rightarrow>
                       (case deliverOutput oref s of
                          (None, s) \<Rightarrow> fail_pending g N_protocol_error s
                        | (Some result, s) \<Rightarrow>
                            if pn_mode (br_pendings s g) = Unary then settleUnaryResult g result s
                            else settleStreamEnd g result s)))"

definition deliverChunk :: "nat \<Rightarrow> nat \<Rightarrow> bridge \<Rightarrow> bridge" where
  "deliverChunk g did s =
     (case find (\<lambda>d. qc_id d = did) (pn_deliveries (br_pendings s g)) of
        None \<Rightarrow> s
      | Some d \<Rightarrow>
          if \<not> isCurrent s g then s
          else (let s = adjust_pending g (\<lambda>p. p\<lparr>pn_deliveries := remove1 d (pn_deliveries p)\<rparr>) s
                in case deliverOutput (qc_output d) s of
                     (None, s) \<Rightarrow>
                       failProvider g N_protocol_error
                         (settle (P_reader (qc_reader d)) (Rejected (createNativeBridgeError N_protocol_error)) s)
                   | (Some result, s) \<Rightarrow> settle (P_reader (qc_reader d)) (Chunk_read result (qc_sequence d)) s))"

end
