(* ===== verification/Bridge_Port.thy ===== *)
theory Bridge_Port
  imports Bridge_Ops
begin

text \<open>
  Provider events, streams, admission and disposal of the native bridge
  (\<open>native-port/native-bridge.ts\<close>), and the calls from which its histories are made.
\<close>

section \<open>Provider events\<close>

definition reserve_grant :: "nat \<Rightarrow> resource_grant \<Rightarrow> bridge \<Rightarrow> bridge" where
  "reserve_grant g grant s =
     (let r = br_nextResource s
      in s\<lparr>br_resources := (br_resources s)(r := \<lparr>rc_token = gr_token grant, rc_type = gr_type grant, rc_owner = g,
             rc_revokeQueued = False, rc_record = False, rc_open = True\<rparr>),
           br_nextResource := r + 1,
           br_resourceByProviderToken := map_set (gr_token grant) r (br_resourceByProviderToken s)\<rparr>)"

definition output_fits :: "prepared_output \<Rightarrow> bridge \<Rightarrow> bool" where
  "output_fits po s \<longleftrightarrow>
     (let L = br_limits s; plan = po_binaryPlan po; n = int (length (po_resources po))
      in br_inFlightBinaryBytes s + int (bp_bytes plan) \<le> int (maxInFlightBinaryBytes L) \<and>
         br_inFlightBinaryHandles s + int (bp_handles plan) \<le> int (maxInFlightBinaryHandles L) \<and>
         br_openResources s + n \<le> int (maxOpenResources L) \<and>
         br_openHandles s + int (bp_handles plan) + n \<le> int (maxHandles L))"

definition reserve_output :: "nat \<Rightarrow> js_heap \<Rightarrow> prepared_output \<Rightarrow> bridge \<Rightarrow> bridge" where
  "reserve_output g h po s =
     (let plan = po_binaryPlan po; n = length (po_resources po); r = br_nextResource s;
          out = \<lparr>ot_binary = copyBinary h plan, ot_binaryBytes = bp_bytes plan, ot_binaryHandles = bp_handles plan,
                 ot_delivered = False, ot_resources = [r..<r + n], ot_value = po_value po\<rparr>
      in fold (reserve_grant g) (po_resources po)
           (s\<lparr>br_inFlightBinaryBytes := br_inFlightBinaryBytes s + int (bp_bytes plan),
              br_inFlightBinaryHandles := br_inFlightBinaryHandles s + int (bp_handles plan),
              br_openHandles := br_openHandles s + int (bp_handles plan) + int n,
              br_openResources := br_openResources s + int n,
              br_outputs := (br_outputs s)(br_nextOutput s := out), br_nextOutput := br_nextOutput s + 1\<rparr>))"

definition reserveOutput :: "nat \<Rightarrow> js_heap \<Rightarrow> prepared_output \<Rightarrow> bridge \<Rightarrow> nat option \<times> bridge" where
  "reserveOutput g h po s =
     (let tokens = map gr_token (po_resources po)
      in if \<not> distinct tokens \<or> list_ex (\<lambda>t. map_of (br_resourceByProviderToken s) t \<noteq> None) tokens
         then (None, failProviderWithUndelivered g N_protocol_error (po_resources po) s)
         else if \<not> output_fits po s then (None, failProviderWithUndelivered g N_limit_exceeded (po_resources po) s)
         else (Some (br_nextOutput s), reserve_output g h po s))"

definition getUndeliveredGrantFailure :: "grant_extraction \<Rightarrow> bridge \<Rightarrow> native_code option" where
  "getUndeliveredGrantFailure ex s =
     (if ex_duplicate ex then Some N_protocol_error
      else if list_ex (\<lambda>g. map_of (br_resourceByProviderToken s) (gr_token g) \<noteq> None) (ex_grants ex) then Some N_protocol_error
      else ex_code ex)"

definition queue_output :: "nat \<Rightarrow> js_heap \<Rightarrow> call_mode \<Rightarrow> prepared_output \<Rightarrow> bridge \<Rightarrow> bridge" where
  "queue_output g h mode po s =
     (if pn_mode (br_pendings s g) \<noteq> mode then failProviderWithUndelivered g N_protocol_error (po_resources po) s
      else case reserveOutput g h po s of (None, s) \<Rightarrow> s | (Some oref, s) \<Rightarrow> queueTerminal g (T_output oref) s)"

definition queue_chunk :: "nat \<Rightarrow> js_heap \<Rightarrow> prepared_output \<Rightarrow> nat \<Rightarrow> bridge \<Rightarrow> bridge" where
  "queue_chunk g h po sequence s =
     (if pn_mode (br_pendings s g) \<noteq> Streaming \<or> sequence \<noteq> pn_nextSequence (br_pendings s g) \<or> pn_credits (br_pendings s g) = 0
      then failProviderWithUndelivered g N_protocol_error (po_resources po) s
      else case reserveOutput g h po s of
        (None, s) \<Rightarrow> s
      | (Some oref, s) \<Rightarrow>
          (case pn_readers (br_pendings s g) of
             [] \<Rightarrow>
               (case lockProviderFailure g N_protocol_error s of
                  (cid, s) \<Rightarrow>
                    (let s = releaseOutput oref True s
                     in case cid of
                          None \<Rightarrow> s
                        | Some cid \<Rightarrow> scheduleTerminal g cid (cancelPendingProvider g (Some (code_text N_protocol_error)) s)))
           | reader # readers \<Rightarrow>
               (let did = br_nextId s;
                    s = (adjust_pending g (\<lambda>p. p\<lparr>pn_readers := readers, pn_credits := pn_credits p - 1,
                           pn_nextSequence := pn_nextSequence p + 1,
                           pn_deliveries := pn_deliveries p @ [\<lparr>qc_id = did, qc_output = oref, qc_reader = reader,
                             qc_sequence = sequence, qc_taskId = None\<rparr>]\<rparr>) s)
                          \<lparr>br_nextId := did + 1, br_outstandingCredits := br_outstandingCredits s - 1\<rparr>
                in case enqueue_task (Deliver_chunk g did) s of
                     (None, s) \<Rightarrow> failLoopScheduling g s
                   | (Some i, s) \<Rightarrow>
                       adjust_pending g (\<lambda>p. p\<lparr>pn_deliveries := map (\<lambda>d. if qc_id d = did then d\<lparr>qc_taskId := Some i\<rparr> else d)
                         (pn_deliveries p)\<rparr>) s)))"

definition handleProviderEvent :: "(rat \<Rightarrow> jstring) \<Rightarrow> nat \<Rightarrow> js_heap \<Rightarrow> jsv \<Rightarrow> bridge \<Rightarrow> bridge" where
  "handleProviderEvent num g h event s =
     (if \<not> isCurrent s g \<or> pn_completion (br_pendings s g) \<noteq> None then s
      else let ex = extractUndeliveredResourceGrants h (br_limits s) event; p = br_pendings s g
           in case getUndeliveredGrantFailure ex s of
                Some code \<Rightarrow> failProviderWithUndelivered g code (ex_grants ex) s
              | None \<Rightarrow>
                  (case preflightNativePortEvent num h event (pn_id p) (br_limits s)
                          (pn_mode p = Streaming \<and> pn_credits p > 0 \<and> pn_readers p \<noteq> []) of
                     Inl code \<Rightarrow> failProviderWithUndelivered g code (ex_grants ex) s
                   | Inr (NE_error e) \<Rightarrow> queueTerminal g (T_error e) s
                   | Inr (NE_result po) \<Rightarrow> queue_output g h Unary po s
                   | Inr (NE_end po) \<Rightarrow> queue_output g h Streaming po s
                   | Inr (NE_chunk po sequence) \<Rightarrow> queue_chunk g h po sequence s))"

section \<open>Revocation by the provider\<close>

definition revoked_token :: "js_heap \<Rightarrow> jsv \<Rightarrow> jstring option" where
  "revoked_token h event =
     (case as_record h event of
        None \<Rightarrow> None
      | Some ob \<Rightarrow>
          (case (ownDataDescriptor ob (js ''providerToken''), ownDataDescriptor ob (js ''type'')) of
             (Some (V_str token), Some t) \<Rightarrow>
               if plain_prototype ob \<and> t = V_str (js ''revoke'') \<and> name_pattern_test token then Some token else None
           | _ \<Rightarrow> None))"

definition handleProviderResourceEvent :: "nat \<Rightarrow> js_heap \<Rightarrow> jsv \<Rightarrow> bridge \<Rightarrow> bridge" where
  "handleProviderResourceEvent g h event s =
     (case revoked_token h event of
        None \<Rightarrow> failProvider g N_protocol_error s
      | Some token \<Rightarrow>
          (case map_of (br_resourceByProviderToken s) token of
             None \<Rightarrow> s
           | Some r \<Rightarrow>
               (let c = br_resources s r
                in if rc_owner c \<noteq> g \<or> rc_revokeQueued c \<or> \<not> rc_record c \<and> \<not> rc_open c then s
                   else case enqueue_task (Revoke_resource g token) (adjust_cell r (\<lambda>c. c\<lparr>rc_revokeQueued := True\<rparr>) s) of
                          (Some i, s) \<Rightarrow> s\<lparr>br_resourceEventTasks := br_resourceEventTasks s @ [i]\<rparr>
                        | (None, s) \<Rightarrow>
                            if isCurrent s g then failLoopScheduling g s
                            else if rc_record c then snd (closeResource_bridge r False (js ''provider_revoke'') s) else s)))"

definition applyProviderResourceRevoke :: "nat \<Rightarrow> jstring \<Rightarrow> bridge \<Rightarrow> bridge" where
  "applyProviderResourceRevoke owner token s =
     (case map_of (br_resourceByProviderToken s) token of
        None \<Rightarrow> s
      | Some r \<Rightarrow>
          (let c = br_resources s r
           in if rc_owner c \<noteq> owner then s
              else if rc_record c then snd (closeResource_bridge r False (js ''provider_revoke'') s)
              else if rc_open c then close_cell r (forget_token token r s) else s))"

section \<open>Streams\<close>

definition readStream :: "nat \<Rightarrow> bridge \<Rightarrow> nat \<times> bridge" where
  "readStream g s0 =
     (let reader = br_nextId s0; s = s0\<lparr>br_nextId := reader + 1\<rparr>; p = br_pendings s g;
          reject = (\<lambda>code. settle (P_reader reader) (Rejected (createNativeBridgeError code)) s);
          push = adjust_pending g (\<lambda>p. p\<lparr>pn_readers := pn_readers p @ [reader]\<rparr>)
      in (reader,
          case pn_terminal p of
            Some (S_error e) \<Rightarrow> settle (P_reader reader) (Rejected e) s
          | Some (S_end result) \<Rightarrow> settle (P_reader reader) (Stream_done result) s
          | None \<Rightarrow>
              if \<not> isCurrent s g then reject N_cancelled
              else if pn_completion p \<noteq> None then push s
              else if pn_credits p \<ge> maxCreditsPerStream (br_limits s) \<or>
                      br_outstandingCredits s \<ge> int (maxOutstandingCredits (br_limits s)) then reject N_limit_exceeded
              else call_port (PC_grant g 1)
                     ((adjust_pending g (\<lambda>p. p\<lparr>pn_credits := pn_credits p + 1\<rparr>) (push s))
                        \<lparr>br_outstandingCredits := br_outstandingCredits s + 1\<rparr>)))"

section \<open>Disposal\<close>

definition close_records :: "jstring \<Rightarrow> bridge \<Rightarrow> bridge" where
  "close_records reason s = fold (\<lambda>r s. snd (closeResource_bridge r True reason s)) (br_openResourceRecords s) s"

definition end_pending :: "native_code \<Rightarrow> jstring \<Rightarrow> nat \<Rightarrow> bridge \<Rightarrow> bridge" where
  "end_pending code reason g s = cancelPendingProvider g (Some reason) (settleError g (createNativeBridgeError code) s)"

definition terminateBridge :: "native_code \<Rightarrow> jstring \<Rightarrow> bridge \<Rightarrow> bridge" where
  "terminateBridge code reason s =
     (if br_disposed s then s
      else let s = s\<lparr>br_disposed := True, br_terminalCode := code, br_lifecycleGeneration := br_lifecycleGeneration s + 1\<rparr>;
               s = fold (end_pending code reason) (map snd (br_pending s)) s;
               s = close_records reason s;
               s = (fold safeCancelTask (br_resourceEventTasks s) s)\<lparr>br_resourceEventTasks := []\<rparr>
           in call_port PC_dispose s)"

definition dispose_bridge :: "bridge \<Rightarrow> bridge" where
  "dispose_bridge s =
     terminateBridge N_disposed (js ''dispose'') (if br_admissionActive s then s\<lparr>br_admissionViolated := True\<rparr> else s)"

definition terminateFromLoop :: "bool \<Rightarrow> bridge \<Rightarrow> bridge" where
  "terminateFromLoop shutdown =
     terminateBridge (if shutdown then N_disposed else N_internal) (js (if shutdown then ''loop_shutdown'' else ''loop_error''))"

record bridge_snapshot =
  bs_inFlightBinaryBytes :: int
  bs_inFlightBinaryHandles :: int
  bs_openHandles :: int
  bs_openResources :: int
  bs_outstandingCredits :: int
  bs_pendingRequests :: nat

definition getSnapshot_bridge :: "bridge \<Rightarrow> bridge_snapshot" where
  "getSnapshot_bridge s =
     \<lparr>bs_inFlightBinaryBytes = br_inFlightBinaryBytes s, bs_inFlightBinaryHandles = br_inFlightBinaryHandles s,
      bs_openHandles = br_openHandles s, bs_openResources = br_openResources s,
      bs_outstandingCredits = br_outstandingCredits s, bs_pendingRequests = length (br_pending s)\<rparr>"

end
