(* ===== verification/Bridge_Admission.thy ===== *)
theory Bridge_Admission
  imports Bridge_Port
begin

text \<open>
  Admission of requests by the native bridge (\<open>request\<close>, \<open>stream\<close>, \<open>admit\<close>), deadlines, and the histories
  of a bridge.  What other code does to the bridge while a request is admitted (a host callback of the
  event loop, an abort signal) is given as lists of calls; the handles a request may name are given by
  \<open>ai_handles\<close>: whether a handle object belongs to this bridge and principal, and its record.
\<close>

datatype meanwhile = Touch | Close_handle nat jstring | Dispose_bridge | Loop_ended bool

record admission =
  ai_heap :: js_heap
  ai_request :: jsv
  ai_options :: jsv
  ai_signals :: "obj_ref \<Rightarrow> bool option"
  ai_abortedLater :: "bool option"
  ai_clock :: "jsnum option"
  ai_armClock :: "jsnum option"
  ai_handles :: "obj_ref \<Rightarrow> (bool \<times> nat) option"
  ai_preparing :: "meanwhile list"
  ai_registering :: "meanwhile list"

fun run_meanwhile :: "meanwhile \<Rightarrow> bridge \<Rightarrow> bridge" where
  "run_meanwhile Touch s = s\<lparr>br_admissionViolated := True\<rparr>"
| "run_meanwhile (Close_handle r reason) s = snd (closeResource_bridge r True reason s)"
| "run_meanwhile Dispose_bridge s = dispose_bridge s"
| "run_meanwhile (Loop_ended shutdown) s = terminateFromLoop shutdown s"

section \<open>Resources of a request\<close>

definition index_of :: "'a \<Rightarrow> 'a list \<Rightarrow> nat" where
  "index_of x xs = length (takeWhile (\<lambda>y. y \<noteq> x) xs)"

definition resolveResourceReference :: "(obj_ref \<Rightarrow> (bool \<times> nat) option) \<Rightarrow> bridge \<Rightarrow> nat list resolver" where
  "resolveResourceReference handles s a uses =
     (case handles a of
        None \<Rightarrow> (Inr None, uses)
      | Some (own, r) \<Rightarrow>
          if \<not> own \<or> \<not> rc_record (br_resources s r) \<or> \<not> rc_open (br_resources s r) then (Inl N_resource_invalid, uses)
          else if r \<in> set uses then (Inr (Some (index_of r uses)), uses)
          else (Inr (Some (length uses)), uses @ [r]))"

definition createResourceBindings :: "nat list \<Rightarrow> bridge \<Rightarrow> port_binding list" where
  "createResourceBindings uses s =
     map (\<lambda>(i, r). \<lparr>pb_ownerCallToken = rc_owner (br_resources s r), pb_providerToken = rc_token (br_resources s r),
                    pb_reference = i, pb_type = rc_type (br_resources s r)\<rparr>) (enumerate 0 uses)"

section \<open>Admission\<close>

definition stream_handle :: "call_mode \<Rightarrow> nat" where
  "stream_handle mode = (if mode = Streaming then 1 else 0)"

definition assertAdmissible :: "prepared_request \<Rightarrow> call_mode \<Rightarrow> nat list \<Rightarrow> nat \<Rightarrow> nat \<Rightarrow> bridge \<Rightarrow> native_code option" where
  "assertAdmissible p mode uses lifecycle g s =
     (let L = br_limits s; plan = pq_binaryPlan p
      in if br_admissionViolated s \<or> br_disposed s \<or> br_lifecycleGeneration s \<noteq> lifecycle \<or> br_callGeneration s \<noteq> g
         then Some (if br_disposed s then N_disposed else N_invalid_request)
         else if map_of (br_pending s) (pq_id p) \<noteq> None then Some N_invalid_request
         else if length (br_pending s) \<ge> maxPendingRequests L then Some N_limit_exceeded
         else if br_inFlightBinaryBytes s + int (bp_bytes plan) > int (maxInFlightBinaryBytes L) \<or>
                 br_inFlightBinaryHandles s + int (bp_handles plan) > int (maxInFlightBinaryHandles L) \<or>
                 br_openHandles s + int (bp_handles plan) + int (stream_handle mode) > int (maxHandles L)
         then Some N_limit_exceeded
         else if list_ex (\<lambda>r. \<not> rc_open (br_resources s r) \<or> r \<notin> set (br_openResourceRecords s)) uses
         then Some N_resource_invalid
         else None)"

definition new_pending :: "prepared_request \<Rightarrow> call_mode \<Rightarrow> nat option \<Rightarrow> obj_ref option \<Rightarrow> pending_request" where
  "new_pending p mode timer signal =
     \<lparr>pn_id = pq_id p, pn_mode = mode, pn_active = True, pn_credits = 0,
      pn_inputBinaryBytes = bp_bytes (pq_binaryPlan p), pn_inputBinaryHandles = bp_handles (pq_binaryPlan p),
      pn_deadlineTimer = timer, pn_abortSignal = signal, pn_loopRegistered = True, pn_providerCancelIssued = False,
      pn_completion = None, pn_undeliveredCleanup = None, pn_deliveries = [], pn_nextSequence = 0, pn_readers = [],
      pn_terminal = None\<rparr>"

definition commit_pending :: "nat \<Rightarrow> pending_request \<Rightarrow> bridge \<Rightarrow> bridge" where
  "commit_pending g p s =
     s\<lparr>br_pendings := (br_pendings s)(g := p), br_pending := map_set (pn_id p) g (br_pending s),
       br_inFlightBinaryBytes := br_inFlightBinaryBytes s + int (pn_inputBinaryBytes p),
       br_inFlightBinaryHandles := br_inFlightBinaryHandles s + int (pn_inputBinaryHandles p),
       br_openHandles := br_openHandles s + int (handle_share p)\<rparr>"

text \<open>\<open>armDeadline\<close>: an error code, \<open>None\<close> for an error of the event loop, or the timer.  The time of the event
  loop is finite or an error (\<open>readNow\<close>).\<close>

definition armDeadline :: "nat \<Rightarrow> rat \<Rightarrow> jsnum option \<Rightarrow> bridge \<Rightarrow> (native_code option + nat) \<times> bridge" where
  "armDeadline g deadlineMs clock s =
     (case clock of
        Some (Fin now) \<Rightarrow>
          if now \<ge> deadlineMs then (Inl (Some N_timeout), s)
          else (case set_deadline g deadlineMs s of (None, s) \<Rightarrow> (Inl None, s) | (Some i, s) \<Rightarrow> (Inr i, s))
      | _ \<Rightarrow> (Inl (Some N_internal), s))"

text \<open>The part of \<open>admit\<close> up to the registration.\<close>

definition admit_prepare ::
    "(rat \<Rightarrow> jstring) \<Rightarrow> admission \<Rightarrow> call_mode \<Rightarrow> nat \<Rightarrow> bridge \<Rightarrow>
     (native_code + call_options \<times> prepared_request \<times> nat list) \<times> bridge" where
  "admit_prepare num ai mode lifecycle s =
     (case prepareNativeCallOptions (ai_heap ai) (ai_signals ai) (ai_options ai) of
        Inl e \<Rightarrow> (Inl e, fold run_meanwhile (ai_preparing ai) s)
      | Inr options \<Rightarrow>
          (case prepareNativeRequest num (ai_heap ai) (ai_request ai) options (br_limits s) (ai_clock ai)
                  (resolveResourceReference (ai_handles ai) s) [] of
             (Inl e, uses) \<Rightarrow> (Inl e, fold run_meanwhile (ai_preparing ai) s)
           | (Inr p, uses) \<Rightarrow>
               (let s = fold run_meanwhile (ai_preparing ai) s
                in case assertAdmissible p mode uses lifecycle (br_callGeneration s) s of
                     Some e \<Rightarrow> (Inl e, s)
                   | None \<Rightarrow> (Inr (options, p, uses), s))))"

text \<open>The registration with the event loop: the timer, if one was armed, and what went wrong.\<close>

definition admit_register ::
    "admission \<Rightarrow> nat \<Rightarrow> call_options \<Rightarrow> prepared_request \<Rightarrow> bridge \<Rightarrow> native_code option option \<times> nat option \<times> bridge" where
  "admit_register ai g options p s =
     (case register_request g s of
        (None, s) \<Rightarrow> (Some None, None, s)
      | (Some _, s) \<Rightarrow>
          (case (case pq_deadlineMs p of
                   None \<Rightarrow> (Inr None, s)
                 | Some d \<Rightarrow> (case armDeadline g d (ai_armClock ai) s of
                                (Inl e, s) \<Rightarrow> (Inl e, s) | (Inr i, s) \<Rightarrow> (Inr (Some i), s))) of
             (Inl e, s) \<Rightarrow> (Some e, None, fold run_meanwhile (ai_registering ai) s)
           | (Inr timer, s) \<Rightarrow>
               (let s = fold run_meanwhile (ai_registering ai) s
                in case (case co_abortSignal options of None \<Rightarrow> Some False | Some _ \<Rightarrow> ai_abortedLater ai) of
                     None \<Rightarrow> (Some (Some N_invalid_request), timer, s)
                   | Some True \<Rightarrow> (Some (Some N_cancelled), timer, s)
                   | Some False \<Rightarrow> (None, timer, s))))"

definition rollback_admission :: "nat \<Rightarrow> nat option \<Rightarrow> bridge \<Rightarrow> bridge" where
  "rollback_admission g timer s =
     safeCancelNativeRequest g (case timer of None \<Rightarrow> s | Some i \<Rightarrow> safeClearTimer i s)"

text \<open>\<open>admit\<close>: an error (\<open>None\<close> for one that is no \<open>NativeBridgeError\<close>), or the admitted request.\<close>

definition end_admission :: "native_code option \<Rightarrow> bridge \<Rightarrow> native_code option \<times> bridge" where
  "end_admission failure s =
     (let violated = br_admissionViolated s; s = s\<lparr>br_admissionActive := False, br_admissionViolated := False\<rparr>
      in (if violated then Some (if br_disposed s then N_disposed else N_invalid_request) else failure, s))"

definition admit ::
    "(rat \<Rightarrow> jstring) \<Rightarrow> admission \<Rightarrow> call_mode \<Rightarrow> bridge \<Rightarrow>
     (native_code option + nat \<times> native_request \<times> port_binding list) \<times> bridge" where
  "admit num ai mode s =
     (let lifecycle = br_lifecycleGeneration s; g = br_callGeneration s + 1;
          s = s\<lparr>br_admissionActive := True, br_admissionViolated := False, br_callGeneration := g\<rparr>
      in case admit_prepare num ai mode lifecycle s of
           (Inl e, s) \<Rightarrow> (case end_admission (Some e) s of (e, s) \<Rightarrow> (Inl e, s))
         | (Inr (options, p, uses), s) \<Rightarrow>
             (let request = materializeNativePortRequest (ai_heap ai) p; bindings = createResourceBindings uses s
              in case admit_register ai g options p s of
                   (Some e, timer, s) \<Rightarrow>
                     (case end_admission e (rollback_admission g timer s) of (e, s) \<Rightarrow> (Inl e, s))
                 | (None, timer, s) \<Rightarrow>
                     (case assertAdmissible p mode uses lifecycle g s of
                        Some e \<Rightarrow> (case end_admission (Some e) (rollback_admission g timer s) of (e, s) \<Rightarrow> (Inl e, s))
                      | None \<Rightarrow>
                          (Inr (g, request, bindings),
                           (commit_pending g (new_pending p mode timer (co_abortSignal options)) s)
                             \<lparr>br_admissionActive := False, br_admissionViolated := False\<rparr>))))"

definition dispatch_bridge :: "nat \<Rightarrow> native_request \<Rightarrow> port_binding list \<Rightarrow> bridge \<Rightarrow> bridge" where
  "dispatch_bridge g request bindings s =
     (if \<not> isCurrent s g \<or> br_disposed s then s
      else call_port (PC_dispatch request g (pn_mode (br_pendings s g)) bindings) s)"

definition normalizeAdmissionError :: "native_code option \<Rightarrow> bridge \<Rightarrow> native_code" where
  "normalizeAdmissionError e s =
     (case e of Some c \<Rightarrow> c | None \<Rightarrow> if br_disposed s then br_terminalCode s else N_invalid_request)"

text \<open>\<open>request\<close> and \<open>stream\<close>: the code of the rejection, or the call token of the pending request.\<close>

definition open_call :: "(rat \<Rightarrow> jstring) \<Rightarrow> admission \<Rightarrow> call_mode \<Rightarrow> bridge \<Rightarrow> (native_code + nat) \<times> bridge" where
  "open_call num ai mode s =
     (if br_disposed s then (Inl N_disposed, s)
      else if br_admissionActive s then (Inl N_invalid_request, s\<lparr>br_admissionViolated := True\<rparr>)
      else case admit num ai mode s of
        (Inl e, s) \<Rightarrow> (Inl (normalizeAdmissionError e s), s)
      | (Inr (g, request, bindings), s) \<Rightarrow> (Inr g, dispatch_bridge g request bindings s))"

section \<open>Deadlines, tasks and the other calls\<close>

definition handleDeadline :: "nat \<Rightarrow> rat \<Rightarrow> jsnum option \<Rightarrow> jsnum option \<Rightarrow> bridge \<Rightarrow> bridge" where
  "handleDeadline g deadlineMs clock armClock s =
     (if \<not> isCurrent s g then s
      else let s = adjust_pending g (\<lambda>p. p\<lparr>pn_deadlineTimer := None\<rparr>) s
           in case clock of
                Some (Fin now) \<Rightarrow>
                  if now < deadlineMs then
                    (case armDeadline g deadlineMs armClock s of
                       (Inl _, s) \<Rightarrow> fail_pending g N_internal s
                     | (Inr i, s) \<Rightarrow> adjust_pending g (\<lambda>p. p\<lparr>pn_deadlineTimer := Some i\<rparr>) s)
                  else fail_pending g N_timeout s
              | _ \<Rightarrow> fail_pending g N_internal s)"

definition run_task :: "bridge \<Rightarrow> bridge" where
  "run_task s =
     (case br_loopTasks s of
        [] \<Rightarrow> s
      | (i, task) # rest \<Rightarrow>
          (let s = s\<lparr>br_loopTasks := rest\<rparr>
           in case task of
                Deliver_terminal g cid \<Rightarrow> deliverTerminal g cid s
              | Deliver_chunk g did \<Rightarrow> deliverChunk g did s
              | Revoke_resource g token \<Rightarrow>
                  applyProviderResourceRevoke g token
                    (s\<lparr>br_resourceEventTasks := removeAll i (br_resourceEventTasks s)\<rparr>)))"

definition fire_timer :: "nat \<Rightarrow> jsnum option \<Rightarrow> jsnum option \<Rightarrow> bridge \<Rightarrow> bridge" where
  "fire_timer i clock armClock s =
     (case map_of (br_loopTimers s) i of
        None \<Rightarrow> s
      | Some (g, d) \<Rightarrow> handleDeadline g d clock armClock (s\<lparr>br_loopTimers := map_delete i (br_loopTimers s)\<rparr>))"

definition cancel_bridge :: "jstring \<Rightarrow> jstring option \<Rightarrow> bridge \<Rightarrow> bool \<times> bridge" where
  "cancel_bridge rid reason s =
     (if br_admissionActive s then (False, s\<lparr>br_admissionViolated := True\<rparr>)
      else case map_of (br_pending s) rid of None \<Rightarrow> (False, s) | Some g \<Rightarrow> cancelPending g reason s)"

definition revokeResource :: "nat \<Rightarrow> jstring option \<Rightarrow> bridge \<Rightarrow> bool \<times> bridge" where
  "revokeResource r reason s =
     (if br_admissionActive s then (False, s\<lparr>br_admissionViolated := True\<rparr>)
      else if \<not> (r < br_nextResource s \<and> rc_record (br_resources s r)) then (False, s)
      else closeResource_bridge r True (case normalizeCancelReason reason of None \<Rightarrow> js ''revoke'' | Some t \<Rightarrow> t) s)"

text \<open>\<open>close\<close> of a resource handle.\<close>

definition close_handle :: "nat \<Rightarrow> jstring option \<Rightarrow> bridge \<Rightarrow> bool \<times> bridge" where
  "close_handle r reason s =
     (if \<not> (r < br_nextResource s \<and> rc_record (br_resources s r)) then (False, s)
      else closeResource_bridge r True (case normalizeCancelReason reason of None \<Rightarrow> js ''close'' | Some t \<Rightarrow> t) s)"

datatype bridge_call =
    Open_call call_mode admission
  | Cancel_call jstring "jstring option"
  | Close_stream nat "jstring option"
  | Abort_signal obj_ref
  | Revoke_handle nat "jstring option"
  | Close_resource nat "jstring option"
  | Dispose_call
  | Loop_terminated bool
  | Read_stream nat
  | Provider_event nat js_heap jsv
  | Provider_resource_event nat js_heap jsv
  | Provider_rejected nat
  | Run_task
  | Fire_timer nat "jsnum option" "jsnum option"

definition abort_pending :: "obj_ref \<Rightarrow> bridge \<Rightarrow> bridge" where
  "abort_pending a s =
     fold (\<lambda>g s. snd (cancelPending g (Some (js ''abort'')) s))
       (filter (\<lambda>g. pn_abortSignal (br_pendings s g) = Some a) (map snd (br_pending s))) s"

text \<open>A stream handle exists for a request in streaming mode only.\<close>

fun bridge_step :: "(rat \<Rightarrow> jstring) \<Rightarrow> bridge_call \<Rightarrow> bridge \<Rightarrow> bridge" where
  "bridge_step num (Open_call mode ai) s = snd (open_call num ai mode s)"
| "bridge_step num (Cancel_call rid reason) s = snd (cancel_bridge rid reason s)"
| "bridge_step num (Close_stream g reason) s =
     (if pn_mode (br_pendings s g) = Streaming then snd (cancelPending g reason s) else s)"
| "bridge_step num (Abort_signal a) s = abort_pending a s"
| "bridge_step num (Revoke_handle r reason) s = snd (revokeResource r reason s)"
| "bridge_step num (Close_resource r reason) s = snd (close_handle r reason s)"
| "bridge_step num Dispose_call s = dispose_bridge s"
| "bridge_step num (Loop_terminated shutdown) s = terminateFromLoop shutdown s"
| "bridge_step num (Read_stream g) s = (if pn_mode (br_pendings s g) = Streaming then snd (readStream g s) else s)"
| "bridge_step num (Provider_event g h event) s = handleProviderEvent num g h event s"
| "bridge_step num (Provider_resource_event g h event) s = handleProviderResourceEvent g h event s"
| "bridge_step num (Provider_rejected g) s = failProvider g N_internal s"
| "bridge_step num Run_task s = run_task s"
| "bridge_step num (Fire_timer i clock armClock) s = fire_timer i clock armClock s"

definition default_pending :: pending_request where
  "default_pending =
     \<lparr>pn_id = [], pn_mode = Unary, pn_active = False, pn_credits = 0, pn_inputBinaryBytes = 0, pn_inputBinaryHandles = 0,
      pn_deadlineTimer = None, pn_abortSignal = None, pn_loopRegistered = False, pn_providerCancelIssued = False,
      pn_completion = None, pn_undeliveredCleanup = None, pn_deliveries = [], pn_nextSequence = 0, pn_readers = [],
      pn_terminal = None\<rparr>"

definition new_bridge :: "native_authority \<Rightarrow> native_limits \<Rightarrow> (nat \<Rightarrow> bool) \<Rightarrow> bridge" where
  "new_bridge authority L fails =
     \<lparr>br_limits = L, br_authority = authority, br_pendings = (\<lambda>_. default_pending),
      br_outputs = (\<lambda>_. \<lparr>ot_binary = None, ot_binaryBytes = 0, ot_binaryHandles = 0, ot_delivered = True, ot_resources = [], ot_value = None\<rparr>),
      br_nextOutput = 0,
      br_resources = (\<lambda>_. \<lparr>rc_token = [], rc_type = [], rc_owner = 0, rc_revokeQueued = False, rc_record = False, rc_open = False\<rparr>),
      br_nextResource = 0, br_openResourceRecords = [], br_pending = [], br_resourceEventTasks = [],
      br_resourceByProviderToken = [], br_admissionActive = False, br_admissionViolated = False, br_callGeneration = 0,
      br_disposed = False, br_inFlightBinaryBytes = 0, br_inFlightBinaryHandles = 0, br_lifecycleGeneration = 0,
      br_openHandles = 0, br_openResources = 0, br_outstandingCredits = 0, br_terminalCode = N_disposed, br_nextId = 0,
      br_loopRequests = [], br_loopTasks = [], br_loopTimers = [], br_loopCalls = 0, br_loopFails = fails, br_calls = [],
      br_settled = []\<rparr>"

definition createNativeBridge :: "js_heap \<Rightarrow> jsv \<Rightarrow> jsv \<Rightarrow> (nat \<Rightarrow> bool) \<Rightarrow> native_code + bridge" where
  "createNativeBridge h authority limits fails =
     (case resolveNativeAuthority h authority of
        Inl e \<Rightarrow> Inl e
      | Inr a \<Rightarrow>
          (case resolveNativeBridgeLimits h limits of
             None \<Rightarrow> Inl N_invalid_request
           | Some L \<Rightarrow> Inr (new_bridge a L fails)))"

end
