(* ===== verification/Bridge_Books.thy ===== *)
theory Bridge_Books
  imports Bridge_Admission
begin

text \<open>
  The accounts of the native bridge.  \<open>books L X Y a b c d\<close>: every counter is the sum over the objects that
  are live, plus the amounts \<open>a\<close>, \<open>b\<close>, \<open>c\<close>, \<open>d\<close> that an operation in progress still has to give back, and
  stays within its limit; the maps and sets of the bridge name exactly the live objects; every
  undelivered output outside \<open>X\<close> is held by a pending request, every reservation outside \<open>Y\<close> by an
  undelivered output.
\<close>

section \<open>Sums over stores\<close>

definition total :: "nat \<Rightarrow> (nat \<Rightarrow> 'a) \<Rightarrow> ('a \<Rightarrow> int) \<Rightarrow> int" where
  "total n h w = (\<Sum>i < n. w (h i))"

lemma total_update: "i < n \<Longrightarrow> total n (h(i := v)) w = total n h w - w (h i) + w v"
proof -
  assume i: "i < n"
  have "(\<Sum>j < n. w ((h(i := v)) j)) = w v + (\<Sum>j \<in> {..<n} - {i}. w (h j))"
    using i by (subst sum.remove [of _ i]) (auto intro!: sum.cong)
  moreover have "(\<Sum>j < n. w (h j)) = w (h i) + (\<Sum>j \<in> {..<n} - {i}. w (h j))"
    using i by (subst sum.remove [of _ i]) auto
  ultimately show ?thesis by (simp add: total_def)
qed

lemma total_beyond: "n \<le> i \<Longrightarrow> total n (h(i := v)) w = total n h w"
  by (auto simp: total_def intro!: sum.cong)

lemma total_Suc: "total (Suc n) h w = total n h w + w (h n)"
  by (simp add: total_def)

lemma total_nonneg: "(\<And>x. 0 \<le> w x) \<Longrightarrow> 0 \<le> total n h w"
  by (simp add: total_def sum_nonneg)

lemma total_member: "(\<And>x. 0 \<le> w x) \<Longrightarrow> i < n \<Longrightarrow> w (h i) \<le> total n h w"
  unfolding total_def by (rule member_le_sum) auto

lemma total_zero: "(\<And>i. i < n \<Longrightarrow> w (h i) = 0) \<Longrightarrow> total n h w = 0"
  by (simp add: total_def)

section \<open>What is live\<close>

definition when_active :: "(pending_request \<Rightarrow> nat) \<Rightarrow> pending_request \<Rightarrow> int" where
  "when_active f p = (if pn_active p then int (f p) else 0)"

definition when_held :: "(output_reservation \<Rightarrow> nat) \<Rightarrow> output_reservation \<Rightarrow> int" where
  "when_held f out = (if ot_delivered out then 0 else int (f out))"

definition when_open :: "resource_cell \<Rightarrow> int" where
  "when_open c = (if rc_open c then 1 else 0)"

definition of_pendings :: "(pending_request \<Rightarrow> nat) \<Rightarrow> bridge \<Rightarrow> int" where
  "of_pendings f s = total (Suc (br_callGeneration s)) (br_pendings s) (when_active f)"

definition of_outputs :: "(output_reservation \<Rightarrow> nat) \<Rightarrow> bridge \<Rightarrow> int" where
  "of_outputs f s = total (br_nextOutput s) (br_outputs s) (when_held f)"

definition open_cells :: "bridge \<Rightarrow> int" where
  "open_cells s = total (br_nextResource s) (br_resources s) when_open"

definition holds_output :: "pending_request \<Rightarrow> nat \<Rightarrow> bool" where
  "holds_output p oref \<longleftrightarrow>
     pn_active p \<and>
     ((\<exists>c \<in> set_option (pn_completion p). cp_terminal c = T_output oref) \<or> (\<exists>d \<in> set (pn_deliveries p). qc_output d = oref))"

section \<open>The parts of the invariant\<close>

definition counters_ok :: "int \<Rightarrow> int \<Rightarrow> int \<Rightarrow> int \<Rightarrow> bridge \<Rightarrow> bool" where
  "counters_ok a b c d s \<longleftrightarrow>
     br_inFlightBinaryBytes s = of_pendings pn_inputBinaryBytes s + of_outputs ot_binaryBytes s + a \<and>
     br_inFlightBinaryHandles s = of_pendings pn_inputBinaryHandles s + of_outputs ot_binaryHandles s + b \<and>
     br_openHandles s = of_pendings handle_share s + of_outputs ot_binaryHandles s + open_cells s + c \<and>
     br_openResources s = open_cells s \<and>
     br_outstandingCredits s = of_pendings pn_credits s + d"

definition limits_ok :: "native_limits \<Rightarrow> bridge \<Rightarrow> bool" where
  "limits_ok L s \<longleftrightarrow>
     br_limits s = L \<and> br_inFlightBinaryBytes s \<le> int (maxInFlightBinaryBytes L) \<and>
     br_inFlightBinaryHandles s \<le> int (maxInFlightBinaryHandles L) \<and>
     br_openHandles s \<le> int (maxHandles L) \<and>
     br_openResources s \<le> int (maxOpenResources L) \<and>
     br_outstandingCredits s \<le> int (maxOutstandingCredits L) \<and>
     length (br_pending s) \<le> maxPendingRequests L"

definition pendings_ok :: "bridge \<Rightarrow> bool" where
  "pendings_ok s \<longleftrightarrow>
     distinct (map fst (br_pending s)) \<and>
     (\<forall>i g. map_of (br_pending s) i = Some g \<longleftrightarrow> pn_active (br_pendings s g) \<and> pn_id (br_pendings s g) = i) \<and>
     (\<forall>g. pn_active (br_pendings s g) \<longrightarrow> g \<le> br_callGeneration s)"

definition cells_ok :: "bridge \<Rightarrow> bool" where
  "cells_ok s \<longleftrightarrow>
     (\<forall>t r. map_of (br_resourceByProviderToken s) t = Some r \<longleftrightarrow> rc_open (br_resources s r) \<and> rc_token (br_resources s r) = t) \<and>
     (\<forall>r. rc_open (br_resources s r) \<longrightarrow> r < br_nextResource s) \<and>
     distinct (br_openResourceRecords s) \<and>
     (\<forall>r. r \<in> set (br_openResourceRecords s) \<longleftrightarrow> rc_open (br_resources s r) \<and> rc_record (br_resources s r))"

definition outputs_ok :: "nat set \<Rightarrow> nat set \<Rightarrow> bridge \<Rightarrow> bool" where
  "outputs_ok X Y s \<longleftrightarrow>
     (\<forall>oref. \<not> ot_delivered (br_outputs s oref) \<longrightarrow>
        oref < br_nextOutput s \<and> (oref \<in> X \<or> (\<exists>g. holds_output (br_pendings s g) oref)) \<and>
        distinct (ot_resources (br_outputs s oref)) \<and>
        (\<forall>r \<in> set (ot_resources (br_outputs s oref)). r < br_nextResource s \<and> \<not> rc_record (br_resources s r))) \<and>
     (\<forall>r. rc_open (br_resources s r) \<and> \<not> rc_record (br_resources s r) \<longrightarrow>
        r \<in> Y \<or> (\<exists>oref. \<not> ot_delivered (br_outputs s oref) \<and> r \<in> set (ot_resources (br_outputs s oref))))"

definition books :: "native_limits \<Rightarrow> nat set \<Rightarrow> nat set \<Rightarrow> int \<Rightarrow> int \<Rightarrow> int \<Rightarrow> int \<Rightarrow> bridge \<Rightarrow> bool" where
  "books L X Y a b c d s \<longleftrightarrow>
     counters_ok a b c d s \<and> limits_ok L s \<and> pendings_ok s \<and> cells_ok s \<and> outputs_ok X Y s"

lemmas books_defs = books_def counters_ok_def limits_ok_def pendings_ok_def cells_ok_def outputs_ok_def

lemma isCurrent_active: "books L X Y a b c d s \<Longrightarrow> isCurrent s g \<longleftrightarrow> pn_active (br_pendings s g)"
  by (auto simp: books_def pendings_ok_def isCurrent_def)

lemma books_mono: "books L X Y a b c d s \<Longrightarrow> X \<subseteq> X' \<Longrightarrow> Y \<subseteq> Y' \<Longrightarrow> books L X' Y' a b c d s"
  by (fastforce simp: books_def outputs_ok_def)

section \<open>Steps the accounts do not see\<close>

definition same_books :: "bridge \<Rightarrow> bridge \<Rightarrow> bool" where
  "same_books s s' \<longleftrightarrow>
     br_limits s' = br_limits s \<and> br_pendings s' = br_pendings s \<and> br_outputs s' = br_outputs s \<and>
     br_nextOutput s' = br_nextOutput s \<and> br_resources s' = br_resources s \<and> br_nextResource s' = br_nextResource s \<and>
     br_openResourceRecords s' = br_openResourceRecords s \<and> br_pending s' = br_pending s \<and>
     br_resourceByProviderToken s' = br_resourceByProviderToken s \<and> br_callGeneration s' = br_callGeneration s \<and>
     br_inFlightBinaryBytes s' = br_inFlightBinaryBytes s \<and> br_inFlightBinaryHandles s' = br_inFlightBinaryHandles s \<and>
     br_openHandles s' = br_openHandles s \<and> br_openResources s' = br_openResources s \<and>
     br_outstandingCredits s' = br_outstandingCredits s"

lemma books_frame: "same_books s s' \<Longrightarrow> books L X Y a b c d s' = books L X Y a b c d s"
  unfolding same_books_def by (elim conjE) (simp only: books_defs of_pendings_def of_outputs_def open_cells_def)

lemma books_unseen [simp]:
  "books L X Y a b c d (call_port pc s) = books L X Y a b c d s"
  "books L X Y a b c d (settle p out s) = books L X Y a b c d s"
  "books L X Y a b c d (safeCancelTask i s) = books L X Y a b c d s"
  "books L X Y a b c d (safeClearTimer i s) = books L X Y a b c d s"
  "books L X Y a b c d (safeCancelNativeRequest g s) = books L X Y a b c d s"
  "books L X Y a b c d (closeProviderResource k t v s) = books L X Y a b c d s"
  by (rule books_frame, simp add: same_books_def call_port_def settle_def safeCancelTask_def safeClearTimer_def
      safeCancelNativeRequest_def closeProviderResource_def)+

lemma books_fields [simp]:
  "books L X Y a b c d (s\<lparr>br_nextId := n\<rparr>) = books L X Y a b c d s"
  "books L X Y a b c d (s\<lparr>br_resourceEventTasks := ts\<rparr>) = books L X Y a b c d s"
  "books L X Y a b c d (s\<lparr>br_admissionActive := v\<rparr>) = books L X Y a b c d s"
  "books L X Y a b c d (s\<lparr>br_admissionViolated := v\<rparr>) = books L X Y a b c d s"
  "books L X Y a b c d (s\<lparr>br_loopTasks := lt\<rparr>) = books L X Y a b c d s"
  "books L X Y a b c d (s\<lparr>br_loopTimers := lm\<rparr>) = books L X Y a b c d s"
  "books L X Y a b c d (s\<lparr>br_loopRequests := lr\<rparr>) = books L X Y a b c d s"
  "books L X Y a b c d (s\<lparr>br_loopCalls := n\<rparr>) = books L X Y a b c d s"
  "books L X Y a b c d (s\<lparr>br_disposed := v\<rparr>) = books L X Y a b c d s"
  "books L X Y a b c d (s\<lparr>br_terminalCode := tc\<rparr>) = books L X Y a b c d s"
  "books L X Y a b c d (s\<lparr>br_lifecycleGeneration := n\<rparr>) = books L X Y a b c d s"
  by (rule books_frame, simp add: same_books_def)+

text \<open>A change of a pending request that keeps its shares and outputs.\<close>

definition same_account :: "pending_request \<Rightarrow> pending_request \<Rightarrow> bool" where
  "same_account p p' \<longleftrightarrow>
     pn_id p' = pn_id p \<and> pn_mode p' = pn_mode p \<and> pn_active p' = pn_active p \<and> pn_credits p' = pn_credits p \<and>
     pn_inputBinaryBytes p' = pn_inputBinaryBytes p \<and> pn_inputBinaryHandles p' = pn_inputBinaryHandles p \<and>
     (\<forall>oref. holds_output p oref \<longrightarrow> holds_output p' oref)"

lemma total_same: "w v = w (h i) \<Longrightarrow> total n (h(i := v)) w = total n h w"
  by (auto simp: total_def intro!: sum.cong)

lemma books_same:
  assumes "books L X Y a b c d s" "same_account (br_pendings s g) (f (br_pendings s g))"
  shows "books L X Y a b c d (adjust_pending g f s)"
proof -
  let ?h = "(br_pendings s)(g := f (br_pendings s g))"
  have t: "total n ?h (when_active pn_inputBinaryBytes) = total n (br_pendings s) (when_active pn_inputBinaryBytes)"
    "total n ?h (when_active pn_inputBinaryHandles) = total n (br_pendings s) (when_active pn_inputBinaryHandles)"
    "total n ?h (when_active handle_share) = total n (br_pendings s) (when_active handle_share)"
    "total n ?h (when_active pn_credits) = total n (br_pendings s) (when_active pn_credits)" for n
    using assms(2) by (auto intro!: total_same simp: when_active_def same_account_def handle_share_def)
  have "counters_ok a b c d (adjust_pending g f s)"
    using assms(1) by (simp add: books_def counters_ok_def adjust_pending_def of_pendings_def of_outputs_def open_cells_def t)
  moreover have e: "pn_active (?h x) = pn_active (br_pendings s x)" "pn_id (?h x) = pn_id (br_pendings s x)"
    "holds_output (br_pendings s x) oref \<Longrightarrow> holds_output (?h x) oref" for x oref
    using assms(2) by (auto simp: same_account_def)
  then have "pendings_ok (adjust_pending g f s)"
    using assms(1) by (simp add: books_def pendings_ok_def adjust_pending_def del: fun_upd_apply)
  moreover have "outputs_ok X Y (adjust_pending g f s)"
  proof -
    have "outputs_ok X Y s" using assms(1) by (simp add: books_def)
    then show ?thesis using e(3) by (simp add: outputs_ok_def adjust_pending_def del: fun_upd_apply) blast
  qed
  ultimately show ?thesis using assms(1) by (simp add: books_def limits_ok_def cells_ok_def adjust_pending_def)
qed

section \<open>Closing cells\<close>

lemma length_removeAll_open: "set (removeAll r xs) = set xs - {r}"
  by simp

lemma books_close_cell:
  assumes "books L X Y a b c d s" "rc_open (br_resources s r)"
  shows "books L X (Y - {r}) a b c d (forget_token (rc_token (br_resources s r)) r (close_cell r s))"
proof -
  let ?c = "br_resources s r" and ?s = "forget_token (rc_token (br_resources s r)) r (close_cell r s)"
  have r: "r < br_nextResource s" "map_of (br_resourceByProviderToken s) (rc_token ?c) = Some r"
    using assms by (auto simp: books_def cells_ok_def)
  have fields: "br_resources ?s = (br_resources s)(r := ?c\<lparr>rc_open := False\<rparr>)"
    "br_openResourceRecords ?s = removeAll r (br_openResourceRecords s)"
    "br_resourceByProviderToken ?s = map_delete (rc_token ?c) (br_resourceByProviderToken s)"
    "br_openHandles ?s = br_openHandles s - 1" "br_openResources ?s = br_openResources s - 1"
    "br_limits ?s = br_limits s" "br_pendings ?s = br_pendings s" "br_outputs ?s = br_outputs s"
    "br_nextOutput ?s = br_nextOutput s" "br_nextResource ?s = br_nextResource s" "br_pending ?s = br_pending s"
    "br_callGeneration ?s = br_callGeneration s" "br_inFlightBinaryBytes ?s = br_inFlightBinaryBytes s"
    "br_inFlightBinaryHandles ?s = br_inFlightBinaryHandles s" "br_outstandingCredits ?s = br_outstandingCredits s"
    using assms(2) r(2) by (simp_all add: forget_token_def close_cell_def adjust_cell_def)
  have o: "open_cells ?s = open_cells s - 1"
    using r(1) assms(2) by (simp add: open_cells_def fields total_update when_open_def)
  have "counters_ok a b c d ?s"
    using assms(1) by (simp add: books_def counters_ok_def of_pendings_def of_outputs_def o) (simp add: fields)
  moreover have "limits_ok L ?s" using assms(1) by (simp add: books_def limits_ok_def fields)
  moreover have "pendings_ok ?s" using assms(1) by (simp add: books_def pendings_ok_def fields)
  moreover have "cells_ok ?s"
  proof -
    have k: "map_of (br_resourceByProviderToken s) t = Some x \<longleftrightarrow> rc_open (br_resources s x) \<and> rc_token (br_resources s x) = t"
      for t x using assms(1) by (simp add: books_def cells_ok_def)
    have u: "x = r" if "rc_open (br_resources s x)" "rc_token (br_resources s x) = rc_token ?c" for x
      using k [of "rc_token ?c" x] that r(2) by simp
    show ?thesis using assms(1) u unfolding books_def cells_ok_def fields by (auto simp: k distinct_removeAll)
  qed
  moreover have "outputs_ok X (Y - {r}) ?s"
    using assms(1) unfolding books_def outputs_ok_def fields by auto
  ultimately show ?thesis by (simp add: books_def)
qed

lemma forget_missing: "map_of (br_resourceByProviderToken s) t \<noteq> Some r \<Longrightarrow> forget_token t r s = s"
  by (simp add: forget_token_def)

lemma forget_close_swap: "forget_token t r (close_cell r s) = close_cell r (forget_token t r s)"
  by (simp add: forget_token_def close_cell_def adjust_cell_def)

lemma books_invalidate:
  assumes "books L X Y a b c d s"
  shows "books L X Y a b c d (snd (invalidateCollidingResource t g s))"
proof (cases "map_of (br_resourceByProviderToken s) t")
  case (Some r)
  then have r: "rc_open (br_resources s r)" "rc_token (br_resources s r) = t" using assms by (auto simp: books_def cells_ok_def)
  have "books L X Y a b c d (forget_token t r (close_cell r s))"
    using books_close_cell [OF assms r(1)] r(2) by (auto intro: books_mono)
  then show ?thesis using assms Some by (simp add: invalidateCollidingResource_def)
qed (simp add: invalidateCollidingResource_def assms)

lemma books_enqueue: "books L X Y a b c d s \<Longrightarrow> books L X Y a b c d (snd (enqueueUndeliveredClose g t s))"
  by (auto simp: enqueueUndeliveredClose_def Let_def same_account_def holds_output_def intro!: books_same)

lemma books_close_grants: "books L X Y a b c d s \<Longrightarrow> books L X Y a b c d (snd (close_grants g ts q s))"
proof (induction g ts q s rule: close_grants.induct)
  case (2 g t ts q s)
  have i: "books L X Y a b c d (snd (invalidateCollidingResource t g s))" using 2(3) by (rule books_invalidate)
  obtain ow s1 where iv: "invalidateCollidingResource t g s = (ow, s1)" by fastforce
  obtain k s2 where en: "enqueueUndeliveredClose g t s1 = (k, s2)" by fastforce
  have b: "books L X Y a b c d s1" "books L X Y a b c d s2" using i books_enqueue [of L X Y a b c d s1 g t] by (simp_all add: iv en)
  show ?case
  proof (cases ow)
    case None
    then show ?thesis using 2(1) [OF iv [symmetric] None] b by (simp add: iv)
  next
    case (Some w)
    then show ?thesis using 2(2) [OF iv [symmetric] Some en [symmetric]] b by (simp add: iv en)
  qed
qed simp

lemma books_close_calls:
  "books L X Y a b c d s \<Longrightarrow> books L X Y a b c d (fold (\<lambda>(owner, token). closeProviderResource owner token v) queue s)"
  by (induction queue arbitrary: s) (simp_all add: split_beta)

lemma books_closeUndelivered:
  assumes "books L X Y a b c d s"
  shows "books L X Y a b c d (closeUndeliveredGrants g grants s)"
proof -
  let ?s = "adjust_pending g (\<lambda>p. p\<lparr>pn_undeliveredCleanup := Some (cleanup_of p)\<rparr>) s"
  have "books L X Y a b c d ?s"
    using assms by (rule books_same) (simp add: same_account_def holds_output_def)
  from books_close_grants [OF this, of g "map gr_token grants" "[]"] show ?thesis
    by (auto simp: closeUndeliveredGrants_def intro: books_close_calls split: prod.split)
qed

definition touched :: "bridge \<Rightarrow> bridge" where
  "touched s = (if br_admissionActive s then s\<lparr>br_admissionViolated := True\<rparr> else s)"

lemma books_touched [simp]: "books L X Y a b c d (touched s) = books L X Y a b c d s"
  by (simp add: touched_def)

lemma closeResource_touched:
  "closeResource_bridge r notify reason s =
     (if \<not> rc_open (br_resources (touched s) r) then (False, touched s)
      else let c = br_resources (touched s) r; s' = close_cell r (forget_token (rc_token c) r (touched s))
           in (True, if notify \<and> \<not> rc_revokeQueued c then closeProviderResource (rc_owner c) (rc_token c) (Some reason) s' else s'))"
  unfolding closeResource_bridge_def Let_def touched_def by (rule refl)

lemma books_closeResource:
  assumes "books L X Y a b c d s"
  shows "books L X Y a b c d (snd (closeResource_bridge r notify reason s))"
proof -
  have k: "books L X Y a b c d (touched s)" using assms by simp
  have "books L X Y a b c d (close_cell r (forget_token (rc_token (br_resources (touched s) r)) r (touched s)))"
    if o: "rc_open (br_resources (touched s) r)"
    using books_close_cell [OF k o] by (auto simp: forget_close_swap intro: books_mono)
  then show ?thesis using k by (simp add: closeResource_touched Let_def)
qed

end
