(* ===== verification/Bridge_Accounts.thy ===== *)
theory Bridge_Accounts
  imports Bridge_Books
begin

text \<open>
  The operations of the native bridge keep its accounts (\<open>books\<close>, theory \<open>Bridge_Books\<close>).
\<close>

section \<open>Steps that only close and deliver\<close>

text \<open>Of the pending requests these steps change nothing but the record of closed grants.\<close>

definition same_pending :: "pending_request \<Rightarrow> pending_request \<Rightarrow> bool" where
  "same_pending p p' \<longleftrightarrow>
     pn_id p' = pn_id p \<and> pn_mode p' = pn_mode p \<and> pn_active p' = pn_active p \<and> pn_credits p' = pn_credits p \<and>
     pn_inputBinaryBytes p' = pn_inputBinaryBytes p \<and> pn_inputBinaryHandles p' = pn_inputBinaryHandles p \<and>
     pn_deadlineTimer p' = pn_deadlineTimer p \<and> pn_abortSignal p' = pn_abortSignal p \<and>
     pn_loopRegistered p' = pn_loopRegistered p \<and> pn_providerCancelIssued p' = pn_providerCancelIssued p \<and>
     pn_completion p' = pn_completion p \<and> pn_deliveries p' = pn_deliveries p \<and>
     pn_nextSequence p' = pn_nextSequence p \<and> pn_readers p' = pn_readers p \<and> pn_terminal p' = pn_terminal p"

definition quiet :: "bridge \<Rightarrow> bridge \<Rightarrow> bool" where
  "quiet s s' \<longleftrightarrow>
     br_limits s' = br_limits s \<and> br_authority s' = br_authority s \<and> br_nextOutput s' = br_nextOutput s \<and>
     br_pending s' = br_pending s \<and> br_resourceEventTasks s' = br_resourceEventTasks s \<and>
     br_admissionActive s' = br_admissionActive s \<and> br_admissionViolated s' = br_admissionViolated s \<and>
     br_callGeneration s' = br_callGeneration s \<and> br_disposed s' = br_disposed s \<and>
     br_lifecycleGeneration s' = br_lifecycleGeneration s \<and> br_outstandingCredits s' = br_outstandingCredits s \<and>
     br_terminalCode s' = br_terminalCode s \<and> br_nextId s' = br_nextId s \<and> br_loopRequests s' = br_loopRequests s \<and>
     br_loopTasks s' = br_loopTasks s \<and> br_loopTimers s' = br_loopTimers s \<and> br_loopCalls s' = br_loopCalls s \<and>
     br_loopFails s' = br_loopFails s \<and> br_settled s' = br_settled s \<and>
     (\<forall>g. same_pending (br_pendings s g) (br_pendings s' g))"

lemma same_pending_refl [simp]: "same_pending p p"
  by (simp add: same_pending_def)

lemma quiet_refl [simp]: "quiet s s"
  by (simp add: quiet_def)

lemma quiet_trans: "quiet s s' \<Longrightarrow> quiet s' s'' \<Longrightarrow> quiet s s''"
  by (simp add: quiet_def same_pending_def)

lemma quiet_steps [simp]:
  "quiet s (call_port pc s)" "quiet s (close_cell r s)" "quiet s (forget_token t r s)" "quiet s (take_output oref s)"
  "quiet s (closeProviderResource k t v s)" "quiet s (snd (deliver_reservation r s))"
  by (simp_all add: quiet_def call_port_def close_cell_def adjust_cell_def forget_token_def take_output_def
      closeProviderResource_def deliver_reservation_def Let_def)

lemma quiet_cleanup [simp]: "quiet s (adjust_pending g (\<lambda>p. p\<lparr>pn_undeliveredCleanup := c p\<rparr>) s)"
  by (simp add: quiet_def adjust_pending_def same_pending_def)

lemma quiet_invalidate [simp]: "quiet s (snd (invalidateCollidingResource t g s))"
  by (auto simp: invalidateCollidingResource_def intro: quiet_trans [OF quiet_steps(2) quiet_steps(3)] split: option.split)

lemma quiet_enqueue [simp]: "quiet s (snd (enqueueUndeliveredClose g t s))"
  by (simp add: enqueueUndeliveredClose_def Let_def)

lemma quiet_close_grants [simp]: "quiet s (snd (close_grants g ts q s))"
proof (induction g ts q s rule: close_grants.induct)
  case (2 g t ts q s)
  obtain ow s1 where iv: "invalidateCollidingResource t g s = (ow, s1)" by fastforce
  obtain k s2 where en: "enqueueUndeliveredClose g t s1 = (k, s2)" by fastforce
  have b: "quiet s s1" "quiet s1 s2" using quiet_invalidate [of s t g] quiet_enqueue [of s1 g t] by (simp_all add: iv en)
  show ?case
  proof (cases ow)
    case None
    then show ?thesis using quiet_trans [OF b(1) 2(1) [OF iv [symmetric] None]] by (simp add: iv)
  next
    case (Some w)
    then show ?thesis
      using quiet_trans [OF quiet_trans [OF b] 2(2) [OF iv [symmetric] Some en [symmetric]]] by (simp add: iv en)
  qed
qed simp

lemma quiet_fold: "(\<And>x s. quiet s (f x s)) \<Longrightarrow> quiet s (fold f xs s)"
  by (induction xs arbitrary: s) (auto intro: quiet_trans)

lemma quiet_closeUndelivered [simp]: "quiet s (closeUndeliveredGrants g grants s)"
proof -
  let ?s = "adjust_pending g (\<lambda>p. p\<lparr>pn_undeliveredCleanup := Some (cleanup_of p)\<rparr>) s"
  have "quiet s (snd (close_grants g (map gr_token grants) [] ?s))"
    by (rule quiet_trans [OF quiet_cleanup quiet_close_grants])
  then show ?thesis
    by (auto simp: closeUndeliveredGrants_def split: prod.split intro!: quiet_fold elim!: quiet_trans)
qed

lemma quiet_release_reservation [simp]: "quiet s (release_reservation v r s)"
proof -
  let ?s = "forget_token (rc_token (br_resources s r)) r (close_cell r s)"
  have q: "quiet s ?s" by (rule quiet_trans [OF quiet_steps(2) quiet_steps(3)])
  show ?thesis unfolding release_reservation_def Let_def using q by (simp add: quiet_trans [OF q])
qed

lemma quiet_releaseOutput [simp]: "quiet s (releaseOutput oref v s)"
proof -
  have "quiet (take_output oref s) (fold (release_reservation v) (ot_resources (br_outputs s oref)) (take_output oref s))"
    by (rule quiet_fold) simp
  then show ?thesis by (simp add: releaseOutput_def quiet_trans [OF quiet_steps(4)])
qed

lemma quiet_deliver_reservations [simp]: "quiet s (snd (deliver_reservations rs s))"
proof (induction rs arbitrary: s)
  case (Cons r rs)
  obtain k s1 where d: "deliver_reservation r s = (k, s1)" by fastforce
  have "quiet s s1" using quiet_steps(6) [of s r] by (simp add: d)
  with Cons [of s1] show ?case by (auto simp: d split: prod.split intro: quiet_trans)
qed simp

lemma quiet_deliverOutput [simp]: "quiet s (snd (deliverOutput oref s))"
  using quiet_trans [OF quiet_steps(4) quiet_deliver_reservations]
  by (auto simp: deliverOutput_def Let_def split: prod.split) (metis snd_conv)

lemma quiet_fields:
  assumes "quiet s s'"
  shows "br_limits s' = br_limits s" "br_pending s' = br_pending s" "br_callGeneration s' = br_callGeneration s"
    "br_disposed s' = br_disposed s" "br_nextOutput s' = br_nextOutput s" "br_nextId s' = br_nextId s"
    "br_settled s' = br_settled s" "br_loopTasks s' = br_loopTasks s" "br_loopTimers s' = br_loopTimers s"
    "br_loopRequests s' = br_loopRequests s" "br_outstandingCredits s' = br_outstandingCredits s"
    "same_pending (br_pendings s g) (br_pendings s' g)"
  using assms by (simp_all add: quiet_def)

section \<open>Outputs\<close>

lemma books_take_output:
  assumes "books L X Y a b c d s" "\<not> ot_delivered (br_outputs s oref)"
  shows "books L (X - {oref}) (Y \<union> set (ot_resources (br_outputs s oref))) a b c d (take_output oref s)"
proof -
  let ?o = "br_outputs s oref" and ?s = "take_output oref s"
  have r: "oref < br_nextOutput s" using assms by (auto simp: books_def outputs_ok_def)
  have fields: "br_outputs ?s = (br_outputs s)(oref := ?o\<lparr>ot_delivered := True\<rparr>)"
    "br_inFlightBinaryBytes ?s = br_inFlightBinaryBytes s - int (ot_binaryBytes ?o)"
    "br_inFlightBinaryHandles ?s = br_inFlightBinaryHandles s - int (ot_binaryHandles ?o)"
    "br_openHandles ?s = br_openHandles s - int (ot_binaryHandles ?o)"
    "br_resources ?s = br_resources s" "br_openResourceRecords ?s = br_openResourceRecords s"
    "br_resourceByProviderToken ?s = br_resourceByProviderToken s" "br_openResources ?s = br_openResources s"
    "br_limits ?s = br_limits s" "br_pendings ?s = br_pendings s"
    "br_nextOutput ?s = br_nextOutput s" "br_nextResource ?s = br_nextResource s" "br_pending ?s = br_pending s"
    "br_callGeneration ?s = br_callGeneration s" "br_outstandingCredits ?s = br_outstandingCredits s"
    by (simp_all add: take_output_def)
  have t: "of_outputs f ?s = of_outputs f s - int (f ?o)" if "f (?o\<lparr>ot_delivered := True\<rparr>) = f ?o" for f
    using r assms(2) that by (simp add: of_outputs_def fields total_update when_held_def)
  have "counters_ok a b c d ?s"
    using assms(1) by (simp add: books_def counters_ok_def of_pendings_def open_cells_def t) (simp add: fields)
  moreover have "limits_ok L ?s" using assms(1) by (simp add: books_def limits_ok_def fields)
  moreover have "pendings_ok ?s" using assms(1) by (simp add: books_def pendings_ok_def fields)
  moreover have "cells_ok ?s" using assms(1) unfolding books_def cells_ok_def fields by blast
  moreover have "outputs_ok (X - {oref}) (Y \<union> set (ot_resources ?o)) ?s"
    using assms(1) unfolding books_def outputs_ok_def fields by auto
  ultimately show ?thesis by (simp add: books_def)
qed

lemma books_shut: "books L X Y a b c d s \<Longrightarrow> \<not> rc_open (br_resources s r) \<Longrightarrow> books L X (Y - {r}) a b c d s"
  unfolding books_def outputs_ok_def by blast

lemma books_delivered: "books L X Y a b c d s \<Longrightarrow> ot_delivered (br_outputs s oref) \<Longrightarrow> books L (X - {oref}) Y a b c d s"
  unfolding books_def outputs_ok_def by blast

lemma books_release_reservation:
  assumes "books L X Y a b c d s"
  shows "books L X (Y - {r}) a b c d (release_reservation v r s)"
proof (cases "rc_open (br_resources s r)")
  case True
  show ?thesis
    using books_close_cell [OF assms True] books_closeUndelivered [OF books_close_cell [OF assms True]] True
    unfolding release_reservation_def Let_def by simp
qed (simp add: release_reservation_def books_shut [OF assms])

lemma books_release_reservations:
  "books L X Y a b c d s \<Longrightarrow> books L X (Y - set rs) a b c d (fold (release_reservation v) rs s)"
proof (induction rs arbitrary: s Y)
  case (Cons r rs)
  have "Y - set (r # rs) = Y - {r} - set rs" by auto
  then show ?case using Cons(1) [OF books_release_reservation [OF Cons(2), of r v]] by simp
qed simp

lemma books_releaseOutput:
  assumes "books L X Y a b c d s"
  shows "books L (X - {oref}) Y a b c d (releaseOutput oref v s)"
proof (cases "ot_delivered (br_outputs s oref)")
  case False
  let ?rs = "ot_resources (br_outputs s oref)"
  from books_release_reservations [OF books_take_output [OF assms False], of ?rs v]
  have "books L (X - {oref}) Y a b c d (fold (release_reservation v) ?rs (take_output oref s))"
    by (rule books_mono) auto
  then show ?thesis by (simp add: releaseOutput_def False)
qed (simp add: releaseOutput_def books_delivered [OF assms])

lemma books_deliver_reservation:
  assumes "books L X Y a b c d s" "rc_open (br_resources s r)" "\<not> rc_record (br_resources s r)"
  shows "books L X (Y - {r}) a b c d (snd (deliver_reservation r s))"
proof -
  let ?c = "br_resources s r" and ?k = "br_nextResource s" and ?s = "snd (deliver_reservation r s)"
  have r: "r < ?k" "\<not> rc_open (br_resources s ?k)" using assms by (auto simp: books_def cells_ok_def)
  have fields: "br_outputs ?s = br_outputs s" "br_inFlightBinaryBytes ?s = br_inFlightBinaryBytes s"
    "br_inFlightBinaryHandles ?s = br_inFlightBinaryHandles s" "br_openHandles ?s = br_openHandles s"
    "br_resources ?s = (br_resources s)(r := ?c\<lparr>rc_open := False\<rparr>, ?k := ?c\<lparr>rc_record := True, rc_open := True\<rparr>)"
    "br_openResourceRecords ?s = br_openResourceRecords s @ [?k]"
    "br_resourceByProviderToken ?s = map_set (rc_token ?c) ?k (br_resourceByProviderToken s)"
    "br_openResources ?s = br_openResources s"
    "br_limits ?s = br_limits s" "br_pendings ?s = br_pendings s"
    "br_nextOutput ?s = br_nextOutput s" "br_nextResource ?s = Suc ?k" "br_pending ?s = br_pending s"
    "br_callGeneration ?s = br_callGeneration s" "br_outstandingCredits ?s = br_outstandingCredits s"
    by (simp_all add: deliver_reservation_def Let_def)
  have o: "open_cells ?s = open_cells s"
    using r assms(2) by (simp add: open_cells_def fields total_Suc total_beyond total_update when_open_def)
  have "counters_ok a b c d ?s"
    using assms(1) by (simp add: books_def counters_ok_def of_pendings_def of_outputs_def o) (simp add: fields)
  moreover have "limits_ok L ?s" using assms(1) by (simp add: books_def limits_ok_def fields)
  moreover have "pendings_ok ?s" using assms(1) by (simp add: books_def pendings_ok_def fields)
  moreover have "cells_ok ?s"
  proof -
    have k: "map_of (br_resourceByProviderToken s) t = Some x \<longleftrightarrow> rc_open (br_resources s x) \<and> rc_token (br_resources s x) = t"
      for t x using assms(1) by (simp add: books_def cells_ok_def)
    have u: "x = r" if "rc_open (br_resources s x)" "rc_token (br_resources s x) = rc_token ?c" for x
      using k [of "rc_token ?c" x] k [of "rc_token ?c" r] that assms(2) by simp
    show ?thesis using assms u r unfolding books_def cells_ok_def fields
      by (auto simp: k less_Suc_eq)
  qed
  moreover have "outputs_ok X (Y - {r}) ?s"
  proof -
    have o: "outputs_ok X Y s" using assms(1) by (simp add: books_def)
    have q: "rc_open (br_resources ?s x) \<and> \<not> rc_record (br_resources ?s x) \<Longrightarrow>
        x \<noteq> r \<and> rc_open (br_resources s x) \<and> \<not> rc_record (br_resources s x)" for x
      by (auto simp: fields split: if_splits)
    have n: "rc_record (br_resources ?s x) = rc_record (br_resources s x)" if "x < ?k" for x
      using that by (simp add: fields)
    show ?thesis
      unfolding outputs_ok_def
    proof (intro conjI allI impI ballI)
      fix x assume "rc_open (br_resources ?s x) \<and> \<not> rc_record (br_resources ?s x)"
      with q [of x] o show "x \<in> Y - {r} \<or> (\<exists>oref. \<not> ot_delivered (br_outputs ?s oref) \<and> x \<in> set (ot_resources (br_outputs ?s oref)))"
        unfolding outputs_ok_def fields(1) by blast
    qed (use o n in \<open>auto simp: outputs_ok_def fields(1,10-12) less_SucI\<close>)
  qed
  ultimately show ?thesis by (simp add: books_def)
qed

lemma deliver_reservation_others:
  assumes "x \<noteq> r" "x < br_nextResource s"
  shows "br_resources (snd (deliver_reservation r s)) x = br_resources s x"
    and "br_nextResource (snd (deliver_reservation r s)) = Suc (br_nextResource s)"
  using assms by (simp_all add: deliver_reservation_def Let_def)

lemma books_deliver_reservations:
  assumes "books L X Y a b c d s" "distinct rs"
    and "\<And>r. r \<in> set rs \<Longrightarrow> rc_open (br_resources s r) \<and> \<not> rc_record (br_resources s r)"
  shows "books L X (Y - set rs) a b c d (snd (deliver_reservations rs s))"
  using assms
proof (induction rs arbitrary: s Y)
  case (Cons r rs)
  obtain k s1 where d: "deliver_reservation r s = (k, s1)" by fastforce
  have b: "books L X (Y - {r}) a b c d s1" using books_deliver_reservation [OF Cons(2), of r] Cons(4) by (simp add: d)
  have "br_resources s1 x = br_resources s x" if "x \<in> set rs" for x
  proof -
    have "x \<noteq> r" "x < br_nextResource s" using that Cons(2,3,4) by (auto simp: books_def cells_ok_def)
    from deliver_reservation_others(1) [OF this] show ?thesis by (simp add: d)
  qed
  with Cons(1) [OF b] Cons(3,4) have "books L X (Y - {r} - set rs) a b c d (snd (deliver_reservations rs s1))" by simp
  moreover have "Y - set (r # rs) = Y - {r} - set rs" by auto
  ultimately show ?case by (simp add: d split: prod.split) (metis snd_conv)
qed simp

lemma books_deliverOutput:
  assumes "books L X Y a b c d s"
  shows "books L (X - {oref}) Y a b c d (snd (deliverOutput oref s))"
proof (cases "ot_delivered (br_outputs s oref)")
  case True
  then show ?thesis by (simp add: deliverOutput_def books_delivered [OF assms])
next
  case False
  let ?o = "br_outputs s oref"
  show ?thesis
  proof (cases "list_ex (\<lambda>r. \<not> rc_open (br_resources s r)) (ot_resources ?o)")
    case True
    then show ?thesis using False books_releaseOutput [OF assms, of oref True] by (simp add: deliverOutput_def)
  next
    case closed: False
    have o: "distinct (ot_resources ?o)" "\<And>r. r \<in> set (ot_resources ?o) \<Longrightarrow> rc_open (br_resources s r) \<and> \<not> rc_record (br_resources s r)"
      using assms False closed by (auto simp: books_def outputs_ok_def list_ex_iff)
    have "br_resources (take_output oref s) = br_resources s" by (simp add: take_output_def)
    with books_deliver_reservations [OF books_take_output [OF assms False] o(1)] o(2)
    have "books L (X - {oref}) (Y \<union> set (ot_resources ?o) - set (ot_resources ?o)) a b c d
            (snd (deliver_reservations (ot_resources ?o) (take_output oref s)))" by simp
    then have "books L (X - {oref}) Y a b c d (snd (deliver_reservations (ot_resources ?o) (take_output oref s)))"
      by (rule books_mono) auto
    moreover have "snd (deliverOutput oref s) = snd (deliver_reservations (ot_resources ?o) (take_output oref s))"
      using False closed by (simp add: deliverOutput_def Let_def split_beta)
    ultimately show ?thesis by simp
  qed
qed

section \<open>Shares of a pending request\<close>

text \<open>A request that ends: its shares become slack, its outputs exempt.\<close>

definition outputs_of :: "pending_request \<Rightarrow> nat set" where
  "outputs_of p = {oref. \<exists>c \<in> set_option (pn_completion p). cp_terminal c = T_output oref} \<union> qc_output ` set (pn_deliveries p)"

lemma holds_output_iff: "holds_output p oref \<longleftrightarrow> pn_active p \<and> oref \<in> outputs_of p"
  by (auto simp: holds_output_def outputs_of_def)

lemma distinct_map_delete: "distinct (map fst m) \<Longrightarrow> distinct (map fst (map_delete k m))"
  by (simp add: map_delete_def distinct_map_filter)

definition deactivate :: "nat \<Rightarrow> bridge \<Rightarrow> bridge" where
  "deactivate g s =
     (adjust_pending g (\<lambda>p. p\<lparr>pn_active := False\<rparr>) s)
       \<lparr>br_pending := map_delete (pn_id (br_pendings s g)) (br_pending s)\<rparr>"

lemma books_deactivate:
  assumes "books L X Y a b c d s" "pn_active (br_pendings s g)"
  shows "books L (X \<union> outputs_of (br_pendings s g)) Y (a + int (pn_inputBinaryBytes (br_pendings s g)))
     (b + int (pn_inputBinaryHandles (br_pendings s g))) (c + int (handle_share (br_pendings s g)))
     (d + int (pn_credits (br_pendings s g))) (deactivate g s)"
proof -
  let ?p = "br_pendings s g" and ?s = "deactivate g s"
  have r: "g < Suc (br_callGeneration s)" "map_of (br_pending s) (pn_id ?p) = Some g"
    using assms by (auto simp: books_def pendings_ok_def less_Suc_eq_le)
  have fields: "br_outputs ?s = br_outputs s" "br_inFlightBinaryBytes ?s = br_inFlightBinaryBytes s"
    "br_inFlightBinaryHandles ?s = br_inFlightBinaryHandles s" "br_openHandles ?s = br_openHandles s"
    "br_resources ?s = br_resources s" "br_openResourceRecords ?s = br_openResourceRecords s"
    "br_resourceByProviderToken ?s = br_resourceByProviderToken s" "br_openResources ?s = br_openResources s"
    "br_limits ?s = br_limits s" "br_pendings ?s = (br_pendings s)(g := ?p\<lparr>pn_active := False\<rparr>)"
    "br_nextOutput ?s = br_nextOutput s" "br_nextResource ?s = br_nextResource s"
    "br_pending ?s = map_delete (pn_id ?p) (br_pending s)"
    "br_callGeneration ?s = br_callGeneration s" "br_outstandingCredits ?s = br_outstandingCredits s"
    by (simp_all add: deactivate_def adjust_pending_def)
  have t: "of_pendings f ?s = of_pendings f s - int (f ?p)" for f
    using r(1) assms(2) by (simp add: of_pendings_def fields total_update when_active_def)
  have "counters_ok (a + int (pn_inputBinaryBytes ?p)) (b + int (pn_inputBinaryHandles ?p))
      (c + int (handle_share ?p)) (d + int (pn_credits ?p)) ?s"
    using assms(1) by (simp add: books_def counters_ok_def of_outputs_def open_cells_def t) (simp add: fields)
  moreover have "limits_ok L ?s"
    using assms(1) length_map_delete [of "pn_id ?p" "br_pending s"] by (simp add: books_def limits_ok_def fields)
  moreover have "pendings_ok ?s"
  proof -
    have p: "pendings_ok s" using assms(1) by (simp add: books_def)
    then have k: "map_of (br_pending s) i = Some x \<longleftrightarrow> pn_active (br_pendings s x) \<and> pn_id (br_pendings s x) = i" for i x
      by (simp add: pendings_ok_def)
    have u: "x = g" if "pn_active (br_pendings s x)" "pn_id (br_pendings s x) = pn_id ?p" for x
      using k [of "pn_id ?p" x] that r(2) by simp
    show ?thesis using p u unfolding pendings_ok_def fields by (auto simp: k distinct_map_delete)
  qed
  moreover have "cells_ok ?s" using assms(1) unfolding books_def cells_ok_def fields by blast
  moreover have "outputs_ok (X \<union> outputs_of ?p) Y ?s"
  proof -
    have "outputs_ok X Y s" using assms(1) by (simp add: books_def)
    moreover have "oref \<in> outputs_of ?p \<or> holds_output (br_pendings ?s x) oref" if "holds_output (br_pendings s x) oref" for x oref
      using that by (auto simp: fields holds_output_iff)
    ultimately show ?thesis unfolding outputs_ok_def fields(1,5,11,12) by blast
  qed
  ultimately show ?thesis by (simp add: books_def)
qed

text \<open>Slack is given back.\<close>

lemma books_give_back:
  assumes "books L X Y a b c d s"
  shows "books L X Y (a - int i) (b - int j) (c - int k) d
    (s\<lparr>br_inFlightBinaryBytes := br_inFlightBinaryBytes s - int i,
       br_inFlightBinaryHandles := br_inFlightBinaryHandles s - int j, br_openHandles := br_openHandles s - int k\<rparr>)"
  using assms unfolding books_def
  by (simp add: counters_ok_def limits_ok_def pendings_ok_def cells_ok_def outputs_ok_def of_pendings_def of_outputs_def open_cells_def)

lemma books_change_pending:
  assumes "books L X Y a b c d s" and p: "p' = f (br_pendings s g)"
    and "pn_id p' = pn_id (br_pendings s g)" "pn_active p' = pn_active (br_pendings s g)"
    and "pn_inputBinaryBytes p' = pn_inputBinaryBytes (br_pendings s g)"
    and "pn_inputBinaryHandles p' = pn_inputBinaryHandles (br_pendings s g)" "pn_mode p' = pn_mode (br_pendings s g)"
    and held: "\<And>oref. holds_output (br_pendings s g) oref \<Longrightarrow> oref \<notin> X' \<Longrightarrow> holds_output p' oref"
    and exempt: "\<And>oref. oref \<in> X \<Longrightarrow> oref \<in> X' \<or> holds_output p' oref"
  shows "books L X' Y a b c (d + when_active pn_credits (br_pendings s g) - when_active pn_credits p') (adjust_pending g f s)"
proof -
  let ?p = "br_pendings s g" and ?s = "adjust_pending g f s"
  have fields: "br_outputs ?s = br_outputs s" "br_inFlightBinaryBytes ?s = br_inFlightBinaryBytes s"
    "br_inFlightBinaryHandles ?s = br_inFlightBinaryHandles s" "br_openHandles ?s = br_openHandles s"
    "br_resources ?s = br_resources s" "br_openResourceRecords ?s = br_openResourceRecords s"
    "br_resourceByProviderToken ?s = br_resourceByProviderToken s" "br_openResources ?s = br_openResources s"
    "br_limits ?s = br_limits s" "br_pendings ?s = (br_pendings s)(g := p')"
    "br_nextOutput ?s = br_nextOutput s" "br_nextResource ?s = br_nextResource s"
    "br_pending ?s = br_pending s" "br_callGeneration ?s = br_callGeneration s"
    "br_outstandingCredits ?s = br_outstandingCredits s"
    by (simp_all add: adjust_pending_def p)
  have t: "of_pendings pn_inputBinaryBytes ?s = of_pendings pn_inputBinaryBytes s"
    "of_pendings pn_inputBinaryHandles ?s = of_pendings pn_inputBinaryHandles s"
    "of_pendings handle_share ?s = of_pendings handle_share s"
    using assms(4-7) by (auto simp: of_pendings_def fields when_active_def handle_share_def intro!: total_same)
  have u: "of_pendings pn_credits ?s = of_pendings pn_credits s - when_active pn_credits ?p + when_active pn_credits p'"
  proof (cases "g < Suc (br_callGeneration s)")
    case False
    with assms(1) have "\<not> pn_active ?p" by (auto simp: books_def pendings_ok_def less_Suc_eq_le)
    with False assms(4) show ?thesis by (simp add: of_pendings_def fields total_beyond when_active_def)
  qed (simp add: of_pendings_def fields total_update)
  have "counters_ok a b c (d + when_active pn_credits ?p - when_active pn_credits p') ?s"
    using assms(1) by (simp add: books_def counters_ok_def of_outputs_def open_cells_def t u) (simp add: fields)
  moreover have "limits_ok L ?s" using assms(1) by (simp add: books_def limits_ok_def fields)
  moreover have "pendings_ok ?s"
    using assms(1,3,4) unfolding books_def pendings_ok_def fields by auto
  moreover have "cells_ok ?s" using assms(1) unfolding books_def cells_ok_def fields by blast
  moreover have "outputs_ok X' Y ?s"
  proof -
    have o: "outputs_ok X Y s" using assms(1) by (simp add: books_def)
    have "oref \<in> X' \<or> (\<exists>g. holds_output (br_pendings ?s g) oref)" if x: "oref \<in> X \<or> (\<exists>g. holds_output (br_pendings s g) oref)" for oref
    proof -
      have g: "\<exists>k. holds_output (br_pendings ?s k) oref" if "holds_output p' oref"
        using that by (intro exI [of _ g]) (simp add: fields)
      from x consider "oref \<in> X" | k where "holds_output (br_pendings s k) oref" by blast
      then show ?thesis
      proof cases
        case (2 k)
        then show ?thesis using held [of oref] g by (cases "k = g") (auto simp: fields)
      qed (use exempt g in blast)
    qed
    with o show ?thesis unfolding outputs_ok_def fields(1,5,11,12) by blast
  qed
  ultimately show ?thesis by (simp add: books_def)
qed

end
