(* ===== verification/Bridge_Keep.thy ===== *)
theory Bridge_Keep
  imports Bridge_Accounts
begin

text \<open>
  Settlement, terminals, provider events, streams, admission and disposal keep the accounts of the native
  bridge (\<open>books\<close>, theory \<open>Bridge_Books\<close>), and so does every call of it.
\<close>

section \<open>The end of a request\<close>

lemma adjusted [simp]: "br_pendings (adjust_pending g f s) g = f (br_pendings s g)"
  by (simp add: adjust_pending_def)

lemma pendings_of_loop [simp]:
  "br_pendings (safeClearTimer i s) = br_pendings s" "br_pendings (safeCancelTask i s) = br_pendings s"
  "br_pendings (safeCancelNativeRequest k s) = br_pendings s" "br_pendings (settle p out s) = br_pendings s"
  "br_pendings (call_port pc s) = br_pendings s" "br_pendings (cancel_task_of t s) = br_pendings s"
  by (simp_all add: safeClearTimer_def safeCancelTask_def safeCancelNativeRequest_def settle_def call_port_def
      cancel_task_of_def split: option.split)

lemma books_cancel_task_of [simp]: "books L X Y a b c d (cancel_task_of t s) = books L X Y a b c d s"
  by (simp add: cancel_task_of_def split: option.split)

lemma books_clear:
  assumes "books L X Y a b c d s"
  shows "books L X Y a b c d (clearDeadlineAndSignal g s)"
  unfolding clearDeadlineAndSignal_def
  by (rule books_same) (use assms in \<open>simp_all add: same_account_def holds_output_def split: option.split\<close>)

lemma pending_clear: "br_pendings (clearDeadlineAndSignal g s) g = (br_pendings s g)\<lparr>pn_deadlineTimer := None, pn_abortSignal := None\<rparr>"
  by (simp add: clearDeadlineAndSignal_def split: option.split)

text \<open>The request while it ends.\<close>

definition ending :: "pending_request \<Rightarrow> pending_request \<Rightarrow> bool" where
  "ending p q \<longleftrightarrow>
     \<not> pn_active q \<and> pn_mode q = pn_mode p \<and> pn_inputBinaryBytes q = pn_inputBinaryBytes p \<and>
     pn_inputBinaryHandles q = pn_inputBinaryHandles p \<and> pn_credits q = pn_credits p \<and>
     pn_deliveries q = pn_deliveries p \<and> pn_readers q = pn_readers p \<and> pn_terminal q = pn_terminal p"

lemma ending_quiet: "ending p (br_pendings s g) \<Longrightarrow> quiet s s' \<Longrightarrow> ending p (br_pendings s' g)"
  using quiet_fields(12) [of s s' g] by (simp add: ending_def same_pending_def)

lemma books_ended:
  assumes "books L X Y a b c d s" "\<not> pn_active (br_pendings s g)"
    and "\<not> pn_active (f (br_pendings s g))" "pn_id (f (br_pendings s g)) = pn_id (br_pendings s g)"
    and "pn_inputBinaryBytes (f (br_pendings s g)) = pn_inputBinaryBytes (br_pendings s g)"
    and "pn_inputBinaryHandles (f (br_pendings s g)) = pn_inputBinaryHandles (br_pendings s g)"
    and "pn_mode (f (br_pendings s g)) = pn_mode (br_pendings s g)"
  shows "books L X Y a b c d (adjust_pending g f s)"
proof -
  have "books L X Y a b c (d + when_active pn_credits (br_pendings s g) - when_active pn_credits (f (br_pendings s g)))
      (adjust_pending g f s)"
    by (rule books_change_pending [OF assms(1) refl]) (use assms in \<open>simp_all add: holds_output_def\<close>)
  with assms show ?thesis by (simp add: when_active_def)
qed

definition completion_outputs :: "pending_request \<Rightarrow> nat set" where
  "completion_outputs p = {oref. \<exists>c \<in> set_option (pn_completion p). cp_terminal c = T_output oref}"

lemma books_release_completion:
  assumes "books L X Y a b c d s" "ending p (br_pendings s g)"
  shows "books L (X - completion_outputs (br_pendings s g)) Y a b c d (release_completion g s)"
    and "ending p (br_pendings (release_completion g s) g)"
proof -
  let ?q = "br_pendings s g"
  have "books L (X - completion_outputs ?q) Y a b c d (release_completion g s) \<and> ending p (br_pendings (release_completion g s) g)"
  proof (cases "pn_completion ?q")
    case None
    then show ?thesis using assms by (simp add: release_completion_def completion_outputs_def)
  next
    case (Some co)
    let ?s1 = "cancel_task_of (cp_taskId co) s"
    let ?s2 = "case cp_terminal co of T_output oref \<Rightarrow> releaseOutput oref True ?s1 | T_error _ \<Rightarrow> ?s1"
    have q: "quiet ?s1 ?s2" by (simp split: terminal.split)
    have e: "ending p (br_pendings ?s2 g)" by (rule ending_quiet [OF _ q]) (simp add: assms)
    have b: "books L (X - completion_outputs ?q) Y a b c d ?s2"
      using assms(1) books_releaseOutput [of L X Y a b c d ?s1] Some
      by (auto simp: completion_outputs_def split: terminal.split)
    have "books L (X - completion_outputs ?q) Y a b c d (adjust_pending g (\<lambda>p. p\<lparr>pn_completion := None\<rparr>) ?s2)"
      by (rule books_ended [OF b]) (use e in \<open>simp_all add: ending_def\<close>)
    then show ?thesis using e Some by (simp add: release_completion_def Let_def ending_def)
  qed
  then show "books L (X - completion_outputs ?q) Y a b c d (release_completion g s)"
    and "ending p (br_pendings (release_completion g s) g)" by auto
qed

lemma books_release_deliveries:
  assumes "books L X Y a b c d s" "ending p (br_pendings s g)"
  shows "books L (X - qc_output ` set ds) Y a b c d (fold (release_delivery err) ds s) \<and>
     ending p (br_pendings (fold (release_delivery err) ds s) g)"
  using assms
proof (induction ds arbitrary: s X)
  case (Cons x ds)
  let ?s = "releaseOutput (qc_output x) True (cancel_task_of (qc_taskId x) s)"
  have "ending p (br_pendings ?s g)"
    by (rule ending_quiet [OF _ quiet_releaseOutput]) (simp add: Cons(3))
  then have e: "ending p (br_pendings (release_delivery err x s) g)" by (simp add: release_delivery_def Let_def split: option.split)
  have b: "books L (X - {qc_output x}) Y a b c d (release_delivery err x s)"
    using books_releaseOutput [of L X Y a b c d "cancel_task_of (qc_taskId x) s"] Cons(2)
    by (simp add: release_delivery_def Let_def split: option.split)
  have "X - qc_output ` set (x # ds) = X - {qc_output x} - qc_output ` set ds" by auto
  with Cons(1) [OF b e] show ?case by simp
qed simp

lemma books_releaseCredits_ended:
  assumes "books L X Y a b c d s" "\<not> pn_active (br_pendings s g)"
  shows "books L X Y a b c (d - int (pn_credits (br_pendings s g))) (releaseCredits g s)"
proof -
  have b: "books L X Y a b c d (adjust_pending g (\<lambda>p. p\<lparr>pn_credits := 0\<rparr>) s)"
    by (rule books_ended [OF assms(1)]) (use assms(2) in simp_all)
  have m: "br_outstandingCredits (adjust_pending g f s) = br_outstandingCredits s" for f by (simp add: adjust_pending_def)
  from b show ?thesis
    unfolding releaseCredits_def books_def
    by (simp add: counters_ok_def limits_ok_def pendings_ok_def cells_ok_def outputs_ok_def of_pendings_def of_outputs_def
        open_cells_def m)
qed

lemma books_release_current:
  assumes b: "books L X Y a b c d s" and act: "pn_active (br_pendings s g)"
  shows "books L X Y a b c d (release_current g err s)"
proof -
  let ?p = "br_pendings s g"
  define s1 where "s1 = clearDeadlineAndSignal g (deactivate g s)"
  define s2 where "s2 = (if pn_loopRegistered (br_pendings s1 g)
     then adjust_pending g (\<lambda>p. p\<lparr>pn_loopRegistered := False\<rparr>) (safeCancelNativeRequest g s1) else s1)"
  define s3 where "s3 = release_completion g s2"
  define s4 where "s4 = fold (release_delivery err) (pn_deliveries (br_pendings s3 g)) s3"
  define s5 where "s5 = adjust_pending g (\<lambda>p. p\<lparr>pn_deliveries := []\<rparr>) s4"
  let ?a = "a + int (pn_inputBinaryBytes ?p)" and ?b = "b + int (pn_inputBinaryHandles ?p)"
  let ?c = "c + int (handle_share ?p)" and ?d = "d + int (pn_credits ?p)"
  have d1: "br_pendings (deactivate g s) g = ?p\<lparr>pn_active := False\<rparr>" by (simp add: deactivate_def adjust_pending_def)
  then have p1: "br_pendings s1 g = ?p\<lparr>pn_active := False, pn_deadlineTimer := None, pn_abortSignal := None\<rparr>"
    by (simp add: s1_def pending_clear)
  have b1: "books L (X \<union> outputs_of ?p) Y ?a ?b ?c ?d s1"
    unfolding s1_def by (rule books_clear [OF books_deactivate [OF b act]])
  have b2: "books L (X \<union> outputs_of ?p) Y ?a ?b ?c ?d s2"
  proof -
    have "books L (X \<union> outputs_of ?p) Y ?a ?b ?c ?d (adjust_pending g (\<lambda>p. p\<lparr>pn_loopRegistered := False\<rparr>) (safeCancelNativeRequest g s1))"
      by (rule books_same) (use b1 in \<open>simp_all add: same_account_def holds_output_def\<close>)
    with b1 show ?thesis by (simp add: s2_def)
  qed
  have e2: "ending ?p (br_pendings s2 g)" and c2: "pn_completion (br_pendings s2 g) = pn_completion ?p"
    by (simp_all add: s2_def p1 ending_def)
  note r = books_release_completion [OF b2 e2, folded s3_def]
  have ds: "pn_deliveries (br_pendings s3 g) = pn_deliveries ?p" using r(2) by (simp add: ending_def)
  have b4: "books L (X \<union> outputs_of ?p - completion_outputs (br_pendings s2 g) - qc_output ` set (pn_deliveries ?p)) Y ?a ?b ?c ?d s4"
    and e4: "ending ?p (br_pendings s4 g)"
    using books_release_deliveries [OF r, of "pn_deliveries ?p" err] by (simp_all add: s4_def ds)
  have "books L X Y ?a ?b ?c ?d s4"
    by (rule books_mono [OF b4]) (auto simp: outputs_of_def completion_outputs_def c2)
  then have b5: "books L X Y ?a ?b ?c ?d s5"
    unfolding s5_def by (rule books_ended) (use e4 in \<open>simp_all add: ending_def\<close>)
  let ?q = "br_pendings s5 g"
  have e5: "\<not> pn_active ?q" "pn_inputBinaryBytes ?q = pn_inputBinaryBytes ?p" "pn_credits ?q = pn_credits ?p"
    "pn_inputBinaryHandles ?q = pn_inputBinaryHandles ?p" "handle_share ?q = handle_share ?p"
    using e4 by (simp_all add: s5_def ending_def handle_share_def)
  let ?s6 = "s5\<lparr>br_inFlightBinaryBytes := br_inFlightBinaryBytes s5 - int (pn_inputBinaryBytes ?q),
       br_inFlightBinaryHandles := br_inFlightBinaryHandles s5 - int (pn_inputBinaryHandles ?q),
       br_openHandles := br_openHandles s5 - int (handle_share ?q)\<rparr>"
  have b6: "books L X Y a b c ?d ?s6"
    using books_give_back [OF b5, of "pn_inputBinaryBytes ?q" "pn_inputBinaryHandles ?q" "handle_share ?q"] by (simp add: e5)
  have "books L X Y a b c d (releaseCredits g ?s6)"
    using books_releaseCredits_ended [OF b6, of g] by (simp add: e5)
  then show ?thesis
    unfolding release_current_def Let_def deactivate_def [symmetric] s1_def [symmetric] s2_def [symmetric] s3_def [symmetric]
      s4_def [symmetric] s5_def [symmetric] .
qed

section \<open>Settlement\<close>

lemma books_releasePending: "books L X Y a b c d s \<Longrightarrow> books L X Y a b c d (snd (releasePending g err s))"
  by (auto simp: releasePending_def isCurrent_active books_release_current)

lemma books_settle_readers:
  assumes "books L X Y a b c d s"
  shows "books L X Y a b c d (settle_readers g out s)"
proof -
  have f: "books L X Y a b c d (fold (\<lambda>r. settle (P_reader r) out) rs s)" for rs
    using assms by (induction rs arbitrary: s) simp_all
  show ?thesis
    unfolding settle_readers_def by (rule books_same [OF f]) (simp add: same_account_def holds_output_def)
qed

lemma books_stream_terminal:
  assumes "books L X Y a b c d s"
  shows "books L X Y a b c d (adjust_pending g (\<lambda>p. p\<lparr>pn_terminal := t\<rparr>) s)"
  by (rule books_same [OF assms]) (simp add: same_account_def holds_output_def)

lemma books_settleError: "books L X Y a b c d s \<Longrightarrow> books L X Y a b c d (settleError g err s)"
  using books_releasePending [of L X Y a b c d s g "Some err"]
  by (auto simp: settleError_def intro!: books_settle_readers books_stream_terminal split: prod.split bool.split)

lemma books_settleUnaryResult: "books L X Y a b c d s \<Longrightarrow> books L X Y a b c d (settleUnaryResult g result s)"
  using books_releasePending [of L X Y a b c d s g None] by (auto simp: settleUnaryResult_def split: prod.split bool.split)

lemma books_settleStreamEnd: "books L X Y a b c d s \<Longrightarrow> books L X Y a b c d (settleStreamEnd g result s)"
  using books_releasePending [of L X Y a b c d s g None]
  by (auto simp: settleStreamEnd_def intro!: books_settle_readers books_stream_terminal split: prod.split bool.split)

lemma books_cancelPendingProvider:
  assumes "books L X Y a b c d s"
  shows "books L X Y a b c d (cancelPendingProvider g reason s)"
proof -
  have "books L X Y a b c d (adjust_pending g (\<lambda>p. p\<lparr>pn_providerCancelIssued := True\<rparr>) s)"
    by (rule books_same [OF assms]) (simp add: same_account_def holds_output_def)
  with assms show ?thesis by (simp add: cancelPendingProvider_def)
qed

lemma books_fail_pending: "books L X Y a b c d s \<Longrightarrow> books L X Y a b c d (fail_pending g code s)"
  by (simp add: fail_pending_def books_cancelPendingProvider books_settleError)

lemma books_cancelPending: "books L X Y a b c d s \<Longrightarrow> books L X Y a b c d (snd (cancelPending g reason s))"
  by (simp add: cancelPending_def books_cancelPendingProvider books_settleError)

lemma books_failLoopScheduling: "books L X Y a b c d s \<Longrightarrow> books L X Y a b c d (failLoopScheduling g s)"
  by (simp add: failLoopScheduling_def books_fail_pending)

section \<open>Terminals\<close>

text \<open>A change of the credits of a current request together with the counter.\<close>

lemma books_credits:
  assumes "books L X Y a b c d s" "br_outstandingCredits s + k \<le> int (maxOutstandingCredits (br_limits s))"
  shows "books L X Y a b c (d + k) (s\<lparr>br_outstandingCredits := br_outstandingCredits s + k\<rparr>)"
  using assms unfolding books_def
  by (simp add: counters_ok_def limits_ok_def pendings_ok_def cells_ok_def outputs_ok_def of_pendings_def of_outputs_def open_cells_def)

lemma books_releaseCredits:
  assumes b: "books L X Y a b c d s" and "pn_active (br_pendings s g)"
  shows "books L X Y a b c d (releaseCredits g s)"
proof -
  let ?p = "br_pendings s g" and ?f = "\<lambda>p. p\<lparr>pn_credits := 0\<rparr>"
  have "books L X Y a b c (d + when_active pn_credits ?p - when_active pn_credits (?f ?p)) (adjust_pending g ?f s)"
    by (rule books_change_pending [OF b refl]) (simp_all add: holds_output_def)
  then have m: "books L X Y a b c (d + int (pn_credits ?p)) (adjust_pending g ?f s)"
    using assms(2) by (simp add: when_active_def)
  have u: "br_outstandingCredits (adjust_pending g ?f s) = br_outstandingCredits s" "br_limits (adjust_pending g ?f s) = br_limits s"
    by (simp_all add: adjust_pending_def)
  have "br_outstandingCredits s \<le> int (maxOutstandingCredits (br_limits s))" using b by (simp add: books_def limits_ok_def)
  with books_credits [OF m, of "- int (pn_credits ?p)"] show ?thesis by (simp add: u releaseCredits_def)
qed

lemma books_lockTerminal:
  assumes "books L X Y a b c d s"
  shows "books L (X - (case t of T_output oref \<Rightarrow> {oref} | T_error _ \<Rightarrow> {})) Y a b c d (snd (lockTerminal g t s))"
proof (cases "\<not> isCurrent s g \<or> pn_completion (br_pendings s g) \<noteq> None")
  case True
  then show ?thesis using assms books_releaseOutput [OF assms] by (auto simp: lockTerminal_def split: terminal.split)
next
  case False
  let ?p = "br_pendings s g" and ?X = "X - (case t of T_output oref \<Rightarrow> {oref} | T_error _ \<Rightarrow> {})"
  let ?f = "\<lambda>p. p\<lparr>pn_completion := Some \<lparr>cp_id = br_nextId s, cp_terminal = t, cp_taskId = None\<rparr>\<rparr>"
  have act: "pn_active ?p" "pn_completion ?p = None" using False isCurrent_active [OF assms] by auto
  have "books L ?X Y a b c (d + when_active pn_credits ?p - when_active pn_credits (?f ?p)) (adjust_pending g ?f s)"
    by (rule books_change_pending [OF assms refl]) (use act in \<open>auto simp: holds_output_def split: terminal.splits\<close>)
  then have m: "books L ?X Y a b c d ((adjust_pending g ?f s)\<lparr>br_nextId := br_nextId s + 1\<rparr>)"
    using act by (simp add: when_active_def)
  have "books L ?X Y a b c d (releaseCredits g ((adjust_pending g ?f s)\<lparr>br_nextId := br_nextId s + 1\<rparr>))"
    by (rule books_releaseCredits [OF m]) (simp add: adjust_pending_def act)
  with False show ?thesis by (simp add: lockTerminal_def)
qed

lemma books_loop_call:
  assumes "books L X Y a b c d s" "\<And>i s. books L X Y a b c d (f i s) = books L X Y a b c d s"
  shows "books L X Y a b c d (snd (loop_call f s))"
  using assms by (simp add: loop_call_def Let_def)

lemma books_enqueue_task: "books L X Y a b c d s \<Longrightarrow> books L X Y a b c d (snd (enqueue_task t s))"
  unfolding enqueue_task_def by (rule books_loop_call) simp_all

lemma books_register_request: "books L X Y a b c d s \<Longrightarrow> books L X Y a b c d (snd (register_request g s))"
  unfolding register_request_def by (rule books_loop_call) simp_all

lemma books_set_deadline: "books L X Y a b c d s \<Longrightarrow> books L X Y a b c d (snd (set_deadline g dl s))"
  unfolding set_deadline_def by (rule books_loop_call) simp_all

lemma books_complete_request: "books L X Y a b c d s \<Longrightarrow> books L X Y a b c d (snd (complete_request g t s))"
  unfolding complete_request_def by (auto intro!: books_loop_call)

lemma books_unregistered:
  assumes "books L X Y a b c d s"
  shows "books L X Y a b c d (adjust_pending g (\<lambda>p. p\<lparr>pn_loopRegistered := False\<rparr>) s)"
  by (rule books_same [OF assms]) (simp add: same_account_def holds_output_def)

lemma books_scheduled:
  assumes "books L X Y a b c d s"
  shows "books L X Y a b c d (adjust_pending g (\<lambda>p. p\<lparr>pn_completion := map_option (\<lambda>c. c\<lparr>cp_taskId := Some i\<rparr>) (pn_completion p)\<rparr>) s)"
  by (rule books_same [OF assms]) (auto simp: same_account_def holds_output_def)

definition schedule_call :: "nat \<Rightarrow> nat \<Rightarrow> bridge \<Rightarrow> nat option \<times> bridge" where
  "schedule_call g cid s =
     (if pn_mode (br_pendings s g) = Unary
      then (case complete_request g (Deliver_terminal g cid) s of
              (None, s) \<Rightarrow> (None, s)
            | (Some i, s) \<Rightarrow> (Some i, adjust_pending g (\<lambda>p. p\<lparr>pn_loopRegistered := False\<rparr>) s))
      else enqueue_task (Deliver_terminal g cid) (adjust_pending g (\<lambda>p. p\<lparr>pn_loopRegistered := False\<rparr>) (safeCancelNativeRequest g s)))"

lemma books_schedule_call:
  assumes "books L X Y a b c d s"
  shows "books L X Y a b c d (snd (schedule_call g cid s))"
proof -
  have "books L X Y a b c d (snd (complete_request g (Deliver_terminal g cid) s))" using assms by (rule books_complete_request)
  moreover have "books L X Y a b c d (adjust_pending g (\<lambda>p. p\<lparr>pn_loopRegistered := False\<rparr>) (safeCancelNativeRequest g s))"
    by (rule books_unregistered) (simp add: assms)
  ultimately show ?thesis
    by (auto simp: schedule_call_def intro: books_enqueue_task books_unregistered split: prod.split option.split)
qed

lemma scheduleTerminal_call:
  "scheduleTerminal g cid s =
     (if \<not> isCurrent s g \<or> \<not> is_completion s g cid then s
      else case schedule_call g cid s of
        (None, s) \<Rightarrow> failLoopScheduling g s
      | (Some i, s) \<Rightarrow> adjust_pending g (\<lambda>p. p\<lparr>pn_completion := map_option (\<lambda>c. c\<lparr>cp_taskId := Some i\<rparr>) (pn_completion p)\<rparr>) s)"
  unfolding scheduleTerminal_def schedule_call_def Let_def by (rule refl)

lemma books_scheduleTerminal: "books L X Y a b c d s \<Longrightarrow> books L X Y a b c d (scheduleTerminal g cid s)"
  using books_schedule_call [of L X Y a b c d s g cid]
  by (auto simp: scheduleTerminal_call intro: books_failLoopScheduling books_scheduled split: prod.split option.split)

lemma books_queueTerminal:
  "books L X Y a b c d s \<Longrightarrow> books L (X - (case t of T_output oref \<Rightarrow> {oref} | T_error _ \<Rightarrow> {})) Y a b c d (queueTerminal g t s)"
  using books_lockTerminal [of L X Y a b c d s t g]
  by (auto simp: queueTerminal_def intro: books_scheduleTerminal split: prod.split option.split)

lemma books_lockProviderFailure: "books L X Y a b c d s \<Longrightarrow> books L X Y a b c d (snd (lockProviderFailure g code s))"
  using books_lockTerminal [of L X Y a b c d s "T_error (createNativeBridgeError code)" g] by (simp add: lockProviderFailure_def)

lemma books_failProvider: "books L X Y a b c d s \<Longrightarrow> books L X Y a b c d (failProvider g code s)"
  using books_lockProviderFailure [of L X Y a b c d s g code]
  by (auto simp: failProvider_def intro!: books_scheduleTerminal books_cancelPendingProvider split: prod.split option.split)

lemma books_failProviderWithUndelivered:
  "books L X Y a b c d s \<Longrightarrow> books L X Y a b c d (failProviderWithUndelivered g code grants s)"
  using books_lockProviderFailure [of L X Y a b c d s g code]
  by (auto simp: failProviderWithUndelivered_def intro!: books_scheduleTerminal books_cancelPendingProvider books_closeUndelivered
      split: prod.split option.split)

end
