(* ===== verification/Bridge_Reserve.thy ===== *)
theory Bridge_Reserve
  imports Bridge_Keep
begin

text \<open>
  The reservation of an output keeps the accounts of the native bridge (\<open>books\<close>, theory \<open>Bridge_Books\<close>).
\<close>

section \<open>Reservations\<close>

lemma reserve_fields:
  "br_outputs (reserve_grant g x s) = br_outputs s" "br_pendings (reserve_grant g x s) = br_pendings s"
  "br_nextOutput (reserve_grant g x s) = br_nextOutput s" "br_limits (reserve_grant g x s) = br_limits s"
  "br_openResourceRecords (reserve_grant g x s) = br_openResourceRecords s" "br_pending (reserve_grant g x s) = br_pending s"
  "br_callGeneration (reserve_grant g x s) = br_callGeneration s"
  "br_nextResource (reserve_grant g x s) = Suc (br_nextResource s)"
  "br_resources (reserve_grant g x s) = (br_resources s)(br_nextResource s := \<lparr>rc_token = gr_token x, rc_type = gr_type x,
     rc_owner = g, rc_revokeQueued = False, rc_record = False, rc_open = True\<rparr>)"
  "br_resourceByProviderToken (reserve_grant g x s) = map_set (gr_token x) (br_nextResource s) (br_resourceByProviderToken s)"
  by (simp_all add: reserve_grant_def Let_def)

definition reserved :: "nat set \<Rightarrow> nat set \<Rightarrow> bridge \<Rightarrow> bool" where
  "reserved X Y s \<longleftrightarrow> pendings_ok s \<and> cells_ok s \<and> outputs_ok X Y s"

lemma reserved_grant:
  assumes "reserved X Y s" "map_of (br_resourceByProviderToken s) (gr_token x) = None"
  shows "reserved X (insert (br_nextResource s) Y) (reserve_grant g x s)"
proof -
  let ?k = "br_nextResource s" and ?s = "reserve_grant g x s"
  have c: "cells_ok s" and o: "outputs_ok X Y s" and p: "pendings_ok s" using assms(1) by (simp_all add: reserved_def)
  have k: "map_of (br_resourceByProviderToken s) t = Some y \<longleftrightarrow> rc_open (br_resources s y) \<and> rc_token (br_resources s y) = t"
    for t y using c by (simp add: cells_ok_def)
  have n: "\<not> (rc_open (br_resources s y) \<and> rc_token (br_resources s y) = gr_token x)" for y
    using assms(2) k [of "gr_token x" y] by auto
  have f: "\<not> rc_open (br_resources s ?k)" using c by (auto simp: cells_ok_def)
  have "cells_ok ?s"
    using c f n unfolding cells_ok_def reserve_fields by (auto simp: k less_Suc_eq)
  moreover have "outputs_ok X (insert ?k Y) ?s"
  proof -
    have n: "rc_record (br_resources ?s y) = rc_record (br_resources s y)" if "y < ?k" for y
      using that by (simp add: reserve_fields)
    have q: "y = ?k \<or> rc_open (br_resources s y) \<and> \<not> rc_record (br_resources s y)"
      if "rc_open (br_resources ?s y) \<and> \<not> rc_record (br_resources ?s y)" for y
      using that by (auto simp: reserve_fields split: if_splits)
    show ?thesis
      unfolding outputs_ok_def
    proof (intro conjI allI impI ballI)
      fix y assume "rc_open (br_resources ?s y) \<and> \<not> rc_record (br_resources ?s y)"
      with q [of y] o show "y \<in> insert ?k Y \<or> (\<exists>oref. \<not> ot_delivered (br_outputs ?s oref) \<and> y \<in> set (ot_resources (br_outputs ?s oref)))"
        unfolding outputs_ok_def reserve_fields(1) by blast
    qed (use o n in \<open>auto simp: outputs_ok_def reserve_fields(1-3,8) less_SucI\<close>)
  qed
  moreover have "pendings_ok ?s" using p by (simp add: pendings_ok_def reserve_fields)
  ultimately show ?thesis by (simp add: reserved_def)
qed

definition same_rest :: "bridge \<Rightarrow> bridge \<Rightarrow> bool" where
  "same_rest s s' \<longleftrightarrow>
     br_outputs s' = br_outputs s \<and> br_pendings s' = br_pendings s \<and> br_nextOutput s' = br_nextOutput s \<and>
     br_limits s' = br_limits s \<and> br_pending s' = br_pending s \<and> br_callGeneration s' = br_callGeneration s"

lemma reserved_grants:
  assumes "reserved X Y s" "distinct (map gr_token xs)"
    and "\<And>x. x \<in> set xs \<Longrightarrow> map_of (br_resourceByProviderToken s) (gr_token x) = None"
  shows "reserved X (Y \<union> {br_nextResource s..<br_nextResource s + length xs}) (fold (reserve_grant g) xs s) \<and>
     open_cells (fold (reserve_grant g) xs s) = open_cells s + int (length xs) \<and>
     br_nextResource (fold (reserve_grant g) xs s) = br_nextResource s + length xs \<and>
     (\<forall>y < br_nextResource s. br_resources (fold (reserve_grant g) xs s) y = br_resources s y) \<and>
     (\<forall>y \<in> {br_nextResource s..<br_nextResource s + length xs}. \<not> rc_record (br_resources (fold (reserve_grant g) xs s) y)) \<and>
     same_rest s (fold (reserve_grant g) xs s)"
  using assms
proof (induction xs arbitrary: s Y)
  case (Cons x xs)
  let ?s = "reserve_grant g x s"
  let ?t = "fold (reserve_grant g) xs ?s"
  have n: "gr_token z \<noteq> gr_token x" if "z \<in> set xs" for z
    using imageI [OF that, of gr_token] Cons.prems(2) by auto
  have r: "reserved X (insert (br_nextResource s) Y) ?s"
    using Cons.prems by (intro reserved_grant) auto
  have d: "distinct (map gr_token xs)" using Cons.prems by simp
  have u: "\<And>z. z \<in> set xs \<Longrightarrow> map_of (br_resourceByProviderToken ?s) (gr_token z) = None"
    using Cons.prems n by (auto simp: reserve_fields)
  have o: "open_cells ?s = open_cells s + 1"
    by (simp add: open_cells_def reserve_fields total_Suc total_beyond when_open_def)
  have e: "insert (br_nextResource s) (Y \<union> {Suc (br_nextResource s)..<Suc (br_nextResource s + length xs)}) =
      Y \<union> {br_nextResource s..<Suc (br_nextResource s + length xs)}" by auto
  note ih = Cons.IH [OF r d u]
  have new: "\<not> rc_record (br_resources ?t y)" if "y \<in> {br_nextResource s..<br_nextResource s + length (x # xs)}" for y
    using that ih by (cases "y = br_nextResource s") (auto simp: reserve_fields)
  have old: "br_resources ?t y = br_resources s y" if "y < br_nextResource s" for y
    using that ih by (auto simp: reserve_fields)
  show ?case
    using ih new old by (simp add: reserve_fields o e same_rest_def)
qed (simp add: same_rest_def)

lemma reserve_grants_commute:
  "fold (reserve_grant g) xs (s\<lparr>br_inFlightBinaryBytes := i, br_inFlightBinaryHandles := j, br_openHandles := k,
     br_openResources := l, br_outputs := os, br_nextOutput := n\<rparr>) =
   (fold (reserve_grant g) xs s)\<lparr>br_inFlightBinaryBytes := i, br_inFlightBinaryHandles := j, br_openHandles := k,
     br_openResources := l, br_outputs := os, br_nextOutput := n\<rparr>"
proof (induction xs arbitrary: s)
  case (Cons x xs)
  have "reserve_grant g x (s\<lparr>br_inFlightBinaryBytes := i, br_inFlightBinaryHandles := j, br_openHandles := k,
     br_openResources := l, br_outputs := os, br_nextOutput := n\<rparr>) =
   (reserve_grant g x s)\<lparr>br_inFlightBinaryBytes := i, br_inFlightBinaryHandles := j, br_openHandles := k,
     br_openResources := l, br_outputs := os, br_nextOutput := n\<rparr>"
    by (simp add: reserve_grant_def Let_def)
  then show ?case using Cons [of "reserve_grant g x s"] by simp
qed simp

lemma reserve_counters:
  "br_inFlightBinaryBytes (fold (reserve_grant g) xs s) = br_inFlightBinaryBytes s"
  "br_inFlightBinaryHandles (fold (reserve_grant g) xs s) = br_inFlightBinaryHandles s"
  "br_openHandles (fold (reserve_grant g) xs s) = br_openHandles s"
  "br_openResources (fold (reserve_grant g) xs s) = br_openResources s"
  "br_outstandingCredits (fold (reserve_grant g) xs s) = br_outstandingCredits s"
  by (induction xs arbitrary: s) (simp_all add: reserve_grant_def Let_def)

text \<open>An output that is added holds the reservations that were exempt.\<close>

lemma outputs_ok_added:
  assumes o: "outputs_ok X (Y \<union> R) t" and R: "set (ot_resources out) = R" "distinct (ot_resources out)"
    and out: "\<not> ot_delivered out" "ot_delivered (br_outputs t (br_nextOutput t))"
    and cells: "\<And>y. y \<in> R \<Longrightarrow> y < br_nextResource t \<and> \<not> rc_record (br_resources t y)"
    and s: "br_outputs s = (br_outputs t)(br_nextOutput t := out)" "br_nextOutput s = Suc (br_nextOutput t)"
      "br_resources s = br_resources t" "br_nextResource s = br_nextResource t" "br_pendings s = br_pendings t"
  shows "outputs_ok (insert (br_nextOutput t) X) Y s"
  unfolding outputs_ok_def
proof (intro conjI allI impI)
  fix y assume "rc_open (br_resources s y) \<and> \<not> rc_record (br_resources s y)"
  with o consider "y \<in> Y" | "y \<in> R" |
    oref where "\<not> ot_delivered (br_outputs t oref)" "y \<in> set (ot_resources (br_outputs t oref))"
    unfolding outputs_ok_def s by blast
  then show "y \<in> Y \<or> (\<exists>oref. \<not> ot_delivered (br_outputs s oref) \<and> y \<in> set (ot_resources (br_outputs s oref)))"
  proof cases
    case 2
    then show ?thesis using R(1) out(1) by (intro disjI2 exI [of _ "br_nextOutput t"]) (simp add: s)
  next
    case (3 oref)
    then show ?thesis using out(2) by (intro disjI2 exI [of _ oref]) (auto simp: s)
  qed simp
next
  fix oref assume "\<not> ot_delivered (br_outputs s oref)"
  then show "oref < br_nextOutput s" "oref \<in> insert (br_nextOutput t) X \<or> (\<exists>g. holds_output (br_pendings s g) oref)"
    "distinct (ot_resources (br_outputs s oref))"
    "\<forall>r \<in> set (ot_resources (br_outputs s oref)). r < br_nextResource s \<and> \<not> rc_record (br_resources s r)"
    using o R cells by (cases "oref = br_nextOutput t"; simp add: s outputs_ok_def less_SucI)+
qed

lemma books_reserve_output:
  assumes b: "books L X Y a b c d s" and dis: "distinct (map gr_token (po_resources po))"
    and fresh: "\<And>x. x \<in> set (po_resources po) \<Longrightarrow> map_of (br_resourceByProviderToken s) (gr_token x) = None"
    and fits: "output_fits po s"
  shows "books L (insert (br_nextOutput s) X) Y a b c d (reserve_output g h po s)"
proof -
  let ?xs = "po_resources po" and ?o = "br_nextOutput s" and ?r = "br_nextResource s"
  let ?plan = "po_binaryPlan po" and ?n = "length (po_resources po)"
  define out where "out = \<lparr>ot_binary = copyBinary h ?plan, ot_binaryBytes = bp_bytes ?plan, ot_binaryHandles = bp_handles ?plan,
     ot_delivered = False, ot_resources = [?r..<?r + ?n], ot_value = po_value po\<rparr>"
  define t where "t = fold (reserve_grant g) ?xs s"
  define s' where "s' = reserve_output g h po s"
  have r0: "reserved X Y s" using b by (simp add: books_def reserved_def)
  have t: "reserved X (Y \<union> {?r..<?r + ?n}) t" "open_cells t = open_cells s + int ?n" "br_nextResource t = ?r + ?n"
    "\<And>y. y \<in> {?r..<?r + ?n} \<Longrightarrow> \<not> rc_record (br_resources t y)" "same_rest s t"
    using reserved_grants [OF r0 dis fresh, of g] by (simp_all add: t_def)
  have s': "s' = t\<lparr>br_inFlightBinaryBytes := br_inFlightBinaryBytes s + int (bp_bytes ?plan),
      br_inFlightBinaryHandles := br_inFlightBinaryHandles s + int (bp_handles ?plan),
      br_openHandles := br_openHandles s + int (bp_handles ?plan) + int ?n,
      br_openResources := br_openResources s + int ?n, br_outputs := (br_outputs s)(?o := out), br_nextOutput := ?o + 1\<rparr>"
    unfolding s'_def reserve_output_def Let_def t_def out_def reserve_grants_commute [symmetric] by simp
  have fields: "br_outputs s' = (br_outputs s)(?o := out)" "br_nextOutput s' = Suc ?o" "br_resources s' = br_resources t"
    "br_nextResource s' = br_nextResource t" "br_pendings s' = br_pendings s" "br_limits s' = br_limits s"
    "br_pending s' = br_pending s" "br_callGeneration s' = br_callGeneration s"
    "br_openResourceRecords s' = br_openResourceRecords t" "br_resourceByProviderToken s' = br_resourceByProviderToken t"
    "br_inFlightBinaryBytes s' = br_inFlightBinaryBytes s + int (bp_bytes ?plan)"
    "br_inFlightBinaryHandles s' = br_inFlightBinaryHandles s + int (bp_handles ?plan)"
    "br_openHandles s' = br_openHandles s + int (bp_handles ?plan) + int ?n"
    "br_openResources s' = br_openResources s + int ?n" "br_outstandingCredits s' = br_outstandingCredits s"
    using t(5) by (simp_all add: s' same_rest_def t_def reserve_counters)
  have u: "of_outputs f s' = of_outputs f s + int (f out)" for f
    by (simp add: of_outputs_def fields total_Suc total_beyond when_held_def out_def)
  have v: "ot_binaryBytes out = bp_bytes ?plan" "ot_binaryHandles out = bp_handles ?plan" by (simp_all add: out_def)
  have w: "open_cells s' = open_cells s + int ?n" using t(2) by (simp add: open_cells_def fields)
  have "counters_ok a b c d s'"
    using b by (simp add: books_def counters_ok_def of_pendings_def u v w) (simp add: fields)
  moreover have "limits_ok L s'"
    using b fits by (simp add: books_def limits_ok_def output_fits_def Let_def fields)
  moreover have "pendings_ok s'" using b by (simp add: books_def pendings_ok_def fields)
  moreover have "cells_ok s'" using t(1) by (simp add: reserved_def cells_ok_def fields)
  moreover have "outputs_ok (insert (br_nextOutput t) X) Y s'"
  proof (rule outputs_ok_added [of X Y "set (ot_resources out)" t out])
    show "outputs_ok X (Y \<union> set (ot_resources out)) t" using t(1) by (simp add: reserved_def out_def)
    show "ot_delivered (br_outputs t (br_nextOutput t))" using b t(5) by (auto simp: books_def outputs_ok_def same_rest_def)
    show "y < br_nextResource t \<and> \<not> rc_record (br_resources t y)" if y: "y \<in> set (ot_resources out)" for y
      using y t(3,4) by (simp add: out_def)
  qed (use t(5) in \<open>simp_all add: fields out_def same_rest_def\<close>)
  ultimately show ?thesis using t(5) by (simp add: books_def s'_def same_rest_def)
qed

end
