(* ===== verification/Bridge_Invariant.thy ===== *)
theory Bridge_Invariant
  imports Bridge_Reserve
begin

text \<open>
  Provider events, streams, admission and disposal keep the accounts of the native bridge, and so does
  every call of it: \<open>books L {} {} 0 0 0 0\<close> holds in every state a bridge reaches.
\<close>

section \<open>Provider events\<close>

lemma pendings_reserve_output: "br_pendings (reserve_output g h po s) = br_pendings s"
proof -
  have "br_pendings (fold (reserve_grant g) xs s) = br_pendings s" for xs s
    by (induction xs arbitrary: s) (simp_all add: reserve_fields)
  then show ?thesis by (simp add: reserve_output_def Let_def)
qed

lemma reserveOutput_cases:
  obtains (refused) code where "reserveOutput g h po s = (None, failProviderWithUndelivered g code (po_resources po) s)"
  | (reserved) "reserveOutput g h po s = (Some (br_nextOutput s), reserve_output g h po s)"
    "distinct (map gr_token (po_resources po))" "output_fits po s"
    "\<And>x. x \<in> set (po_resources po) \<Longrightarrow> map_of (br_resourceByProviderToken s) (gr_token x) = None"
proof (cases "distinct (map gr_token (po_resources po)) \<and>
    (\<forall>x \<in> set (po_resources po). map_of (br_resourceByProviderToken s) (gr_token x) = None) \<and> output_fits po s")
  case True
  then have "reserveOutput g h po s = (Some (br_nextOutput s), reserve_output g h po s)"
    by (auto simp: reserveOutput_def Let_def list_ex_iff)
  with True reserved show ?thesis by blast
next
  case False
  then have "\<exists>code. reserveOutput g h po s = (None, failProviderWithUndelivered g code (po_resources po) s)"
    by (auto simp: reserveOutput_def Let_def list_ex_iff)
  with refused show ?thesis by blast
qed

lemma books_queue_output:
  assumes "books L X Y a b c d s"
  shows "books L X Y a b c d (queue_output g h mode po s)"
proof (cases "pn_mode (br_pendings s g) \<noteq> mode")
  case True
  then show ?thesis by (simp add: queue_output_def books_failProviderWithUndelivered [OF assms])
next
  case False
  then show ?thesis
  proof (cases rule: reserveOutput_cases [of g h po s])
    case (refused code)
    with False show ?thesis by (simp add: queue_output_def books_failProviderWithUndelivered [OF assms])
  next
    case reserved
    have "books L (insert (br_nextOutput s) X) Y a b c d (reserve_output g h po s)"
      by (rule books_reserve_output [OF assms reserved(2,4,3)])
    from books_queueTerminal [OF this, of "T_output (br_nextOutput s)" g] reserved False
    have "books L (X - {br_nextOutput s}) Y a b c d (queue_output g h mode po s)" by (simp add: queue_output_def)
    then show ?thesis by (rule books_mono) auto
  qed
qed

text \<open>The chunk that is handed to a reader: its output is held by the request, one credit is spent.\<close>

definition take_credit :: "nat \<Rightarrow> nat \<Rightarrow> nat \<Rightarrow> nat \<Rightarrow> nat list \<Rightarrow> bridge \<Rightarrow> bridge" where
  "take_credit g oref sequence reader readers s =
     (let did = br_nextId s
      in (adjust_pending g (\<lambda>p. p\<lparr>pn_readers := readers, pn_credits := pn_credits p - 1,
            pn_nextSequence := pn_nextSequence p + 1,
            pn_deliveries := pn_deliveries p @ [\<lparr>qc_id = did, qc_output = oref, qc_reader = reader,
              qc_sequence = sequence, qc_taskId = None\<rparr>]\<rparr>) s)
           \<lparr>br_nextId := did + 1, br_outstandingCredits := br_outstandingCredits s - 1\<rparr>)"

lemma books_take_credit:
  assumes b: "books L (insert oref X) Y a b c d s" and "pn_active (br_pendings s g)" "pn_credits (br_pendings s g) \<noteq> 0"
  shows "books L X Y a b c d (take_credit g oref sequence reader readers s)"
proof -
  let ?p = "br_pendings s g"
  let ?f = "\<lambda>p. p\<lparr>pn_readers := readers, pn_credits := pn_credits p - 1, pn_nextSequence := pn_nextSequence p + 1,
     pn_deliveries := pn_deliveries p @ [\<lparr>qc_id = br_nextId s, qc_output = oref, qc_reader = reader,
       qc_sequence = sequence, qc_taskId = None\<rparr>]\<rparr>"
  let ?s = "adjust_pending g ?f s"
  have "books L X Y a b c (d + when_active pn_credits ?p - when_active pn_credits (?f ?p)) ?s"
    by (rule books_change_pending [OF b refl]) (use assms(2) in \<open>auto simp: holds_output_def\<close>)
  then have m: "books L X Y a b c (d + 1) ?s" using assms(2,3) by (simp add: when_active_def of_nat_diff)
  have u: "br_outstandingCredits (adjust_pending g f s) = br_outstandingCredits s"
    "br_limits (adjust_pending g f s) = br_limits s" for f
    by (simp_all add: adjust_pending_def)
  have "br_outstandingCredits s \<le> int (maxOutstandingCredits (br_limits s))" using b by (simp add: books_def limits_ok_def)
  moreover have "books L X Y a b c (d + 1) (?s\<lparr>br_nextId := br_nextId s + 1\<rparr>)" using m by (simp only: books_fields)
  ultimately show ?thesis
    using books_credits [of L X Y a b c "d + 1" "?s\<lparr>br_nextId := br_nextId s + 1\<rparr>" "-1"] by (simp add: take_credit_def Let_def u)
qed

lemma outputs_of_tasks:
  "qc_output ` set (map (\<lambda>d. if qc_id d = did then d\<lparr>qc_taskId := t\<rparr> else d) ds) = qc_output ` set ds"
  by (induction ds) auto

lemma books_delivery_task:
  assumes "books L X Y a b c d s"
  shows "books L X Y a b c d (adjust_pending g (\<lambda>p. p\<lparr>pn_deliveries := map (\<lambda>d. if qc_id d = did then d\<lparr>qc_taskId := Some i\<rparr> else d)
                         (pn_deliveries p)\<rparr>) s)"
  by (rule books_same [OF assms])
    (simp add: same_account_def holds_output_iff outputs_of_def outputs_of_tasks del: set_map list.set_map)

lemma queue_chunk_steps:
  "queue_chunk g h po sequence s =
     (if pn_mode (br_pendings s g) \<noteq> Streaming \<or> sequence \<noteq> pn_nextSequence (br_pendings s g) \<or> pn_credits (br_pendings s g) = 0
      then failProviderWithUndelivered g N_protocol_error (po_resources po) s
      else case reserveOutput g h po s of
        (None, s) \<Rightarrow> s
      | (Some oref, s) \<Rightarrow>
          (case pn_readers (br_pendings s g) of
             [] \<Rightarrow>
               (case lockProviderFailure g N_protocol_error s of
                  (cid, s) \<Rightarrow>
                    (let s = releaseOutput oref True s
                     in case cid of
                          None \<Rightarrow> s
                        | Some cid \<Rightarrow> scheduleTerminal g cid (cancelPendingProvider g (Some (code_text N_protocol_error)) s)))
           | reader # readers \<Rightarrow>
               (case enqueue_task (Deliver_chunk g (br_nextId s)) (take_credit g oref sequence reader readers s) of
                  (None, s') \<Rightarrow> failLoopScheduling g s'
                | (Some i, s') \<Rightarrow>
                    adjust_pending g (\<lambda>p. p\<lparr>pn_deliveries := map (\<lambda>d. if qc_id d = br_nextId s then d\<lparr>qc_taskId := Some i\<rparr> else d)
                      (pn_deliveries p)\<rparr>) s')))"
  unfolding queue_chunk_def take_credit_def Let_def by (rule refl)

lemma books_queue_chunk:
  assumes "books L X Y a b c d s" "pn_active (br_pendings s g)"
  shows "books L X Y a b c d (queue_chunk g h po sequence s)"
proof (cases "pn_mode (br_pendings s g) \<noteq> Streaming \<or> sequence \<noteq> pn_nextSequence (br_pendings s g) \<or> pn_credits (br_pendings s g) = 0")
  case True
  then show ?thesis by (simp only: queue_chunk_steps if_True books_failProviderWithUndelivered [OF assms(1)])
next
  case ok: False
  show ?thesis
  proof (cases rule: reserveOutput_cases [of g h po s])
    case (refused code)
    with ok show ?thesis by (simp add: queue_chunk_steps books_failProviderWithUndelivered [OF assms(1)])
  next
    case reserved
    let ?o = "br_nextOutput s" and ?s = "reserve_output g h po s"
    have b: "books L (insert ?o X) Y a b c d ?s" by (rule books_reserve_output [OF assms(1) reserved(2,4,3)])
    have p: "br_pendings ?s = br_pendings s" by (rule pendings_reserve_output)
    show ?thesis
    proof (cases "pn_readers (br_pendings s g)")
      case Nil
      obtain cid s1 where l: "lockProviderFailure g N_protocol_error ?s = (cid, s1)" by fastforce
      have "books L (insert ?o X) Y a b c d s1" using books_lockProviderFailure [OF b, of g N_protocol_error] by (simp add: l)
      from books_releaseOutput [OF this, of ?o True] have r: "books L X Y a b c d (releaseOutput ?o True s1)"
        by (rule books_mono) auto
      show ?thesis
        using ok r by (simp add: queue_chunk_steps reserved(1) p Nil l Let_def books_scheduleTerminal books_cancelPendingProvider split: option.split)
    next
      case (Cons reader readers)
      have t: "books L X Y a b c d (take_credit g ?o sequence reader readers ?s)"
        by (rule books_take_credit [OF b]) (use assms(2) ok in \<open>simp_all add: p\<close>)
      obtain i s1 where q: "enqueue_task (Deliver_chunk g (br_nextId ?s)) (take_credit g ?o sequence reader readers ?s) = (i, s1)"
        by fastforce
      have "books L X Y a b c d s1" using books_enqueue_task [OF t] q by (metis snd_conv)
      then show ?thesis
        unfolding queue_chunk_steps if_not_P [OF ok]
        by (simp add: reserved(1) p Cons q books_failLoopScheduling books_delivery_task split: option.split)
    qed
  qed
qed

lemma books_handleProviderEvent:
  assumes "books L X Y a b c d s"
  shows "books L X Y a b c d (handleProviderEvent num g h event s)"
  using assms isCurrent_active [OF assms, of g]
    books_queueTerminal [OF assms, of "T_error e" g for e]
  by (auto simp: handleProviderEvent_def Let_def books_failProviderWithUndelivered books_queue_output books_queue_chunk
      split: option.split sum.split native_event.split)

section \<open>Tasks\<close>

lemma books_change_outputs:
  assumes "books L X Y a b c d s" and p: "p' = f (br_pendings s g)"
    and "pn_id p' = pn_id (br_pendings s g)" "pn_active p' = pn_active (br_pendings s g)"
    and "pn_inputBinaryBytes p' = pn_inputBinaryBytes (br_pendings s g)"
    and "pn_inputBinaryHandles p' = pn_inputBinaryHandles (br_pendings s g)" "pn_mode p' = pn_mode (br_pendings s g)"
    and c: "pn_credits p' = pn_credits (br_pendings s g)"
    and "\<And>oref. holds_output (br_pendings s g) oref \<Longrightarrow> oref \<notin> X' \<Longrightarrow> holds_output p' oref"
    and "\<And>oref. oref \<in> X \<Longrightarrow> oref \<in> X' \<or> holds_output p' oref"
  shows "books L X' Y a b c d (adjust_pending g f s)"
proof -
  have "when_active pn_credits p' = when_active pn_credits (br_pendings s g)" using assms(4) c by (simp add: when_active_def)
  moreover have "books L X' Y a b c (d + when_active pn_credits (br_pendings s g) - when_active pn_credits p') (adjust_pending g f s)"
    using assms by (intro books_change_pending) auto
  ultimately show ?thesis by simp
qed

lemma books_deliverTerminal:
  assumes "books L X Y a b c d s"
  shows "books L X Y a b c d (deliverTerminal g cid s)"
proof (cases "isCurrent s g \<and> is_completion s g cid")
  case False
  then show ?thesis using assms by (auto simp: deliverTerminal_def is_completion_def split: option.split)
next
  case True
  then obtain co where co: "pn_completion (br_pendings s g) = Some co" "cp_id co = cid" by (auto simp: is_completion_def)
  let ?f = "\<lambda>p. p\<lparr>pn_completion := None\<rparr>" and ?p = "br_pendings s g"
  let ?X = "X \<union> completion_outputs ?p" and ?s = "adjust_pending g (\<lambda>p. p\<lparr>pn_completion := None\<rparr>) s"
  have m: "books L ?X Y a b c d ?s"
    by (rule books_change_outputs [OF assms refl]) (auto simp: holds_output_def completion_outputs_def co)
  show ?thesis
  proof (cases "cp_terminal co")
    case (T_error e)
    then have "books L X Y a b c d ?s" using m by (simp add: completion_outputs_def co)
    with True co T_error show ?thesis by (simp add: deliverTerminal_def books_settleError)
  next
    case (T_output oref)
    obtain result s1 where d: "deliverOutput oref ?s = (result, s1)" by fastforce
    have "books L (?X - {oref}) Y a b c d s1" using books_deliverOutput [OF m, of oref] by (simp add: d)
    then have "books L X Y a b c d s1" by (rule books_mono) (auto simp: completion_outputs_def co T_output)
    with True co T_output show ?thesis
      by (auto simp: deliverTerminal_def d books_fail_pending books_settleUnaryResult books_settleStreamEnd split: option.split)
  qed
qed

lemma books_deliverChunk:
  assumes "books L X Y a b c d s"
  shows "books L X Y a b c d (deliverChunk g did s)"
proof (cases "find (\<lambda>d. qc_id d = did) (pn_deliveries (br_pendings s g))")
  case None
  then show ?thesis using assms by (simp add: deliverChunk_def)
next
  case (Some x)
  let ?f = "\<lambda>p. p\<lparr>pn_deliveries := remove1 x (pn_deliveries p)\<rparr>"
  let ?X = "insert (qc_output x) X"
  show ?thesis
  proof (cases "isCurrent s g")
    case False
    with Some show ?thesis using assms by (simp add: deliverChunk_def)
  next
    case True
    have m: "books L ?X Y a b c d (adjust_pending g ?f s)"
      by (rule books_change_outputs [OF assms refl]) (simp_all add: holds_output_def, metis in_set_remove1)
    obtain result s1 where d: "deliverOutput (qc_output x) (adjust_pending g ?f s) = (result, s1)" by fastforce
    have "books L (?X - {qc_output x}) Y a b c d s1" using books_deliverOutput [OF m, of "qc_output x"] by (simp add: d)
    then have "books L X Y a b c d s1" by (rule books_mono) auto
    with True Some show ?thesis
      by (auto simp: deliverChunk_def d books_failProvider split: option.split)
  qed
qed

section \<open>Revocation\<close>

lemma books_mark_cell:
  assumes "books L X Y a b c d s"
  shows "books L X Y a b c d (adjust_cell r (\<lambda>c. c\<lparr>rc_revokeQueued := True\<rparr>) s)"
proof -
  let ?s = "adjust_cell r (\<lambda>c. c\<lparr>rc_revokeQueued := True\<rparr>) s"
  have c: "rc_open (br_resources ?s x) = rc_open (br_resources s x)" "rc_record (br_resources ?s x) = rc_record (br_resources s x)"
    "rc_token (br_resources ?s x) = rc_token (br_resources s x)" "when_open (br_resources ?s x) = when_open (br_resources s x)" for x
    by (simp_all add: adjust_cell_def when_open_def)
  have fields: "br_outputs ?s = br_outputs s" "br_pendings ?s = br_pendings s" "br_nextOutput ?s = br_nextOutput s"
    "br_nextResource ?s = br_nextResource s" "br_limits ?s = br_limits s" "br_pending ?s = br_pending s"
    "br_callGeneration ?s = br_callGeneration s" "br_openResourceRecords ?s = br_openResourceRecords s"
    "br_resourceByProviderToken ?s = br_resourceByProviderToken s" "br_inFlightBinaryBytes ?s = br_inFlightBinaryBytes s"
    "br_inFlightBinaryHandles ?s = br_inFlightBinaryHandles s" "br_openHandles ?s = br_openHandles s"
    "br_openResources ?s = br_openResources s" "br_outstandingCredits ?s = br_outstandingCredits s"
    by (simp_all add: adjust_cell_def)
  show ?thesis
    using assms by (simp add: books_defs of_pendings_def of_outputs_def open_cells_def total_def c fields)
qed

lemma books_resourceEvent:
  assumes "books L X Y a b c d s"
  shows "books L X Y a b c d (handleProviderResourceEvent g h event s)"
proof -
  have "books L X Y a b c d (snd (enqueue_task t (adjust_cell r (\<lambda>c. c\<lparr>rc_revokeQueued := True\<rparr>) s)))" for t r
    by (rule books_enqueue_task [OF books_mark_cell [OF assms]])
  then have "books L X Y a b c d s'" if "enqueue_task t (adjust_cell r (\<lambda>c. c\<lparr>rc_revokeQueued := True\<rparr>) s) = (i, s')" for t r i s'
    using that by (metis snd_conv)
  then show ?thesis
    using assms by (auto simp: handleProviderResourceEvent_def Let_def books_failProvider books_failLoopScheduling books_closeResource
      split: option.split prod.split)
qed

lemma books_applyRevoke:
  assumes "books L X Y a b c d s"
  shows "books L X Y a b c d (applyProviderResourceRevoke g token s)"
proof (cases "map_of (br_resourceByProviderToken s) token")
  case None
  then show ?thesis using assms by (simp add: applyProviderResourceRevoke_def)
next
  case (Some r)
  then have r: "rc_open (br_resources s r)" "rc_token (br_resources s r) = token" using assms by (auto simp: books_def cells_ok_def)
  have "books L X Y a b c d (close_cell r (forget_token token r s))"
    using books_mono [OF books_close_cell [OF assms r(1)] subset_refl] r(2) by (auto simp: forget_close_swap)
  with Some assms show ?thesis by (simp add: applyProviderResourceRevoke_def Let_def books_closeResource)
qed

section \<open>Streams and disposal\<close>

lemma books_readStream:
  assumes "books L X Y a b c d s"
  shows "books L X Y a b c d (snd (readStream g s))"
proof -
  define reader where "reader = br_nextId s"
  define s1 where "s1 = s\<lparr>br_nextId := reader + 1\<rparr>"
  let ?push = "adjust_pending g (\<lambda>p. p\<lparr>pn_readers := pn_readers p @ [reader]\<rparr>)"
  have s1: "books L X Y a b c d s1" using assms by (simp add: s1_def)
  have push: "books L X Y a b c d (?push s1)"
    by (rule books_same [OF s1]) (simp add: same_account_def holds_output_def)
  have grant: "books L X Y a b c d (call_port (PC_grant g 1) ((adjust_pending g (\<lambda>p. p\<lparr>pn_credits := pn_credits p + 1\<rparr>) (?push s1))
      \<lparr>br_outstandingCredits := br_outstandingCredits s1 + 1\<rparr>))"
    if act: "isCurrent s1 g" "br_outstandingCredits s1 < int (maxOutstandingCredits (br_limits s1))"
  proof -
    let ?f = "\<lambda>p. p\<lparr>pn_credits := pn_credits p + 1\<rparr>" and ?p = "br_pendings (?push s1) g"
    have "pn_active ?p" using act(1) isCurrent_active [OF s1] by simp
    moreover have "books L X Y a b c (d + when_active pn_credits ?p - when_active pn_credits (?f ?p)) (adjust_pending g ?f (?push s1))"
      by (rule books_change_pending [OF push refl]) (auto simp: holds_output_def)
    ultimately have m: "books L X Y a b c (d - 1) (adjust_pending g ?f (?push s1))" by (simp add: when_active_def)
    have u: "br_outstandingCredits (adjust_pending g f s) = br_outstandingCredits s" "br_limits (adjust_pending g f s) = br_limits s" for g f s
      by (simp_all add: adjust_pending_def)
    show ?thesis using books_credits [OF m, of 1] act(2) by (simp add: u)
  qed
  show ?thesis
    unfolding readStream_def Let_def snd_conv reader_def [symmetric] s1_def [symmetric]
    using s1 push grant by (simp split: option.split stream_terminal.split)
qed

lemma books_fold: "(\<And>x s. books L X Y a b c d s \<Longrightarrow> books L X Y a b c d (f x s)) \<Longrightarrow> books L X Y a b c d s \<Longrightarrow> books L X Y a b c d (fold f xs s)"
  by (induction xs arbitrary: s) auto

lemma books_terminateBridge:
  assumes "books L X Y a b c d s"
  shows "books L X Y a b c d (terminateBridge code reason s)"
  using assms unfolding terminateBridge_def Let_def close_records_def
  by (auto intro!: books_fold simp: end_pending_def books_cancelPendingProvider books_settleError books_closeResource)

lemma books_dispose: "books L X Y a b c d s \<Longrightarrow> books L X Y a b c d (dispose_bridge s)"
  by (simp add: dispose_bridge_def books_terminateBridge)

lemma books_run_meanwhile: "books L X Y a b c d s \<Longrightarrow> books L X Y a b c d (run_meanwhile m s)"
  by (cases m) (simp_all add: books_closeResource books_dispose terminateFromLoop_def books_terminateBridge)

end
