(* ===== verification/Bridge_Reach.thy ===== *)
theory Bridge_Reach
  imports Bridge_Invariant
begin

text \<open>
  Admission, deadlines and the calls of a history keep the accounts of the native bridge: the invariant
  holds in every state a bridge reaches.
\<close>

section \<open>No request becomes active\<close>

definition fades :: "bridge \<Rightarrow> bridge \<Rightarrow> bool" where
  "fades s s' \<longleftrightarrow>
     br_callGeneration s' = br_callGeneration s \<and> br_limits s' = br_limits s \<and>
     (\<forall>g. pn_active (br_pendings s' g) \<longrightarrow> pn_active (br_pendings s g))"

lemma fades_refl [simp]: "fades s s"
  by (simp add: fades_def)

lemma fades_trans: "fades s s' \<Longrightarrow> fades s' s'' \<Longrightarrow> fades s s''"
  by (simp add: fades_def)

lemma fades_quiet: "quiet s s' \<Longrightarrow> fades s s'"
  by (simp add: quiet_def fades_def same_pending_def)

text \<open>The relation is carried along the steps of an operation.\<close>

lemma fades_along: "(\<And>s. fades s (f s)) \<Longrightarrow> fades s0 s \<Longrightarrow> fades s0 (f s)"
  by (meson fades_trans)

lemma fades_fields [simp]:
  "fades s0 s \<Longrightarrow> fades s0 (s\<lparr>br_inFlightBinaryBytes := i, br_inFlightBinaryHandles := j, br_openHandles := k\<rparr>)"
  "fades s0 s \<Longrightarrow> fades s0 (s\<lparr>br_outstandingCredits := i\<rparr>)" "fades s0 s \<Longrightarrow> fades s0 (s\<lparr>br_pending := m\<rparr>)"
  "fades s0 s \<Longrightarrow> fades s0 (s\<lparr>br_resourceEventTasks := l\<rparr>)" "fades s0 s \<Longrightarrow> fades s0 (s\<lparr>br_admissionViolated := v\<rparr>)"
  "fades s0 s \<Longrightarrow> fades s0 (s\<lparr>br_disposed := v, br_terminalCode := code, br_lifecycleGeneration := n\<rparr>)"
  "fades s0 s \<Longrightarrow> fades s0 (s\<lparr>br_loopCalls := n\<rparr>)" "fades s0 s \<Longrightarrow> fades s0 (s\<lparr>br_loopTasks := ts\<rparr>)"
  "fades s0 s \<Longrightarrow> fades s0 (s\<lparr>br_loopTimers := tm\<rparr>)" "fades s0 s \<Longrightarrow> fades s0 (s\<lparr>br_loopRequests := lr\<rparr>)"
  by (simp_all add: fades_def)

lemma fades_steps [simp]:
  assumes "fades s0 s"
  shows "fades s0 (settle p out s)" "fades s0 (safeCancelTask i s)" "fades s0 (safeClearTimer i s)"
    "fades s0 (safeCancelNativeRequest g s)" "fades s0 (call_port pc s)" "fades s0 (closeProviderResource k t v s)"
    "fades s0 (cancel_task_of ti s)" "fades s0 (touched s)" "fades s0 (releaseOutput oref c s)"
    "fades s0 (close_cell r s)" "fades s0 (forget_token tok r s)"
  using assms fades_trans [OF assms fades_quiet, of "call_port pc s"]
    fades_trans [OF assms fades_quiet, of "closeProviderResource k t v s"]
    fades_trans [OF assms fades_quiet, of "releaseOutput oref c s"]
    fades_trans [OF assms fades_quiet, of "close_cell r s"] fades_trans [OF assms fades_quiet, of "forget_token tok r s"]
  by (simp_all add: fades_def settle_def safeCancelTask_def safeClearTimer_def
      safeCancelNativeRequest_def cancel_task_of_def touched_def split: option.split)

lemma fades_adjust [simp]:
  "fades s0 s \<Longrightarrow> \<forall>p. pn_active (f p) \<longrightarrow> pn_active p \<Longrightarrow> fades s0 (adjust_pending g f s)"
  by (auto simp: fades_def adjust_pending_def)

lemma fades_fold: "fades s0 s \<Longrightarrow> (\<And>x s. fades s0 s \<Longrightarrow> fades s0 (f x s)) \<Longrightarrow> fades s0 (fold f xs s)"
  by (induction xs arbitrary: s) auto

lemma fades_folded [simp]:
  "fades s0 s \<Longrightarrow> \<forall>x s. fades s0 s \<longrightarrow> fades s0 (f x s) \<Longrightarrow> fades s0 (fold f xs s)"
  by (rule fades_fold) auto

lemma fades_clear [simp]: "fades s0 s \<Longrightarrow> fades s0 (clearDeadlineAndSignal g s)"
  by (simp add: clearDeadlineAndSignal_def split: option.split)

lemma fades_release_delivery [simp]: "fades s0 s \<Longrightarrow> fades s0 (release_delivery err x s)"
  by (simp add: release_delivery_def Let_def split: option.split)

lemma fades_release_completion [simp]: "fades s0 s \<Longrightarrow> fades s0 (release_completion g s)"
  by (simp add: release_completion_def Let_def split: option.split terminal.split)

lemma fades_releaseCredits [simp]: "fades s0 s \<Longrightarrow> fades s0 (releaseCredits g s)"
  by (simp add: releaseCredits_def)

lemma fades_release_current [simp]: "fades s0 s \<Longrightarrow> fades s0 (release_current g err s)"
  by (simp add: release_current_def Let_def fades_fold)

lemma fades_releasePending: "fades s0 s \<Longrightarrow> fades s0 (snd (releasePending g err s))"
  by (simp add: releasePending_def)

lemma fades_settle_readers [simp]: "fades s0 s \<Longrightarrow> fades s0 (settle_readers g out s)"
  by (simp add: settle_readers_def fades_fold)

lemma fades_settleError [simp]: "fades s0 s \<Longrightarrow> fades s0 (settleError g e s)"
  using fades_releasePending [of s0 s g "Some e"] by (auto simp: settleError_def split: prod.split bool.split)

lemma fades_cancelPendingProvider [simp]: "fades s0 s \<Longrightarrow> fades s0 (cancelPendingProvider g reason s)"
  by (simp add: cancelPendingProvider_def)

lemma fades_closeResource [simp]: "fades s0 s \<Longrightarrow> fades s0 (snd (closeResource_bridge r notify reason s))"
  by (simp add: closeResource_touched Let_def)

lemma fades_terminateBridge [simp]: "fades s0 s \<Longrightarrow> fades s0 (terminateBridge code reason s)"
  by (simp add: terminateBridge_def Let_def close_records_def end_pending_def)

lemma fades_run_meanwhile [simp]: "fades s0 s \<Longrightarrow> fades s0 (run_meanwhile m s)"
  by (cases m) (simp_all add: dispose_bridge_def terminateFromLoop_def)

lemma fades_meanwhile [simp]: "fades s0 s \<Longrightarrow> fades s0 (fold run_meanwhile ms s)"
  by (rule fades_fold) simp_all

lemma fades_loop_call:
  "fades s0 s \<Longrightarrow> \<forall>i s. fades s0 s \<longrightarrow> fades s0 (f i s) \<Longrightarrow> fades s0 (snd (loop_call f s))"
  by (simp add: loop_call_def Let_def)

lemma fades_register [simp]: "fades s0 s \<Longrightarrow> fades s0 (snd (register_request g s))"
  by (simp add: register_request_def fades_loop_call)

lemma fades_set_deadline [simp]: "fades s0 s \<Longrightarrow> fades s0 (snd (set_deadline g dl s))"
  by (simp add: set_deadline_def fades_loop_call)

section \<open>Admission\<close>

lemma books_armDeadline: "books L X Y a b c d s \<Longrightarrow> books L X Y a b c d (snd (armDeadline g dl clock s))"
  using books_set_deadline [of L X Y a b c d s g dl] by (auto simp: armDeadline_def split: option.split jsnum.split prod.split)

lemma fades_armDeadline: "fades s0 s \<Longrightarrow> fades s0 (snd (armDeadline g dl clock s))"
proof -
  assume "fades s0 s"
  then have "fades s0 s'" if "set_deadline g dl s = (i, s')" for i s' using that by (metis fades_set_deadline snd_conv)
  with \<open>fades s0 s\<close> show ?thesis by (auto simp: armDeadline_def split: option.split jsnum.split prod.split)
qed

lemma books_meanwhile: "books L X Y a b c d s \<Longrightarrow> books L X Y a b c d (fold run_meanwhile ms s)"
  by (rule books_fold) (rule books_run_meanwhile)

lemma admit_prepare_state: "snd (admit_prepare num ai mode lifecycle s) = fold run_meanwhile (ai_preparing ai) s"
  by (simp add: admit_prepare_def Let_def split: sum.split prod.split option.split)

definition register_deadline :: "admission \<Rightarrow> nat \<Rightarrow> prepared_request \<Rightarrow> bridge \<Rightarrow> (native_code option + nat option) \<times> bridge" where
  "register_deadline ai g p s =
     (case pq_deadlineMs p of
        None \<Rightarrow> (Inr None, s)
      | Some d \<Rightarrow> (case armDeadline g d (ai_armClock ai) s of (Inl e, s) \<Rightarrow> (Inl e, s) | (Inr i, s) \<Rightarrow> (Inr (Some i), s)))"

lemma register_deadline_keeps:
  "books L X Y a b c d s \<Longrightarrow> books L X Y a b c d (snd (register_deadline ai g p s))"
  "fades s0 s \<Longrightarrow> fades s0 (snd (register_deadline ai g p s))"
  using books_armDeadline [of L X Y a b c d s g "the (pq_deadlineMs p)" "ai_armClock ai"]
    fades_armDeadline [of s0 s g "the (pq_deadlineMs p)" "ai_armClock ai"]
  by (auto simp: register_deadline_def split: option.split prod.split sum.split)

lemma admit_register_keeps:
  assumes "books L X Y a b c d s" "fades s0 s"
  shows "books L X Y a b c d (snd (snd (admit_register ai g options p s)))"
    and "fades s0 (snd (snd (admit_register ai g options p s)))"
proof -
  obtain i s1 where r: "register_request g s = (i, s1)" by fastforce
  obtain t s2 where d: "register_deadline ai g p s1 = (t, s2)" by fastforce
  have "books L X Y a b c d s1" "fades s0 s1"
    using books_register_request [OF assms(1), of g] fades_register [OF assms(2), of g] by (simp_all add: r)
  moreover from this have "books L X Y a b c d s2" "fades s0 s2"
    using register_deadline_keeps(1) [of L X Y a b c d s1 ai g p] register_deadline_keeps(2) [of s0 s1 ai g p] by (simp_all add: d)
  ultimately have "books L X Y a b c d (snd (snd (admit_register ai g options p s))) \<and>
      fades s0 (snd (snd (admit_register ai g options p s)))"
    unfolding admit_register_def register_deadline_def [symmetric]
    by (auto simp: r d books_meanwhile Let_def split: option.split sum.split bool.split)
  then show "books L X Y a b c d (snd (snd (admit_register ai g options p s)))"
    and "fades s0 (snd (snd (admit_register ai g options p s)))" by auto
qed

lemma books_next_call:
  assumes "books L X Y a b c d s"
  shows "books L X Y a b c d (s\<lparr>br_admissionActive := v, br_admissionViolated := w, br_callGeneration := br_callGeneration s + 1\<rparr>)"
    and "\<not> pn_active (br_pendings s (br_callGeneration s + 1))"
proof -
  show inactive: "\<not> pn_active (br_pendings s (br_callGeneration s + 1))"
    using assms by (auto simp: books_def pendings_ok_def)
  let ?s = "s\<lparr>br_admissionActive := v, br_admissionViolated := w, br_callGeneration := br_callGeneration s + 1\<rparr>"
  have t: "of_pendings f ?s = of_pendings f s" for f
    using inactive by (simp add: of_pendings_def total_Suc when_active_def)
  have o: "of_outputs f ?s = of_outputs f s" "open_cells ?s = open_cells s" for f
    by (simp_all add: of_outputs_def open_cells_def)
  have "counters_ok a b c d ?s"
    using assms unfolding books_def counters_ok_def t o by simp
  then show "books L X Y a b c d ?s"
    using assms by (simp add: books_def limits_ok_def pendings_ok_def cells_ok_def outputs_ok_def le_SucI)
qed

lemma books_commit:
  assumes "books L X Y a b c d s" "\<not> pn_active (br_pendings s g)" "g = br_callGeneration s"
    and adm: "assertAdmissible p mode uses lifecycle g' s = None"
  shows "books L X Y a b c d (commit_pending g (new_pending p mode timer signal) s)"
proof -
  let ?p = "new_pending p mode timer signal" and ?s = "commit_pending g (new_pending p mode timer signal) s"
  have fresh: "map_of (br_pending s) (pq_id p) = None" using adm by (auto simp: assertAdmissible_def Let_def split: if_splits)
  then have new: "map_set (pq_id p) g (br_pending s) = br_pending s @ [(pq_id p, g)]"
    by (simp add: map_set_fresh map_of_eq_None_iff)
  have none: "pn_id (br_pendings s x) \<noteq> pq_id p" if "pn_active (br_pendings s x)" for x
    using assms(1) fresh that by (auto simp: books_def pendings_ok_def)
  have fields: "br_outputs ?s = br_outputs s" "br_nextOutput ?s = br_nextOutput s" "br_resources ?s = br_resources s"
    "br_nextResource ?s = br_nextResource s" "br_limits ?s = br_limits s"
    "br_pendings ?s = (br_pendings s)(g := ?p)" "br_pending ?s = br_pending s @ [(pq_id p, g)]"
    "br_callGeneration ?s = br_callGeneration s" "br_openResourceRecords ?s = br_openResourceRecords s"
    "br_resourceByProviderToken ?s = br_resourceByProviderToken s"
    "br_inFlightBinaryBytes ?s = br_inFlightBinaryBytes s + int (pn_inputBinaryBytes ?p)"
    "br_inFlightBinaryHandles ?s = br_inFlightBinaryHandles s + int (pn_inputBinaryHandles ?p)"
    "br_openHandles ?s = br_openHandles s + int (handle_share ?p)"
    "br_openResources ?s = br_openResources s" "br_outstandingCredits ?s = br_outstandingCredits s"
    by (simp_all add: commit_pending_def new_pending_def new [unfolded fun_upd_def])
  have a: "pn_active ?p" "pn_credits ?p = 0" by (simp_all add: new_pending_def)
  have o: "of_outputs f ?s = of_outputs f s" "open_cells ?s = open_cells s" for f
    by (simp_all add: of_outputs_def open_cells_def fields)
  have t: "of_pendings f ?s = of_pendings f s + int (f ?p)" for f
  proof -
    have "g < Suc (br_callGeneration s)" using assms(3) by simp
    then show ?thesis using assms(2) a by (simp add: of_pendings_def fields total_update when_active_def)
  qed
  have "counters_ok a b c d ?s"
    using assms(1) unfolding books_def counters_ok_def t o fields by (simp add: a)
  moreover have "limits_ok L ?s"
    using assms(1) adm by (simp add: books_def limits_ok_def fields)
      (simp add: new_pending_def handle_share_def assertAdmissible_def stream_handle_def Let_def split: if_splits)
  moreover have "pendings_ok ?s"
  proof -
    have p: "pendings_ok s" using assms(1) by (simp add: books_def)
    then have k: "map_of (br_pending s) i = Some x \<longleftrightarrow> pn_active (br_pendings s x) \<and> pn_id (br_pendings s x) = i" for i x
      by (simp add: pendings_ok_def)
    have m: "map_of (br_pending s @ [(pq_id p, g)]) = (map_of (br_pending s))(pq_id p \<mapsto> g)"
      using fresh by (intro ext) (simp add: map_add_def split: option.split)
    have "map_of (br_pending s @ [(pq_id p, g)]) i = Some x \<longleftrightarrow>
        pn_active (((br_pendings s)(g := ?p)) x) \<and> pn_id (((br_pendings s)(g := ?p)) x) = i" for i x
      unfolding m using none k [of i x] assms(2) by (auto simp: new_pending_def)
    then show ?thesis
      using p assms(3) fresh unfolding pendings_ok_def fields by (simp add: map_of_eq_None_iff)
  qed
  moreover have "cells_ok ?s" using assms(1) by (simp add: books_def cells_ok_def fields)
  moreover have "outputs_ok X Y ?s"
  proof -
    have "outputs_ok X Y s" using assms(1) by (simp add: books_def)
    moreover have "holds_output (br_pendings ?s x) oref" if "holds_output (br_pendings s x) oref" for x oref
      using that assms(2) by (cases "x = g") (auto simp: fields holds_output_def)
    ultimately show ?thesis unfolding outputs_ok_def fields(1-4) by blast
  qed
  ultimately show ?thesis by (simp add: books_def)
qed

lemma books_end_admission: "books L X Y a b c d s \<Longrightarrow> books L X Y a b c d (snd (end_admission e s))"
  by (simp add: end_admission_def Let_def)

lemma books_rollback: "books L X Y a b c d s \<Longrightarrow> books L X Y a b c d (rollback_admission g timer s)"
  by (simp add: rollback_admission_def split: option.split)

lemma books_admit:
  assumes "books L X Y a b c d s"
  shows "books L X Y a b c d (snd (admit num ai mode s))"
proof -
  let ?g = "br_callGeneration s + 1"
  define s1 where "s1 = s\<lparr>br_admissionActive := True, br_admissionViolated := False, br_callGeneration := ?g\<rparr>"
  define s2 where "s2 = fold run_meanwhile (ai_preparing ai) s1"
  obtain r where prep: "admit_prepare num ai mode (br_lifecycleGeneration s) s1 = (r, s2)"
    using admit_prepare_state [of num ai mode "br_lifecycleGeneration s" s1] unfolding s2_def by (metis prod.collapse)
  have s1': "s\<lparr>br_admissionActive := True, br_admissionViolated := False, br_callGeneration := Suc (br_callGeneration s)\<rparr> = s1"
    by (simp add: s1_def)
  have s1: "books L X Y a b c d s1" "\<not> pn_active (br_pendings s1 ?g)" "br_callGeneration s1 = ?g"
    using books_next_call [OF assms] by (simp_all add: s1_def)
  have s2: "books L X Y a b c d s2" "fades s1 s2" by (simp_all add: s2_def books_meanwhile s1)
  show ?thesis
  proof (cases r)
    case (Inl e)
    then show ?thesis
      using prep books_end_admission [OF s2(1)] by (auto simp: admit_def Let_def s1' prep split: prod.split) (metis snd_conv)
  next
    case (Inr q)
    obtain options p uses where q: "q = (options, p, uses)" by (metis prod_cases3)
    obtain e timer s3 where reg: "admit_register ai ?g options p s2 = (e, timer, s3)" by (metis prod_cases3)
    have s3: "books L X Y a b c d s3" "fades s1 s3"
      using admit_register_keeps [OF s2, of ai ?g options p] unfolding reg by simp_all
    have rolled: "books L X Y a b c d (snd (end_admission e' (rollback_admission ?g timer s3)))" for e'
      by (rule books_end_admission [OF books_rollback [OF s3(1)]])
    show ?thesis
    proof (cases "e = None \<and> assertAdmissible p mode uses (br_lifecycleGeneration s) ?g s3 = None")
      case True
      then have "books L X Y a b c d (commit_pending ?g (new_pending p mode timer (co_abortSignal options)) s3)"
        using s1 s3 by (intro books_commit) (auto simp: fades_def)
      then show ?thesis using True by (simp add: admit_def Let_def s1' prep Inr q reg [simplified])
    next
      case False
      with rolled show ?thesis
        by (auto simp: admit_def Let_def s1' prep Inr q reg [simplified] split: prod.split option.split) (metis snd_conv)+
    qed
  qed
qed

section \<open>Every call\<close>

lemma books_open_call:
  assumes "books L X Y a b c d s"
  shows "books L X Y a b c d (snd (open_call num ai mode s))"
proof -
  obtain r s1 where m: "admit num ai mode s = (r, s1)" by fastforce
  have "books L X Y a b c d s1" using books_admit [OF assms, of num ai mode] by (simp add: m)
  with assms show ?thesis by (auto simp: open_call_def m dispatch_bridge_def split: sum.split)
qed

lemma books_timer:
  assumes "books L X Y a b c d s"
  shows "books L X Y a b c d (adjust_pending g (\<lambda>p. p\<lparr>pn_deadlineTimer := t\<rparr>) s)"
  by (rule books_same [OF assms]) (simp add: same_account_def holds_output_def)

lemma books_handleDeadline:
  assumes "books L X Y a b c d s"
  shows "books L X Y a b c d (handleDeadline g dl clock armClock s)"
proof -
  let ?s = "adjust_pending g (\<lambda>p. p\<lparr>pn_deadlineTimer := None\<rparr>) s"
  obtain r s1 where m: "armDeadline g dl armClock ?s = (r, s1)" by fastforce
  have b: "books L X Y a b c d ?s" by (rule books_timer [OF assms])
  have "books L X Y a b c d s1" using books_armDeadline [OF b, of g dl armClock] by (simp add: m)
  with assms b show ?thesis
    by (auto simp: handleDeadline_def Let_def m books_fail_pending books_timer split: option.split jsnum.split sum.split)
qed

lemma books_run_task: "books L X Y a b c d s \<Longrightarrow> books L X Y a b c d (run_task s)"
  by (auto simp: run_task_def Let_def books_deliverTerminal books_deliverChunk books_applyRevoke split: list.split loop_task.split)

lemma books_abort: "books L X Y a b c d s \<Longrightarrow> books L X Y a b c d (abort_pending sig s)"
  unfolding abort_pending_def by (rule books_fold) (simp_all add: books_cancelPending)

theorem books_step: "books L X Y a b c d s \<Longrightarrow> books L X Y a b c d (bridge_step num call s)"
  by (cases call)
    (auto simp: books_open_call cancel_bridge_def books_cancelPending books_abort revokeResource_def close_handle_def
      books_closeResource books_dispose terminateFromLoop_def books_terminateBridge books_readStream books_handleProviderEvent
      books_resourceEvent books_failProvider books_run_task fire_timer_def books_handleDeadline split: option.split)

lemma books_new: "books L {} {} 0 0 0 0 (new_bridge authority L fails)"
  by (simp add: books_defs new_bridge_def of_pendings_def of_outputs_def open_cells_def total_def when_active_def
      when_held_def when_open_def default_pending_def)

end
