(* ===== verification/Bridge_Control.thy ===== *)
theory Bridge_Control
  imports Bridge_Reach
begin

text \<open>
  Which operations of the native bridge leave its controls alone: limits, authority, life cycle and
  generation of calls.  Only admission and disposal change them.
\<close>

definition control :: "bridge \<Rightarrow> native_limits \<times> native_authority \<times> bool \<times> nat \<times> bool \<times> nat \<times> native_code" where
  "control s =
     (br_limits s, br_authority s, br_admissionActive s, br_callGeneration s, br_disposed s, br_lifecycleGeneration s,
      br_terminalCode s)"

named_theorems control_simps

lemma control_quiet: "quiet s s' \<Longrightarrow> control s' = control s"
  by (simp add: quiet_def control_def)

lemmas control_quiets [control_simps] =
  control_quiet [OF quiet_releaseOutput] control_quiet [OF quiet_deliverOutput] control_quiet [OF quiet_closeUndelivered]

lemma control_fields [control_simps]:
  "control (s\<lparr>br_inFlightBinaryBytes := i, br_inFlightBinaryHandles := j, br_openHandles := k\<rparr>) = control s"
  "control (s\<lparr>br_outstandingCredits := i\<rparr>) = control s" "control (s\<lparr>br_pending := m\<rparr>) = control s"
  "control (s\<lparr>br_nextId := n\<rparr>) = control s" "control (s\<lparr>br_nextId := n, br_outstandingCredits := i\<rparr>) = control s"
  "control (s\<lparr>br_resourceEventTasks := l\<rparr>) = control s" "control (s\<lparr>br_admissionViolated := v\<rparr>) = control s"
  "control (s\<lparr>br_loopCalls := n\<rparr>) = control s" "control (s\<lparr>br_loopTasks := ts\<rparr>) = control s"
  "control (s\<lparr>br_loopTimers := tm\<rparr>) = control s" "control (s\<lparr>br_loopRequests := lr\<rparr>) = control s"
  "control (s\<lparr>br_loopRequests := lr, br_loopTasks := ts\<rparr>) = control s"
  by (simp_all add: control_def)

lemma control_steps [control_simps]:
  "control (settle p out s) = control s" "control (safeCancelTask i s) = control s" "control (safeClearTimer i s) = control s"
  "control (safeCancelNativeRequest g s) = control s" "control (call_port pc s) = control s"
  "control (closeProviderResource k t v s) = control s" "control (cancel_task_of ti s) = control s"
  "control (touched s) = control s" "control (close_cell r s) = control s" "control (forget_token tok r s) = control s"
  "control (adjust_pending g f s) = control s" "control (adjust_cell r h s) = control s"
  by (simp_all add: control_def settle_def safeCancelTask_def safeClearTimer_def safeCancelNativeRequest_def call_port_def
      closeProviderResource_def cancel_task_of_def touched_def close_cell_def forget_token_def adjust_pending_def adjust_cell_def
      split: option.split)

lemma control_fold: "(\<And>x s. control (f x s) = control s) \<Longrightarrow> control (fold f xs s) = control s"
  by (induction xs arbitrary: s) auto

lemma control_loop_call: "(\<And>i s. control (f i s) = control s) \<Longrightarrow> control (snd (loop_call f s)) = control s"
  by (simp add: loop_call_def Let_def control_simps)

lemma control_enqueue_task: "control (snd (enqueue_task t s)) = control s"
  unfolding enqueue_task_def by (rule control_loop_call) (simp add: control_simps)

lemma control_complete: "control (snd (complete_request g t s)) = control s"
  unfolding complete_request_def by (auto intro!: control_loop_call simp: control_simps)

lemma control_set_deadline: "control (snd (set_deadline g dl s)) = control s"
  unfolding set_deadline_def by (rule control_loop_call) (simp add: control_simps)

lemma control_register: "control (snd (register_request g s)) = control s"
  unfolding register_request_def by (rule control_loop_call) (simp add: control_simps)

lemma control_call_results:
  "enqueue_task t s = (i, s') \<Longrightarrow> control s' = control s" "complete_request g t s = (i, s') \<Longrightarrow> control s' = control s"
  "set_deadline g dl s = (i, s') \<Longrightarrow> control s' = control s" "register_request g s = (i, s') \<Longrightarrow> control s' = control s"
  "deliverOutput oref s = (r, s') \<Longrightarrow> control s' = control s"
  using control_enqueue_task [of t s] control_complete [of g t s] control_set_deadline [of g dl s] control_register [of g s]
    control_quiet [OF quiet_deliverOutput, of oref s] by auto

section \<open>Settlement and terminals\<close>

lemma control_release_current [control_simps]: "control (release_current g err s) = control s"
proof -
  have d: "control (release_delivery err x s) = control s" for x s
    by (simp add: release_delivery_def Let_def control_simps split: option.split)
  have c: "control (release_completion g s) = control s" for s
    by (simp add: release_completion_def Let_def control_simps split: option.split terminal.split)
  have t: "control (clearDeadlineAndSignal g s) = control s" for s
    by (simp add: clearDeadlineAndSignal_def control_simps split: option.split)
  show ?thesis
    by (simp add: release_current_def releaseCredits_def Let_def control_simps control_fold [OF d] c t)
qed

lemma control_releaseCredits [control_simps]: "control (releaseCredits g s) = control s"
  by (simp add: releaseCredits_def control_simps)

lemma control_settle_readers [control_simps]: "control (settle_readers g out s) = control s"
proof -
  have "control (fold (\<lambda>r. settle (P_reader r) out) xs s) = control s" for xs s
    by (rule control_fold) (simp add: control_simps)
  then show ?thesis by (simp add: settle_readers_def control_simps)
qed

lemma control_settlements [control_simps]:
  "control (settleError g e s) = control s" "control (settleUnaryResult g res s) = control s"
  "control (settleStreamEnd g res s) = control s"
  by (simp_all add: settleError_def settleUnaryResult_def settleStreamEnd_def releasePending_def control_simps)

lemma control_failures [control_simps]:
  "control (cancelPendingProvider g reason s) = control s" "control (fail_pending g code s) = control s"
  "control (snd (cancelPending g reason s)) = control s" "control (failLoopScheduling g s) = control s"
  by (simp_all add: cancelPendingProvider_def fail_pending_def cancelPending_def failLoopScheduling_def control_simps)

lemma control_lockTerminal: "control (snd (lockTerminal g t s)) = control s"
  by (simp add: lockTerminal_def control_simps split: terminal.split)

lemma control_schedule_call: "control (snd (schedule_call g cid s)) = control s"
  using control_complete [of g "Deliver_terminal g cid" s]
    control_enqueue_task [of "Deliver_terminal g cid" "adjust_pending g (\<lambda>p. p\<lparr>pn_loopRegistered := False\<rparr>) (safeCancelNativeRequest g s)"]
  by (auto simp: schedule_call_def control_simps split: prod.split option.split)

lemma control_scheduleTerminal [control_simps]: "control (scheduleTerminal g cid s) = control s"
  using control_schedule_call [of g cid s] by (auto simp: scheduleTerminal_call control_simps split: prod.split option.split)

lemma control_queueTerminal [control_simps]: "control (queueTerminal g t s) = control s"
  using control_lockTerminal [of g t s] by (auto simp: queueTerminal_def control_simps split: prod.split option.split)

lemma control_lockProviderFailure: "control (snd (lockProviderFailure g code s)) = control s"
  by (simp add: lockProviderFailure_def control_lockTerminal)

lemma control_failProvider [control_simps]:
  "control (failProvider g code s) = control s" "control (failProviderWithUndelivered g code grants s) = control s"
  using control_lockProviderFailure [of g code s]
  by (auto simp: failProvider_def failProviderWithUndelivered_def control_simps split: prod.split option.split)

section \<open>The calls between admission and disposal\<close>

lemma control_reserve_output: "control (reserve_output g h po s) = control s"
proof -
  have "control (reserve_grant g x s) = control s" for x s by (simp add: reserve_grant_def Let_def control_def)
  then show ?thesis unfolding reserve_output_def Let_def by (subst control_fold) (simp_all add: control_def)
qed

lemma control_reserveOutput: "control (snd (reserveOutput g h po s)) = control s"
  by (cases rule: reserveOutput_cases [of g h po s]) (simp_all add: control_simps control_reserve_output)

lemma control_queue_output [control_simps]: "control (queue_output g h mode po s) = control s"
  using control_reserveOutput [of g h po s] by (auto simp: queue_output_def control_simps split: prod.split option.split)

lemma control_queue_chunk [control_simps]: "control (queue_chunk g h po sequence s) = control s"
proof -
  have k: "control (snd (reserveOutput g h po s)) = control s" by (rule control_reserveOutput)
  have t: "control (take_credit g oref n reader readers s) = control s" for oref n reader readers s
    by (simp add: take_credit_def Let_def control_simps)
  have e: "control s' = control s" if "enqueue_task (Deliver_chunk g i) (take_credit g oref n reader readers s) = (j, s')"
    for i oref n reader readers s j s' using control_call_results(1) [OF that] t by simp
  have l: "control s' = control s" if "lockProviderFailure g code s = (cid, s')" for code cid s s'
    using control_lockProviderFailure [of g code s] that by simp
  show ?thesis
    using k by (auto simp: queue_chunk_steps control_simps Let_def dest!: e l split: prod.split option.split list.split)
qed

lemma control_handleProviderEvent: "control (handleProviderEvent num g h event s) = control s"
  by (auto simp: handleProviderEvent_def Let_def control_simps split: option.split sum.split native_event.split)

lemma control_closeResource [control_simps]: "control (snd (closeResource_bridge r notify reason s)) = control s"
  by (simp add: closeResource_touched Let_def control_simps)

lemma control_resourceEvent: "control (handleProviderResourceEvent g h event s) = control s"
  by (auto simp: handleProviderResourceEvent_def Let_def control_simps dest!: control_call_results(1) split: option.split prod.split)

lemma control_readStream: "control (snd (readStream g s)) = control s"
  by (simp add: readStream_def Let_def control_simps split: option.split stream_terminal.split)

lemma control_deliverTerminal: "control (deliverTerminal g cid s) = control s"
  by (auto simp: deliverTerminal_def Let_def control_simps dest!: control_call_results(5) split: option.split terminal.split prod.split)

lemma control_deliverChunk: "control (deliverChunk g did s) = control s"
  by (auto simp: deliverChunk_def Let_def control_simps dest!: control_call_results(5) split: option.split prod.split)

lemma control_applyRevoke: "control (applyProviderResourceRevoke g token s) = control s"
  by (simp add: applyProviderResourceRevoke_def Let_def control_simps split: option.split)

lemma control_run_task: "control (run_task s) = control s"
  by (simp add: run_task_def Let_def control_simps control_deliverTerminal control_deliverChunk control_applyRevoke
      split: list.split loop_task.split)

lemma control_armDeadline: "control (snd (armDeadline g dl clock s)) = control s"
  by (auto simp: armDeadline_def dest!: control_call_results(3) split: option.split jsnum.split prod.split)

lemma control_handleDeadline: "control (handleDeadline g dl clock armClock s) = control s"
proof -
  have "control s' = control s" if "armDeadline g dl armClock (adjust_pending g f s) = (r, s')" for f r s'
    using control_armDeadline [of g dl armClock "adjust_pending g f s"] that by (simp add: control_simps)
  then show ?thesis
    by (auto simp: handleDeadline_def Let_def control_simps split: option.split jsnum.split sum.split prod.split)
qed

text \<open>Only admission and disposal.\<close>

fun is_control :: "bridge_call \<Rightarrow> bool" where
  "is_control (Open_call mode ai) = True"
| "is_control Dispose_call = True"
| "is_control (Loop_terminated shutdown) = True"
| "is_control call = False"

lemma control_step: "\<not> is_control call \<Longrightarrow> control (bridge_step num call s) = control s"
  by (cases call)
    (auto simp: cancel_bridge_def abort_pending_def revokeResource_def close_handle_def fire_timer_def control_simps
      control_readStream control_handleProviderEvent control_resourceEvent control_run_task control_handleDeadline
      intro!: control_fold split: option.split)

end
