(* ===== verification/Bridge_Disposal.thy ===== *)
theory Bridge_Disposal
  imports Bridge_Control
begin

text \<open>
  A disposed bridge holds nothing: no request is active, no output or resource is left, every counter is
  zero, and no later call changes that.
\<close>

section \<open>Nothing is left\<close>

definition emptied :: "bridge \<Rightarrow> bool" where
  "emptied s \<longleftrightarrow> (\<forall>g. \<not> pn_active (br_pendings s g)) \<and> (\<forall>r. \<not> rc_open (br_resources s r))"

lemma emptied_outputs:
  assumes "books L {} {} a b c d s" "\<And>g. \<not> pn_active (br_pendings s g)"
  shows "ot_delivered (br_outputs s oref)" and "rc_open (br_resources s r) \<Longrightarrow> rc_record (br_resources s r)"
  using assms by (auto simp: books_def outputs_ok_def holds_output_def)

lemma emptied_maps:
  assumes "books L {} {} a b c d s" "emptied s"
  shows "br_pending s = []" "br_resourceByProviderToken s = []" "br_openResourceRecords s = []"
proof -
  have "map_of (br_pending s) k = None" for k
    using assms by (cases "map_of (br_pending s) k") (auto simp: books_def pendings_ok_def emptied_def)
  then show "br_pending s = []" by (metis map_of_eq_empty_iff ext)
  have "map_of (br_resourceByProviderToken s) k = None" for k
    using assms by (cases "map_of (br_resourceByProviderToken s) k") (auto simp: books_def cells_ok_def emptied_def)
  then show "br_resourceByProviderToken s = []" by (metis map_of_eq_empty_iff ext)
  show "br_openResourceRecords s = []" using assms by (auto simp: books_def cells_ok_def emptied_def)
qed

lemma emptied_counters:
  assumes "books L {} {} 0 0 0 0 s" "emptied s"
  shows "getSnapshot_bridge s = \<lparr>bs_inFlightBinaryBytes = 0, bs_inFlightBinaryHandles = 0, bs_openHandles = 0,
     bs_openResources = 0, bs_outstandingCredits = 0, bs_pendingRequests = 0\<rparr>"
proof -
  have "of_pendings f s = 0" for f
    using assms(2) by (simp add: of_pendings_def emptied_def when_active_def total_zero)
  moreover have "of_outputs f s = 0" for f
    using emptied_outputs(1) [OF assms(1)] assms(2) by (simp add: of_outputs_def emptied_def when_held_def total_zero)
  moreover have "open_cells s = 0" using assms(2) by (simp add: open_cells_def emptied_def when_open_def total_zero)
  ultimately show ?thesis
    using assms(1) emptied_maps(1) [OF assms] by (simp add: getSnapshot_bridge_def books_def counters_ok_def)
qed

section \<open>Disposal empties\<close>

lemma inactive_released: "\<not> pn_active (br_pendings (release_current g err s) g)"
proof -
  have "fades (deactivate g s) (release_current g err s)"
    unfolding release_current_def Let_def deactivate_def [symmetric] by simp
  moreover have "\<not> pn_active (br_pendings (deactivate g s) g)" by (simp add: deactivate_def adjust_pending_def)
  ultimately show ?thesis by (auto simp: fades_def)
qed

lemma inactive_settled:
  assumes "books L X Y a b c d s"
  shows "\<not> pn_active (br_pendings (settleError g e s) g)"
proof (cases "isCurrent s g")
  case True
  let ?s = "release_current g (Some e) s"
  have "fades ?s (settleError g e s)"
    using True by (simp add: settleError_def releasePending_def)
  with inactive_released [of g "Some e" s] show ?thesis by (auto simp: fades_def)
next
  case False
  then have "\<not> pn_active (br_pendings s g)" using isCurrent_active [OF assms] by simp
  moreover have "fades s (settleError g e s)" by simp
  ultimately show ?thesis by (auto simp: fades_def)
qed

lemma fades_end_pending [simp]: "fades s0 s \<Longrightarrow> fades s0 (end_pending code reason g s)"
  by (simp add: end_pending_def)

lemma inactive_ended:
  assumes "books L X Y a b c d s"
  shows "\<not> pn_active (br_pendings (end_pending code reason g s) g)"
proof -
  have "fades (settleError g (createNativeBridgeError code) s) (end_pending code reason g s)" by (simp add: end_pending_def)
  with inactive_settled [OF assms, of g "createNativeBridgeError code"] show ?thesis by (auto simp: fades_def)
qed

lemma books_end_pending: "books L X Y a b c d s \<Longrightarrow> books L X Y a b c d (end_pending code reason g s)"
  by (simp add: end_pending_def books_cancelPendingProvider books_settleError)

lemma inactive_all:
  assumes "books L X Y a b c d s" "g \<in> set gs"
  shows "\<not> pn_active (br_pendings (fold (end_pending code reason) gs s) g)"
  using assms
proof (induction gs arbitrary: s)
  case (Cons k gs)
  let ?s = "end_pending code reason k s"
  have b: "books L X Y a b c d ?s" by (rule books_end_pending [OF Cons.prems(1)])
  show ?case
  proof (cases "g \<in> set gs")
    case True
    then show ?thesis using Cons.IH [OF b] by simp
  next
    case False
    then have "\<not> pn_active (br_pendings ?s g)" using Cons.prems inactive_ended by auto
    moreover have "fades ?s (fold (end_pending code reason) gs ?s)" by simp
    ultimately show ?thesis by (auto simp: fades_def)
  qed
qed simp

lemma closed_cells:
  "br_resources (snd (closeResource_bridge r notify reason s)) x =
     (if x = r \<and> rc_open (br_resources s r) then (br_resources s r)\<lparr>rc_open := False\<rparr> else br_resources s x)"
  by (simp add: closeResource_touched Let_def touched_def forget_token_def close_cell_def adjust_cell_def
      closeProviderResource_def call_port_def)

lemma closed_fold:
  "rc_open (br_resources (fold (\<lambda>r s. snd (closeResource_bridge r notify reason s)) rs s) x) \<longleftrightarrow>
     rc_open (br_resources s x) \<and> x \<notin> set rs"
  "rc_record (br_resources (fold (\<lambda>r s. snd (closeResource_bridge r notify reason s)) rs s) x) \<longleftrightarrow> rc_record (br_resources s x)"
  by (induction rs arbitrary: s) (auto simp: closed_cells)

lemma emptied_terminate:
  assumes b: "books L {} {} 0 0 0 0 s" and "\<not> br_disposed s"
  shows "emptied (terminateBridge code reason s)"
proof -
  define s1 where "s1 = fold (end_pending code reason) (map snd (br_pending s))
    (s\<lparr>br_disposed := True, br_terminalCode := code, br_lifecycleGeneration := br_lifecycleGeneration s + 1\<rparr>)"
  let ?s0 = "s\<lparr>br_disposed := True, br_terminalCode := code, br_lifecycleGeneration := br_lifecycleGeneration s + 1\<rparr>"
  have b0: "books L {} {} 0 0 0 0 ?s0" by (rule iffD2 [OF books_frame b]) (simp add: same_books_def)
  have b1: "books L {} {} 0 0 0 0 s1" unfolding s1_def by (rule books_fold [OF _ b0]) (rule books_end_pending)
  have inactive: "\<not> pn_active (br_pendings s1 g)" for g
  proof (cases "g \<in> set (map snd (br_pending s))")
    case True
    then show ?thesis unfolding s1_def by (rule inactive_all [OF b0])
  next
    case False
    then have "\<not> pn_active (br_pendings s g)"
      using b by (auto simp: books_def pendings_ok_def dest!: map_of_SomeD intro: rev_image_eqI) (metis map_of_SomeD snd_conv image_eqI)
    moreover have "fades ?s0 s1" unfolding s1_def by simp
    ultimately show ?thesis by (auto simp: fades_def)
  qed
  let ?s2 = "close_records reason s1"
  have records: "\<not> rc_open (br_resources ?s2 x)" for x
    using emptied_outputs(2) [OF b1 inactive, of x] b1
    by (auto simp: close_records_def closed_fold books_def cells_ok_def)
  have "fades s1 ?s2" by (simp add: close_records_def)
  with inactive have inactive2: "\<not> pn_active (br_pendings ?s2 g)" for g by (auto simp: fades_def)
  have tasks: "br_pendings (fold safeCancelTask ts s') = br_pendings s'" "br_resources (fold safeCancelTask ts s') = br_resources s'"
    for ts s' by (induction ts arbitrary: s') (simp_all add: safeCancelTask_def)
  have "terminateBridge code reason s = call_port PC_dispose ((fold safeCancelTask (br_resourceEventTasks ?s2) ?s2)\<lparr>br_resourceEventTasks := []\<rparr>)"
    using assms(2) by (simp add: terminateBridge_def Let_def s1_def)
  then show ?thesis using records inactive2 by (simp add: emptied_def tasks call_port_def)
qed

section \<open>Nothing comes back\<close>

definition sound :: "native_limits \<Rightarrow> bridge \<Rightarrow> bool" where
  "sound L s \<longleftrightarrow> books L {} {} 0 0 0 0 s \<and> (br_disposed s \<longrightarrow> emptied s)"

lemma emptied_step:
  assumes b: "books L {} {} 0 0 0 0 s" and e: "emptied s" and n: "\<not> is_control call"
  shows "emptied (bridge_step num call s)"
proof -
  have c: "\<not> isCurrent s g" for g using isCurrent_active [OF b] e by (simp add: emptied_def)
  note m = emptied_maps [OF b e]
  have o: "\<not> rc_open (br_resources s r)" for r using e by (simp add: emptied_def)
  have f: "failProvider g code s = s" for g code
    using c by (simp add: failProvider_def lockProviderFailure_def lockTerminal_def)
  have r: "emptied (snd (closeResource_bridge r notify reason s))" for r notify reason
    using e o by (auto simp: closeResource_touched touched_def emptied_def)
  have k: "emptied (s\<lparr>br_admissionViolated := v\<rparr>)" "emptied (s\<lparr>br_loopTasks := lt\<rparr>)" "emptied (s\<lparr>br_loopTimers := lm\<rparr>)"
    "emptied (s\<lparr>br_loopTasks := lt, br_resourceEventTasks := le\<rparr>)" "emptied (settle pr out (s\<lparr>br_nextId := i\<rparr>))"
    for v lt lm le pr out i using e by (simp_all add: emptied_def settle_def)
  have d: "isCurrent (s\<lparr>br_loopTasks := lt\<rparr>) g = isCurrent s g" "isCurrent (s\<lparr>br_loopTimers := lm\<rparr>) g = isCurrent s g"
    "isCurrent (s\<lparr>br_nextId := i\<rparr>) g = isCurrent s g" for lt lm i g by (simp_all add: isCurrent_def)
  show ?thesis
    using n e r k
    by (cases call)
      (simp_all add: cancel_bridge_def abort_pending_def revokeResource_def close_handle_def fire_timer_def m c d f
        cancelPending_def readStream_def Let_def handleProviderEvent_def handleProviderResourceEvent_def run_task_def
        deliverTerminal_def deliverChunk_def applyProviderResourceRevoke_def handleDeadline_def
        split: option.split list.split loop_task.split stream_terminal.split)
qed

lemma sound_terminate: "sound L s \<Longrightarrow> sound L (terminateBridge code reason s)"
  by (cases "br_disposed s") (simp_all add: sound_def books_terminateBridge emptied_terminate, simp add: terminateBridge_def)

lemma sound_violated [simp]: "sound L (s\<lparr>br_admissionViolated := v\<rparr>) = sound L s"
  by (simp add: sound_def emptied_def)

lemma sound_dispose: "sound L s \<Longrightarrow> sound L (dispose_bridge s)"
  by (simp add: dispose_bridge_def sound_terminate)

lemma control_disposed: "control s' = control s \<Longrightarrow> br_disposed s' = br_disposed s"
  by (simp add: control_def)

lemma sound_closeResource: "sound L s \<Longrightarrow> sound L (snd (closeResource_bridge r notify reason s))"
  using control_disposed [OF control_closeResource [of r notify reason s]]
    fades_closeResource [OF fades_refl [of s], of r notify reason]
  by (auto simp: sound_def books_closeResource emptied_def fades_def closed_cells)

lemma sound_run_meanwhile: "sound L s \<Longrightarrow> sound L (run_meanwhile m s)"
  by (cases m) (simp_all add: sound_closeResource sound_dispose terminateFromLoop_def sound_terminate)

lemma sound_fold: "(\<And>x s. sound L s \<Longrightarrow> sound L (f x s)) \<Longrightarrow> sound L s \<Longrightarrow> sound L (fold f xs s)"
  by (induction xs arbitrary: s) auto

lemma sound_meanwhile: "sound L s \<Longrightarrow> sound L (fold run_meanwhile ms s)"
  by (rule sound_fold) (rule sound_run_meanwhile)

text \<open>Scheduling and clearing at the event loop.\<close>

lemma sound_loop_fields [simp]:
  "sound L (s\<lparr>br_loopCalls := n\<rparr>) = sound L s" "sound L (s\<lparr>br_loopTimers := tm\<rparr>) = sound L s"
  "sound L (s\<lparr>br_loopRequests := lr\<rparr>) = sound L s" "sound L (safeCancelNativeRequest g s) = sound L s"
  "sound L (safeClearTimer i s) = sound L s"
  "sound L (s\<lparr>br_admissionActive := v\<rparr>) = sound L s"
  "sound L (s\<lparr>br_admissionActive := v, br_admissionViolated := w\<rparr>) = sound L s"
proof -
  have "books L {} {} 0 0 0 0 (s\<lparr>br_admissionActive := v, br_admissionViolated := w\<rparr>) = books L {} {} 0 0 0 0 s"
    by (rule books_frame) (simp add: same_books_def)
  then show "sound L (s\<lparr>br_admissionActive := v, br_admissionViolated := w\<rparr>) = sound L s" by (simp add: sound_def emptied_def)
qed (simp_all add: sound_def emptied_def safeCancelNativeRequest_def safeClearTimer_def)

lemma sound_register: "sound L s \<Longrightarrow> sound L (snd (register_request g s))"
  by (simp add: register_request_def loop_call_def Let_def)

lemma sound_set_deadline: "set_deadline g dl s = (i, s') \<Longrightarrow> sound L s \<Longrightarrow> sound L s'"
  by (auto simp: set_deadline_def loop_call_def Let_def split: if_splits)

lemma sound_register_deadline: "sound L s \<Longrightarrow> sound L (snd (register_deadline ai g p s))"
  by (auto simp: register_deadline_def armDeadline_def dest: sound_set_deadline
      split: option.split prod.split sum.split jsnum.split if_splits)

lemma sound_admit_register:
  assumes "sound L s"
  shows "sound L (snd (snd (admit_register ai g options p s)))"
proof -
  obtain i s1 where r: "register_request g s = (i, s1)" by fastforce
  obtain t s2 where d: "register_deadline ai g p s1 = (t, s2)" by fastforce
  have "sound L s1" using sound_register [OF assms, of g] by (simp add: r)
  moreover from sound_register_deadline [OF this, of ai g p] have "sound L s2" by (simp add: d)
  ultimately show ?thesis
    unfolding admit_register_def register_deadline_def [symmetric]
    by (auto simp: r d sound_meanwhile Let_def split: option.split sum.split bool.split)
qed

lemma sound_end_admission: "sound L s \<Longrightarrow> sound L (snd (end_admission e s))"
  by (simp add: end_admission_def Let_def)

lemma sound_rollback: "sound L s \<Longrightarrow> sound L (rollback_admission g timer s)"
  by (simp add: rollback_admission_def split: option.split)

lemma admitted_alive: "assertAdmissible p mode uses lifecycle g s = None \<Longrightarrow> \<not> br_disposed s"
  by (auto simp: assertAdmissible_def Let_def split: if_splits)

lemma sound_admit:
  assumes b: "sound L s" and alive: "\<not> br_disposed s"
  shows "sound L (snd (admit num ai mode s))"
proof -
  let ?g = "br_callGeneration s + 1"
  define s1 where "s1 = s\<lparr>br_admissionActive := True, br_admissionViolated := False, br_callGeneration := ?g\<rparr>"
  define s2 where "s2 = fold run_meanwhile (ai_preparing ai) s1"
  obtain r where prep: "admit_prepare num ai mode (br_lifecycleGeneration s) s1 = (r, s2)"
    using admit_prepare_state [of num ai mode "br_lifecycleGeneration s" s1] unfolding s2_def by (metis prod.collapse)
  have s1': "s\<lparr>br_admissionActive := True, br_admissionViolated := False, br_callGeneration := Suc (br_callGeneration s)\<rparr> = s1"
    by (simp add: s1_def)
  have s1: "sound L s1"
    using books_next_call(1) [of L "{}" "{}" 0 0 0 0 s "True" "False"] books_next_call(1) [of L "{}" "{}" 0 0 0 0 s "False" "True"] b alive
    by (simp add: s1_def sound_def)
  have s2: "sound L s2" unfolding s2_def by (rule sound_meanwhile [OF s1])
  show ?thesis
  proof (cases r)
    case (Inl e)
    then show ?thesis
      using prep sound_end_admission [OF s2] by (auto simp: admit_def Let_def s1' prep split: prod.split) (metis snd_conv)
  next
    case (Inr q)
    obtain options p uses where q: "q = (options, p, uses)" by (metis prod_cases3)
    obtain e timer s3 where reg: "admit_register ai ?g options p s2 = (e, timer, s3)" by (metis prod_cases3)
    have s3: "sound L s3" using sound_admit_register [OF s2, of ai ?g options p] unfolding reg by simp
    have rolled: "sound L (snd (end_admission e' (rollback_admission ?g timer s3)))" for e'
      by (rule sound_end_admission [OF sound_rollback [OF s3]])
    show ?thesis
    proof (cases "e = None \<and> assertAdmissible p mode uses (br_lifecycleGeneration s) ?g s3 = None")
      case True
      then have "\<not> br_disposed (snd (admit num ai mode s))"
        using admitted_alive [of p mode uses "br_lifecycleGeneration s" ?g s3]
        by (simp add: admit_def Let_def s1' prep Inr q reg [simplified] commit_pending_def)
      with books_admit [of L "{}" "{}" 0 0 0 0 s num ai mode] b show ?thesis by (simp add: sound_def)
    next
      case False
      with rolled show ?thesis
        by (auto simp: admit_def Let_def s1' prep Inr q reg [simplified] split: prod.split option.split) (metis snd_conv)+
    qed
  qed
qed

lemma sound_open_call: "sound L s \<Longrightarrow> sound L (snd (open_call num ai mode s))"
proof -
  assume s: "sound L s"
  obtain r s1 where m: "admit num ai mode s = (r, s1)" by fastforce
  have "sound L (call_port pc t) = sound L t" for pc t by (simp add: sound_def emptied_def call_port_def)
       (rule arg_cong2 [of _ _ _ _ "(\<and>)"], rule books_frame, simp_all add: same_books_def)
  then show ?thesis using s sound_admit [OF s, of num ai mode]
    by (auto simp: open_call_def m dispatch_bridge_def split: sum.split)
qed

theorem sound_step: "sound L s \<Longrightarrow> sound L (bridge_step num call s)"
proof (cases "is_control call")
  case True
  assume "sound L s"
  with True show ?thesis by (cases call) (simp_all add: sound_open_call sound_dispose terminateFromLoop_def sound_terminate)
next
  case False
  assume "sound L s"
  with False show ?thesis
    using control_disposed [OF control_step [OF False, of num s]] emptied_step [OF _ _ False, of L s num]
    by (simp add: sound_def books_step)
qed

lemma sound_new: "sound L (new_bridge authority L fails)"
  using books_new by (simp add: sound_def new_bridge_def)

end
