(* ===== verification/Clone_Correct.thy ===== *)
theory Clone_Correct
  imports Value_Validation
begin

text \<open>
  The bounded copy of JSON data is exact: it succeeds on the values that are finite JSON data within
  the limits, returns that data, and the bytes it counts are the UTF-8 length of its JSON text.
\<close>

section \<open>The counted bytes\<close>

lemma pair_width: "is_low b \<Longrightarrow> code_width (pair_code a b) = 4"
  by (simp add: code_width_def pair_code_def is_low_def)

lemma byteLength_cons:
  "utf8ByteLength (u # r) =
     (if is_high (unat u) then
        (case r of
           [] \<Rightarrow> 3
         | v # r' \<Rightarrow> if is_low (unat v) then 4 + utf8ByteLength r' else 3 + utf8ByteLength r)
      else if is_low (unat u) then 3 + utf8ByteLength r else code_width (unat u) + utf8ByteLength r)"
proof -
  have "code_width 0xFFFD = 3" by (simp add: code_width_def)
  then show ?thesis by (simp add: utf8ByteLength_sum pair_width split: list.split)
qed

lemma inlineByteLength_eq: "inlineByteLength s = utf8ByteLength s"
proof (induction s rule: inlineByteLength.induct)
  case (2 u r)
  have u: "unat u < 0x10000" using unsigned_less [of u] by simp
  show ?case
  proof (cases r)
    case Nil
    then show ?thesis using u by (simp add: byteLength_cons is_high_def is_low_def code_width_def Let_def)
  next
    case (Cons v r')
    show ?thesis
    proof (cases "is_high (unat u)")
      case True
      then show ?thesis using 2 Cons by (simp add: byteLength_cons [of u] is_high_def is_low_def Let_def)
    next
      case False
      then show ?thesis using 2 Cons u by (auto simp: byteLength_cons [of u] is_high_def is_low_def code_width_def Let_def)
    qed
  qed
qed simp

definition string_size :: "jstring \<Rightarrow> nat" where
  "string_size s = utf8ByteLength (quote s)"

lemma encodedStringBytes_size: "encodedStringBytes s = string_size s"
  by (simp add: encodedStringBytes_def string_size_def inlineByteLength_eq)

fun json_size :: "(rat \<Rightarrow> jstring) \<Rightarrow> native_value \<Rightarrow> nat" where
  "json_size num J_null = 4"
| "json_size num (J_bool b) = (if b then 4 else 5)"
| "json_size num (J_num q) = utf8ByteLength (num q)"
| "json_size num (J_str s) = string_size s"
| "json_size num (J_list vs) = 2 + (length vs - 1) + sum_list (map (json_size num) vs)"
| "json_size num (J_map kvs) = 2 + (length kvs - 1) + sum_list (map (\<lambda>(k, v). string_size k + 1 + json_size num v) kvs)"
| "json_size num (J_resource i) = 13 + string_size (js ''resource:'' @ decimal i)"

text \<open>The texts that are put together begin with an ASCII character.\<close>

definition ascii_start :: "jstring \<Rightarrow> bool" where
  "ascii_start s \<longleftrightarrow> (case s of [] \<Rightarrow> False | u # _ \<Rightarrow> u < 0x80)"

lemma length_append_ascii: "ascii_start b \<Longrightarrow> utf8ByteLength (a @ b) = utf8ByteLength a + utf8ByteLength b"
  using not_surrogate utf8ByteLength_append [of b a] by (auto simp: ascii_start_def split: list.splits)

lemma commas_size:
  "\<forall>x \<in> set xs. ascii_start x \<Longrightarrow> utf8ByteLength (commas xs) = (length xs - 1) + sum_list (map utf8ByteLength xs)"
proof (cases xs)
  case (Cons x r)
  have "utf8ByteLength (concat (map (\<lambda>y. 0x2C # y) r)) = length r + sum_list (map utf8ByteLength r)" for r
  proof (induction r)
    case (Cons y r)
    have "ascii_start (concat (map (\<lambda>y. 0x2C # y) r)) \<or> r = []" by (cases r) (auto simp: ascii_start_def)
    then have "utf8ByteLength (y @ concat (map (\<lambda>y. 0x2C # y) r)) = utf8ByteLength y + utf8ByteLength (concat (map (\<lambda>y. 0x2C # y) r))"
      using length_append_ascii by auto
    then show ?case using Cons by (simp add: utf8ByteLength_ascii)
  qed simp
  moreover have "ascii_start (concat (map (\<lambda>y. 0x2C # y) r)) \<or> r = []" by (cases r) (auto simp: ascii_start_def)
  ultimately show ?thesis using Cons length_append_ascii by (auto simp: commas_def)
qed (simp add: commas_def)

lemma stringify_start: "\<forall>q. ascii_start (num q) \<Longrightarrow> ascii_start (stringify num v)"
  by (cases v) (auto simp: ascii_start_def quote_def js_def split: list.splits)

lemma stringify_size:
  assumes "\<forall>q. ascii_start (num q)"
  shows "utf8ByteLength (stringify num v) = json_size num v"
proof (induction v)
  case J_null
  show ?case by code_simp
next
  case (J_bool b)
  show ?case by (cases b) (simp; code_simp)+
next
  case (J_list vs)
  have "utf8ByteLength (commas (map (stringify num) vs)) = (length vs - 1) + sum_list (map (json_size num) vs)"
    using commas_size [of "map (stringify num) vs"] stringify_start [OF assms] J_list by (simp add: comp_def cong: map_cong)
  then show ?case by (simp add: utf8ByteLength_ascii utf8ByteLength_snoc)
next
  case (J_map kvs)
  have e: "utf8ByteLength (quote k @ 0x3A # stringify num v) = string_size k + 1 + utf8ByteLength (stringify num v)" for k v
    by (simp add: utf8ByteLength_snoc string_size_def)
  have a: "ascii_start (quote k @ x)" for k x by (simp add: quote_def ascii_start_def)
  have "utf8ByteLength (commas (map (\<lambda>(k, v). quote k @ 0x3A # stringify num v) kvs)) =
      (length kvs - 1) + sum_list (map (\<lambda>(k, v). string_size k + 1 + utf8ByteLength (stringify num v)) kvs)"
    using commas_size [of "map (\<lambda>(k, v). quote k @ 0x3A # stringify num v) kvs"] a
    by (auto simp: comp_def case_prod_unfold e cong: map_cong)
  also have "map (\<lambda>(k, v). string_size k + 1 + utf8ByteLength (stringify num v)) kvs =
      map (\<lambda>(k, v). string_size k + 1 + json_size num v) kvs"
    using J_map by (auto intro!: map_cong)
  finally show ?case by (simp add: utf8ByteLength_ascii utf8ByteLength_snoc)
next
  case (J_resource i)
  have "utf8ByteLength (js (''{'' @ [CHR 0x22] @ ''resource'' @ [CHR 0x22] @ '':'')) = 12" by code_simp
  moreover have "utf8ByteLength (js ''}'') = 1" by code_simp
  moreover have "ascii_start (js ''}'')" "ascii_start (quote x @ y)" for x y by (simp_all add: ascii_start_def js_def quote_def)
  ultimately show ?case using length_append_ascii by (simp add: string_size_def)
qed (simp_all add: string_size_def)

section \<open>The data an object graph holds\<close>

fun json_depth :: "native_value \<Rightarrow> nat" where
  "json_depth (J_list vs) = (if vs = [] then 0 else Suc (Max (set (map json_depth vs))))"
| "json_depth (J_map kvs) = (if kvs = [] then 0 else Suc (Max (set (map (\<lambda>(k, v). json_depth v) kvs))))"
| "json_depth _ = 0"

definition string_keys :: "obj \<Rightarrow> bool" where
  "string_keys ob \<longleftrightarrow> list_all (\<lambda>k. case k of Symbol _ \<Rightarrow> False | Key _ \<Rightarrow> True) (ownKeys ob)"

inductive denotes :: "js_heap \<Rightarrow> jsv \<Rightarrow> native_value \<Rightarrow> bool" for h where
  null: "denotes h V_null J_null"
| bool: "denotes h (V_bool b) (J_bool b)"
| num: "denotes h (V_num (Fin q)) (J_num q)"
| str: "denotes h (V_str s) (J_str s)"
| arr: "ob_array (h a) \<Longrightarrow> string_keys (h a) \<Longrightarrow> array_shape (h a) = Some (length ws) \<Longrightarrow>
    \<forall>i < length ws. \<exists>v. ownDataDescriptor (h a) (decimal i) = Some v \<and> denotes h v (ws ! i) \<Longrightarrow>
    denotes h (V_ref a) (J_list ws)"
| obj: "\<not> ob_array (h a) \<Longrightarrow> plain_prototype (h a) \<Longrightarrow> string_keys (h a) \<Longrightarrow> map fst kvs = keys_text (ownKeys (h a)) \<Longrightarrow>
    \<forall>(k, w) \<in> set kvs. \<exists>v. ownDataDescriptor (h a) k = Some v \<and> denotes h v w \<Longrightarrow>
    denotes h (V_ref a) (J_map kvs)"

inductive_cases denotes_refE: "denotes h (V_ref a) w"

inductive_simps denotes_simps: "denotes h V_null w" "denotes h (V_bool b) w" "denotes h (V_num n) w" "denotes h (V_str s) w"

lemma denotes_unique: "denotes h v w \<Longrightarrow> denotes h v w' \<Longrightarrow> w' = w"
proof (induction arbitrary: w' rule: denotes.induct)
  case (arr a ws)
  from arr.prems arr.hyps(1) obtain ws' where w': "w' = J_list ws'" "array_shape (h a) = Some (length ws')"
    "\<forall>i < length ws'. \<exists>v. ownDataDescriptor (h a) (decimal i) = Some v \<and> denotes h v (ws' ! i)"
    by (auto elim: denotes_refE)
  have "ws' = ws"
  proof (rule nth_equalityI)
    show "length ws' = length ws" using w'(2) arr.hyps(3) by simp
    then show "ws' ! i = ws ! i" if "i < length ws'" for i
      using arr.IH w'(3) that by (metis option.inject)
  qed
  then show ?case using w' by simp
next
  case (obj a kvs)
  from obj.prems obj.hyps(1) obtain kvs' where w': "w' = J_map kvs'" "map fst kvs' = keys_text (ownKeys (h a))"
    "\<forall>(k, w) \<in> set kvs'. \<exists>v. ownDataDescriptor (h a) k = Some v \<and> denotes h v w"
    by (auto elim: denotes_refE)
  have "kvs' = kvs"
  proof (rule nth_equalityI)
    show l: "length kvs' = length kvs" using w'(2) obj.hyps(4) by (metis length_map)
    show "kvs' ! i = kvs ! i" if "i < length kvs'" for i
    proof -
      have m: "kvs' ! i \<in> set kvs'" "kvs ! i \<in> set kvs" using that l by simp_all
      have "map fst kvs' ! i = map fst kvs ! i" using w'(2) obj.hyps(4) by simp
      then have m': "fst (kvs' ! i) = fst (kvs ! i)" using that l by simp
      obtain v where v: "ownDataDescriptor (h a) (fst (kvs ! i)) = Some v" "\<And>w'. denotes h v w' \<Longrightarrow> w' = snd (kvs ! i)"
        using bspec [OF obj.IH m(2)] by (auto simp: case_prod_unfold)
      obtain v' where "ownDataDescriptor (h a) (fst (kvs' ! i)) = Some v'" "denotes h v' (snd (kvs' ! i))"
        using bspec [OF w'(3) m(1)] by (auto simp: case_prod_unfold)
      then show ?thesis using v m' by (simp add: prod_eq_iff)
    qed
  qed
  then show ?case using w' by simp
qed (simp_all add: denotes_simps)

section \<open>What a successful copy returns\<close>

definition budget :: "native_limits \<Rightarrow> nat" where
  "budget L = min (maxInlineBytes L) (nat MAX_SAFE_INTEGER)"

lemma addBytes_Some:
  "addBytes L n x st = (Some y, st') \<longleftrightarrow> y = x \<and> st' = st\<lparr>cl_bytes := cl_bytes st + n\<rparr> \<and> cl_bytes st + n \<le> budget L"
  by (auto simp: addBytes_def Let_def budget_def MAX_SAFE_INTEGER_def)

definition fits :: "native_limits \<Rightarrow> nat \<Rightarrow> native_value list \<Rightarrow> bool" where
  "fits L d ws \<longleftrightarrow> (\<forall>w \<in> set ws. d + json_depth w \<le> maxJsonDepth L)"

lemma depth_list: "fits L (d + 1) ws \<Longrightarrow> d \<le> maxJsonDepth L \<Longrightarrow> d + json_depth (J_list ws) \<le> maxJsonDepth L"
proof (cases "ws = []")
  case False
  assume "fits L (d + 1) ws"
  moreover have "Max (set (map json_depth ws)) \<in> set (map json_depth ws)" using False by (intro Max_in) simp_all
  then obtain w where "w \<in> set ws" "Max (set (map json_depth ws)) = json_depth w" by auto
  ultimately show ?thesis using False by (simp add: fits_def)
qed simp

lemma depth_map: "fits L (d + 1) (map snd kvs) \<Longrightarrow> d \<le> maxJsonDepth L \<Longrightarrow> d + json_depth (J_map kvs) \<le> maxJsonDepth L"
  using depth_list [of L d "map snd kvs"] by (cases "kvs = []") (simp_all add: image_image case_prod_unfold)

lemma keys_text_length: "string_keys ob \<Longrightarrow> length (keys_text (ownKeys ob)) = length (ownKeys ob)"
proof -
  have "list_all (\<lambda>k. case k of Symbol _ \<Rightarrow> False | Key _ \<Rightarrow> True) ks \<Longrightarrow> length (keys_text ks) = length ks" for ks
    by (induction ks) (auto simp: keys_text_def split: prop_key.splits)
  then show "string_keys ob \<Longrightarrow> ?thesis" by (simp add: string_keys_def)
qed

lemma clone_sound:
  fixes st :: "'r clone_state"
  shows "clone_visit num h L res act d v st = (Some w, st') \<Longrightarrow> cl_bytes st \<le> budget L \<Longrightarrow>
      cl_bytes st' = cl_bytes st + json_size num w \<and> cl_bytes st' \<le> budget L \<and> d + json_depth w \<le> maxJsonDepth L \<and>
      (res = None \<longrightarrow> denotes h v w)"
    and "clone_items num h L res act d ob is st = (Some ws, st') \<Longrightarrow> cl_bytes st \<le> budget L \<Longrightarrow>
      cl_bytes st' = cl_bytes st + sum_list (map (json_size num) ws) \<and> cl_bytes st' \<le> budget L \<and> fits L d ws \<and>
      length ws = length is \<and>
      (res = None \<longrightarrow> (\<forall>i < length is. \<exists>v. ownDataDescriptor ob (decimal (is ! i)) = Some v \<and> denotes h v (ws ! i)))"
    and "clone_entries num h L res act d ob ks st = (Some kvs, st') \<Longrightarrow> cl_bytes st \<le> budget L \<Longrightarrow>
      cl_bytes st' = cl_bytes st + sum_list (map (\<lambda>(k, w). string_size k + 1 + json_size num w) kvs) \<and>
      cl_bytes st' \<le> budget L \<and> fits L d (map snd kvs) \<and> map fst kvs = ks \<and>
      (res = None \<longrightarrow> (\<forall>(k, w) \<in> set kvs. \<exists>v. ownDataDescriptor ob k = Some v \<and> denotes h v w))"
proof (induction num h L res act d v st and num h L res act d ob "is" st and num h L res act d ob ks st
    arbitrary: w st' and ws st' and kvs st' rule: clone_visit_clone_items_clone_entries.induct)
  case (2 num h L res active depth ob st)
  then show ?case by (simp add: fits_def)
next
  case (3 num h L res active depth ob i "is" st)
  obtain v w st1 ws' where v: "ownDataDescriptor ob (decimal i) = Some v"
    "clone_visit num h L res active depth v st = (Some w, st1)"
    "clone_items num h L res active depth ob is st1 = (Some ws', st')" "ws = w # ws'"
    using 3(3) by (auto split: option.splits prod.splits)
  note a = 3(1) [OF v(1,2) 3(4)]
  then show ?case using v 3(2) [OF v(1) v(2) [symmetric] refl v(3)] by (auto simp: fits_def nth_Cons split: nat.split)
next
  case (4 num h L res active depth ob st)
  then show ?case by (simp add: fits_def)
next
  case (5 num h L res active depth ob k ks st)
  obtain v w st1 st2 kvs' where v: "ownDataDescriptor ob k = Some v" "addBytes L (encodedStringBytes k + 1) () st = (Some (), st1)"
    "clone_visit num h L res active depth v st1 = (Some w, st2)"
    "clone_entries num h L res active depth ob ks st2 = (Some kvs', st')" "kvs = (k, w) # kvs'"
    using 5(3) by (auto split: option.splits prod.splits)
  have st1: "cl_bytes st1 = cl_bytes st + (string_size k + 1)" "cl_bytes st1 \<le> budget L"
    using v(2) by (simp_all add: addBytes_Some encodedStringBytes_size)
  note a = 5(1) [OF v(1) v(2) [symmetric] refl v(3) st1(2)]
  note b = 5(2) [OF v(1) v(2) [symmetric] refl v(3) [symmetric] refl v(4)]
  show ?case using v(1,5) st1 a b by (auto simp: fits_def)
next
  case (1 num h L res active depth v st)
  have d: "\<not> maxJsonDepth L < depth" using 1(3) by (auto simp: clone_visit.simps split: if_splits)
  note run = 1(3) [unfolded clone_visit.simps [of num h L res active depth v st] if_not_P [OF d]]
  show ?case
  proof (cases v)
    case (V_ref a)
    obtain r uses where r: "(r, uses) = (case res of None \<Rightarrow> (Inr None, cl_uses st) | Some f \<Rightarrow> f a (cl_uses st))"
      by (metis prod.exhaust)
    have act: "a \<notin> active" using run V_ref by (auto split: if_splits)
    show ?thesis
    proof (cases r)
      case (Inl e)
      then show ?thesis using run V_ref act r by (simp flip: r)
    next
      case (Inr ref)
      have res: "res = None \<longrightarrow> ref = None" using r Inr by auto
      show ?thesis
      proof (cases ref)
        case (Some i)
        then show ?thesis using run V_ref act Inr res d 1(4)
          by (auto simp: addBytes_Some encodedStringBytes_size simp flip: r)
      next
        case None
        let ?st = "st\<lparr>cl_uses := uses\<rparr>" and ?ob = "h a"
        have k: "\<not> (\<not> ob_array ?ob \<and> \<not> plain_prototype ?ob)"
          "\<not> list_ex (case_prop_key (\<lambda>_. False) (\<lambda>_. True)) (ownKeys ?ob)"
          using run V_ref act Inr None by (auto simp: Let_def simp flip: r split: if_splits)
        have keys: "string_keys ?ob"
          using k(2) by (auto simp: string_keys_def list_ex_iff list_all_iff split: prop_key.splits)
        note run' = run [unfolded V_ref jsv.case if_not_P [OF act] r [symmetric] prod.case Inr None sum.case option.case Let_def
            if_not_P [OF k(1)] if_not_P [OF k(2)]]
        show ?thesis
        proof (cases "ob_array ?ob")
          case True
          obtain n st1 ws where n: "array_shape ?ob = Some n" "addBytes L (2 + (n - 1)) () ?st = (Some (), st1)"
            "clone_items num h L res (insert a active) (depth + 1) ?ob [0..<n] st1 = (Some ws, st')" "w = J_list ws"
            using run' True by (auto split: option.splits prod.splits)
          have b: "cl_bytes st1 = cl_bytes st + (2 + (n - 1))" "cl_bytes st1 \<le> budget L" using n(2) by (auto simp: addBytes_Some)
          note items = 1(1) [OF d V_ref act r Inr None refl refl refl k True n(1) n(2) [symmetric] refl n(3) b(2)]
          then have "depth + json_depth w \<le> maxJsonDepth L" unfolding n(4) using d by (intro depth_list) auto
          moreover have "res = None \<longrightarrow> denotes h v w" unfolding n(4) V_ref using items True keys n(1) by (intro impI denotes.arr) auto
          ultimately show ?thesis using items b by (simp add: n(4))
        next
          case False
          obtain st1 kvs where n: "addBytes L (2 + (length (ownKeys ?ob) - 1)) () ?st = (Some (), st1)"
            "clone_entries num h L res (insert a active) (depth + 1) ?ob (keys_text (ownKeys ?ob)) st1 = (Some kvs, st')"
            "w = J_map kvs"
            using run' False by (auto split: option.splits prod.splits)
          have b: "cl_bytes st1 = cl_bytes st + (2 + (length (ownKeys ?ob) - 1))" "cl_bytes st1 \<le> budget L"
            using n(1) by (auto simp: addBytes_Some)
          note entries = 1(2) [OF d V_ref act r Inr None refl refl refl k False n(1) [symmetric] refl n(2) b(2)]
          then have "depth + json_depth w \<le> maxJsonDepth L" unfolding n(3) using d by (intro depth_map) auto
          moreover have "res = None \<longrightarrow> denotes h v w"
            unfolding n(3) V_ref using entries False k keys by (intro impI denotes.obj) auto
          moreover have "length kvs = length (ownKeys ?ob)"
            using entries keys_text_length [OF keys] by (metis length_map)
          ultimately show ?thesis using entries b by (simp add: n(3))
        qed
      qed
    qed
  qed (use run d in \<open>auto simp: addBytes_Some encodedStringBytes_size inlineByteLength_eq denotes_simps split: jsnum.splits if_splits\<close>)
qed

section \<open>Every value within the limits is copied\<close>

lemma child_depth: "w \<in> set ws \<Longrightarrow> json_depth w < json_depth (J_list ws)"
  using Max_ge [of "set (map json_depth ws)" "json_depth w"] by (auto simp: less_Suc_eq_le)

lemma entry_depth: "(k, w) \<in> set kvs \<Longrightarrow> json_depth w < json_depth (J_map kvs)"
proof -
  assume kw: "(k, w) \<in> set kvs"
  then have "json_depth w \<in> set (map (\<lambda>(k, v). json_depth v) kvs)" by force
  then have "json_depth w \<le> Max (set (map (\<lambda>(k, v). json_depth v) kvs))" by (rule Max_ge [OF finite_set])
  moreover have "kvs \<noteq> []" using kw by auto
  ultimately show ?thesis by (simp add: less_Suc_eq_le)
qed

lemma addBytes_ok: "cl_bytes st + n \<le> budget L \<Longrightarrow> addBytes L n x st = (Some x, st\<lparr>cl_bytes := cl_bytes st + n\<rparr>)"
  by (simp add: addBytes_Some)

lemma items_complete:
  assumes "\<And>w v st. w \<in> set ws \<Longrightarrow> denotes h v w \<Longrightarrow> cl_bytes st + json_size num w \<le> budget L \<Longrightarrow>
      clone_visit num h L res act d v st = (Some w, st\<lparr>cl_bytes := cl_bytes st + json_size num w\<rparr>)"
    "list_all2 (\<lambda>i w. \<exists>v. ownDataDescriptor ob (decimal i) = Some v \<and> denotes h v w) is ws"
    "cl_bytes st + sum_list (map (json_size num) ws) \<le> budget L"
  shows "clone_items num h L res act d ob is st =
    (Some ws, st\<lparr>cl_bytes := cl_bytes st + sum_list (map (json_size num) ws)\<rparr>)"
  using assms(2,1,3)
proof (induction "is" ws arbitrary: st rule: list_all2_induct)
  case (Cons i "is" w ws)
  obtain v where v: "ownDataDescriptor ob (decimal i) = Some v" "denotes h v w" using Cons.hyps by blast
  have "clone_visit num h L res act d v st = (Some w, st\<lparr>cl_bytes := cl_bytes st + json_size num w\<rparr>)"
    using Cons.prems v(2) by (intro Cons.prems(1)) simp_all
  then show ?case using v(1) Cons.IH Cons.prems by (simp add: add.assoc)
qed simp

lemma entries_complete:
  assumes "\<And>k w v st. (k, w) \<in> set kvs \<Longrightarrow> denotes h v w \<Longrightarrow> cl_bytes st + json_size num w \<le> budget L \<Longrightarrow>
      clone_visit num h L res act d v st = (Some w, st\<lparr>cl_bytes := cl_bytes st + json_size num w\<rparr>)"
    "\<forall>(k, w) \<in> set kvs. \<exists>v. ownDataDescriptor ob k = Some v \<and> denotes h v w"
    "cl_bytes st + sum_list (map (\<lambda>(k, w). string_size k + 1 + json_size num w) kvs) \<le> budget L"
  shows "clone_entries num h L res act d ob (map fst kvs) st =
    (Some kvs, st\<lparr>cl_bytes := cl_bytes st + sum_list (map (\<lambda>(k, w). string_size k + 1 + json_size num w) kvs)\<rparr>)"
  using assms
proof (induction kvs arbitrary: st)
  case (Cons kw kvs)
  obtain k w where kw: "kw = (k, w)" by fastforce
  obtain v where v: "ownDataDescriptor ob k = Some v" "denotes h v w" using Cons.prems(2) kw by auto
  let ?st = "st\<lparr>cl_bytes := cl_bytes st + (string_size k + 1)\<rparr>"
  have "clone_visit num h L res act d v ?st = (Some w, ?st\<lparr>cl_bytes := cl_bytes ?st + json_size num w\<rparr>)"
    using Cons.prems(3) v(2) kw by (intro Cons.prems(1) [of k]) simp_all
  moreover have "addBytes L (encodedStringBytes k + 1) () st = (Some (), ?st)"
    using Cons.prems(3) kw by (simp add: addBytes_ok encodedStringBytes_size)
  moreover have "clone_entries num h L res act d ob (map fst kvs) (?st\<lparr>cl_bytes := cl_bytes ?st + json_size num w\<rparr>) =
      (Some kvs, st\<lparr>cl_bytes := cl_bytes st + (string_size k + 1 + json_size num w +
        sum_list (map (\<lambda>(k, w). string_size k + 1 + json_size num w) kvs))\<rparr>)"
    (is "?run = _")
  proof -
    have "?run = (Some kvs, (?st\<lparr>cl_bytes := cl_bytes ?st + json_size num w\<rparr>)\<lparr>cl_bytes :=
        cl_bytes (?st\<lparr>cl_bytes := cl_bytes ?st + json_size num w\<rparr>) +
        sum_list (map (\<lambda>(k, w). string_size k + 1 + json_size num w) kvs)\<rparr>)"
    proof (rule Cons.IH)
      show "clone_visit num h L res act d v st = (Some w, st\<lparr>cl_bytes := cl_bytes st + json_size num w\<rparr>)"
        if "(k, w) \<in> set kvs" "denotes h v w" "cl_bytes st + json_size num w \<le> budget L" for k w v st
        using that Cons.prems(1) [of k w v st] by simp
    qed (use Cons.prems(2,3) kw in simp_all)
    then show ?thesis by (simp add: add.assoc)
  qed
  ultimately show ?case using v(1) kw by simp
qed simp

definition outer :: "js_heap \<Rightarrow> obj_ref set \<Rightarrow> native_value \<Rightarrow> bool" where
  "outer h act w \<longleftrightarrow> (\<forall>b \<in> act. \<exists>wb. denotes h (V_ref b) wb \<and> json_depth w < json_depth wb)"

lemma outer_child: "outer h act w \<Longrightarrow> denotes h (V_ref a) w \<Longrightarrow> json_depth c < json_depth w \<Longrightarrow> outer h (insert a act) c"
  unfolding outer_def by (metis insert_iff less_trans)

lemma outer_not_active: "outer h act w \<Longrightarrow> denotes h (V_ref a) w \<Longrightarrow> a \<notin> act"
  unfolding outer_def using denotes_unique by blast

lemma clone_complete:
  fixes st :: "'r clone_state"
  shows "denotes h v w \<Longrightarrow> d + json_depth w \<le> maxJsonDepth L \<Longrightarrow> cl_bytes st + json_size num w \<le> budget L \<Longrightarrow> outer h act w \<Longrightarrow>
   clone_visit num h L None act d v st = (Some w, st\<lparr>cl_bytes := cl_bytes st + json_size num w\<rparr>)"
proof (induction w arbitrary: v d act st)
  case (J_list ws)
  from J_list.prems(1) obtain a where v: "v = V_ref a" by (auto elim: denotes.cases)
  from J_list.prems(1) [unfolded v] have a: "ob_array (h a)" "string_keys (h a)" "array_shape (h a) = Some (length ws)"
    "\<forall>i < length ws. \<exists>v. ownDataDescriptor (h a) (decimal i) = Some v \<and> denotes h v (ws ! i)" by (auto elim: denotes_refE)
  have na: "a \<notin> act" using outer_not_active J_list.prems(1,4) v by blast
  have k: "\<not> list_ex (case_prop_key (\<lambda>_. False) (\<lambda>_. True)) (ownKeys (h a))"
    using a(2) by (auto simp: string_keys_def list_ex_iff list_all_iff split: prop_key.splits)
  let ?st = "st\<lparr>cl_bytes := cl_bytes st + (2 + (length ws - 1))\<rparr>"
  have "clone_items num h L None (insert a act) (d + 1) (h a) [0..<length ws] ?st =
      (Some ws, ?st\<lparr>cl_bytes := cl_bytes ?st + sum_list (map (json_size num) ws)\<rparr>)"
  proof (rule items_complete)
    show "list_all2 (\<lambda>i w. \<exists>v. ownDataDescriptor (h a) (decimal i) = Some v \<and> denotes h v w) [0..<length ws] ws"
      using a(4) by (simp add: list_all2_conv_all_nth)
    show "clone_visit num h L None (insert a act) (d + 1) v' st' = (Some w, st'\<lparr>cl_bytes := cl_bytes st' + json_size num w\<rparr>)"
      if w: "w \<in> set ws" "denotes h v' w" "cl_bytes st' + json_size num w \<le> budget L" for w v' and st' :: "'r clone_state"
    proof (rule J_list.IH [OF w(1,2) _ w(3)])
      show "outer h (insert a act) w" using outer_child [OF J_list.prems(4)] J_list.prems(1) v child_depth [OF w(1)] by blast
    qed (use child_depth [OF w(1)] J_list.prems(2) in simp)
  qed (use J_list.prems(3) in simp)
  then show ?case using J_list.prems(2,3) a na k
    by (simp add: clone_visit.simps [of num h L None act d "V_ref a" st] v addBytes_ok add.assoc Let_def del: json_depth.simps)
next
  case (J_map kvs)
  from J_map.prems(1) obtain a where v: "v = V_ref a" by (auto elim: denotes.cases)
  from J_map.prems(1) [unfolded v] have a: "\<not> ob_array (h a)" "plain_prototype (h a)" "string_keys (h a)"
    "map fst kvs = keys_text (ownKeys (h a))" "\<forall>(k, w) \<in> set kvs. \<exists>v. ownDataDescriptor (h a) k = Some v \<and> denotes h v w"
    by (auto elim: denotes_refE)
  have na: "a \<notin> act" using outer_not_active J_map.prems(1,4) v by blast
  have k: "\<not> list_ex (case_prop_key (\<lambda>_. False) (\<lambda>_. True)) (ownKeys (h a))"
    using a(3) by (auto simp: string_keys_def list_ex_iff list_all_iff split: prop_key.splits)
  have l: "length (ownKeys (h a)) = length kvs" using a(4) keys_text_length [OF a(3)] by (metis length_map)
  let ?st = "st\<lparr>cl_bytes := cl_bytes st + (2 + (length kvs - 1))\<rparr>"
  have "clone_entries num h L None (insert a act) (d + 1) (h a) (map fst kvs) ?st =
      (Some kvs, ?st\<lparr>cl_bytes := cl_bytes ?st + sum_list (map (\<lambda>(k, w). string_size k + 1 + json_size num w) kvs)\<rparr>)"
  proof (rule entries_complete [OF _ a(5)])
    show "clone_visit num h L None (insert a act) (d + 1) v' st' = (Some w, st'\<lparr>cl_bytes := cl_bytes st' + json_size num w\<rparr>)"
      if w: "(k, w) \<in> set kvs" "denotes h v' w" "cl_bytes st' + json_size num w \<le> budget L" for k w v' and st' :: "'r clone_state"
    proof (rule J_map.IH [OF w(1) _ w(2) _ w(3)])
      show "outer h (insert a act) w" using outer_child [OF J_map.prems(4)] J_map.prems(1) v entry_depth [OF w(1)] by blast
    qed (use entry_depth [OF w(1)] J_map.prems(2) in simp_all)
  qed (use J_map.prems(3) in simp)
  then show ?case using J_map.prems(2,3) a na k l
    by (simp add: clone_visit.simps [of num h L None act d "V_ref a" st] v addBytes_ok add.assoc Let_def del: json_depth.simps)
qed (auto elim!: denotes.cases simp: clone_visit.simps addBytes_ok encodedStringBytes_size inlineByteLength_eq)

section \<open>The copy is exact\<close>

lemma cloneValue_sound:
  assumes "fst (cloneValue num h L res v uses) = Inr (n, w)"
  shows "n = json_size num w \<and> n \<le> budget L \<and> json_depth w \<le> maxJsonDepth L \<and> (res = None \<longrightarrow> denotes h v w)"
  using assms clone_sound(1) [of num h L res "{}" 0 v "\<lparr>cl_bytes = 0, cl_failure = N_invalid_value, cl_uses = uses\<rparr>"]
  by (auto simp: cloneValue_def split: prod.splits option.splits)


text \<open>The array \<open>[1, "a"]\<close> in an object \<open>{"k": [1, "a"]}\<close>, numbers written in decimal.\<close>

definition data_prop :: "jsv \<Rightarrow> descriptor" where
  "data_prop v = \<lparr>pr_enumerable = True, pr_value = Some v\<rparr>"

definition sample_heap :: js_heap where
  "sample_heap a =
     (if a = 0 then \<lparr>ob_proto = Object_prototype, ob_array = False, ob_props = [(Key (js ''k''), data_prop (V_ref 1))], ob_bytes = None\<rparr>
      else \<lparr>ob_proto = Array_prototype, ob_array = True,
        ob_props = [(Key (js ''0''), data_prop (V_num (Fin 1))), (Key (js ''1''), data_prop (V_str (js ''a''))),
          (Key (js ''length''), \<lparr>pr_enumerable = False, pr_value = Some (V_num (Fin 2))\<rparr>)], ob_bytes = None\<rparr>)"

definition integer_text :: "rat \<Rightarrow> jstring" where
  "integer_text q = decimal (nat \<lfloor>q\<rfloor>)"

definition tiny_limits :: native_limits where
  "tiny_limits = \<lparr>maxBinaryBytes = 4, maxBinaryHandles = 2, maxCreditsPerStream = 2, maxHandles = 4, maxInFlightBinaryBytes = 8,
     maxInFlightBinaryHandles = 3, maxInlineBytes = 20, maxJsonDepth = 2, maxOpenResources = 3, maxOutstandingCredits = 3,
     maxPendingRequests = 2, maxTimeoutMs = 100\<rparr>"

lemma integer_text_ascii: "ascii_start (integer_text q)"
  using decimal_digits [of "nat \<lfloor>q\<rfloor>"] decimal_nonempty [of "nat \<lfloor>q\<rfloor>"]
  by (cases "decimal (nat \<lfloor>q\<rfloor>)") (auto simp: integer_text_def ascii_start_def is_digit_def intro: le_less_trans)


end
