(* ===== verification/Bridge_Properties.thy ===== *)
theory Bridge_Properties
  imports Bridge_Disposal Clone_Correct
begin

text \<open>
  What the native bridge promises over its histories: its accounts are exact and within its limits
  (\<open>bridge_accounts_are_exact\<close>), and once it is disposed it holds nothing (\<open>disposed_bridge_holds_nothing\<close>).
\<close>

section \<open>Histories\<close>

definition bridge_history ::
    "(rat \<Rightarrow> jstring) \<Rightarrow> native_authority \<Rightarrow> native_limits \<Rightarrow> (nat \<Rightarrow> bool) \<Rightarrow> bridge_call list \<Rightarrow> bridge" where
  "bridge_history num authority L fails calls = fold (bridge_step num) calls (new_bridge authority L fails)"

lemma sound_history: "sound L (bridge_history num authority L fails calls)"
  unfolding bridge_history_def by (rule sound_fold) (simp_all add: sound_step sound_new)

lemma books_history: "books L {} {} 0 0 0 0 (bridge_history num authority L fails calls)"
  using sound_history by (simp add: sound_def)

section \<open>Accounts\<close>

lemma pending_count:
  assumes "pendings_ok s"
  shows "length (br_pending s) = card {g. pn_active (br_pendings s g)}"
proof -
  have k: "map_of (br_pending s) i = Some g \<longleftrightarrow> pn_active (br_pendings s g) \<and> pn_id (br_pendings s g) = i" for i g
    using assms by (simp add: pendings_ok_def)
  have d: "distinct (map fst (br_pending s))" using assms by (simp add: pendings_ok_def)
  then have m: "(i, g) \<in> set (br_pending s) \<longleftrightarrow> pn_active (br_pendings s g) \<and> pn_id (br_pendings s g) = i" for i g
    using k by (metis map_of_eq_Some_iff)
  have "set (map snd (br_pending s)) = {g. pn_active (br_pendings s g)}" by (rule set_eqI) (simp add: image_iff Bex_def split_paired_Ex m)
  moreover have "inj_on snd (set (br_pending s))" by (simp add: inj_on_def Ball_def split_paired_All m)
  then have "distinct (map snd (br_pending s))" using d by (simp add: distinct_map)
  ultimately show ?thesis by (metis distinct_card length_map)
qed

text \<open>C20: After any history of calls, provider events, tasks and timers the snapshot of a native bridge is
  exact: the bytes and handles in flight are the sums over the active requests and the outputs not yet
  delivered, open handles and resources count exactly the live objects, the outstanding credits are the sum
  of the credits of the active streams, no counter is negative and none exceeds its limit.\<close>

theorem bridge_accounts_are_exact:
  "let s = bridge_history num authority L fails calls in
     getSnapshot_bridge s =
       \<lparr>bs_inFlightBinaryBytes = of_pendings pn_inputBinaryBytes s + of_outputs ot_binaryBytes s,
        bs_inFlightBinaryHandles = of_pendings pn_inputBinaryHandles s + of_outputs ot_binaryHandles s,
        bs_openHandles = of_pendings handle_share s + of_outputs ot_binaryHandles s + open_cells s,
        bs_openResources = open_cells s, bs_outstandingCredits = of_pendings pn_credits s,
        bs_pendingRequests = card {g. pn_active (br_pendings s g)}\<rparr> \<and>
     bs_inFlightBinaryBytes (getSnapshot_bridge s) \<in> {0..int (maxInFlightBinaryBytes L)} \<and>
     bs_inFlightBinaryHandles (getSnapshot_bridge s) \<in> {0..int (maxInFlightBinaryHandles L)} \<and>
     bs_openHandles (getSnapshot_bridge s) \<in> {0..int (maxHandles L)} \<and>
     bs_openResources (getSnapshot_bridge s) \<in> {0..int (maxOpenResources L)} \<and>
     bs_outstandingCredits (getSnapshot_bridge s) \<in> {0..int (maxOutstandingCredits L)} \<and>
     bs_pendingRequests (getSnapshot_bridge s) \<le> maxPendingRequests L"
proof -
  define s where "s = bridge_history num authority L fails calls"
  have b: "books L {} {} 0 0 0 0 s" unfolding s_def by (rule books_history)
  then have c: "counters_ok 0 0 0 0 s" and l: "limits_ok L s" and p: "pendings_ok s" by (simp_all add: books_def)
  have nn: "0 \<le> of_pendings f s" "0 \<le> of_outputs f' s" "0 \<le> open_cells s" for f f'
    by (simp_all add: of_pendings_def of_outputs_def open_cells_def total_nonneg when_active_def when_held_def when_open_def)
  show ?thesis
    unfolding s_def [symmetric] Let_def
    using c l pending_count [OF p] nn by (simp add: getSnapshot_bridge_def counters_ok_def limits_ok_def)
qed

section \<open>Disposal\<close>

text \<open>C21: A bridge that is disposed, by its owner, by the end of its event loop or in the middle of an
  admission, holds nothing, whatever calls follow: no request is active, no resource is open, no output is
  undelivered, no provider token is remembered, and every counter of its snapshot is zero.\<close>

theorem disposed_bridge_holds_nothing:
  assumes "br_disposed (bridge_history num authority L fails calls)"
  shows "let s = bridge_history num authority L fails calls in
     getSnapshot_bridge s = \<lparr>bs_inFlightBinaryBytes = 0, bs_inFlightBinaryHandles = 0, bs_openHandles = 0,
       bs_openResources = 0, bs_outstandingCredits = 0, bs_pendingRequests = 0\<rparr> \<and>
     \<not> pn_active (br_pendings s g) \<and> \<not> rc_open (br_resources s r) \<and> ot_delivered (br_outputs s oref) \<and>
     br_pending s = [] \<and> br_resourceByProviderToken s = [] \<and> br_openResourceRecords s = []"
proof -
  define s where "s = bridge_history num authority L fails calls"
  have b: "books L {} {} 0 0 0 0 s" and e: "emptied s"
    using sound_history [of L num authority fails calls] assms by (simp_all add: sound_def s_def)
  then show ?thesis
    unfolding s_def [symmetric] Let_def
    using emptied_counters [OF b e] emptied_maps [OF b e] emptied_outputs(1) [OF b] by (simp add: emptied_def)
qed

text \<open>A stream that is read once and then disposed of.\<close>

definition call_heap :: js_heap where
  "call_heap a =
     (if a = 0 then \<lparr>ob_proto = Object_prototype, ob_array = False,
        ob_props = [(Key (js ''args''), data_prop V_null), (Key (js ''id''), data_prop (V_str (js ''r''))),
          (Key (js ''module''), data_prop (V_str (js ''m''))), (Key (js ''operation''), data_prop (V_str (js ''o'')))], ob_bytes = None\<rparr>
      else \<lparr>ob_proto = Object_prototype, ob_array = False,
        ob_props = [(Key (js ''type''), data_prop (V_str (js ''chunk''))), (Key (js ''id''), data_prop (V_str (js ''r''))),
          (Key (js ''sequence''), data_prop (V_num (Fin 0))), (Key (js ''value''), data_prop V_null)], ob_bytes = None\<rparr>)"

definition stream_call :: bridge_call where
  "stream_call = Open_call Streaming \<lparr>ai_heap = call_heap, ai_request = V_ref 0, ai_options = V_undefined, ai_signals = (\<lambda>_. None),
     ai_abortedLater = None, ai_clock = Some (Fin 0), ai_armClock = Some (Fin 0), ai_handles = (\<lambda>_. None), ai_preparing = [],
     ai_registering = []\<rparr>"

definition sample_history :: "bridge_call list \<Rightarrow> bridge" where
  "sample_history calls = bridge_history integer_text \<lparr>na_capabilities = [], na_principal = js ''p''\<rparr> tiny_limits (\<lambda>_. False) calls"

theorem disposed_bridge_holds_nothing_witness:
  "getSnapshot_bridge (sample_history [stream_call, Read_stream 1]) =
     \<lparr>bs_inFlightBinaryBytes = 0, bs_inFlightBinaryHandles = 0, bs_openHandles = 1, bs_openResources = 0,
      bs_outstandingCredits = 1, bs_pendingRequests = 1\<rparr> \<and>
   getSnapshot_bridge (sample_history [stream_call, Read_stream 1, Dispose_call]) =
     \<lparr>bs_inFlightBinaryBytes = 0, bs_inFlightBinaryHandles = 0, bs_openHandles = 0, bs_openResources = 0,
      bs_outstandingCredits = 0, bs_pendingRequests = 0\<rparr>"
proof -
  have "br_disposed (sample_history [stream_call, Read_stream 1, Dispose_call])" by code_simp
  then have "getSnapshot_bridge (sample_history [stream_call, Read_stream 1, Dispose_call]) =
     \<lparr>bs_inFlightBinaryBytes = 0, bs_inFlightBinaryHandles = 0, bs_openHandles = 0, bs_openResources = 0,
      bs_outstandingCredits = 0, bs_pendingRequests = 0\<rparr>"
    unfolding sample_history_def using disposed_bridge_holds_nothing [of integer_text _ tiny_limits] by (simp add: Let_def)
  moreover have "getSnapshot_bridge (sample_history [stream_call, Read_stream 1]) =
     \<lparr>bs_inFlightBinaryBytes = 0, bs_inFlightBinaryHandles = 0, bs_openHandles = 1, bs_openResources = 0,
      bs_outstandingCredits = 1, bs_pendingRequests = 1\<rparr>" by code_simp
  ultimately show ?thesis by simp
qed

end
