(* ===== verification/Kernel_Validation.thy ===== *)
theory Kernel_Validation
  imports Fs_Path Value_Validation "HOL-Library.Multiset"
begin

text \<open>
  The values of policies and capabilities, and the checks of \<open>runtime/src/kernel/validation.ts\<close>.  A value is a
  finite tree: \<open>D_map\<close> is a plain object with the keys in the order of \<open>Object.keys\<close>, and \<open>D_other\<close> stands for
  functions, symbols and instances of classes, which every check refuses alike.  A finite number is an
  exact rational, so \<open>-0\<close> is 0.  A check returns the value it accepts or the error it throws.
  Freezing is not visible in values that are never updated.
\<close>

section \<open>Values and errors\<close>

datatype data = D_undefined | D_null | D_bool bool | D_num jsnum | D_str jstring | D_list "data list"
  | D_map "(jstring \<times> data) list" | D_other

datatype contract_code = Binding_unavailable | Configuration_invalid | Policy_version_unsupported

datatype kernel_error = Contract_error contract_code | Invocation_error string | Type_error | Uri_error

abbreviation invalidPolicy :: "kernel_error + 'a" where
  "invalidPolicy \<equiv> Inl (Contract_error Configuration_invalid)"

definition bindR :: "'e + 'a \<Rightarrow> ('a \<Rightarrow> 'e + 'b) \<Rightarrow> 'e + 'b" where
  "bindR r f = (case r of Inl e \<Rightarrow> Inl e | Inr x \<Rightarrow> f x)"

definition check :: "bool \<Rightarrow> kernel_error + unit" where
  "check b = (if b then Inr () else invalidPolicy)"

definition mapR :: "('a \<Rightarrow> 'b) \<Rightarrow> 'e + 'a \<Rightarrow> 'e + 'b" where
  "mapR f r = bindR r (\<lambda>x. Inr (f x))"

text \<open>Constructors of the values that the checks build, and the reads of a value whose shape is known
  (the casts of the source).  A key that is absent reads as \<open>undefined\<close>.\<close>

definition text_v :: "string \<Rightarrow> data" where "text_v s = D_str (js s)"
definition texts :: "jstring list \<Rightarrow> data" where "texts xs = D_list (map D_str xs)"
definition num :: "int \<Rightarrow> data" where "num n = D_num (Fin (of_int n))"
definition object :: "(string \<times> data) list \<Rightarrow> data" where "object m = D_map (map (\<lambda>(k, v). (js k, v)) m)"

definition lookup_key :: "(jstring \<times> data) list \<Rightarrow> jstring \<Rightarrow> data" where
  "lookup_key m k = (case map_of m k of None \<Rightarrow> D_undefined | Some v \<Rightarrow> v)"

definition key :: "(jstring \<times> data) list \<Rightarrow> string \<Rightarrow> data" where
  "key m k = lookup_key m (js k)"

definition entries :: "data \<Rightarrow> (jstring \<times> data) list" where
  "entries v = (case v of D_map m \<Rightarrow> m | _ \<Rightarrow> [])"

definition field :: "data \<Rightarrow> string \<Rightarrow> data" where
  "field v k = key (entries v) k"

definition items :: "data \<Rightarrow> data list" where
  "items v = (case v of D_list xs \<Rightarrow> xs | _ \<Rightarrow> [])"

definition number :: "data \<Rightarrow> rat" where
  "number v = (case v of D_num (Fin q) \<Rightarrow> q | _ \<Rightarrow> 0)"

definition the_text :: "data \<Rightarrow> jstring" where
  "the_text v = (case v of D_str s \<Rightarrow> s | _ \<Rightarrow> [])"

definition the_texts :: "data \<Rightarrow> jstring list" where
  "the_texts v = map the_text (items v)"

section \<open>Strings\<close>

text \<open>The code points a string iterates over; a lone surrogate is one of its own.\<close>

fun code_points :: "jstring \<Rightarrow> nat list" where
  "code_points [] = []"
| "code_points (u # r) =
     (case r of
        v # r' \<Rightarrow> if is_high (unat u) \<and> is_low (unat v) then pair_code (unat u) (unat v) # code_points r'
                  else unat u # code_points r
      | [] \<Rightarrow> [unat u])"

definition policy_utf8ByteLength :: "jstring \<Rightarrow> nat" where
  "policy_utf8ByteLength s = fold (\<lambda>point bytes. bytes + code_width point) (code_points s) 0"

fun compare_lists :: "nat list \<Rightarrow> nat list \<Rightarrow> int" where
  "compare_lists (x # xs) (y # ys) = (if x \<noteq> y then int x - int y else compare_lists xs ys)"
| "compare_lists xs ys = int (length xs) - int (length ys)"

definition compareCodePoints :: "jstring \<Rightarrow> jstring \<Rightarrow> int" where
  "compareCodePoints left right = compare_lists (code_points left) (code_points right)"

text \<open>The order of \<open>sort()\<close> without a comparison: by code units.\<close>

definition compare_units :: "jstring \<Rightarrow> jstring \<Rightarrow> int" where
  "compare_units left right = compare_lists (map unat left) (map unat right)"

text \<open>\<open>Array.prototype.sort\<close>: stable.\<close>

fun sort_insert :: "('a \<Rightarrow> 'a \<Rightarrow> int) \<Rightarrow> 'a \<Rightarrow> 'a list \<Rightarrow> 'a list" where
  "sort_insert cmp x [] = [x]"
| "sort_insert cmp x (y # ys) = (if cmp x y \<le> 0 then x # y # ys else y # sort_insert cmp x ys)"

definition js_sort :: "('a \<Rightarrow> 'a \<Rightarrow> int) \<Rightarrow> 'a list \<Rightarrow> 'a list" where
  "js_sort cmp xs = foldr (sort_insert cmp) xs []"

definition starts_with :: "jstring \<Rightarrow> jstring \<Rightarrow> bool" where
  "starts_with s p \<longleftrightarrow> take (length p) s = p"

section \<open>Checks\<close>

definition MAX_POLICY_BYTES :: nat where "MAX_POLICY_BYTES = 1024 * 1024"
definition MAX_DEPTH :: nat where "MAX_DEPTH = 16"
definition MAX_CONTAINER_ENTRIES :: nat where "MAX_CONTAINER_ENTRIES = 1024"

definition record_v :: "data \<Rightarrow> kernel_error + (jstring \<times> data) list" where
  "record_v v = (case v of D_map m \<Rightarrow> Inr m | _ \<Rightarrow> invalidPolicy)"

definition exact :: "data \<Rightarrow> string list \<Rightarrow> kernel_error + (jstring \<times> data) list" where
  "exact v keys =
     bindR (record_v v) (\<lambda>m.
       if length m > MAX_CONTAINER_ENTRIES \<or> list_ex (\<lambda>(k, _). k \<notin> set (map js keys)) m then invalidPolicy else Inr m)"

definition required :: "(jstring \<times> data) list \<Rightarrow> string \<Rightarrow> kernel_error + data" where
  "required m k = (case map_of m (js k) of None \<Rightarrow> invalidPolicy | Some v \<Rightarrow> Inr v)"

definition has_own :: "(jstring \<times> data) list \<Rightarrow> string \<Rightarrow> bool" where
  "has_own m k \<longleftrightarrow> map_of m (js k) \<noteq> None"

definition integer :: "data \<Rightarrow> int \<Rightarrow> int \<Rightarrow> kernel_error + int" where
  "integer v minimum maximum =
     (case v of
        D_num x \<Rightarrow>
          (case x of
             Fin q \<Rightarrow> if \<not> num_isSafeInteger x \<or> q < of_int minimum \<or> q > of_int maximum then invalidPolicy else Inr \<lfloor>q\<rfloor>
           | _ \<Rightarrow> invalidPolicy)
      | _ \<Rightarrow> invalidPolicy)"

definition boundedText :: "data \<Rightarrow> nat \<Rightarrow> bool \<Rightarrow> kernel_error + jstring" where
  "boundedText v maximumBytes allowEmpty =
     (case v of
        D_str s \<Rightarrow>
          if \<not> allowEmpty \<and> s = [] \<or> policy_utf8ByteLength s > maximumBytes then invalidPolicy else Inr s
      | _ \<Rightarrow> invalidPolicy)"

definition boolean :: "data \<Rightarrow> kernel_error + bool" where
  "boolean v = (case v of D_bool b \<Rightarrow> Inr b | _ \<Rightarrow> invalidPolicy)"

definition string_v :: "data \<Rightarrow> nat \<Rightarrow> kernel_error + jstring" where
  "string_v v maximumBytes =
     (case v of
        D_str s \<Rightarrow> if s = [] \<or> policy_utf8ByteLength s > maximumBytes then invalidPolicy else Inr s
      | _ \<Rightarrow> invalidPolicy)"

definition literal :: "data \<Rightarrow> string list \<Rightarrow> kernel_error + jstring" where
  "literal v values =
     (case v of D_str s \<Rightarrow> if s \<notin> set (map js values) then invalidPolicy else Inr s | _ \<Rightarrow> invalidPolicy)"

definition array :: "data \<Rightarrow> nat \<Rightarrow> nat \<Rightarrow> kernel_error + data list" where
  "array v minimum maximum =
     (case v of
        D_list xs \<Rightarrow> if length xs < minimum \<or> length xs > maximum then invalidPolicy else Inr xs
      | _ \<Rightarrow> invalidPolicy)"

definition stringSet :: "data \<Rightarrow> string list \<Rightarrow> nat \<Rightarrow> nat \<Rightarrow> kernel_error + jstring list" where
  "stringSet v allowed minimum maximum =
     bindR (array v minimum maximum) (\<lambda>xs.
     bindR (mapE (\<lambda>item. literal item allowed) xs) (\<lambda>values.
       if \<not> distinct values then invalidPolicy else Inr (js_sort compareCodePoints values)))"

text \<open>\<open>/^[A-Za-z0-9][\w.-]*$/u\<close>.\<close>

definition identifier_test :: "jstring \<Rightarrow> bool" where
  "identifier_test s \<longleftrightarrow>
     (case s of [] \<Rightarrow> False
      | u # r \<Rightarrow> is_word u \<and> u \<noteq> 0x5F \<and> list_all (\<lambda>u. is_word u \<or> u \<in> set (js ''.-'')) r)"

definition identifier_v :: "data \<Rightarrow> nat \<Rightarrow> kernel_error + jstring" where
  "identifier_v v maximumBytes =
     bindR (string_v v maximumBytes) (\<lambda>result. if identifier_test result then Inr result else invalidPolicy)"

lemma mapE_cong [fundef_cong]:
  "xs = ys \<Longrightarrow> (\<And>x. x \<in> set ys \<Longrightarrow> f x = g x) \<Longrightarrow> mapE f xs = mapE g ys"
  by (induction xs arbitrary: ys) (auto split: sum.split)

fun inspectJsonShape :: "nat \<Rightarrow> data \<Rightarrow> kernel_error + unit" where
  "inspectJsonShape depth v =
     (if depth > MAX_DEPTH then invalidPolicy
      else case v of
          D_null \<Rightarrow> Inr () | D_bool _ \<Rightarrow> Inr () | D_str _ \<Rightarrow> Inr ()
        | D_num x \<Rightarrow> check (num_isFinite x)
        | D_list xs \<Rightarrow>
            (if length xs > MAX_CONTAINER_ENTRIES then invalidPolicy
             else bindR (mapE (inspectJsonShape (depth + 1)) xs) (\<lambda>_. Inr ()))
        | D_map m \<Rightarrow>
            (if length m > MAX_CONTAINER_ENTRIES then invalidPolicy
             else bindR (mapE (\<lambda>v. inspectJsonShape (depth + 1) v) (map snd m)) (\<lambda>_. Inr ()))
        | _ \<Rightarrow> invalidPolicy)"

declare inspectJsonShape.simps [simp del]

section \<open>Lemmas on the checks\<close>

lemma bindR_simps [simp]: "bindR (Inr x) f = f x" "bindR (Inl e) f = Inl e"
  by (simp_all add: bindR_def)

lemma bindR_Inr: "bindR r f = Inr y \<longleftrightarrow> (\<exists>x. r = Inr x \<and> f x = Inr y)"
  by (cases r) auto

lemma mapR_Inr [simp]: "mapR f (Inr x) = Inr (f x)" "mapR f (Inl e) = Inl e"
  by (simp_all add: mapR_def)

lemma mapE_Inr: "mapE f xs = Inr ys \<longleftrightarrow> list_all2 (\<lambda>x y. f x = Inr y) xs ys"
proof (induction xs arbitrary: ys)
  case (Cons x xs)
  show ?case
    by (cases "f x"; cases "mapE f xs"; cases ys) (auto simp: Cons [symmetric])
qed auto

lemma js_inject [simp]: "js s = js t \<longleftrightarrow> s = t"
proof
  assume "js s = js t"
  moreover have "inj (of_char :: char \<Rightarrow> u16)"
  proof (rule injI)
    fix c d :: char
    assume "(of_char c :: u16) = of_char d"
    then have "unat (of_nat (of_char c) :: u16) = unat (of_nat (of_char d) :: u16)"
      by (simp only: of_nat_of_char)
    moreover have "of_char e < (2 :: nat) ^ 16" for e by (rule less_trans [of _ 256]) simp_all
    ultimately have "(of_char c :: nat) = of_char d"
      by (simp add: unsigned_of_nat take_bit_nat_eq_self del: of_nat_of_char)
    then show "c = d" by simp
  qed
  ultimately show "s = t" by (simp add: js_def inj_map_eq_map)
qed simp

lemma js_member [simp]: "js s \<in> set (map js ks) \<longleftrightarrow> s \<in> set ks" "js s \<in> js ` K \<longleftrightarrow> s \<in> K"
  by (auto simp: image_iff)

lemma set_sort_insert [simp]: "set (sort_insert cmp x xs) = insert x (set xs)"
  by (induction xs) auto

lemma mset_js_sort [simp]: "mset (js_sort cmp xs) = mset xs"
proof -
  have "mset (sort_insert cmp x ys) = add_mset x (mset ys)" for x ys by (induction ys) auto
  then show ?thesis by (induction xs) (simp_all add: js_sort_def)
qed

lemma set_js_sort [simp]: "set (js_sort cmp xs) = set xs"
  by (metis mset_js_sort set_mset_mset)

lemma distinct_js_sort [simp]: "distinct (js_sort cmp xs) = distinct xs"
  by (metis mset_js_sort mset_eq_imp_distinct_iff)

lemma length_js_sort [simp]: "length (js_sort cmp xs) = length xs"
  by (metis mset_js_sort size_mset)

end
