(* ===== verification/Capability_Constraints.thy ===== *)
theory Capability_Constraints
  imports Kernel_Validation
begin

text \<open>
  The constraints of a capability and their normal form: \<open>runtime/src/kernel/capability-constraints.ts\<close> with
  \<open>process-capability-constraints.ts\<close>, \<open>storage-capability-constraints.ts\<close>, \<open>storage-policy.ts\<close> and
  \<open>filesystem-path-segment.ts\<close> of the capability packages.  What the platform provides is a parameter:
  \<open>new URL\<close>, \<open>localeCompare\<close>, \<open>toLowerCase\<close> and the number format of JSON.
\<close>

section \<open>The platform\<close>

record url_parts =
  u_origin :: jstring
  u_protocol :: jstring
  u_username :: jstring
  u_password :: jstring
  u_hostname :: jstring
  u_port :: jstring
  u_pathname :: jstring
  u_search :: jstring
  u_hash :: jstring

record platform =
  new_url :: "jstring \<Rightarrow> url_parts option"
  locale_compare :: "jstring \<Rightarrow> jstring \<Rightarrow> int"
  lower_case :: "jstring \<Rightarrow> jstring"
  number_text :: "rat \<Rightarrow> jstring"

section \<open>Path segments\<close>

text \<open>\<open>%XX\<close> with upper case digits.\<close>

fun upper_octet :: "jstring \<Rightarrow> (nat \<times> jstring) option" where
  "upper_octet (p # h # l # r) =
     (if p = ch CHR ''%'' \<and> h \<in> set hex_digits \<and> l \<in> set hex_digits then octet (p # h # l # r) else None)"
| "upper_octet _ = None"

text \<open>The octets an encoded character starts with, and the ranges of those that follow.\<close>

definition encoded_ascii :: "nat list" where
  "encoded_ascii = [0x01..<0x21] @ [0x22..<0x27] @ [0x2B, 0x2C] @ [0x3A..<0x41] @ [0x5B, 0x5D, 0x5E, 0x60, 0x7B, 0x7C, 0x7D, 0x7F]"

definition lead_ranges :: "nat \<Rightarrow> (nat \<times> nat) list option" where
  "lead_ranges b =
     (if b \<in> set encoded_ascii then Some []
      else if 0xC2 \<le> b \<and> b \<le> 0xDF then Some [(0x80, 0xBF)]
      else if b = 0xE0 then Some [(0xA0, 0xBF), (0x80, 0xBF)]
      else if b = 0xED then Some [(0x80, 0x9F), (0x80, 0xBF)]
      else if 0xE1 \<le> b \<and> b \<le> 0xEF then Some [(0x80, 0xBF), (0x80, 0xBF)]
      else if b = 0xF0 then Some [(0x90, 0xBF), (0x80, 0xBF), (0x80, 0xBF)]
      else if 0xF1 \<le> b \<and> b \<le> 0xF3 then Some [(0x80, 0xBF), (0x80, 0xBF), (0x80, 0xBF)]
      else if b = 0xF4 then Some [(0x80, 0x8F), (0x80, 0xBF), (0x80, 0xBF)]
      else None)"

fun octets_within :: "(nat \<times> nat) list \<Rightarrow> jstring \<Rightarrow> jstring option" where
  "octets_within [] s = Some s"
| "octets_within ((lo, hi) # rs) s =
     (case upper_octet s of
        Some (b, r) \<Rightarrow> if lo \<le> b \<and> b \<le> hi then octets_within rs r else None
      | None \<Rightarrow> None)"

lemma upper_octet_shorter: "upper_octet s = Some (b, r) \<Longrightarrow> length r < length s"
  by (cases s rule: upper_octet.cases) (auto split: if_splits option.splits)

lemma octets_within_shorter: "octets_within rs s = Some r \<Longrightarrow> length r \<le> length s"
  by (induction rs arbitrary: s) (fastforce split: option.splits if_splits dest: upper_octet_shorter)+

definition segment_char :: "u16 \<Rightarrow> bool" where
  "segment_char u \<longleftrightarrow> is_word u \<or> u \<in> set (js [CHR ''!'', CHR 0x27, CHR ''('', CHR '')'', CHR ''*'', CHR ''.'', CHR ''~'', CHR ''-''])"

text \<open>The repeated group of \<open>canonicalPattern\<close>, and the number of repetitions in \<open>byteCountPattern\<close>.\<close>

function canonical_text :: "jstring \<Rightarrow> bool" where
  "canonical_text s =
     (case s of
        [] \<Rightarrow> True
      | u # r \<Rightarrow>
          if segment_char u then canonical_text r
          else (case upper_octet s of
                  None \<Rightarrow> False
                | Some (b, r') \<Rightarrow>
                    (case lead_ranges b of
                       None \<Rightarrow> False
                     | Some rs \<Rightarrow> (case octets_within rs r' of None \<Rightarrow> False | Some r'' \<Rightarrow> canonical_text r''))))"
  by pat_completeness auto
termination
  by (relation "measure length") (auto dest!: upper_octet_shorter octets_within_shorter)

declare canonical_text.simps [simp del]

function byte_count :: "jstring \<Rightarrow> nat option" where
  "byte_count s =
     (case s of
        [] \<Rightarrow> Some 0
      | u # r \<Rightarrow>
          if segment_char u then map_option Suc (byte_count r)
          else (case upper_octet s of None \<Rightarrow> None | Some (b, r') \<Rightarrow> map_option Suc (byte_count r')))"
  by pat_completeness auto
termination by (relation "measure length") (auto dest!: upper_octet_shorter)

declare byte_count.simps [simp del]

definition canonical_test :: "jstring \<Rightarrow> bool" where
  "canonical_test s \<longleftrightarrow> s \<noteq> [] \<and> s \<noteq> js ''.'' \<and> s \<noteq> js ''..'' \<and> canonical_text s"

definition byteCount_test :: "jstring \<Rightarrow> bool" where
  "byteCount_test s \<longleftrightarrow> (case byte_count s of None \<Rightarrow> False | Some n \<Rightarrow> 1 \<le> n \<and> n \<le> 255)"

definition check_segment :: "jstring \<Rightarrow> kernel_error + unit" where
  "check_segment segment =
     (case decodeURIComponent segment of
        None \<Rightarrow> invalidPolicy
      | Some decoded \<Rightarrow>
          if decoded = js ''.'' \<or> decoded = js ''..'' \<or> ch CHR ''/'' \<in> set decoded \<or> ch (CHR 0x5C) \<in> set decoded \<or> 0 \<in> set decoded
          then invalidPolicy
          else (case encodeURIComponent decoded of None \<Rightarrow> Inl Uri_error | Some e \<Rightarrow> check (e = segment)))"

definition HOLO_SCHEME :: jstring where "HOLO_SCHEME = js ''holo-fs://''"

definition canonicalVirtualPath :: "data \<Rightarrow> kernel_error + jstring" where
  "canonicalVirtualPath v =
     bindR (string_v v 4096) (\<lambda>input.
       if \<not> starts_with input HOLO_SCHEME \<or> ch (CHR 0x5C) \<in> set input \<or> 0 \<in> set input \<or> ch CHR ''?'' \<in> set input \<or>
          ch CHR ''#'' \<in> set input
       then invalidPolicy
       else let rem = drop (length HOLO_SCHEME) input
            in if ch CHR ''/'' \<notin> set rem then invalidPolicy
               else bindR (identifier_v (D_str (takeWhile (\<lambda>u. u \<noteq> ch CHR ''/'') rem)) 64) (\<lambda>rootId.
                 let path = drop 1 (dropWhile (\<lambda>u. u \<noteq> ch CHR ''/'') rem);
                     segments = (if path = [] then [] else split_slash path)
                 in if list_ex (\<lambda>s. s = [] \<or> s = js ''.'' \<or> s = js ''..'') segments then invalidPolicy
                    else bindR (mapE check_segment segments) (\<lambda>_.
                      Inr (HOLO_SCHEME @ rootId @ js ''/'' @ join_slash segments))))"

definition canonicalFilesystemPrefixSegment :: "data \<Rightarrow> kernel_error + jstring" where
  "canonicalFilesystemPrefixSegment v =
     bindR (string_v v 765) (\<lambda>segment.
       if \<not> canonical_test segment \<or> \<not> byteCount_test segment then invalidPolicy
       else bindR (canonicalVirtualPath (D_str (js ''holo-fs://segment/'' @ segment))) (\<lambda>_. Inr segment))"

section \<open>Limits and sets\<close>

definition limits_of :: "data \<Rightarrow> string list \<Rightarrow> kernel_error + data" where
  "limits_of v keys =
     bindR (exact v keys) (\<lambda>input.
     bindR (mapE (\<lambda>k. bindR (required input k) (\<lambda>x. mapR (\<lambda>n. (k, num n)) (integer x 0 (4 * 1024 * 1024 * 1024)))) keys) (\<lambda>m.
       Inr (object m)))"

definition identifiers :: "data \<Rightarrow> nat \<Rightarrow> kernel_error + data" where
  "identifiers v maximum =
     bindR (array v 0 maximum) (\<lambda>xs.
     bindR (mapE (\<lambda>item. identifier_v item 128) xs) (\<lambda>ids.
       let values = js_sort compare_units ids
       in if \<not> distinct values then invalidPolicy else Inr (texts values)))"

section \<open>File system\<close>

definition FS_RIGHTS :: "string list" where
  "FS_RIGHTS = [''chmod'', ''create'', ''delete'', ''list'', ''move'', ''read'', ''watch'', ''write'']"

definition FS_LIMITS :: "string list" where
  "FS_LIMITS = [''maxDirectoryEntries'', ''maxOpenHandles'', ''maxQueuedEvents'', ''maxReadBytes'', ''maxWatchers'', ''maxWriteBytes'']"

definition fs_root :: "data \<Rightarrow> kernel_error + data" where
  "fs_root rootValue =
     bindR (exact rootValue [''pathPrefixSegments'', ''rights'', ''rootId'', ''symlinks'']) (\<lambda>root.
     bindR (required root ''pathPrefixSegments'') (\<lambda>segs.
     bindR (array segs 0 256) (\<lambda>segs.
     bindR (mapE canonicalFilesystemPrefixSegment segs) (\<lambda>pathPrefixSegments.
     bindR (required root ''rights'') (\<lambda>rights.
     bindR (stringSet rights FS_RIGHTS 1 (length FS_RIGHTS)) (\<lambda>rights.
     bindR (required root ''rootId'') (\<lambda>rootId.
     bindR (identifier_v rootId 64) (\<lambda>rootId.
     bindR (required root ''symlinks'') (\<lambda>symlinks.
     bindR (literal symlinks [''deny'', ''withinRoot'']) (\<lambda>symlinks.
       Inr (object [(''pathPrefixSegments'', texts pathPrefixSegments), (''rights'', texts rights),
                    (''rootId'', D_str rootId), (''symlinks'', D_str symlinks)])))))))))))"

definition root_order :: "platform \<Rightarrow> data \<Rightarrow> data \<Rightarrow> int" where
  "root_order P left right =
     (let root = locale_compare P (the_text (field left ''rootId'')) (the_text (field right ''rootId''))
      in if root = 0
         then locale_compare P (join_slash (the_texts (field left ''pathPrefixSegments'')))
                (join_slash (the_texts (field right ''pathPrefixSegments'')))
         else root)"

text \<open>\<open>`${root.rootId}\0${root.pathPrefixSegments.join('\0')}`\<close>.\<close>

fun join_nul :: "jstring list \<Rightarrow> jstring" where
  "join_nul [] = []"
| "join_nul [x] = x"
| "join_nul (x # y # r) = x @ 0 # join_nul (y # r)"

definition root_identity :: "data \<Rightarrow> jstring" where
  "root_identity r = the_text (field r ''rootId'') @ 0 # join_nul (the_texts (field r ''pathPrefixSegments''))"

definition filesystem_constraints :: "platform \<Rightarrow> data \<Rightarrow> kernel_error + data" where
  "filesystem_constraints P v =
     bindR (exact v [''limits'', ''roots'']) (\<lambda>input.
     bindR (required input ''roots'') (\<lambda>roots.
     bindR (array roots 1 64) (\<lambda>roots.
     bindR (mapE fs_root roots) (\<lambda>roots.
       let roots = js_sort (root_order P) roots
       in if \<not> distinct (map root_identity roots) then invalidPolicy
          else bindR (required input ''limits'') (\<lambda>limits.
               bindR (limits_of limits FS_LIMITS) (\<lambda>limits.
                 Inr (object [(''limits'', limits), (''roots'', D_list roots)])))))))"

section \<open>Network\<close>

definition NETWORK_LIMITS :: "string list" where
  "NETWORK_LIMITS = [''maxChunkBytes'', ''maxConcurrentConnections'', ''maxHeaderBytes'', ''maxHeaders'', ''maxRedirects'',
     ''maxRequestBodyBytes'', ''maxResponseBodyBytes'', ''maxUrlBytes'', ''socketTimeoutMs'']"

definition origin_item :: "platform \<Rightarrow> data \<Rightarrow> kernel_error + jstring" where
  "origin_item P item =
     (case item of
        D_str s \<Rightarrow>
          (case new_url P s of
             None \<Rightarrow> invalidPolicy
           | Some url \<Rightarrow>
               if u_origin url \<noteq> s \<or> u_pathname url \<noteq> js ''/'' \<or> u_protocol url \<notin> {js ''http:'', js ''https:''}
               then invalidPolicy else Inr s)
      | _ \<Rightarrow> invalidPolicy)"

text \<open>\<open>new URL(origin).protocol.slice(0, -1)\<close>.\<close>

definition scheme_of :: "platform \<Rightarrow> jstring \<Rightarrow> kernel_error + jstring" where
  "scheme_of P s = (case new_url P s of None \<Rightarrow> Inl Type_error | Some url \<Rightarrow> Inr (butlast (u_protocol url)))"

definition network_constraints :: "platform \<Rightarrow> data \<Rightarrow> string \<Rightarrow> kernel_error + data" where
  "network_constraints P v expectedMode =
     bindR (exact v [''allowPrivateNetwork'', ''inspectRequestBodyBytes'', ''limits'', ''mode'', ''origins'', ''schemes'']) (\<lambda>input.
     bindR (required input ''mode'') (\<lambda>mode.
     bindR (check (mode = text_v expectedMode)) (\<lambda>_.
     bindR (required input ''origins'') (\<lambda>origins.
     bindR (array origins 0 64) (\<lambda>origins.
     bindR (mapE (origin_item P) origins) (\<lambda>origins.
     let origins = js_sort compare_units origins in
     bindR (check (distinct origins)) (\<lambda>_.
     bindR (required input ''schemes'') (\<lambda>schemes.
     bindR (stringSet schemes [''http'', ''https''] 0 2) (\<lambda>schemes.
     bindR (mapE (scheme_of P) origins) (\<lambda>used.
     bindR (check (\<not> list_ex (\<lambda>s. s \<notin> set schemes) used)) (\<lambda>_.
     bindR (required input ''allowPrivateNetwork'') (\<lambda>private.
     bindR (boolean private) (\<lambda>private.
     bindR (check (\<not> (expectedMode = ''mockOnly'' \<and> private))) (\<lambda>_.
     bindR (required input ''inspectRequestBodyBytes'') (\<lambda>inspect.
     bindR (integer inspect 0 (1024 * 1024)) (\<lambda>inspect.
     bindR (required input ''limits'') (\<lambda>limits.
     bindR (limits_of limits NETWORK_LIMITS) (\<lambda>limits.
       Inr (object [(''allowPrivateNetwork'', D_bool private), (''inspectRequestBodyBytes'', num inspect), (''limits'', limits),
                    (''mode'', text_v expectedMode), (''origins'', texts origins), (''schemes'', texts schemes)])))))))))))))))))))"

section \<open>Device and system information\<close>

definition DEVICE_PRECISION :: "string list" where "DEVICE_PRECISION = [''coarse'', ''standard'', ''exact'']"
definition SYSTEM_PRECISION :: "string list" where "SYSTEM_PRECISION = [''redacted'', ''coarse'', ''exact'']"

definition DEVICE_OPERATIONS :: "string list" where
  "DEVICE_OPERATIONS =
     [''device.connectivity.cellular.state.read'', ''device.connectivity.read'', ''device.connectivity.wifi.identity.read'',
      ''device.connectivity.wifi.state.read'', ''device.display.read'', ''device.events.subscribe'', ''device.form-factor.read'',
      ''device.input.read'', ''device.lifecycle.read'', ''device.media.capabilities.read'', ''device.power.read'',
      ''device.security.capabilities.read'', ''device.sensor.capabilities.read'', ''device.summary.read'', ''device.thermal.read'']"

definition SYSTEM_INFORMATION_FIELDS :: "string list" where
  "SYSTEM_INFORMATION_FIELDS =
     [''os.arch'', ''os.availableParallelism'', ''os.cpus'', ''os.freemem'', ''os.homedir'', ''os.hostname'', ''os.loadavg'',
      ''os.machine'', ''os.networkInterfaces'', ''os.platform'', ''os.release'', ''os.tmpdir'', ''os.totalmem'', ''os.type'',
      ''os.uptime'', ''os.userInfo'', ''os.version'', ''process.cwd'', ''process.env'', ''process.execPath'', ''process.pid'']"

definition device_constraints :: "data \<Rightarrow> kernel_error + data" where
  "device_constraints v =
     bindR (exact v [''maxPrecision'', ''maxPrivacyTier'', ''maxQueuedEvents'', ''operations'']) (\<lambda>input.
     bindR (required input ''maxPrecision'') (\<lambda>precision.
     bindR (literal precision DEVICE_PRECISION) (\<lambda>precision.
     bindR (required input ''maxPrivacyTier'') (\<lambda>tier.
     bindR (integer tier 0 3) (\<lambda>tier.
     bindR (required input ''maxQueuedEvents'') (\<lambda>queued.
     bindR (integer queued 0 4096) (\<lambda>queued.
     bindR (required input ''operations'') (\<lambda>operations.
     bindR (stringSet operations DEVICE_OPERATIONS 1 (length DEVICE_OPERATIONS)) (\<lambda>operations.
       Inr (object [(''maxPrecision'', D_str precision), (''maxPrivacyTier'', num tier), (''maxQueuedEvents'', num queued),
                    (''operations'', texts operations)]))))))))))"

definition system_constraints :: "data \<Rightarrow> kernel_error + data" where
  "system_constraints v =
     bindR (exact v [''fields'', ''maxPrecision'', ''modes'']) (\<lambda>input.
     bindR (required input ''fields'') (\<lambda>fields.
     bindR (stringSet fields SYSTEM_INFORMATION_FIELDS 1 (length SYSTEM_INFORMATION_FIELDS)) (\<lambda>fields.
     bindR (required input ''maxPrecision'') (\<lambda>precision.
     bindR (literal precision SYSTEM_PRECISION) (\<lambda>precision.
     bindR (required input ''modes'') (\<lambda>modes.
     bindR (stringSet modes [''real'', ''redacted'', ''synthetic''] 1 3) (\<lambda>modes.
       Inr (object [(''fields'', texts fields), (''maxPrecision'', D_str precision), (''modes'', texts modes)]))))))))"

section \<open>Processes\<close>

definition PROCESS_LIMITS :: "string list" where
  "PROCESS_LIMITS = [''maxConcurrentProcesses'', ''maxExecutionTimeMs'', ''maxOpenPipes'', ''maxProcessTreeDepth'',
     ''maxStderrBytes'', ''maxStdinBytes'', ''maxStdoutBytes'', ''maxTotalProcesses'', ''maxWritableRootfsBytes'']"

definition hostname_of :: "platform \<Rightarrow> data \<Rightarrow> kernel_error + jstring" where
  "hostname_of P v =
     (case v of
        D_str s \<Rightarrow>
          if s = [] \<or> length s > 253 then invalidPolicy
          else let normalized = lower_case P s
               in (case new_url P (js ''http://'' @ normalized @ js ''/'') of
                     None \<Rightarrow> invalidPolicy
                   | Some url \<Rightarrow>
                       if u_hostname url \<noteq> normalized \<or> u_port url \<noteq> [] \<or> u_username url \<noteq> [] \<or> u_password url \<noteq> []
                       then invalidPolicy else Inr normalized)
      | _ \<Rightarrow> invalidPolicy)"

definition port_list :: "data \<Rightarrow> kernel_error + int list" where
  "port_list v =
     bindR (array v 1 64) (\<lambda>xs.
     bindR (mapE (\<lambda>port. integer port 1 65535) xs) (\<lambda>ports.
       let ports = js_sort (\<lambda>left right. left - right) ports
       in if \<not> distinct ports then invalidPolicy else Inr ports))"

definition endpoint_constraints :: "platform \<Rightarrow> data \<Rightarrow> kernel_error + data" where
  "endpoint_constraints P v =
     bindR (exact v [''hostname'', ''ports'', ''transport'']) (\<lambda>endpoint.
     bindR (required endpoint ''ports'') (\<lambda>ports.
     bindR (port_list ports) (\<lambda>ports.
     bindR (required endpoint ''hostname'') (\<lambda>host.
     bindR (hostname_of P host) (\<lambda>host.
     bindR (required endpoint ''transport'') (\<lambda>transport.
     bindR (literal transport [''tcp'', ''tls'', ''udp'']) (\<lambda>transport.
       Inr (object [(''hostname'', D_str host), (''ports'', D_list (map num ports)), (''transport'', D_str transport)]))))))))"

text \<open>\<open>`${endpoint.transport}\0${endpoint.hostname}`\<close>.\<close>

definition endpoint_identity :: "data \<Rightarrow> jstring" where
  "endpoint_identity endpoint = the_text (field endpoint ''transport'') @ 0 # the_text (field endpoint ''hostname'')"

text \<open>\<open>value ?? fallback\<close>.\<close>

definition or_else :: "data \<Rightarrow> data \<Rightarrow> data" where
  "or_else v fallback = (if v = D_undefined \<or> v = D_null then fallback else v)"

definition process_network :: "platform \<Rightarrow> data \<Rightarrow> kernel_error + data" where
  "process_network P v =
     bindR (exact v [''endpoints'', ''maxSockets'', ''privateNetwork'']) (\<lambda>input.
     bindR (required input ''endpoints'') (\<lambda>endpoints.
     bindR (array endpoints 0 256) (\<lambda>endpoints.
     bindR (mapE (endpoint_constraints P) endpoints) (\<lambda>endpoints.
     let endpoints = js_sort (\<lambda>l r. locale_compare P (endpoint_identity l) (endpoint_identity r)) endpoints in
     bindR (check (distinct (map endpoint_identity endpoints))) (\<lambda>_.
     bindR (required input ''maxSockets'') (\<lambda>sockets.
     bindR (integer sockets 1 256) (\<lambda>sockets.
     bindR (literal (or_else (key input ''privateNetwork'') (text_v ''deny'')) [''allow'', ''deny'']) (\<lambda>private.
       Inr (object [(''endpoints'', D_list endpoints), (''maxSockets'', num sockets), (''privateNetwork'', D_str private)])))))))))"

definition SIGNALS :: "string list" where "SIGNALS = [''SIGINT'', ''SIGKILL'', ''SIGTERM'']"

definition process_constraints :: "platform \<Rightarrow> string \<Rightarrow> data \<Rightarrow> kernel_error + data" where
  "process_constraints P name v =
     (if name = ''host.process.network'' then process_network P v
      else bindR (exact v
        (if name = ''host.process.execute'' then [''executableIds'', ''limits'', ''rootIds'']
         else if name = ''host.process.shell'' then [''executableIds'']
         else if name = ''host.process.signal'' then [''signals'']
         else [''executableIds'', ''maxProcesses'', ''signals''])) (\<lambda>input.
        if name = ''host.process.execute'' then
          bindR (required input ''executableIds'') (\<lambda>executables.
          bindR (identifiers executables 256) (\<lambda>executables.
          bindR (required input ''limits'') (\<lambda>limits.
          bindR (limits_of limits PROCESS_LIMITS) (\<lambda>limits.
          bindR (required input ''rootIds'') (\<lambda>roots.
          bindR (identifiers roots 64) (\<lambda>roots.
            Inr (object [(''executableIds'', executables), (''limits'', limits), (''rootIds'', roots)])))))))
        else if name = ''host.process.shell'' then
          bindR (required input ''executableIds'') (\<lambda>executables.
          bindR (identifiers executables 256) (\<lambda>executables.
            Inr (object [(''executableIds'', executables)])))
        else if name = ''host.process.signal'' then
          bindR (required input ''signals'') (\<lambda>signals.
          bindR (stringSet signals SIGNALS 0 3) (\<lambda>signals.
            Inr (object [(''signals'', texts signals)])))
        else
          bindR (required input ''executableIds'') (\<lambda>executables.
          bindR (identifiers executables 256) (\<lambda>executables.
          bindR (required input ''maxProcesses'') (\<lambda>processes.
          bindR (integer processes 0 100000) (\<lambda>processes.
          bindR (required input ''signals'') (\<lambda>signals.
          bindR (stringSet signals SIGNALS 0 3) (\<lambda>signals.
            Inr (object [(''executableIds'', executables), (''maxProcesses'', num processes), (''signals'', texts signals)])))))))))"

section \<open>Storage\<close>

definition STORAGE_OPERATIONS :: "string list" where
  "STORAGE_OPERATIONS = [''storage.kv.delete'', ''storage.kv.get'', ''storage.kv.list'', ''storage.kv.set'',
     ''storage.sqlite.execute'', ''storage.sqlite.query'', ''storage.sqlite.transaction'']"

definition STORAGE_LIMIT_MAXIMA :: "(string \<times> int) list" where
  "STORAGE_LIMIT_MAXIMA =
     [(''maxDatabaseNameBytes'', 128), (''maxDatabaseBytes'', 32 * 1024 * 1024), (''maxDatabases'', 16), (''maxKeyBytes'', 1024),
      (''maxKeysPerList'', 1024), (''maxPendingOperations'', 128), (''maxRowsPerQuery'', 1024), (''maxSqlBytes'', 64 * 1024),
      (''maxSqlInstructions'', 10000000), (''maxTransactionStatements'', 256), (''maxValueBytes'', 1024 * 1024)]"

definition scalarText :: "data \<Rightarrow> nat \<Rightarrow> bool \<Rightarrow> kernel_error + jstring" where
  "scalarText v maximumBytes allowEmpty =
     bindR (boundedText v maximumBytes allowEmpty) (\<lambda>s.
       if list_ex (\<lambda>c. is_high c \<or> is_low c) (code_points s) then invalidPolicy else Inr s)"

definition sortedUnique :: "data \<Rightarrow> nat \<Rightarrow> nat \<Rightarrow> (data \<Rightarrow> kernel_error + jstring) \<Rightarrow> kernel_error + jstring list" where
  "sortedUnique values minimum maximum item =
     bindR (array values minimum maximum) (\<lambda>xs.
     bindR (mapE item xs) (\<lambda>entries.
       if \<not> distinct entries then invalidPolicy else Inr (js_sort compareCodePoints entries)))"

definition normalizeStorageLimits :: "data \<Rightarrow> kernel_error + data" where
  "normalizeStorageLimits v =
     bindR (exact v (map fst STORAGE_LIMIT_MAXIMA)) (\<lambda>input.
     bindR (mapE (\<lambda>(k, maximum). bindR (required input k) (\<lambda>x. mapR (\<lambda>n. (k, num n)) (integer x 1 maximum))) STORAGE_LIMIT_MAXIMA) (\<lambda>m.
       Inr (object m)))"

definition kv_operation :: "jstring \<Rightarrow> bool" where "kv_operation s \<longleftrightarrow> starts_with s (js ''storage.kv.'')"
definition sqlite_operation :: "jstring \<Rightarrow> bool" where "sqlite_operation s \<longleftrightarrow> starts_with s (js ''storage.sqlite.'')"

definition storage_namespace :: "data \<Rightarrow> data \<Rightarrow> kernel_error + data" where
  "storage_namespace limits v =
     bindR (exact v [''databases'', ''keyPrefixes'', ''namespaceId'', ''operations'']) (\<lambda>namespace.
     bindR (required namespace ''operations'') (\<lambda>operations.
     bindR (sortedUnique operations 1 (length STORAGE_OPERATIONS) (\<lambda>item. literal item STORAGE_OPERATIONS)) (\<lambda>operations.
     bindR (required namespace ''keyPrefixes'') (\<lambda>keyPrefixes.
     bindR (sortedUnique keyPrefixes 0 64 (\<lambda>item. scalarText item (nat \<lfloor>number (field limits ''maxKeyBytes'')\<rfloor>) True)) (\<lambda>keyPrefixes.
     bindR (required namespace ''databases'') (\<lambda>databases.
     bindR (sortedUnique databases 0 64 (\<lambda>item. scalarText item (nat \<lfloor>number (field limits ''maxDatabaseNameBytes'')\<rfloor>) False)) (\<lambda>databases.
       if list_ex kv_operation operations \<and> keyPrefixes = [] then invalidPolicy
       else if list_ex sqlite_operation operations \<and> databases = [] then invalidPolicy
       else bindR (required namespace ''namespaceId'') (\<lambda>namespaceId.
            bindR (identifier_v namespaceId 128) (\<lambda>namespaceId.
              Inr (object [(''databases'', texts databases), (''keyPrefixes'', texts keyPrefixes),
                           (''namespaceId'', D_str namespaceId), (''operations'', texts operations)]))))))))))"

text \<open>\<open>JSON.stringify(namespaces)\<close>; the namespaces hold strings and lists of strings only.\<close>

fun plain_value :: "data \<Rightarrow> native_value" where
  "plain_value (D_str s) = J_str s"
| "plain_value (D_bool b) = J_bool b"
| "plain_value (D_num (Fin q)) = J_num q"
| "plain_value (D_list xs) = J_list (map plain_value xs)"
| "plain_value (D_map m) = J_map (map (\<lambda>p. (fst p, plain_value (snd p))) m)"
| "plain_value _ = J_null"

definition normalizeStorageSandbox :: "platform \<Rightarrow> data \<Rightarrow> kernel_error + data" where
  "normalizeStorageSandbox P v =
     bindR (exact v [''access'', ''limits'', ''namespaces'']) (\<lambda>input.
     bindR (required input ''access'') (\<lambda>access.
     bindR (literal access [''none'', ''sandboxed'']) (\<lambda>access.
       if access = js ''none'' then
         (if length input \<noteq> 1 then invalidPolicy else Inr (object [(''access'', D_str access)]))
       else
         bindR (required input ''limits'') (\<lambda>limits.
         bindR (normalizeStorageLimits limits) (\<lambda>limits.
         bindR (required input ''namespaces'') (\<lambda>namespaces.
         bindR (array namespaces 1 64) (\<lambda>namespaces.
         bindR (mapE (storage_namespace limits) namespaces) (\<lambda>namespaces.
         let namespaces =
           js_sort (\<lambda>l r. compareCodePoints (the_text (field l ''namespaceId'')) (the_text (field r ''namespaceId''))) namespaces in
         bindR (check (distinct (map (\<lambda>item. the_text (field item ''namespaceId'')) namespaces))) (\<lambda>_.
         bindR (check (\<not> policy_utf8ByteLength (stringify (number_text P) (J_list (map plain_value namespaces))) > 256 * 1024)) (\<lambda>_.
           Inr (object [(''access'', D_str access), (''limits'', limits), (''namespaces'', D_list namespaces)]))))))))))) "

definition storage_constraints :: "platform \<Rightarrow> data \<Rightarrow> kernel_error + data" where
  "storage_constraints P v =
     bindR (exact v [''databases'', ''keyPrefixes'', ''limits'', ''namespaceId'', ''operations'']) (\<lambda>input.
     bindR (required input ''limits'') (\<lambda>limits.
     bindR (required input ''databases'') (\<lambda>databases.
     bindR (required input ''keyPrefixes'') (\<lambda>keyPrefixes.
     bindR (required input ''namespaceId'') (\<lambda>namespaceId.
     bindR (required input ''operations'') (\<lambda>operations.
     bindR (normalizeStorageSandbox P (object [(''access'', text_v ''sandboxed''), (''limits'', limits),
       (''namespaces'', D_list [object [(''databases'', databases), (''keyPrefixes'', keyPrefixes),
                                        (''namespaceId'', namespaceId), (''operations'', operations)]])])) (\<lambda>normalized.
       if field normalized ''access'' \<noteq> text_v ''sandboxed'' then invalidPolicy
       else Inr (D_map (entries (hd (items (field normalized ''namespaces''))) @ [(js ''limits'', field normalized ''limits'')])))))))))"

section \<open>The constraints of a capability\<close>

definition begins :: "string \<Rightarrow> string \<Rightarrow> bool" where
  "begins name p \<longleftrightarrow> take (length p) name = p"

definition normalizeCapabilityConstraints :: "platform \<Rightarrow> string \<Rightarrow> data \<Rightarrow> kernel_error + data" where
  "normalizeCapabilityConstraints P name v =
     (if name = ''host.fs'' then filesystem_constraints P v
      else if name = ''host.network.http'' then network_constraints P v ''restricted''
      else if name = ''host.network.mock'' then network_constraints P v ''mockOnly''
      else if begins name ''host.device.'' then device_constraints v
      else if begins name ''host.system.'' then system_constraints v
      else if begins name ''host.process.'' then process_constraints P name v
      else if name = ''host.storage'' then storage_constraints P v
      else bindR (exact v (if name = ''host.storage.credential'' then [''stores'', ''usages''] else [''maxReadBytes'', ''maxReads''])) (\<lambda>input.
        if name = ''host.storage.credential'' then
          bindR (required input ''stores'') (\<lambda>stores.
          bindR (identifiers stores 64) (\<lambda>stores.
          bindR (required input ''usages'') (\<lambda>usages.
          bindR (stringSet usages [''gitHttp'', ''httpAuthorization''] 1 2) (\<lambda>usages.
            Inr (object [(''stores'', stores), (''usages'', texts usages)])))))
        else
          bindR (required input ''maxReadBytes'') (\<lambda>bytes.
          bindR (integer bytes 0 (1024 * 1024)) (\<lambda>bytes.
          bindR (required input ''maxReads'') (\<lambda>reads.
          bindR (integer reads 0 1024) (\<lambda>reads.
            Inr (object [(''maxReadBytes'', num bytes), (''maxReads'', num reads)])))))))"

end
