(* ===== verification/Capability_Meet.thy ===== *)
theory Capability_Meet
  imports Capability_Constraints
begin

text \<open>
  The comparison of capabilities (\<open>runtime/src/kernel/capability-satisfies.ts\<close>) and their meet
  (\<open>runtime/src/kernel/capability-meet.ts\<close>), with the parts for storage of
  \<open>storage-capability-constraints.ts\<close>.  Both put their arguments in normal form first; \<open>covers\<close> and
  \<open>meet_normal\<close> are what they do with the normal forms.
\<close>

section \<open>Comparison\<close>

text \<open>\<open>a >= b\<close> on values: false when one of them is no number.\<close>

definition at_least :: "data \<Rightarrow> data \<Rightarrow> bool" where
  "at_least a b \<longleftrightarrow> (case (a, b) of (D_num (Fin p), D_num (Fin q)) \<Rightarrow> p \<ge> q | _ \<Rightarrow> False)"

definition setAtLeast :: "data \<Rightarrow> data \<Rightarrow> bool" where
  "setAtLeast available needed \<longleftrightarrow> list_all (\<lambda>v. v \<in> set (items available)) (items needed)"

definition numbersAtLeast :: "data \<Rightarrow> data \<Rightarrow> bool" where
  "numbersAtLeast available needed \<longleftrightarrow>
     list_all (\<lambda>(k, _). at_least (lookup_key (entries available) k) (lookup_key (entries needed) k)) (entries needed)"

definition prefixContains :: "data list \<Rightarrow> data list \<Rightarrow> bool" where
  "prefixContains available needed \<longleftrightarrow> take (length available) needed = available"

definition root_covers :: "data \<Rightarrow> data \<Rightarrow> bool" where
  "root_covers availableRoot requiredRoot \<longleftrightarrow>
     field availableRoot ''rootId'' = field requiredRoot ''rootId'' \<and>
     prefixContains (items (field availableRoot ''pathPrefixSegments'')) (items (field requiredRoot ''pathPrefixSegments'')) \<and>
     setAtLeast (field availableRoot ''rights'') (field requiredRoot ''rights'') \<and>
     (field availableRoot ''symlinks'' = text_v ''withinRoot'' \<or> field requiredRoot ''symlinks'' = text_v ''deny'')"

definition satisfiesFs :: "data \<Rightarrow> data \<Rightarrow> bool" where
  "satisfiesFs available needed \<longleftrightarrow>
     list_all (\<lambda>r. list_ex (\<lambda>a. root_covers a r) (items (field available ''roots''))) (items (field needed ''roots'')) \<and>
     numbersAtLeast (field available ''limits'') (field needed ''limits'')"

definition satisfiesNetwork :: "data \<Rightarrow> data \<Rightarrow> bool" where
  "satisfiesNetwork available needed \<longleftrightarrow>
     field available ''mode'' = field needed ''mode'' \<and>
     setAtLeast (field available ''origins'') (field needed ''origins'') \<and>
     setAtLeast (field available ''schemes'') (field needed ''schemes'') \<and>
     (field available ''allowPrivateNetwork'' = D_bool True \<or> field needed ''allowPrivateNetwork'' \<noteq> D_bool True) \<and>
     at_least (field available ''inspectRequestBodyBytes'') (field needed ''inspectRequestBodyBytes'') \<and>
     numbersAtLeast (field available ''limits'') (field needed ''limits'')"

text \<open>\<open>new Map(entries).get(key)\<close>: of entries with one key the last counts.\<close>

definition endpoint_for :: "data \<Rightarrow> jstring \<Rightarrow> data option" where
  "endpoint_for endpoints k = map_of (rev (map (\<lambda>e. (endpoint_identity e, e)) (items endpoints))) k"

definition satisfiesProcessNetwork :: "data \<Rightarrow> data \<Rightarrow> bool" where
  "satisfiesProcessNetwork available needed \<longleftrightarrow>
     list_all (\<lambda>endpoint.
         (case endpoint_for (field available ''endpoints'') (endpoint_identity endpoint) of
            None \<Rightarrow> False
          | Some e \<Rightarrow> setAtLeast (field e ''ports'') (field endpoint ''ports'')))
       (items (field needed ''endpoints'')) \<and>
     at_least (field available ''maxSockets'') (field needed ''maxSockets'') \<and>
     (field needed ''privateNetwork'' \<noteq> text_v ''allow'' \<or> field available ''privateNetwork'' = text_v ''allow'')"

text \<open>\<open>indexOf\<close>, as the number of the place and \<open>-1\<close>.\<close>

fun index_from :: "int \<Rightarrow> string list \<Rightarrow> data \<Rightarrow> int" where
  "index_from i [] v = -1"
| "index_from i (k # ks) v = (if v = text_v k then i else index_from (i + 1) ks v)"

abbreviation index_of :: "string list \<Rightarrow> data \<Rightarrow> int" where
  "index_of ks v \<equiv> index_from 0 ks v"

definition covers_storage :: "data \<Rightarrow> data \<Rightarrow> bool" where
  "covers_storage available needed \<longleftrightarrow>
     field available ''namespaceId'' = field needed ''namespaceId'' \<and>
     setAtLeast (field available ''operations'') (field needed ''operations'') \<and>
     setAtLeast (field available ''databases'') (field needed ''databases'') \<and>
     list_all (\<lambda>p. list_ex (\<lambda>scope. starts_with (the_text p) (the_text scope)) (items (field available ''keyPrefixes'')))
       (items (field needed ''keyPrefixes'')) \<and>
     numbersAtLeast (field available ''limits'') (field needed ''limits'')"

definition storageCapabilitySatisfies :: "platform \<Rightarrow> data \<Rightarrow> data \<Rightarrow> kernel_error + bool" where
  "storageCapabilitySatisfies P availableValue requiredValue =
     bindR (storage_constraints P availableValue) (\<lambda>available.
     bindR (storage_constraints P requiredValue) (\<lambda>needed.
       Inr (covers_storage available needed)))"

definition covers :: "string \<Rightarrow> data \<Rightarrow> data \<Rightarrow> bool" where
  "covers name available needed =
     (if name = ''host.fs'' then satisfiesFs available needed
      else if name = ''host.network.http'' \<or> name = ''host.network.mock'' then satisfiesNetwork available needed
      else if name = ''host.process.network'' then satisfiesProcessNetwork available needed
      else if begins name ''host.device.'' then
        setAtLeast (field available ''operations'') (field needed ''operations'') \<and>
        at_least (field available ''maxPrivacyTier'') (field needed ''maxPrivacyTier'') \<and>
        at_least (field available ''maxQueuedEvents'') (field needed ''maxQueuedEvents'') \<and>
        index_of DEVICE_PRECISION (field available ''maxPrecision'') \<ge> index_of DEVICE_PRECISION (field needed ''maxPrecision'')
      else if begins name ''host.system.'' then
        setAtLeast (field available ''fields'') (field needed ''fields'') \<and>
        setAtLeast (field available ''modes'') (field needed ''modes'') \<and>
        index_of SYSTEM_PRECISION (field available ''maxPrecision'') \<ge> index_of SYSTEM_PRECISION (field needed ''maxPrecision'')
      else if name = ''host.storage.credential'' then
        setAtLeast (field available ''stores'') (field needed ''stores'') \<and>
        setAtLeast (field available ''usages'') (field needed ''usages'')
      else if name = ''host.process.execute'' then
        setAtLeast (field available ''executableIds'') (field needed ''executableIds'') \<and>
        setAtLeast (field available ''rootIds'') (field needed ''rootIds'') \<and>
        numbersAtLeast (field available ''limits'') (field needed ''limits'')
      else if name = ''host.process.shell'' then
        setAtLeast (field available ''executableIds'') (field needed ''executableIds'')
      else if name = ''host.process.signal'' then setAtLeast (field available ''signals'') (field needed ''signals'')
      else if begins name ''host.process.'' then
        setAtLeast (field available ''executableIds'') (field needed ''executableIds'') \<and>
        setAtLeast (field available ''signals'') (field needed ''signals'') \<and>
        at_least (field available ''maxProcesses'') (field needed ''maxProcesses'')
      else
        at_least (field available ''maxReadBytes'') (field needed ''maxReadBytes'') \<and>
        at_least (field available ''maxReads'') (field needed ''maxReads''))"

definition capabilitySatisfies :: "platform \<Rightarrow> string \<Rightarrow> data \<Rightarrow> data \<Rightarrow> kernel_error + bool" where
  "capabilitySatisfies P name availableValue requiredValue =
     bindR (normalizeCapabilityConstraints P name availableValue) (\<lambda>available.
     bindR (normalizeCapabilityConstraints P name requiredValue) (\<lambda>needed.
       if name = ''host.storage'' then storageCapabilitySatisfies P available needed
       else Inr (covers name available needed)))"

section \<open>Meet\<close>

definition intersect :: "data \<Rightarrow> data \<Rightarrow> data" where
  "intersect left right =
     D_list (js_sort (\<lambda>a b. compare_units (the_text a) (the_text b)) (filter (\<lambda>v. v \<in> set (items right)) (items left)))"

definition min_of :: "data \<Rightarrow> data \<Rightarrow> data" where
  "min_of a b = D_num (Fin (min (number a) (number b)))"

definition meetNumbers :: "data \<Rightarrow> data \<Rightarrow> data" where
  "meetNumbers left right = D_map (map (\<lambda>(k, v). (k, min_of v (lookup_key (entries right) k))) (entries left))"

definition commonPrefix :: "data list \<Rightarrow> data list \<Rightarrow> data list option" where
  "commonPrefix left right =
     (if length left \<le> length right \<and> take (length left) right = left then Some right
      else if length right \<le> length left \<and> take (length right) left = right then Some left
      else None)"

definition meet_roots :: "data \<Rightarrow> data \<Rightarrow> data option" where
  "meet_roots leftRoot rightRoot =
     (if field leftRoot ''rootId'' \<noteq> field rightRoot ''rootId'' then None
      else let rights = intersect (field leftRoot ''rights'') (field rightRoot ''rights'')
           in (case commonPrefix (items (field leftRoot ''pathPrefixSegments'')) (items (field rightRoot ''pathPrefixSegments'')) of
                 None \<Rightarrow> None
               | Some pathPrefixSegments \<Rightarrow>
                   if items rights = [] then None
                   else Some (object
                     [(''pathPrefixSegments'', D_list pathPrefixSegments), (''rights'', rights),
                      (''rootId'', field leftRoot ''rootId''),
                      (''symlinks'',
                        if field leftRoot ''symlinks'' = text_v ''deny'' \<or> field rightRoot ''symlinks'' = text_v ''deny''
                        then text_v ''deny'' else text_v ''withinRoot'')])))"

definition meetFs :: "data \<Rightarrow> data \<Rightarrow> data option" where
  "meetFs left right =
     (let roots = concat (map (\<lambda>l. List.map_filter (meet_roots l) (items (field right ''roots''))) (items (field left ''roots'')))
      in if roots = [] then None
         else Some (object [(''limits'', meetNumbers (field left ''limits'') (field right ''limits'')), (''roots'', D_list roots)]))"

definition truth :: "data \<Rightarrow> bool" where
  "truth v \<longleftrightarrow> v = D_bool True"

definition meetNetwork :: "data \<Rightarrow> data \<Rightarrow> data option" where
  "meetNetwork left right =
     (if field left ''mode'' \<noteq> field right ''mode'' then None
      else let origins = intersect (field left ''origins'') (field right ''origins'');
               schemes = intersect (field left ''schemes'') (field right ''schemes'')
           in if items origins = [] \<or> items schemes = [] then None
              else Some (object
                [(''allowPrivateNetwork'', D_bool (truth (field left ''allowPrivateNetwork'') \<and> truth (field right ''allowPrivateNetwork''))),
                 (''inspectRequestBodyBytes'', min_of (field left ''inspectRequestBodyBytes'') (field right ''inspectRequestBodyBytes'')),
                 (''limits'', meetNumbers (field left ''limits'') (field right ''limits'')),
                 (''mode'', field left ''mode''), (''origins'', origins), (''schemes'', schemes)]))"

definition meet_endpoint :: "data \<Rightarrow> data \<Rightarrow> data option" where
  "meet_endpoint rightEndpoints endpoint =
     (case endpoint_for rightEndpoints (endpoint_identity endpoint) of
        None \<Rightarrow> None
      | Some e \<Rightarrow>
          (let ports = filter (\<lambda>p. p \<in> set (items (field e ''ports''))) (items (field endpoint ''ports''))
           in if ports = [] then None
              else Some (object [(''hostname'', field endpoint ''hostname''), (''ports'', D_list ports),
                                 (''transport'', field endpoint ''transport'')])))"

definition meetProcessNetwork :: "data \<Rightarrow> data \<Rightarrow> data option" where
  "meetProcessNetwork left right =
     (let endpoints = List.map_filter (meet_endpoint (field right ''endpoints'')) (items (field left ''endpoints''))
      in if endpoints = [] then None
         else Some (object
           [(''endpoints'', D_list endpoints), (''maxSockets'', min_of (field left ''maxSockets'') (field right ''maxSockets'')),
            (''privateNetwork'',
              if field left ''privateNetwork'' = text_v ''allow'' \<and> field right ''privateNetwork'' = text_v ''allow''
              then text_v ''allow'' else text_v ''deny'')]))"

definition meetExecute :: "data \<Rightarrow> data \<Rightarrow> data option" where
  "meetExecute left right =
     (let executableIds = intersect (field left ''executableIds'') (field right ''executableIds'');
          rootIds = intersect (field left ''rootIds'') (field right ''rootIds'')
      in if items executableIds = [] \<and> items (field left ''executableIds'') \<noteq> [] \<and> items (field right ''executableIds'') \<noteq> []
         then None
         else Some (object [(''executableIds'', executableIds),
                            (''limits'', meetNumbers (field left ''limits'') (field right ''limits'')), (''rootIds'', rootIds)]))"

text \<open>The values of one key in the general case.\<close>

definition meet_values :: "string \<Rightarrow> jstring \<Rightarrow> data \<Rightarrow> data \<Rightarrow> data option" where
  "meet_values name k a b =
     (case (a, b) of
        (D_list xs, D_list ys) \<Rightarrow>
          (let values = intersect a b in if items values = [] \<and> xs \<noteq> [] \<and> ys \<noteq> [] then None else Some values)
      | (D_num x, D_num y) \<Rightarrow> Some (min_of a b)
      | (D_bool x, D_bool y) \<Rightarrow> Some (D_bool (x \<and> y))
      | (D_str x, D_str y) \<Rightarrow>
          if x = y then Some a
          else if k = js ''maxPrecision'' then
            (let rank = (if begins name ''host.device.'' then DEVICE_PRECISION else SYSTEM_PRECISION)
             in Some (text_v (rank ! nat (min (index_of rank a) (index_of rank b)))))
          else None
      | _ \<Rightarrow> None)"

fun meet_entries :: "string \<Rightarrow> data \<Rightarrow> (jstring \<times> data) list \<Rightarrow> (jstring \<times> data) list option" where
  "meet_entries name right [] = Some []"
| "meet_entries name right ((k, a) # m) =
     (case meet_values name k a (lookup_key (entries right) k) of
        None \<Rightarrow> None
      | Some v \<Rightarrow> map_option (\<lambda>m'. (k, v) # m') (meet_entries name right m))"

definition meet_normal :: "string \<Rightarrow> data \<Rightarrow> data \<Rightarrow> data option" where
  "meet_normal name left right =
     (if name = ''host.fs'' then meetFs left right
      else if name = ''host.network.http'' \<or> name = ''host.network.mock'' then meetNetwork left right
      else if name = ''host.process.network'' then meetProcessNetwork left right
      else if name = ''host.process.execute'' then meetExecute left right
      else map_option D_map (meet_entries name right (entries left)))"

definition commonPrefixes :: "jstring list \<Rightarrow> jstring list \<Rightarrow> jstring list" where
  "commonPrefixes left right =
     js_sort compare_units (remdups (concat (map (\<lambda>a. concat (map (\<lambda>b.
       if starts_with a b then [a] else if starts_with b a then [b] else []) right)) left)))"

definition meetStorage :: "platform \<Rightarrow> data \<Rightarrow> data \<Rightarrow> kernel_error + data option" where
  "meetStorage P leftValue rightValue =
     bindR (storage_constraints P leftValue) (\<lambda>left.
     bindR (storage_constraints P rightValue) (\<lambda>right.
       if field left ''namespaceId'' \<noteq> field right ''namespaceId'' then Inr None
       else let operations = filter (\<lambda>v. v \<in> set (items (field right ''operations''))) (items (field left ''operations''))
            in if operations = [] then Inr None
               else let keyPrefixes = commonPrefixes (the_texts (field left ''keyPrefixes'')) (the_texts (field right ''keyPrefixes''));
                        databases = filter (\<lambda>v. v \<in> set (items (field right ''databases''))) (items (field left ''databases''))
                    in if list_ex (\<lambda>v. kv_operation (the_text v)) operations \<and> keyPrefixes = [] then Inr None
                       else if list_ex (\<lambda>v. sqlite_operation (the_text v)) operations \<and> databases = [] then Inr None
                       else mapR Some (storage_constraints P (object
                         [(''databases'', D_list databases), (''keyPrefixes'', texts keyPrefixes),
                          (''limits'', meetNumbers (field left ''limits'') (field right ''limits'')),
                          (''namespaceId'', field left ''namespaceId''), (''operations'', D_list operations)]))))"

definition meetCapabilityConstraints :: "platform \<Rightarrow> string \<Rightarrow> data \<Rightarrow> data \<Rightarrow> kernel_error + data option" where
  "meetCapabilityConstraints P name leftValue rightValue =
     bindR (normalizeCapabilityConstraints P name leftValue) (\<lambda>left.
     bindR (normalizeCapabilityConstraints P name rightValue) (\<lambda>right.
       if name = ''host.storage'' then meetStorage P left right else Inr (meet_normal name left right)))"

end
