(* ===== verification/Capability_Order.thy ===== *)
theory Capability_Order
  imports Capability_Meet
begin

text \<open>
  The comparison of capabilities is a preorder, and their meet is the greatest lower bound.
\<close>

section \<open>The kinds of capabilities\<close>

text \<open>The tests on names, in one place: a proof on capabilities is a case analysis on the kind.\<close>

datatype kind = K_fs | K_http | K_mock | K_device | K_system | K_process_network | K_execute | K_shell | K_signal
  | K_process | K_storage | K_credential | K_reader

definition kind_of :: "string \<Rightarrow> kind" where
  "kind_of name =
     (if name = ''host.fs'' then K_fs
      else if name = ''host.network.http'' then K_http
      else if name = ''host.network.mock'' then K_mock
      else if begins name ''host.device.'' then K_device
      else if begins name ''host.system.'' then K_system
      else if name = ''host.process.network'' then K_process_network
      else if name = ''host.process.execute'' then K_execute
      else if name = ''host.process.shell'' then K_shell
      else if name = ''host.process.signal'' then K_signal
      else if begins name ''host.process.'' then K_process
      else if name = ''host.storage'' then K_storage
      else if name = ''host.storage.credential'' then K_credential
      else K_reader)"

lemma begins_table [simp]:
  "\<not> begins ''host.fs'' ''host.device.''"
  "\<not> begins ''host.fs'' ''host.system.''"
  "\<not> begins ''host.fs'' ''host.process.''"
  "\<not> begins ''host.network.http'' ''host.device.''"
  "\<not> begins ''host.network.http'' ''host.system.''"
  "\<not> begins ''host.network.http'' ''host.process.''"
  "\<not> begins ''host.network.mock'' ''host.device.''"
  "\<not> begins ''host.network.mock'' ''host.system.''"
  "\<not> begins ''host.network.mock'' ''host.process.''"
  "\<not> begins ''host.storage'' ''host.device.''"
  "\<not> begins ''host.storage'' ''host.system.''"
  "\<not> begins ''host.storage'' ''host.process.''"
  "\<not> begins ''host.storage.credential'' ''host.device.''"
  "\<not> begins ''host.storage.credential'' ''host.system.''"
  "\<not> begins ''host.storage.credential'' ''host.process.''"
  "\<not> begins ''host.process.network'' ''host.device.''"
  "\<not> begins ''host.process.network'' ''host.system.''"
  "begins ''host.process.network'' ''host.process.''"
  "\<not> begins ''host.process.execute'' ''host.device.''"
  "\<not> begins ''host.process.execute'' ''host.system.''"
  "begins ''host.process.execute'' ''host.process.''"
  "\<not> begins ''host.process.shell'' ''host.device.''"
  "\<not> begins ''host.process.shell'' ''host.system.''"
  "begins ''host.process.shell'' ''host.process.''"
  "\<not> begins ''host.process.signal'' ''host.device.''"
  "\<not> begins ''host.process.signal'' ''host.system.''"
  "begins ''host.process.signal'' ''host.process.''"
  "begins ''host.device.'' ''host.device.''"
  "\<not> begins ''host.device.'' ''host.system.''"
  "\<not> begins ''host.device.'' ''host.process.''"
  "\<not> begins ''host.system.'' ''host.device.''"
  "begins ''host.system.'' ''host.system.''"
  "\<not> begins ''host.system.'' ''host.process.''"
  "\<not> begins ''host.process.'' ''host.device.''"
  "\<not> begins ''host.process.'' ''host.system.''"
  "begins ''host.process.'' ''host.process.''"
  by code_simp+

lemma begins_other: "begins name p \<Longrightarrow> \<not> begins q p \<Longrightarrow> name \<noteq> q"
  by auto

lemma begins_comparable: "begins name p \<Longrightarrow> begins name q \<Longrightarrow> begins p q \<or> begins q p"
  unfolding begins_def by (metis min.commute nat_le_linear min.absorb1 take_take)

lemma begins_one [simp]:
  "begins name ''host.system.'' \<Longrightarrow> \<not> begins name ''host.device.''"
  "begins name ''host.process.'' \<Longrightarrow> \<not> begins name ''host.device.''"
  "begins name ''host.process.'' \<Longrightarrow> \<not> begins name ''host.system.''"
  using begins_comparable begins_table by blast+

lemmas begins_literals [simp] =
  begins_other [of name _ "''host.fs''" for name] begins_other [of name _ "''host.network.http''" for name]
  begins_other [of name _ "''host.network.mock''" for name] begins_other [of name _ "''host.storage''" for name]
  begins_other [of name _ "''host.storage.credential''" for name]
  begins_other [of name _ "''host.process.network''" for name] begins_other [of name _ "''host.process.execute''" for name]
  begins_other [of name _ "''host.process.shell''" for name] begins_other [of name _ "''host.process.signal''" for name]

fun covers_kind :: "kind \<Rightarrow> data \<Rightarrow> data \<Rightarrow> bool" where
  "covers_kind K_fs a r = satisfiesFs a r"
| "covers_kind K_http a r = satisfiesNetwork a r"
| "covers_kind K_mock a r = satisfiesNetwork a r"
| "covers_kind K_device a r =
     (setAtLeast (field a ''operations'') (field r ''operations'') \<and>
      at_least (field a ''maxPrivacyTier'') (field r ''maxPrivacyTier'') \<and>
      at_least (field a ''maxQueuedEvents'') (field r ''maxQueuedEvents'') \<and>
      index_of DEVICE_PRECISION (field a ''maxPrecision'') \<ge> index_of DEVICE_PRECISION (field r ''maxPrecision''))"
| "covers_kind K_system a r =
     (setAtLeast (field a ''fields'') (field r ''fields'') \<and> setAtLeast (field a ''modes'') (field r ''modes'') \<and>
      index_of SYSTEM_PRECISION (field a ''maxPrecision'') \<ge> index_of SYSTEM_PRECISION (field r ''maxPrecision''))"
| "covers_kind K_process_network a r = satisfiesProcessNetwork a r"
| "covers_kind K_execute a r =
     (setAtLeast (field a ''executableIds'') (field r ''executableIds'') \<and> setAtLeast (field a ''rootIds'') (field r ''rootIds'') \<and>
      numbersAtLeast (field a ''limits'') (field r ''limits''))"
| "covers_kind K_shell a r = setAtLeast (field a ''executableIds'') (field r ''executableIds'')"
| "covers_kind K_signal a r = setAtLeast (field a ''signals'') (field r ''signals'')"
| "covers_kind K_process a r =
     (setAtLeast (field a ''executableIds'') (field r ''executableIds'') \<and> setAtLeast (field a ''signals'') (field r ''signals'') \<and>
      at_least (field a ''maxProcesses'') (field r ''maxProcesses''))"
| "covers_kind K_storage a r = covers_storage a r"
| "covers_kind K_credential a r =
     (setAtLeast (field a ''stores'') (field r ''stores'') \<and> setAtLeast (field a ''usages'') (field r ''usages''))"
| "covers_kind K_reader a r =
     (at_least (field a ''maxReadBytes'') (field r ''maxReadBytes'') \<and> at_least (field a ''maxReads'') (field r ''maxReads''))"

definition exact_names :: "string list" where
  "exact_names = [''host.fs'', ''host.network.http'', ''host.network.mock'', ''host.process.network'', ''host.process.execute'',
     ''host.process.shell'', ''host.process.signal'', ''host.storage'', ''host.storage.credential'']"

lemma covers_of_kind:
  assumes "name \<noteq> ''host.storage''"
  shows "covers name a r = covers_kind (kind_of name) a r"
proof (cases "name \<in> set exact_names")
  case True
  then show ?thesis using assms unfolding exact_names_def list.set
    by (elim insertE) (simp_all add: covers_def kind_of_def)
next
  case False
  then have "list_all (\<lambda>n. name \<noteq> n) exact_names" by (auto simp: list_all_iff)
  then show ?thesis unfolding exact_names_def list.pred_inject
    by (cases "begins name ''host.device.''"; cases "begins name ''host.system.''"; cases "begins name ''host.process.''")
       (simp_all only: covers_def kind_of_def covers_kind.simps if_True if_False HOL.simp_thms)
qed

section \<open>Transitivity\<close>

lemma at_least_trans: "at_least a b \<Longrightarrow> at_least b c \<Longrightarrow> at_least a c"
  by (auto simp: at_least_def split: data.splits jsnum.splits)

lemma at_least_number: "at_least a b \<Longrightarrow> number a \<ge> number b"
  by (auto simp: at_least_def number_def split: data.splits jsnum.splits)

lemma setAtLeast_iff: "setAtLeast a b \<longleftrightarrow> set (items b) \<subseteq> set (items a)"
  by (auto simp: setAtLeast_def list_all_iff)

lemma setAtLeast_trans: "setAtLeast a b \<Longrightarrow> setAtLeast b c \<Longrightarrow> setAtLeast a c"
  by (auto simp: setAtLeast_iff)

lemma numbersAtLeast_iff:
  "numbersAtLeast a b \<longleftrightarrow>
     (\<forall>k \<in> fst ` set (entries b). at_least (lookup_key (entries a) k) (lookup_key (entries b) k))"
  by (auto simp: numbersAtLeast_def list_all_iff)

lemma numbersAtLeast_trans:
  assumes "numbersAtLeast a b" "numbersAtLeast b c"
  shows "numbersAtLeast a c"
  unfolding numbersAtLeast_iff
proof
  fix k assume k: "k \<in> fst ` set (entries c)"
  then have b: "at_least (lookup_key (entries b) k) (lookup_key (entries c) k)"
    using assms(2) unfolding numbersAtLeast_iff by blast
  then have "map_of (entries b) k \<noteq> None"
    by (cases "map_of (entries b) k") (simp_all add: at_least_def lookup_key_def)
  then have "k \<in> fst ` set (entries b)" by (simp add: map_of_eq_None_iff)
  then show "at_least (lookup_key (entries a) k) (lookup_key (entries c) k)"
    using assms(1) b at_least_trans by (auto simp: numbersAtLeast_iff)
qed

lemma prefixContains_trans: "prefixContains a b \<Longrightarrow> prefixContains b c \<Longrightarrow> prefixContains a c"
  unfolding prefixContains_def by (metis append_take_drop_id append_assoc append_eq_conv_conj)

lemma root_covers_trans: "root_covers a b \<Longrightarrow> root_covers b c \<Longrightarrow> root_covers a c"
  unfolding root_covers_def
  by (auto intro: prefixContains_trans setAtLeast_trans simp: text_v_def)

lemma satisfiesFs_trans: "satisfiesFs a b \<Longrightarrow> satisfiesFs b c \<Longrightarrow> satisfiesFs a c"
  unfolding satisfiesFs_def list_all_iff list_ex_iff
  by (meson numbersAtLeast_trans root_covers_trans)

lemma endpoint_for_item: "endpoint_for es k = Some e \<Longrightarrow> e \<in> set (items es) \<and> endpoint_identity e = k"
  unfolding endpoint_for_def by (auto dest!: map_of_SomeD)

lemma satisfiesProcessNetwork_iff:
  "satisfiesProcessNetwork a r \<longleftrightarrow>
     (\<forall>x \<in> set (items (field r ''endpoints'')). \<exists>e.
        endpoint_for (field a ''endpoints'') (endpoint_identity x) = Some e \<and> setAtLeast (field e ''ports'') (field x ''ports'')) \<and>
     at_least (field a ''maxSockets'') (field r ''maxSockets'') \<and>
     (field r ''privateNetwork'' \<noteq> text_v ''allow'' \<or> field a ''privateNetwork'' = text_v ''allow'')"
  unfolding satisfiesProcessNetwork_def list_all_iff by (auto split: option.splits)

lemma satisfiesProcessNetwork_trans:
  assumes "satisfiesProcessNetwork a b" "satisfiesProcessNetwork b c"
  shows "satisfiesProcessNetwork a c"
proof -
  have "\<exists>e. endpoint_for (field a ''endpoints'') (endpoint_identity x) = Some e \<and> setAtLeast (field e ''ports'') (field x ''ports'')"
    if x: "x \<in> set (items (field c ''endpoints''))" for x
  proof -
    obtain e where e: "endpoint_for (field b ''endpoints'') (endpoint_identity x) = Some e" "setAtLeast (field e ''ports'') (field x ''ports'')"
      using assms(2) x unfolding satisfiesProcessNetwork_iff by blast
    then have "e \<in> set (items (field b ''endpoints''))" "endpoint_identity e = endpoint_identity x"
      using endpoint_for_item by blast+
    then obtain f where "endpoint_for (field a ''endpoints'') (endpoint_identity x) = Some f" "setAtLeast (field f ''ports'') (field e ''ports'')"
      using assms(1) unfolding satisfiesProcessNetwork_iff by metis
    then show ?thesis using e setAtLeast_trans by blast
  qed
  then show ?thesis
    using assms at_least_trans unfolding satisfiesProcessNetwork_iff by blast
qed

lemma starts_with_trans: "starts_with s p \<Longrightarrow> starts_with p q \<Longrightarrow> starts_with s q"
  unfolding starts_with_def by (metis append_take_drop_id append_assoc append_eq_conv_conj)

lemma covers_storage_trans:
  assumes "covers_storage a b" "covers_storage b c"
  shows "covers_storage a c"
proof -
  have "\<exists>s \<in> set (items (field a ''keyPrefixes'')). starts_with (the_text p) (the_text s)"
    if "p \<in> set (items (field c ''keyPrefixes''))" for p
    using assms that starts_with_trans unfolding covers_storage_def list_all_iff list_ex_iff by meson
  moreover have "setAtLeast (field a ''operations'') (field c ''operations'')"
    by (rule setAtLeast_trans [of _ "field b ''operations''"]) (use assms in \<open>simp_all add: covers_storage_def\<close>)
  moreover have "setAtLeast (field a ''databases'') (field c ''databases'')"
    by (rule setAtLeast_trans [of _ "field b ''databases''"]) (use assms in \<open>simp_all add: covers_storage_def\<close>)
  moreover have "numbersAtLeast (field a ''limits'') (field c ''limits'')"
    by (rule numbersAtLeast_trans [of _ "field b ''limits''"]) (use assms in \<open>simp_all add: covers_storage_def\<close>)
  moreover have "field a ''namespaceId'' = field c ''namespaceId''"
    using assms by (simp add: covers_storage_def)
  ultimately show ?thesis unfolding covers_storage_def list_all_iff list_ex_iff by blast
qed

lemma satisfiesNetwork_trans:
  assumes ab: "satisfiesNetwork a b" and bc: "satisfiesNetwork b c"
  shows "satisfiesNetwork a c"
proof -
  note laws = setAtLeast_trans at_least_trans numbersAtLeast_trans
  have "setAtLeast (field a ''origins'') (field c ''origins'')" "setAtLeast (field a ''schemes'') (field c ''schemes'')"
    "at_least (field a ''inspectRequestBodyBytes'') (field c ''inspectRequestBodyBytes'')"
    "numbersAtLeast (field a ''limits'') (field c ''limits'')"
    using ab bc unfolding satisfiesNetwork_def by (blast intro: laws)+
  then show ?thesis using ab bc unfolding satisfiesNetwork_def by auto
qed

lemma covers_kind_trans:
  assumes "covers_kind k a b" "covers_kind k b c"
  shows "covers_kind k a c"
proof -
  note laws = satisfiesFs_trans satisfiesNetwork_trans satisfiesProcessNetwork_trans covers_storage_trans
    setAtLeast_trans at_least_trans numbersAtLeast_trans order_trans
  show ?thesis
    using assms by (cases k; simp only: covers_kind.simps) (blast intro: laws)+
qed

end
