(* ===== verification/Capability_Normal.thy ===== *)
theory Capability_Normal
  imports Capability_Order
begin

text \<open>
  The normal forms of constraints: what a check that succeeds says of its argument and of its result, and
  that normal forms are fixed points of normalization.
\<close>

section \<open>Reading objects\<close>

lemma map_of_js: "map_of (map (\<lambda>(k, v). (js k, v)) m) (js k) = map_of m k"
  by (induction m) auto

lemma key_js [simp]: "key (map (\<lambda>(k, v). (js k, v)) m) k = (case map_of m k of None \<Rightarrow> D_undefined | Some v \<Rightarrow> v)"
  by (simp add: key_def lookup_key_def map_of_js)

lemma entries_object [simp]: "entries (object m) = map (\<lambda>(k, v). (js k, v)) m"
  by (simp add: object_def entries_def)

lemma field_object [simp]: "field (object m) k = (case map_of m k of None \<Rightarrow> D_undefined | Some v \<Rightarrow> v)"
  by (simp add: field_def)

lemma items_simps [simp]: "items (D_list xs) = xs" "items (texts ss) = map D_str ss"
  by (simp_all add: items_def texts_def)

lemma the_text_D_str [simp]: "the_text (D_str s) = s" "the_text (text_v t) = js t"
  by (simp_all add: the_text_def text_v_def)

lemma the_texts_texts [simp]: "the_texts (texts ss) = ss"
  by (simp add: the_texts_def comp_def)

lemma number_num [simp]: "number (num n) = of_int n"
  by (simp add: number_def num_def)

lemma at_least_num [simp]: "at_least (num a) (num b) \<longleftrightarrow> b \<le> a"
  by (simp add: at_least_def num_def)

lemma num_inject [simp]: "num a = num b \<longleftrightarrow> a = b"
  by (simp add: num_def)

lemma text_v_inject [simp]: "text_v a = text_v b \<longleftrightarrow> a = b" "D_str s = text_v a \<longleftrightarrow> s = js a" "text_v a = D_str s \<longleftrightarrow> js a = s"
  by (auto simp: text_v_def)

lemma min_of_num [simp]: "min_of (num a) (num b) = num (min a b)"
  by (simp add: min_of_def) (simp add: num_def of_int_min)

section \<open>What a check that succeeds says\<close>

lemma exact_Inr: "exact v ks = Inr m \<longleftrightarrow> v = D_map m \<and> length m \<le> MAX_CONTAINER_ENTRIES \<and> fst ` set m \<subseteq> js ` set ks"
  by (cases v) (auto simp: exact_def record_v_def list_ex_iff image_subset_iff split_beta')

lemma exact_object:
  "exact (object m) ks = (if length m \<le> 1024 \<and> fst ` set m \<subseteq> set ks then Inr (map (\<lambda>(k, v). (js k, v)) m) else invalidPolicy)"
  by (auto simp: exact_def record_v_def object_def MAX_CONTAINER_ENTRIES_def list_ex_iff image_subset_iff split_beta')

lemma required_Inr: "required m k = Inr x \<longleftrightarrow> map_of m (js k) = Some x"
  by (auto simp: required_def split: option.splits)

lemma required_object: "required (map (\<lambda>(k, v). (js k, v)) m) k = (case map_of m k of None \<Rightarrow> invalidPolicy | Some v \<Rightarrow> Inr v)"
  by (simp add: required_def map_of_js)

lemma check_Inr [simp]: "check b = Inr u \<longleftrightarrow> b"
  by (simp add: check_def)

lemma integer_Inr: "integer v a b = Inr n \<longleftrightarrow> v = num n \<and> a \<le> n \<and> n \<le> b \<and> \<bar>n\<bar> \<le> MAX_SAFE_INTEGER"
proof
  assume "integer v a b = Inr n"
  then obtain q where v: "v = D_num (Fin q)" and s: "num_isSafeInteger (Fin q)" and q: "of_int a \<le> q" "q \<le> of_int b"
    and n: "n = \<lfloor>q\<rfloor>"
    by (auto simp: integer_def not_less split: data.splits jsnum.splits if_splits)
  from s have e: "q = of_int n" and m: "\<bar>q\<bar> \<le> of_int MAX_SAFE_INTEGER"
    using n by (simp_all add: num_isSafeInteger_def rat_isInteger_def)
  then show "v = num n \<and> a \<le> n \<and> n \<le> b \<and> \<bar>n\<bar> \<le> MAX_SAFE_INTEGER"
    using v q by (simp add: num_def flip: of_int_abs)
next
  assume "v = num n \<and> a \<le> n \<and> n \<le> b \<and> \<bar>n\<bar> \<le> MAX_SAFE_INTEGER"
  then show "integer v a b = Inr n"
    by (simp add: integer_def num_def num_isSafeInteger_def rat_isInteger_def flip: of_int_abs)
qed

lemma string_v_Inr: "string_v v n = Inr s \<longleftrightarrow> v = D_str s \<and> s \<noteq> [] \<and> policy_utf8ByteLength s \<le> n"
  by (auto simp: string_v_def not_less split: data.splits if_splits)

lemma identifier_v_Inr:
  "identifier_v v n = Inr s \<longleftrightarrow> v = D_str s \<and> s \<noteq> [] \<and> policy_utf8ByteLength s \<le> n \<and> identifier_test s"
  by (auto simp: identifier_v_def bindR_Inr string_v_Inr split: if_splits)

lemma literal_Inr: "literal v ks = Inr s \<longleftrightarrow> v = D_str s \<and> s \<in> js ` set ks"
  by (auto simp: literal_def split: data.splits if_splits)

lemma boolean_Inr: "boolean v = Inr b \<longleftrightarrow> v = D_bool b"
  by (auto simp: boolean_def split: data.splits)

lemma array_Inr: "array v a b = Inr xs \<longleftrightarrow> v = D_list xs \<and> a \<le> length xs \<and> length xs \<le> b"
  by (auto simp: array_def not_less split: data.splits if_splits)

lemma list_all2_D_str: "list_all2 (\<lambda>x y. x = D_str y \<and> Q y) xs ys \<longleftrightarrow> xs = map D_str ys \<and> list_all Q ys"
proof (induction xs arbitrary: ys)
  case (Cons x xs)
  show ?case by (cases ys) (auto simp: Cons)
qed auto

lemma list_all2_num: "list_all2 (\<lambda>x y. x = num y \<and> Q y) xs ys \<longleftrightarrow> xs = map num ys \<and> list_all Q ys"
proof (induction xs arbitrary: ys)
  case (Cons x xs)
  show ?case by (cases ys) (auto simp: Cons)
qed auto

lemma stringSet_Inr:
  "stringSet v ks a b = Inr xs \<longleftrightarrow>
     (\<exists>ys. v = texts ys \<and> a \<le> length ys \<and> length ys \<le> b \<and> set ys \<subseteq> js ` set ks \<and> distinct ys \<and> xs = js_sort compareCodePoints ys)"
  unfolding stringSet_def bindR_Inr array_Inr mapE_Inr literal_Inr list_all2_D_str texts_def
  by (fastforce simp: list_all_iff split: if_splits)

lemma identifiers_Inr:
  "identifiers v n = Inr x \<longleftrightarrow>
     (\<exists>ys. v = texts ys \<and> length ys \<le> n \<and> list_all (\<lambda>y. identifier_v (D_str y) 128 = Inr y) ys \<and> distinct ys \<and>
           x = texts (js_sort compare_units ys))"
  unfolding identifiers_def bindR_Inr array_Inr mapE_Inr identifier_v_Inr list_all2_D_str texts_def Let_def
  by (fastforce split: if_splits)

lemma port_list_Inr:
  "port_list v = Inr ps \<longleftrightarrow>
     (\<exists>ys. v = D_list (map num ys) \<and> 1 \<le> length ys \<and> length ys \<le> 64 \<and> list_all (\<lambda>y. 1 \<le> y \<and> y \<le> 65535 \<and> \<bar>y\<bar> \<le> MAX_SAFE_INTEGER) ys \<and>
           distinct ys \<and> ps = js_sort (\<lambda>left right. left - right) ys)"
  unfolding port_list_def bindR_Inr array_Inr mapE_Inr integer_Inr list_all2_num Let_def
  by (fastforce split: if_splits)

lemma segment_Inr:
  "canonicalFilesystemPrefixSegment v = Inr s \<longleftrightarrow> v = D_str s \<and> canonicalFilesystemPrefixSegment (D_str s) = Inr s"
  unfolding canonicalFilesystemPrefixSegment_def by (auto simp: bindR_Inr string_v_Inr split: if_splits)

lemma segments_Inr:
  "mapE canonicalFilesystemPrefixSegment xs = Inr ss \<longleftrightarrow>
     xs = map D_str ss \<and> list_all (\<lambda>s. canonicalFilesystemPrefixSegment (D_str s) = Inr s) ss"
proof -
  have "(\<lambda>x y. canonicalFilesystemPrefixSegment x = Inr y) =
      (\<lambda>x y. x = D_str y \<and> canonicalFilesystemPrefixSegment (D_str y) = Inr y)"
    by (intro ext) (rule segment_Inr)
  then show ?thesis by (simp only: mapE_Inr list_all2_D_str)
qed

section \<open>Limits\<close>

definition limit_map :: "string list \<Rightarrow> (string \<Rightarrow> int) \<Rightarrow> data" where
  "limit_map ks f = object (map (\<lambda>k. (k, num (f k))) ks)"

definition limits_ok :: "(string \<times> int) list \<Rightarrow> int \<Rightarrow> (string \<Rightarrow> int) \<Rightarrow> bool" where
  "limits_ok maxima lo f \<longleftrightarrow> list_all (\<lambda>(k, hi). lo \<le> f k \<and> f k \<le> hi) maxima"

text \<open>A value that reads as the limits \<open>f\<close>: every key is there and no other.\<close>

definition reads_limits :: "data \<Rightarrow> string list \<Rightarrow> (string \<Rightarrow> int) \<Rightarrow> bool" where
  "reads_limits v ks f \<longleftrightarrow>
     fst ` set (entries v) = js ` set ks \<and> (\<forall>k \<in> set ks. lookup_key (entries v) (js k) = num (f k))"

lemma limit_values:
  assumes "list_all2 (\<lambda>p y. \<exists>x n. required m (fst p) = Inr x \<and> integer x lo (snd p) = Inr n \<and> y = (fst p, num n)) maxima ys"
    "f = (\<lambda>k. \<lfloor>number (lookup_key m (js k))\<rfloor>)"
  shows "ys = map (\<lambda>p. (fst p, num (f (fst p)))) maxima \<and> limits_ok maxima lo f \<and>
    (\<forall>k \<in> fst ` set maxima. map_of m (js k) = Some (num (f k)))"
  using assms
proof (induction rule: list_all2_induct)
  case (Cons p ps y ys)
  then obtain n where n: "map_of m (js (fst p)) = Some (num n)" "lo \<le> n" "n \<le> snd p" "y = (fst p, num n)"
    by (auto simp: required_Inr integer_Inr)
  then have "f (fst p) = n" using Cons.prems by (simp add: lookup_key_def)
  then show ?case using Cons n by (auto simp: limits_ok_def)
qed (simp add: limits_ok_def)

lemma limit_fold:
  assumes "list_all2 (\<lambda>p y. \<exists>x n. required m (fst p) = Inr x \<and> integer x lo (snd p) = Inr n \<and> y = (fst p, num n)) maxima ys"
  shows "\<exists>f. ys = map (\<lambda>p. (fst p, num (f (fst p)))) maxima \<and> limits_ok maxima lo f \<and>
    (\<forall>k \<in> fst ` set maxima. map_of m (js k) = Some (num (f k)))"
  by (rule exI, rule limit_values [OF assms refl])

lemma limits_result:
  assumes "exact v (map fst maxima) = Inr m"
    "mapE (\<lambda>p. bindR (required m (fst p)) (\<lambda>x. mapR (\<lambda>n. (fst p, num n)) (integer x lo (snd p)))) maxima = Inr ys"
  shows "\<exists>f. object ys = limit_map (map fst maxima) f \<and> limits_ok maxima lo f \<and> reads_limits v (map fst maxima) f"
proof -
  have v: "v = D_map m" and sub: "fst ` set m \<subseteq> js ` fst ` set maxima" using assms(1) by (auto simp: exact_Inr)
  have "list_all2 (\<lambda>p y. \<exists>x n. required m (fst p) = Inr x \<and> integer x lo (snd p) = Inr n \<and> y = (fst p, num n)) maxima ys"
    using assms(2) unfolding mapE_Inr mapR_def bindR_Inr by (rule list_all2_mono) auto
  from limit_fold [OF this]
  obtain f where ys: "ys = map (\<lambda>p. (fst p, num (f (fst p)))) maxima" and ok: "limits_ok maxima lo f"
    and all: "\<forall>k \<in> fst ` set maxima. map_of m (js k) = Some (num (f k))"
    by blast
  have "fst ` set m = js ` fst ` set maxima"
  proof
    show "js ` fst ` set maxima \<subseteq> fst ` set m" using all by (force dest: map_of_SomeD)
  qed (rule sub)
  moreover have "\<forall>k \<in> fst ` set maxima. lookup_key m (js k) = num (f k)" using all by (simp add: lookup_key_def)
  ultimately have "reads_limits v (map fst maxima) f" using v by (simp add: reads_limits_def entries_def)
  moreover have "object ys = limit_map (map fst maxima) f" using ys by (simp add: limit_map_def comp_def)
  ultimately show ?thesis using ok by blast
qed

lemma mapE_map: "mapE f (map g xs) = mapE (\<lambda>x. f (g x)) xs"
  by (induction xs) (auto split: sum.split)

abbreviation bounded_by :: "string list \<Rightarrow> (string \<times> int) list" where
  "bounded_by ks \<equiv> map (\<lambda>k. (k, 4 * 1024 * 1024 * 1024)) ks"

lemma limits_of_Inr:
  assumes "limits_of v ks = Inr l"
  shows "\<exists>f. l = limit_map ks f \<and> limits_ok (bounded_by ks) 0 f \<and> reads_limits v ks f"
proof -
  obtain m ys where m: "exact v ks = Inr m" and l: "l = object ys"
    and ys: "mapE (\<lambda>k. bindR (required m k) (\<lambda>x. mapR (\<lambda>n. (k, num n)) (integer x 0 (4 * 1024 * 1024 * 1024)))) ks = Inr ys"
    using assms by (auto simp: limits_of_def bindR_Inr)
  have "mapE (\<lambda>p. bindR (required m (fst p)) (\<lambda>x. mapR (\<lambda>n. (fst p, num n)) (integer x 0 (snd p)))) (bounded_by ks) = Inr ys"
    unfolding mapE_map by (simp only: fst_conv snd_conv ys)
  moreover have "map fst (bounded_by ks) = ks" by (simp add: comp_def)
  ultimately show ?thesis using limits_result [of v "bounded_by ks" m 0 ys] m l by (simp only:)
qed

lemma storage_limits_Inr:
  assumes "normalizeStorageLimits v = Inr l"
  shows "\<exists>f. l = limit_map (map fst STORAGE_LIMIT_MAXIMA) f \<and> limits_ok STORAGE_LIMIT_MAXIMA 1 f \<and>
    reads_limits v (map fst STORAGE_LIMIT_MAXIMA) f"
proof -
  obtain m ys where "exact v (map fst STORAGE_LIMIT_MAXIMA) = Inr m" "l = object ys"
    "mapE (\<lambda>p. bindR (required m (fst p)) (\<lambda>x. mapR (\<lambda>n. (fst p, num n)) (integer x 1 (snd p)))) STORAGE_LIMIT_MAXIMA = Inr ys"
    using assms by (auto simp: normalizeStorageLimits_def bindR_Inr split_beta')
  then show ?thesis using limits_result by blast
qed

text \<open>Such values compare by their limits.\<close>

lemma limit_map_reads: "reads_limits (limit_map ks f) ks f"
  unfolding reads_limits_def limit_map_def entries_object lookup_key_def map_of_js map_of_map_restrict
  by (force simp: restrict_map_def)

lemma numbersAtLeast_reads:
  "reads_limits a ks f \<Longrightarrow> reads_limits b ks g \<Longrightarrow> numbersAtLeast a b \<longleftrightarrow> (\<forall>k \<in> set ks. g k \<le> f k)"
  by (simp add: numbersAtLeast_iff reads_limits_def)

end
