(* ===== verification/Capability_Shapes.thy ===== *)
theory Capability_Shapes
  imports Capability_Normal
begin

text \<open>
  The normal form of each kind of constraints, and how it reads against the value it was made from: the same
  values under the same keys, sets in order.
\<close>

lemma exact_required:
  "exact v ks = Inr m \<Longrightarrow> required m k = Inr x \<Longrightarrow> field v k = x"
  by (auto simp: exact_Inr required_Inr field_def entries_def key_def lookup_key_def)

section \<open>Device and system information\<close>

lemma device_shape:
  assumes "device_constraints v = Inr c"
  shows "\<exists>p t q ops. c = object [(''maxPrecision'', text_v p), (''maxPrivacyTier'', num t), (''maxQueuedEvents'', num q),
      (''operations'', texts (js_sort compareCodePoints ops))] \<and>
    p \<in> set DEVICE_PRECISION \<and> 0 \<le> t \<and> t \<le> 3 \<and> 0 \<le> q \<and> q \<le> 4096 \<and>
    stringSet (texts ops) DEVICE_OPERATIONS 1 (length DEVICE_OPERATIONS) = Inr (js_sort compareCodePoints ops) \<and>
    field v ''maxPrecision'' = text_v p \<and> field v ''maxPrivacyTier'' = num t \<and> field v ''maxQueuedEvents'' = num q \<and>
    field v ''operations'' = texts ops"
proof -
  obtain m p' t q ops' ops where e: "exact v [''maxPrecision'', ''maxPrivacyTier'', ''maxQueuedEvents'', ''operations''] = Inr m"
    and p: "required m ''maxPrecision'' = Inr (D_str p')" "p' \<in> js ` set DEVICE_PRECISION"
    and t: "required m ''maxPrivacyTier'' = Inr (num t)" "0 \<le> t" "t \<le> 3"
    and q: "required m ''maxQueuedEvents'' = Inr (num q)" "0 \<le> q" "q \<le> 4096"
    and ops: "required m ''operations'' = Inr ops'" "stringSet ops' DEVICE_OPERATIONS 1 (length DEVICE_OPERATIONS) = Inr ops"
    and c: "c = object [(''maxPrecision'', D_str p'), (''maxPrivacyTier'', num t), (''maxQueuedEvents'', num q), (''operations'', texts ops)]"
    using assms unfolding device_constraints_def bindR_Inr literal_Inr integer_Inr by auto
  obtain p where "p' = js p" "p \<in> set DEVICE_PRECISION" using p(2) by blast
  moreover obtain ys where "ops' = texts ys" "ops = js_sort compareCodePoints ys" using ops(2) by (auto simp: stringSet_Inr)
  moreover note exact_required [OF e p(1)] exact_required [OF e t(1)] exact_required [OF e q(1)] exact_required [OF e ops(1)]
  ultimately show ?thesis using c t q ops(2) by (intro exI conjI) (simp_all add: text_v_def)
qed

lemma stringSet_texts:
  "stringSet v ks a b = Inr xs \<Longrightarrow> \<exists>ys. v = texts ys \<and> xs = js_sort compareCodePoints ys \<and> stringSet (texts ys) ks a b = Inr (js_sort compareCodePoints ys)"
  by (auto simp: stringSet_Inr)

lemma system_shape:
  assumes "system_constraints v = Inr c"
  shows "\<exists>p fs ms. c = object [(''fields'', texts (js_sort compareCodePoints fs)), (''maxPrecision'', text_v p),
      (''modes'', texts (js_sort compareCodePoints ms))] \<and>
    p \<in> set SYSTEM_PRECISION \<and>
    stringSet (texts fs) SYSTEM_INFORMATION_FIELDS 1 (length SYSTEM_INFORMATION_FIELDS) = Inr (js_sort compareCodePoints fs) \<and>
    stringSet (texts ms) [''real'', ''redacted'', ''synthetic''] 1 3 = Inr (js_sort compareCodePoints ms) \<and>
    field v ''maxPrecision'' = text_v p \<and> field v ''fields'' = texts fs \<and> field v ''modes'' = texts ms"
proof -
  obtain m p' fv fs mv ms where e: "exact v [''fields'', ''maxPrecision'', ''modes''] = Inr m"
    and f: "required m ''fields'' = Inr fv" "stringSet fv SYSTEM_INFORMATION_FIELDS 1 (length SYSTEM_INFORMATION_FIELDS) = Inr fs"
    and p: "required m ''maxPrecision'' = Inr (D_str p')" "p' \<in> js ` set SYSTEM_PRECISION"
    and o: "required m ''modes'' = Inr mv" "stringSet mv [''real'', ''redacted'', ''synthetic''] 1 3 = Inr ms"
    and c: "c = object [(''fields'', texts fs), (''maxPrecision'', D_str p'), (''modes'', texts ms)]"
    using assms unfolding system_constraints_def bindR_Inr literal_Inr by auto
  obtain p where "p' = js p" "p \<in> set SYSTEM_PRECISION" using p(2) by blast
  moreover note exact_required [OF e p(1)] exact_required [OF e f(1)] exact_required [OF e o(1)]
    stringSet_texts [OF f(2)] stringSet_texts [OF o(2)]
  ultimately show ?thesis using c by (auto simp: text_v_def)
qed

section \<open>Network\<close>

definition origins_ok :: "platform \<Rightarrow> jstring list \<Rightarrow> jstring list \<Rightarrow> bool" where
  "origins_ok P origins schemes \<longleftrightarrow>
     distinct origins \<and> length origins \<le> 64 \<and>
     list_all (\<lambda>o'. origin_item P (D_str o') = Inr o' \<and> (\<exists>s. scheme_of P o' = Inr s \<and> s \<in> set schemes)) origins"

lemma origin_item_Inr: "origin_item P v = Inr s \<longleftrightarrow> v = D_str s \<and> origin_item P (D_str s) = Inr s"
  by (cases v) (auto simp: origin_item_def split: option.splits if_splits)

lemma origin_items: "mapE (origin_item P) xs = Inr os \<longleftrightarrow> xs = map D_str os \<and> list_all (\<lambda>o'. origin_item P (D_str o') = Inr o') os"
proof -
  have "(\<lambda>x y. origin_item P x = Inr y) = (\<lambda>x y. x = D_str y \<and> origin_item P (D_str y) = Inr y)"
    by (intro ext) (rule origin_item_Inr)
  then show ?thesis by (simp only: mapE_Inr list_all2_D_str)
qed

lemma mapE_values: "mapE f xs = Inr ys \<Longrightarrow> \<forall>x \<in> set xs. \<exists>y \<in> set ys. f x = Inr y"
  unfolding mapE_Inr by (induction rule: list_all2_induct) auto

lemma mapE_total: "\<forall>x \<in> set xs. \<exists>y. f x = Inr y \<and> Q y \<Longrightarrow> \<exists>ys. mapE f xs = Inr ys \<and> list_all Q ys"
  by (induction xs) (auto split: sum.split)

lemma network_shape:
  assumes "network_constraints P v e = Inr c"
  shows "\<exists>b n f os ss. c = object [(''allowPrivateNetwork'', D_bool b), (''inspectRequestBodyBytes'', num n),
      (''limits'', limit_map NETWORK_LIMITS f), (''mode'', text_v e), (''origins'', texts (js_sort compare_units os)),
      (''schemes'', texts (js_sort compareCodePoints ss))] \<and>
    \<not> (e = ''mockOnly'' \<and> b) \<and> 0 \<le> n \<and> n \<le> 1024 * 1024 \<and> limits_ok (bounded_by NETWORK_LIMITS) 0 f \<and> origins_ok P os ss \<and>
    stringSet (texts ss) [''http'', ''https''] 0 2 = Inr (js_sort compareCodePoints ss) \<and>
    field v ''allowPrivateNetwork'' = D_bool b \<and> field v ''inspectRequestBodyBytes'' = num n \<and>
    reads_limits (field v ''limits'') NETWORK_LIMITS f \<and> field v ''mode'' = text_v e \<and>
    field v ''origins'' = texts os \<and> field v ''schemes'' = texts ss"
proof -
  obtain m os sv ss us b n lv l where
    x: "exact v [''allowPrivateNetwork'', ''inspectRequestBodyBytes'', ''limits'', ''mode'', ''origins'', ''schemes''] = Inr m"
    and mode: "required m ''mode'' = Inr (text_v e)"
    and os: "required m ''origins'' = Inr (texts os)" "length os \<le> 64" "list_all (\<lambda>o'. origin_item P (D_str o') = Inr o') os" "distinct os"
    and ss: "required m ''schemes'' = Inr sv" "stringSet sv [''http'', ''https''] 0 2 = Inr ss"
    and us: "mapE (scheme_of P) (js_sort compare_units os) = Inr us" "\<not> list_ex (\<lambda>s. s \<notin> set ss) us"
    and b: "required m ''allowPrivateNetwork'' = Inr (D_bool b)" "\<not> (e = ''mockOnly'' \<and> b)"
    and n: "required m ''inspectRequestBodyBytes'' = Inr (num n)" "0 \<le> n" "n \<le> 1024 * 1024"
    and l: "required m ''limits'' = Inr lv" "limits_of lv NETWORK_LIMITS = Inr l"
    and c: "c = object [(''allowPrivateNetwork'', D_bool b), (''inspectRequestBodyBytes'', num n), (''limits'', l),
                    (''mode'', text_v e), (''origins'', texts (js_sort compare_units os)), (''schemes'', texts ss)]"
    using assms unfolding network_constraints_def bindR_Inr integer_Inr boolean_Inr array_Inr origin_items check_Inr Let_def
    by (auto simp: texts_def)
  obtain f where f: "l = limit_map NETWORK_LIMITS f" "limits_ok (bounded_by NETWORK_LIMITS) 0 f" "reads_limits lv NETWORK_LIMITS f"
    using limits_of_Inr [OF l(2)] by blast
  obtain ys where ys: "sv = texts ys" "ss = js_sort compareCodePoints ys"
      "stringSet (texts ys) [''http'', ''https''] 0 2 = Inr (js_sort compareCodePoints ys)"
    using stringSet_texts [OF ss(2)] by blast
  have "origins_ok P os ys"
    using os(2-4) mapE_values [OF us(1)] us(2) ys(2) by (auto simp: origins_ok_def list_all_iff list_ex_iff)
  moreover note exact_required [OF x b(1)] exact_required [OF x n(1)] exact_required [OF x l(1)] exact_required [OF x mode]
    exact_required [OF x os(1)] exact_required [OF x ss(1)]
  ultimately show ?thesis using c b(2) n f ys
    by (intro exI [of _ b] exI [of _ n] exI [of _ f] exI [of _ os] exI [of _ ys]) simp
qed

section \<open>File system\<close>

text \<open>\<open>root_of segs rights rid link\<close>: a root in normal form.\<close>

definition root_of :: "jstring list \<Rightarrow> jstring list \<Rightarrow> jstring \<Rightarrow> string \<Rightarrow> data" where
  "root_of segs rights rid link =
     object [(''pathPrefixSegments'', texts segs), (''rights'', texts rights), (''rootId'', D_str rid), (''symlinks'', text_v link)]"

lemma root_of_fields [simp]:
  "field (root_of segs rights rid link) ''pathPrefixSegments'' = texts segs"
  "field (root_of segs rights rid link) ''rights'' = texts rights"
  "field (root_of segs rights rid link) ''rootId'' = D_str rid"
  "field (root_of segs rights rid link) ''symlinks'' = text_v link"
  by (simp_all add: root_of_def)

definition root_reads :: "data \<Rightarrow> jstring list \<Rightarrow> jstring list \<Rightarrow> jstring \<Rightarrow> string \<Rightarrow> bool" where
  "root_reads x segs rights rid link \<longleftrightarrow>
     field x ''pathPrefixSegments'' = texts segs \<and> field x ''rights'' = texts rights \<and>
     field x ''rootId'' = D_str rid \<and> field x ''symlinks'' = text_v link"

definition root_ok :: "jstring list \<Rightarrow> jstring list \<Rightarrow> jstring \<Rightarrow> string \<Rightarrow> bool" where
  "root_ok segs rights rid link \<longleftrightarrow>
     length segs \<le> 256 \<and> list_all (\<lambda>s. canonicalFilesystemPrefixSegment (D_str s) = Inr s) segs \<and>
     stringSet (texts rights) FS_RIGHTS 1 (length FS_RIGHTS) = Inr (js_sort compareCodePoints rights) \<and>
     identifier_v (D_str rid) 64 = Inr rid \<and> link \<in> {''deny'', ''withinRoot''}"

lemma root_shape:
  assumes "fs_root x = Inr r"
  shows "\<exists>segs rights rid link. r = root_of segs (js_sort compareCodePoints rights) rid link \<and>
    root_ok segs rights rid link \<and> root_reads x segs rights rid link"
proof -
  obtain m segs rv rights rid link' where
    e: "exact x [''pathPrefixSegments'', ''rights'', ''rootId'', ''symlinks''] = Inr m"
    and segs: "required m ''pathPrefixSegments'' = Inr (texts segs)" "length segs \<le> 256"
      "list_all (\<lambda>s. canonicalFilesystemPrefixSegment (D_str s) = Inr s) segs"
    and rights: "required m ''rights'' = Inr rv" "stringSet rv FS_RIGHTS 1 (length FS_RIGHTS) = Inr rights"
    and rid: "required m ''rootId'' = Inr (D_str rid)" "identifier_v (D_str rid) 64 = Inr rid"
    and link: "required m ''symlinks'' = Inr (D_str link')" "link' \<in> js ` {''deny'', ''withinRoot''}"
    and r: "r = object [(''pathPrefixSegments'', texts segs), (''rights'', texts rights), (''rootId'', D_str rid), (''symlinks'', D_str link')]"
    using assms unfolding fs_root_def bindR_Inr array_Inr segments_Inr literal_Inr identifier_v_Inr
    by (auto simp: texts_def)
  obtain link where l: "link' = js link" "link \<in> {''deny'', ''withinRoot''}" using link(2) by blast
  obtain ys where ys: "rv = texts ys" "rights = js_sort compareCodePoints ys"
      "stringSet (texts ys) FS_RIGHTS 1 (length FS_RIGHTS) = Inr (js_sort compareCodePoints ys)"
    using stringSet_texts [OF rights(2)] by blast
  note exact_required [OF e segs(1)] exact_required [OF e rights(1)] exact_required [OF e rid(1)] exact_required [OF e link(1)]
  then show ?thesis using segs rid l ys r
    by (intro exI [of _ segs] exI [of _ ys] exI [of _ rid] exI [of _ link]) (auto simp: root_of_def root_ok_def root_reads_def text_v_def)
qed

lemma filesystem_shape:
  assumes "filesystem_constraints P v = Inr c"
  shows "\<exists>xs rs f. c = object [(''limits'', limit_map FS_LIMITS f), (''roots'', D_list (js_sort (root_order P) rs))] \<and>
    1 \<le> length xs \<and> length xs \<le> 64 \<and> mapE fs_root xs = Inr rs \<and> distinct (map root_identity (js_sort (root_order P) rs)) \<and>
    limits_ok (bounded_by FS_LIMITS) 0 f \<and> field v ''roots'' = D_list xs \<and> reads_limits (field v ''limits'') FS_LIMITS f"
proof -
  obtain m xs rs lv l where e: "exact v [''limits'', ''roots''] = Inr m"
    and xs: "required m ''roots'' = Inr (D_list xs)" "1 \<le> length xs" "length xs \<le> 64" "mapE fs_root xs = Inr rs"
      "distinct (map root_identity (js_sort (root_order P) rs))"
    and l: "required m ''limits'' = Inr lv" "limits_of lv FS_LIMITS = Inr l"
    and c: "c = object [(''limits'', l), (''roots'', D_list (js_sort (root_order P) rs))]"
    using assms unfolding filesystem_constraints_def bindR_Inr array_Inr Let_def
    by (auto simp: bindR_Inr simp del: distinct_js_sort split: if_splits)
  obtain f where f: "l = limit_map FS_LIMITS f" "limits_ok (bounded_by FS_LIMITS) 0 f" "reads_limits lv FS_LIMITS f"
    using limits_of_Inr [OF l(2)] by blast
  note exact_required [OF e xs(1)] exact_required [OF e l(1)]
  then show ?thesis using xs(2-) c f by (intro exI [of _ xs] exI [of _ rs] exI [of _ f]) (simp del: distinct_js_sort)
qed

section \<open>Processes\<close>

definition endpoint_of :: "jstring \<Rightarrow> int list \<Rightarrow> string \<Rightarrow> data" where
  "endpoint_of host ports transport =
     object [(''hostname'', D_str host), (''ports'', D_list (map num ports)), (''transport'', text_v transport)]"

lemma endpoint_of_fields [simp]:
  "field (endpoint_of h ps t) ''hostname'' = D_str h" "field (endpoint_of h ps t) ''ports'' = D_list (map num ps)"
  "field (endpoint_of h ps t) ''transport'' = text_v t"
  by (simp_all add: endpoint_of_def)

definition endpoint_reads :: "data \<Rightarrow> jstring \<Rightarrow> int list \<Rightarrow> string \<Rightarrow> bool" where
  "endpoint_reads x h ps t \<longleftrightarrow>
     field x ''hostname'' = D_str h \<and> field x ''ports'' = D_list (map num ps) \<and> field x ''transport'' = text_v t"

abbreviation sorted_ports :: "int list \<Rightarrow> int list" where
  "sorted_ports ps \<equiv> js_sort (\<lambda>left right. left - right) ps"

definition endpoint_ok :: "platform \<Rightarrow> jstring \<Rightarrow> int list \<Rightarrow> string \<Rightarrow> bool" where
  "endpoint_ok P h ps t \<longleftrightarrow>
     hostname_of P (D_str h) = Inr (lower_case P h) \<and> port_list (D_list (map num ps)) = Inr (sorted_ports ps) \<and>
     t \<in> {''tcp'', ''tls'', ''udp''}"

lemma hostname_of_Inr: "hostname_of P v = Inr h \<Longrightarrow> \<exists>s. v = D_str s \<and> h = lower_case P s"
  by (auto simp: hostname_of_def Let_def split: data.splits if_splits option.splits)

lemma endpoint_shape:
  assumes "endpoint_constraints P x = Inr e"
  shows "\<exists>h ps t. e = endpoint_of (lower_case P h) (sorted_ports ps) t \<and> endpoint_ok P h ps t \<and> endpoint_reads x h ps t"
proof -
  obtain m pv ps hv h t' where e: "exact x [''hostname'', ''ports'', ''transport''] = Inr m"
    and ps: "required m ''ports'' = Inr pv" "port_list pv = Inr ps"
    and h: "required m ''hostname'' = Inr hv" "hostname_of P hv = Inr h"
    and t: "required m ''transport'' = Inr (D_str t')" "t' \<in> js ` {''tcp'', ''tls'', ''udp''}"
    and r: "e = object [(''hostname'', D_str h), (''ports'', D_list (map num ps)), (''transport'', D_str t')]"
    using assms unfolding endpoint_constraints_def bindR_Inr literal_Inr by auto
  obtain t where l: "t' = js t" "t \<in> {''tcp'', ''tls'', ''udp''}" using t(2) by blast
  obtain s where s: "hv = D_str s" "h = lower_case P s" using hostname_of_Inr [OF h(2)] by blast
  obtain ys where ys: "pv = D_list (map num ys)" "ps = sorted_ports ys" using ps(2) by (auto simp: port_list_Inr)
  note exact_required [OF e ps(1)] exact_required [OF e h(1)] exact_required [OF e t(1)]
  then show ?thesis using l r s ys ps(2) h(2)
    by (intro exI [of _ s] exI [of _ ys] exI [of _ t]) (auto simp: endpoint_of_def endpoint_ok_def endpoint_reads_def text_v_def)
qed

abbreviation endpoint_order :: "platform \<Rightarrow> data \<Rightarrow> data \<Rightarrow> int" where
  "endpoint_order P \<equiv> \<lambda>l r. locale_compare P (endpoint_identity l) (endpoint_identity r)"

lemma process_network_shape:
  assumes "process_network P v = Inr c"
  shows "\<exists>xs es n a. c = object [(''endpoints'', D_list (js_sort (endpoint_order P) es)), (''maxSockets'', num n),
      (''privateNetwork'', text_v a)] \<and>
    length xs \<le> 256 \<and> mapE (endpoint_constraints P) xs = Inr es \<and> distinct (map endpoint_identity (js_sort (endpoint_order P) es)) \<and>
    1 \<le> n \<and> n \<le> 256 \<and> a \<in> {''allow'', ''deny''} \<and>
    field v ''endpoints'' = D_list xs \<and> field v ''maxSockets'' = num n \<and> or_else (field v ''privateNetwork'') (text_v ''deny'') = text_v a"
proof -
  obtain m xs es n a' where e: "exact v [''endpoints'', ''maxSockets'', ''privateNetwork''] = Inr m"
    and xs: "required m ''endpoints'' = Inr (D_list xs)" "length xs \<le> 256" "mapE (endpoint_constraints P) xs = Inr es"
      "distinct (map endpoint_identity (js_sort (endpoint_order P) es))"
    and n: "required m ''maxSockets'' = Inr (num n)" "1 \<le> n" "n \<le> 256"
    and a: "or_else (key m ''privateNetwork'') (text_v ''deny'') = D_str a'" "a' \<in> js ` {''allow'', ''deny''}"
    and c: "c = object [(''endpoints'', D_list (js_sort (endpoint_order P) es)), (''maxSockets'', num n), (''privateNetwork'', D_str a')]"
    using assms unfolding process_network_def bindR_Inr array_Inr integer_Inr literal_Inr check_Inr Let_def
    by (auto simp del: distinct_js_sort)
  obtain q where q: "a' = js q" "q \<in> {''allow'', ''deny''}" using a(2) by blast
  have "field v ''privateNetwork'' = key m ''privateNetwork''" using e by (auto simp: exact_Inr field_def entries_def)
  moreover note exact_required [OF e xs(1)] exact_required [OF e n(1)]
  ultimately show ?thesis using xs(2-) n a(1) q c
    by (intro exI [of _ xs] exI [of _ es] exI [of _ n] exI [of _ q]) (auto simp: text_v_def simp del: distinct_js_sort)
qed

abbreviation sorted_ids :: "jstring list \<Rightarrow> data" where
  "sorted_ids xs \<equiv> texts (js_sort compare_units xs)"

lemma identifiers_texts:
  "identifiers v n = Inr x \<Longrightarrow> \<exists>ys. v = texts ys \<and> x = sorted_ids ys \<and> identifiers (texts ys) n = Inr (sorted_ids ys)"
  by (auto simp: identifiers_Inr)

lemma execute_shape:
  assumes "process_constraints P ''host.process.execute'' v = Inr c"
  shows "\<exists>xs rs f. c = object [(''executableIds'', sorted_ids xs), (''limits'', limit_map PROCESS_LIMITS f), (''rootIds'', sorted_ids rs)] \<and>
    identifiers (texts xs) 256 = Inr (sorted_ids xs) \<and> identifiers (texts rs) 64 = Inr (sorted_ids rs) \<and>
    limits_ok (bounded_by PROCESS_LIMITS) 0 f \<and>
    field v ''executableIds'' = texts xs \<and> field v ''rootIds'' = texts rs \<and> reads_limits (field v ''limits'') PROCESS_LIMITS f"
proof -
  obtain m xv x lv l rv r where e: "exact v [''executableIds'', ''limits'', ''rootIds''] = Inr m"
    and x: "required m ''executableIds'' = Inr xv" "identifiers xv 256 = Inr x"
    and l: "required m ''limits'' = Inr lv" "limits_of lv PROCESS_LIMITS = Inr l"
    and r: "required m ''rootIds'' = Inr rv" "identifiers rv 64 = Inr r"
    and c: "c = object [(''executableIds'', x), (''limits'', l), (''rootIds'', r)]"
    using assms unfolding process_constraints_def by (auto simp: bindR_Inr)
  note exact_required [OF e x(1)] exact_required [OF e l(1)] exact_required [OF e r(1)]
    identifiers_texts [OF x(2)] identifiers_texts [OF r(2)] limits_of_Inr [OF l(2)]
  then show ?thesis using c by blast
qed

lemma shell_shape:
  assumes "process_constraints P ''host.process.shell'' v = Inr c"
  shows "\<exists>xs. c = object [(''executableIds'', sorted_ids xs)] \<and> identifiers (texts xs) 256 = Inr (sorted_ids xs) \<and>
    field v ''executableIds'' = texts xs"
proof -
  obtain m xv x where e: "exact v [''executableIds''] = Inr m"
    and x: "required m ''executableIds'' = Inr xv" "identifiers xv 256 = Inr x" and c: "c = object [(''executableIds'', x)]"
    using assms unfolding process_constraints_def by (auto simp: bindR_Inr)
  then show ?thesis using exact_required [OF e x(1)] identifiers_texts [OF x(2)] by blast
qed

lemma signal_shape:
  assumes "process_constraints P ''host.process.signal'' v = Inr c"
  shows "\<exists>xs. c = object [(''signals'', texts (js_sort compareCodePoints xs))] \<and>
    stringSet (texts xs) SIGNALS 0 3 = Inr (js_sort compareCodePoints xs) \<and> field v ''signals'' = texts xs"
proof -
  obtain m xv x where e: "exact v [''signals''] = Inr m"
    and x: "required m ''signals'' = Inr xv" "stringSet xv SIGNALS 0 3 = Inr x" and c: "c = object [(''signals'', texts x)]"
    using assms unfolding process_constraints_def by (auto simp: bindR_Inr)
  then show ?thesis using exact_required [OF e x(1)] stringSet_texts [OF x(2)] by blast
qed

lemma process_shape:
  assumes "process_constraints P name v = Inr c"
    "name \<notin> {''host.process.network'', ''host.process.execute'', ''host.process.shell'', ''host.process.signal''}"
  shows "\<exists>xs n ss. c = object [(''executableIds'', sorted_ids xs), (''maxProcesses'', num n), (''signals'', texts (js_sort compareCodePoints ss))] \<and>
    identifiers (texts xs) 256 = Inr (sorted_ids xs) \<and> stringSet (texts ss) SIGNALS 0 3 = Inr (js_sort compareCodePoints ss) \<and>
    0 \<le> n \<and> n \<le> 100000 \<and>
    field v ''executableIds'' = texts xs \<and> field v ''maxProcesses'' = num n \<and> field v ''signals'' = texts ss"
proof -
  obtain m xv x n sv s where e: "exact v [''executableIds'', ''maxProcesses'', ''signals''] = Inr m"
    and x: "required m ''executableIds'' = Inr xv" "identifiers xv 256 = Inr x"
    and n: "required m ''maxProcesses'' = Inr (num n)" "0 \<le> n" "n \<le> 100000"
    and s: "required m ''signals'' = Inr sv" "stringSet sv SIGNALS 0 3 = Inr s"
    and c: "c = object [(''executableIds'', x), (''maxProcesses'', num n), (''signals'', texts s)]"
    using assms unfolding process_constraints_def by (auto simp: bindR_Inr integer_Inr)
  then show ?thesis
    using exact_required [OF e x(1)] exact_required [OF e n(1)] exact_required [OF e s(1)] identifiers_texts [OF x(2)] stringSet_texts [OF s(2)]
    by blast
qed

section \<open>Credentials and readers\<close>

lemma credential_shape:
  assumes "normalizeCapabilityConstraints P ''host.storage.credential'' v = Inr c"
  shows "\<exists>xs us. c = object [(''stores'', sorted_ids xs), (''usages'', texts (js_sort compareCodePoints us))] \<and>
    identifiers (texts xs) 64 = Inr (sorted_ids xs) \<and>
    stringSet (texts us) [''gitHttp'', ''httpAuthorization''] 1 2 = Inr (js_sort compareCodePoints us) \<and>
    field v ''stores'' = texts xs \<and> field v ''usages'' = texts us"
proof -
  obtain m xv x uv u where e: "exact v [''stores'', ''usages''] = Inr m"
    and x: "required m ''stores'' = Inr xv" "identifiers xv 64 = Inr x"
    and u: "required m ''usages'' = Inr uv" "stringSet uv [''gitHttp'', ''httpAuthorization''] 1 2 = Inr u"
    and c: "c = object [(''stores'', x), (''usages'', texts u)]"
    using assms unfolding normalizeCapabilityConstraints_def by (auto simp: bindR_Inr)
  then show ?thesis
    using exact_required [OF e x(1)] exact_required [OF e u(1)] identifiers_texts [OF x(2)] stringSet_texts [OF u(2)] by blast
qed

definition reader_constraints :: "data \<Rightarrow> kernel_error + data" where
  "reader_constraints v =
     bindR (exact v [''maxReadBytes'', ''maxReads'']) (\<lambda>input.
     bindR (required input ''maxReadBytes'') (\<lambda>bytes.
     bindR (integer bytes 0 (1024 * 1024)) (\<lambda>bytes.
     bindR (required input ''maxReads'') (\<lambda>reads.
     bindR (integer reads 0 1024) (\<lambda>reads.
       Inr (object [(''maxReadBytes'', num bytes), (''maxReads'', num reads)]))))))"

lemma reader_shape:
  assumes "reader_constraints v = Inr c"
  shows "\<exists>n k. c = object [(''maxReadBytes'', num n), (''maxReads'', num k)] \<and> 0 \<le> n \<and> n \<le> 1024 * 1024 \<and> 0 \<le> k \<and> k \<le> 1024 \<and>
    field v ''maxReadBytes'' = num n \<and> field v ''maxReads'' = num k"
proof -
  obtain m n k where e: "exact v [''maxReadBytes'', ''maxReads''] = Inr m"
    and n: "required m ''maxReadBytes'' = Inr (num n)" "0 \<le> n" "n \<le> 1024 * 1024"
    and k: "required m ''maxReads'' = Inr (num k)" "0 \<le> k" "k \<le> 1024"
    and c: "c = object [(''maxReadBytes'', num n), (''maxReads'', num k)]"
    using assms unfolding reader_constraints_def bindR_Inr integer_Inr by auto
  then show ?thesis using exact_required [OF e n(1)] exact_required [OF e k(1)] by blast
qed

section \<open>Storage\<close>

lemma scalarText_Inr: "scalarText v n e = Inr s \<longleftrightarrow> v = D_str s \<and> scalarText (D_str s) n e = Inr s"
  by (cases v) (auto simp: scalarText_def boundedText_def bindR_Inr split: if_splits)

lemma sortedUnique_literals: "sortedUnique v a b (\<lambda>item. literal item ks) = stringSet v ks a b"
  by (simp add: sortedUnique_def stringSet_def)

lemma scalars: "mapE (\<lambda>item. scalarText item n e) xs = Inr ss \<longleftrightarrow> xs = map D_str ss \<and> list_all (\<lambda>s. scalarText (D_str s) n e = Inr s) ss"
proof -
  have "(\<lambda>x y. scalarText x n e = Inr y) = (\<lambda>x y. x = D_str y \<and> scalarText (D_str y) n e = Inr y)"
    by (intro ext) (rule scalarText_Inr)
  then show ?thesis by (simp only: mapE_Inr list_all2_D_str)
qed

definition scalar_set :: "nat \<Rightarrow> bool \<Rightarrow> jstring list \<Rightarrow> bool" where
  "scalar_set n e ys \<longleftrightarrow> length ys \<le> 64 \<and> distinct ys \<and> list_all (\<lambda>s. scalarText (D_str s) n e = Inr s) ys"

lemma sortedUnique_scalars:
  "sortedUnique v 0 64 (\<lambda>item. scalarText item n e) = Inr xs \<longleftrightarrow> (\<exists>ys. v = texts ys \<and> scalar_set n e ys \<and> xs = js_sort compareCodePoints ys)"
  unfolding sortedUnique_def bindR_Inr array_Inr scalars texts_def scalar_set_def
  by (fastforce split: if_splits)

definition namespace_of :: "jstring list \<Rightarrow> jstring list \<Rightarrow> jstring \<Rightarrow> jstring list \<Rightarrow> data" where
  "namespace_of dbs kps nid ops =
     object [(''databases'', texts dbs), (''keyPrefixes'', texts kps), (''namespaceId'', D_str nid), (''operations'', texts ops)]"

lemma namespace_of_fields [simp]:
  "field (namespace_of dbs kps nid ops) ''databases'' = texts dbs" "field (namespace_of dbs kps nid ops) ''keyPrefixes'' = texts kps"
  "field (namespace_of dbs kps nid ops) ''namespaceId'' = D_str nid" "field (namespace_of dbs kps nid ops) ''operations'' = texts ops"
  by (simp_all add: namespace_of_def)

abbreviation sorted_scalars :: "jstring list \<Rightarrow> jstring list" where
  "sorted_scalars xs \<equiv> js_sort compareCodePoints xs"

definition namespace_ok :: "(string \<Rightarrow> int) \<Rightarrow> jstring list \<Rightarrow> jstring list \<Rightarrow> jstring \<Rightarrow> jstring list \<Rightarrow> bool" where
  "namespace_ok f dbs kps nid ops \<longleftrightarrow>
     scalar_set (nat (f ''maxDatabaseNameBytes'')) False dbs \<and> scalar_set (nat (f ''maxKeyBytes'')) True kps \<and>
     identifier_v (D_str nid) 128 = Inr nid \<and>
     stringSet (texts ops) STORAGE_OPERATIONS 1 (length STORAGE_OPERATIONS) = Inr (sorted_scalars ops) \<and>
     (list_ex kv_operation ops \<longrightarrow> kps \<noteq> []) \<and> (list_ex sqlite_operation ops \<longrightarrow> dbs \<noteq> [])"

lemma js_sort_empty [simp]: "js_sort cmp xs = [] \<longleftrightarrow> xs = []"
  by (metis length_0_conv length_js_sort)

lemma list_ex_js_sort [simp]: "list_ex Q (js_sort cmp xs) = list_ex Q xs"
  by (simp add: list_ex_iff)

lemma limit_map_field: "k \<in> set ks \<Longrightarrow> field (limit_map ks f) k = num (f k)"
  using limit_map_reads [of ks f] by (simp add: reads_limits_def field_def key_def)

lemma namespace_shape:
  assumes "storage_namespace (limit_map (map fst STORAGE_LIMIT_MAXIMA) f) v = Inr c"
  shows "\<exists>dbs kps nid ops. c = namespace_of (sorted_scalars dbs) (sorted_scalars kps) nid (sorted_scalars ops) \<and>
    namespace_ok f dbs kps nid ops \<and>
    field v ''databases'' = texts dbs \<and> field v ''keyPrefixes'' = texts kps \<and> field v ''namespaceId'' = D_str nid \<and>
    field v ''operations'' = texts ops"
proof -
  have f: "number (field (limit_map (map fst STORAGE_LIMIT_MAXIMA) f) ''maxKeyBytes'') = of_int (f ''maxKeyBytes'')"
    "number (field (limit_map (map fst STORAGE_LIMIT_MAXIMA) f) ''maxDatabaseNameBytes'') = of_int (f ''maxDatabaseNameBytes'')"
    by (simp_all add: limit_map_field STORAGE_LIMIT_MAXIMA_def)
  obtain m ov ops kps dbs nid where e: "exact v [''databases'', ''keyPrefixes'', ''namespaceId'', ''operations''] = Inr m"
    and o: "required m ''operations'' = Inr ov" "stringSet ov STORAGE_OPERATIONS 1 (length STORAGE_OPERATIONS) = Inr ops"
    and k: "required m ''keyPrefixes'' = Inr (texts kps)" "scalar_set (nat (f ''maxKeyBytes'')) True kps"
    and d: "required m ''databases'' = Inr (texts dbs)" "scalar_set (nat (f ''maxDatabaseNameBytes'')) False dbs"
    and c1: "\<not> (list_ex kv_operation ops \<and> kps = [])" "\<not> (list_ex sqlite_operation ops \<and> dbs = [])"
    and n: "required m ''namespaceId'' = Inr (D_str nid)" "identifier_v (D_str nid) 128 = Inr nid"
    and c: "c = namespace_of (sorted_scalars dbs) (sorted_scalars kps) nid ops"
    using assms unfolding storage_namespace_def bindR_Inr sortedUnique_literals sortedUnique_scalars f
    by (auto simp: identifier_v_Inr bindR_Inr namespace_of_def split: if_splits)
  obtain ys where ys: "ov = texts ys" "ops = sorted_scalars ys"
    "stringSet (texts ys) STORAGE_OPERATIONS 1 (length STORAGE_OPERATIONS) = Inr (sorted_scalars ys)"
    using stringSet_texts [OF o(2)] by blast
  note exact_required [OF e o(1)] exact_required [OF e k(1)] exact_required [OF e d(1)] exact_required [OF e n(1)]
  then show ?thesis using c k d n c1 ys
    by (intro exI [of _ dbs] exI [of _ kps] exI [of _ nid] exI [of _ ys]) (auto simp: namespace_ok_def)
qed

definition storage_of :: "jstring list \<Rightarrow> jstring list \<Rightarrow> jstring \<Rightarrow> jstring list \<Rightarrow> (string \<Rightarrow> int) \<Rightarrow> data" where
  "storage_of dbs kps nid ops f =
     object [(''databases'', texts dbs), (''keyPrefixes'', texts kps), (''namespaceId'', D_str nid), (''operations'', texts ops),
             (''limits'', limit_map (map fst STORAGE_LIMIT_MAXIMA) f)]"

lemma storage_of_fields [simp]:
  "field (storage_of dbs kps nid ops f) ''databases'' = texts dbs" "field (storage_of dbs kps nid ops f) ''keyPrefixes'' = texts kps"
  "field (storage_of dbs kps nid ops f) ''namespaceId'' = D_str nid" "field (storage_of dbs kps nid ops f) ''operations'' = texts ops"
  "field (storage_of dbs kps nid ops f) ''limits'' = limit_map (map fst STORAGE_LIMIT_MAXIMA) f"
  by (simp_all add: storage_of_def)

text \<open>\<open>storage_reads\<close>: what the value has under its keys; \<open>storage_ok\<close>: what its normalization asks for.\<close>

definition storage_reads :: "data \<Rightarrow> jstring list \<Rightarrow> jstring list \<Rightarrow> jstring \<Rightarrow> jstring list \<Rightarrow> (string \<Rightarrow> int) \<Rightarrow> bool" where
  "storage_reads v dbs kps nid ops f \<longleftrightarrow>
     field v ''databases'' = texts dbs \<and> field v ''keyPrefixes'' = texts kps \<and> field v ''namespaceId'' = D_str nid \<and>
     field v ''operations'' = texts ops \<and> reads_limits (field v ''limits'') (map fst STORAGE_LIMIT_MAXIMA) f"

definition storage_ok :: "platform \<Rightarrow> jstring list \<Rightarrow> jstring list \<Rightarrow> jstring \<Rightarrow> jstring list \<Rightarrow> (string \<Rightarrow> int) \<Rightarrow> bool" where
  "storage_ok P dbs kps nid ops f \<longleftrightarrow>
     namespace_ok f dbs kps nid ops \<and> limits_ok STORAGE_LIMIT_MAXIMA 1 f \<and>
     policy_utf8ByteLength (stringify (number_text P)
       (J_list [plain_value (namespace_of (sorted_scalars dbs) (sorted_scalars kps) nid (sorted_scalars ops))])) \<le> 256 * 1024"

lemma js_sort_single [simp]: "js_sort cmp [x] = [x]"
  by (simp add: js_sort_def)

lemma exact_all:
  "exact (object [(''access'', a), (''limits'', l), (''namespaces'', n)]) [''access'', ''limits'', ''namespaces''] =
     Inr [(js ''access'', a), (js ''limits'', l), (js ''namespaces'', n)]"
  by (simp add: exact_object)

lemma storage_sandbox_single:
  assumes "normalizeStorageSandbox P (object [(''access'', text_v ''sandboxed''), (''limits'', lv), (''namespaces'', D_list [nv])]) = Inr c"
  shows "\<exists>l n. normalizeStorageLimits lv = Inr l \<and> storage_namespace l nv = Inr n \<and>
    policy_utf8ByteLength (stringify (number_text P) (J_list [plain_value n])) \<le> 256 * 1024 \<and>
    c = object [(''access'', text_v ''sandboxed''), (''limits'', l), (''namespaces'', D_list [n])]"
proof -
  obtain l ns where l: "normalizeStorageLimits lv = Inr l" and ns: "mapE (storage_namespace l) [nv] = Inr ns"
    and size: "policy_utf8ByteLength (stringify (number_text P) (J_list (map plain_value
        (js_sort (\<lambda>l r. compareCodePoints (the_text (field l ''namespaceId'')) (the_text (field r ''namespaceId''))) ns)))) \<le> 256 * 1024"
    and c: "c = object [(''access'', text_v ''sandboxed''), (''limits'', l),
        (''namespaces'', D_list (js_sort (\<lambda>l r. compareCodePoints (the_text (field l ''namespaceId'')) (the_text (field r ''namespaceId''))) ns))]"
    using assms unfolding normalizeStorageSandbox_def exact_all bindR_Inr Let_def check_Inr not_less
    by (auto simp: required_def literal_Inr array_Inr text_v_def bindR_Inr not_less simp del: mapE.simps)
  obtain n where "storage_namespace l nv = Inr n" "ns = [n]" using ns by (cases "storage_namespace l nv") auto
  then show ?thesis using l size c by auto
qed

lemma storage_shape:
  assumes "storage_constraints P v = Inr c"
  shows "\<exists>dbs kps nid ops f. c = storage_of (sorted_scalars dbs) (sorted_scalars kps) nid (sorted_scalars ops) f \<and>
    storage_ok P dbs kps nid ops f \<and> storage_reads v dbs kps nid ops f"
proof -
  obtain m lv dv kv nv ov s where e: "exact v [''databases'', ''keyPrefixes'', ''limits'', ''namespaceId'', ''operations''] = Inr m"
    and r: "required m ''limits'' = Inr lv" "required m ''databases'' = Inr dv" "required m ''keyPrefixes'' = Inr kv"
      "required m ''namespaceId'' = Inr nv" "required m ''operations'' = Inr ov"
    and s: "normalizeStorageSandbox P (object [(''access'', text_v ''sandboxed''), (''limits'', lv),
       (''namespaces'', D_list [object [(''databases'', dv), (''keyPrefixes'', kv), (''namespaceId'', nv), (''operations'', ov)]])]) = Inr s"
    and c: "c = D_map (entries (hd (items (field s ''namespaces''))) @ [(js ''limits'', field s ''limits'')])"
    using assms unfolding storage_constraints_def by (auto simp: bindR_Inr split: if_splits)
  from storage_sandbox_single [OF s] obtain l n where l: "normalizeStorageLimits lv = Inr l"
    and n: "storage_namespace l (object [(''databases'', dv), (''keyPrefixes'', kv), (''namespaceId'', nv), (''operations'', ov)]) = Inr n"
    and size: "policy_utf8ByteLength (stringify (number_text P) (J_list [plain_value n])) \<le> 256 * 1024"
    and s': "s = object [(''access'', text_v ''sandboxed''), (''limits'', l), (''namespaces'', D_list [n])]" by blast
  obtain f where f: "l = limit_map (map fst STORAGE_LIMIT_MAXIMA) f" "limits_ok STORAGE_LIMIT_MAXIMA 1 f"
    "reads_limits lv (map fst STORAGE_LIMIT_MAXIMA) f" using storage_limits_Inr [OF l] by blast
  obtain dbs kps nid ops where q: "n = namespace_of (sorted_scalars dbs) (sorted_scalars kps) nid (sorted_scalars ops)"
      "namespace_ok f dbs kps nid ops" "dv = texts dbs" "kv = texts kps" "nv = D_str nid" "ov = texts ops"
    using namespace_shape [OF n [unfolded f(1)]] by auto
  have "storage_reads v dbs kps nid ops f"
    using r [THEN exact_required [OF e]] f q by (simp add: storage_reads_def)
  moreover have "storage_ok P dbs kps nid ops f" using f q size by (simp add: storage_ok_def)
  moreover have "c = storage_of (sorted_scalars dbs) (sorted_scalars kps) nid (sorted_scalars ops) f"
  proof -
    have "c = D_map (entries n @ [(js ''limits'', l)])" using c s' by simp
    then show ?thesis unfolding q(1) namespace_of_def entries_object f(1) by (simp add: storage_of_def object_def)
  qed
  ultimately show ?thesis by blast
qed

end
