(* ===== verification/Capability_Lattice.thy ===== *)
theory Capability_Lattice
  imports Capability_Shapes
begin

text \<open>
  The meet of two normal forms is below both, and above everything that is below both.
\<close>

section \<open>Normalization by kind\<close>

fun norm_kind :: "platform \<Rightarrow> string \<Rightarrow> kind \<Rightarrow> data \<Rightarrow> kernel_error + data" where
  "norm_kind P name K_fs v = filesystem_constraints P v"
| "norm_kind P name K_http v = network_constraints P v ''restricted''"
| "norm_kind P name K_mock v = network_constraints P v ''mockOnly''"
| "norm_kind P name K_device v = device_constraints v"
| "norm_kind P name K_system v = system_constraints v"
| "norm_kind P name K_process_network v = process_network P v"
| "norm_kind P name K_execute v = process_constraints P ''host.process.execute'' v"
| "norm_kind P name K_shell v = process_constraints P ''host.process.shell'' v"
| "norm_kind P name K_signal v = process_constraints P ''host.process.signal'' v"
| "norm_kind P name K_process v = process_constraints P name v"
| "norm_kind P name K_storage v = storage_constraints P v"
| "norm_kind P name K_credential v = normalizeCapabilityConstraints P ''host.storage.credential'' v"
| "norm_kind P name K_reader v = reader_constraints v"

lemma normalize_of_kind: "normalizeCapabilityConstraints P name v = norm_kind P name (kind_of name) v"
proof (cases "name \<in> set exact_names")
  case True
  then show ?thesis unfolding exact_names_def list.set
    by (elim insertE) (simp_all add: kind_of_def normalizeCapabilityConstraints_def process_constraints_def)
next
  case False
  then have n: "list_all (\<lambda>n. name \<noteq> n) exact_names" by (auto simp: list_all_iff)
  show ?thesis using n unfolding exact_names_def list.pred_inject
    by (cases "begins name ''host.device.''"; cases "begins name ''host.system.''"; cases "begins name ''host.process.''")
       (simp_all only: normalizeCapabilityConstraints_def kind_of_def norm_kind.simps reader_constraints_def if_True if_False HOL.simp_thms)
qed

lemma process_other:
  "kind_of name = K_process \<Longrightarrow> name \<notin> {''host.process.network'', ''host.process.execute'', ''host.process.shell'', ''host.process.signal''}"
  by (auto simp: kind_of_def)

section \<open>Meet by kind\<close>

definition meet_kind :: "string \<Rightarrow> kind \<Rightarrow> data \<Rightarrow> data \<Rightarrow> data option" where
  "meet_kind name k l r =
     (case k of
        K_fs \<Rightarrow> meetFs l r | K_http \<Rightarrow> meetNetwork l r | K_mock \<Rightarrow> meetNetwork l r
      | K_process_network \<Rightarrow> meetProcessNetwork l r | K_execute \<Rightarrow> meetExecute l r
      | _ \<Rightarrow> map_option D_map (meet_entries name r (entries l)))"

lemma meet_of_kind: "meet_normal name l r = meet_kind name (kind_of name) l r"
proof (cases "name \<in> set exact_names")
  case True
  then show ?thesis unfolding exact_names_def list.set
    by (elim insertE) (simp_all add: kind_of_def meet_normal_def meet_kind_def)
next
  case False
  then have n: "list_all (\<lambda>n. name \<noteq> n) exact_names" by (auto simp: list_all_iff)
  show ?thesis using n unfolding exact_names_def list.pred_inject
    by (cases "begins name ''host.device.''"; cases "begins name ''host.system.''"; cases "begins name ''host.process.''")
       (simp_all only: meet_normal_def kind_of_def meet_kind_def kind.case if_True if_False HOL.simp_thms)
qed

section \<open>The parts of a meet\<close>

lemma items_intersect: "set (items (intersect l r)) = set (items l) \<inter> set (items r)"
  by (auto simp: intersect_def)

lemma intersect_below [simp]: "setAtLeast l (intersect l r)" "setAtLeast r (intersect l r)"
  by (auto simp: setAtLeast_iff items_intersect)

lemma intersect_above: "setAtLeast l c \<Longrightarrow> setAtLeast r c \<Longrightarrow> setAtLeast (intersect l r) c"
  by (auto simp: setAtLeast_iff items_intersect)

lemma min_below [simp]: "at_least (num a) (min_of (num a) (num b))" "at_least (num b) (min_of (num a) (num b))"
  by simp_all

lemma min_above: "at_least l c \<Longrightarrow> at_least r c \<Longrightarrow> at_least (min_of l r) c"
  by (auto simp: at_least_def min_of_def number_def split: data.splits jsnum.splits)

lemma meetNumbers_lookup:
  "lookup_key (entries (meetNumbers l r)) k =
     (if k \<in> fst ` set (entries l) then min_of (lookup_key (entries l) k) (lookup_key (entries r) k) else D_undefined)"
proof -
  have "map_of (map (\<lambda>(k, v). (k, min_of v (lookup_key b k))) m) k = map_option (\<lambda>v. min_of v (lookup_key b k)) (map_of m k)" for m b
    by (induction m) auto
  moreover have "entries (meetNumbers l r) = map (\<lambda>(k, v). (k, min_of v (lookup_key (entries r) k))) (entries l)"
    by (simp add: meetNumbers_def entries_def)
  moreover have "k \<in> fst ` set (entries l) \<longleftrightarrow> map_of (entries l) k \<noteq> None" by (simp add: map_of_eq_None_iff)
  ultimately show ?thesis by (cases "map_of (entries l) k") (simp_all add: lookup_key_def)
qed

lemma meetNumbers_keys: "fst ` set (entries (meetNumbers l r)) = fst ` set (entries l)"
  by (force simp: meetNumbers_def entries_def)

lemma meetNumbers_reads:
  "reads_limits l ks f \<Longrightarrow> reads_limits r ks g \<Longrightarrow> reads_limits (meetNumbers l r) ks (\<lambda>k. min (f k) (g k))"
  by (simp add: reads_limits_def meetNumbers_keys meetNumbers_lookup)

lemma meetNumbers_below:
  "reads_limits l ks f \<Longrightarrow> reads_limits r ks g \<Longrightarrow> numbersAtLeast l (meetNumbers l r) \<and> numbersAtLeast r (meetNumbers l r)"
  using meetNumbers_reads [of l ks f r g] by (auto simp: numbersAtLeast_reads)

lemma meetNumbers_above:
  assumes "numbersAtLeast l c" "numbersAtLeast r c"
  shows "numbersAtLeast (meetNumbers l r) c"
  unfolding numbersAtLeast_iff
proof
  fix k assume k: "k \<in> fst ` set (entries c)"
  have l: "at_least (lookup_key (entries l) k) (lookup_key (entries c) k)" and r: "at_least (lookup_key (entries r) k) (lookup_key (entries c) k)"
    using assms k unfolding numbersAtLeast_iff by blast+
  have "map_of (entries l) k \<noteq> None" using l by (cases "map_of (entries l) k") (simp_all add: at_least_def lookup_key_def)
  then have "k \<in> fst ` set (entries l)" by (simp add: map_of_eq_None_iff)
  then show "at_least (lookup_key (entries (meetNumbers l r)) k) (lookup_key (entries c) k)"
    using l r min_above by (simp add: meetNumbers_lookup)
qed

lemma meet_entries_lookup:
  assumes "meet_entries name r m = Some m'"
  shows "map_of m' k = (case map_of m k of None \<Rightarrow> None | Some a \<Rightarrow> meet_values name k a (lookup_key (entries r) k))"
  using assms by (induction m arbitrary: m') (auto split: option.splits)

lemma meet_entries_field:
  assumes "meet_entries name r (entries (object m)) = Some m'" "map_of m k = Some a"
  shows "\<exists>v. meet_values name (js k) a (field r k) = Some v \<and> field (D_map m') k = v"
proof -
  have "\<exists>v. meet_values name q b (lookup_key (entries r) q) = Some v"
    if "meet_entries name r es = Some m'" "map_of es q = Some b" for es m' q b
    using that by (induction es arbitrary: m') (auto split: option.splits if_splits)
  moreover have "map_of (entries (object m)) (js k) = Some a" using assms(2) by (simp add: map_of_js)
  ultimately show ?thesis
    using assms(1) meet_entries_lookup [OF assms(1), of "js k"] by (fastforce simp: field_def key_def entries_def lookup_key_def)
qed

lemma meet_values_texts [simp]: "meet_values name k (texts xs) b = Some v \<Longrightarrow> \<exists>ys. b = D_list ys \<Longrightarrow> v = intersect (texts xs) b"
  by (auto simp: meet_values_def texts_def Let_def split: if_splits)

lemma meet_values_num: "meet_values name k (num a) (num b) = Some (num (min a b))"
  using min_of_num [of a b] unfolding num_def by (simp add: meet_values_def)

section \<open>File system\<close>

lemma meet_roots_below:
  assumes "meet_roots a b = Some m" "root_reads a sa ra ia la" "root_reads b sb rb ib lb"
    "la \<in> {''deny'', ''withinRoot''}" "lb \<in> {''deny'', ''withinRoot''}"
  shows "root_covers a m \<and> root_covers b m"
proof -
  obtain p where p: "commonPrefix (map D_str sa) (map D_str sb) = Some p" and i: "ia = ib"
    and m: "m = object [(''pathPrefixSegments'', D_list p), (''rights'', intersect (texts ra) (texts rb)), (''rootId'', D_str ia),
      (''symlinks'', if la = ''deny'' \<or> lb = ''deny'' then text_v ''deny'' else text_v ''withinRoot'')]"
    using assms(1-3) by (auto simp: meet_roots_def root_reads_def Let_def split: if_splits option.splits)
  have "prefixContains (map D_str sa) p \<and> prefixContains (map D_str sb) p"
    using p by (auto simp: commonPrefix_def prefixContains_def split: if_splits)
  then show ?thesis
    using assms(2-5) m i by (auto simp: root_covers_def root_reads_def)
qed

lemma prefix_compare:
  assumes "prefixContains a x" "prefixContains b x"
  shows "\<exists>p. commonPrefix a b = Some p \<and> prefixContains p x"
proof -
  have "take (length a) b = a" if "length a \<le> length b" "prefixContains a x" "prefixContains b x" for a b :: "data list"
    using that unfolding prefixContains_def by (metis min.absorb1 take_take)
  then show ?thesis using assms by (cases "length a \<le> length b") (auto simp: commonPrefix_def)
qed

lemma meet_roots_above:
  assumes "root_covers a x" "root_covers b x" "items (field x ''rights'') \<noteq> []"
  shows "\<exists>m. meet_roots a b = Some m \<and> root_covers m x"
proof -
  obtain p where p: "commonPrefix (items (field a ''pathPrefixSegments'')) (items (field b ''pathPrefixSegments'')) = Some p"
      "prefixContains p (items (field x ''pathPrefixSegments''))"
    using prefix_compare assms(1, 2) unfolding root_covers_def by blast
  have r: "setAtLeast (intersect (field a ''rights'') (field b ''rights'')) (field x ''rights'')"
    using assms(1, 2) intersect_above unfolding root_covers_def by blast
  then have "items (intersect (field a ''rights'') (field b ''rights'')) \<noteq> []"
    using assms(3) by (auto simp: setAtLeast_iff)
  then show ?thesis using p r assms(1, 2) by (auto simp: meet_roots_def Let_def root_covers_def)
qed

lemma in_map_filter: "x \<in> set (List.map_filter f xs) \<longleftrightarrow> (\<exists>y \<in> set xs. f y = Some x)"
  by (induction xs) (auto simp: List.map_filter_simps split: option.splits)

lemma meetFs_Some:
  assumes "meetFs l r = Some m"
  shows "field m ''limits'' = meetNumbers (field l ''limits'') (field r ''limits'') \<and>
    set (items (field m ''roots'')) =
      {x. \<exists>a \<in> set (items (field l ''roots'')). \<exists>b \<in> set (items (field r ''roots'')). meet_roots a b = Some x}"
proof -
  have "m = object [(''limits'', meetNumbers (field l ''limits'') (field r ''limits'')),
      (''roots'', D_list (concat (map (\<lambda>l. List.map_filter (meet_roots l) (items (field r ''roots''))) (items (field l ''roots'')))))]"
    using assms by (simp add: meetFs_def Let_def split: if_splits)
  then show ?thesis by (auto simp: in_map_filter) blast
qed

lemma root_of_reads: "root_reads (root_of s r i k) s r i k"
  by (simp add: root_reads_def)

lemma fs_roots:
  assumes "filesystem_constraints P v = Inr c" "x \<in> set (items (field c ''roots''))"
  shows "\<exists>s r i k. x = root_of s r i k \<and> k \<in> {''deny'', ''withinRoot''} \<and> r \<noteq> []"
proof -
  obtain xs rs f where c: "c = object [(''limits'', limit_map FS_LIMITS f), (''roots'', D_list (js_sort (root_order P) rs))]"
    and rs: "mapE fs_root xs = Inr rs" using filesystem_shape [OF assms(1)] by blast
  have "list_all2 (\<lambda>x y. fs_root x = Inr y) xs rs" using rs by (simp add: mapE_Inr)
  moreover have "x \<in> set rs" using assms(2) c by simp
  ultimately obtain y where "fs_root y = Inr x" by (induction rule: list_all2_induct) auto
  from root_shape [OF this] obtain s r i k where "x = root_of s (js_sort compareCodePoints r) i k" "root_ok s r i k" by blast
  moreover have "r \<noteq> []" using calculation(2) by (auto simp: root_ok_def stringSet_Inr texts_def)
  ultimately show ?thesis
    by (intro exI [of _ s] exI [of _ "js_sort compareCodePoints r"] exI [of _ i] exI [of _ k]) (simp add: root_ok_def)
qed

lemma fs_limits: "filesystem_constraints P v = Inr c \<Longrightarrow> \<exists>f. reads_limits (field c ''limits'') FS_LIMITS f"
  using filesystem_shape limit_map_reads by fastforce

lemma meetFs_below:
  assumes "filesystem_constraints P lv = Inr l" "filesystem_constraints P rv = Inr r" "meetFs l r = Some m"
  shows "satisfiesFs l m \<and> satisfiesFs r m"
proof -
  have "\<exists>a \<in> set (items (field l ''roots'')). root_covers a x" "\<exists>b \<in> set (items (field r ''roots'')). root_covers b x"
    if x: "x \<in> set (items (field m ''roots''))" for x
  proof -
    obtain a b where ab: "a \<in> set (items (field l ''roots''))" "b \<in> set (items (field r ''roots''))" "meet_roots a b = Some x"
      using meetFs_Some [OF assms(3)] x by auto
    obtain sa ra ia ka sb rb ib kb where "root_reads a sa ra ia ka" "ka \<in> {''deny'', ''withinRoot''}"
        "root_reads b sb rb ib kb" "kb \<in> {''deny'', ''withinRoot''}"
      using fs_roots [OF assms(1) ab(1)] fs_roots [OF assms(2) ab(2)] root_of_reads by blast
    then have "root_covers a x \<and> root_covers b x" using meet_roots_below [OF ab(3)] by blast
    then show "\<exists>a \<in> set (items (field l ''roots'')). root_covers a x" "\<exists>b \<in> set (items (field r ''roots'')). root_covers b x"
      using ab by blast+
  qed
  moreover have "numbersAtLeast (field l ''limits'') (field m ''limits'') \<and> numbersAtLeast (field r ''limits'') (field m ''limits'')"
    using fs_limits [OF assms(1)] fs_limits [OF assms(2)] meetNumbers_below conjunct1 [OF meetFs_Some [OF assms(3)]] by auto
  ultimately show ?thesis unfolding satisfiesFs_def list_all_iff list_ex_iff by blast
qed

lemma meetFs_above:
  assumes "filesystem_constraints P v = Inr c" "satisfiesFs l c" "satisfiesFs r c" "meetFs l r = Some m"
  shows "satisfiesFs m c"
proof -
  have "\<exists>q \<in> set (items (field m ''roots'')). root_covers q x" if x: "x \<in> set (items (field c ''roots''))" for x
  proof -
    obtain a b where ab: "a \<in> set (items (field l ''roots''))" "root_covers a x" "b \<in> set (items (field r ''roots''))" "root_covers b x"
      using assms(2, 3) x unfolding satisfiesFs_def list_all_iff list_ex_iff by meson
    moreover have "items (field x ''rights'') \<noteq> []" using fs_roots [OF assms(1) x] by auto
    ultimately obtain q where "meet_roots a b = Some q" "root_covers q x" using meet_roots_above by blast
    then show ?thesis using meetFs_Some [OF assms(4)] ab by blast
  qed
  moreover have "numbersAtLeast (field m ''limits'') (field c ''limits'')"
    unfolding conjunct1 [OF meetFs_Some [OF assms(4)]]
    by (rule meetNumbers_above) (use assms(2, 3) in \<open>simp_all only: satisfiesFs_def\<close>)
  ultimately show ?thesis unfolding satisfiesFs_def list_all_iff list_ex_iff by blast
qed

section \<open>Network\<close>

lemma meetNetwork_below:
  assumes "network_constraints P lv e = Inr l" "network_constraints P rv e = Inr r" "meetNetwork l r = Some m"
  shows "satisfiesNetwork l m \<and> satisfiesNetwork r m"
proof -
  obtain b n f os ss where l: "l = object [(''allowPrivateNetwork'', D_bool b), (''inspectRequestBodyBytes'', num n),
      (''limits'', limit_map NETWORK_LIMITS f), (''mode'', text_v e), (''origins'', texts os), (''schemes'', texts ss)]"
    using network_shape [OF assms(1)] by blast
  obtain b' n' f' os' ss' where r: "r = object [(''allowPrivateNetwork'', D_bool b'), (''inspectRequestBodyBytes'', num n'),
      (''limits'', limit_map NETWORK_LIMITS f'), (''mode'', text_v e), (''origins'', texts os'), (''schemes'', texts ss')]"
    using network_shape [OF assms(2)] by blast
  have m: "m = object [(''allowPrivateNetwork'', D_bool (b \<and> b')), (''inspectRequestBodyBytes'', min_of (num n) (num n')),
      (''limits'', meetNumbers (limit_map NETWORK_LIMITS f) (limit_map NETWORK_LIMITS f')), (''mode'', text_v e),
      (''origins'', intersect (texts os) (texts os')), (''schemes'', intersect (texts ss) (texts ss'))]"
    using assms(3) l r by (simp add: meetNetwork_def Let_def truth_def split: if_splits)
  show ?thesis
    using meetNumbers_below [OF limit_map_reads limit_map_reads, of NETWORK_LIMITS f f']
    unfolding satisfiesNetwork_def m l r by simp
qed

lemma meetNetwork_above:
  assumes "network_constraints P v e = Inr c" "satisfiesNetwork l c" "satisfiesNetwork r c" "meetNetwork l r = Some m"
  shows "satisfiesNetwork m c"
proof -
  obtain b where b: "field c ''allowPrivateNetwork'' = D_bool b" using network_shape [OF assms(1)] by auto
  have m: "m = object
      [(''allowPrivateNetwork'', D_bool (truth (field l ''allowPrivateNetwork'') \<and> truth (field r ''allowPrivateNetwork''))),
       (''inspectRequestBodyBytes'', min_of (field l ''inspectRequestBodyBytes'') (field r ''inspectRequestBodyBytes'')),
       (''limits'', meetNumbers (field l ''limits'') (field r ''limits'')), (''mode'', field l ''mode''),
       (''origins'', intersect (field l ''origins'') (field r ''origins'')), (''schemes'', intersect (field l ''schemes'') (field r ''schemes''))]"
    using assms(4) by (simp add: meetNetwork_def Let_def split: if_splits)
  show ?thesis
    using assms(2, 3) b intersect_above min_above meetNumbers_above unfolding satisfiesNetwork_def m by (auto simp: truth_def)
qed

section \<open>Processes\<close>

lemma meetExecute_Some:
  assumes "meetExecute l r = Some m"
  shows "m = object [(''executableIds'', intersect (field l ''executableIds'') (field r ''executableIds'')),
    (''limits'', meetNumbers (field l ''limits'') (field r ''limits'')), (''rootIds'', intersect (field l ''rootIds'') (field r ''rootIds''))]"
  using assms by (simp add: meetExecute_def Let_def split: if_splits)

lemma meetExecute_below:
  assumes "process_constraints P ''host.process.execute'' lv = Inr l" "process_constraints P ''host.process.execute'' rv = Inr r"
    "meetExecute l r = Some m"
  shows "covers_kind K_execute l m \<and> covers_kind K_execute r m"
proof -
  obtain f g where "field l ''limits'' = limit_map PROCESS_LIMITS f" "field r ''limits'' = limit_map PROCESS_LIMITS g"
    using execute_shape [OF assms(1)] execute_shape [OF assms(2)] by auto
  then show ?thesis
    using meetNumbers_below [OF limit_map_reads limit_map_reads, of PROCESS_LIMITS f g]
    unfolding meetExecute_Some [OF assms(3)] by simp
qed

lemma meetExecute_above:
  "covers_kind K_execute l c \<Longrightarrow> covers_kind K_execute r c \<Longrightarrow> meetExecute l r = Some m \<Longrightarrow> covers_kind K_execute m c"
  using intersect_above meetNumbers_above by (auto dest!: meetExecute_Some)

text \<open>Endpoints: with distinct identities the map of endpoints is a lookup by identity.\<close>

definition distinct_endpoints :: "data \<Rightarrow> bool" where
  "distinct_endpoints es \<longleftrightarrow> distinct (map endpoint_identity (items es))"

lemma endpoint_for_iff:
  assumes "distinct_endpoints es"
  shows "endpoint_for es k = Some e \<longleftrightarrow> e \<in> set (items es) \<and> endpoint_identity e = k"
proof -
  have "distinct (map fst (rev (map (\<lambda>e. (endpoint_identity e, e)) (items es))))"
    using assms by (simp add: distinct_endpoints_def rev_map [symmetric] comp_def)
  then show ?thesis unfolding endpoint_for_def by (auto simp: map_of_eq_Some_iff)
qed

lemma endpoint_identity_of: "endpoint_identity (endpoint_of h ps t) = js t @ 0 # h"
  by (simp add: endpoint_identity_def)

lemma network_endpoints:
  assumes "process_network P v = Inr c"
  shows "distinct_endpoints (field c ''endpoints'') \<and>
    (\<forall>e \<in> set (items (field c ''endpoints'')). \<exists>h ps t. e = endpoint_of h ps t \<and> ps \<noteq> []) \<and>
    (\<exists>n. field c ''maxSockets'' = num n) \<and> field c ''privateNetwork'' \<in> {text_v ''allow'', text_v ''deny''}"
proof -
  obtain xs es n a where c: "c = object [(''endpoints'', D_list (js_sort (endpoint_order P) es)), (''maxSockets'', num n),
      (''privateNetwork'', text_v a)]" and es: "mapE (endpoint_constraints P) xs = Inr es"
    and d: "distinct (map endpoint_identity (js_sort (endpoint_order P) es))" and a: "a \<in> {''allow'', ''deny''}"
    using process_network_shape [OF assms] by blast
  have "list_all2 (\<lambda>x e. endpoint_constraints P x = Inr e) xs es" using es by (simp add: mapE_Inr)
  then have "\<forall>e \<in> set es. \<exists>h ps t. e = endpoint_of h ps t \<and> ps \<noteq> []"
  proof (induction rule: list_all2_induct)
    case (Cons x xs e es)
    from endpoint_shape [OF Cons(1)] obtain h ps t where "e = endpoint_of (lower_case P h) (sorted_ports ps) t" "endpoint_ok P h ps t"
      by blast
    moreover have "ps \<noteq> []" using calculation(2) by (auto simp: endpoint_ok_def port_list_Inr)
    ultimately have "\<exists>h ps t. e = endpoint_of h ps t \<and> ps \<noteq> []" by (metis js_sort_empty)
    then show ?case using Cons by simp
  qed simp
  then show ?thesis using c d a by (auto simp: distinct_endpoints_def simp del: distinct_js_sort)
qed

lemma meet_endpoint_Some:
  assumes "meet_endpoint es e = Some x"
  shows "endpoint_identity x = endpoint_identity e \<and>
    (\<exists>e'. endpoint_for es (endpoint_identity e) = Some e' \<and>
       set (items (field x ''ports'')) = set (items (field e ''ports'')) \<inter> set (items (field e' ''ports'')))"
  using assms by (auto simp: meet_endpoint_def Let_def endpoint_identity_def split: option.splits if_splits)

lemma distinct_map_filter:
  assumes "distinct (map f xs)" "\<And>x y. g x = Some y \<Longrightarrow> f y = f x"
  shows "distinct (map f (List.map_filter g xs)) \<and> f ` set (List.map_filter g xs) \<subseteq> f ` set xs"
  using assms(1) by (induction xs) (auto simp: List.map_filter_simps assms(2) split: option.split)

lemma meetProcessNetwork_Some:
  assumes "meetProcessNetwork l r = Some m"
  shows "m = object [(''endpoints'', D_list (List.map_filter (meet_endpoint (field r ''endpoints'')) (items (field l ''endpoints'')))),
    (''maxSockets'', min_of (field l ''maxSockets'') (field r ''maxSockets'')),
    (''privateNetwork'', if field l ''privateNetwork'' = text_v ''allow'' \<and> field r ''privateNetwork'' = text_v ''allow''
                         then text_v ''allow'' else text_v ''deny'')]"
  using assms by (simp only: meetProcessNetwork_def Let_def option.inject split: if_split_asm) simp_all

lemma meetProcessNetwork_below:
  assumes "process_network P lv = Inr l" "process_network P rv = Inr r" "meetProcessNetwork l r = Some m"
  shows "satisfiesProcessNetwork l m \<and> satisfiesProcessNetwork r m"
proof -
  note m = meetProcessNetwork_Some [OF assms(3)]
  note nl = network_endpoints [OF assms(1)] and nr = network_endpoints [OF assms(2)]
  have "(\<exists>e. endpoint_for (field l ''endpoints'') (endpoint_identity x) = Some e \<and> setAtLeast (field e ''ports'') (field x ''ports'')) \<and>
      (\<exists>e. endpoint_for (field r ''endpoints'') (endpoint_identity x) = Some e \<and> setAtLeast (field e ''ports'') (field x ''ports''))"
    if x: "x \<in> set (items (field m ''endpoints''))" for x
  proof -
    obtain e where e: "e \<in> set (items (field l ''endpoints''))" "meet_endpoint (field r ''endpoints'') e = Some x"
      using x unfolding m by (auto simp: in_map_filter)
    from meet_endpoint_Some [OF e(2)] obtain e' where x': "endpoint_identity x = endpoint_identity e"
      "endpoint_for (field r ''endpoints'') (endpoint_identity x) = Some e'"
      "set (items (field x ''ports'')) = set (items (field e ''ports'')) \<inter> set (items (field e' ''ports''))" by auto
    moreover have "endpoint_for (field l ''endpoints'') (endpoint_identity x) = Some e"
      using nl e(1) x'(1) by (simp add: endpoint_for_iff)
    ultimately show ?thesis by (simp add: setAtLeast_iff)
  qed
  moreover obtain a b where "field l ''maxSockets'' = num a" "field r ''maxSockets'' = num b" using nl nr by blast
  ultimately show ?thesis unfolding satisfiesProcessNetwork_iff by (simp add: m)
qed

lemma meetProcessNetwork_above:
  assumes "process_network P lv = Inr l" "process_network P v = Inr c" "satisfiesProcessNetwork l c" "satisfiesProcessNetwork r c"
    "meetProcessNetwork l r = Some m"
  shows "satisfiesProcessNetwork m c"
proof -
  note m = meetProcessNetwork_Some [OF assms(5)]
  note nl = network_endpoints [OF assms(1)] and nc = network_endpoints [OF assms(2)]
  have d: "distinct_endpoints (field m ''endpoints'')"
    using distinct_map_filter [of endpoint_identity "items (field l ''endpoints'')" "meet_endpoint (field r ''endpoints'')"]
      nl meet_endpoint_Some by (simp add: m distinct_endpoints_def)
  have "\<exists>e. endpoint_for (field m ''endpoints'') (endpoint_identity x) = Some e \<and> setAtLeast (field e ''ports'') (field x ''ports'')"
    if x: "x \<in> set (items (field c ''endpoints''))" for x
  proof -
    obtain e where e: "endpoint_for (field l ''endpoints'') (endpoint_identity x) = Some e" "setAtLeast (field e ''ports'') (field x ''ports'')"
      using assms(3) x unfolding satisfiesProcessNetwork_iff by blast
    obtain e' where e': "endpoint_for (field r ''endpoints'') (endpoint_identity x) = Some e'" "setAtLeast (field e' ''ports'') (field x ''ports'')"
      using assms(4) x unfolding satisfiesProcessNetwork_iff by blast
    have el: "e \<in> set (items (field l ''endpoints''))" "endpoint_identity e = endpoint_identity x"
      using endpoint_for_item [OF e(1)] by auto
    have "items (field x ''ports'') \<noteq> []" using nc x by fastforce
    then obtain y where y: "meet_endpoint (field r ''endpoints'') e = Some y"
      using e(2) e' el by (fastforce simp: meet_endpoint_def Let_def setAtLeast_iff filter_empty_conv neq_Nil_conv)
    then have "y \<in> set (items (field m ''endpoints''))" using el by (auto simp: m in_map_filter)
    moreover have "endpoint_identity y = endpoint_identity x" "setAtLeast (field y ''ports'') (field x ''ports'')"
      using meet_endpoint_Some [OF y] e(2) e' el by (auto simp: setAtLeast_iff)
    ultimately show ?thesis using d endpoint_for_iff by blast
  qed
  moreover have "at_least (field m ''maxSockets'') (field c ''maxSockets'')"
    using assms(3, 4) min_above unfolding satisfiesProcessNetwork_iff m by simp
  moreover have "field c ''privateNetwork'' \<noteq> text_v ''allow'' \<or> field m ''privateNetwork'' = text_v ''allow''"
    using assms(3, 4) unfolding satisfiesProcessNetwork_iff m by auto
  ultimately show ?thesis unfolding satisfiesProcessNetwork_iff by blast
qed

section \<open>The general case\<close>

definition generic :: "kind \<Rightarrow> bool" where
  "generic k \<longleftrightarrow> k \<in> {K_device, K_system, K_shell, K_signal, K_process, K_credential, K_reader}"

lemma meet_generic: "generic k \<Longrightarrow> meet_kind name k l r = map_option D_map (meet_entries name r (entries l))"
  by (auto simp: generic_def meet_kind_def)

lemma meet_texts_field:
  assumes "meet_entries name r (entries (object m)) = Some m'" "map_of m k = Some (texts xs)" "field r k = texts ys"
  shows "field (D_map m') k = intersect (texts xs) (texts ys)"
  using meet_entries_field [OF assms(1, 2)] assms(3) meet_values_texts by (fastforce simp: texts_def)

lemma meet_num_field:
  assumes "meet_entries name r (entries (object m)) = Some m'" "map_of m k = Some (num a)" "field r k = num b"
  shows "field (D_map m') k = num (min a b)"
  using meet_entries_field [OF assms(1, 2)] assms(3) meet_values_num by auto

lemma index_in: "v = text_v (ks ! i) \<Longrightarrow> distinct ks \<Longrightarrow> i < length ks \<Longrightarrow> index_from n ks v = n + int i"
proof (induction ks arbitrary: n i)
  case (Cons k ks)
  show ?case
  proof (cases i)
    case 0
    then show ?thesis using Cons by simp
  next
    case (Suc j)
    then have "ks ! j \<noteq> k" using Cons.prems by auto
    then show ?thesis using Cons Suc by simp
  qed
qed simp

lemma meet_precision_field:
  assumes "meet_entries name r (entries (object m)) = Some m'" "map_of m ''maxPrecision'' = Some (text_v p)"
    "field r ''maxPrecision'' = text_v q" "rank = (if begins name ''host.device.'' then DEVICE_PRECISION else SYSTEM_PRECISION)"
    "p \<in> set rank" "q \<in> set rank"
  shows "index_of rank (field (D_map m') ''maxPrecision'') = min (index_of rank (text_v p)) (index_of rank (text_v q))"
proof -
  obtain v where v: "meet_values name (js ''maxPrecision'') (text_v p) (text_v q) = Some v" "field (D_map m') ''maxPrecision'' = v"
    using meet_entries_field [OF assms(1, 2)] assms(3) by auto
  have d: "distinct rank" using assms(4) by (simp add: DEVICE_PRECISION_def SYSTEM_PRECISION_def)
  obtain i j where i: "p = rank ! i" "i < length rank" and j: "q = rank ! j" "j < length rank"
    using assms(5, 6) by (auto simp: in_set_conv_nth)
  have n: "index_of rank (text_v p) = int i" "index_of rank (text_v q) = int j"
    using index_in [OF _ d] i j by simp_all
  show ?thesis
  proof (cases "p = q")
    case True
    then show ?thesis using v by (simp add: meet_values_def text_v_def)
  next
    case False
    then have "v = text_v (rank ! nat (min (index_of rank (text_v p)) (index_of rank (text_v q))))"
      using v(1) assms(4) by (auto simp: meet_values_def text_v_def Let_def)
    then have "v = text_v (rank ! min i j)" using n by (simp add: min_def)
    then have "index_of rank v = int (min i j)" using index_in [of v rank "min i j" 0] d i j by simp
    then show ?thesis using v(2) n by simp
  qed
qed

text \<open>\<open>least l r m k\<close>: the number of the meet under \<open>k\<close>.\<close>

definition least :: "data \<Rightarrow> data \<Rightarrow> data \<Rightarrow> string \<Rightarrow> bool" where
  "least l r m k \<longleftrightarrow>
     at_least (field l k) (field m k) \<and> at_least (field r k) (field m k) \<and> field m k = min_of (field l k) (field r k)"

definition common :: "data \<Rightarrow> data \<Rightarrow> data \<Rightarrow> string \<Rightarrow> bool" where
  "common l r m k \<longleftrightarrow> field m k = intersect (field l k) (field r k)"

lemma least_bounds:
  "least l r m k \<Longrightarrow> at_least (field l k) (field m k) \<and> at_least (field r k) (field m k) \<and>
    (\<forall>c. at_least (field l k) c \<longrightarrow> at_least (field r k) c \<longrightarrow> at_least (field m k) c)"
  unfolding least_def by (metis min_above)

lemma common_bounds:
  "common l r m k \<Longrightarrow> setAtLeast (field l k) (field m k) \<and> setAtLeast (field r k) (field m k) \<and>
    (\<forall>c. setAtLeast (field l k) c \<longrightarrow> setAtLeast (field r k) c \<longrightarrow> setAtLeast (field m k) c)"
  using intersect_above by (simp add: common_def)

lemma meet_common:
  assumes "meet_entries name r (entries (object m)) = Some m'" "map_of m k = Some (texts xs)" "field r k = texts ys"
  shows "common (object m) r (D_map m') k"
  using meet_texts_field [OF assms] assms(2, 3) by (simp add: common_def)

lemma meet_least:
  assumes "meet_entries name r (entries (object m)) = Some m'" "map_of m k = Some (num a)" "field r k = num b"
  shows "least (object m) r (D_map m') k"
  using meet_num_field [OF assms] assms(2, 3) by (simp add: least_def)

lemma device_meet:
  assumes "device_constraints lv = Inr l" "device_constraints rv = Inr r" "begins name ''host.device.''"
    "meet_entries name r (entries l) = Some m'"
  shows "common l r (D_map m') ''operations'' \<and> least l r (D_map m') ''maxPrivacyTier'' \<and> least l r (D_map m') ''maxQueuedEvents'' \<and>
    index_of DEVICE_PRECISION (field (D_map m') ''maxPrecision'') =
      min (index_of DEVICE_PRECISION (field l ''maxPrecision'')) (index_of DEVICE_PRECISION (field r ''maxPrecision''))"
proof -
  obtain p t q ops where l: "l = object [(''maxPrecision'', text_v p), (''maxPrivacyTier'', num t), (''maxQueuedEvents'', num q),
      (''operations'', texts ops)]" "p \<in> set DEVICE_PRECISION" using device_shape [OF assms(1)] by blast
  obtain p' t' q' ops' where r: "r = object [(''maxPrecision'', text_v p'), (''maxPrivacyTier'', num t'), (''maxQueuedEvents'', num q'),
      (''operations'', texts ops')]" "p' \<in> set DEVICE_PRECISION" using device_shape [OF assms(2)] by blast
  note e = assms(4) [unfolded l(1)]
  show ?thesis unfolding l(1)
    using meet_common [OF e, of "''operations''" ops ops'] meet_least [OF e, of "''maxPrivacyTier''" t t']
      meet_least [OF e, of "''maxQueuedEvents''" q q'] meet_precision_field [OF e, of p p' DEVICE_PRECISION] l(2) r assms(3)
    by (simp del: index_from.simps)
qed

lemma system_meet:
  assumes "system_constraints lv = Inr l" "system_constraints rv = Inr r" "begins name ''host.system.''"
    "meet_entries name r (entries l) = Some m'"
  shows "common l r (D_map m') ''fields'' \<and> common l r (D_map m') ''modes'' \<and>
    index_of SYSTEM_PRECISION (field (D_map m') ''maxPrecision'') =
      min (index_of SYSTEM_PRECISION (field l ''maxPrecision'')) (index_of SYSTEM_PRECISION (field r ''maxPrecision''))"
proof -
  obtain p fs ms where l: "l = object [(''fields'', texts fs), (''maxPrecision'', text_v p), (''modes'', texts ms)]"
    "p \<in> set SYSTEM_PRECISION" using system_shape [OF assms(1)] by blast
  obtain p' fs' ms' where r: "r = object [(''fields'', texts fs'), (''maxPrecision'', text_v p'), (''modes'', texts ms')]"
    "p' \<in> set SYSTEM_PRECISION" using system_shape [OF assms(2)] by blast
  note e = assms(4) [unfolded l(1)]
  show ?thesis unfolding l(1)
    using meet_common [OF e, of "''fields''" fs fs'] meet_common [OF e, of "''modes''" ms ms']
      meet_precision_field [OF e, of p p' SYSTEM_PRECISION] l(2) r assms(3)
    by (simp del: index_from.simps)
qed

lemma process_meet:
  assumes "process_constraints P name lv = Inr l" "process_constraints P name rv = Inr r" "kind_of name = K_process"
    "meet_entries name r (entries l) = Some m'"
  shows "common l r (D_map m') ''executableIds'' \<and> common l r (D_map m') ''signals'' \<and> least l r (D_map m') ''maxProcesses''"
proof -
  obtain xs n ss where l: "l = object [(''executableIds'', texts xs), (''maxProcesses'', num n), (''signals'', texts ss)]"
    using process_shape [OF assms(1) process_other [OF assms(3)]] by blast
  obtain xs' n' ss' where r: "r = object [(''executableIds'', texts xs'), (''maxProcesses'', num n'), (''signals'', texts ss')]"
    using process_shape [OF assms(2) process_other [OF assms(3)]] by blast
  note e = assms(4) [unfolded l(1)]
  show ?thesis unfolding l(1)
    using meet_common [OF e, of "''executableIds''" xs xs'] meet_common [OF e, of "''signals''" ss ss']
      meet_least [OF e, of "''maxProcesses''" n n'] r
    by simp
qed

lemma one_set_meet:
  assumes "l = object [(k, texts xs)]" "r = object [(k, texts ys)]" "meet_entries name r (entries l) = Some m'"
  shows "common l r (D_map m') k"
  unfolding assms(1) using meet_common [OF assms(3) [unfolded assms(1)], of k xs ys] assms(2) by simp

lemma credential_meet:
  assumes "l = object [(''stores'', texts xs), (''usages'', texts us)]" "r = object [(''stores'', texts ys), (''usages'', texts vs)]"
    "meet_entries name r (entries l) = Some m'"
  shows "common l r (D_map m') ''stores'' \<and> common l r (D_map m') ''usages''"
  unfolding assms(1)
  using meet_common [OF assms(3) [unfolded assms(1)], of "''stores''" xs ys] meet_common [OF assms(3) [unfolded assms(1)], of "''usages''" us vs]
    assms(2) by simp

lemma reader_meet:
  assumes "l = object [(''maxReadBytes'', num a), (''maxReads'', num b)]" "r = object [(''maxReadBytes'', num a'), (''maxReads'', num b')]"
    "meet_entries name r (entries l) = Some m'"
  shows "least l r (D_map m') ''maxReadBytes'' \<and> least l r (D_map m') ''maxReads''"
  unfolding assms(1)
  using meet_least [OF assms(3) [unfolded assms(1)], of "''maxReadBytes''" a a'] meet_least [OF assms(3) [unfolded assms(1)], of "''maxReads''" b b']
    assms(2) by simp

section \<open>Bounds\<close>

definition bounds :: "platform \<Rightarrow> string \<Rightarrow> kind \<Rightarrow> data \<Rightarrow> data \<Rightarrow> data \<Rightarrow> bool" where
  "bounds P name k l r m \<longleftrightarrow>
     covers_kind k l m \<and> covers_kind k r m \<and>
     (\<forall>cv c. norm_kind P name k cv = Inr c \<longrightarrow> covers_kind k l c \<longrightarrow> covers_kind k r c \<longrightarrow> covers_kind k m c)"

lemma generic_bounds:
  assumes "generic k" "norm_kind P name k lv = Inr l" "norm_kind P name k rv = Inr r" "k = kind_of name"
    "meet_entries name r (entries l) = Some m'"
  shows "bounds P name k l r (D_map m')"
proof -
  consider "k = K_device" | "k = K_system" | "k = K_process" | "k = K_shell" | "k = K_signal" | "k = K_credential" | "k = K_reader"
    using assms(1) by (auto simp: generic_def)
  then show ?thesis
  proof cases
    case 1
    have "begins name ''host.device.''" using 1 assms(4) by (auto simp: kind_of_def split: if_splits)
    then have f: "common l r (D_map m') ''operations''" "least l r (D_map m') ''maxPrivacyTier''" "least l r (D_map m') ''maxQueuedEvents''"
      "index_of DEVICE_PRECISION (field (D_map m') ''maxPrecision'') =
        min (index_of DEVICE_PRECISION (field l ''maxPrecision'')) (index_of DEVICE_PRECISION (field r ''maxPrecision''))"
      using device_meet [of lv l rv r name m'] assms 1 by auto
    show ?thesis unfolding bounds_def 1 covers_kind.simps
      using common_bounds [OF f(1)] least_bounds [OF f(2)] least_bounds [OF f(3)] unfolding f(4) by simp
  next
    case 2
    have "begins name ''host.system.''" using 2 assms(4) by (auto simp: kind_of_def split: if_splits)
    then have f: "common l r (D_map m') ''fields''" "common l r (D_map m') ''modes''"
      "index_of SYSTEM_PRECISION (field (D_map m') ''maxPrecision'') =
        min (index_of SYSTEM_PRECISION (field l ''maxPrecision'')) (index_of SYSTEM_PRECISION (field r ''maxPrecision''))"
      using system_meet [of lv l rv r name m'] assms 2 by auto
    show ?thesis unfolding bounds_def 2 covers_kind.simps
      using common_bounds [OF f(1)] common_bounds [OF f(2)] unfolding f(3) by simp
  next
    case 3
    then have f: "common l r (D_map m') ''executableIds''" "common l r (D_map m') ''signals''" "least l r (D_map m') ''maxProcesses''"
      using process_meet [of P name lv l rv r m'] assms by auto
    show ?thesis unfolding bounds_def 3 covers_kind.simps
      using common_bounds [OF f(1)] common_bounds [OF f(2)] least_bounds [OF f(3)] by simp
  next
    case 4
    have "\<exists>xs ys. l = object [(''executableIds'', texts xs)] \<and> r = object [(''executableIds'', texts ys)]"
      using shell_shape assms(2, 3) unfolding 4 norm_kind.simps by blast
    then have f: "common l r (D_map m') ''executableIds''" using one_set_meet assms(5) by blast
    show ?thesis unfolding bounds_def 4 covers_kind.simps using common_bounds [OF f] by simp
  next
    case 5
    have "\<exists>xs ys. l = object [(''signals'', texts xs)] \<and> r = object [(''signals'', texts ys)]"
      using signal_shape assms(2, 3) unfolding 5 norm_kind.simps by blast
    then have f: "common l r (D_map m') ''signals''" using one_set_meet assms(5) by blast
    show ?thesis unfolding bounds_def 5 covers_kind.simps using common_bounds [OF f] by simp
  next
    case 6
    have "\<exists>xs us ys vs. l = object [(''stores'', texts xs), (''usages'', texts us)] \<and> r = object [(''stores'', texts ys), (''usages'', texts vs)]"
      using credential_shape assms(2, 3) unfolding 6 norm_kind.simps by blast
    then have f: "common l r (D_map m') ''stores''" "common l r (D_map m') ''usages''" using credential_meet assms(5) by blast+
    show ?thesis unfolding bounds_def 6 covers_kind.simps using common_bounds [OF f(1)] common_bounds [OF f(2)] by simp
  next
    case 7
    have "\<exists>a b a' b'. l = object [(''maxReadBytes'', num a), (''maxReads'', num b)] \<and> r = object [(''maxReadBytes'', num a'), (''maxReads'', num b')]"
      using reader_shape assms(2, 3) unfolding 7 norm_kind.simps by blast
    then have f: "least l r (D_map m') ''maxReadBytes''" "least l r (D_map m') ''maxReads''" using reader_meet assms(5) by blast+
    show ?thesis unfolding bounds_def 7 covers_kind.simps using least_bounds [OF f(1)] least_bounds [OF f(2)] by simp
  qed
qed

lemma meet_bounds:
  assumes "norm_kind P name k lv = Inr l" "norm_kind P name k rv = Inr r" "k = kind_of name" "k \<noteq> K_storage"
    "meet_kind name k l r = Some m"
  shows "bounds P name k l r m"
proof (cases "generic k")
  case True
  then obtain m' where "m = D_map m'" "meet_entries name r (entries l) = Some m'" using assms(5) by (auto simp: meet_generic)
  then show ?thesis using generic_bounds [OF True assms(1-3)] by simp
next
  case False
  then consider (fs) "k = K_fs" | (http) "k = K_http" | (mock) "k = K_mock" | (net) "k = K_process_network" | (exe) "k = K_execute"
    using assms(4) by (cases k) (auto simp: generic_def)
  then show ?thesis
  proof cases
    case fs
    note e = assms(1, 2, 5) [unfolded fs meet_kind_def norm_kind.simps kind.case]
    show ?thesis unfolding bounds_def fs covers_kind.simps norm_kind.simps using meetFs_below [OF e] meetFs_above [OF _ _ _ e(3)] by blast
  next
    case http
    note e = assms(1, 2, 5) [unfolded http meet_kind_def norm_kind.simps kind.case]
    show ?thesis unfolding bounds_def http covers_kind.simps norm_kind.simps using meetNetwork_below [OF e] meetNetwork_above [OF _ _ _ e(3)] by blast
  next
    case mock
    note e = assms(1, 2, 5) [unfolded mock meet_kind_def norm_kind.simps kind.case]
    show ?thesis unfolding bounds_def mock covers_kind.simps norm_kind.simps using meetNetwork_below [OF e] meetNetwork_above [OF _ _ _ e(3)] by blast
  next
    case net
    note e = assms(1, 2, 5) [unfolded net meet_kind_def norm_kind.simps kind.case]
    show ?thesis unfolding bounds_def net covers_kind.simps norm_kind.simps
      using meetProcessNetwork_below [OF e] meetProcessNetwork_above [OF e(1) _ _ _ e(3)] by blast
  next
    case exe
    note e = assms(1, 2, 5) [unfolded exe meet_kind_def norm_kind.simps kind.case]
    show ?thesis unfolding bounds_def exe using meetExecute_below [OF e] meetExecute_above [OF _ _ e(3)] by blast
  qed
qed

end
