(* ===== verification/Capability_Equal.thy ===== *)
theory Capability_Equal
  imports Capability_Lattice
begin

text \<open>
  Normalization does not change what a value covers, nor what covers it.
\<close>

definition same_cover :: "kind \<Rightarrow> data \<Rightarrow> data \<Rightarrow> bool" where
  "same_cover k v c \<longleftrightarrow> (\<forall>x. covers_kind k v x = covers_kind k c x \<and> covers_kind k x v = covers_kind k x c)"

text \<open>The hostnames of a value are in lower case already.\<close>

definition hosts_lowered :: "platform \<Rightarrow> data \<Rightarrow> bool" where
  "hosts_lowered P v \<longleftrightarrow>
     (\<forall>e \<in> set (items (field v ''endpoints'')). lower_case P (the_text (field e ''hostname'')) = the_text (field e ''hostname''))"

section \<open>Parts\<close>

lemma set_same:
  "set (items a) = set (items b) \<Longrightarrow> setAtLeast a x = setAtLeast b x \<and> setAtLeast x a = setAtLeast x b"
  by (simp add: setAtLeast_iff)

lemma sorted_same [simp]: "set (items (texts (js_sort cmp xs))) = set (items (texts xs))"
  by simp

lemma reads_lookup:
  assumes "reads_limits v ks f"
  shows "lookup_key (entries v) q = (if q \<in> js ` set ks then num (f (SOME k. k \<in> set ks \<and> js k = q)) else D_undefined)"
proof (cases "q \<in> js ` set ks")
  case True
  then obtain k where "k \<in> set ks" "js k = q" by auto
  moreover have "(SOME k. k \<in> set ks \<and> js k = q) = k" using calculation by (intro some_equality) auto
  ultimately show ?thesis using assms True by (auto simp: reads_limits_def)
next
  case False
  then have "map_of (entries v) q = None" using assms by (auto simp: reads_limits_def map_of_eq_None_iff)
  then show ?thesis using False by (simp add: lookup_key_def)
qed

lemma limits_same:
  assumes "reads_limits v ks f" "reads_limits w ks f"
  shows "numbersAtLeast v x = numbersAtLeast w x \<and> numbersAtLeast x v = numbersAtLeast x w"
proof -
  have "fst ` set (entries v) = fst ` set (entries w)" using assms by (simp add: reads_limits_def)
  then show ?thesis unfolding numbersAtLeast_iff reads_lookup [OF assms(1)] reads_lookup [OF assms(2)] by simp
qed

lemma root_same:
  assumes "fs_root x = Inr r"
  shows "root_covers x y = root_covers r y \<and> root_covers y x = root_covers y r"
proof -
  obtain s g i k where r: "r = root_of s (js_sort compareCodePoints g) i k" and x: "root_reads x s g i k"
    using root_shape [OF assms] by blast
  have "setAtLeast (texts g) z = setAtLeast (texts (js_sort compareCodePoints g)) z \<and>
      setAtLeast z (texts g) = setAtLeast z (texts (js_sort compareCodePoints g))" for z
    by (rule set_same) simp
  then show ?thesis using x unfolding r root_covers_def root_reads_def root_of_fields by simp
qed

lemma results_transfer:
  assumes "list_all2 R xs ys" "\<And>x y. R x y \<Longrightarrow> Q x = Q' y"
  shows "(\<exists>x \<in> set xs. Q x) = (\<exists>y \<in> set ys. Q' y)" "(\<forall>x \<in> set xs. Q x) = (\<forall>y \<in> set ys. Q' y)"
  using assms(1) by (induction rule: list_all2_induct) (auto simp: assms(2))

lemma filesystem_same:
  assumes "filesystem_constraints P v = Inr c"
  shows "same_cover K_fs v c"
proof -
  obtain xs rs f where c: "c = object [(''limits'', limit_map FS_LIMITS f), (''roots'', D_list (js_sort (root_order P) rs))]"
    and rs: "mapE fs_root xs = Inr rs" and v: "field v ''roots'' = D_list xs" "reads_limits (field v ''limits'') FS_LIMITS f"
    using filesystem_shape [OF assms] by blast
  have l: "list_all2 (\<lambda>x r. fs_root x = Inr r) xs rs" using rs by (simp add: mapE_Inr)
  have ex: "(\<exists>a \<in> set xs. root_covers a y) = (\<exists>a \<in> set rs. root_covers a y)" for y
    by (rule results_transfer(1) [OF l]) (simp add: root_same)
  have all: "(\<forall>x \<in> set xs. \<exists>a \<in> set zs. root_covers a x) = (\<forall>x \<in> set rs. \<exists>a \<in> set zs. root_covers a x)" for zs
    by (rule results_transfer(2) [OF l]) (simp add: root_same)
  show ?thesis
    using limits_same [OF v(2) limit_map_reads]
    unfolding same_cover_def covers_kind.simps satisfiesFs_def list_all_iff list_ex_iff v(1) c
    by (simp add: ex all)
qed

lemma network_same:
  assumes "network_constraints P v e = Inr c"
  shows "same_cover K_http v c \<and> same_cover K_mock v c"
proof -
  obtain b n f os ss where c: "c = object [(''allowPrivateNetwork'', D_bool b), (''inspectRequestBodyBytes'', num n),
      (''limits'', limit_map NETWORK_LIMITS f), (''mode'', text_v e), (''origins'', texts (js_sort compare_units os)),
      (''schemes'', texts (js_sort compareCodePoints ss))]"
    and v: "field v ''allowPrivateNetwork'' = D_bool b" "field v ''inspectRequestBodyBytes'' = num n"
      "reads_limits (field v ''limits'') NETWORK_LIMITS f" "field v ''mode'' = text_v e" "field v ''origins'' = texts os" "field v ''schemes'' = texts ss"
    using network_shape [OF assms] by blast
  show ?thesis
    using limits_same [OF v(3) limit_map_reads]
    unfolding same_cover_def covers_kind.simps satisfiesNetwork_def setAtLeast_iff v c by simp
qed

lemma device_same:
  assumes "device_constraints v = Inr c"
  shows "same_cover K_device v c"
proof -
  obtain p t q ops where c: "c = object [(''maxPrecision'', text_v p), (''maxPrivacyTier'', num t), (''maxQueuedEvents'', num q),
      (''operations'', texts (js_sort compareCodePoints ops))]"
    and v: "field v ''maxPrecision'' = text_v p" "field v ''maxPrivacyTier'' = num t" "field v ''maxQueuedEvents'' = num q"
      "field v ''operations'' = texts ops"
    using device_shape [OF assms] by blast
  show ?thesis unfolding same_cover_def covers_kind.simps setAtLeast_iff v c by simp
qed

lemma system_same:
  assumes "system_constraints v = Inr c"
  shows "same_cover K_system v c"
proof -
  obtain p fs ms where c: "c = object [(''fields'', texts (js_sort compareCodePoints fs)), (''maxPrecision'', text_v p),
      (''modes'', texts (js_sort compareCodePoints ms))]"
    and v: "field v ''maxPrecision'' = text_v p" "field v ''fields'' = texts fs" "field v ''modes'' = texts ms"
    using system_shape [OF assms] by blast
  show ?thesis unfolding same_cover_def covers_kind.simps setAtLeast_iff v c by simp
qed

lemma process_same:
  assumes "norm_kind P name k v = Inr c" "k \<in> {K_execute, K_shell, K_signal, K_process}" "k = kind_of name"
  shows "same_cover k v c"
proof -
  consider (exe) "k = K_execute" | (shell) "k = K_shell" | (signal) "k = K_signal" | (process) "k = K_process" using assms(2) by blast
  then show ?thesis
  proof cases
    case exe
    then obtain xs rs f where c: "c = object [(''executableIds'', sorted_ids xs), (''limits'', limit_map PROCESS_LIMITS f), (''rootIds'', sorted_ids rs)]"
      and v: "field v ''executableIds'' = texts xs" "field v ''rootIds'' = texts rs" "reads_limits (field v ''limits'') PROCESS_LIMITS f"
      using execute_shape assms(1) by fastforce
    show ?thesis using limits_same [OF v(3) limit_map_reads]
      unfolding same_cover_def exe covers_kind.simps setAtLeast_iff v(1,2) c by simp
  next
    case shell
    then obtain xs where "c = object [(''executableIds'', sorted_ids xs)]" "field v ''executableIds'' = texts xs"
      using shell_shape assms(1) by fastforce
    then show ?thesis unfolding same_cover_def shell covers_kind.simps setAtLeast_iff by simp
  next
    case signal
    then obtain xs where "c = object [(''signals'', texts (js_sort compareCodePoints xs))]" "field v ''signals'' = texts xs"
      using signal_shape assms(1) by fastforce
    then show ?thesis unfolding same_cover_def signal covers_kind.simps setAtLeast_iff by simp
  next
    case process
    then have "process_constraints P name v = Inr c" using assms(1) by simp
    from process_shape [OF this process_other] process assms(3)
    obtain xs n ss where "c = object [(''executableIds'', sorted_ids xs), (''maxProcesses'', num n), (''signals'', texts (js_sort compareCodePoints ss))]"
      "field v ''executableIds'' = texts xs" "field v ''maxProcesses'' = num n" "field v ''signals'' = texts ss" by metis
    then show ?thesis unfolding same_cover_def process covers_kind.simps setAtLeast_iff by simp
  qed
qed

lemma credential_same:
  assumes "norm_kind P name K_credential v = Inr c"
  shows "same_cover K_credential v c"
proof -
  obtain xs us where "c = object [(''stores'', sorted_ids xs), (''usages'', texts (js_sort compareCodePoints us))]"
    "field v ''stores'' = texts xs" "field v ''usages'' = texts us"
    using credential_shape assms by fastforce
  then show ?thesis unfolding same_cover_def covers_kind.simps setAtLeast_iff by simp
qed

lemma reader_same:
  assumes "reader_constraints v = Inr c"
  shows "same_cover K_reader v c"
proof -
  obtain n k where "c = object [(''maxReadBytes'', num n), (''maxReads'', num k)]" "field v ''maxReadBytes'' = num n" "field v ''maxReads'' = num k"
    using reader_shape [OF assms] by blast
  then show ?thesis unfolding same_cover_def covers_kind.simps by simp
qed

lemma storage_same:
  assumes "storage_constraints P v = Inr c"
  shows "same_cover K_storage v c"
proof -
  obtain dbs kps nid ops f where c: "c = storage_of (sorted_scalars dbs) (sorted_scalars kps) nid (sorted_scalars ops) f"
    and v: "storage_reads v dbs kps nid ops f" using storage_shape [OF assms] by blast
  note r = v [unfolded storage_reads_def]
  show ?thesis
    using limits_same [OF _ limit_map_reads, of "field v ''limits''" "map fst STORAGE_LIMIT_MAXIMA" f] r
    unfolding same_cover_def covers_kind.simps covers_storage_def setAtLeast_iff list_all_iff list_ex_iff c storage_of_fields
    by simp
qed

section \<open>Endpoints\<close>

lemma distinct_map_js_sort: "distinct (map f (js_sort cmp xs)) = distinct (map f xs)"
  by (metis mset_js_sort mset_map mset_eq_imp_distinct_iff)

lemma covers_by_endpoints:
  assumes "distinct_endpoints (field a ''endpoints'')"
  shows "satisfiesProcessNetwork a r \<longleftrightarrow>
     (\<forall>x \<in> set (items (field r ''endpoints'')). \<exists>e \<in> set (items (field a ''endpoints'')).
        endpoint_identity e = endpoint_identity x \<and> setAtLeast (field e ''ports'') (field x ''ports'')) \<and>
     at_least (field a ''maxSockets'') (field r ''maxSockets'') \<and>
     (field r ''privateNetwork'' \<noteq> text_v ''allow'' \<or> field a ''privateNetwork'' = text_v ''allow'')"
  unfolding satisfiesProcessNetwork_iff endpoint_for_iff [OF assms] by blast

lemma allow_same: "or_else v (text_v ''deny'') = text_v a \<Longrightarrow> v = text_v ''allow'' \<longleftrightarrow> a = ''allow''"
  by (auto simp: or_else_def text_v_def split: if_splits)

lemma process_network_same:
  assumes "process_network P v = Inr c" "hosts_lowered P v"
  shows "same_cover K_process_network v c"
proof -
  obtain xs es n a where c: "c = object [(''endpoints'', D_list (js_sort (endpoint_order P) es)), (''maxSockets'', num n),
      (''privateNetwork'', text_v a)]" and es: "mapE (endpoint_constraints P) xs = Inr es"
    and d: "distinct (map endpoint_identity (js_sort (endpoint_order P) es))"
    and v: "field v ''endpoints'' = D_list xs" "field v ''maxSockets'' = num n" "or_else (field v ''privateNetwork'') (text_v ''deny'') = text_v a"
    using process_network_shape [OF assms(1)] by blast
  define R where "R x e \<longleftrightarrow> endpoint_identity x = endpoint_identity e \<and> set (items (field x ''ports'')) = set (items (field e ''ports''))" for x e
  have low: "\<forall>x \<in> set xs. lower_case P (the_text (field x ''hostname'')) = the_text (field x ''hostname'')"
    using assms(2) v(1) by (simp add: hosts_lowered_def)
  have l: "list_all2 R xs es"
    using es [unfolded mapE_Inr] low
  proof (induction rule: list_all2_induct)
    case (Cons x xs e es)
    from endpoint_shape [OF Cons(1)] obtain h ps t where e: "e = endpoint_of (lower_case P h) (sorted_ports ps) t"
      and x: "endpoint_reads x h ps t" by blast
    have "lower_case P h = h" using Cons.prems x by (simp add: endpoint_reads_def)
    then have "R x e" using e x by (simp add: R_def endpoint_reads_def endpoint_identity_def)
    then show ?case using Cons by simp
  qed simp
  have "map endpoint_identity xs = map endpoint_identity es"
    using l by (induction rule: list_all2_induct) (simp_all add: R_def)
  then have dv: "distinct_endpoints (field v ''endpoints'')" and dc: "distinct_endpoints (field c ''endpoints'')"
    using d v(1) c by (simp_all add: distinct_endpoints_def distinct_map_js_sort del: distinct_js_sort)
  have ex: "(\<exists>x \<in> set xs. endpoint_identity x = k \<and> setAtLeast (field x ''ports'') p) =
      (\<exists>e \<in> set es. endpoint_identity e = k \<and> setAtLeast (field e ''ports'') p)" for k p
    by (rule results_transfer(1) [OF l]) (simp add: R_def setAtLeast_iff)
  have all: "(\<forall>x \<in> set xs. \<exists>e. endpoint_for z (endpoint_identity x) = Some e \<and> setAtLeast (field e ''ports'') (field x ''ports'')) =
      (\<forall>x \<in> set es. \<exists>e. endpoint_for z (endpoint_identity x) = Some e \<and> setAtLeast (field e ''ports'') (field x ''ports''))" for z
    by (rule results_transfer(2) [OF l]) (simp add: R_def setAtLeast_iff)
  have left: "satisfiesProcessNetwork v y = satisfiesProcessNetwork c y" for y
    unfolding covers_by_endpoints [OF dv] covers_by_endpoints [OF dc] unfolding v(1,2) c allow_same [OF v(3)]
    by (simp add: ex)
  have right: "satisfiesProcessNetwork y v = satisfiesProcessNetwork y c" for y
    unfolding satisfiesProcessNetwork_iff v(1,2) allow_same [OF v(3)] c by (simp add: all)
  show ?thesis unfolding same_cover_def covers_kind.simps using left right by blast
qed

lemma normalization_same:
  assumes "norm_kind P name k v = Inr c" "k = kind_of name" "k = K_process_network \<longrightarrow> hosts_lowered P v"
  shows "same_cover k v c"
proof (cases "k \<in> {K_execute, K_shell, K_signal, K_process}")
  case True
  then show ?thesis by (rule process_same [OF assms(1) _ assms(2)])
next
  case False
  show ?thesis
  proof (cases k)
    case K_credential
    then show ?thesis using assms(1) credential_same by blast
  qed (use False assms(1, 3) filesystem_same network_same device_same system_same process_network_same storage_same reader_same
      in \<open>auto simp del: covers_kind.simps\<close>)
qed

text \<open>What a meet yields has its hostnames in lower case.\<close>

definition lowers :: "platform \<Rightarrow> bool" where
  "lowers P \<longleftrightarrow> (\<forall>s. lower_case P (lower_case P s) = lower_case P s)"

lemma normal_lowered:
  assumes "process_network P v = Inr c" "lowers P"
  shows "hosts_lowered P c"
proof -
  obtain xs es n a where c: "c = object [(''endpoints'', D_list (js_sort (endpoint_order P) es)), (''maxSockets'', num n),
      (''privateNetwork'', text_v a)]" and es: "mapE (endpoint_constraints P) xs = Inr es"
    using process_network_shape [OF assms(1)] by blast
  have "\<forall>e \<in> set es. lower_case P (the_text (field e ''hostname'')) = the_text (field e ''hostname'')"
    using es [unfolded mapE_Inr]
  proof (induction rule: list_all2_induct)
    case (Cons x xs e es)
    from endpoint_shape [OF Cons(1)] show ?case using Cons assms(2) by (auto simp: lowers_def)
  qed simp
  then show ?thesis by (simp add: hosts_lowered_def c)
qed

lemma meet_lowered:
  assumes "process_network P lv = Inr l" "meetProcessNetwork l r = Some m" "lowers P"
  shows "hosts_lowered P m"
proof -
  have "lower_case P (the_text (field x ''hostname'')) = the_text (field x ''hostname'')"
    if x: "meet_endpoint es e = Some x" "e \<in> set (items (field l ''endpoints''))" for x e es
    using x normal_lowered [OF assms(1, 3)]
    by (auto simp: meet_endpoint_def Let_def hosts_lowered_def split: option.splits if_splits)
  then show ?thesis by (auto simp: hosts_lowered_def meetProcessNetwork_Some [OF assms(2)] in_map_filter)
qed

end
