(* ===== verification/Capability_Idempotent.thy ===== *)
theory Capability_Idempotent
  imports Capability_Equal
begin

text \<open>
  Normal forms are fixed points of normalization.
\<close>

section \<open>Sorting\<close>

definition total_compare :: "('a \<Rightarrow> 'a \<Rightarrow> int) \<Rightarrow> bool" where
  "total_compare cmp \<longleftrightarrow> (\<forall>x y. cmp x y \<le> 0 \<or> cmp y x \<le> 0) \<and> (\<forall>x y z. cmp x y \<le> 0 \<longrightarrow> cmp y z \<le> 0 \<longrightarrow> cmp x z \<le> 0)"

definition in_order :: "('a \<Rightarrow> 'a \<Rightarrow> int) \<Rightarrow> 'a list \<Rightarrow> bool" where
  "in_order cmp xs \<longleftrightarrow> sorted_wrt (\<lambda>x y. cmp x y \<le> 0) xs"

lemma js_sort_in_order: "in_order cmp xs \<Longrightarrow> js_sort cmp xs = xs"
proof (induction xs)
  case (Cons x xs)
  then have "js_sort cmp xs = xs" by (simp add: in_order_def)
  then show ?case using Cons.prems by (cases xs) (simp_all add: js_sort_def in_order_def)
qed (simp add: js_sort_def)

lemma in_order_js_sort:
  assumes "total_compare cmp"
  shows "in_order cmp (js_sort cmp xs)"
proof -
  have insert: "in_order cmp (sort_insert cmp x ys)" if "in_order cmp ys" for x ys
    using that
  proof (induction ys)
    case (Cons y ys)
    have y: "\<forall>z \<in> set ys. cmp y z \<le> 0" "in_order cmp ys" using Cons.prems by (simp_all add: in_order_def)
    show ?case
    proof (cases "cmp x y \<le> 0")
      case True
      then have "\<forall>z \<in> set (y # ys). cmp x z \<le> 0" using y assms by (auto simp: total_compare_def)
      then show ?thesis using True Cons.prems by (simp add: in_order_def)
    next
      case False
      then have "cmp y x \<le> 0" using assms by (auto simp: total_compare_def)
      then show ?thesis using False y Cons.IH by (auto simp: in_order_def)
    qed
  qed (simp add: in_order_def)
  then show ?thesis by (induction xs) (simp_all add: js_sort_def in_order_def)
qed

lemma js_sort_idem: "total_compare cmp \<Longrightarrow> js_sort cmp (js_sort cmp xs) = js_sort cmp xs"
  by (rule js_sort_in_order [OF in_order_js_sort])

lemma compare_lists_le:
  "compare_lists (x # xs) (y # ys) \<le> 0 \<longleftrightarrow> x < y \<or> x = y \<and> compare_lists xs ys \<le> 0"
  by auto

lemma compare_lists_total: "compare_lists xs ys \<le> 0 \<or> compare_lists ys xs \<le> 0"
  by (induction xs ys rule: compare_lists.induct) auto

lemma compare_lists_trans: "compare_lists xs ys \<le> 0 \<Longrightarrow> compare_lists ys zs \<le> 0 \<Longrightarrow> compare_lists xs zs \<le> 0"
proof (induction xs arbitrary: ys zs)
  case (Cons x xs)
  then obtain y ys' where y: "ys = y # ys'" by (cases ys) auto
  then obtain z zs' where z: "zs = z # zs'" using Cons.prems(2) by (cases zs) auto
  show ?case using Cons.prems Cons.IH [of ys' zs'] unfolding y z compare_lists_le by auto
next
  case Nil
  then show ?case by (cases zs) auto
qed

lemma total_compares [simp]: "total_compare compareCodePoints" "total_compare compare_units"
  unfolding total_compare_def compareCodePoints_def compare_units_def
  using compare_lists_total compare_lists_trans by blast+

lemma total_numbers [simp]: "total_compare (\<lambda>l r. l - r :: int)"
  by (auto simp: total_compare_def)

lemma total_key: "total_compare cmp \<Longrightarrow> total_compare (\<lambda>l r. cmp (f l) (f r))"
  unfolding total_compare_def by blast

lemmas sort_idems [simp] = js_sort_idem [OF total_compares(1)] js_sort_idem [OF total_compares(2)] js_sort_idem [OF total_numbers]

text \<open>
  What is asked of the platform: \<open>localeCompare\<close> is a consistent comparison; \<open>toLowerCase\<close> reaches lower case in
  one step and, where its result is ASCII, keeps the length (only U+0130 has a longer lower case, which is not
  ASCII); the hostname of an http URL is ASCII.
\<close>

definition ascii :: "jstring \<Rightarrow> bool" where
  "ascii s \<longleftrightarrow> list_all (\<lambda>u. u < 128) s"

definition platform_ok :: "platform \<Rightarrow> bool" where
  "platform_ok P \<longleftrightarrow>
     (\<forall>s t. sgn (locale_compare P s t) = - sgn (locale_compare P t s)) \<and>
     (\<forall>s t u. locale_compare P s t \<le> 0 \<longrightarrow> locale_compare P t u \<le> 0 \<longrightarrow> locale_compare P s u \<le> 0) \<and>
     lowers P \<and> (\<forall>s. ascii (lower_case P s) \<longrightarrow> length (lower_case P s) = length s) \<and>
     (\<forall>s u. new_url P (js ''http://'' @ s) = Some u \<longrightarrow> ascii (u_hostname u))"

lemma sgn_flip: "sgn a = - sgn b \<Longrightarrow> a \<le> 0 \<longleftrightarrow> 0 \<le> (b :: int)"
  by (auto simp: sgn_if split: if_splits)

lemma platform_compare:
  assumes "platform_ok P"
  shows "locale_compare P s t \<le> 0 \<longleftrightarrow> 0 \<le> locale_compare P t s"
    "locale_compare P s t \<le> 0 \<Longrightarrow> locale_compare P t u \<le> 0 \<Longrightarrow> locale_compare P s u \<le> 0"
proof -
  have "sgn (locale_compare P s t) = - sgn (locale_compare P t s)" using assms unfolding platform_ok_def by blast
  then show "locale_compare P s t \<le> 0 \<longleftrightarrow> 0 \<le> locale_compare P t s" by (rule sgn_flip)
  show "locale_compare P s t \<le> 0 \<Longrightarrow> locale_compare P t u \<le> 0 \<Longrightarrow> locale_compare P s u \<le> 0"
    using assms unfolding platform_ok_def by blast
qed

lemma total_locale: "platform_ok P \<Longrightarrow> total_compare (locale_compare P)"
  unfolding total_compare_def using platform_compare by (meson linear)

lemma total_endpoints: "platform_ok P \<Longrightarrow> total_compare (endpoint_order P)"
  by (rule total_key [OF total_locale])

lemma total_roots:
  assumes "platform_ok P"
  shows "total_compare (root_order P)"
proof -
  let ?c = "locale_compare P"
  have flip: "?c a b \<le> 0 \<longleftrightarrow> 0 \<le> ?c b a" and trans: "?c a b \<le> 0 \<Longrightarrow> ?c b d \<le> 0 \<Longrightarrow> ?c a d \<le> 0" for a b d
    using platform_compare [OF assms] by blast+
  have le: "(let r = ?c a b in if r = 0 then ?c a' b' else r) \<le> 0 \<longleftrightarrow> ?c a b \<le> 0 \<and> (?c b a \<le> 0 \<longrightarrow> ?c a' b' \<le> 0)" for a b a' b'
    using flip [of b a] by (auto simp: Let_def)
  show ?thesis unfolding total_compare_def root_order_def le using flip trans by (meson linear)
qed

section \<open>Sets, limits and roots again\<close>

lemma stringSet_again:
  "stringSet (texts ys) ks a b = Inr (js_sort compareCodePoints ys) \<Longrightarrow>
   stringSet (texts (js_sort compareCodePoints ys)) ks a b = Inr (js_sort compareCodePoints ys)"
  by (fastforce simp: stringSet_Inr texts_def inj_map_eq_map inj_def)

lemma identifiers_again:
  "identifiers (texts ys) n = Inr (sorted_ids ys) \<Longrightarrow> identifiers (sorted_ids ys) n = Inr (sorted_ids ys)"
  by (fastforce simp: identifiers_Inr texts_def inj_map_eq_map inj_def list_all_iff)

lemma integer_again: "0 \<le> n \<Longrightarrow> n \<le> b \<Longrightarrow> b \<le> 4294967296 \<Longrightarrow> integer (num n) 0 b = Inr n"
  by (simp add: integer_Inr MAX_SAFE_INTEGER_def)

lemma required_limit: "k \<in> set ks \<Longrightarrow> required (entries (limit_map ks f)) k = Inr (num (f k))"
  unfolding limit_map_def entries_object required_object by (simp add: map_of_map_restrict restrict_map_def del: map_map)

lemma mapE_all: "(\<And>x. x \<in> set xs \<Longrightarrow> f x = Inr (g x)) \<Longrightarrow> mapE f xs = Inr (map g xs)"
  by (induction xs) auto

lemma limits_again:
  assumes "limits_ok (bounded_by ks) 0 f" "length ks \<le> 1024"
  shows "limits_of (limit_map ks f) ks = Inr (limit_map ks f)"
proof -
  have e: "exact (limit_map ks f) ks = Inr (entries (limit_map ks f))"
    using assms(2) by (auto simp: limit_map_def exact_object comp_def)
  have "mapE (\<lambda>k. bindR (required (entries (limit_map ks f)) k) (\<lambda>x. mapR (\<lambda>n. (k, num n)) (integer x 0 (4 * 1024 * 1024 * 1024)))) ks =
      Inr (map (\<lambda>k. (k, num (f k))) ks)"
    using assms(1) by (intro mapE_all) (auto simp: required_limit limits_ok_def list_all_iff integer_again)
  then show ?thesis unfolding limits_of_def e bindR_simps by (simp add: limit_map_def)
qed

lemma storage_limits_again:
  assumes "limits_ok STORAGE_LIMIT_MAXIMA 1 f"
  shows "normalizeStorageLimits (limit_map (map fst STORAGE_LIMIT_MAXIMA) f) = Inr (limit_map (map fst STORAGE_LIMIT_MAXIMA) f)"
proof -
  let ?ks = "map fst STORAGE_LIMIT_MAXIMA"
  have len: "length STORAGE_LIMIT_MAXIMA \<le> 1024" by (simp add: STORAGE_LIMIT_MAXIMA_def)
  have e: "exact (limit_map ?ks f) ?ks = Inr (entries (limit_map ?ks f))"
    using len by (force simp: limit_map_def exact_object comp_def)
  have small: "\<forall>(k, n) \<in> set STORAGE_LIMIT_MAXIMA. n \<le> MAX_SAFE_INTEGER" by (simp add: STORAGE_LIMIT_MAXIMA_def MAX_SAFE_INTEGER_def)
  have "mapE (\<lambda>(k, maximum). bindR (required (entries (limit_map ?ks f)) k) (\<lambda>x. mapR (\<lambda>n. (k, num n)) (integer x 1 maximum))) STORAGE_LIMIT_MAXIMA =
      Inr (map (\<lambda>p. (fst p, num (f (fst p)))) STORAGE_LIMIT_MAXIMA)"
  proof (intro mapE_all)
    fix p assume p: "p \<in> set STORAGE_LIMIT_MAXIMA"
    then have "required (entries (limit_map ?ks f)) (fst p) = Inr (num (f (fst p)))" by (intro required_limit) auto
    moreover have "1 \<le> f (fst p)" "f (fst p) \<le> snd p" "snd p \<le> MAX_SAFE_INTEGER"
      using p assms small by (auto simp: limits_ok_def list_all_iff)
    then have "integer (num (f (fst p))) 1 (snd p) = Inr (f (fst p))" by (simp add: integer_Inr)
    ultimately show "(case p of (k, maximum) \<Rightarrow> bindR (required (entries (limit_map ?ks f)) k) (\<lambda>x. mapR (\<lambda>n. (k, num n)) (integer x 1 maximum))) =
        Inr (fst p, num (f (fst p)))" by (simp add: split_beta)
  qed
  then show ?thesis unfolding normalizeStorageLimits_def e bindR_simps by (simp add: limit_map_def comp_def)
qed

section \<open>Network, device and system again\<close>

lemma required_simps [simp]:
  "required ((k', v) # m) k = (if js k = k' then Inr v else required m k)" "required [] k = invalidPolicy"
  by (simp_all add: required_def)

lemma literal_again: "t \<in> set ks \<Longrightarrow> literal (D_str (js t)) ks = Inr (js t)"
  by (simp add: literal_Inr)

lemma device_again:
  assumes "device_constraints v = Inr c"
  shows "device_constraints c = Inr c"
proof -
  from device_shape [OF assms] obtain p t q ops where c: "c = object [(''maxPrecision'', text_v p), (''maxPrivacyTier'', num t), (''maxQueuedEvents'', num q),
      (''operations'', texts (js_sort compareCodePoints ops))]"
    and ok: "p \<in> set DEVICE_PRECISION" "0 \<le> t" "t \<le> 3" "0 \<le> q" "q \<le> 4096"
      "stringSet (texts ops) DEVICE_OPERATIONS 1 (length DEVICE_OPERATIONS) = Inr (js_sort compareCodePoints ops)" by blast
  show ?thesis
    unfolding device_constraints_def c using ok
    by (simp add: exact_object literal_again integer_again stringSet_again text_v_def)
qed

lemma system_again:
  assumes "system_constraints v = Inr c"
  shows "system_constraints c = Inr c"
proof -
  from system_shape [OF assms] obtain p fs ms where c: "c = object [(''fields'', texts (js_sort compareCodePoints fs)), (''maxPrecision'', text_v p),
      (''modes'', texts (js_sort compareCodePoints ms))]"
    and ok: "p \<in> set SYSTEM_PRECISION"
      "stringSet (texts fs) SYSTEM_INFORMATION_FIELDS 1 (length SYSTEM_INFORMATION_FIELDS) = Inr (js_sort compareCodePoints fs)"
      "stringSet (texts ms) [''real'', ''redacted'', ''synthetic''] 1 3 = Inr (js_sort compareCodePoints ms)" by blast
  show ?thesis
    unfolding system_constraints_def c using ok
    by (simp add: exact_object literal_again stringSet_again text_v_def)
qed

lemma origins_again: "origins_ok P os ss \<Longrightarrow> mapE (origin_item P) (map D_str (js_sort compare_units os)) = Inr (js_sort compare_units os)"
  by (simp add: origin_items origins_ok_def list_all_iff)

lemma schemes_again:
  assumes "origins_ok P os ss" "set ss \<subseteq> set qs"
  shows "\<exists>us. mapE (scheme_of P) (js_sort compare_units os) = Inr us \<and> \<not> list_ex (\<lambda>s. s \<notin> set qs) us"
proof -
  have "\<forall>x \<in> set (js_sort compare_units os). \<exists>y. scheme_of P x = Inr y \<and> y \<in> set qs"
    using assms by (fastforce simp: origins_ok_def list_all_iff)
  then obtain us where "mapE (scheme_of P) (js_sort compare_units os) = Inr us" "list_all (\<lambda>s. s \<in> set qs) us"
    using mapE_total [of _ "scheme_of P" "\<lambda>s. s \<in> set qs"] by blast
  then show ?thesis by (auto simp: list_all_iff list_ex_iff)
qed

lemma network_again:
  assumes "network_constraints P v e = Inr c"
  shows "network_constraints P c e = Inr c"
proof -
  from network_shape [OF assms] obtain b n f os ss where c: "c = object [(''allowPrivateNetwork'', D_bool b), (''inspectRequestBodyBytes'', num n),
      (''limits'', limit_map NETWORK_LIMITS f), (''mode'', text_v e), (''origins'', texts (js_sort compare_units os)),
      (''schemes'', texts (js_sort compareCodePoints ss))]"
    and ok: "\<not> (e = ''mockOnly'' \<and> b)" "0 \<le> n" "n \<le> 1024 * 1024" "limits_ok (bounded_by NETWORK_LIMITS) 0 f" "origins_ok P os ss"
      "stringSet (texts ss) [''http'', ''https''] 0 2 = Inr (js_sort compareCodePoints ss)" by blast
  obtain us where us: "mapE (scheme_of P) (js_sort compare_units os) = Inr us" "\<not> list_ex (\<lambda>s. s \<notin> set (js_sort compareCodePoints ss)) us"
    using schemes_again [OF ok(5), of "js_sort compareCodePoints ss"] by auto
  have l: "limits_of (limit_map NETWORK_LIMITS f) NETWORK_LIMITS = Inr (limit_map NETWORK_LIMITS f)"
    using ok(4) by (rule limits_again) (simp add: NETWORK_LIMITS_def)
  have d: "distinct os" "length os \<le> 64" using ok(5) by (simp_all add: origins_ok_def)
  have a: "array (texts (js_sort compare_units os)) 0 64 = Inr (map D_str (js_sort compare_units os))"
    using d(2) by (simp add: array_Inr texts_def)
  show ?thesis
    unfolding network_constraints_def c Let_def using ok(1-3) us d
    by (auto simp: exact_object boolean_Inr integer_again stringSet_again [OF ok(6)] l a origins_again [OF ok(5)] check_def
        boolean_def)
qed

section \<open>Processes, credentials and readers again\<close>

lemma name_tests [simp]:
  "''host.process.shell'' \<noteq> ''host.process.network''" "''host.process.signal'' \<noteq> ''host.process.network''"
  by simp_all

lemma execute_again:
  assumes "process_constraints P ''host.process.execute'' v = Inr c"
  shows "process_constraints P ''host.process.execute'' c = Inr c"
proof -
  from execute_shape [OF assms] obtain xs rs f where
    c: "c = object [(''executableIds'', sorted_ids xs), (''limits'', limit_map PROCESS_LIMITS f), (''rootIds'', sorted_ids rs)]"
    and ok: "identifiers (texts xs) 256 = Inr (sorted_ids xs)" "identifiers (texts rs) 64 = Inr (sorted_ids rs)"
      "limits_ok (bounded_by PROCESS_LIMITS) 0 f" by blast
  have "limits_of (limit_map PROCESS_LIMITS f) PROCESS_LIMITS = Inr (limit_map PROCESS_LIMITS f)"
    using ok(3) by (rule limits_again) (simp add: PROCESS_LIMITS_def)
  then show ?thesis unfolding process_constraints_def c
    by (simp add: exact_object identifiers_again [OF ok(1)] identifiers_again [OF ok(2)])
qed

lemma shell_again:
  assumes "process_constraints P ''host.process.shell'' v = Inr c"
  shows "process_constraints P ''host.process.shell'' c = Inr c"
proof -
  from shell_shape [OF assms] obtain xs where c: "c = object [(''executableIds'', sorted_ids xs)]"
    and ok: "identifiers (texts xs) 256 = Inr (sorted_ids xs)" by blast
  show ?thesis unfolding process_constraints_def c by (simp add: exact_object identifiers_again [OF ok])
qed

lemma signal_again:
  assumes "process_constraints P ''host.process.signal'' v = Inr c"
  shows "process_constraints P ''host.process.signal'' c = Inr c"
proof -
  from signal_shape [OF assms] obtain xs where c: "c = object [(''signals'', texts (js_sort compareCodePoints xs))]"
    and ok: "stringSet (texts xs) SIGNALS 0 3 = Inr (js_sort compareCodePoints xs)" by blast
  show ?thesis unfolding process_constraints_def c by (simp add: exact_object stringSet_again [OF ok])
qed

lemma process_again:
  assumes "process_constraints P name v = Inr c" "kind_of name = K_process"
  shows "process_constraints P name c = Inr c"
proof -
  note other = process_other [OF assms(2)]
  from process_shape [OF assms(1) other] obtain xs n ss where
    c: "c = object [(''executableIds'', sorted_ids xs), (''maxProcesses'', num n), (''signals'', texts (js_sort compareCodePoints ss))]"
    and ok: "identifiers (texts xs) 256 = Inr (sorted_ids xs)" "stringSet (texts ss) SIGNALS 0 3 = Inr (js_sort compareCodePoints ss)"
      "0 \<le> n" "n \<le> 100000" by blast
  show ?thesis unfolding process_constraints_def c using other ok(3,4)
    by (simp add: exact_object identifiers_again [OF ok(1)] stringSet_again [OF ok(2)] integer_again)
qed

lemma credential_again:
  assumes "normalizeCapabilityConstraints P ''host.storage.credential'' v = Inr c"
  shows "normalizeCapabilityConstraints P ''host.storage.credential'' c = Inr c"
proof -
  from credential_shape [OF assms] obtain xs us where
    c: "c = object [(''stores'', sorted_ids xs), (''usages'', texts (js_sort compareCodePoints us))]"
    and ok: "identifiers (texts xs) 64 = Inr (sorted_ids xs)"
      "stringSet (texts us) [''gitHttp'', ''httpAuthorization''] 1 2 = Inr (js_sort compareCodePoints us)" by blast
  show ?thesis unfolding normalizeCapabilityConstraints_def c
    by (simp add: exact_object identifiers_again [OF ok(1)] stringSet_again [OF ok(2), simplified])
qed

lemma reader_again: "reader_constraints v = Inr c \<Longrightarrow> reader_constraints c = Inr c"
  by (drule reader_shape) (auto simp: reader_constraints_def exact_object integer_again)

section \<open>File system again\<close>

lemma root_again:
  assumes "fs_root x = Inr r"
  shows "fs_root r = Inr r"
proof -
  from root_shape [OF assms] obtain segs rights rid link where
    r: "r = root_of segs (js_sort compareCodePoints rights) rid link" and ok: "root_ok segs rights rid link" by blast
  have segs: "array (texts segs) 0 256 = Inr (map D_str segs)" "mapE canonicalFilesystemPrefixSegment (map D_str segs) = Inr segs"
    using ok by (simp_all add: root_ok_def array_Inr texts_def segments_Inr)
  have rights: "stringSet (texts (js_sort compareCodePoints rights)) FS_RIGHTS 1 (length FS_RIGHTS) = Inr (js_sort compareCodePoints rights)"
    using ok by (simp add: root_ok_def stringSet_again)
  have rid: "identifier_v (D_str rid) 64 = Inr rid" and link: "link \<in> set [''deny'', ''withinRoot'']" using ok by (simp_all add: root_ok_def)
  show ?thesis unfolding fs_root_def r root_of_def text_v_def
    by (simp add: exact_object segs rights [simplified] rid literal_again [OF link])
qed

lemma mapE_fixed:
  assumes "mapE f xs = Inr ys" "\<And>x y. f x = Inr y \<Longrightarrow> f y = Inr y" "y \<in> set ys"
  shows "f y = Inr y"
proof -
  have "\<forall>y \<in> set ys. f y = Inr y"
    using assms(1) unfolding mapE_Inr by (induction rule: list_all2_induct) (auto intro: assms(2))
  then show ?thesis using assms(3) by blast
qed

lemma mapE_again:
  assumes "mapE f xs = Inr ys" "\<And>x y. f x = Inr y \<Longrightarrow> f y = Inr y" "set zs \<subseteq> set ys"
  shows "mapE f zs = Inr zs"
proof -
  have "mapE f zs = Inr (map (\<lambda>x. x) zs)"
  proof (rule mapE_all)
    fix x assume "x \<in> set zs"
    then have "x \<in> set ys" using assms(3) by blast
    with assms(1,2) show "f x = Inr x" by (rule mapE_fixed)
  qed
  then show ?thesis by simp
qed

lemma mapE_preserving: "\<forall>y \<in> set ys. \<exists>z. f y = Inr z \<and> g z = g y \<Longrightarrow> \<exists>zs. mapE f ys = Inr zs \<and> map g zs = map g ys"
  by (induction ys) (auto split: sum.split)

lemma mapE_length: "mapE f xs = Inr ys \<Longrightarrow> length ys = length xs"
  by (simp add: mapE_Inr list_all2_lengthD)

lemma filesystem_again:
  assumes "platform_ok P" "filesystem_constraints P v = Inr c"
  shows "filesystem_constraints P c = Inr c"
proof -
  from filesystem_shape [OF assms(2)] obtain xs rs f where
    c: "c = object [(''limits'', limit_map FS_LIMITS f), (''roots'', D_list (js_sort (root_order P) rs))]"
    and ok: "1 \<le> length xs" "length xs \<le> 64" "mapE fs_root xs = Inr rs" "distinct (map root_identity (js_sort (root_order P) rs))"
      "limits_ok (bounded_by FS_LIMITS) 0 f" by blast
  have l: "limits_of (limit_map FS_LIMITS f) FS_LIMITS = Inr (limit_map FS_LIMITS f)"
    using ok(5) by (rule limits_again) (simp add: FS_LIMITS_def)
  have a: "array (D_list (js_sort (root_order P) rs)) 1 64 = Inr (js_sort (root_order P) rs)"
    using ok(1,2) mapE_length [OF ok(3)] by (simp add: array_Inr)
  have m: "mapE fs_root (js_sort (root_order P) rs) = Inr (js_sort (root_order P) rs)"
    by (rule mapE_again [OF ok(3) root_again]) auto
  show ?thesis unfolding filesystem_constraints_def c Let_def
    by (simp add: exact_object a [simplified] m l ok(4) js_sort_idem [OF total_roots [OF assms(1)]] del: distinct_js_sort)
qed

section \<open>Process network again\<close>

lemma hostname_again:
  assumes "platform_ok P" "hostname_of P (D_str h) = Inr s"
  shows "hostname_of P (D_str s) = Inr s"
proof -
  have h: "h \<noteq> []" "length h \<le> 253" using assms(2) by (auto simp: hostname_of_def split: if_splits)
  note e = assms(2) [unfolded hostname_of_def data.case Let_def]
  obtain u where new: "new_url P (js ''http://'' @ lower_case P h @ js ''/'') = Some u"
    using e h by (cases "new_url P (js ''http://'' @ lower_case P h @ js ''/'')") simp_all
  have u: "u_hostname u = lower_case P h" "u_port u = []" "u_username u = []" "u_password u = []" "s = lower_case P h"
    using e h unfolding new option.case by (simp_all only: if_False split: if_splits) simp_all
  have lower: "lower_case P (lower_case P h) = lower_case P h" using assms(1) by (simp add: platform_ok_def lowers_def)
  have "ascii (u_hostname u)" using new assms(1) unfolding platform_ok_def by blast
  then have "ascii (lower_case P h)" using u(1) by simp
  then have "length (lower_case P h) = length h" using assms(1) by (simp add: platform_ok_def)
  then have "lower_case P h \<noteq> []" "length (lower_case P h) \<le> 253" using h by auto
  then show ?thesis unfolding u(5) hostname_of_def data.case Let_def lower new option.case using u by simp
qed

lemma endpoint_again:
  assumes "platform_ok P" "endpoint_constraints P x = Inr e"
  shows "endpoint_constraints P e = Inr e"
proof -
  from endpoint_shape [OF assms(2)] obtain h ps t where e: "e = endpoint_of (lower_case P h) (sorted_ports ps) t"
    and ok: "endpoint_ok P h ps t" by blast
  have h: "hostname_of P (D_str h) = Inr (lower_case P h)" and t: "t \<in> set [''tcp'', ''tls'', ''udp'']"
    and p: "port_list (D_list (map num ps)) = Inr (sorted_ports ps)" using ok by (simp_all add: endpoint_ok_def)
  have p': "port_list (D_list (map num (sorted_ports ps))) = Inr (sorted_ports ps)"
    using p by (fastforce simp: port_list_Inr inj_map_eq_map inj_def list_all_iff)
  show ?thesis unfolding endpoint_constraints_def e endpoint_of_def text_v_def
    by (simp add: exact_object p' hostname_again [OF assms(1) h] literal_again [OF t])
qed

lemma process_network_again:
  assumes "platform_ok P" "process_network P v = Inr c"
  shows "process_network P c = Inr c"
proof -
  from process_network_shape [OF assms(2)] obtain xs es n a where
    c: "c = object [(''endpoints'', D_list (js_sort (endpoint_order P) es)), (''maxSockets'', num n), (''privateNetwork'', text_v a)]"
    and ok: "length xs \<le> 256" "mapE (endpoint_constraints P) xs = Inr es" "distinct (map endpoint_identity (js_sort (endpoint_order P) es))"
      "1 \<le> n" "n \<le> 256" "a \<in> {''allow'', ''deny''}" by blast
  have t: "a \<in> set [''allow'', ''deny'']" using ok(6) by simp
  have p: "or_else (D_str (js a)) w = D_str (js a)" for w by (simp add: or_else_def)
  have e: "array (D_list (js_sort (endpoint_order P) es)) 0 256 = Inr (js_sort (endpoint_order P) es)"
    using ok(1) mapE_length [OF ok(2)] by (simp add: array_Inr)
  have m: "mapE (endpoint_constraints P) (js_sort (endpoint_order P) es) = Inr (js_sort (endpoint_order P) es)"
    by (rule mapE_again [OF ok(2) endpoint_again [OF assms(1)]]) auto
  have i: "integer (num n) 1 256 = Inr n" using ok(4,5) by (simp add: integer_Inr MAX_SAFE_INTEGER_def)
  show ?thesis unfolding process_network_def c Let_def text_v_def
    by (simp add: exact_object e m ok(3) i js_sort_idem [OF total_endpoints [OF assms(1)]] check_def
        key_def lookup_key_def p [simplified] literal_again [OF t] del: distinct_js_sort)
qed

section \<open>Storage again\<close>

lemma scalar_set_sorted: "scalar_set n e ys \<Longrightarrow> scalar_set n e (js_sort cmp ys)"
  by (simp add: scalar_set_def list_all_iff)

lemma namespace_ok_sorted:
  assumes "namespace_ok f dbs kps nid ops"
  shows "namespace_ok f (sorted_scalars dbs) (sorted_scalars kps) nid (sorted_scalars ops)"
  using assms by (simp add: namespace_ok_def scalar_set_sorted stringSet_again)

lemma namespace_normal:
  assumes "namespace_ok f dbs kps nid ops"
  shows "storage_namespace (limit_map (map fst STORAGE_LIMIT_MAXIMA) f) (namespace_of dbs kps nid ops) =
    Inr (namespace_of (sorted_scalars dbs) (sorted_scalars kps) nid (sorted_scalars ops))"
proof -
  have f: "number (field (limit_map (map fst STORAGE_LIMIT_MAXIMA) f) ''maxKeyBytes'') = of_int (f ''maxKeyBytes'')"
    "number (field (limit_map (map fst STORAGE_LIMIT_MAXIMA) f) ''maxDatabaseNameBytes'') = of_int (f ''maxDatabaseNameBytes'')"
    by (simp_all add: limit_map_field STORAGE_LIMIT_MAXIMA_def)
  have k: "sortedUnique (texts kps) 0 64 (\<lambda>item. scalarText item (nat (f ''maxKeyBytes'')) True) = Inr (sorted_scalars kps)"
    and d: "sortedUnique (texts dbs) 0 64 (\<lambda>item. scalarText item (nat (f ''maxDatabaseNameBytes'')) False) = Inr (sorted_scalars dbs)"
    using assms unfolding sortedUnique_scalars namespace_ok_def by blast+
  have o: "stringSet (texts ops) STORAGE_OPERATIONS 1 (length STORAGE_OPERATIONS) = Inr (sorted_scalars ops)"
    and rest: "identifier_v (D_str nid) 128 = Inr nid" "list_ex kv_operation ops \<longrightarrow> kps \<noteq> []" "list_ex sqlite_operation ops \<longrightarrow> dbs \<noteq> []"
    using assms by (simp_all add: namespace_ok_def)
  show ?thesis unfolding storage_namespace_def namespace_of_def f sortedUnique_literals
    using rest by (auto simp: exact_object k d o [simplified])
qed

lemma sandbox_accepts:
  assumes "storage_ok P dbs kps nid ops f"
  shows "normalizeStorageSandbox P (object [(''access'', text_v ''sandboxed''), (''limits'', limit_map (map fst STORAGE_LIMIT_MAXIMA) f),
      (''namespaces'', D_list [namespace_of dbs kps nid ops])]) =
    Inr (object [(''access'', text_v ''sandboxed''), (''limits'', limit_map (map fst STORAGE_LIMIT_MAXIMA) f),
      (''namespaces'', D_list [namespace_of (sorted_scalars dbs) (sorted_scalars kps) nid (sorted_scalars ops)])])"
proof -
  let ?n = "namespace_of (sorted_scalars dbs) (sorted_scalars kps) nid (sorted_scalars ops)"
  have ok: "namespace_ok f dbs kps nid ops" "limits_ok STORAGE_LIMIT_MAXIMA 1 f"
    and size: "\<not> 256 * 1024 < policy_utf8ByteLength (stringify (number_text P) (J_list [plain_value ?n]))"
    using assms by (simp_all add: storage_ok_def)
  have s: "literal (text_v ''sandboxed'') [''none'', ''sandboxed''] = Inr (js ''sandboxed'')" by (simp add: literal_Inr text_v_def)
  have m: "mapE (storage_namespace (limit_map (map fst STORAGE_LIMIT_MAXIMA) f)) [namespace_of dbs kps nid ops] = Inr [?n]"
    by (simp add: namespace_normal [OF ok(1)])
  have a: "array (D_list [namespace_of dbs kps nid ops]) 1 64 = Inr [namespace_of dbs kps nid ops]" by (simp add: array_Inr)
  show ?thesis unfolding normalizeStorageSandbox_def exact_all bindR_simps Let_def
    using size by (simp add: s storage_limits_again [OF ok(2)] a [simplified] m check_def text_v_def [symmetric] del: mapE.simps)
qed

text \<open>An object with the five keys of storage constraints is accepted when its values are.\<close>

lemma storage_accepts:
  assumes "exact v [''databases'', ''keyPrefixes'', ''limits'', ''namespaceId'', ''operations''] = Inr m"
    "required m ''databases'' = Inr (texts dbs)" "required m ''keyPrefixes'' = Inr (texts kps)"
    "required m ''limits'' = Inr (limit_map (map fst STORAGE_LIMIT_MAXIMA) f)" "required m ''namespaceId'' = Inr (D_str nid)"
    "required m ''operations'' = Inr (texts ops)" "storage_ok P dbs kps nid ops f"
  shows "storage_constraints P v = Inr (storage_of (sorted_scalars dbs) (sorted_scalars kps) nid (sorted_scalars ops) f)"
  unfolding storage_constraints_def assms(1-6) bindR_simps namespace_of_def [symmetric] sandbox_accepts [OF assms(7)]
  by (simp add: namespace_of_def storage_of_def) (simp add: object_def)

lemma storage_ok_sorted:
  assumes "storage_ok P dbs kps nid ops f"
  shows "storage_ok P (sorted_scalars dbs) (sorted_scalars kps) nid (sorted_scalars ops) f"
  using assms namespace_ok_sorted by (simp add: storage_ok_def)

lemma storage_again:
  assumes "storage_constraints P v = Inr c"
  shows "storage_constraints P c = Inr c"
proof -
  obtain dbs kps nid ops f where c: "c = storage_of (sorted_scalars dbs) (sorted_scalars kps) nid (sorted_scalars ops) f"
    and ok: "storage_ok P dbs kps nid ops f" using storage_shape [OF assms] by blast
  have "storage_constraints P c = Inr (storage_of (sorted_scalars (sorted_scalars dbs)) (sorted_scalars (sorted_scalars kps)) nid
      (sorted_scalars (sorted_scalars ops)) f)"
    by (rule storage_accepts [where m = "entries c", OF _ _ _ _ _ _ storage_ok_sorted [OF ok]]) (simp_all add: c storage_of_def exact_object)
  then show ?thesis by (simp add: c)
qed

section \<open>Every kind\<close>

lemma norm_again:
  assumes "platform_ok P" "norm_kind P name k v = Inr c" "k = kind_of name"
  shows "norm_kind P name k c = Inr c"
proof (cases k)
  case K_process
  then show ?thesis using process_again assms(2,3) by simp
qed (use assms(1,2) filesystem_again network_again device_again system_again process_network_again execute_again shell_again signal_again
    credential_again storage_again reader_again in \<open>simp_all\<close>)

text \<open>
  C13: Normalizing constraints a second time changes nothing: the normal form that
  \<open>normalizeCapabilityConstraints\<close> returns for any capability name is accepted and is its own normal form, on a
  platform whose string comparison is consistent.
\<close>

theorem normalization_is_idempotent:
  assumes "platform_ok P" "normalizeCapabilityConstraints P name v = Inr c"
  shows "normalizeCapabilityConstraints P name c = Inr c"
  using norm_again [OF assms(1)] assms(2) unfolding normalize_of_kind by blast

end
