(* ===== verification/Capability_Laws.thy ===== *)
theory Capability_Laws
  imports Capability_Idempotent
begin

text \<open>
  The laws of the capability algebra over the values that the functions of the program take: the comparison is
  a preorder on accepted constraints, and a meet is a greatest lower bound.
\<close>

section \<open>The meet of storage constraints\<close>

lemma starts_with_self [simp]: "starts_with s s"
  by (simp add: starts_with_def)

lemma starts_with_comparable: "starts_with s a \<Longrightarrow> starts_with s b \<Longrightarrow> starts_with a b \<or> starts_with b a"
  unfolding starts_with_def by (metis min.cobounded1 min.cobounded2 min_absorb1 take_take nat_le_linear)

lemma in_commonPrefixes:
  "x \<in> set (commonPrefixes ls rs) \<longleftrightarrow>
     (\<exists>a \<in> set ls. \<exists>b \<in> set rs. starts_with a b \<and> x = a \<or> \<not> starts_with a b \<and> starts_with b a \<and> x = b)"
  by (auto simp: commonPrefixes_def split: if_splits)

lemma storage_operands:
  assumes "storage_constraints P lv = Inr l"
  shows "\<exists>dbs kps nid ops f. l = storage_of dbs kps nid ops f"
  using storage_shape [OF assms] by blast

definition storage_common :: "data \<Rightarrow> data \<Rightarrow> data" where
  "storage_common l r =
     object [(''databases'', D_list (filter (\<lambda>v. v \<in> set (items (field r ''databases''))) (items (field l ''databases'')))),
             (''keyPrefixes'', texts (commonPrefixes (the_texts (field l ''keyPrefixes'')) (the_texts (field r ''keyPrefixes'')))),
             (''limits'', meetNumbers (field l ''limits'') (field r ''limits'')),
             (''namespaceId'', field l ''namespaceId''),
             (''operations'', D_list (filter (\<lambda>v. v \<in> set (items (field r ''operations''))) (items (field l ''operations''))))]"

lemma meetStorage_Some:
  assumes "storage_constraints P lv = Inr l" "storage_constraints P rv = Inr r" "meetStorage P l r = Inr (Some m)"
  shows "storage_constraints P (storage_common l r) = Inr m \<and> field l ''namespaceId'' = field r ''namespaceId''"
  using assms(3) unfolding meetStorage_def storage_again [OF assms(1)] storage_again [OF assms(2)] bindR_simps storage_common_def
  by (auto simp: Let_def mapR_def bindR_Inr split: if_splits)

lemma common_covered:
  assumes "storage_constraints P lv = Inr l" "storage_constraints P rv = Inr r" "field l ''namespaceId'' = field r ''namespaceId''"
  shows "covers_storage l (storage_common l r)" "covers_storage r (storage_common l r)"
proof -
  obtain dl kl nl ol f dr kr nr or' g where l: "l = storage_of dl kl nl ol f" and r: "r = storage_of dr kr nr or' g"
    using storage_operands assms(1,2) by meson
  have n: "numbersAtLeast (field l ''limits'') (meetNumbers (field l ''limits'') (field r ''limits''))"
    "numbersAtLeast (field r ''limits'') (meetNumbers (field l ''limits'') (field r ''limits''))"
    using meetNumbers_below [OF limit_map_reads limit_map_reads] by (simp_all add: l r)
  have p: "\<exists>s \<in> set kl. starts_with x s" "\<exists>s \<in> set kr. starts_with x s" if "x \<in> set (commonPrefixes kl kr)" for x
    using that unfolding in_commonPrefixes by (metis starts_with_self)+
  show "covers_storage l (storage_common l r)" "covers_storage r (storage_common l r)"
    using n p assms(3) by (auto simp: covers_storage_def storage_common_def setAtLeast_iff list_all_iff list_ex_iff l r)
qed

lemma common_greatest:
  assumes "storage_constraints P lv = Inr l" "storage_constraints P rv = Inr r" "covers_storage l c" "covers_storage r c"
  shows "covers_storage (storage_common l r) c"
proof -
  obtain dl kl nl ol f dr kr nr or' g where l: "l = storage_of dl kl nl ol f" and r: "r = storage_of dr kr nr or' g"
    using storage_operands assms(1,2) by meson
  have n: "numbersAtLeast (meetNumbers (field l ''limits'') (field r ''limits'')) (field c ''limits'')"
    using assms(3,4) by (intro meetNumbers_above) (simp_all add: covers_storage_def)
  have p: "\<exists>s \<in> set (commonPrefixes kl kr). starts_with x s"
    if "\<exists>a \<in> set kl. starts_with x a" "\<exists>b \<in> set kr. starts_with x b" for x
  proof -
    from that obtain a b where ab: "a \<in> set kl" "b \<in> set kr" "starts_with x a" "starts_with x b" by blast
    then have "starts_with a b \<or> \<not> starts_with a b \<and> starts_with b a" using starts_with_comparable [OF ab(3,4)] by blast
    then have "a \<in> set (commonPrefixes kl kr) \<or> b \<in> set (commonPrefixes kl kr)"
      using ab(1,2) unfolding in_commonPrefixes by blast
    then show ?thesis using ab(3,4) by blast
  qed
  show ?thesis
    using n p assms(3,4) by (auto simp: covers_storage_def storage_common_def setAtLeast_iff list_all_iff list_ex_iff l r)
qed

lemma meetStorage_bounds:
  assumes "storage_constraints P lv = Inr l" "storage_constraints P rv = Inr r" "meetStorage P l r = Inr (Some m)"
  shows "bounds P name K_storage l r m"
proof -
  note c = meetStorage_Some [OF assms]
  then have same: "same_cover K_storage (storage_common l r) m" using storage_same by blast
  show ?thesis
    using common_covered [OF assms(1,2)] common_greatest [OF assms(1,2)] c same by (simp add: bounds_def same_cover_def)
qed

section \<open>The comparison is reflexive on normal forms\<close>

lemma at_least_self [simp]: "at_least (num n) (num n)"
  by simp

lemma setAtLeast_self [simp]: "setAtLeast a a"
  by (simp add: setAtLeast_iff)

lemma numbersAtLeast_self [simp]: "numbersAtLeast (limit_map ks f) (limit_map ks f)"
  by (simp add: numbersAtLeast_reads [OF limit_map_reads limit_map_reads])

lemma prefixContains_self [simp]: "prefixContains xs xs"
  by (simp add: prefixContains_def)

lemma satisfiesFs_self:
  assumes "filesystem_constraints P v = Inr c"
  shows "satisfiesFs c c"
proof -
  obtain xs rs f where c: "c = object [(''limits'', limit_map FS_LIMITS f), (''roots'', D_list (js_sort (root_order P) rs))]"
    using filesystem_shape [OF assms] by blast
  have "root_covers r r" if "r \<in> set rs" for r
    using fs_roots [OF assms, of r] that by (auto simp: c root_covers_def)
  then show ?thesis by (auto simp: satisfiesFs_def list_all_iff list_ex_iff c)
qed

lemma satisfiesNetwork_self: "network_constraints P v e = Inr c \<Longrightarrow> satisfiesNetwork c c"
  by (drule network_shape) (auto simp: satisfiesNetwork_def)

lemma satisfiesProcessNetwork_self:
  assumes "process_network P v = Inr c"
  shows "satisfiesProcessNetwork c c"
proof -
  note n = network_endpoints [OF assms]
  then have "endpoint_for (field c ''endpoints'') (endpoint_identity x) = Some x" if "x \<in> set (items (field c ''endpoints''))" for x
    using that by (simp add: endpoint_for_iff)
  then show ?thesis using n unfolding satisfiesProcessNetwork_iff by (metis at_least_self setAtLeast_self)
qed

lemma covers_storage_self: "storage_constraints P v = Inr c \<Longrightarrow> covers_storage c c"
  by (drule storage_shape) (fastforce simp: covers_storage_def list_all_iff list_ex_iff intro: starts_with_self)

lemma covers_kind_self:
  assumes "norm_kind P name k v = Inr c" "k = kind_of name"
  shows "covers_kind k c c"
proof (cases k)
  case K_device
  then show ?thesis using assms(1) device_shape [of v c] by auto
next
  case K_system
  then show ?thesis using assms(1) system_shape [of v c] by auto
next
  case K_execute
  then show ?thesis using assms(1) execute_shape [of P v c] by auto
next
  case K_process
  then have "process_constraints P name v = Inr c" using assms(1) by simp
  from process_shape [OF this process_other] K_process assms(2) obtain xs n ss where
    "c = object [(''executableIds'', sorted_ids xs), (''maxProcesses'', num n), (''signals'', texts (js_sort compareCodePoints ss))]"
    by metis
  then show ?thesis using K_process by simp
next
  case K_reader
  then show ?thesis using assms(1) reader_shape [of v c] by auto
qed (use assms satisfiesFs_self satisfiesNetwork_self satisfiesProcessNetwork_self covers_storage_self in auto)

section \<open>Satisfying\<close>

definition sat :: "platform \<Rightarrow> string \<Rightarrow> data \<Rightarrow> data \<Rightarrow> bool" where
  "sat P name a c \<longleftrightarrow> capabilitySatisfies P name a c = Inr True"

definition accepted :: "platform \<Rightarrow> string \<Rightarrow> data \<Rightarrow> bool" where
  "accepted P name v \<longleftrightarrow> (\<exists>c. normalizeCapabilityConstraints P name v = Inr c)"

lemma kind_storage: "kind_of name = K_storage \<longleftrightarrow> name = ''host.storage''"
  by (auto simp: kind_of_def)

lemma satisfies_normal:
  assumes "normalizeCapabilityConstraints P name a = Inr a'" "normalizeCapabilityConstraints P name c = Inr c'"
  shows "capabilitySatisfies P name a c = Inr (covers_kind (kind_of name) a' c')"
proof (cases "name = ''host.storage''")
  case True
  then have k: "kind_of name = K_storage" by (simp add: kind_storage)
  have "storage_constraints P a' = Inr a'" "storage_constraints P c' = Inr c'"
    using assms storage_again unfolding normalize_of_kind k norm_kind.simps by blast+
  then show ?thesis using True unfolding capabilitySatisfies_def assms k by (simp add: storageCapabilitySatisfies_def)
next
  case False
  then show ?thesis unfolding capabilitySatisfies_def assms by (simp add: covers_of_kind)
qed

lemma sat_iff:
  "sat P name a c \<longleftrightarrow>
    (\<exists>a' c'. normalizeCapabilityConstraints P name a = Inr a' \<and> normalizeCapabilityConstraints P name c = Inr c' \<and>
       covers_kind (kind_of name) a' c')"
proof
  assume s: "sat P name a c"
  then obtain a' c' where "normalizeCapabilityConstraints P name a = Inr a'" "normalizeCapabilityConstraints P name c = Inr c'"
    unfolding sat_def capabilitySatisfies_def bindR_Inr by blast
  then show "\<exists>a' c'. normalizeCapabilityConstraints P name a = Inr a' \<and> normalizeCapabilityConstraints P name c = Inr c' \<and>
      covers_kind (kind_of name) a' c'"
    using s satisfies_normal by (auto simp: sat_def)
qed (auto simp: sat_def satisfies_normal)

lemma sat_self: "sat P name c c \<longleftrightarrow> accepted P name c"
  by (auto simp: sat_iff accepted_def normalize_of_kind covers_kind_self)

lemma sat_trans: "sat P name a b \<Longrightarrow> sat P name b c \<Longrightarrow> sat P name a c"
  unfolding sat_iff by (metis covers_kind_trans sum.inject(2))

section \<open>Meeting\<close>

lemma meet_result:
  assumes "meetCapabilityConstraints P name l r = Inr (Some m)"
  shows "\<exists>l' r'. normalizeCapabilityConstraints P name l = Inr l' \<and> normalizeCapabilityConstraints P name r = Inr r' \<and>
    bounds P name (kind_of name) l' r' m"
proof -
  obtain l' r' where n: "normalizeCapabilityConstraints P name l = Inr l'" "normalizeCapabilityConstraints P name r = Inr r'"
    and m: "(if name = ''host.storage'' then meetStorage P l' r' else Inr (meet_normal name l' r')) = Inr (Some m)"
    using assms unfolding meetCapabilityConstraints_def bindR_Inr by blast
  note nk = n [unfolded normalize_of_kind]
  have "bounds P name (kind_of name) l' r' m"
  proof (cases "name = ''host.storage''")
    case True
    then have k: "kind_of name = K_storage" by (simp add: kind_storage)
    have "meetStorage P l' r' = Inr (Some m)" using m True by simp
    then show ?thesis using meetStorage_bounds nk unfolding k norm_kind.simps by blast
  next
    case False
    then have "meet_kind name (kind_of name) l' r' = Some m" using m by (simp add: meet_of_kind)
    then show ?thesis using meet_bounds [OF nk refl] False kind_storage by blast
  qed
  then show ?thesis using n by blast
qed

lemma kind_network: "kind_of name = K_process_network \<longleftrightarrow> name = ''host.process.network''"
  by (auto simp: kind_of_def)

text \<open>What a meet yields covers what its own normal form covers, and is covered by the same.\<close>

lemma meet_same:
  assumes "platform_ok P" "meetCapabilityConstraints P name l r = Inr (Some m)" "normalizeCapabilityConstraints P name m = Inr m'"
  shows "same_cover (kind_of name) m m'"
proof -
  have "hosts_lowered P m" if k: "kind_of name = K_process_network"
  proof -
    have n: "name = ''host.process.network''" using k by (simp add: kind_network)
    obtain l' r' where l: "normalizeCapabilityConstraints P name l = Inr l'"
      and m: "meetProcessNetwork l' r' = Some m"
      using assms(2) unfolding meetCapabilityConstraints_def bindR_Inr by (auto simp: n meet_normal_def)
    from l have "process_network P l = Inr l'" unfolding normalize_of_kind k norm_kind.simps .
    then show ?thesis using meet_lowered [OF _ m] assms(1) by (simp add: platform_ok_def)
  qed
  then show ?thesis using normalization_same [of P name "kind_of name" m m'] assms(3) by (simp add: normalize_of_kind)
qed

lemma sat_meet:
  assumes "platform_ok P" "meetCapabilityConstraints P name l r = Inr (Some m)" "accepted P name m"
  shows "sat P name m c \<longleftrightarrow> sat P name l c \<and> sat P name r c"
proof -
  obtain m' where m': "normalizeCapabilityConstraints P name m = Inr m'" using assms(3) by (auto simp: accepted_def)
  note same = meet_same [OF assms(1,2) m']
  obtain l' r' where n: "normalizeCapabilityConstraints P name l = Inr l'" "normalizeCapabilityConstraints P name r = Inr r'"
    and b: "bounds P name (kind_of name) l' r' m" using meet_result [OF assms(2)] by blast
  have "covers_kind (kind_of name) m' c' \<longleftrightarrow> covers_kind (kind_of name) l' c' \<and> covers_kind (kind_of name) r' c'"
    if "normalizeCapabilityConstraints P name c = Inr c'" for c'
    using b that same unfolding bounds_def same_cover_def normalize_of_kind by (meson covers_kind_trans)
  then show ?thesis unfolding sat_iff n m' by auto
qed

text \<open>
  \<open>capabilitySatisfies\<close> orders the constraints of a capability: every accepted value satisfies itself, and
  satisfying is transitive, so a chain of grants never lends more than its first link.
\<close>

lemma satisfying_is_a_preorder:
  "(capabilitySatisfies P name c c = Inr True \<longleftrightarrow> (\<exists>n. normalizeCapabilityConstraints P name c = Inr n)) \<and>
    (capabilitySatisfies P name a b = Inr True \<and> capabilitySatisfies P name b c = Inr True \<longrightarrow>
       capabilitySatisfies P name a c = Inr True)"
  using sat_self sat_trans unfolding sat_def accepted_def by blast


end
