(* ===== verification/Capability_Closed.thy ===== *)
theory Capability_Closed
  imports Capability_Laws
begin

text \<open>
  The meet of accepted constraints is accepted: every capability but \<open>host.fs\<close>, where two roots of a meet may
  collide, is closed under it.
\<close>

section \<open>Sets, identifiers and precisions\<close>

definition set_ok :: "string list \<Rightarrow> nat \<Rightarrow> nat \<Rightarrow> jstring list \<Rightarrow> bool" where
  "set_ok ks a b xs \<longleftrightarrow> a \<le> length xs \<and> length xs \<le> b \<and> set xs \<subseteq> js ` set ks \<and> distinct xs"

lemma texts_inject [simp]: "texts xs = texts ys \<longleftrightarrow> xs = ys"
  by (simp add: texts_def inj_map_eq_map inj_def)

lemma set_ok: "stringSet (texts xs) ks a b = Inr ys \<longleftrightarrow> set_ok ks a b xs \<and> ys = js_sort compareCodePoints xs"
  by (auto simp: stringSet_Inr set_ok_def)

lemma set_ok_sorted [simp]: "set_ok ks a b (js_sort cmp xs) = set_ok ks a b xs"
  by (simp add: set_ok_def)

definition ids_ok :: "nat \<Rightarrow> jstring list \<Rightarrow> bool" where
  "ids_ok n xs \<longleftrightarrow> length xs \<le> n \<and> list_all (\<lambda>y. identifier_v (D_str y) 128 = Inr y) xs \<and> distinct xs"

lemma ids_ok: "identifiers (texts xs) n = Inr v \<longleftrightarrow> ids_ok n xs \<and> v = sorted_ids xs"
  by (auto simp: identifiers_Inr ids_ok_def)

lemma ids_ok_sorted [simp]: "ids_ok n (js_sort cmp xs) = ids_ok n xs"
  by (simp add: ids_ok_def list_all_iff)

lemma intersect_texts:
  "intersect (texts xs) (texts ys) = texts (js_sort compare_units (filter (\<lambda>x. x \<in> set ys) xs))"
proof -
  have "sort_insert (\<lambda>a b. compare_units (the_text a) (the_text b)) (D_str x) (map D_str zs) = map D_str (sort_insert compare_units x zs)" for x zs
    by (induction zs) auto
  then have "js_sort (\<lambda>a b. compare_units (the_text a) (the_text b)) (map D_str zs) = map D_str (js_sort compare_units zs)" for zs
    by (induction zs) (simp_all add: js_sort_def)
  then show ?thesis by (simp add: intersect_def texts_def filter_map comp_def inj_image_mem_iff inj_def)
qed

lemma length_filter_below: "length xs \<le> n \<Longrightarrow> length (filter p xs) \<le> n"
  by (rule order_trans [OF length_filter_le])

lemma set_ok_filter: "set_ok ks a b xs \<Longrightarrow> a \<le> length (filter p xs) \<Longrightarrow> set_ok ks a b (filter p xs)"
  by (auto simp: set_ok_def length_filter_below)

lemma ids_ok_filter: "ids_ok n xs \<Longrightarrow> ids_ok n (filter p xs)"
  by (auto simp: ids_ok_def length_filter_below list_all_iff)

lemma meet_values_texts_Some:
  "meet_values name k (texts xs) (texts ys) = Some v \<Longrightarrow>
   v = texts (js_sort compare_units (filter (\<lambda>x. x \<in> set ys) xs)) \<and> (xs \<noteq> [] \<and> ys \<noteq> [] \<longrightarrow> filter (\<lambda>x. x \<in> set ys) xs \<noteq> [])"
proof -
  assume m: "meet_values name k (texts xs) (texts ys) = Some v"
  have "meet_values name k (texts xs) (texts ys) =
      (if items (intersect (texts xs) (texts ys)) = [] \<and> xs \<noteq> [] \<and> ys \<noteq> [] then None else Some (intersect (texts xs) (texts ys)))"
    by (simp add: meet_values_def texts_def Let_def)
  then show ?thesis using m unfolding intersect_texts items_simps map_is_Nil_conv js_sort_empty by (simp split: if_splits) blast
qed

lemma meet_values_set:
  assumes "meet_values name k (texts xs) (texts ys) = Some v" "set_ok ks a b xs" "set_ok ks a b ys" "a \<le> 1"
  shows "\<exists>zs. v = texts zs \<and> set_ok ks a b zs"
proof -
  note v = meet_values_texts_Some [OF assms(1)]
  have "a \<le> length (filter (\<lambda>x. x \<in> set ys) xs)"
  proof (cases "a = 0")
    case False
    then have "xs \<noteq> []" "ys \<noteq> []" using assms(2,3) by (auto simp: set_ok_def)
    then have "filter (\<lambda>x. x \<in> set ys) xs \<noteq> []" using v by blast
    then show ?thesis using assms(4) by (cases "filter (\<lambda>x. x \<in> set ys) xs") auto
  qed simp
  then show ?thesis using v set_ok_filter [OF assms(2)] by auto
qed

lemma meet_sorted_set:
  assumes "meet_values name k (texts (js_sort cmp xs)) (texts (js_sort cmp ys)) = Some v" "set_ok ks a b xs" "set_ok ks a b ys" "a \<le> 1"
  shows "\<exists>zs. v = texts zs \<and> stringSet (texts zs) ks a b = Inr (js_sort compareCodePoints zs)"
  using meet_values_set [OF assms(1), of ks a b] assms(2-4) by (simp add: set_ok)

lemma meet_values_ids:
  "meet_values name k (texts xs) (texts ys) = Some v \<Longrightarrow> ids_ok n xs \<Longrightarrow> \<exists>zs. v = texts zs \<and> ids_ok n zs"
  using meet_values_texts_Some ids_ok_filter ids_ok_sorted by blast

lemma meet_sorted_ids:
  assumes "meet_values name k (sorted_ids xs) (sorted_ids ys) = Some v" "ids_ok n xs"
  shows "\<exists>zs. v = texts zs \<and> identifiers (texts zs) n = Inr (sorted_ids zs)"
  using meet_values_ids [OF assms(1), of n] assms(2) by (simp add: ids_ok)

lemma meet_values_precision:
  assumes "meet_values name (js ''maxPrecision'') (text_v p) (text_v q) = Some v" "p \<in> set rank" "q \<in> set rank" "distinct rank"
    "rank = (if begins name ''host.device.'' then DEVICE_PRECISION else SYSTEM_PRECISION)"
  shows "\<exists>t \<in> set rank. v = text_v t"
proof (cases "p = q")
  case True
  then show ?thesis using assms(1,2) by (auto simp: meet_values_def text_v_def)
next
  case False
  then have v: "v = text_v (rank ! nat (min (index_of rank (text_v p)) (index_of rank (text_v q))))"
    using assms(1,5) by (auto simp: meet_values_def text_v_def Let_def)
  obtain i j where i: "p = rank ! i" "i < length rank" and j: "q = rank ! j" "j < length rank"
    using assms(2,3) by (auto simp: in_set_conv_nth)
  have "index_of rank (text_v p) = int i" "index_of rank (text_v q) = int j" using index_in [OF _ assms(4)] i j by simp_all
  then have "v = text_v (rank ! min i j)" using v by (simp add: min_def)
  moreover have "rank ! min i j \<in> set rank" using i j by simp
  ultimately show ?thesis by blast
qed

lemma meet_object:
  "meet_entries name r (entries (object [])) = Some m' \<longleftrightarrow> m' = []"
  "meet_entries name r (entries (object ((k, a) # m))) = Some m' \<longleftrightarrow>
     (\<exists>v m''. meet_values name (js k) a (field r k) = Some v \<and> meet_entries name r (entries (object m)) = Some m'' \<and> m' = (js k, v) # m'')"
  by (auto simp: field_def key_def split: option.splits)

lemma D_map_object: "D_map (map (\<lambda>(k, v). (js k, v)) m) = object m"
  by (simp add: object_def)

section \<open>The generic kinds\<close>

lemma device_closed:
  assumes "device_constraints lv = Inr l" "device_constraints rv = Inr r" "begins name ''host.device.''"
    "meet_entries name r (entries l) = Some m'"
  shows "\<exists>c. device_constraints (D_map m') = Inr c"
proof -
  obtain p t q ops where l: "l = object [(''maxPrecision'', text_v p), (''maxPrivacyTier'', num t), (''maxQueuedEvents'', num q),
      (''operations'', texts (js_sort compareCodePoints ops))]" "p \<in> set DEVICE_PRECISION" "0 \<le> t" "t \<le> 3" "0 \<le> q" "q \<le> 4096"
    "set_ok DEVICE_OPERATIONS 1 (length DEVICE_OPERATIONS) ops" using device_shape [OF assms(1)] unfolding set_ok by blast
  obtain p' t' q' ops' where r: "r = object [(''maxPrecision'', text_v p'), (''maxPrivacyTier'', num t'), (''maxQueuedEvents'', num q'),
      (''operations'', texts (js_sort compareCodePoints ops'))]" "p' \<in> set DEVICE_PRECISION" "0 \<le> t'" "0 \<le> q'"
    "set_ok DEVICE_OPERATIONS 1 (length DEVICE_OPERATIONS) ops'" using device_shape [OF assms(2)] unfolding set_ok by blast
  obtain v w where m: "m' = [(js ''maxPrecision'', v), (js ''maxPrivacyTier'', num (min t t')), (js ''maxQueuedEvents'', num (min q q')), (js ''operations'', w)]"
    and v: "meet_values name (js ''maxPrecision'') (text_v p) (text_v p') = Some v"
    and w: "meet_values name (js ''operations'') (texts (js_sort compareCodePoints ops)) (texts (js_sort compareCodePoints ops')) = Some w"
    using assms(4) unfolding l(1) meet_object r(1) by (auto simp: meet_values_num)
  obtain s where s: "s \<in> set DEVICE_PRECISION" "v = text_v s"
    using meet_values_precision [OF v l(2) r(2)] assms(3) by (auto simp: DEVICE_PRECISION_def)
  obtain zs where zs: "w = texts zs" "stringSet (texts zs) DEVICE_OPERATIONS 1 (length DEVICE_OPERATIONS) = Inr (js_sort compareCodePoints zs)"
    using meet_sorted_set [OF w l(7) r(5)] by auto
  have "D_map m' = object [(''maxPrecision'', text_v s), (''maxPrivacyTier'', num (min t t')), (''maxQueuedEvents'', num (min q q')), (''operations'', texts zs)]"
    unfolding m s zs(1) by (simp add: object_def)
  then show ?thesis
    using l(3-6) r(3,4) s(1) by (simp add: device_constraints_def exact_object text_v_def literal_again integer_again zs(2) [simplified])
qed

lemma system_closed:
  assumes "system_constraints lv = Inr l" "system_constraints rv = Inr r" "begins name ''host.system.''" "\<not> begins name ''host.device.''"
    "meet_entries name r (entries l) = Some m'"
  shows "\<exists>c. system_constraints (D_map m') = Inr c"
proof -
  obtain p fs ms where l: "l = object [(''fields'', texts (js_sort compareCodePoints fs)), (''maxPrecision'', text_v p),
      (''modes'', texts (js_sort compareCodePoints ms))]" "p \<in> set SYSTEM_PRECISION"
    "set_ok SYSTEM_INFORMATION_FIELDS 1 (length SYSTEM_INFORMATION_FIELDS) fs" "set_ok [''real'', ''redacted'', ''synthetic''] 1 3 ms"
    using system_shape [OF assms(1)] unfolding set_ok by blast
  obtain p' fs' ms' where r: "r = object [(''fields'', texts (js_sort compareCodePoints fs')), (''maxPrecision'', text_v p'),
      (''modes'', texts (js_sort compareCodePoints ms'))]" "p' \<in> set SYSTEM_PRECISION"
    "set_ok SYSTEM_INFORMATION_FIELDS 1 (length SYSTEM_INFORMATION_FIELDS) fs'" "set_ok [''real'', ''redacted'', ''synthetic''] 1 3 ms'"
    using system_shape [OF assms(2)] unfolding set_ok by blast
  obtain u v w where m: "m' = [(js ''fields'', u), (js ''maxPrecision'', v), (js ''modes'', w)]"
    and u: "meet_values name (js ''fields'') (texts (js_sort compareCodePoints fs)) (texts (js_sort compareCodePoints fs')) = Some u"
    and v: "meet_values name (js ''maxPrecision'') (text_v p) (text_v p') = Some v"
    and w: "meet_values name (js ''modes'') (texts (js_sort compareCodePoints ms)) (texts (js_sort compareCodePoints ms')) = Some w"
    using assms(5) unfolding l(1) meet_object r(1) by auto
  obtain s where s: "s \<in> set SYSTEM_PRECISION" "v = text_v s"
    using meet_values_precision [OF v l(2) r(2)] assms(4) by (auto simp: SYSTEM_PRECISION_def)
  obtain xs where xs: "u = texts xs"
    "stringSet (texts xs) SYSTEM_INFORMATION_FIELDS 1 (length SYSTEM_INFORMATION_FIELDS) = Inr (js_sort compareCodePoints xs)"
    using meet_sorted_set [OF u l(3) r(3)] by auto
  obtain zs where zs: "w = texts zs" "stringSet (texts zs) [''real'', ''redacted'', ''synthetic''] 1 3 = Inr (js_sort compareCodePoints zs)"
    using meet_sorted_set [OF w l(4) r(4)] by auto
  have "D_map m' = object [(''fields'', texts xs), (''maxPrecision'', text_v s), (''modes'', texts zs)]"
    unfolding m s xs(1) zs(1) by (simp add: object_def)
  then show ?thesis
    using s(1) by (simp add: system_constraints_def exact_object text_v_def literal_again xs(2) [simplified] zs(2) [simplified])
qed

lemma shell_closed:
  assumes "process_constraints P ''host.process.shell'' lv = Inr l" "process_constraints P ''host.process.shell'' rv = Inr r"
    "meet_entries name r (entries l) = Some m'"
  shows "\<exists>c. process_constraints P ''host.process.shell'' (D_map m') = Inr c"
proof -
  obtain xs where l: "l = object [(''executableIds'', sorted_ids xs)]" "ids_ok 256 xs" using shell_shape [OF assms(1)] unfolding ids_ok by blast
  obtain ys where r: "r = object [(''executableIds'', sorted_ids ys)]" using shell_shape [OF assms(2)] by blast
  obtain v where m: "m' = [(js ''executableIds'', v)]" and v: "meet_values name (js ''executableIds'') (sorted_ids xs) (sorted_ids ys) = Some v"
    using assms(3) unfolding l(1) meet_object r(1) by auto
  obtain zs where zs: "v = texts zs" "identifiers (texts zs) 256 = Inr (sorted_ids zs)" using meet_sorted_ids [OF v l(2)] by blast
  have "D_map m' = object [(''executableIds'', texts zs)]" unfolding m zs(1) by (simp add: object_def)
  then show ?thesis by (simp add: process_constraints_def exact_object zs(2))
qed

lemma signal_closed:
  assumes "process_constraints P ''host.process.signal'' lv = Inr l" "process_constraints P ''host.process.signal'' rv = Inr r"
    "meet_entries name r (entries l) = Some m'"
  shows "\<exists>c. process_constraints P ''host.process.signal'' (D_map m') = Inr c"
proof -
  obtain xs where l: "l = object [(''signals'', texts (js_sort compareCodePoints xs))]" "set_ok SIGNALS 0 3 xs"
    using signal_shape [OF assms(1)] unfolding set_ok by blast
  obtain ys where r: "r = object [(''signals'', texts (js_sort compareCodePoints ys))]" "set_ok SIGNALS 0 3 ys"
    using signal_shape [OF assms(2)] unfolding set_ok by blast
  obtain v where m: "m' = [(js ''signals'', v)]"
    and v: "meet_values name (js ''signals'') (texts (js_sort compareCodePoints xs)) (texts (js_sort compareCodePoints ys)) = Some v"
    using assms(3) unfolding l(1) meet_object r(1) by auto
  obtain zs where zs: "v = texts zs" "stringSet (texts zs) SIGNALS 0 3 = Inr (js_sort compareCodePoints zs)"
    using meet_sorted_set [OF v l(2) r(2)] by auto
  have "D_map m' = object [(''signals'', texts zs)]" unfolding m zs(1) by (simp add: object_def)
  then show ?thesis by (simp add: process_constraints_def exact_object zs(2))
qed

lemma process_closed:
  assumes "process_constraints P name lv = Inr l" "process_constraints P name rv = Inr r" "kind_of name = K_process"
    "meet_entries name r (entries l) = Some m'"
  shows "\<exists>c. process_constraints P name (D_map m') = Inr c"
proof -
  note other = process_other [OF assms(3)]
  obtain xs n ss where l: "l = object [(''executableIds'', sorted_ids xs), (''maxProcesses'', num n), (''signals'', texts (js_sort compareCodePoints ss))]"
    "ids_ok 256 xs" "set_ok SIGNALS 0 3 ss" "0 \<le> n" "n \<le> 100000"
    using process_shape [OF assms(1) other] unfolding ids_ok set_ok by blast
  obtain ys k ts where r: "r = object [(''executableIds'', sorted_ids ys), (''maxProcesses'', num k), (''signals'', texts (js_sort compareCodePoints ts))]"
    "set_ok SIGNALS 0 3 ts" "0 \<le> k"
    using process_shape [OF assms(2) other] unfolding set_ok by blast
  obtain v w where m: "m' = [(js ''executableIds'', v), (js ''maxProcesses'', num (min n k)), (js ''signals'', w)]"
    and v: "meet_values name (js ''executableIds'') (sorted_ids xs) (sorted_ids ys) = Some v"
    and w: "meet_values name (js ''signals'') (texts (js_sort compareCodePoints ss)) (texts (js_sort compareCodePoints ts)) = Some w"
    using assms(4) unfolding l(1) meet_object r(1) by (auto simp: meet_values_num)
  obtain us where us: "v = texts us" "identifiers (texts us) 256 = Inr (sorted_ids us)" using meet_sorted_ids [OF v l(2)] by blast
  obtain zs where zs: "w = texts zs" "stringSet (texts zs) SIGNALS 0 3 = Inr (js_sort compareCodePoints zs)"
    using meet_sorted_set [OF w l(3) r(2)] by auto
  have "D_map m' = object [(''executableIds'', texts us), (''maxProcesses'', num (min n k)), (''signals'', texts zs)]"
    unfolding m us(1) zs(1) by (simp add: object_def)
  then show ?thesis using other l(4,5) r(3) by (simp add: process_constraints_def exact_object us(2) zs(2) integer_again)
qed

lemma credential_closed:
  assumes "normalizeCapabilityConstraints P ''host.storage.credential'' lv = Inr l" "normalizeCapabilityConstraints P ''host.storage.credential'' rv = Inr r"
    "meet_entries name r (entries l) = Some m'"
  shows "\<exists>c. normalizeCapabilityConstraints P ''host.storage.credential'' (D_map m') = Inr c"
proof -
  obtain xs ss where l: "l = object [(''stores'', sorted_ids xs), (''usages'', texts (js_sort compareCodePoints ss))]"
    "ids_ok 64 xs" "set_ok [''gitHttp'', ''httpAuthorization''] 1 2 ss"
    using credential_shape [OF assms(1)] unfolding ids_ok set_ok by blast
  obtain ys ts where r: "r = object [(''stores'', sorted_ids ys), (''usages'', texts (js_sort compareCodePoints ts))]"
    "set_ok [''gitHttp'', ''httpAuthorization''] 1 2 ts"
    using credential_shape [OF assms(2)] unfolding set_ok by blast
  obtain v w where m: "m' = [(js ''stores'', v), (js ''usages'', w)]"
    and v: "meet_values name (js ''stores'') (sorted_ids xs) (sorted_ids ys) = Some v"
    and w: "meet_values name (js ''usages'') (texts (js_sort compareCodePoints ss)) (texts (js_sort compareCodePoints ts)) = Some w"
    using assms(3) unfolding l(1) meet_object r(1) by auto
  obtain us where us: "v = texts us" "identifiers (texts us) 64 = Inr (sorted_ids us)" using meet_sorted_ids [OF v l(2)] by blast
  obtain zs where zs: "w = texts zs" "stringSet (texts zs) [''gitHttp'', ''httpAuthorization''] 1 2 = Inr (js_sort compareCodePoints zs)"
    using meet_sorted_set [OF w l(3) r(2)] by auto
  have "D_map m' = object [(''stores'', texts us), (''usages'', texts zs)]" unfolding m us(1) zs(1) by (simp add: object_def)
  then show ?thesis by (simp add: normalizeCapabilityConstraints_def exact_object us(2) zs(2) [simplified])
qed

lemma reader_closed:
  assumes "reader_constraints lv = Inr l" "reader_constraints rv = Inr r" "meet_entries name r (entries l) = Some m'"
  shows "\<exists>c. reader_constraints (D_map m') = Inr c"
proof -
  obtain a b where l: "l = object [(''maxReadBytes'', num a), (''maxReads'', num b)]" "0 \<le> a" "a \<le> 1024 * 1024" "0 \<le> b" "b \<le> 1024"
    using reader_shape [OF assms(1)] by blast
  obtain a' b' where r: "r = object [(''maxReadBytes'', num a'), (''maxReads'', num b')]" "0 \<le> a'" "0 \<le> b'"
    using reader_shape [OF assms(2)] by blast
  have "m' = [(js ''maxReadBytes'', num (min a a')), (js ''maxReads'', num (min b b'))]"
    using assms(3) unfolding l(1) meet_object r(1) by (auto simp: meet_values_num)
  then have "D_map m' = object [(''maxReadBytes'', num (min a a')), (''maxReads'', num (min b b'))]" by (simp add: object_def)
  then show ?thesis using l r by (simp add: reader_constraints_def exact_object integer_again)
qed

section \<open>Network and execution\<close>

lemma meetNumbers_limit_map: "meetNumbers (limit_map ks f) (limit_map ks g) = limit_map ks (\<lambda>k. min (f k) (g k))"
proof -
  have "lookup_key (entries (limit_map ks g)) (js k) = num (g k)" if "k \<in> set ks" for k
    using limit_map_reads [of ks g] that by (simp add: reads_limits_def)
  moreover have "meetNumbers (limit_map ks f) (limit_map ks g) =
      D_map (map (\<lambda>k. (js k, min_of (num (f k)) (lookup_key (entries (limit_map ks g)) (js k)))) ks)"
    by (simp add: meetNumbers_def limit_map_def [of ks f] comp_def)
  ultimately show ?thesis by (simp add: limit_map_def object_def comp_def cong: map_cong)
qed

lemma limits_met:
  assumes "limits_ok (bounded_by ks) 0 f" "limits_ok (bounded_by ks) 0 g" "length ks \<le> 1024"
  shows "limits_of (meetNumbers (limit_map ks f) (limit_map ks g)) ks = Inr (limit_map ks (\<lambda>k. min (f k) (g k)))"
  unfolding meetNumbers_limit_map
  by (rule limits_again [OF _ assms(3)]) (use assms(1,2) in \<open>auto simp: limits_ok_def list_all_iff\<close>)

lemma origins_ok_meet:
  assumes "origins_ok P os ss" "origins_ok P os' ss'"
  shows "origins_ok P (filter (\<lambda>x. x \<in> set os') os) (filter (\<lambda>x. x \<in> set ss') ss)"
  using assms by (fastforce simp: origins_ok_def list_all_iff length_filter_below)

lemma network_closed:
  assumes "network_constraints P lv e = Inr l" "network_constraints P rv e = Inr r" "meetNetwork l r = Some m"
  shows "\<exists>c. network_constraints P m e = Inr c"
proof -
  obtain b n f os ss where l: "l = object [(''allowPrivateNetwork'', D_bool b), (''inspectRequestBodyBytes'', num n),
      (''limits'', limit_map NETWORK_LIMITS f), (''mode'', text_v e), (''origins'', texts (js_sort compare_units os)),
      (''schemes'', texts (js_sort compareCodePoints ss))]"
    and lo: "\<not> (e = ''mockOnly'' \<and> b)" "0 \<le> n" "n \<le> 1024 * 1024" "limits_ok (bounded_by NETWORK_LIMITS) 0 f" "origins_ok P os ss"
      "set_ok [''http'', ''https''] 0 2 ss"
    using network_shape [OF assms(1)] unfolding set_ok by blast
  obtain b' n' f' os' ss' where r: "r = object [(''allowPrivateNetwork'', D_bool b'), (''inspectRequestBodyBytes'', num n'),
      (''limits'', limit_map NETWORK_LIMITS f'), (''mode'', text_v e), (''origins'', texts (js_sort compare_units os')),
      (''schemes'', texts (js_sort compareCodePoints ss'))]"
    and ro: "0 \<le> n'" "limits_ok (bounded_by NETWORK_LIMITS) 0 f'" "origins_ok P os' ss'"
    using network_shape [OF assms(2)] by blast
  define us where "us = filter (\<lambda>x. x \<in> set os') (js_sort compare_units os)"
  define vs where "vs = filter (\<lambda>x. x \<in> set ss') (js_sort compareCodePoints ss)"
  have m: "m = object [(''allowPrivateNetwork'', D_bool (b \<and> b')), (''inspectRequestBodyBytes'', num (min n n')),
      (''limits'', meetNumbers (limit_map NETWORK_LIMITS f) (limit_map NETWORK_LIMITS f')), (''mode'', text_v e),
      (''origins'', texts (js_sort compare_units us)), (''schemes'', texts (js_sort compare_units vs))]"
    using assms(3) by (simp add: l r meetNetwork_def Let_def truth_def intersect_texts us_def vs_def split: if_splits)
  have "origins_ok P (js_sort compare_units os) (js_sort compareCodePoints ss)" using lo(5) by (simp add: origins_ok_def list_all_iff)
  from origins_ok_meet [OF this ro(3)] have o: "origins_ok P us vs" by (simp add: us_def vs_def)
  then have d: "distinct us" "length us \<le> 64" by (simp_all add: origins_ok_def)
  have s: "stringSet (texts (js_sort compare_units vs)) [''http'', ''https''] 0 2 = Inr (js_sort compareCodePoints (js_sort compare_units vs))"
    unfolding set_ok using lo(6) by (simp add: vs_def set_ok_filter)
  obtain ws where ws: "mapE (scheme_of P) (js_sort compare_units us) = Inr ws"
      "\<not> list_ex (\<lambda>s. s \<notin> set (js_sort compareCodePoints (js_sort compare_units vs))) ws"
    using schemes_again [OF o, of "js_sort compareCodePoints (js_sort compare_units vs)"] by auto
  have lim: "limits_of (meetNumbers (limit_map NETWORK_LIMITS f) (limit_map NETWORK_LIMITS f')) NETWORK_LIMITS =
      Inr (limit_map NETWORK_LIMITS (\<lambda>k. min (f k) (f' k)))"
    using lo(4) ro(2) by (rule limits_met) (simp add: NETWORK_LIMITS_def)
  have a: "array (texts (js_sort compare_units us)) 0 64 = Inr (map D_str (js_sort compare_units us))"
    using d(2) by (simp add: array_Inr texts_def)
  have "\<not> (e = ''mockOnly'' \<and> b \<and> b')" using lo(1) by blast
  then show ?thesis
    unfolding network_constraints_def m Let_def using lo(2,3) ro(1) ws d
    by (auto simp: exact_object boolean_Inr integer_again s lim a origins_again [OF o] check_def boolean_def)
qed

lemma execute_closed:
  assumes "process_constraints P ''host.process.execute'' lv = Inr l" "process_constraints P ''host.process.execute'' rv = Inr r"
    "meetExecute l r = Some m"
  shows "\<exists>c. process_constraints P ''host.process.execute'' m = Inr c"
proof -
  obtain xs rs f where l: "l = object [(''executableIds'', sorted_ids xs), (''limits'', limit_map PROCESS_LIMITS f), (''rootIds'', sorted_ids rs)]"
    and lo: "ids_ok 256 xs" "ids_ok 64 rs" "limits_ok (bounded_by PROCESS_LIMITS) 0 f"
    using execute_shape [OF assms(1)] unfolding ids_ok by blast
  obtain ys ts g where r: "r = object [(''executableIds'', sorted_ids ys), (''limits'', limit_map PROCESS_LIMITS g), (''rootIds'', sorted_ids ts)]"
    and ro: "limits_ok (bounded_by PROCESS_LIMITS) 0 g"
    using execute_shape [OF assms(2)] by blast
  have lim: "limits_of (meetNumbers (limit_map PROCESS_LIMITS f) (limit_map PROCESS_LIMITS g)) PROCESS_LIMITS =
      Inr (limit_map PROCESS_LIMITS (\<lambda>k. min (f k) (g k)))"
    using lo(3) ro by (rule limits_met) (simp add: PROCESS_LIMITS_def)
  have m: "m = object [(''executableIds'', sorted_ids (filter (\<lambda>x. x \<in> set ys) (js_sort compare_units xs))),
      (''limits'', meetNumbers (limit_map PROCESS_LIMITS f) (limit_map PROCESS_LIMITS g)),
      (''rootIds'', sorted_ids (filter (\<lambda>x. x \<in> set ts) (js_sort compare_units rs)))]"
    unfolding meetExecute_Some [OF assms(3)] by (simp add: l r intersect_texts)
  have "identifiers (sorted_ids (filter p (js_sort compare_units zs))) n = Inr (sorted_ids (js_sort compare_units (filter p (js_sort compare_units zs))))"
    if "ids_ok n zs" for n zs p
    using that unfolding ids_ok by (simp add: ids_ok_filter)
  then show ?thesis using lo(1,2) by (simp add: process_constraints_def m exact_object lim)
qed

text \<open>An endpoint of a meet keeps its name and some of its ports.\<close>

lemma endpoint_part:
  assumes "platform_ok P" "endpoint_constraints P x = Inr e" "meet_endpoint es e = Some y"
  shows "\<exists>z. endpoint_constraints P y = Inr z \<and> endpoint_identity z = endpoint_identity y"
proof -
  obtain h ps t where e: "e = endpoint_of (lower_case P h) (sorted_ports ps) t" and ok: "endpoint_ok P h ps t"
    using endpoint_shape [OF assms(2)] by blast
  obtain q where y: "y = endpoint_of (lower_case P h) (filter q (sorted_ports ps)) t" and n: "filter q (sorted_ports ps) \<noteq> []"
  proof -
    obtain e' where "endpoint_for es (endpoint_identity e) = Some e'" "filter (\<lambda>p. p \<in> set (items (field e' ''ports''))) (map num (sorted_ports ps)) \<noteq> []"
      "y = object [(''hostname'', D_str (lower_case P h)),
        (''ports'', D_list (filter (\<lambda>p. p \<in> set (items (field e' ''ports''))) (map num (sorted_ports ps)))), (''transport'', text_v t)]"
      using assms(3) unfolding meet_endpoint_def e Let_def by (auto split: option.splits if_splits)
    then show thesis using that [of "\<lambda>p. num p \<in> set (items (field e' ''ports''))"]
      by (simp add: endpoint_of_def filter_map comp_def)
  qed
  have "hostname_of P (D_str h) = Inr (lower_case P h)" using ok by (simp add: endpoint_ok_def)
  from hostname_again [OF assms(1) this] have host: "hostname_of P (D_str (lower_case P h)) = Inr (lower_case P h)" .
  have t: "t \<in> set [''tcp'', ''tls'', ''udp'']" using ok by (simp add: endpoint_ok_def)
  have all: "list_all (\<lambda>y. 1 \<le> y \<and> y \<le> 65535 \<and> \<bar>y\<bar> \<le> MAX_SAFE_INTEGER) ps" "distinct ps" "length ps \<le> 64"
    using ok by (auto simp: endpoint_ok_def port_list_Inr inj_map_eq_map inj_def)
  have len: "length (filter q (sorted_ports ps)) \<le> 64" using all(3) by (simp add: length_filter_below)
  have one: "1 \<le> length (filter q (sorted_ports ps))" using n by (cases "filter q (sorted_ports ps)") simp_all
  have "port_list (D_list (map num (filter q (sorted_ports ps)))) = Inr (sorted_ports (filter q (sorted_ports ps)))"
    unfolding port_list_Inr
    by (rule exI [of _ "filter q (sorted_ports ps)"]) (use all one len in \<open>auto simp: list_all_iff\<close>)
  then have "endpoint_constraints P y = Inr (endpoint_of (lower_case P h) (sorted_ports (filter q (sorted_ports ps))) t)"
    unfolding endpoint_constraints_def y endpoint_of_def text_v_def by (simp add: exact_object host literal_again [OF t])
  then show ?thesis by (simp add: y endpoint_identity_of)
qed

lemma process_network_closed:
  assumes "platform_ok P" "process_network P lv = Inr l" "process_network P rv = Inr r" "meetProcessNetwork l r = Some m"
  shows "\<exists>c. process_network P m = Inr c"
proof -
  obtain xs es n a where l: "l = object [(''endpoints'', D_list (js_sort (endpoint_order P) es)), (''maxSockets'', num n), (''privateNetwork'', text_v a)]"
    and lo: "length xs \<le> 256" "mapE (endpoint_constraints P) xs = Inr es" "distinct (map endpoint_identity (js_sort (endpoint_order P) es))"
      "1 \<le> n" "n \<le> 256" using process_network_shape [OF assms(2)] by blast
  obtain fs k b where r: "r = object [(''endpoints'', D_list fs), (''maxSockets'', num k), (''privateNetwork'', text_v b)]"
    and ro: "1 \<le> k" using process_network_shape [OF assms(3)] by blast
  define ys where "ys = List.map_filter (meet_endpoint (D_list fs)) (js_sort (endpoint_order P) es)"
  define p where "p = (if a = ''allow'' \<and> b = ''allow'' then ''allow'' else ''deny'')"
  have m: "m = object [(''endpoints'', D_list ys), (''maxSockets'', num (min n k)), (''privateNetwork'', text_v p)]"
    unfolding meetProcessNetwork_Some [OF assms(4)] l r ys_def p_def by (simp add: text_v_def)
  have "\<exists>z. endpoint_constraints P y = Inr z \<and> endpoint_identity z = endpoint_identity y" if member: "y \<in> set ys" for y
  proof -
    obtain e where e: "e \<in> set es" "meet_endpoint (D_list fs) e = Some y" using member by (auto simp: ys_def in_map_filter)
    have "endpoint_constraints P e = Inr e"
      by (rule mapE_fixed [OF lo(2) _ e(1)]) (rule endpoint_again [OF assms(1)])
    then show ?thesis using endpoint_part [OF assms(1) _ e(2)] by blast
  qed
  then obtain zs where zs: "mapE (endpoint_constraints P) ys = Inr zs" "map endpoint_identity zs = map endpoint_identity ys"
    using mapE_preserving [of ys "endpoint_constraints P" endpoint_identity] by blast
  have "distinct (map endpoint_identity ys)"
    using distinct_map_filter [OF lo(3), of "meet_endpoint (D_list fs)"] meet_endpoint_Some unfolding ys_def by blast
  then have d: "distinct (map endpoint_identity (js_sort (endpoint_order P) zs))"
    unfolding distinct_map_js_sort zs(2) .
  have "length ys \<le> length (js_sort (endpoint_order P) es)" unfolding ys_def List.map_filter_def by (simp add: length_filter_below)
  then have arr: "array (D_list ys) 0 256 = Inr ys" using lo(1) mapE_length [OF lo(2)] by (simp add: array_Inr)
  have i: "integer (num (min n k)) 1 256 = Inr (min n k)" using lo(4,5) ro by (auto simp: integer_Inr MAX_SAFE_INTEGER_def min_def)
  have q: "or_else (D_str (js p)) w = D_str (js p)" for w by (simp add: or_else_def)
  have t: "p \<in> set [''allow'', ''deny'']" by (simp add: p_def)
  show ?thesis unfolding process_network_def m Let_def text_v_def
    by (simp add: exact_object arr zs(1) d i check_def key_def lookup_key_def q [simplified] literal_again [OF t] del: distinct_js_sort)
qed

section \<open>Every capability\<close>

lemma norm_closed:
  assumes "platform_ok P" "k = kind_of name" "norm_kind P name k lv = Inr l" "norm_kind P name k rv = Inr r" "k \<noteq> K_fs" "k \<noteq> K_storage"
    "meet_kind name k l r = Some m"
  shows "\<exists>c. norm_kind P name k m = Inr c"
proof (cases "generic k")
  case True
  then obtain m' where m: "m = D_map m'" "meet_entries name r (entries l) = Some m'" using assms(7) by (auto simp: meet_generic)
  have b: "k = K_device \<Longrightarrow> begins name ''host.device.''" "k = K_system \<Longrightarrow> begins name ''host.system.'' \<and> \<not> begins name ''host.device.''"
    using assms(2) by (auto simp: kind_of_def split: if_splits)
  show ?thesis
  proof (cases k)
    case K_device
    then show ?thesis using device_closed [of lv l rv r name m'] assms(3,4) m b by simp
  next
    case K_system
    then show ?thesis using system_closed [of lv l rv r name m'] assms(3,4) m b by simp
  next
    case K_shell
    then show ?thesis using shell_closed [of P lv l rv r name m'] assms(3,4) m by simp
  next
    case K_signal
    then show ?thesis using signal_closed [of P lv l rv r name m'] assms(3,4) m by simp
  next
    case K_process
    then show ?thesis using process_closed [of P name lv l rv r m'] assms(2-4) m by simp
  next
    case K_credential
    then show ?thesis using credential_closed [of P lv l rv r name m'] assms(3,4) m by simp
  next
    case K_reader
    then show ?thesis using reader_closed [of lv l rv r name m'] assms(3,4) m by simp
  qed (use True in \<open>simp_all add: generic_def\<close>)
next
  case False
  then consider (net) "k = K_http \<or> k = K_mock" | (pn) "k = K_process_network" | (exe) "k = K_execute"
    using assms(5,6) by (cases k) (simp_all add: generic_def)
  then show ?thesis
  proof cases
    case net
    then show ?thesis using network_closed [of P lv _ l rv r m] assms(3,4,7) by (auto simp: meet_kind_def)
  next
    case pn
    then show ?thesis using process_network_closed [of P lv l rv r m] assms(1,3,4,7) by (simp add: meet_kind_def)
  next
    case exe
    then show ?thesis using execute_closed [of P lv l rv r m] assms(3,4,7) by (simp add: meet_kind_def)
  qed
qed

text \<open>
  C12: The meet of two accepted values of a capability other than \<open>host.fs\<close> is accepted again: what
  \<open>meetCapabilityConstraints\<close> returns passes \<open>normalizeCapabilityConstraints\<close> for the same capability.
\<close>

theorem meet_of_constraints_is_constraints:
  assumes "platform_ok P" "name \<noteq> ''host.fs''" "meetCapabilityConstraints P name l r = Inr (Some m)"
  shows "\<exists>c. normalizeCapabilityConstraints P name m = Inr c"
proof -
  obtain l' r' where n: "norm_kind P name (kind_of name) l = Inr l'" "norm_kind P name (kind_of name) r = Inr r'"
    and m: "(if name = ''host.storage'' then meetStorage P l' r' else Inr (meet_normal name l' r')) = Inr (Some m)"
    using assms(3) unfolding meetCapabilityConstraints_def bindR_Inr normalize_of_kind by blast
  show ?thesis
  proof (cases "name = ''host.storage''")
    case True
    then have k: "kind_of name = K_storage" by (simp add: kind_storage)
    note n = n [unfolded k norm_kind.simps]
    have "meetStorage P l' r' = Inr (Some m)" using m True by simp
    then have "storage_constraints P (storage_common l' r') = Inr m" using meetStorage_Some [OF n] by blast
    then show ?thesis unfolding normalize_of_kind k norm_kind.simps using storage_again by blast
  next
    case False
    have "kind_of name \<noteq> K_fs" using assms(2) by (auto simp: kind_of_def)
    moreover have "meet_kind name (kind_of name) l' r' = Some m" using m False by (simp add: meet_of_kind)
    ultimately show ?thesis unfolding normalize_of_kind using norm_closed [OF assms(1) refl n] False kind_storage by blast
  qed
qed

end
