(* ===== verification/Kernel_Json.thy ===== *)
theory Kernel_Json
  imports Kernel_Validation Sha
begin

text \<open>
  Canonical JSON and its digest (\<open>runtime/src/kernel/canonical-json.ts\<close>): objects are written with sorted keys,
  so two values have the same text exactly when they differ in the order of keys only.  The number format
  (\<open>Number::toString\<close>) is a parameter.
\<close>

section \<open>The serialization\<close>

abbreviation sorted_entries :: "(jstring \<times> 'a) list \<Rightarrow> (jstring \<times> 'a) list" where
  "sorted_entries m \<equiv> js_sort (\<lambda>a b. compare_units (fst a) (fst b)) m"

text \<open>Values outside the type of canonical values have no text.\<close>

fun canonicalJson :: "(rat \<Rightarrow> jstring) \<Rightarrow> data \<Rightarrow> kernel_error + jstring" where
  "canonicalJson nt D_null = Inr (js ''null'')"
| "canonicalJson nt (D_bool b) = Inr (if b then js ''true'' else js ''false'')"
| "canonicalJson nt (D_str s) = Inr (quote s)"
| "canonicalJson nt (D_num x) = (case x of Fin q \<Rightarrow> Inr (nt q) | _ \<Rightarrow> invalidPolicy)"
| "canonicalJson nt (D_list xs) = mapR (\<lambda>ts. 0x5B # commas ts @ [0x5D]) (mapE (canonicalJson nt) xs)"
| "canonicalJson nt (D_map m) =
     mapR (\<lambda>ts. 0x7B # commas ts @ [0x7D])
       (mapE (\<lambda>p. mapR (\<lambda>t. quote (fst p) @ 0x3A # t) (canonicalJson nt (snd p))) (sorted_entries m))"
| "canonicalJson nt D_undefined = Inl Type_error"
| "canonicalJson nt D_other = Inl Type_error"

definition canonicalDigest :: "(rat \<Rightarrow> jstring) \<Rightarrow> data \<Rightarrow> kernel_error + jstring" where
  "canonicalDigest nt v = mapR (\<lambda>s. js (hashOwnedBytes (encodeUtf8 s))) (canonicalJson nt v)"

text \<open>What the text stands for: the value with the keys of every object in order.\<close>

fun canonical :: "data \<Rightarrow> native_value option" where
  "canonical D_null = Some J_null"
| "canonical (D_bool b) = Some (J_bool b)"
| "canonical (D_str s) = Some (J_str s)"
| "canonical (D_num x) = (case x of Fin q \<Rightarrow> Some (J_num q) | _ \<Rightarrow> None)"
| "canonical (D_list xs) = map_option J_list (all_some (map canonical xs))"
| "canonical (D_map m) =
     map_option (\<lambda>vs. J_map (zip (map fst (sorted_entries m)) vs))
       (all_some (map (\<lambda>p. canonical (snd p)) (sorted_entries m)))"
| "canonical _ = None"

section \<open>Quoted strings can be read back\<close>

definition hex_number :: "u16 \<Rightarrow> nat" where
  "hex_number u = (if unat u < 0x40 then unat u - 0x30 else unat u - 0x57)"

definition short_unescape :: "u16 \<Rightarrow> u16" where
  "short_unescape u = the (map_of [(0x22, 0x22), (0x5C, 0x5C), (0x62, 8), (0x74, 9), (0x6E, 0xA), (0x66, 0xC), (0x72, 0xD)] u)"

fun unquote :: "jstring \<Rightarrow> jstring \<times> jstring" where
  "unquote [] = ([], [])"
| "unquote (u # r) =
     (if u = 0x22 then ([], r)
      else if u = 0x5C then
        (case r of
           [] \<Rightarrow> ([], [])
         | c # r' \<Rightarrow>
             if c = 0x75 then
               (case r' of
                  a # b # c # d # r'' \<Rightarrow>
                    apfst ((#) (word_of_nat (((hex_number a * 16 + hex_number b) * 16 + hex_number c) * 16 + hex_number d)))
                      (unquote r'')
                | _ \<Rightarrow> ([], []))
             else apfst ((#) (short_unescape c)) (unquote r'))
      else apfst ((#) u) (unquote r))"

lemma hex_number_lower: "d < 16 \<Longrightarrow> hex_number (hex_lower d) = d"
proof -
  have "list_all (\<lambda>d. hex_number (hex_lower d) = d) [0..<16]" by code_simp
  then show "d < 16 \<Longrightarrow> hex_number (hex_lower d) = d" by (simp add: list_all_iff)
qed

lemma hex_digits_number:
  assumes "n < 65536"
  shows "((n div 4096 * 16 + n div 256 mod 16) * 16 + n div 16 mod 16) * 16 + n mod 16 = (n :: nat)"
proof -
  have "n div 256 = n div 4096 * 16 + n div 256 mod 16"
    using div_mult_mod_eq [of "n div 256" 16] by (simp add: div_mult2_eq [symmetric])
  moreover have "n div 16 = n div 256 * 16 + n div 16 mod 16"
    using div_mult_mod_eq [of "n div 16" 16] by (simp add: div_mult2_eq [symmetric])
  moreover have "n = n div 16 * 16 + n mod 16" by simp
  ultimately show ?thesis by presburger
qed

declare unquote.simps [simp del]

lemma unquote_step:
  "unquote (0x22 # r) = ([], r)"
  "c \<noteq> 0x75 \<Longrightarrow> unquote (0x5C # c # r) = apfst ((#) (short_unescape c)) (unquote r)"
  "unquote (0x5C # 0x75 # a # b # c # d # r) =
     apfst ((#) (word_of_nat (((hex_number a * 16 + hex_number b) * 16 + hex_number c) * 16 + hex_number d))) (unquote r)"
  "u \<noteq> 0x22 \<Longrightarrow> u \<noteq> 0x5C \<Longrightarrow> unquote (u # r) = apfst ((#) u) (unquote r)"
  by (simp_all add: unquote.simps)

lemma unquote_escape: "unquote (unicode_escape u @ x) = apfst ((#) u) (unquote x)"
proof -
  have u: "unat u < 65536" using unsigned_less [of u] by simp
  then have d: "unat u div 4096 < 16" by simp
  have "unicode_escape u = [0x5C, 0x75, hex_lower (unat u div 4096), hex_lower (unat u div 256 mod 16),
      hex_lower (unat u div 16 mod 16), hex_lower (unat u mod 16)]"
    using d by (simp add: unicode_escape_def js_def)
  then show ?thesis
    using hex_digits_number [OF u] d
    by (simp add: unquote_step hex_number_lower del: of_nat_add of_nat_mult)
qed

lemma short_escapes:
  "list_all (\<lambda>(u, c). c \<noteq> 0x75 \<and> short_unescape c = u)
     [(0x22, 0x22), (0x5C, 0x5C), (8, 0x62), (9, 0x74), (0xA, 0x6E), (0xC, 0x66), (0xD, 0x72)]"
  by (simp add: short_unescape_def)

lemma short_escape_inverse: "short_escape u = Some c \<Longrightarrow> c \<noteq> 0x75 \<and> short_unescape c = u"
  using short_escapes map_of_SomeD unfolding short_escape_def list_all_iff by fastforce

lemma unquote_unit: "unquote (quote_unit u @ x) = apfst ((#) u) (unquote x)"
proof (cases "short_escape u")
  case None
  then have "u \<noteq> 0x22 \<and> u \<noteq> 0x5C" by (auto simp: short_escape_def)
  then show ?thesis using None by (simp add: quote_unit_def unquote_escape unquote_step)
next
  case (Some c)
  then show ?thesis using short_escape_inverse [OF Some] by (simp add: quote_unit_def unquote_step)
qed

lemma unquote_units: "unquote (quote_units s @ 0x22 # x) = (s, x)"
proof (induction s rule: quote_units.induct)
  case (2 u r)
  have plain: "is_high (unat v) \<or> is_low (unat v) \<Longrightarrow> v \<noteq> 0x22 \<and> v \<noteq> 0x5C" for v :: u16
    by (auto simp: is_high_def is_low_def)
  show ?case
  proof (cases r)
    case Nil
    then show ?thesis by (simp add: unquote_unit unquote_step)
  next
    case (Cons v r')
    show ?thesis
    proof (cases "is_high (unat u) \<and> is_low (unat v)")
      case True
      then have "u \<noteq> 0x22" "u \<noteq> 0x5C" "v \<noteq> 0x22" "v \<noteq> 0x5C" using plain by blast+
      then show ?thesis using Cons 2(1) True by (simp add: unquote_step)
    next
      case False
      have eq: "quote_units (u # r) = quote_unit u @ quote_units r" using Cons False by auto
      have "unquote (quote_units r @ 0x22 # x) = (r, x)" using Cons False 2(2) by simp
      then show ?thesis unfolding eq by (simp add: unquote_unit)
    qed
  qed
qed (simp add: unquote_step)

lemma quote_unambiguous:
  assumes "quote s @ x = quote t @ y"
  shows "s = t \<and> x = y"
proof -
  have "quote_units s @ 0x22 # x = quote_units t @ 0x22 # y" using assms by (simp add: quote_def)
  then have "(s, x) = (t, y)" by (metis unquote_units)
  then show ?thesis by simp
qed

section \<open>The text determines the value\<close>

text \<open>What is known of the number format: its texts differ and consist of the characters of numbers.\<close>

definition number_chars :: "u16 set" where
  "number_chars = set (js ''0123456789+-.e'')"

definition number_format :: "(rat \<Rightarrow> jstring) \<Rightarrow> bool" where
  "number_format nt \<longleftrightarrow> inj nt \<and> (\<forall>q. nt q \<noteq> [] \<and> set (nt q) \<subseteq> number_chars)"

fun plain_json :: "native_value \<Rightarrow> bool" where
  "plain_json (J_list vs) = list_all plain_json vs"
| "plain_json (J_map m) = list_all plain_json (map snd m)"
| "plain_json (J_resource n) = False"
| "plain_json _ = True"

text \<open>What may follow a value.\<close>

definition closes :: "jstring \<Rightarrow> bool" where
  "closes r \<longleftrightarrow> (case r of [] \<Rightarrow> True | u # _ \<Rightarrow> u \<in> {0x2C, 0x5D, 0x7D})"

definition readable :: "('a \<Rightarrow> jstring) \<Rightarrow> 'a \<Rightarrow> 'a \<Rightarrow> bool" where
  "readable f v w \<longleftrightarrow> (\<forall>x y. f v @ x = f w @ y \<longrightarrow> closes x \<longrightarrow> closes y \<longrightarrow> v = w \<and> x = y)"

lemma readableD: "readable f v w \<Longrightarrow> f v @ x = f w @ y \<Longrightarrow> closes x \<Longrightarrow> closes y \<Longrightarrow> v = w \<and> x = y"
  by (simp add: readable_def)

lemma closes_simps [simp]:
  "closes (0x2C # r)" "closes (0x5D # r)" "closes (0x7D # r)" "closes []"
  by (simp_all add: closes_def)

abbreviation rest :: "('a \<Rightarrow> jstring) \<Rightarrow> 'a list \<Rightarrow> jstring" where
  "rest f xs \<equiv> concat (map (\<lambda>y. 0x2C # f y) xs)"

lemma closes_rest: "c \<in> {0x5D, 0x7D} \<Longrightarrow> closes (rest f xs @ c # x)"
  by (cases xs) auto

lemma rest_readable:
  assumes "rest f xs @ c # x = rest f ys @ c # y" "c \<in> {0x5D, 0x7D}" "\<forall>v \<in> set xs. \<forall>w \<in> set ys. readable f v w"
  shows "xs = ys \<and> x = y"
  using assms
proof (induction xs arbitrary: ys)
  case Nil
  then show ?case by (cases ys) auto
next
  case (Cons v xs)
  from Cons.prems obtain w ws where ys: "ys = w # ws" by (cases ys) auto
  have "v = w \<and> rest f xs @ c # x = rest f ws @ c # y"
    using Cons.prems ys by (intro readableD [of f]) (auto intro: closes_rest)
  then show ?case using Cons ys by simp
qed

lemma commas_readable:
  assumes "commas (map f xs) @ c # x = commas (map f ys) @ c # y" "c \<in> {0x5D, 0x7D}"
    "\<forall>v \<in> set xs. \<forall>w \<in> set ys. readable f v w" "\<forall>v \<in> set xs \<union> set ys. f v \<noteq> [] \<and> hd (f v) \<notin> {0x5D, 0x7D}"
  shows "xs = ys \<and> x = y"
proof (cases "xs = [] \<or> ys = []")
  case True
  have no: "f v @ z \<noteq> c # x'" "c # x' \<noteq> f v @ z" if "v \<in> set xs \<union> set ys" for v z x'
  proof -
    have "f v \<noteq> [] \<and> hd (f v) \<noteq> c" using that assms(2, 4) by blast
    then show "f v @ z \<noteq> c # x'" by (cases "f v") auto
    then show "c # x' \<noteq> f v @ z" by metis
  qed
  show ?thesis
  proof (cases xs)
    case Nil
    then show ?thesis using assms(1) no by (cases ys) (auto simp: commas_def)
  next
    case (Cons v vs)
    then have "ys = []" using True by simp
    then show ?thesis using assms(1) no [of v] Cons by (simp add: commas_def)
  qed
next
  case False
  then obtain v vs w ws where eq: "xs = v # vs" "ys = w # ws" by (auto simp: neq_Nil_conv)
  have "v = w \<and> rest f vs @ c # x = rest f ws @ c # y"
    using assms eq by (intro readableD [of f]) (auto simp: commas_def comp_def intro: closes_rest)
  then show ?thesis using rest_readable [of f vs c x ws y] assms(2, 3) eq by auto
qed

lemma number_token:
  assumes "set s \<subseteq> number_chars" "set t \<subseteq> number_chars" "s @ x = t @ y" "closes x" "closes y"
  shows "s = t \<and> x = y"
proof -
  have "takeWhile (\<lambda>u. u \<in> number_chars) (s @ x) = s" if "set s \<subseteq> number_chars" "closes x" for s x
    using that by (cases x) (auto simp: closes_def takeWhile_append number_chars_def js_def subset_eq)
  then show ?thesis using assms by (metis same_append_eq)
qed

lemma stringify_head:
  assumes "number_format nt" "plain_json v"
  shows "stringify nt v \<noteq> [] \<and>
    hd (stringify nt v) \<in>
      (case v of J_null \<Rightarrow> {0x6E} | J_bool b \<Rightarrow> if b then {0x74} else {0x66} | J_num q \<Rightarrow> number_chars | J_str s \<Rightarrow> {0x22}
       | J_list vs \<Rightarrow> {0x5B} | J_map m \<Rightarrow> {0x7B} | J_resource n \<Rightarrow> {})"
  using assms
proof (cases v)
  case (J_num q)
  then have "hd (nt q) \<in> set (nt q)" "set (nt q) \<subseteq> number_chars" "nt q \<noteq> []"
    using assms by (simp_all add: number_format_def)
  then show ?thesis using J_num by auto
qed (use assms in \<open>simp_all add: js_def quote_def\<close>)

lemma head_unique:
  assumes "number_format nt" "plain_json v" "plain_json w" "stringify nt v @ x = stringify nt w @ y"
  shows "hd (stringify nt v) = hd (stringify nt w)"
  using assms stringify_head [OF assms(1, 2)] stringify_head [OF assms(1, 3)] by (metis hd_append2)

lemma not_number_char: "u \<in> {0x6E, 0x74, 0x66, 0x22, 0x5B, 0x7B, 0x5D, 0x7D} \<Longrightarrow> u \<notin> number_chars"
  by (auto simp: number_chars_def js_def)

fun shape :: "native_value \<Rightarrow> nat" where
  "shape J_null = 0"
| "shape (J_bool b) = (if b then 1 else 2)"
| "shape (J_num q) = 3"
| "shape (J_str s) = 4"
| "shape (J_list vs) = 5"
| "shape (J_map m) = 6"
| "shape (J_resource n) = 7"

lemma same_shape:
  assumes "number_format nt" "plain_json v" "plain_json w" "stringify nt v @ x = stringify nt w @ y"
  shows "shape v = shape w"
proof -
  have "hd (stringify nt v) = hd (stringify nt w)" by (rule head_unique [OF assms])
  moreover note stringify_head [OF assms(1, 2)] stringify_head [OF assms(1, 3)] assms(2, 3)
  ultimately show ?thesis by (cases v; cases w) (auto split: if_splits simp: not_number_char)
qed

lemma stringify_opens:
  assumes "number_format nt" "plain_json v"
  shows "stringify nt v \<noteq> [] \<and> hd (stringify nt v) \<notin> {0x5D, 0x7D}"
  using stringify_head [OF assms] assms(2) not_number_char by (cases v) (auto split: if_splits)

lemma stringify_readable:
  assumes nt: "number_format nt"
  shows "plain_json v \<Longrightarrow> plain_json w \<Longrightarrow> readable (stringify nt) v w"
proof (induction v arbitrary: w)
  case J_null
  show ?case unfolding readable_def using same_shape [OF nt J_null] by (cases w) (auto split: if_splits)
next
  case (J_bool b)
  show ?case unfolding readable_def using same_shape [OF nt J_bool] by (cases w) (auto split: if_splits)
next
  case (J_num q)
  show ?case unfolding readable_def
  proof (intro allI impI)
    fix x y assume eq: "stringify nt (J_num q) @ x = stringify nt w @ y" and c: "closes x" "closes y"
    obtain q' where w: "w = J_num q'" using same_shape [OF nt J_num eq] by (cases w) (auto split: if_splits)
    have "nt q = nt q' \<and> x = y"
      using nt eq c w by (intro number_token) (auto simp: number_format_def)
    then show "J_num q = w \<and> x = y" using nt w by (auto simp: number_format_def inj_eq)
  qed
next
  case (J_str s)
  show ?case unfolding readable_def
  proof (intro allI impI)
    fix x y assume eq: "stringify nt (J_str s) @ x = stringify nt w @ y"
    obtain t where w: "w = J_str t" using same_shape [OF nt J_str eq] by (cases w) (auto split: if_splits)
    then show "J_str s = w \<and> x = y" using eq quote_unambiguous [of s x t y] by simp
  qed
next
  case (J_list vs)
  show ?case unfolding readable_def
  proof (intro allI impI)
    fix x y assume eq: "stringify nt (J_list vs) @ x = stringify nt w @ y"
    obtain ws where w: "w = J_list ws" using same_shape [OF nt J_list(2,3) eq] by (cases w) (auto split: if_splits)
    have "vs = ws \<and> x = y"
      using eq w J_list nt
      by (intro commas_readable [of "stringify nt" vs "0x5D"]) (auto simp: list_all_iff dest: stringify_opens)
    then show "J_list vs = w \<and> x = y" using w by simp
  qed
next
  case (J_map m)
  let ?f = "\<lambda>p. quote (fst p) @ 0x3A # stringify nt (snd p)"
  have pair: "readable ?f p p'" if "p \<in> set m" "plain_json (snd p')" for p p'
    unfolding readable_def
  proof (intro allI impI)
    fix x y assume eq: "?f p @ x = ?f p' @ y" and c: "closes x" "closes y"
    have k: "fst p = fst p' \<and> stringify nt (snd p) @ x = stringify nt (snd p') @ y"
      using eq quote_unambiguous [of "fst p" "0x3A # stringify nt (snd p) @ x" "fst p'" "0x3A # stringify nt (snd p') @ y"]
      by simp
    have "plain_json (snd p)" using J_map(2) that(1) by (auto simp: list_all_iff)
    then have "readable (stringify nt) (snd p) (snd p')"
      using J_map(1) [of p "snd p"] that by (cases p) auto
    then show "p = p' \<and> x = y" using k c readableD by (metis prod_eqI)
  qed
  show ?case unfolding readable_def
  proof (intro allI impI)
    fix x y assume eq: "stringify nt (J_map m) @ x = stringify nt w @ y"
    obtain m' where w: "w = J_map m'" using same_shape [OF nt J_map(2,3) eq] by (cases w) (auto split: if_splits)
    have plain': "\<forall>p \<in> set m'. plain_json (snd p)" using J_map(3) w by (simp add: list_all_iff)
    have "commas (map ?f m) @ 0x7D # x = commas (map ?f m') @ 0x7D # y"
      using eq w unfolding stringify.simps by (simp add: split_beta')
    moreover have "\<forall>v \<in> set m. \<forall>w \<in> set m'. readable ?f v w" using pair plain' by blast
    moreover have "\<forall>v \<in> set m \<union> set m'. ?f v \<noteq> [] \<and> hd (?f v) \<notin> {0x5D, 0x7D}" by (simp add: quote_def)
    ultimately have "m = m' \<and> x = y" by (intro commas_readable [of ?f m "0x7D"]) simp_all
    then show "J_map m = w \<and> x = y" using w by simp
  qed
qed simp

section \<open>Canonical text\<close>

lemma all_some_Some: "all_some (map f xs) = Some ys \<longleftrightarrow> list_all2 (\<lambda>x y. f x = Some y) xs ys"
proof (induction xs arbitrary: ys)
  case (Cons x xs)
  show ?case by (cases "f x"; cases "all_some (map f xs)"; cases ys) (auto simp: Cons [symmetric])
qed (auto)

lemma list_all_results:
  "list_all2 (\<lambda>x y. f x = Some y) xs ys \<Longrightarrow> (\<And>x y. x \<in> set xs \<Longrightarrow> f x = Some y \<Longrightarrow> P y) \<Longrightarrow> list_all P ys"
  by (induction rule: list_all2_induct) auto

lemma canonical_plain: "canonical v = Some n \<Longrightarrow> plain_json n"
proof (induction v arbitrary: n rule: canonical.induct)
  case (5 xs)
  then obtain vs where n: "n = J_list vs" and vs: "list_all2 (\<lambda>v n. canonical v = Some n) xs vs"
    by (auto simp: all_some_Some)
  have "list_all plain_json vs" using list_all_results [OF vs] 5(1) by auto
  then show ?case using n by simp
next
  case (6 m)
  then obtain vs where n: "n = J_map (zip (map fst (sorted_entries m)) vs)"
    and vs: "list_all2 (\<lambda>p v. canonical (snd p) = Some v) (sorted_entries m) vs"
    by (auto simp: all_some_Some)
  have "list_all plain_json vs" using list_all_results [OF vs] 6 by auto
  then show ?case using n list_all2_lengthD [OF vs] by simp
qed (auto split: jsnum.splits)

text \<open>The text of a value is the text of its canonical form.\<close>

lemma texts_of_results:
  assumes "list_all2 (\<lambda>x y. f x = Inr y) xs ts"
    "\<And>x t. x \<in> set xs \<Longrightarrow> f x = Inr t \<Longrightarrow> \<exists>n. g x = Some n \<and> t = h n"
  shows "\<exists>ns. list_all2 (\<lambda>x n. g x = Some n) xs ns \<and> ts = map h ns"
  using assms
proof (induction rule: list_all2_induct)
  case (Cons x xs t ts)
  then obtain n ns where "g x = Some n \<and> t = h n" "list_all2 (\<lambda>x n. g x = Some n) xs ns \<and> ts = map h ns" by force
  then show ?case by (intro exI [of _ "n # ns"]) simp
qed simp

lemma canonicalJson_text:
  "canonicalJson nt v = Inr t \<Longrightarrow> \<exists>n. canonical v = Some n \<and> t = stringify nt n"
proof (induction v arbitrary: t rule: canonical.induct)
  case (5 xs)
  then obtain ts where t: "t = 0x5B # commas ts @ [0x5D]" and ts: "list_all2 (\<lambda>x y. canonicalJson nt x = Inr y) xs ts"
    by (auto simp: mapR_def bindR_Inr mapE_Inr)
  obtain ns where "list_all2 (\<lambda>x n. canonical x = Some n) xs ns" "ts = map (stringify nt) ns"
    using texts_of_results [OF ts] 5(1) by metis
  then show ?case using t by (intro exI [of _ "J_list ns"]) (simp add: all_some_Some [symmetric])
next
  case (6 m)
  let ?g = "\<lambda>p. mapR (\<lambda>t. quote (fst p) @ 0x3A # t) (canonicalJson nt (snd p))"
  let ?c = "\<lambda>p. map_option (Pair (fst p)) (canonical (snd p))"
  from 6 obtain ts where t: "t = 0x7B # commas ts @ [0x7D]" and ts: "list_all2 (\<lambda>p y. ?g p = Inr y) (sorted_entries m) ts"
    by (auto simp: mapR_def bindR_Inr mapE_Inr)
  have step: "\<exists>n. ?c p = Some n \<and> t = quote (fst n) @ 0x3A # stringify nt (snd n)" if member: "p \<in> set (sorted_entries m)" and result: "?g p = Inr t" for p t
  proof -
    obtain k v where p: "p = (k, v)" by (cases p)
    obtain t' where "canonicalJson nt v = Inr t'" "t = quote k @ 0x3A # t'"
      using result p by (auto simp: mapR_def bindR_Inr)
    then show ?thesis using 6(1) [of "(k, v)" t'] member p by auto
  qed
  have "\<exists>ns. list_all2 (\<lambda>p n. ?c p = Some n) (sorted_entries m) ns \<and>
      ts = map (\<lambda>n. quote (fst n) @ 0x3A # stringify nt (snd n)) ns"
    by (rule texts_of_results [OF ts step])
  then obtain ns where ns: "list_all2 (\<lambda>p n. ?c p = Some n) (sorted_entries m) ns"
    and tn: "ts = map (\<lambda>n. quote (fst n) @ 0x3A # stringify nt (snd n)) ns" by blast
  have "map fst ns = map fst (sorted_entries m) \<and> all_some (map (\<lambda>p. canonical (snd p)) (sorted_entries m)) = Some (map snd ns)"
    using ns by (induction rule: list_all2_induct) auto
  moreover have "zip (map fst ns) (map snd ns) = ns" by (rule zip_map_fst_snd)
  ultimately have "canonical (D_map m) = Some (J_map ns)" by auto
  moreover have "t = stringify nt (J_map ns)" using t tn by (simp add: split_beta')
  ultimately show ?case by blast
qed (auto split: jsnum.splits)

lemma results_exist: "\<forall>x \<in> set xs. \<exists>y. R x y \<Longrightarrow> \<exists>ys. list_all2 R xs ys"
  by (induction xs) (auto simp: list_all2_Cons1)

lemma canonicalJson_total:
  "canonical v = Some n \<Longrightarrow> \<exists>t. canonicalJson nt v = Inr t"
proof (induction v arbitrary: n rule: canonical.induct)
  case (5 xs)
  then obtain ns where "list_all2 (\<lambda>x n. canonical x = Some n) xs ns" by (auto simp: all_some_Some)
  then have "\<forall>x \<in> set xs. \<exists>n. canonical x = Some n" by (induction rule: list_all2_induct) auto
  then have "\<forall>x \<in> set xs. \<exists>t. canonicalJson nt x = Inr t" using 5(1) by blast
  from results_exist [OF this] obtain ts where "list_all2 (\<lambda>x t. canonicalJson nt x = Inr t) xs ts" ..
  then show ?case by (simp add: mapE_Inr [symmetric])
next
  case (6 m)
  then obtain ns where ns: "list_all2 (\<lambda>p n. canonical (snd p) = Some n) (sorted_entries m) ns"
    by (auto simp: all_some_Some)
  have "\<forall>p \<in> set (sorted_entries m). \<exists>n. canonical (snd p) = Some n"
    using ns by (induction rule: list_all2_induct) auto
  then have "\<forall>p \<in> set (sorted_entries m). \<exists>t. canonicalJson nt (snd p) = Inr t" using 6(1) by blast
  then have "\<forall>p \<in> set (sorted_entries m). \<exists>t. mapR (\<lambda>t. quote (fst p) @ 0x3A # t) (canonicalJson nt (snd p)) = Inr t"
    by fastforce
  from results_exist [OF this]
  obtain ts where "list_all2 (\<lambda>p t. mapR (\<lambda>t. quote (fst p) @ 0x3A # t) (canonicalJson nt (snd p)) = Inr t) (sorted_entries m) ts" ..
  then show ?case by (simp add: mapE_Inr [symmetric])
qed (auto split: jsnum.splits)

text \<open>C14: Canonical JSON identifies a value up to the order of keys.  Every value that has a canonical form (no
  number outside the finite ones, nothing but data) has a text, and two values have the same text exactly
  when their canonical forms, with the keys of every object in order, are equal; so the text that is
  hashed into a digest stands for one value only.\<close>

theorem canonical_json_identifies_the_value:
  assumes "number_format nt" "canonical v = Some a" "canonical w = Some b"
  shows "(\<exists>t. canonicalJson nt v = Inr t) \<and> (canonicalJson nt v = canonicalJson nt w \<longleftrightarrow> a = b)"
proof -
  obtain t u where t: "canonicalJson nt v = Inr t" "canonicalJson nt w = Inr u"
    using canonicalJson_total [OF assms(2), of nt] canonicalJson_total [OF assms(3), of nt] by blast
  then have "t = stringify nt a" "u = stringify nt b"
    using canonicalJson_text assms by fastforce+
  moreover have "stringify nt a @ [] = stringify nt b @ [] \<Longrightarrow> a = b"
    using readableD [OF stringify_readable [OF assms(1) canonical_plain [OF assms(2)] canonical_plain [OF assms(3)]], of "[]" "[]"]
    by simp
  ultimately show ?thesis using t by auto
qed

text \<open>A number format for the run: numerator and denominator.\<close>

definition fraction_text :: "rat \<Rightarrow> jstring" where
  "fraction_text q =
     (let (a, b) = quotient_of q
      in (if a < 0 then js ''-'' else []) @ decimal (nat \<bar>a\<bar>) @ js ''e'' @ decimal (nat b))"

lemma decimal_inject: "decimal m = decimal n \<longleftrightarrow> m = n"
  by (metis decimal_value)

lemma decimal_split:
  assumes "decimal m @ js ''e'' @ decimal b = decimal n @ js ''e'' @ decimal c"
  shows "m = n \<and> b = c"
proof -
  have "takeWhile is_digit (decimal m @ js ''e'' @ r) = decimal m" for m r
    using decimal_digits [of m] by (simp add: takeWhile_append list_all_iff js_def is_digit_def)
  then have "decimal m = decimal n" using assms by metis
  then show ?thesis using assms by (simp add: decimal_inject js_def)
qed

lemma digit_char: "is_digit u \<Longrightarrow> u \<in> number_chars \<and> u \<noteq> 0x2D"
proof -
  assume d: "is_digit u"
  then have n: "48 \<le> unat u" "unat u \<le> 57" by (simp_all add: is_digit_def word_le_nat_alt)
  then obtain d where e: "unat u = 48 + d" and d10: "d < 10" using le_Suc_ex [of 48 "unat u"] by auto
  moreover have "u = word_of_nat (unat u)" by simp
  ultimately have "u = word_of_nat (48 + d)" by (simp only:)
  moreover have "list_all (\<lambda>d. (word_of_nat (48 + d) :: u16) \<in> set (js ''0123456789+-.e'') \<and> (word_of_nat (48 + d) :: u16) \<noteq> 0x2D) [0..<10]"
    by code_simp
  ultimately show ?thesis using d10 by (auto simp: number_chars_def list_all_iff)
qed

lemma fraction_format: "number_format fraction_text"
proof -
  have "p = q" if eq: "fraction_text p = fraction_text q" for p q
  proof -
    obtain a b c d where q: "quotient_of p = (a, b)" "quotient_of q = (c, d)" by (meson surj_pair)
    have pos: "b > 0" "d > 0" using quotient_of_denom_pos q by blast+
    have head: "decimal n @ r \<noteq> 0x2D # x" for n r x
      using decimal_digits [of n] digit_char by (cases "decimal n") auto
    note head [symmetric]
    then have sign: "(a < 0) = (c < 0)"
      using eq head q by (auto simp: fraction_text_def js_def split: if_splits)
    then have "nat \<bar>a\<bar> = nat \<bar>c\<bar> \<and> nat b = nat d"
      using eq q decimal_split [of "nat \<bar>a\<bar>" "nat b" "nat \<bar>c\<bar>" "nat d"]
      by (auto simp: fraction_text_def split: if_splits)
    then have "a = c" "b = d" using sign pos by auto
    then show ?thesis using q quotient_of_div by metis
  qed
  moreover have "set (fraction_text q) \<subseteq> number_chars" for q
    using decimal_digits digit_char
    by (auto simp: fraction_text_def Let_def list_all_iff number_chars_def js_def split: prod.splits if_splits)
  moreover have "fraction_text q \<noteq> []" for q by (simp add: fraction_text_def split: prod.split)
  ultimately show ?thesis by (simp add: number_format_def inj_def)
qed

theorem canonical_json_identifies_the_value_witness:
  "canonicalJson fraction_text (D_map [(js ''b'', num 1), (js ''a'', D_null)]) =
   canonicalJson fraction_text (D_map [(js ''a'', D_null), (js ''b'', num 1)])"
proof -
  have "canonical (D_map [(js ''b'', num 1), (js ''a'', D_null)]) = Some (J_map [(js ''a'', J_null), (js ''b'', J_num 1)])"
    "canonical (D_map [(js ''a'', D_null), (js ''b'', num 1)]) = Some (J_map [(js ''a'', J_null), (js ''b'', J_num 1)])"
    by code_simp+
  from canonical_json_identifies_the_value [OF fraction_format this] show ?thesis by simp
qed

end
