(* ===== verification/Capability_Selection.thy ===== *)
theory Capability_Selection
  imports Capability_Closed Kernel_Json Js_Maps
begin

text \<open>
  Selecting the branch of a requirement that the available capabilities satisfy:
  \<open>runtime/src/kernel/capability-selection.ts\<close> and \<open>capability-registry.ts\<close>.
\<close>

section \<open>The registry\<close>

record capability_definition =
  c_name :: string
  c_kind :: string
  c_schema :: string
  c_provider :: string

definition capability :: "string \<Rightarrow> string \<Rightarrow> string \<Rightarrow> string \<Rightarrow> capability_definition" where
  "capability n k s p = \<lparr>c_name = n, c_kind = k, c_schema = s, c_provider = p\<rparr>"

definition CAPABILITY_DEFINITION_REGISTRY :: "capability_definition list" where
  "CAPABILITY_DEFINITION_REGISTRY =
     [capability ''host.device.sensitive'' ''device'' ''DeviceCapabilityConstraintsV1'' ''host.device'',
      capability ''host.device.state'' ''device'' ''DeviceCapabilityConstraintsV1'' ''host.device'',
      capability ''host.device.summary'' ''device'' ''DeviceCapabilityConstraintsV1'' ''host.device'',
      capability ''host.diagnostics.source.read'' ''numericReader'' ''ReaderCapabilityConstraintsV1'' ''host.diagnostics'',
      capability ''host.fs'' ''filesystem'' ''FsCapabilityConstraintsV1'' ''host.fs'',
      capability ''host.network.http'' ''network'' ''NetworkCapabilityConstraintsV1'' ''host.network'',
      capability ''host.network.mock'' ''network'' ''NetworkCapabilityConstraintsV1'' ''host.network.mock'',
      capability ''host.network.request-body.read'' ''numericReader'' ''ReaderCapabilityConstraintsV1'' ''host.network'',
      capability ''host.process.execute'' ''process'' ''ProcessExecutionCapabilityConstraintsV1'' ''host.process'',
      capability ''host.process.network'' ''process'' ''ProcessNetworkCapabilityConstraintsV1'' ''host.process'',
      capability ''host.process.shell'' ''process'' ''ProcessShellCapabilityConstraintsV1'' ''host.process'',
      capability ''host.process.signal'' ''process'' ''ProcessSignalCapabilityConstraintsV1'' ''host.process'',
      capability ''host.storage'' ''storage'' ''StorageCapabilityConstraintsV1'' ''host.storage'',
      capability ''host.storage.credential'' ''credential'' ''CredentialCapabilityConstraintsV1'' ''host.storage'',
      capability ''host.system.basic'' ''system'' ''SystemCapabilityConstraintsV1'' ''host.system'',
      capability ''host.system.compute'' ''system'' ''SystemCapabilityConstraintsV1'' ''host.system'',
      capability ''host.system.identity'' ''system'' ''SystemCapabilityConstraintsV1'' ''host.system'',
      capability ''host.system.memory'' ''system'' ''SystemCapabilityConstraintsV1'' ''host.system'',
      capability ''host.system.network-topology'' ''system'' ''SystemCapabilityConstraintsV1'' ''host.system'',
      capability ''host.system.process-identity'' ''system'' ''SystemCapabilityConstraintsV1'' ''host.system'',
      capability ''host.system.runtime'' ''system'' ''SystemCapabilityConstraintsV1'' ''host.system'',
      capability ''host.system.version'' ''system'' ''SystemCapabilityConstraintsV1'' ''host.system'']"

definition CAPABILITY_DEFINITION_BY_NAME :: "string \<Rightarrow> capability_definition option" where
  "CAPABILITY_DEFINITION_BY_NAME name = find (\<lambda>item. c_name item = name) CAPABILITY_DEFINITION_REGISTRY"

section \<open>Requirements\<close>

record capability_ref =
  r_name :: string
  r_constraints :: data

record capability_branch =
  allOf :: "capability_ref list"
  branchId :: jstring

record available_capability =
  av_name :: string
  av_constraints :: data
  av_version :: int

record selection_context =
  cx_generation :: data
  cx_policyDigest :: data
  cx_principal :: data
  cx_processId :: data

definition registered_name :: "data \<Rightarrow> kernel_error + string" where
  "registered_name v =
     (case find (\<lambda>item. text_v (c_name item) = v) CAPABILITY_DEFINITION_REGISTRY of
        None \<Rightarrow> invalidPolicy
      | Some item \<Rightarrow> Inr (c_name item))"

definition normalize_ref :: "platform \<Rightarrow> data \<Rightarrow> kernel_error + capability_ref" where
  "normalize_ref P refValue =
     bindR (exact refValue [''constraints'', ''name'', ''version'']) (\<lambda>ref.
     bindR (required ref ''name'') (\<lambda>name.
     bindR (registered_name name) (\<lambda>name.
     bindR (required ref ''version'') (\<lambda>version.
     bindR (check (version = num 1)) (\<lambda>_.
     bindR (required ref ''constraints'') (\<lambda>constraints.
     bindR (normalizeCapabilityConstraints P name constraints) (\<lambda>constraints.
       Inr \<lparr>r_name = name, r_constraints = constraints\<rparr>)))))))"

definition normalize_branch :: "platform \<Rightarrow> data \<Rightarrow> kernel_error + capability_branch" where
  "normalize_branch P branchValue =
     bindR (exact branchValue [''allOf'', ''branchId'']) (\<lambda>branch.
     bindR (required branch ''allOf'') (\<lambda>refs.
     bindR (array refs 1 64) (\<lambda>refs.
     bindR (mapE (normalize_ref P) refs) (\<lambda>refs.
     bindR (required branch ''branchId'') (\<lambda>branchId.
     bindR (identifier_v branchId 128) (\<lambda>branchId.
       Inr \<lparr>allOf = refs, branchId = branchId\<rparr>))))))"

definition normalizeCapabilityRequirement :: "platform \<Rightarrow> data \<Rightarrow> kernel_error + capability_branch list" where
  "normalizeCapabilityRequirement P v =
     bindR (exact v [''anyOf'']) (\<lambda>input.
     bindR (required input ''anyOf'') (\<lambda>branches.
     bindR (array branches 1 64) (\<lambda>branches.
     bindR (mapE (normalize_branch P) branches) (\<lambda>branches.
     bindR (check (distinct (map branchId branches))) (\<lambda>_.
       Inr branches)))))"

section \<open>Merging constraints by name\<close>

text \<open>
  \<open>mergeRequired\<close> over any meet: the constraints of one name are met in order.  The result is \<open>None\<close> when a
  meet is null.
\<close>

fun merge_all :: "('n \<Rightarrow> 'c \<Rightarrow> 'c \<Rightarrow> 'e + 'c option) \<Rightarrow> ('n \<times> 'c) list \<Rightarrow> ('n \<times> 'c) list \<Rightarrow> 'e + ('n \<times> 'c) list option" where
  "merge_all meet [] out = Inr (Some out)"
| "merge_all meet ((name, constraints) # refs) out =
     (case map_of out name of
        None \<Rightarrow> merge_all meet refs (map_set name constraints out)
      | Some current \<Rightarrow>
          bindR (meet name current constraints) (\<lambda>merged.
            (case merged of
               None \<Rightarrow> Inr None
             | Some m \<Rightarrow> merge_all meet refs (map_set name m out))))"

definition mergeRequired :: "platform \<Rightarrow> capability_ref list \<Rightarrow> kernel_error + (string \<times> data) list option" where
  "mergeRequired P refs = merge_all (meetCapabilityConstraints P) (map (\<lambda>ref. (r_name ref, r_constraints ref)) refs) []"

fun availableMap :: "platform \<Rightarrow> available_capability list \<Rightarrow> (string \<times> data) list \<Rightarrow> kernel_error + (string \<times> data) list" where
  "availableMap P [] out = Inr out"
| "availableMap P (v # vs) out =
     (if av_version v \<noteq> 1 \<or> CAPABILITY_DEFINITION_BY_NAME (av_name v) = None then invalidPolicy
      else bindR (normalizeCapabilityConstraints P (av_name v) (av_constraints v)) (\<lambda>normalized.
        (case map_of out (av_name v) of
           None \<Rightarrow> availableMap P vs (map_set (av_name v) normalized out)
         | Some current \<Rightarrow>
             bindR (meetCapabilityConstraints P (av_name v) current normalized) (\<lambda>merged.
               (case merged of
                  None \<Rightarrow> invalidPolicy
                | Some m \<Rightarrow> availableMap P vs (map_set (av_name v) m out))))))"

section \<open>Selecting a branch\<close>

text \<open>\<open>[...requiredByName].some(...)\<close>: some requirement has no candidate that satisfies it.\<close>

fun some_unsatisfied :: "platform \<Rightarrow> (string \<times> data) list \<Rightarrow> (string \<times> data) list \<Rightarrow> kernel_error + bool" where
  "some_unsatisfied P available [] = Inr False"
| "some_unsatisfied P available ((name, constraints) # others) =
     (case map_of available name of
        None \<Rightarrow> Inr True
      | Some candidate \<Rightarrow>
          bindR (capabilitySatisfies P name candidate constraints) (\<lambda>ok.
            if \<not> ok then Inr True else some_unsatisfied P available others))"

record capability_binding =
  b_branchId :: jstring
  b_constraints :: data
  b_digest :: jstring
  b_name :: string

record authority_binding =
  au_digest :: jstring
  au_name :: string
  au_constraints :: data
  au_provider :: string

record capability_selection =
  authorityBindings :: "authority_binding list"
  bindings :: "capability_binding list"
  s_branchId :: jstring
  requirement :: "capability_branch list"

definition hex_digest :: "data \<Rightarrow> kernel_error + jstring" where
  "hex_digest v =
     (case v of
        D_str s \<Rightarrow> if length s = 64 \<and> list_all (\<lambda>u. u \<in> set (js ''0123456789abcdef'')) s then Inr s else invalidPolicy
      | _ \<Rightarrow> invalidPolicy)"

text \<open>The two bindings of one required capability.\<close>

definition bind_capability ::
  "platform \<Rightarrow> jstring \<Rightarrow> int \<Rightarrow> jstring \<Rightarrow> jstring \<Rightarrow> jstring \<Rightarrow> string \<times> data \<Rightarrow>
     kernel_error + capability_binding \<times> authority_binding" where
  "bind_capability P branch generation policyDigest principal' processId p =
     (let (name, constraints) = p in
      bindR (canonicalDigest (number_text P) (D_list [text_v ''capability'', text_v name, num 1, constraints])) (\<lambda>semanticDigest.
      bindR (canonicalDigest (number_text P)
        (D_list [text_v ''capabilityBinding'', D_str semanticDigest, D_str branch, D_str policyDigest, D_str processId, num generation])) (\<lambda>bindingDigest.
      (case CAPABILITY_DEFINITION_BY_NAME name of
         None \<Rightarrow> Inl Type_error
       | Some definition' \<Rightarrow>
           bindR (canonicalDigest (number_text P)
             (D_list [text_v ''authority'', text_v (c_provider definition'), constraints, D_str principal', num generation, D_str bindingDigest]))
             (\<lambda>authorityDigest.
               Inr (\<lparr>b_branchId = branch, b_constraints = constraints, b_digest = bindingDigest, b_name = name\<rparr>,
                    \<lparr>au_digest = authorityDigest, au_name = name, au_constraints = constraints, au_provider = c_provider definition'\<rparr>))))))"

fun select_from ::
  "platform \<Rightarrow> (string \<times> data) list \<Rightarrow> (jstring \<Rightarrow> string \<times> data \<Rightarrow> kernel_error + capability_binding \<times> authority_binding) \<Rightarrow>
     capability_branch list \<Rightarrow> kernel_error + (jstring \<times> (capability_binding \<times> authority_binding) list) option" where
  "select_from P available bind_one [] = Inr None"
| "select_from P available bind_one (branch # branches) =
     bindR (mergeRequired P (allOf branch)) (\<lambda>merged.
       (case merged of
          None \<Rightarrow> select_from P available bind_one branches
        | Some requiredByName \<Rightarrow>
            bindR (some_unsatisfied P available requiredByName) (\<lambda>unsatisfied.
              if unsatisfied then select_from P available bind_one branches
              else mapR (\<lambda>bs. Some (branchId branch, bs)) (mapE (bind_one (branchId branch)) requiredByName))))"

definition selectCapabilityBranch ::
  "platform \<Rightarrow> data \<Rightarrow> available_capability list \<Rightarrow> selection_context \<Rightarrow> kernel_error + capability_selection option" where
  "selectCapabilityBranch P requirementValue availableValues contextValue =
     bindR (normalizeCapabilityRequirement P requirementValue) (\<lambda>need.
     bindR (availableMap P availableValues []) (\<lambda>available.
     bindR (integer (cx_generation contextValue) 1 MAX_SAFE_INTEGER) (\<lambda>generation.
     bindR (hex_digest (cx_policyDigest contextValue)) (\<lambda>policyDigest.
     bindR (string_v (cx_principal contextValue) 256) (\<lambda>principal'.
     bindR (identifier_v (cx_processId contextValue) 128) (\<lambda>processId.
     mapR (map_option (\<lambda>(branch, bs).
         \<lparr>authorityBindings = map snd bs, bindings = map fst bs, s_branchId = branch, requirement = need\<rparr>))
       (select_from P available (\<lambda>branch. bind_capability P branch generation policyDigest principal' processId) need)))))))"

end
