(* ===== verification/Capability_Choice.thy ===== *)
theory Capability_Choice
  imports Capability_Selection
begin

text \<open>
  What a selection grants: the constraints it binds satisfy every requirement of the branch under their name and
  are satisfied by every capability that is available under it, and the branch is the first that fits.
\<close>

section \<open>Orders with meets\<close>

text \<open>
  What the selection relies on: a comparison of the constraints of one name that is transitive and holds only
  between constraints that satisfy themselves, and a meet that is a greatest lower bound.
\<close>

locale constraint_order =
  fixes trusted :: "'p \<Rightarrow> bool"
    and satisfies :: "'p \<Rightarrow> 'n \<Rightarrow> 'c \<Rightarrow> 'c \<Rightarrow> bool"
  assumes satisfies_trans: "satisfies p n a b \<Longrightarrow> satisfies p n b c \<Longrightarrow> satisfies p n a c"
    and satisfies_ends: "satisfies p n a b \<Longrightarrow> satisfies p n a a \<and> satisfies p n b b"
begin

lemma below_chain:
  assumes "satisfies p n a b" "list_all (\<lambda>x. satisfies p n x a) xs"
  shows "list_all (\<lambda>x. satisfies p n x b) xs"
  using assms satisfies_trans by (auto simp: list_all_iff)

end

locale constraint_meets = constraint_order trusted satisfies
  for trusted :: "'p \<Rightarrow> bool" and satisfies :: "'p \<Rightarrow> 'n \<Rightarrow> 'c \<Rightarrow> 'c \<Rightarrow> bool" +
  fixes meet :: "'p \<Rightarrow> 'n \<Rightarrow> 'c \<Rightarrow> 'c \<Rightarrow> 'e + 'c option"
  assumes meet_greatest:
    "trusted p \<Longrightarrow> meet p n l r = Inr (Some m) \<Longrightarrow> satisfies p n m m \<Longrightarrow> satisfies p n m c \<longleftrightarrow> satisfies p n l c \<and> satisfies p n r c"
begin

lemma merge_all_meets:
  assumes "trusted p" "merge_all (meet p) refs out = Inr (Some result)" "map_of result n = Some c" "satisfies p n c c"
  shows "satisfies p n c d \<longleftrightarrow> (\<forall>x. map_of out n = Some x \<or> (n, x) \<in> set refs \<longrightarrow> satisfies p n x d)"
  using assms(2,3)
proof (induction refs arbitrary: out d)
  case (Cons q refs)
  obtain name r where q: "q = (name, r)" by (cases q)
  show ?case
  proof (cases "map_of out name")
    case None
    then have "merge_all (meet p) refs (map_set name r out) = Inr (Some result)" using Cons.prems(1) by (simp add: q)
    from Cons.IH [OF this Cons.prems(2)] show ?thesis using None by (auto simp: q split: if_splits)
  next
    case (Some current)
    then obtain m where m: "meet p name current r = Inr (Some m)" "merge_all (meet p) refs (map_set name m out) = Inr (Some result)"
      using Cons.prems(1) by (auto simp: q bindR_Inr split: option.splits)
    note step = Cons.IH [OF m(2) Cons.prems(2)]
    show ?thesis
    proof (cases "name = n")
      case True
      have "satisfies p n m c" using step [of c] assms(4) True by simp
      then have "satisfies p n m m" using satisfies_ends by blast
      then have "satisfies p n m d \<longleftrightarrow> satisfies p n current d \<and> satisfies p n r d"
        using meet_greatest [OF assms(1)] m(1) True by blast
      then show ?thesis using step [of d] Some True by (auto simp: q)
    next
      case False
      then show ?thesis using step [of d] by (simp add: q)
    qed
  qed
qed simp

end

lemma merge_all_step:
  "merge_all meet ((name, r) # refs) out = Inr (Some result) \<Longrightarrow> \<exists>v. merge_all meet refs (map_set name v out) = Inr (Some result)"
  by (auto simp: bindR_Inr split: option.splits)

lemma merge_all_names:
  "merge_all meet refs out = Inr (Some result) \<Longrightarrow> fst ` set result = fst ` set out \<union> fst ` set refs"
proof (induction refs arbitrary: out)
  case (Cons q refs)
  obtain name r where q: "q = (name, r)" by (cases q)
  from merge_all_step [OF Cons.prems [unfolded q]] obtain v where "merge_all meet refs (map_set name v out) = Inr (Some result)" ..
  from Cons.IH [OF this] show ?case by (simp add: q keys_map_set)
qed simp

lemma merge_all_distinct:
  "merge_all meet refs out = Inr (Some result) \<Longrightarrow> distinct (map fst out) \<Longrightarrow> distinct (map fst result)"
proof (induction refs arbitrary: out)
  case (Cons q refs)
  obtain name r where q: "q = (name, r)" by (cases q)
  from merge_all_step [OF Cons.prems(1) [unfolded q]] obtain v where "merge_all meet refs (map_set name v out) = Inr (Some result)" ..
  from Cons.IH [OF this distinct_map_set [OF Cons.prems(2)]] show ?case .
qed simp

section \<open>The capabilities of the program\<close>

lemma sat_ends: "sat P name a b \<Longrightarrow> sat P name a a \<and> sat P name b b"
  unfolding sat_self accepted_def by (auto simp: sat_iff)

interpretation capabilities: constraint_meets platform_ok sat meetCapabilityConstraints
proof unfold_locales
  show "sat p n a c" if "sat p n a b" "sat p n b c" for p n a b c using that by (rule sat_trans)
  show "sat p n a a \<and> sat p n b b" if "sat p n a b" for p n a b using that by (rule sat_ends)
  show "sat p n m c \<longleftrightarrow> sat p n l c \<and> sat p n r c"
    if "platform_ok p" "meetCapabilityConstraints p n l r = Inr (Some m)" "sat p n m m" for p n l r m c
    using that(3) by (intro sat_meet [OF that(1,2)]) (simp add: sat_self)
qed

section \<open>What is available\<close>

lemma availableMap_merges:
  "availableMap P vs out = Inr available \<Longrightarrow>
     \<exists>refs. merge_all (meetCapabilityConstraints P) refs out = Inr (Some available) \<and>
       list_all2 (\<lambda>v r. fst r = av_name v \<and> normalizeCapabilityConstraints P (av_name v) (av_constraints v) = Inr (snd r)) vs refs"
proof (induction vs arbitrary: out)
  case (Cons v vs)
  obtain c where c: "normalizeCapabilityConstraints P (av_name v) (av_constraints v) = Inr c"
    using Cons.prems by (auto simp: bindR_Inr split: if_splits)
  show ?case
  proof (cases "map_of out (av_name v)")
    case None
    then have "availableMap P vs (map_set (av_name v) c out) = Inr available" using Cons.prems c by (simp split: if_splits)
    from Cons.IH [OF this] obtain refs where "merge_all (meetCapabilityConstraints P) refs (map_set (av_name v) c out) = Inr (Some available)"
      "list_all2 (\<lambda>v r. fst r = av_name v \<and> normalizeCapabilityConstraints P (av_name v) (av_constraints v) = Inr (snd r)) vs refs" by blast
    then show ?thesis using None c by (intro exI [of _ "(av_name v, c) # refs"]) simp
  next
    case (Some current)
    then obtain m where m: "meetCapabilityConstraints P (av_name v) current c = Inr (Some m)"
      "availableMap P vs (map_set (av_name v) m out) = Inr available"
      using Cons.prems c by (auto simp: bindR_Inr split: if_splits option.splits)
    from Cons.IH [OF m(2)] obtain refs where "merge_all (meetCapabilityConstraints P) refs (map_set (av_name v) m out) = Inr (Some available)"
      "list_all2 (\<lambda>v r. fst r = av_name v \<and> normalizeCapabilityConstraints P (av_name v) (av_constraints v) = Inr (snd r)) vs refs" by blast
    then show ?thesis using Some c m(1) by (intro exI [of _ "(av_name v, c) # refs"]) simp
  qed
qed simp

lemma sat_normal_left:
  assumes "platform_ok P" "normalizeCapabilityConstraints P name v = Inr c"
  shows "sat P name c d \<longleftrightarrow> sat P name v d"
  using normalization_is_idempotent [OF assms] assms(2) by (simp add: sat_iff)

text \<open>A candidate covers what every available capability of its name covers.\<close>

lemma candidate_covers:
  assumes "platform_ok P" "availableMap P vs [] = Inr available" "map_of available n = Some c" "sat P n c c"
  shows "sat P n c d \<longleftrightarrow> (\<forall>v \<in> set vs. av_name v = n \<longrightarrow> sat P n (av_constraints v) d)"
proof -
  obtain refs where m: "merge_all (meetCapabilityConstraints P) refs [] = Inr (Some available)"
    and r: "list_all2 (\<lambda>v r. fst r = av_name v \<and> normalizeCapabilityConstraints P (av_name v) (av_constraints v) = Inr (snd r)) vs refs"
    using availableMap_merges [OF assms(2)] by blast
  have "(\<forall>q \<in> set refs. fst q = n \<longrightarrow> sat P n (snd q) d) \<longleftrightarrow> (\<forall>v \<in> set vs. av_name v = n \<longrightarrow> sat P n (av_constraints v) d)"
    using r by (induction rule: list_all2_induct) (auto simp: sat_normal_left [OF assms(1)])
  moreover have "sat P n c d \<longleftrightarrow> (\<forall>x. (n, x) \<in> set refs \<longrightarrow> sat P n x d)"
    using capabilities.merge_all_meets [OF assms(1) m assms(3,4)] by simp
  ultimately show ?thesis by force
qed

lemma candidate_names:
  "availableMap P vs [] = Inr available \<Longrightarrow> fst ` set available = av_name ` set vs"
proof -
  assume "availableMap P vs [] = Inr available"
  then obtain refs where m: "merge_all (meetCapabilityConstraints P) refs [] = Inr (Some available)"
    and r: "list_all2 (\<lambda>v r. fst r = av_name v \<and> normalizeCapabilityConstraints P (av_name v) (av_constraints v) = Inr (snd r)) vs refs"
    using availableMap_merges by blast
  have "fst ` set refs = av_name ` set vs" using r by (induction rule: list_all2_induct) auto
  then show ?thesis using merge_all_names [OF m] by simp
qed

section \<open>What is required\<close>

lemma required_covers:
  assumes "platform_ok P" "mergeRequired P refs = Inr (Some need)" "(n, c) \<in> set need" "sat P n c c"
  shows "sat P n c d \<longleftrightarrow> (\<forall>r \<in> set refs. r_name r = n \<longrightarrow> sat P n (r_constraints r) d)"
proof -
  have d: "distinct (map fst need)"
    using merge_all_distinct [of "meetCapabilityConstraints P" _ "[]" need] assms(2) unfolding mergeRequired_def by auto
  then have "map_of need n = Some c" using assms(3) by simp
  then have "sat P n c d \<longleftrightarrow> (\<forall>x. (n, x) \<in> set (map (\<lambda>ref. (r_name ref, r_constraints ref)) refs) \<longrightarrow> sat P n x d)"
    using capabilities.merge_all_meets [OF assms(1) assms(2) [unfolded mergeRequired_def] _ assms(4)] by simp
  then show ?thesis by auto
qed

lemma required_names:
  assumes "mergeRequired P refs = Inr (Some need)"
  shows "fst ` set need = r_name ` set refs"
  using merge_all_names [OF assms [unfolded mergeRequired_def]] by (simp add: image_image)

section \<open>The branch that fits\<close>

text \<open>\<open>covered P vs (name, constraints)\<close>: a capability of the name is available, and each satisfies the constraints.\<close>

definition covered :: "platform \<Rightarrow> available_capability list \<Rightarrow> string \<times> data \<Rightarrow> bool" where
  "covered P vs need \<longleftrightarrow>
     list_ex (\<lambda>v. av_name v = fst need) vs \<and>
     list_all (\<lambda>v. av_name v = fst need \<longrightarrow> capabilitySatisfies P (fst need) (av_constraints v) (snd need) = Inr True) vs"

text \<open>A branch fits when the meets of its requirements by name are covered.\<close>

definition fits :: "platform \<Rightarrow> available_capability list \<Rightarrow> capability_branch \<Rightarrow> bool" where
  "fits P vs branch \<longleftrightarrow>
     (case mergeRequired P (allOf branch) of Inr (Some need) \<Rightarrow> list_all (covered P vs) need | _ \<Rightarrow> False)"

lemma covered_candidate:
  assumes "platform_ok P" "availableMap P vs [] = Inr available" "map_of available n = Some a" "capabilitySatisfies P n a c = Inr b"
  shows "covered P vs (n, c) \<longleftrightarrow> b"
proof -
  have "sat P n a a" using assms(4) by (auto simp: sat_self accepted_def capabilitySatisfies_def bindR_Inr)
  note covers = candidate_covers [OF assms(1-3) this, of c]
  have "b \<longleftrightarrow> sat P n a c" by (simp add: sat_def assms(4))
  with covers have "b \<longleftrightarrow> (\<forall>v \<in> set vs. av_name v = n \<longrightarrow> sat P n (av_constraints v) c)" by blast
  moreover have "n \<in> fst ` set available" using assms(3) by (force dest: map_of_SomeD)
  then have "list_ex (\<lambda>v. av_name v = n) vs" using candidate_names [OF assms(2)] by (auto simp: list_ex_iff)
  ultimately show ?thesis by (auto simp: covered_def list_all_iff sat_def)
qed

lemma unsatisfied_iff:
  assumes "platform_ok P" "availableMap P vs [] = Inr available" "some_unsatisfied P available need = Inr b"
  shows "b \<longleftrightarrow> \<not> list_all (covered P vs) need"
  using assms(3)
proof (induction need)
  case (Cons q need)
  obtain n c where q: "q = (n, c)" by (cases q)
  show ?case
  proof (cases "map_of available n")
    case None
    then have "n \<notin> fst ` set available" by (simp add: map_of_eq_None_iff)
    then have "\<not> covered P vs (n, c)" using candidate_names [OF assms(2)] by (auto simp: covered_def list_ex_iff)
    then show ?thesis using Cons.prems None by (simp add: q)
  next
    case (Some a)
    then obtain ok where ok: "capabilitySatisfies P n a c = Inr ok" using Cons.prems by (auto simp: q bindR_Inr)
    then have "covered P vs (n, c) \<longleftrightarrow> ok" by (rule covered_candidate [OF assms(1,2) Some])
    then show ?thesis using Cons Some ok by (cases ok) (auto simp: q)
  qed
qed simp

lemma select_first:
  assumes "platform_ok P" "availableMap P vs [] = Inr available" "select_from P available bind_one branches = Inr result"
  shows "case result of
      None \<Rightarrow> find (fits P vs) branches = None
    | Some (b, bs) \<Rightarrow>
        (\<exists>branch need. find (fits P vs) branches = Some branch \<and> b = branchId branch \<and> mergeRequired P (allOf branch) = Inr (Some need) \<and>
           list_all (covered P vs) need \<and> mapE (bind_one b) need = Inr bs)"
  using assms(3)
proof (induction branches)
  case (Cons branch branches)
  obtain merged where m: "mergeRequired P (allOf branch) = Inr merged" using Cons.prems by (auto simp: bindR_Inr)
  show ?case
  proof (cases merged)
    case None
    then have "\<not> fits P vs branch" by (simp add: fits_def m)
    then show ?thesis using Cons m None by (cases result) (simp_all split: prod.splits)
  next
    case (Some need)
    then obtain b where b: "some_unsatisfied P available need = Inr b" using Cons.prems m by (auto simp: bindR_Inr)
    note iff = unsatisfied_iff [OF assms(1,2) b]
    show ?thesis
    proof (cases b)
      case True
      then have "\<not> fits P vs branch" using iff by (simp add: fits_def m Some)
      then show ?thesis using Cons m Some b True by (cases result) (simp_all split: prod.splits)
    next
      case False
      then have "fits P vs branch" using iff by (simp add: fits_def m Some)
      then show ?thesis using Cons.prems m Some b False iff by (auto simp: mapR_def bindR_Inr)
    qed
  qed
qed simp

lemma bind_capability_parts:
  assumes "bind_capability P branch g d p q (n, c) = Inr (b, a)"
  shows "b_name b = n \<and> b_constraints b = c \<and> b_branchId b = branch \<and> au_name a = n \<and> au_constraints a = c"
  using assms by (auto simp: bind_capability_def Let_def bindR_Inr split: option.splits)

lemma selection_parts:
  assumes "platform_ok P" "selectCapabilityBranch P req vs cx = Inr (Some s)"
  shows "\<exists>branch need. find (fits P vs) (requirement s) = Some branch \<and> s_branchId s = branchId branch \<and>
    mergeRequired P (allOf branch) = Inr (Some need) \<and> list_all (covered P vs) need \<and>
    map (\<lambda>b. (b_name b, b_constraints b)) (bindings s) = need \<and>
    map (\<lambda>a. (au_name a, au_constraints a)) (authorityBindings s) = need"
proof -
  obtain available g d p q b bs where av: "availableMap P vs [] = Inr available"
    and sel: "select_from P available (\<lambda>branch. bind_capability P branch g d p q) (requirement s) = Inr (Some (b, bs))"
    and s: "bindings s = map fst bs" "authorityBindings s = map snd bs" "s_branchId s = b"
    using assms(2) unfolding selectCapabilityBranch_def mapR_def bindR_Inr by auto
  from select_first [OF assms(1) av sel] obtain branch need where f: "find (fits P vs) (requirement s) = Some branch" "b = branchId branch"
    "mergeRequired P (allOf branch) = Inr (Some need)" "list_all (covered P vs) need" "mapE (bind_capability P b g d p q) need = Inr bs" by auto
  have "map (\<lambda>b. (b_name b, b_constraints b)) (map fst bs) = need \<and> map (\<lambda>a. (au_name a, au_constraints a)) (map snd bs) = need"
    using f(5) unfolding mapE_Inr by (induction rule: list_all2_induct) (auto dest: bind_capability_parts)
  then show ?thesis using f s by auto
qed

text \<open>
  C9: A selection grants no more than both sides allow.  What \<open>selectCapabilityBranchV1\<close> binds for a capability
  name is satisfied by every available capability of that name, of which there is one at least, and by every
  requirement of the chosen branch under that name; the names bound are those of the branch, each once, and the
  authorities handed to the providers carry the same constraints.
\<close>

theorem selection_grants_no_more:
  assumes "platform_ok P" "selectCapabilityBranch P req vs cx = Inr (Some s)"
  shows "\<exists>branch \<in> set (requirement s). s_branchId s = branchId branch \<and>
    b_name ` set (bindings s) = r_name ` set (allOf branch) \<and> distinct (map b_name (bindings s)) \<and>
    map (\<lambda>a. (au_name a, au_constraints a)) (authorityBindings s) = map (\<lambda>b. (b_name b, b_constraints b)) (bindings s) \<and>
    (\<forall>b \<in> set (bindings s).
       (\<exists>v \<in> set vs. av_name v = b_name b) \<and>
       (\<forall>v \<in> set vs. av_name v = b_name b \<longrightarrow>
          capabilitySatisfies P (b_name b) (av_constraints v) (b_constraints b) = Inr True) \<and>
       (\<forall>r \<in> set (allOf branch). r_name r = b_name b \<longrightarrow>
          capabilitySatisfies P (b_name b) (r_constraints r) (b_constraints b) = Inr True))"
proof -
  from selection_parts [OF assms] obtain branch need where f: "find (fits P vs) (requirement s) = Some branch" "s_branchId s = branchId branch"
    "mergeRequired P (allOf branch) = Inr (Some need)" "list_all (covered P vs) need"
    and b: "map (\<lambda>b. (b_name b, b_constraints b)) (bindings s) = need"
    and a: "map (\<lambda>a. (au_name a, au_constraints a)) (authorityBindings s) = need" by blast
  have member: "branch \<in> set (requirement s)" using f(1) by (auto simp: find_Some_iff)
  have names: "map b_name (bindings s) = map fst need" unfolding b [symmetric] by simp
  then have "b_name ` set (bindings s) = fst ` set need" by (metis list.set_map)
  then have all: "b_name ` set (bindings s) = r_name ` set (allOf branch)" using required_names [OF f(3)] by simp
  have "distinct (map fst need)" using merge_all_distinct [OF f(3) [unfolded mergeRequired_def]] by simp
  then have d: "distinct (map b_name (bindings s))" by (simp only: names)
  have one: "(\<exists>v \<in> set vs. av_name v = b_name x) \<and> (\<forall>v \<in> set vs. av_name v = b_name x \<longrightarrow> sat P (b_name x) (av_constraints v) (b_constraints x)) \<and>
      (\<forall>r \<in> set (allOf branch). r_name r = b_name x \<longrightarrow> sat P (b_name x) (r_constraints r) (b_constraints x))"
    if x: "x \<in> set (bindings s)" for x
  proof -
    have n: "(b_name x, b_constraints x) \<in> set need" using x unfolding b [symmetric] by auto
    then have c: "covered P vs (b_name x, b_constraints x)" using f(4) by (auto simp: list_all_iff)
    then have v: "\<exists>v \<in> set vs. av_name v = b_name x" "\<forall>v \<in> set vs. av_name v = b_name x \<longrightarrow> sat P (b_name x) (av_constraints v) (b_constraints x)"
      by (auto simp: covered_def list_ex_iff list_all_iff sat_def)
    then have "sat P (b_name x) (b_constraints x) (b_constraints x)" using sat_ends by blast
    then show ?thesis using v required_covers [OF assms(1) f(3) n] by blast
  qed
  show ?thesis by (rule bexI [OF _ member]) (use f(2) all d a b one in \<open>simp add: sat_def\<close>)
qed

text \<open>
  C10: The selection is the first branch that fits: \<open>selectCapabilityBranchV1\<close> answers with the id of the first branch
  of the requirement whose merged requirements every available capability of their names covers, and with null
  exactly when no branch does.
\<close>

theorem selection_is_the_first_that_fits:
  assumes "platform_ok P" "selectCapabilityBranch P req vs cx = Inr result" "normalizeCapabilityRequirement P req = Inr branches"
  shows "map_option s_branchId result = map_option branchId (find (fits P vs) branches)"
proof -
  obtain available g d p q r where av: "availableMap P vs [] = Inr available"
    and sel: "select_from P available (\<lambda>branch. bind_capability P branch g d p q) branches = Inr r"
    and s: "map_option s_branchId result = map_option fst r"
    using assms(2,3) unfolding selectCapabilityBranch_def mapR_def bindR_Inr by (auto simp: option.map_comp comp_def split_beta')
  show ?thesis using select_first [OF assms(1) av sel] s by (auto split: option.splits)
qed

end
