(* ===== verification/Capability_Witness.thy ===== *)
theory Capability_Witness
  imports Capability_Choice
begin

text \<open>
  The hypotheses on the platform can hold: a platform that compares strings by code units, lowers ASCII letters and
  reads plain http(s) origins.  On it the laws are applied to concrete constraints.
\<close>

section \<open>A platform\<close>

definition lower_unit :: "u16 \<Rightarrow> u16" where
  "lower_unit u = (if 0x41 \<le> u \<and> u \<le> 0x5A then u + 0x20 else u)"

definition host_char :: "u16 \<Rightarrow> bool" where
  "host_char u \<longleftrightarrow> u < 128 \<and> (is_word u \<or> u \<in> set (js ''.-''))"

definition plain_url :: "jstring \<Rightarrow> url_parts option" where
  "plain_url s =
     (let secure = starts_with s (js ''https://'');
          scheme = js (if secure then ''https:'' else ''http:'');
          rem = drop (if secure then 8 else 7) s;
          host = takeWhile (\<lambda>u. u \<noteq> ch CHR ''/'') rem;
          path = dropWhile (\<lambda>u. u \<noteq> ch CHR ''/'') rem
      in if (secure \<or> starts_with s (js ''http://'')) \<and> host \<noteq> [] \<and> list_all host_char host
         then Some \<lparr>u_origin = scheme @ js ''//'' @ host, u_protocol = scheme, u_username = [], u_password = [], u_hostname = host,
                    u_port = [], u_pathname = (if path = [] then js ''/'' else path), u_search = [], u_hash = []\<rparr>
         else None)"

definition plain_platform :: platform where
  "plain_platform = \<lparr>new_url = plain_url, locale_compare = compare_units, lower_case = map lower_unit, number_text = fraction_text\<rparr>"

lemma compare_lists_minus: "compare_lists xs ys = - compare_lists ys xs"
  by (induction xs ys rule: compare_lists.induct) auto

lemma compare_lists_sgn: "sgn (compare_lists xs ys) = - sgn (compare_lists ys xs)"
  by (subst compare_lists_minus) (simp add: sgn_if)

lemma lower_unit_again: "lower_unit (lower_unit u) = lower_unit u"
proof (cases "0x41 \<le> u \<and> u \<le> 0x5A")
  case True
  then have "0x41 \<le> unat u" "unat u \<le> 0x5A" by (simp_all add: word_le_nat_alt)
  moreover from this have "unat (u + 0x20) = unat u + 0x20" by (simp add: unat_word_ariths)
  ultimately have "\<not> u + 0x20 \<le> 0x5A" by (simp add: word_le_nat_alt)
  then show ?thesis by (simp add: lower_unit_def)
next
  case False
  then show ?thesis by (simp add: lower_unit_def)
qed

lemma plain_platform_ok: "platform_ok plain_platform"
proof -
  have "ascii (u_hostname u)" if "plain_url s = Some u" for s u
    using that by (auto simp: plain_url_def Let_def ascii_def host_char_def list_all_iff split: if_splits)
  moreover have "compare_units s t \<le> 0 \<Longrightarrow> compare_units t u \<le> 0 \<Longrightarrow> compare_units s u \<le> 0" for s t u
    using compare_lists_trans by (simp add: compare_units_def)
  ultimately show ?thesis
    by (auto simp: platform_ok_def plain_platform_def compare_units_def lowers_def lower_unit_again comp_def intro: compare_lists_sgn)
qed

lemma Inr_case: "(case r of Inr m \<Rightarrow> Q m | Inl e \<Rightarrow> False) \<Longrightarrow> \<exists>m. r = Inr m \<and> Q m"
  by (cases r) auto

lemma Inr_Some_case: "(case r of Inr (Some m) \<Rightarrow> Q m | _ \<Rightarrow> False) \<Longrightarrow> \<exists>m. r = Inr (Some m) \<and> Q m"
  by (auto split: sum.splits option.splits)

section \<open>Constraints of the file system\<close>

definition fs_value :: "string list \<Rightarrow> string list \<Rightarrow> string \<Rightarrow> int \<Rightarrow> data" where
  "fs_value segs rights links limit =
     object [(''roots'', D_list [object [(''rights'', texts (map js rights)), (''rootId'', text_v ''work''),
                                         (''pathPrefixSegments'', texts (map js segs)), (''symlinks'', text_v links)]]),
             (''limits'', object (map (\<lambda>k. (k, num limit)) FS_LIMITS))]"

theorem normalization_is_idempotent_witness:
  "\<exists>c. normalizeCapabilityConstraints plain_platform ''host.fs'' (fs_value [''data''] [''write'', ''read''] ''deny'' 10) = Inr c \<and>
     normalizeCapabilityConstraints plain_platform ''host.fs'' c = Inr c \<and> c \<noteq> fs_value [''data''] [''write'', ''read''] ''deny'' 10"
proof -
  let ?v = "fs_value [''data''] [''write'', ''read''] ''deny'' 10"
  have "case normalizeCapabilityConstraints plain_platform ''host.fs'' ?v of Inr c \<Rightarrow> c \<noteq> ?v | Inl e \<Rightarrow> False"
    by code_simp
  then obtain c where c: "normalizeCapabilityConstraints plain_platform ''host.fs'' ?v = Inr c" "c \<noteq> ?v" by (auto split: sum.split_asm)
  from normalization_is_idempotent [OF plain_platform_ok c(1)] c show ?thesis by blast
qed

section \<open>Constraints of signals\<close>

definition signals_value :: "string list \<Rightarrow> data" where
  "signals_value names = object [(''signals'', texts (map js names))]"


theorem meet_of_constraints_is_constraints_witness:
  "\<exists>m c. meetCapabilityConstraints plain_platform ''host.process.signal'' (signals_value [''SIGTERM'']) (signals_value [''SIGTERM'', ''SIGINT'']) = Inr (Some m) \<and>
     normalizeCapabilityConstraints plain_platform ''host.process.signal'' m = Inr c"
proof -
  let ?l = "signals_value [''SIGTERM'']" and ?r = "signals_value [''SIGTERM'', ''SIGINT'']"
  have "case meetCapabilityConstraints plain_platform ''host.process.signal'' ?l ?r of Inr (Some m) \<Rightarrow> True | _ \<Rightarrow> False" by code_simp
  from Inr_Some_case [OF this] obtain m where m: "meetCapabilityConstraints plain_platform ''host.process.signal'' ?l ?r = Inr (Some m)" by blast
  have "''host.process.signal'' \<noteq> ''host.fs''" by simp
  from meet_of_constraints_is_constraints [OF plain_platform_ok this m] m show ?thesis by blast
qed

section \<open>A selection\<close>

definition signal_branch :: "string \<Rightarrow> string \<Rightarrow> data" where
  "signal_branch name signal =
     object [(''branchId'', text_v name),
             (''allOf'', D_list [object [(''name'', text_v ''host.process.signal''), (''version'', num 1),
                                         (''constraints'', signals_value [signal])]])]"

definition signal_requirement :: data where
  "signal_requirement = object [(''anyOf'', D_list [signal_branch ''killer'' ''SIGKILL'', signal_branch ''stopper'' ''SIGTERM''])]"

definition signal_available :: "available_capability list" where
  "signal_available = [\<lparr>av_name = ''host.process.signal'', av_constraints = signals_value [''SIGTERM'', ''SIGINT''], av_version = 1\<rparr>]"

definition signal_context :: selection_context where
  "signal_context = \<lparr>cx_generation = num 1, cx_policyDigest = D_str (replicate 64 0x61), cx_principal = text_v ''app'', cx_processId = text_v ''p1''\<rparr>"

text \<open>The digests need not be computed to see that they exist.\<close>

lemma digest_exists: "canonicalJson nt v = Inr t \<Longrightarrow> canonicalDigest nt v = Inr (js (hashOwnedBytes (encodeUtf8 t)))"
  by (simp add: canonicalDigest_def mapR_def)

lemma bound_signal:
  "\<exists>b a. bind_capability plain_platform branch 1 d p q (''host.process.signal'', object [(''signals'', texts [s])]) = Inr (b, a)"
proof -
  have name: "CAPABILITY_DEFINITION_BY_NAME ''host.process.signal'' =
      Some (capability ''host.process.signal'' ''process'' ''ProcessSignalCapabilityConstraintsV1'' ''host.process'')"
    by code_simp
  have json: "\<exists>t. canonicalJson nt (D_list xs) = Inr t" if "\<forall>x \<in> set xs. \<exists>t. canonicalJson nt x = Inr t" for nt xs
    using mapE_total [of xs "canonicalJson nt" "\<lambda>t. True"] that by (auto simp: mapR_def)
  have strings: "\<exists>t. canonicalJson nt (text_v n) = Inr t" "\<exists>t. canonicalJson nt (D_str u) = Inr t" "\<exists>t. canonicalJson nt (num i) = Inr t"
    for nt n u i by (simp_all add: text_v_def num_def)
  have map: "\<exists>t. canonicalJson nt (object [(k, texts [s])]) = Inr t" for nt k
    using json [of "[D_str s]" nt] strings by (auto simp: object_def texts_def js_sort_def)
  have digest: "\<exists>d. canonicalDigest nt (D_list xs) = Inr d" if "\<forall>x \<in> set xs. \<exists>t. canonicalJson nt x = Inr t" for nt xs
    using json [OF that] digest_exists by blast
  let ?nt = "number_text plain_platform" and ?c = "object [(''signals'', texts [s])]"
  obtain sd where sd: "canonicalDigest ?nt (D_list [text_v ''capability'', text_v ''host.process.signal'', num 1, ?c]) = Inr sd"
    using digest [of "[text_v ''capability'', text_v ''host.process.signal'', num 1, ?c]" ?nt] strings map by auto
  obtain bd where bd: "canonicalDigest ?nt (D_list [text_v ''capabilityBinding'', D_str sd, D_str branch, D_str d, D_str q, num 1]) = Inr bd"
    using digest [of "[text_v ''capabilityBinding'', D_str sd, D_str branch, D_str d, D_str q, num 1]" ?nt] strings by auto
  obtain ad where ad: "canonicalDigest ?nt (D_list [text_v ''authority'', text_v ''host.process'', ?c, D_str p, num 1, D_str bd]) = Inr ad"
    using digest [of "[text_v ''authority'', text_v ''host.process'', ?c, D_str p, num 1, D_str bd]" ?nt] strings map by auto
  show ?thesis unfolding bind_capability_def Let_def prod.case sd bd bindR_simps name option.case by (simp add: capability_def ad)
qed

definition signal_ref :: "string \<Rightarrow> string \<Rightarrow> capability_branch" where
  "signal_ref name signal =
     \<lparr>allOf = [\<lparr>r_name = ''host.process.signal'', r_constraints = object [(''signals'', texts [js signal])]\<rparr>], branchId = js name\<rparr>"

lemma signal_branches:
  "normalizeCapabilityRequirement plain_platform signal_requirement = Inr [signal_ref ''killer'' ''SIGKILL'', signal_ref ''stopper'' ''SIGTERM'']"
  by code_simp

lemma signal_selection:
  "\<exists>s. selectCapabilityBranch plain_platform signal_requirement signal_available signal_context = Inr (Some s) \<and> s_branchId s = js ''stopper''"
proof -
  let ?c = "\<lambda>signal. object [(''signals'', texts [js signal])]"
  have av: "availableMap plain_platform signal_available [] = Inr [(''host.process.signal'', object [(''signals'', texts [js ''SIGINT'', js ''SIGTERM''])])]"
    by code_simp
  have no: "some_unsatisfied plain_platform [(''host.process.signal'', object [(''signals'', texts [js ''SIGINT'', js ''SIGTERM''])])]
      [(''host.process.signal'', ?c ''SIGKILL'')] = Inr True"
    and yes: "some_unsatisfied plain_platform [(''host.process.signal'', object [(''signals'', texts [js ''SIGINT'', js ''SIGTERM''])])]
      [(''host.process.signal'', ?c ''SIGTERM'')] = Inr False"
    by code_simp+
  have merged: "mergeRequired plain_platform (allOf (signal_ref n x)) = Inr (Some [(''host.process.signal'', ?c x)])" for n x
    by (simp add: mergeRequired_def signal_ref_def map_set_def)
  have "(0x61 :: u16) \<in> set (js ''0123456789abcdef'')" by code_simp
  then have digest: "hex_digest (cx_policyDigest signal_context) = Inr (replicate 64 0x61)"
    by (simp add: signal_context_def hex_digest_def list_all_iff)
  have generation: "integer (cx_generation signal_context) 1 MAX_SAFE_INTEGER = Inr 1"
    by (simp add: signal_context_def integer_Inr MAX_SAFE_INTEGER_def)
  have names: "string_v (text_v ''app'') 256 = Inr (js ''app'')" "identifier_v (text_v ''p1'') 128 = Inr (js ''p1'')"
    by code_simp+
  have cx: "cx_principal signal_context = text_v ''app''" "cx_processId signal_context = text_v ''p1''" by (simp_all add: signal_context_def)
  obtain b a where one: "bind_capability plain_platform (js ''stopper'') 1 (replicate 64 0x61) (js ''app'') (js ''p1'')
      (''host.process.signal'', ?c ''SIGTERM'') = Inr (b, a)"
    using bound_signal by blast
  have id: "branchId (signal_ref n x) = js n" for n x by (simp add: signal_ref_def)
  show ?thesis unfolding selectCapabilityBranch_def signal_branches av digest generation cx names bindR_simps select_from.simps merged option.case no yes if_True if_False id
    by (simp add: one mapR_def)
qed

theorem selection_is_the_first_that_fits_witness:
  "map_option branchId (find (fits plain_platform signal_available) [signal_ref ''killer'' ''SIGKILL'', signal_ref ''stopper'' ''SIGTERM'']) =
     Some (js ''stopper'')"
proof -
  obtain s where s: "selectCapabilityBranch plain_platform signal_requirement signal_available signal_context = Inr (Some s)"
    "s_branchId s = js ''stopper''" using signal_selection by blast
  from selection_is_the_first_that_fits [OF plain_platform_ok s(1) signal_branches] s(2) show ?thesis by simp
qed

theorem selection_grants_no_more_witness:
  "\<exists>s. selectCapabilityBranch plain_platform signal_requirement signal_available signal_context = Inr (Some s) \<and>
     (\<exists>b \<in> set (bindings s). b_name b = ''host.process.signal'' \<and>
        capabilitySatisfies plain_platform ''host.process.signal'' (signals_value [''SIGTERM'', ''SIGINT'']) (b_constraints b) = Inr True)"
proof -
  obtain s where s: "selectCapabilityBranch plain_platform signal_requirement signal_available signal_context = Inr (Some s)"
    using signal_selection by blast
  have need: "requirement s = [signal_ref ''killer'' ''SIGKILL'', signal_ref ''stopper'' ''SIGTERM'']"
    using s unfolding selectCapabilityBranch_def signal_branches bindR_simps mapR_def bindR_Inr by auto
  from selection_grants_no_more [OF plain_platform_ok s] obtain branch where
    branch: "branch \<in> set (requirement s)" "b_name ` set (bindings s) = r_name ` set (allOf branch)"
    and all: "\<forall>b \<in> set (bindings s). \<forall>v \<in> set signal_available. av_name v = b_name b \<longrightarrow>
      capabilitySatisfies plain_platform (b_name b) (av_constraints v) (b_constraints b) = Inr True" by blast
  have "b_name ` set (bindings s) = {''host.process.signal''}"
    using branch unfolding need by (auto simp: signal_ref_def)
  then have "''host.process.signal'' \<in> b_name ` set (bindings s)" by blast
  then obtain b where b: "b \<in> set (bindings s)" "b_name b = ''host.process.signal''" by (elim imageE) (rule that, assumption, rule sym)
  have "capabilitySatisfies plain_platform ''host.process.signal'' (signals_value [''SIGTERM'', ''SIGINT'']) (b_constraints b) = Inr True"
    using bspec [OF all b(1)] b(2) by (simp add: signal_available_def)
  then show ?thesis using s b by blast
qed

end
