(* ===== verification/Spec2Isabelle.thy ===== *)
theory Spec2Isabelle
  imports Loop_Properties Timers Sha Gcm_Correct Crypto_Utf8 Fs_Atomic Fs_Streams Fs_Events Fs_Fuel Bridge_Properties
    Capability_Witness
begin

text \<open>
  A verification library for Holonomy, a JavaScript runtime whose guests reach the host only through
  capabilities.  Paths below are relative to \<open>packages/\<close> of the repository's sources.

  \<^bold>\<open>The parts and how they meet.\<close>  A guest program runs inside the turns of an \<^emph>\<open>event loop\<close>
  (\<open>runtime/src/event-loop\<close>), which owns every task, timer, check-phase callback and native completion.
  The \<^emph>\<open>timer facades\<close> (\<open>runtime/src/timers\<close>) hand guests Node's and the web's timers over that loop.  Calls
  that leave the runtime go through the \<^emph>\<open>native bridge\<close> (\<open>runtime/src/native-port\<close>): it checks authority,
  quotas and values, passes the request to a provider, and turns the provider's events into tasks of the loop.
  One such provider is the \<^emph>\<open>in-memory file system\<close> (\<open>capabilities/fs/src/node\<close>).  What a guest may ask of
  the host at all is decided by the \<^emph>\<open>kernel\<close> (\<open>runtime/src/kernel\<close>): it normalizes the constraints of
  capabilities, compares and meets them, and selects the branch of an operation's requirement that the policy
  covers.  The \<^emph>\<open>crypto\<close> module
  (\<open>runtime/src/crypto\<close>) and the \<^emph>\<open>UTF-8 codecs\<close> are libraries of pure code that the guest facades, the module
  loader and the bridge's byte accounting use.

  \<^bold>\<open>Foundations.\<close>  \<open>Prelude\<close>: JavaScript numbers, finite maps with a domain, the generic list lemmas.
  \<open>Js_Maps\<close>: a JavaScript \<open>Map\<close> as an association list in insertion order.  \<open>Js_Values\<close>: values that cross the
  port, references into a heap of plain objects and arrays included.  \<open>Bytes\<close>: bytes, big- and little-endian
  words.

  \<^bold>\<open>Event loop\<close> (\<open>runtime-event-loop.ts\<close>, \<open>types.ts\<close>).  \<open>Loop_Types\<close> and \<open>Loop_Core\<close> hold the record of the
  loop's fields and its private steps, \<open>Loop_Ops\<close> admission, cancellation and selection, \<open>Loop_Turn\<close> the public
  methods as one dispatch (\<open>api_call\<close>), the execution of a callback and \<open>runTurn\<close>.  A callback of the guest is a
  list of calls on the loop followed by a return or a throw; the clock is a parameter.  \<open>Loop_Invariant\<close> and
  \<open>Loop_Steps\<close> prove the well-formedness of every reachable loop (unique ids, queues in order, one record per
  native request); \<open>Loop_Selection\<close> the order in which work runs and that cancelled ids never return;
  \<open>Loop_Wakeup\<close> that the wakeup asked of the host is never too late; \<open>Loop_Results\<close> what a turn returns, and how
  intervals advance.  \<open>Loop_Properties\<close> states the properties with runs on concrete hosts.  The drain of the
  next ticks ends because each callback spends one unit of the turn's callback budget.

  \<^bold>\<open>Timers\<close> (\<open>runtime-timers.ts\<close>, and the immediates of the desktop and Node bootstraps).  \<open>Timers\<close> models the two
  facades over the loop and shows that what a facade has armed is what it has on record.

  \<^bold>\<open>Crypto\<close> (\<open>sha.ts\<close>, \<open>hmac.ts\<close>, \<open>aes-block.ts\<close>, \<open>aes-gcm.ts\<close>, \<open>crypto-utf8.ts\<close>, \<open>utf8.ts\<close>).  \<open>Sha\<close> models the
  incremental objects on 32-bit words and proves them equal to the one-shot functions of the standards
  whatever the chunks.  \<open>Aes_Gcm\<close> models the cipher and \<open>Gcm_Correct\<close> proves that the incremental object computes
  counter mode and its tag, that decryption inverts encryption, and that the product is a ring's.
  \<open>Utf8\<close> and \<open>Crypto_Utf8\<close> model the codecs, their round trip and their agreement.

  \<^bold>\<open>Native bridge\<close> (\<open>native-bridge.ts\<close>, \<open>types.ts\<close>, \<open>value-validation.ts\<close>, \<open>event-validation.ts\<close>,
  \<open>request-validation.ts\<close>, \<open>error-data.ts\<close>).  \<open>Value_Validation\<close>, \<open>Event_Validation\<close> and \<open>Request_Validation\<close> model
  the checks; \<open>Clone_Correct\<close> proves the bounded copy of JSON data exact.  \<open>Bridge_State\<close>, \<open>Bridge_Ops\<close>,
  \<open>Bridge_Port\<close> and \<open>Bridge_Admission\<close> model the controller: its record of pending requests, outputs, resources
  and counters, and one definition per method.  Histories are lists of \<open>bridge_call\<close>s folded by
  \<open>bridge_step\<close>; a provider's behaviour is the list of the events it sends.  \<open>Bridge_Books\<close> defines the
  accounts (each counter is a sum over the objects that hold it), \<open>Bridge_Accounts\<close>, \<open>Bridge_Keep\<close>,
  \<open>Bridge_Reserve\<close>, \<open>Bridge_Invariant\<close> and \<open>Bridge_Reach\<close> prove that every step keeps them,
  \<open>Bridge_Control\<close> and \<open>Bridge_Disposal\<close> that a disposed bridge is empty and stays so.

  \<^bold>\<open>In-memory file system\<close> (\<open>memory-provider.ts\<close>, \<open>path.ts\<close>, \<open>types.ts\<close>, \<open>authority.ts\<close>).  \<open>Fs_Path\<close>, \<open>Fs_Types\<close>,
  \<open>Fs_Heap\<close>, \<open>Fs_Ops\<close> and \<open>Fs_Provider\<close> model paths, authorities, the heap of entries, the operations and the
  entry points of the port, in a state-and-error style (\<open>fs_op\<close>).  \<open>Fs_Rules\<close> has the weakest-precondition rules;
  \<open>Fs_Invariant\<close>, \<open>Fs_Keep\<close>, \<open>Fs_Clone\<close>, \<open>Fs_Preserve\<close> and \<open>Fs_Bounds\<close> the invariant (a forest of entries with link
  counts, handles and transactions in order); \<open>Fs_Access\<close> confinement and read-only authorities; \<open>Fs_Files\<close>,
  \<open>Fs_Atomic\<close>, \<open>Fs_Streams\<close> and \<open>Fs_Events\<close> what operations do to files, paths and events.

  \<^bold>\<open>Kernel capabilities\<close> (\<open>validation.ts\<close>, \<open>canonical-json.ts\<close>, \<open>capability-constraints.ts\<close>,
  \<open>capability-satisfies.ts\<close>, \<open>capability-meet.ts\<close>, \<open>capability-selection.ts\<close>, and the normalizers of the process
  and storage packages).  A value of a policy is a \<open>data\<close> tree and a check returns the value it accepts or the
  error it throws.  \<open>Kernel_Validation\<close> holds the checks, \<open>Kernel_Json\<close> the canonical text that digests are made
  of and its unambiguity.  \<open>Capability_Constraints\<close> and \<open>Capability_Meet\<close> translate normalization, comparison and
  meet for every capability name.  \<open>Capability_Order\<close> turns the tests on names into a \<open>kind\<close> and proves the comparison
  transitive; \<open>Capability_Normal\<close> and \<open>Capability_Shapes\<close> say what each normal form looks like;
  \<open>Capability_Lattice\<close> that the meet of two normal forms is their greatest lower bound, \<open>Capability_Equal\<close> and
  \<open>Capability_Idempotent\<close> that normalization changes nothing that matters and nothing twice, \<open>Capability_Laws\<close> and
  \<open>Capability_Closed\<close> the same over raw values.  \<open>Capability_Selection\<close> models the selection and \<open>Capability_Choice\<close>
  proves, through the locale \<open>constraint_meets\<close> interpreted on the capabilities, that it grants no more than both
  sides allow.  \<open>Capability_Witness\<close> holds a concrete platform and runs on it.

  \<^bold>\<open>Fuel.\<close>  The recursions over directory trees carry the number of allocated entries as fuel;
  \<open>tree_walks_terminate\<close> (\<open>Fs_Fuel\<close>) proves that in every well-formed state the bound is not reached.  Symbolic
  links are followed at most 40 times, as in the source.  The copy of JSON data ends by the source's depth
  limit.  Everything else is total by structural recursion or a measure.

  \<^bold>\<open>Assumed of the host.\<close>  Clocks, microtask draining of the engine, the provider behind the bridge,
  \<open>new URL\<close>, \<open>localeCompare\<close>, \<open>toLowerCase\<close> and the number format of JSON are arguments of the definitions that
  use them; \<open>platform_ok\<close> and \<open>number_format\<close> state what is used of the last four.

  \<^bold>\<open>Not modelled.\<close>  The kernel's broker beyond the selection of capabilities, the module loader, the HTTP server, the router of native providers,
  network, streams, storage and process capabilities, and the guest facades of Node's modules: promise plumbing
  and callbacks of guest code around the parts above, or behaviour of the operating system.  In the values that
  cross the port, proxies and accessor properties are left out: an object is a table of data properties.
  A provider of the bridge does not call back into the bridge while one of its methods runs; its events arrive
  between calls.  Native hosts, build tools, tests, examples and vendored code are outside the program.
\<close>

end
